(* ===== verification/Kbfs_Prelude.thy ===== *)
theory Kbfs_Prelude
  imports Main "HOL-Library.Word"
begin

text \<open>
  Shared vocabulary of the development: bytes and the Go integer widths, the way a Go call
  can end (a value, a returned error, a panic), sequencing of such calls, Go's slice
  operations on lists, and the generic lemmas that the component theories use.
\<close>

unbundle bit_operations_syntax

named_theorems go_defs \<open>definitions of the Go primitives, unfolded by the component proofs\<close>

named_theorems go_inv \<open>preservation lemmas of the component invariants\<close>

section \<open>Machine integers\<close>

type_synonym byte = "8 word"
type_synonym uint32 = "32 word"
type_synonym uint64 = "64 word"

text \<open>
  A Go \<open>int64\<close> (and \<open>int\<close>, which is 64 bits wide on the platforms kbfs ships for) is an
  \<open>int\<close>; every addition and subtraction of the source goes through \<open>wrap64\<close>, which
  brings the mathematical result back into range the way two's complement does.
\<close>

definition wrap64 :: "int \<Rightarrow> int" where
  "wrap64 x = (x + 2 ^ 63) mod 2 ^ 64 - 2 ^ 63"

definition in64 :: "int \<Rightarrow> bool" where
  "in64 x \<longleftrightarrow> - (2 ^ 63) \<le> x \<and> x < 2 ^ 63"

lemma wrap64_id [simp]: "in64 x \<Longrightarrow> wrap64 x = x"
  by (simp add: wrap64_def in64_def)

lemma wrap64_in64 [simp]: "in64 (wrap64 x)"
proof -
  have "0 \<le> (x + 2 ^ 63) mod 2 ^ 64" and "(x + 2 ^ 63) mod 2 ^ 64 < (2 ^ 64 :: int)"
    by simp_all
  then show ?thesis by (simp add: wrap64_def in64_def)
qed

lemma in64_between: "in64 a \<Longrightarrow> in64 b \<Longrightarrow> a \<le> x \<Longrightarrow> x \<le> b \<Longrightarrow> in64 x"
  by (simp add: in64_def)

lemma in64_0 [simp]: "in64 0"
  by (simp add: in64_def)

lemma in64_diff: "in64 a \<Longrightarrow> 0 \<le> b \<Longrightarrow> 0 \<le> a \<Longrightarrow> in64 b \<Longrightarrow> in64 (a - b)"
  by (simp add: in64_def)

text \<open>Sums and differences of sizes within a size that is in range.\<close>

lemma wrap64_nat: "in64 (int N) \<Longrightarrow> n \<le> N \<Longrightarrow> wrap64 (int n) = int n"
  by (rule wrap64_id) (simp add: in64_def)

lemma wrap64_nat_sum: "in64 (int N) \<Longrightarrow> a + b \<le> N \<Longrightarrow> wrap64 (int a + int b) = int (a + b)"
  using wrap64_nat[of N "a + b"] by simp

lemma wrap64_nat_diff: "in64 (int N) \<Longrightarrow> a \<le> N \<Longrightarrow> b \<le> a \<Longrightarrow> wrap64 (int a - int b) = int (a - b)"
  using wrap64_nat[of N "a - b"] by (simp add: of_nat_diff)

section \<open>How a Go call ends\<close>

text \<open>
  A call returns a value (\<open>Inr\<close>), returns a non-nil error (\<open>Inl (Error e)\<close>), or panics
  (\<open>Inl (Panic p)\<close>). The error and the panic payload are of the component's error type.
\<close>

datatype 'e fault = Error 'e | Panic 'e

type_synonym ('e, 'a) result = "'e fault + 'a"

definition bindR :: "('e, 'a) result \<Rightarrow> ('a \<Rightarrow> ('e, 'b) result) \<Rightarrow> ('e, 'b) result" where
  "bindR r k = (case r of Inl f \<Rightarrow> Inl f | Inr x \<Rightarrow> k x)"

lemma bindR_simps [simp]:
  "bindR (Inl f) k = Inl f"
  "bindR (Inr x) k = k x"
  by (simp_all add: bindR_def)

lemma bindR_Inr_iff:
  "bindR r k = Inr y \<longleftrightarrow> (\<exists>x. r = Inr x \<and> k x = Inr y)"
  by (cases r) auto

lemma bindR_Inl_iff:
  "bindR r k = Inl f \<longleftrightarrow> r = Inl f \<or> (\<exists>x. r = Inr x \<and> k x = Inl f)"
  by (cases r) auto

lemma bindR_assoc: "bindR (bindR r k) h = bindR r (\<lambda>x. bindR (k x) h)"
  by (cases r) auto

text \<open>A Go \<open>for ... range\<close> loop whose body can return early with an error.\<close>

primrec foldR :: "('s \<Rightarrow> 'a \<Rightarrow> ('e, 's) result) \<Rightarrow> 's \<Rightarrow> 'a list \<Rightarrow> ('e, 's) result" where
  "foldR f s [] = Inr s"
| "foldR f s (x # xs) = bindR (f s x) (\<lambda>s'. foldR f s' xs)"

lemma foldR_append [simp]:
  "foldR f s (xs @ ys) = bindR (foldR f s xs) (\<lambda>s'. foldR f s' ys)"
  by (induction xs arbitrary: s) (auto simp: bindR_assoc)

lemma foldR_invariant:
  assumes "foldR f s xs = Inr s'" and "P s"
    and "\<And>s x s'. P s \<Longrightarrow> x \<in> set xs \<Longrightarrow> f s x = Inr s' \<Longrightarrow> P s'"
  shows "P s'"
  using assms
proof (induction xs arbitrary: s)
  case Nil
  then show ?case by simp
next
  case (Cons x xs)
  from Cons.prems(1) obtain t where t: "f s x = Inr t" "foldR f t xs = Inr s'"
    by (auto simp: bindR_Inr_iff)
  have "P t" by (rule Cons.prems(3)[OF Cons.prems(2) _ t(1)]) simp
  show ?case
    by (rule Cons.IH[OF t(2) \<open>P t\<close>]) (use Cons.prems(3) in auto)
qed

section \<open>Calls that change state\<close>

text \<open>
  A call that reads and changes a state and can end in an error or a panic. The state is that of the
  end of the call however it ends: what a call has changed before it returns an error stays changed.
\<close>

type_synonym ('s, 'e, 'a) act = "'s \<Rightarrow> ('e, 'a) result \<times> 's"

definition retA :: "'a \<Rightarrow> ('s, 'e, 'a) act" where
  "retA x s = (Inr x, s)"

definition failA :: "'e fault \<Rightarrow> ('s, 'e, 'a) act" where
  "failA f s = (Inl f, s)"

definition readA :: "('s \<Rightarrow> 'a) \<Rightarrow> ('s, 'e, 'a) act" where
  "readA f s = (Inr (f s), s)"

definition updA :: "('s \<Rightarrow> 's) \<Rightarrow> ('s, 'e, unit) act" where
  "updA f s = (Inr (), f s)"

definition bindA :: "('s, 'e, 'a) act \<Rightarrow> ('a \<Rightarrow> ('s, 'e, 'b) act) \<Rightarrow> ('s, 'e, 'b) act" where
  "bindA m k s = (case m s of (r, s') \<Rightarrow> (case r of Inl f \<Rightarrow> (Inl f, s') | Inr x \<Rightarrow> k x s'))"

text \<open>A nil value or a failed index.\<close>

definition theA :: "'e fault \<Rightarrow> 'a option \<Rightarrow> ('s, 'e, 'a) act" where
  "theA f x = (case x of None \<Rightarrow> failA f | Some a \<Rightarrow> retA a)"

lemma act_simps [simp]:
  "retA x s = (Inr x, s)" "failA f s = (Inl f, s)" "readA g s = (Inr (g s), s)" "updA h s = (Inr (), h s)"
  "theA f (Some a) = retA a" "theA f None = failA f"
  by (simp_all add: retA_def failA_def readA_def updA_def theA_def)

lemma bindA_run [simp]:
  "m s = (Inr x, s') \<Longrightarrow> bindA m k s = k x s'"
  "m s = (Inl f, s') \<Longrightarrow> bindA m k s = (Inl f, s')"
  by (simp_all add: bindA_def)

lemma bindA_basic [simp]:
  "bindA (retA x) k s = k x s" "bindA (failA f) k' s = (Inl f, s)" "bindA (readA g) k s = k (g s) s"
  "bindA (updA h) k'' s = k'' () (h s)"
  by (simp_all add: bindA_def)

lemma bindA_assoc: "bindA (bindA m k) h s = bindA m (\<lambda>x. bindA (k x) h) s"
  by (auto simp: bindA_def split: prod.split sum.split)

primrec foldA :: "('x \<Rightarrow> 'b \<Rightarrow> ('s, 'e, 'x) act) \<Rightarrow> 'x \<Rightarrow> 'b list \<Rightarrow> ('s, 'e, 'x) act" where
  "foldA f x [] = retA x"
| "foldA f x (b # bs) = bindA (f x b) (\<lambda>x'. foldA f x' bs)"

section \<open>Lists and maps\<close>

text \<open>Dropping a key of a Go map is \<open>m(k := None)\<close>; these are the facts used about it.\<close>

lemma finite_dom_upd_None [simp]: "finite (dom m) \<Longrightarrow> finite (dom (m(k := None)))"
  by (simp add: dom_def) (erule finite_subset[rotated], auto)

lemma card_dom_upd_None:
  "finite (dom m) \<Longrightarrow> k \<in> dom m \<Longrightarrow> card (dom (m(k := None))) = card (dom m) - 1"
  by simp

lemma dom_eq_empty_iff: "dom m = {} \<longleftrightarrow> m = Map.empty"
  by auto

lemma take_last_Cons: "xs \<noteq> [] \<Longrightarrow> butlast xs @ [last xs] = xs"
  by simp

end
