(* ===== verification/Kbfs_Hash.thy ===== *)
theory Kbfs_Hash
  imports Kbfs_Prelude
begin

text \<open>
  The keybase hash format of libkbfs/hash.go and the identifiers built on it
  (block\_id.go, md\_id.go, tlf\_id.go, branch\_id.go). The parts of Go's standard library the
  source uses (package hex, package sha256, package hmac) are modelled first, executably.
\<close>

section \<open>Package hex\<close>

definition hexDigits :: string where
  "hexDigits = ''0123456789abcdef''"

definition EncodeByte :: "byte \<Rightarrow> string" where
  "EncodeByte b = [hexDigits ! (unat b div 16), hexDigits ! (unat b mod 16)]"

definition EncodeToString :: "byte list \<Rightarrow> string" where
  "EncodeToString bs = concat (map EncodeByte bs)"

definition fromHexChar :: "char \<Rightarrow> nat option" where
  "fromHexChar c =
     (let n = of_char c :: nat in
      if of_char CHR ''0'' \<le> n \<and> n \<le> of_char CHR ''9'' then Some (n - of_char CHR ''0'')
      else if of_char CHR ''a'' \<le> n \<and> n \<le> of_char CHR ''f'' then Some (n - of_char CHR ''a'' + 10)
      else if of_char CHR ''A'' \<le> n \<and> n \<le> of_char CHR ''F'' then Some (n - of_char CHR ''A'' + 10)
      else None)"

text \<open>\<open>None\<close> is the error of \<open>hex.DecodeString\<close>: an odd length or a character that is no digit.\<close>

fun DecodeString :: "string \<Rightarrow> byte list option" where
  "DecodeString [] = Some []"
| "DecodeString [c] = None"
| "DecodeString (a # b # cs) =
     (case (fromHexChar a, fromHexChar b) of
        (Some x, Some y) \<Rightarrow> map_option (\<lambda>bs. of_nat (16 * x + y) # bs) (DecodeString cs)
      | _ \<Rightarrow> None)"

lemma fromHexChar_digit:
  assumes "n < 16"
  shows "fromHexChar (hexDigits ! n) = Some n"
proof -
  have "\<forall>n \<in> set [0..<16]. fromHexChar (hexDigits ! n) = Some n"
    by (simp add: upt_rec hexDigits_def fromHexChar_def Let_def)
  then show ?thesis using assms by simp
qed

lemma unat_byte_lt: "unat (b :: byte) < 256"
  using unsigned_less[of b] by simp

lemma EncodeByte_digits:
  "fromHexChar (hexDigits ! (unat (b :: byte) div 16)) = Some (unat b div 16)"
  "fromHexChar (hexDigits ! (unat (b :: byte) mod 16)) = Some (unat b mod 16)"
  using unat_byte_lt[of b] by (auto intro!: fromHexChar_digit)

lemma DecodeString_Encode [simp]: "DecodeString (EncodeToString bs) = Some bs"
proof (induction bs)
  case Nil
  then show ?case by (simp add: EncodeToString_def)
next
  case (Cons b bs)
  have "EncodeToString (b # bs) = EncodeByte b @ EncodeToString bs"
    by (simp add: EncodeToString_def)
  moreover have "of_nat (16 * (unat b div 16) + unat b mod 16) = (b :: byte)"
    by (simp only: mult_div_mod_eq) simp
  ultimately show ?case
    using Cons by (simp add: EncodeByte_def EncodeByte_digits)
qed

lemma length_EncodeToString [simp]: "length (EncodeToString bs) = 2 * length bs"
  by (induction bs) (auto simp: EncodeToString_def EncodeByte_def)

lemma length_DecodeString: "DecodeString s = Some bs \<Longrightarrow> length s = 2 * length bs"
  by (induction s arbitrary: bs rule: DecodeString.induct) (auto split: option.splits)

section \<open>Package sha256\<close>

text \<open>
  The constants of SHA-256 are computed from their definition: the first 32 fractional bits of the
  cube roots of the first 64 primes and of the square roots of the first eight. \<open>iroot k n\<close> is the
  integer \<open>k\<close>-th root of \<open>n\<close>, found bit by bit.
\<close>

definition iroot :: "nat \<Rightarrow> nat \<Rightarrow> nat" where
  "iroot k n = foldl (\<lambda>r b. if (r + 2 ^ b) ^ k \<le> n then r + 2 ^ b else r) 0 (rev [0..<37])"

definition sha256_primes :: "nat list" where
  "sha256_primes = filter (\<lambda>n. list_all (\<lambda>d. n mod d \<noteq> 0) [2..<n]) [2..<312]"

definition sha256_K :: "uint32 list" where
  "sha256_K = map (\<lambda>p. of_nat (iroot 3 (p * 2 ^ 96))) sha256_primes"

type_synonym sha_state =
  "uint32 \<times> uint32 \<times> uint32 \<times> uint32 \<times> uint32 \<times> uint32 \<times> uint32 \<times> uint32"

definition sha256_H :: "nat \<Rightarrow> uint32" where
  "sha256_H i = of_nat (iroot 2 (sha256_primes ! i * 2 ^ 64))"

definition sha256_init :: sha_state where
  "sha256_init =
     (sha256_H 0, sha256_H 1, sha256_H 2, sha256_H 3, sha256_H 4, sha256_H 5, sha256_H 6, sha256_H 7)"

definition rotr :: "nat \<Rightarrow> uint32 \<Rightarrow> uint32" where
  "rotr n x = drop_bit n x OR push_bit (32 - n) x"

definition sha256_pad :: "byte list \<Rightarrow> byte list" where
  "sha256_pad p =
     p @ [0x80] @ replicate ((119 - length p mod 64) mod 64) 0 @
     map (\<lambda>i. of_nat (8 * length p div 256 ^ i)) (rev [0..<8])"

definition be32 :: "byte \<Rightarrow> byte \<Rightarrow> byte \<Rightarrow> byte \<Rightarrow> uint32" where
  "be32 a b c d = push_bit 24 (ucast a) OR push_bit 16 (ucast b) OR push_bit 8 (ucast c) OR ucast d"

fun words_of :: "byte list \<Rightarrow> uint32 list" where
  "words_of (a # b # c # d # bs) = be32 a b c d # words_of bs"
| "words_of _ = []"

definition sha256_next :: "uint32 list \<Rightarrow> uint32" where
  "sha256_next w =
     (let t = length w; x = w ! (t - 15); y = w ! (t - 2);
          s0 = rotr 7 x XOR rotr 18 x XOR drop_bit 3 x;
          s1 = rotr 17 y XOR rotr 19 y XOR drop_bit 10 y
      in s1 + w ! (t - 7) + s0 + w ! (t - 16))"

fun sha256_schedule :: "nat \<Rightarrow> uint32 list \<Rightarrow> uint32 list" where
  "sha256_schedule 0 w = w"
| "sha256_schedule (Suc n) w = sha256_schedule n (w @ [sha256_next w])"

fun sha256_round :: "sha_state \<Rightarrow> uint32 \<times> uint32 \<Rightarrow> sha_state" where
  "sha256_round (a, b, c, d, e, f, g, h) (k, w) =
     (let t1 = h + (rotr 6 e XOR rotr 11 e XOR rotr 25 e) + ((e AND f) XOR (NOT e AND g)) + k + w;
          t2 = (rotr 2 a XOR rotr 13 a XOR rotr 22 a) + ((a AND b) XOR (a AND c) XOR (b AND c))
      in (t1 + t2, a, b, c, d + t1, e, f, g))"

fun sha_add :: "sha_state \<Rightarrow> sha_state \<Rightarrow> sha_state" where
  "sha_add (a, b, c, d, e, f, g, h) (a', b', c', d', e', f', g', h') =
     (a + a', b + b', c + c', d + d', e + e', f + f', g + g', h + h')"

definition sha256_block :: "sha_state \<Rightarrow> byte list \<Rightarrow> sha_state" where
  "sha256_block s blk =
     sha_add s (foldl sha256_round s (zip sha256_K (sha256_schedule 48 (words_of blk))))"

fun sha256_blocks :: "nat \<Rightarrow> sha_state \<Rightarrow> byte list \<Rightarrow> sha_state" where
  "sha256_blocks 0 s bs = s"
| "sha256_blocks (Suc n) s bs = sha256_blocks n (sha256_block s (take 64 bs)) (drop 64 bs)"

definition bytes_be :: "uint32 \<Rightarrow> byte list" where
  "bytes_be x = [ucast (drop_bit 24 x), ucast (drop_bit 16 x), ucast (drop_bit 8 x), ucast x]"

fun sha_bytes :: "sha_state \<Rightarrow> byte list" where
  "sha_bytes (a, b, c, d, e, f, g, h) = concat (map bytes_be [a, b, c, d, e, f, g, h])"

definition Sum256 :: "byte list \<Rightarrow> byte list" where
  "Sum256 p = (let m = sha256_pad p in sha_bytes (sha256_blocks (length m div 64) sha256_init m))"

lemma length_Sum256 [simp]: "length (Sum256 p) = 32"
proof -
  have "length (sha_bytes s) = 32" for s
    by (cases s rule: sha_bytes.cases) (simp add: bytes_be_def)
  then show ?thesis by (simp add: Sum256_def Let_def)
qed

text \<open>\<open>hmac.New(sha256.New, key)\<close>, one \<open>Write\<close> and \<open>Sum(nil)\<close>, with the block size 64.\<close>

definition hmac_sha256 :: "byte list \<Rightarrow> byte list \<Rightarrow> byte list" where
  "hmac_sha256 key msg =
     (let k = (if length key > 64 then Sum256 key else key);
          kp = k @ replicate (64 - length k) 0
      in Sum256 (map (\<lambda>b. b XOR 0x5c) kp @ Sum256 (map (\<lambda>b. b XOR 0x36) kp @ msg)))"

lemma length_hmac_sha256 [simp]: "length (hmac_sha256 key msg) = 32"
  by (simp add: hmac_sha256_def Let_def)

section \<open>hash.go\<close>

datatype Hash = Hash (hash_h: "byte list")

abbreviation zeroHash :: Hash where
  "zeroHash \<equiv> Hash []"

datatype hash_error =
    HexError
  | InvalidHashError Hash
  | UnknownHashTypeError byte
  | HashMismatchError Hash Hash

definition MinHashByteLength :: nat where "MinHashByteLength = 33"
definition MaxHashByteLength :: nat where "MaxHashByteLength = 129"
definition InvalidHash :: byte where "InvalidHash = 0"
definition SHA256Hash :: byte where "SHA256Hash = 1"
definition DefaultHashType :: byte where "DefaultHashType = SHA256Hash"

lemmas hash_consts = MinHashByteLength_def MaxHashByteLength_def InvalidHash_def SHA256Hash_def
  DefaultHashType_def

definition DoRawDefaultHash :: "byte list \<Rightarrow> byte \<times> byte list" where
  "DoRawDefaultHash p = (DefaultHashType, Sum256 p)"

text \<open>\<open>h.h[0]\<close>; \<open>None\<close> is the index panic on the zero hash.\<close>

definition hashType :: "Hash \<Rightarrow> byte option" where
  "hashType h = (case hash_h h of [] \<Rightarrow> None | b # _ \<Rightarrow> Some b)"

definition hashData :: "Hash \<Rightarrow> byte list option" where
  "hashData h = (case hash_h h of [] \<Rightarrow> None | _ # bs \<Rightarrow> Some bs)"

definition Hash_IsValid :: "Hash \<Rightarrow> bool" where
  "Hash_IsValid h =
     (if length (hash_h h) < MinHashByteLength then False
      else if length (hash_h h) > MaxHashByteLength then False
      else if hashType h = Some InvalidHash then False
      else True)"

definition HashFromBytes :: "byte list \<Rightarrow> hash_error + Hash" where
  "HashFromBytes bs =
     (let h = Hash bs in if \<not> Hash_IsValid h then Inl (InvalidHashError h) else Inr h)"

definition HashFromRaw :: "byte \<Rightarrow> byte list \<Rightarrow> hash_error + Hash" where
  "HashFromRaw t raw = HashFromBytes (t # raw)"

definition HashFromString :: "string \<Rightarrow> hash_error + Hash" where
  "HashFromString s =
     (case DecodeString s of None \<Rightarrow> Inl HexError | Some bs \<Rightarrow> HashFromBytes bs)"

definition DefaultHash :: "byte list \<Rightarrow> hash_error + Hash" where
  "DefaultHash buf = (let (t, raw) = DoRawDefaultHash buf in HashFromRaw t raw)"

definition Hash_String :: "Hash \<Rightarrow> string" where
  "Hash_String h = EncodeToString (hash_h h)"

definition Hash_MarshalBinary :: "Hash \<Rightarrow> hash_error + byte list" where
  "Hash_MarshalBinary h =
     (if h = zeroHash then Inr []
      else if \<not> Hash_IsValid h then Inl (InvalidHashError h)
      else Inr (hash_h h))"

text \<open>
  \<open>UnmarshalBinary\<close> writes its receiver also when it fails: the new receiver and the
  returned error.
\<close>

definition Hash_UnmarshalBinary :: "byte list \<Rightarrow> Hash \<times> hash_error option" where
  "Hash_UnmarshalBinary bs =
     (if length bs = 0 then (zeroHash, None)
      else let h = Hash bs in
           if \<not> Hash_IsValid h then (zeroHash, Some (InvalidHashError h)) else (h, None))"

text \<open>\<open>Verify\<close> returns \<open>None\<close> for a nil error.\<close>

definition Hash_Verify :: "Hash \<Rightarrow> byte list \<Rightarrow> hash_error option" where
  "Hash_Verify h buf =
     (if \<not> Hash_IsValid h then Some (InvalidHashError h)
      else case hashType h of
             None \<Rightarrow> Some (InvalidHashError h)
           | Some t \<Rightarrow>
               if t \<noteq> DefaultHashType then Some (UnknownHashTypeError t)
               else case DefaultHash buf of
                      Inl e \<Rightarrow> Some e
                    | Inr expectedH \<Rightarrow>
                        if h \<noteq> expectedH then Some (HashMismatchError expectedH h) else None)"

datatype HMAC = HMAC (hmac_h: Hash)

definition DefaultHMAC :: "byte list \<Rightarrow> byte list \<Rightarrow> hash_error + HMAC" where
  "DefaultHMAC key buf =
     (case HashFromRaw DefaultHashType (hmac_sha256 key buf) of
        Inl e \<Rightarrow> Inl e | Inr h \<Rightarrow> Inr (HMAC h))"

definition HMAC_IsValid :: "HMAC \<Rightarrow> bool" where
  "HMAC_IsValid m = Hash_IsValid (hmac_h m)"

definition HMAC_Verify :: "HMAC \<Rightarrow> byte list \<Rightarrow> byte list \<Rightarrow> hash_error option" where
  "HMAC_Verify m key buf =
     (if \<not> HMAC_IsValid m then Some (InvalidHashError (hmac_h m))
      else case hashType (hmac_h m) of
             None \<Rightarrow> Some (InvalidHashError (hmac_h m))
           | Some t \<Rightarrow>
               if t \<noteq> DefaultHashType then Some (UnknownHashTypeError t)
               else case DefaultHMAC key buf of
                      Inl e \<Rightarrow> Some e
                    | Inr expected \<Rightarrow>
                        if m \<noteq> expected then Some (HashMismatchError (hmac_h expected) (hmac_h m))
                        else None)"

subsection \<open>Lemmas on hashes\<close>

lemma zeroHash_invalid [simp]: "\<not> Hash_IsValid zeroHash"
  by (simp add: Hash_IsValid_def hash_consts)

lemma HashFromBytes_Inr_iff: "HashFromBytes bs = Inr h \<longleftrightarrow> h = Hash bs \<and> Hash_IsValid h"
  by (auto simp: HashFromBytes_def Let_def)

lemma HashFromRaw_default:
  "length raw = 32 \<Longrightarrow> HashFromRaw DefaultHashType raw = Inr (Hash (DefaultHashType # raw))"
  by (simp add: HashFromRaw_def HashFromBytes_Inr_iff Hash_IsValid_def hashType_def hash_consts)

lemma DefaultHash_eq: "DefaultHash buf = Inr (Hash (DefaultHashType # Sum256 buf))"
  by (simp add: DefaultHash_def DoRawDefaultHash_def HashFromRaw_default)

lemma DefaultHMAC_eq: "DefaultHMAC key buf = Inr (HMAC (Hash (DefaultHashType # hmac_sha256 key buf)))"
  by (simp add: DefaultHMAC_def HashFromRaw_default)

lemma Hash_IsValid_default:
  "length raw = 32 \<Longrightarrow> Hash_IsValid (Hash (DefaultHashType # raw))"
  by (simp add: Hash_IsValid_def hashType_def hash_consts)

lemma Hash_Verify_None_iff:
  "Hash_Verify h buf = None \<longleftrightarrow> h = Hash (DefaultHashType # Sum256 buf)"
  by (auto simp: Hash_Verify_def DefaultHash_eq hashType_def Hash_IsValid_default split: list.splits)

lemma HMAC_Verify_None_iff:
  "HMAC_Verify m key buf = None \<longleftrightarrow> m = HMAC (Hash (DefaultHashType # hmac_sha256 key buf))"
  by (auto simp: HMAC_Verify_def HMAC_IsValid_def DefaultHMAC_eq hashType_def Hash_IsValid_default
      split: list.splits)

section \<open>Identifiers\<close>

subsection \<open>block\_id.go and md\_id.go\<close>

datatype BlockID = BlockID (bid_h: Hash)

datatype MdID = MdID (mdid_h: Hash)

abbreviation zeroBlockID :: BlockID where
  "zeroBlockID \<equiv> BlockID zeroHash"

abbreviation zeroMdID :: MdID where
  "zeroMdID \<equiv> MdID zeroHash"

definition BlockIDFromString :: "string \<Rightarrow> hash_error + BlockID" where
  "BlockIDFromString s =
     (case HashFromString s of Inl e \<Rightarrow> Inl e | Inr h \<Rightarrow> Inr (BlockID h))"

definition BlockID_IsValid :: "BlockID \<Rightarrow> bool" where
  "BlockID_IsValid i = Hash_IsValid (bid_h i)"

definition BlockID_String :: "BlockID \<Rightarrow> string" where
  "BlockID_String i = Hash_String (bid_h i)"

definition MdIDFromBytes :: "byte list \<Rightarrow> hash_error + MdID" where
  "MdIDFromBytes bs = (case HashFromBytes bs of Inl e \<Rightarrow> Inl e | Inr h \<Rightarrow> Inr (MdID h))"

definition MdID_Bytes :: "MdID \<Rightarrow> byte list" where
  "MdID_Bytes i = hash_h (mdid_h i)"

lemma zeroBlockID_invalid [simp]: "\<not> BlockID_IsValid zeroBlockID"
  by (simp add: BlockID_IsValid_def)

subsection \<open>tlf\_id.go and branch\_id.go\<close>

text \<open>
  Both identifiers are 16-byte arrays: a byte list of length 16. \<open>TlfID_ok\<close> and
  \<open>BranchID_ok\<close> say so; every operation that builds an identifier keeps them.
\<close>

datatype TlfID = TlfID (tlf_bytes: "byte list")

datatype BranchID = BranchID (branch_bytes: "byte list")

definition TlfIDByteLen :: nat where "TlfIDByteLen = 16"
definition TlfIDStringLen :: nat where "TlfIDStringLen = 2 * TlfIDByteLen"
definition TlfIDSuffix :: byte where "TlfIDSuffix = 0x16"
definition PubTlfIDSuffix :: byte where "PubTlfIDSuffix = 0x17"
definition BranchIDByteLen :: nat where "BranchIDByteLen = 16"
definition BranchIDStringLen :: nat where "BranchIDStringLen = 2 * BranchIDByteLen"

lemmas id_consts = TlfIDByteLen_def TlfIDStringLen_def TlfIDSuffix_def PubTlfIDSuffix_def
  BranchIDByteLen_def BranchIDStringLen_def

definition TlfID_ok :: "TlfID \<Rightarrow> bool" where
  "TlfID_ok i \<longleftrightarrow> length (tlf_bytes i) = TlfIDByteLen"

definition BranchID_ok :: "BranchID \<Rightarrow> bool" where
  "BranchID_ok i \<longleftrightarrow> length (branch_bytes i) = BranchIDByteLen"

definition NullTlfID :: TlfID where
  "NullTlfID = TlfID (replicate 16 0)"

definition NullBranchID :: BranchID where
  "NullBranchID = BranchID (replicate 16 0)"

definition TlfID_String :: "TlfID \<Rightarrow> string" where
  "TlfID_String i = EncodeToString (tlf_bytes i)"

definition TlfID_suffix_ok :: "byte \<Rightarrow> bool" where
  "TlfID_suffix_ok b \<longleftrightarrow> \<not> (b \<noteq> TlfIDSuffix \<and> b \<noteq> PubTlfIDSuffix)"

text \<open>\<open>None\<close> is the error ``invalid TlfID''.\<close>

definition TlfID_MarshalBinary :: "TlfID \<Rightarrow> byte list option" where
  "TlfID_MarshalBinary i =
     (if \<not> TlfID_suffix_ok (tlf_bytes i ! (TlfIDByteLen - 1)) then None else Some (tlf_bytes i))"

text \<open>The receiver is written only on success: \<open>None\<close> is the error and leaves it as it was.\<close>

definition TlfID_UnmarshalBinary :: "byte list \<Rightarrow> TlfID option" where
  "TlfID_UnmarshalBinary bs =
     (if length bs \<noteq> TlfIDByteLen then None
      else if \<not> TlfID_suffix_ok (bs ! (TlfIDByteLen - 1)) then None
      else Some (TlfID bs))"

definition TlfID_IsPublic :: "TlfID \<Rightarrow> bool" where
  "TlfID_IsPublic i \<longleftrightarrow> tlf_bytes i ! (TlfIDByteLen - 1) = PubTlfIDSuffix"

definition ParseTlfID :: "string \<Rightarrow> TlfID" where
  "ParseTlfID s =
     (if length s \<noteq> TlfIDStringLen then NullTlfID
      else case DecodeString s of
             None \<Rightarrow> NullTlfID
           | Some bs \<Rightarrow> (case TlfID_UnmarshalBinary bs of None \<Rightarrow> NullTlfID | Some i \<Rightarrow> i))"

definition BranchID_String :: "BranchID \<Rightarrow> string" where
  "BranchID_String i = EncodeToString (branch_bytes i)"

definition BranchID_UnmarshalBinary :: "byte list \<Rightarrow> BranchID option" where
  "BranchID_UnmarshalBinary bs = (if length bs \<noteq> BranchIDByteLen then None else Some (BranchID bs))"

definition ParseBranchID :: "string \<Rightarrow> BranchID" where
  "ParseBranchID s =
     (if length s \<noteq> BranchIDStringLen then NullBranchID
      else case DecodeString s of
             None \<Rightarrow> NullBranchID
           | Some bs \<Rightarrow> (case BranchID_UnmarshalBinary bs of None \<Rightarrow> NullBranchID | Some i \<Rightarrow> i))"

lemma NullTlfID_ok [simp]: "TlfID_ok NullTlfID" and NullBranchID_ok [simp]: "BranchID_ok NullBranchID"
  by (simp_all add: TlfID_ok_def BranchID_ok_def NullTlfID_def NullBranchID_def id_consts)

lemma TlfID_Unmarshal_Some_iff:
  "TlfID_UnmarshalBinary bs = Some i \<longleftrightarrow>
     i = TlfID bs \<and> TlfID_ok i \<and> TlfID_suffix_ok (bs ! (TlfIDByteLen - 1))"
  by (auto simp: TlfID_UnmarshalBinary_def TlfID_ok_def)

lemma ParseTlfID_ok: "TlfID_ok (ParseTlfID s)"
  by (auto simp: ParseTlfID_def TlfID_Unmarshal_Some_iff split: option.splits)

lemma ParseBranchID_String: "BranchID_ok i \<Longrightarrow> ParseBranchID (BranchID_String i) = i"
  by (simp add: ParseBranchID_def BranchID_String_def BranchID_UnmarshalBinary_def BranchID_ok_def
      id_consts)

lemma ParseTlfID_String:
  "TlfID_ok i \<Longrightarrow> TlfID_suffix_ok (tlf_bytes i ! (TlfIDByteLen - 1)) \<Longrightarrow>
   ParseTlfID (TlfID_String i) = i"
  by (simp add: ParseTlfID_def TlfID_String_def TlfID_UnmarshalBinary_def TlfID_ok_def id_consts)

section \<open>Round trips and verification\<close>

text \<open>C38: every hash that can be marshalled is read back: the zero hash and every valid hash survive the
  binary form, every valid hash (and so every valid block ID) survives the hexadecimal form, and a
  hash that is neither is refused by the encoder and by both decoders.\<close>

theorem Hash_roundtrips:
  "(Hash_IsValid h \<or> h = zeroHash \<longrightarrow>
      (\<exists>bs. Hash_MarshalBinary h = Inr bs \<and> Hash_UnmarshalBinary bs = (h, None))) \<and>
   (Hash_IsValid h \<longrightarrow> HashFromString (Hash_String h) = Inr h \<and>
      BlockIDFromString (BlockID_String (BlockID h)) = Inr (BlockID h)) \<and>
   (\<not> Hash_IsValid h \<and> h \<noteq> zeroHash \<longrightarrow>
      Hash_MarshalBinary h = Inl (InvalidHashError h) \<and>
      Hash_UnmarshalBinary (hash_h h) = (zeroHash, Some (InvalidHashError h)) \<and>
      HashFromString (Hash_String h) = Inl (InvalidHashError h))"
  by (cases h)
    (auto simp: Hash_MarshalBinary_def Hash_UnmarshalBinary_def HashFromString_def Hash_String_def
      BlockIDFromString_def BlockID_String_def HashFromBytes_def Let_def)

theorem Hash_roundtrips_witness:
  "HashFromString (Hash_String (Hash (1 # replicate 32 7))) = Inr (Hash (1 # replicate 32 7)) \<and>
   Hash_MarshalBinary (Hash [1, 2]) = Inl (InvalidHashError (Hash [1, 2]))"
  using Hash_roundtrips[of "Hash (1 # replicate 32 7)"] Hash_roundtrips[of "Hash [1, 2]"]
  by (simp add: Hash_IsValid_def hashType_def hash_consts)

text \<open>\<open>Verify\<close> accepts a buffer exactly when the hash is the default hash of the buffer, and an
  HMAC exactly when it is the default HMAC of the buffer under the key; a valid hash of the default
  type that does not match is reported with the expected hash.\<close>

theorem Hash_Verify_sound_complete:
  "(Hash_Verify h buf = None \<longleftrightarrow> DefaultHash buf = Inr h) \<and>
   (HMAC_Verify m key buf = None \<longleftrightarrow> DefaultHMAC key buf = Inr m) \<and>
   (Hash_IsValid h \<and> hashType h = Some DefaultHashType \<and> DefaultHash buf = Inr e \<and> e \<noteq> h \<longrightarrow>
      Hash_Verify h buf = Some (HashMismatchError e h))"
  by (auto simp: Hash_Verify_None_iff HMAC_Verify_None_iff DefaultHash_eq DefaultHMAC_eq)
    (auto simp: Hash_Verify_def DefaultHash_eq)

theorem Hash_Verify_sound_complete_witness:
  "Hash_Verify (Hash (1 # replicate 31 0)) [] = Some (InvalidHashError (Hash (1 # replicate 31 0))) \<and>
   Hash_Verify (Hash (1 # Sum256 [1])) [1] = None"
  using Hash_Verify_sound_complete[of "Hash (1 # Sum256 [1])" "[1]"]
  by (simp add: DefaultHash_eq Hash_Verify_def Hash_IsValid_def hash_consts)

text \<open>The parser of folder IDs inverts the printer on every ID with a valid suffix byte, which are
  exactly the IDs that can be marshalled; every other string gives the null ID.\<close>

theorem ParseTlfID_roundtrip:
  assumes "TlfID_ok i"
  shows "(\<exists>bs. TlfID_MarshalBinary i = Some bs \<and> TlfID_UnmarshalBinary bs = Some i) \<and>
      ParseTlfID (TlfID_String i) = i \<or>
    TlfID_MarshalBinary i = None \<and> TlfID_UnmarshalBinary (tlf_bytes i) = None \<and>
      ParseTlfID (TlfID_String i) = NullTlfID"
proof (cases "TlfID_suffix_ok (tlf_bytes i ! (TlfIDByteLen - 1))")
  case True
  with assms have "TlfID_UnmarshalBinary (tlf_bytes i) = Some i" by (simp add: TlfID_Unmarshal_Some_iff)
  with True ParseTlfID_String[OF assms True] show ?thesis by (simp add: TlfID_MarshalBinary_def)
next
  case False
  with assms show ?thesis
    by (simp add: TlfID_MarshalBinary_def ParseTlfID_def TlfID_String_def TlfID_UnmarshalBinary_def
        TlfID_ok_def id_consts)
qed

theorem ParseTlfID_roundtrip_witness:
  "ParseTlfID (TlfID_String (TlfID (replicate 15 0 @ [0x17]))) = TlfID (replicate 15 0 @ [0x17]) \<and>
   ParseTlfID (TlfID_String (TlfID (replicate 15 1 @ [0x18]))) = NullTlfID"
  using ParseTlfID_roundtrip[of "TlfID (replicate 15 0 @ [0x17])"]
    ParseTlfID_roundtrip[of "TlfID (replicate 15 1 @ [0x18])"]
  by (simp add: TlfID_ok_def TlfID_MarshalBinary_def TlfID_suffix_ok_def id_consts numeral_eq_Suc)

end
