(* ===== verification/Kbfs_Data_Types.thy ===== *)
theory Kbfs_Data_Types
  imports Kbfs_Hash
begin

text \<open>
  The data types of libkbfs/data\_types.go, block\_types.go and dir\_entry.go: block pointers and
  references, directory entries, paths, favorites, and the quota bookkeeping. Structs are records
  whose fields carry a short prefix of the struct's name; an embedded struct is a field.
\<close>

section \<open>Block pointers\<close>

text \<open>A \<open>BlockRefNonce\<close> is an array of 8 bytes that is only compared and copied: a 64-bit word.\<close>

type_synonym BlockRefNonce = uint64
type_synonym UID = string

definition zeroBlockRefNonce :: BlockRefNonce where
  "zeroBlockRefNonce = 0"

record blockRef =
  br_id :: BlockID
  br_refNonce :: BlockRefNonce

record BlockPointer =
  bp_ID :: BlockID
  bp_KeyGen :: int
  bp_DataVer :: int
  bp_Creator :: UID
  bp_Writer :: UID
  bp_RefNonce :: BlockRefNonce

record BlockInfo =
  bi_BlockPointer :: BlockPointer
  bi_EncodedSize :: uint32

definition zeroBlockRef :: blockRef where
  "zeroBlockRef = \<lparr>br_id = zeroBlockID, br_refNonce = zeroBlockRefNonce\<rparr>"

definition zeroPtr :: BlockPointer where
  "zeroPtr = \<lparr>bp_ID = zeroBlockID, bp_KeyGen = 0, bp_DataVer = 0, bp_Creator = [], bp_Writer = [],
     bp_RefNonce = zeroBlockRefNonce\<rparr>"

definition zeroBlockInfo :: BlockInfo where
  "zeroBlockInfo = \<lparr>bi_BlockPointer = zeroPtr, bi_EncodedSize = 0\<rparr>"

definition blockRef_IsValid :: "blockRef \<Rightarrow> bool" where
  "blockRef_IsValid r = BlockID_IsValid (br_id r)"

definition BlockPointer_IsValid :: "BlockPointer \<Rightarrow> bool" where
  "BlockPointer_IsValid p = (if \<not> BlockID_IsValid (bp_ID p) then False else True)"

definition BlockPointer_ref :: "BlockPointer \<Rightarrow> blockRef" where
  "BlockPointer_ref p = \<lparr>br_id = bp_ID p, br_refNonce = bp_RefNonce p\<rparr>"

definition UID_IsNil :: "UID \<Rightarrow> bool" where
  "UID_IsNil u \<longleftrightarrow> length u = 0"

definition GetWriter :: "BlockPointer \<Rightarrow> UID" where
  "GetWriter p = (if \<not> UID_IsNil (bp_Writer p) then bp_Writer p else bp_Creator p)"

definition SetWriter :: "BlockPointer \<Rightarrow> UID \<Rightarrow> BlockPointer" where
  "SetWriter p newWriter =
     (if bp_Creator p \<noteq> newWriter then p\<lparr>bp_Writer := newWriter\<rparr> else p\<lparr>bp_Writer := []\<rparr>)"

definition GetRefNonce :: "BlockPointer \<Rightarrow> BlockRefNonce" where
  "GetRefNonce p = bp_RefNonce p"

definition IsInitialized :: "BlockPointer \<Rightarrow> bool" where
  "IsInitialized p \<longleftrightarrow> bp_ID p \<noteq> zeroBlockID"

definition IsFirstRef :: "BlockPointer \<Rightarrow> bool" where
  "IsFirstRef p \<longleftrightarrow> bp_RefNonce p = zeroBlockRefNonce"

lemma zeroPtr_not_initialized [simp]: "\<not> IsInitialized zeroPtr"
  by (simp add: IsInitialized_def zeroPtr_def)

lemma zeroPtr_invalid [simp]: "\<not> BlockPointer_IsValid zeroPtr"
  by (simp add: BlockPointer_IsValid_def zeroPtr_def)

lemma valid_initialized: "BlockPointer_IsValid p \<Longrightarrow> IsInitialized p"
  by (auto simp: BlockPointer_IsValid_def IsInitialized_def split: if_splits)

lemma ref_valid [simp]: "blockRef_IsValid (BlockPointer_ref p) = BlockPointer_IsValid p"
  by (simp add: blockRef_IsValid_def BlockPointer_ref_def BlockPointer_IsValid_def)

lemma GetWriter_SetWriter: "\<not> UID_IsNil w \<Longrightarrow> GetWriter (SetWriter p w) = w"
  by (simp add: GetWriter_def SetWriter_def UID_IsNil_def)

lemma ref_SetWriter [simp]: "BlockPointer_ref (SetWriter p w) = BlockPointer_ref p"
  by (simp add: BlockPointer_ref_def SetWriter_def)

section \<open>Directory entries\<close>

datatype EntryType = File | Exec | Dir | Sym

record EntryInfo =
  ei_Type :: EntryType
  ei_Size :: uint64
  ei_SymPath :: string
  ei_Mtime :: int
  ei_Ctime :: int

record DirEntry =
  de_BlockInfo :: BlockInfo
  de_EntryInfo :: EntryInfo

definition DirEntry_IsInitialized :: "DirEntry \<Rightarrow> bool" where
  "DirEntry_IsInitialized de = IsInitialized (bi_BlockPointer (de_BlockInfo de))"

section \<open>Blocks\<close>

record IndirectDirPtr =
  idp_BlockInfo :: BlockInfo
  idp_Off :: string

record IndirectFilePtr =
  ifp_BlockInfo :: BlockInfo
  ifp_Off :: int

record DirBlock =
  db_IsInd :: bool
  db_cachedEncodedSize :: uint32
  db_Children :: "string \<rightharpoonup> DirEntry"
  db_IPtrs :: "IndirectDirPtr list"

record FileBlock =
  fb_IsInd :: bool
  fb_cachedEncodedSize :: uint32
  fb_Contents :: "byte list"
  fb_IPtrs :: "IndirectFilePtr list"

text \<open>
  A \<open>Block\<close> is an interface value: a directory block, a file block, or the bare common block
  that the block cache never sees in practice but that its type switches provide for.
\<close>

datatype Block = DirB DirBlock | FileB FileBlock | CommonB bool uint32

definition NewDirBlock :: DirBlock where
  "NewDirBlock = \<lparr>db_IsInd = False, db_cachedEncodedSize = 0, db_Children = Map.empty, db_IPtrs = []\<rparr>"

definition NewFileBlock :: FileBlock where
  "NewFileBlock = \<lparr>fb_IsInd = False, fb_cachedEncodedSize = 0, fb_Contents = [], fb_IPtrs = []\<rparr>"

primrec GetEncodedSize :: "Block \<Rightarrow> uint32" where
  "GetEncodedSize (DirB b) = db_cachedEncodedSize b"
| "GetEncodedSize (FileB b) = fb_cachedEncodedSize b"
| "GetEncodedSize (CommonB i n) = n"

primrec SetEncodedSize :: "Block \<Rightarrow> uint32 \<Rightarrow> Block" where
  "SetEncodedSize (DirB b) n = DirB (b\<lparr>db_cachedEncodedSize := n\<rparr>)"
| "SetEncodedSize (FileB b) n = FileB (b\<lparr>fb_cachedEncodedSize := n\<rparr>)"
| "SetEncodedSize (CommonB i m) n = CommonB i n"

section \<open>Paths\<close>

record pathNode =
  pn_BlockPointer :: BlockPointer
  pn_Name :: string

type_synonym BranchName = string

definition MasterBranch :: BranchName where
  "MasterBranch = []"

record FolderBranch =
  fbr_Tlf :: TlfID
  fbr_Branch :: BranchName

record path =
  p_FolderBranch :: FolderBranch
  p_path :: "pathNode list"

definition zeroPath :: path where
  "zeroPath = \<lparr>p_FolderBranch = \<lparr>fbr_Tlf = NullTlfID, fbr_Branch = []\<rparr>, p_path = []\<rparr>"

definition pathNode_isValid :: "pathNode \<Rightarrow> bool" where
  "pathNode_isValid n = BlockPointer_IsValid (pn_BlockPointer n)"

definition path_isValid :: "path \<Rightarrow> bool" where
  "path_isValid p = (if length (p_path p) < 1 then False else list_all pathNode_isValid (p_path p))"

text \<open>
  \<open>None\<close> is the run-time panic of an index or a slice bound out of range, which these methods
  raise on a path with no node.
\<close>

definition parentPath :: "path \<Rightarrow> path option" where
  "parentPath p = (if p_path p = [] then None else Some (p\<lparr>p_path := butlast (p_path p)\<rparr>))"

definition hasValidParent :: "path \<Rightarrow> bool" where
  "hasValidParent p \<longleftrightarrow>
     length (p_path p) \<ge> 2 \<and> (case parentPath p of None \<Rightarrow> False | Some q \<Rightarrow> path_isValid q)"

definition tailName :: "path \<Rightarrow> string option" where
  "tailName p = (if p_path p = [] then None else Some (pn_Name (last (p_path p))))"

definition tailPointer :: "path \<Rightarrow> BlockPointer option" where
  "tailPointer p = (if p_path p = [] then None else Some (pn_BlockPointer (last (p_path p))))"

fun strings_Join :: "string list \<Rightarrow> string \<Rightarrow> string" where
  "strings_Join [] sep = []"
| "strings_Join [s] sep = s"
| "strings_Join (s # t # ss) sep = s @ sep @ strings_Join (t # ss) sep"

definition path_String :: "path \<Rightarrow> string" where
  "path_String p = strings_Join (map pn_Name (p_path p)) ''/''"

definition ChildPath :: "path \<Rightarrow> string \<Rightarrow> BlockPointer \<Rightarrow> path" where
  "ChildPath p name ptr =
     p\<lparr>p_path := p_path p @ [\<lparr>pn_BlockPointer = ptr, pn_Name = name\<rparr>]\<rparr>"

definition ChildPathNoPtr :: "path \<Rightarrow> string \<Rightarrow> path" where
  "ChildPathNoPtr p name = ChildPath p name zeroPtr"

definition hasPublic :: "path \<Rightarrow> bool" where
  "hasPublic p \<longleftrightarrow> length (p_path p) = 1 \<and> \<not> TlfID_IsPublic (fbr_Tlf (p_FolderBranch p))"

lemma pathNode_eta [simp]: "\<lparr>pn_BlockPointer = pn_BlockPointer n, pn_Name = pn_Name n\<rparr> = n"
  by (cases n) simp

lemma path_upd_self [simp]: "p\<lparr>p_path := p_path p\<rparr> = p"
  by (cases p) simp

lemma ChildPath_tail [simp]:
  "tailName (ChildPath p name ptr) = Some name"
  "tailPointer (ChildPath p name ptr) = Some ptr"
  "parentPath (ChildPath p name ptr) = Some p"
  by (simp_all add: tailName_def tailPointer_def parentPath_def ChildPath_def)

lemma ChildPath_valid [simp]:
  "path_isValid p \<Longrightarrow> path_isValid (ChildPath p name ptr) = BlockPointer_IsValid ptr"
  by (auto simp: path_isValid_def ChildPath_def pathNode_isValid_def split: if_splits)

lemma ChildPath_hasValidParent:
  "path_isValid p \<Longrightarrow> hasValidParent (ChildPath p name ptr)"
  by (cases "p_path p") (auto simp: hasValidParent_def ChildPath_def parentPath_def path_isValid_def)

lemma path_rebuild:
  "parentPath p = Some q \<Longrightarrow> tailName p = Some n \<Longrightarrow> tailPointer p = Some ptr \<Longrightarrow>
   ChildPath q n ptr = p"
  by (auto simp: parentPath_def tailName_def tailPointer_def ChildPath_def split: if_splits)

lemma valid_path_tail:
  "path_isValid p \<Longrightarrow> \<exists>n ptr. tailName p = Some n \<and> tailPointer p = Some ptr \<and> BlockPointer_IsValid ptr"
  by (cases "p_path p" rule: rev_cases)
    (auto simp: path_isValid_def tailName_def tailPointer_def pathNode_isValid_def split: if_splits)

section \<open>Favorites\<close>

record Favorite =
  fav_Name :: string
  fav_Public :: bool
  fav_created :: bool

record Folder =
  fo_Name :: string
  fo_Private :: bool
  fo_Created :: bool

definition TrimSuffix :: "string \<Rightarrow> string \<Rightarrow> string" where
  "TrimSuffix s suf =
     (if length suf \<le> length s \<and> drop (length s - length suf) s = suf
      then take (length s - length suf) s else s)"

definition NewFavoriteFromFolder :: "Folder \<Rightarrow> Favorite" where
  "NewFavoriteFromFolder folder =
     (let name = (if \<not> fo_Private folder then TrimSuffix (fo_Name folder) ''#public''
                  else fo_Name folder)
      in \<lparr>fav_Name = name, fav_Public = \<not> fo_Private folder, fav_created = False\<rparr>)"

definition toKBFolder :: "Favorite \<Rightarrow> Folder" where
  "toKBFolder f = \<lparr>fo_Name = fav_Name f, fo_Private = \<not> fav_Public f, fo_Created = fav_created f\<rparr>"

section \<open>Quota accounting\<close>

type_synonym UsageType = int

definition UsageWrite :: UsageType where "UsageWrite = 0"
definition UsageArchive :: UsageType where "UsageArchive = 1"
definition UsageRead :: UsageType where "UsageRead = 2"
definition NumUsage :: UsageType where "NumUsage = 3"

lemmas usage_consts = UsageWrite_def UsageArchive_def UsageRead_def NumUsage_def

record UsageStat =
  us_Bytes :: "UsageType \<rightharpoonup> int"
  us_Blocks :: "UsageType \<rightharpoonup> int"
  us_Mtime :: int

definition NewUsageStat :: UsageStat where
  "NewUsageStat = \<lparr>us_Bytes = Map.empty, us_Blocks = Map.empty, us_Mtime = 0\<rparr>"

text \<open>Reading a missing key of a Go map gives the zero value.\<close>

definition get0 :: "('k \<rightharpoonup> int) \<Rightarrow> 'k \<Rightarrow> int" where
  "get0 m k = (case m k of None \<Rightarrow> 0 | Some v \<Rightarrow> v)"

definition NonZero :: "UsageStat \<Rightarrow> bool" where
  "NonZero u \<longleftrightarrow> list_ex (\<lambda>i. get0 (us_Bytes u) i \<noteq> 0) [UsageWrite, UsageArchive, UsageRead]"

definition UsageStat_AccumOne :: "UsageStat \<Rightarrow> int \<Rightarrow> UsageType \<Rightarrow> UsageStat" where
  "UsageStat_AccumOne u change usage =
     (if change = 0 then u
      else if usage < UsageWrite \<or> usage > UsageRead then u
      else u\<lparr>us_Bytes := (us_Bytes u)(usage \<mapsto> wrap64 (get0 (us_Bytes u) usage + change)),
             us_Blocks := (us_Blocks u)(usage \<mapsto>
               (if change > 0 then wrap64 (get0 (us_Blocks u) usage + 1)
                else wrap64 (get0 (us_Blocks u) usage - 1)))\<rparr>)"

text \<open>
  The two \<open>range\<close> loops of \<open>Accum\<close> treat every key on its own, so the order in which Go
  walks the map does not matter and the loop is a pointwise update.
\<close>

definition accum_map :: "('k \<rightharpoonup> int) \<Rightarrow> ('k \<rightharpoonup> int) \<Rightarrow> (int \<Rightarrow> int \<Rightarrow> int) \<Rightarrow> 'k \<rightharpoonup> int" where
  "accum_map m other accumF k =
     (case other k of None \<Rightarrow> m k | Some v \<Rightarrow> Some (accumF (get0 m k) v))"

definition UsageStat_Accum ::
  "UsageStat \<Rightarrow> UsageStat option \<Rightarrow> (int \<Rightarrow> int \<Rightarrow> int) \<Rightarrow> UsageStat" where
  "UsageStat_Accum u another accumF =
     (case another of
        None \<Rightarrow> u
      | Some a \<Rightarrow> u\<lparr>us_Bytes := accum_map (us_Bytes u) (us_Bytes a) accumF,
                   us_Blocks := accum_map (us_Blocks u) (us_Blocks a) accumF\<rparr>)"

record UserQuotaInfo =
  uq_Folders :: "string \<rightharpoonup> UsageStat"
  uq_Total :: "UsageStat option"
  uq_Limit :: int

text \<open>
  \<open>None\<close> is the nil dereference that charging to a missing \<open>Total\<close> raises; the two guards
  of \<open>AccumOne\<close> return before the dereference.
\<close>

definition UserQuotaInfo_AccumOne ::
  "UserQuotaInfo \<Rightarrow> int \<Rightarrow> string \<Rightarrow> UsageType \<Rightarrow> UserQuotaInfo option" where
  "UserQuotaInfo_AccumOne u change folder usage =
     (let fs = (case uq_Folders u folder of None \<Rightarrow> NewUsageStat | Some s \<Rightarrow> s);
          u1 = u\<lparr>uq_Folders := (uq_Folders u)(folder \<mapsto> UsageStat_AccumOne fs change usage)\<rparr>
      in case uq_Total u of
           Some t \<Rightarrow> Some (u1\<lparr>uq_Total := Some (UsageStat_AccumOne t change usage)\<rparr>)
         | None \<Rightarrow> if change = 0 \<or> usage < UsageWrite \<or> usage > UsageRead then Some u1 else None)"

definition UserQuotaInfo_Accum ::
  "UserQuotaInfo \<Rightarrow> UserQuotaInfo option \<Rightarrow> (int \<Rightarrow> int \<Rightarrow> int) \<Rightarrow> UserQuotaInfo" where
  "UserQuotaInfo_Accum u another accumF =
     (case another of
        None \<Rightarrow> u
      | Some a \<Rightarrow>
          (let t = (case uq_Total u of None \<Rightarrow> NewUsageStat | Some t \<Rightarrow> t)
           in u\<lparr>uq_Total := Some (UsageStat_Accum t (uq_Total a) accumF),
                uq_Folders := (\<lambda>f. case uq_Folders a f of
                    None \<Rightarrow> uq_Folders u f
                  | Some change \<Rightarrow>
                      Some (UsageStat_Accum
                        (case uq_Folders u f of None \<Rightarrow> NewUsageStat | Some s \<Rightarrow> s)
                        (Some change) accumF))\<rparr>))"

text \<open>
  Charges to one folder never touch another folder's statistics, and the total moves with the
  folder that is charged.
\<close>

lemma get0_upd [simp]: "get0 (m(k \<mapsto> v)) j = (if j = k then v else get0 m j)"
  by (simp add: get0_def)

lemma AccumOne_other_folder:
  "UserQuotaInfo_AccumOne u c f k = Some u' \<Longrightarrow> g \<noteq> f \<Longrightarrow> uq_Folders u' g = uq_Folders u g"
  by (auto simp: UserQuotaInfo_AccumOne_def Let_def split: option.splits if_splits)

lemma AccumOne_bytes:
  "UsageWrite \<le> k \<Longrightarrow> k \<le> UsageRead \<Longrightarrow> in64 (get0 (us_Bytes u) k + c) \<Longrightarrow>
   get0 (us_Bytes (UsageStat_AccumOne u c k)) k = get0 (us_Bytes u) k + c"
  by (simp add: UsageStat_AccumOne_def)

end
