(* ===== verification/Kbfs_Block_Splitter.thy ===== *)
theory Kbfs_Block_Splitter
  imports Kbfs_Data_Types
begin

text \<open>
  libkbfs/bsplitter\_simple.go: the block splitter that decides how many bytes of a write go into
  one file block. Sizes are Go \<open>int64\<close> values, with the wrap-around written out.
\<close>

section \<open>Model\<close>

record BlockSplitterSimple =
  bs_maxSize :: int
  bs_blockChangeEmbedMaxSize :: uint64

datatype 'e splitter_error =
    CodecError 'e
  | EncodedTooBig int int
  | NoConvergence int
  | SliceBounds

text \<open>
  The search loop of the constructor: at most \<open>n\<close> more attempts. \<open>encode\<close> is the codec the
  constructor is given. The first slice bound that is out of range (the buffer holds exactly
  \<open>desired\<close> bytes) is a panic. The result is the pair of \<open>maxSize\<close> and \<open>encodedLen\<close> on
  leaving the loop.
\<close>

fun converge ::
  "(FileBlock \<Rightarrow> 'e + byte list) \<Rightarrow> byte list \<Rightarrow> int \<Rightarrow> nat \<Rightarrow> int \<Rightarrow> int \<Rightarrow>
   ('e splitter_error, int \<times> int) result" where
  "converge encode fullData desired 0 maxSize encodedLen = Inr (maxSize, encodedLen)"
| "converge encode fullData desired (Suc n) maxSize encodedLen =
     (if maxSize < 0 \<or> maxSize > int (length fullData) then Inl (Panic SliceBounds)
      else case encode (NewFileBlock\<lparr>fb_Contents := take (nat maxSize) fullData\<rparr>) of
             Inl e \<Rightarrow> Inl (Error (CodecError e))
           | Inr buf \<Rightarrow>
               (let encodedLen = int (length buf) in
                if encodedLen \<ge> wrap64 (2 * desired)
                then Inl (Error (EncodedTooBig encodedLen desired))
                else if encodedLen = desired then Inr (maxSize, encodedLen)
                else converge encode fullData desired n
                       (wrap64 (maxSize + wrap64 (desired - encodedLen))) encodedLen))"

definition NewBlockSplitterSimple ::
  "int \<Rightarrow> uint64 \<Rightarrow> (FileBlock \<Rightarrow> 'e + byte list) \<Rightarrow>
   ('e splitter_error, BlockSplitterSimple) result" where
  "NewBlockSplitterSimple desiredBlockSize embedMax encode =
     (let desired = (if desiredBlockSize AND wrap64 (desiredBlockSize - 1) = 0
                     then wrap64 (desiredBlockSize - 1) else desiredBlockSize)
      in if desired < 0 then Inl (Panic SliceBounds)
         else bindR (converge encode (map of_nat [0..<nat desired]) desired 10 desired 0)
           (\<lambda>(maxSize, encodedLen).
              if encodedLen \<noteq> desired then Inl (Error (NoConvergence desired))
              else Inr \<lparr>bs_maxSize = maxSize, bs_blockChangeEmbedMaxSize = embedMax\<rparr>))"

text \<open>Go's \<open>copy(c[off:off+n], d[:n])\<close>; \<open>None\<close> is the slice-bounds panic.\<close>

definition copy_at :: "byte list \<Rightarrow> int \<Rightarrow> int \<Rightarrow> byte list \<Rightarrow> byte list option" where
  "copy_at c off n d =
     (if 0 \<le> off \<and> 0 \<le> n \<and> off + n \<le> int (length c) \<and> n \<le> int (length d)
      then Some (take (nat off) c @ take (nat n) d @ drop (nat (off + n)) c)
      else None)"

text \<open>The block after the call and the number of bytes copied; \<open>None\<close> is a panic.\<close>

definition CopyUntilSplit ::
  "BlockSplitterSimple \<Rightarrow> FileBlock \<Rightarrow> bool \<Rightarrow> byte list \<Rightarrow> int \<Rightarrow> (FileBlock \<times> int) option" where
  "CopyUntilSplit b block lastBlock d off =
     (let n = int (length d);
          currLen = int (length (fb_Contents block));
          finish = (\<lambda>contents toCopy.
            if off > int (length contents) then Some (block\<lparr>fb_Contents := contents\<rparr>, 0)
            else map_option (\<lambda>c. (block\<lparr>fb_Contents := c\<rparr>, toCopy))
                   (copy_at contents off toCopy d));
          grow = (\<lambda>moreNeeded.
            if moreNeeded > 0 then fb_Contents block @ replicate (nat moreNeeded) 0
            else fb_Contents block)
      in if currLen < wrap64 (off + n) then
           (let moreNeeded = wrap64 (wrap64 (n + off) - currLen) in
            if wrap64 (moreNeeded + currLen) > bs_maxSize b then
              (let moreNeeded = wrap64 (bs_maxSize b - currLen) in
               if moreNeeded < 0 then Some (block, 0)
               else finish (grow moreNeeded) (wrap64 (bs_maxSize b - off)))
            else finish (grow moreNeeded) n)
         else finish (fb_Contents block) n)"

definition CheckSplit :: "BlockSplitterSimple \<Rightarrow> FileBlock \<Rightarrow> int" where
  "CheckSplit b block = 0"

section \<open>Correctness\<close>

text \<open>Byte \<open>i\<close> of a buffer, \<open>None\<close> past its end.\<close>

definition byte_at :: "byte list \<Rightarrow> nat \<Rightarrow> byte option" where
  "byte_at c i = (if i < length c then Some (c ! i) else None)"

lemma copy_at_Some_iff:
  "copy_at c off n d = Some c' \<longleftrightarrow>
     (\<exists>i k. off = int i \<and> n = int k \<and> i + k \<le> length c \<and> k \<le> length d \<and>
        c' = take i c @ take k d @ drop (i + k) c)"
proof
  assume "copy_at c off n d = Some c'"
  then show "\<exists>i k. off = int i \<and> n = int k \<and> i + k \<le> length c \<and> k \<le> length d \<and>
        c' = take i c @ take k d @ drop (i + k) c"
    by (intro exI[of _ "nat off"] exI[of _ "nat n"])
      (auto simp: copy_at_def nat_add_distrib split: if_splits)
next
  assume "\<exists>i k. off = int i \<and> n = int k \<and> i + k \<le> length c \<and> k \<le> length d \<and>
        c' = take i c @ take k d @ drop (i + k) c"
  then show "copy_at c off n d = Some c'"
    by (auto simp: copy_at_def nat_add_distrib)
qed

lemma copy_at_spec:
  assumes "copy_at c (int i) (int k) d = Some c'"
  shows "length c' = length c"
    and "byte_at c' j = (if i \<le> j \<and> j < i + k then Some (d ! (j - i)) else byte_at c j)"
proof -
  from assms have c': "c' = take i c @ take k d @ drop (i + k) c" "i + k \<le> length c" "k \<le> length d"
    by (auto simp: copy_at_Some_iff)
  then show len: "length c' = length c" by simp
  consider "j < i" | "i \<le> j" "j < i + k" | "i + k \<le> j" by linarith
  then show "byte_at c' j = (if i \<le> j \<and> j < i + k then Some (d ! (j - i)) else byte_at c j)"
    by cases (use c' in \<open>auto simp: byte_at_def len nth_append\<close>)
qed

text \<open>The five ways a call can go, for arguments whose sums stay in range.\<close>

lemma CopyUntilSplit_cases:
  assumes n: "n = int (length d)" and c: "c = fb_Contents block" and m: "m = bs_maxSize b"
    and off: "0 \<le> off" and sum: "in64 (off + n)" and m64: "in64 m" "0 \<le> m"
    and c64: "in64 (int (length c))"
  shows "CopyUntilSplit b block lst d off =
    (if off + n \<le> int (length c) then
       map_option (\<lambda>c'. (block\<lparr>fb_Contents := c'\<rparr>, n)) (copy_at c off n d)
     else if off + n \<le> m then
       map_option (\<lambda>c'. (block\<lparr>fb_Contents := c'\<rparr>, n))
         (copy_at (c @ replicate (nat (off + n - int (length c))) 0) off n d)
     else if m < int (length c) then Some (block, 0)
     else if m < off then Some (block\<lparr>fb_Contents := c @ replicate (nat (m - int (length c))) 0\<rparr>, 0)
     else map_option (\<lambda>c'. (block\<lparr>fb_Contents := c'\<rparr>, m - off))
       (copy_at (c @ replicate (nat (m - int (length c))) 0) off (m - off) d))"
proof -
  have n0: "0 \<le> n" using n by simp
  have w1: "wrap64 (off + n) = off + n" "wrap64 (n + off) = off + n"
    using sum by (simp_all add: add.commute)
  have w2: "wrap64 (off + n - int (length c)) = off + n - int (length c)"
    if "int (length c) < off + n"
    using sum that by (intro wrap64_id) (simp add: in64_def)
  have w3: "wrap64 (m - int (length c)) = m - int (length c)"
    using m64 c64 by (intro wrap64_id) (simp add: in64_def)
  have w4: "wrap64 (m - off) = m - off"
    using m64 off sum n0 by (intro wrap64_id) (simp add: in64_def)
  note u = CopyUntilSplit_def Let_def n[symmetric] c[symmetric] m[symmetric]
  consider (fits) "off + n \<le> int (length c)"
    | (grow) "int (length c) < off + n" "off + n \<le> m"
    | (over) "int (length c) < off + n" "m < off + n" "m < int (length c)"
    | (past) "int (length c) < off + n" "m < off + n" "int (length c) \<le> m" "m < off"
    | (fill) "int (length c) < off + n" "m < off + n" "int (length c) \<le> m" "off \<le> m"
    by linarith
  then show ?thesis
  proof cases
    case fits
    then show ?thesis unfolding u using n0 by (simp add: w1)
  next
    case grow
    then show ?thesis unfolding u using n0 by (simp add: w1 w2)
  next
    case over
    then show ?thesis unfolding u using n0 by (simp add: w1 w2 w3)
  next
    case past
    then show ?thesis unfolding u using n0 by (simp add: w1 w2 w3)
  next
    case fill
    then show ?thesis unfolding u using n0 by (simp add: w1 w2 w3 w4)
  qed
qed

lemma byte_at_append_zeros:
  "byte_at (c @ replicate k 0) j =
     (if j < length c then Some (c ! j) else if j < length c + k then Some 0 else None)"
  by (auto simp: byte_at_def nth_append)

text \<open>What a caller relies on: the block with \<open>k\<close> bytes of \<open>d\<close> written at \<open>i\<close>.\<close>

definition split_written :: "byte list \<Rightarrow> byte list \<Rightarrow> nat \<Rightarrow> nat \<Rightarrow> byte list \<Rightarrow> bool" where
  "split_written c d i k c' \<longleftrightarrow> k \<le> length d \<and> length c \<le> length c' \<and>
     (\<forall>j. byte_at c' j =
        (if i \<le> j \<and> j < i + k then Some (d ! (j - i))
         else if j < length c then Some (c ! j)
         else if j < length c' then Some 0 else None))"

lemma split_written_copy:
  assumes "copy_at (c @ replicate z 0) (int i) (int k) d = Some c'"
  shows "split_written c d i k c' \<and> length c' = length c + z"
proof -
  from assms have "k \<le> length d" by (auto simp: copy_at_Some_iff)
  with copy_at_spec[OF assms] show ?thesis
    by (auto simp: split_written_def byte_at_append_zeros)
qed

lemma split_written_zeros: "split_written c d i 0 (c @ replicate z 0)"
  by (auto simp: split_written_def byte_at_append_zeros)

lemma copy_at_ok:
  "i + k \<le> length c \<Longrightarrow> k \<le> length d \<Longrightarrow> \<exists>c'. copy_at c (int i) (int k) d = Some c'"
  by (auto simp: copy_at_Some_iff)

lemma CopyUntilSplit_written:
  assumes n: "n = int (length d)" and c: "c = fb_Contents block" and m: "m = bs_maxSize b"
    and off: "0 \<le> off" and sum: "in64 (off + n)" and m64: "in64 m" "0 \<le> m"
    and c64: "in64 (int (length c))"
  shows "\<exists>c' k. CopyUntilSplit b block lst d off = Some (block\<lparr>fb_Contents := c'\<rparr>, int k) \<and>
     split_written c d (nat off) k c' \<and> length c' \<le> max (length c) (nat m) \<and>
     (k < length d \<longrightarrow> m \<le> int (length c')) \<and>
     (d \<noteq> [] \<and> off < m \<and> int (length c) \<le> m \<longrightarrow> 0 < k)"
proof -
  note cs = CopyUntilSplit_cases[OF n c m off sum m64 c64, of lst]
  define i where "i = nat off"
  then have i: "off = int i" using off by simp
  let ?l = "length c"
  have goal: ?thesis
    if h: "CopyUntilSplit b block lst d off =
          map_option (\<lambda>c'. (block\<lparr>fb_Contents := c'\<rparr>, int k)) (copy_at (c @ replicate z 0) off (int k) d)"
      "i + k \<le> ?l + z" "k \<le> length d" "z = 0 \<or> ?l + z \<le> nat m"
      "k < length d \<longrightarrow> m \<le> int (?l + z)" "d \<noteq> [] \<and> off < m \<and> int ?l \<le> m \<longrightarrow> 0 < k" for z k
  proof -
    obtain c' where c': "copy_at (c @ replicate z 0) (int i) (int k) d = Some c'"
      using copy_at_ok[of i k "c @ replicate z 0" d] h(2,3) by auto
    show ?thesis
      by (rule exI[of _ c'], rule exI[of _ k])
        (use h c' split_written_copy[OF c'] in \<open>auto simp: i\<close>)
  qed
  consider (fits) "off + n \<le> int ?l"
    | (grow) "int ?l < off + n" "off + n \<le> m"
    | (over) "int ?l < off + n" "m < off + n" "m < int ?l"
    | (past) "int ?l < off + n" "m < off + n" "int ?l \<le> m" "m < off"
    | (fill) "int ?l < off + n" "m < off + n" "int ?l \<le> m" "off \<le> m"
    by linarith
  then show ?thesis
  proof cases
    case fits
    then show ?thesis using n i cs by (intro goal[of "length d" 0]) auto
  next
    case grow
    then show ?thesis using n i cs
      by (intro goal[of "length d" "nat (off + n - int ?l)"]) auto
  next
    case over
    then show ?thesis using split_written_zeros[of c d i 0] cs c i
      by (intro exI[of _ c] exI[of _ 0]) auto
  next
    case past
    then show ?thesis using split_written_zeros[of c d i "nat (m - int ?l)"] cs c i
      by (intro exI[of _ "c @ replicate (nat (m - int ?l)) 0"] exI[of _ 0]) auto
  next
    case fill
    then show ?thesis using n i cs
      by (intro goal[of "nat (m - off)" "nat (m - int ?l)"]) auto
  qed
qed

subsection \<open>The constructor\<close>

lemma converge_Inr:
  assumes "converge encode full desired n m e = Inr (m', desired)" and "e \<noteq> desired"
  shows "0 \<le> m' \<and> m' \<le> int (length full) \<and>
    (\<exists>buf. encode (NewFileBlock\<lparr>fb_Contents := take (nat m') full\<rparr>) = Inr buf \<and> int (length buf) = desired)"
  using assms
  by (induction encode full desired n m e rule: converge.induct)
    (auto simp: Let_def split: sum.splits if_splits)

text \<open>
  C35: a splitter that the constructor returns is exact. Its \<open>maxSize\<close> is between 0 and the desired
  size, and a file block holding \<open>maxSize\<close> bytes encodes to exactly the desired size, which is
  one less than what the caller asked for when that is a power of two.
\<close>

theorem NewBlockSplitterSimple_exact:
  assumes "NewBlockSplitterSimple desired embedMax encode = Inr b" and "in64 desired" and "0 < desired"
  shows "\<exists>target full buf.
    target = (if desired AND (desired - 1) = 0 then desired - 1 else desired) \<and>
    bs_blockChangeEmbedMaxSize b = embedMax \<and>
    0 \<le> bs_maxSize b \<and> bs_maxSize b \<le> target \<and>
    length full = nat (bs_maxSize b) \<and>
    encode (NewFileBlock\<lparr>fb_Contents := full\<rparr>) = Inr buf \<and> int (length buf) = target"
proof -
  define target where "target = (if desired AND (desired - 1) = 0 then desired - 1 else desired)"
  have w: "wrap64 (desired - 1) = desired - 1"
    using assms(2,3) by (intro wrap64_id) (simp add: in64_def)
  let ?full = "map of_nat [0..<nat target] :: byte list"
  from assms(1) w have t0: "0 \<le> target"
    and conv: "converge encode ?full target 10 target 0 = Inr (bs_maxSize b, target)"
    and emb: "bs_blockChangeEmbedMaxSize b = embedMax"
    unfolding NewBlockSplitterSimple_def Let_def w target_def[symmetric]
    by (auto simp: bindR_Inr_iff split: if_splits)
  have "target \<noteq> 0"
  proof
    assume "target = 0"
    with conv show False
      by (auto simp: numeral_eq_Suc Let_def wrap64_def split: sum.splits)
  qed
  with converge_Inr[OF conv] obtain buf where
    "0 \<le> bs_maxSize b" "bs_maxSize b \<le> target"
    "encode (NewFileBlock\<lparr>fb_Contents := take (nat (bs_maxSize b)) ?full\<rparr>) = Inr buf"
    "int (length buf) = target"
    using t0 by auto
  moreover from this have "length (take (nat (bs_maxSize b)) ?full) = nat (bs_maxSize b)"
    by simp
  ultimately show ?thesis
    using emb unfolding target_def[symmetric]
    by (intro exI[of _ target] exI[of _ "take (nat (bs_maxSize b)) ?full"] exI[of _ buf]) auto
qed

theorem NewBlockSplitterSimple_exact_witness:
  "\<exists>b. NewBlockSplitterSimple 8 100 (\<lambda>blk. Inr (0 # 1 # fb_Contents blk) :: unit + byte list) = Inr b \<and>
     in64 8 \<and> (0::int) < 8 \<and>
     (\<exists>target full buf.
       target = (if (8::int) AND (8 - 1) = 0 then 8 - 1 else 8) \<and>
       bs_blockChangeEmbedMaxSize b = 100 \<and>
       0 \<le> bs_maxSize b \<and> bs_maxSize b \<le> target \<and>
       length full = nat (bs_maxSize b) \<and>
       (\<lambda>blk. Inr (0 # 1 # fb_Contents blk) :: unit + byte list) (NewFileBlock\<lparr>fb_Contents := full\<rparr>) =
         Inr buf \<and> int (length buf) = target)"
proof -
  let ?enc = "\<lambda>blk. Inr (0 # 1 # fb_Contents blk) :: unit + byte list"
  let ?full = "map of_nat [0..<7] :: byte list"
  have "converge ?enc ?full 7 10 7 0 = Inr (5, 7)"
    using converge.simps(2)[of ?enc ?full 7 9 7 0] converge.simps(2)[of ?enc ?full 7 8 5 9]
    by (simp add: wrap64_def NewFileBlock_def)
  then have h: "NewBlockSplitterSimple 8 100 ?enc = Inr \<lparr>bs_maxSize = 5, bs_blockChangeEmbedMaxSize = 100\<rparr>"
    by (simp add: NewBlockSplitterSimple_def wrap64_def del: upt_conv_Cons)
  have r: "in64 8" "(0::int) < 8" by (simp_all add: in64_def)
  show ?thesis using h r NewBlockSplitterSimple_exact[OF h r] by blast
qed

text \<open>
  C29: \<open>CopyUntilSplit\<close> never panics on in-range arguments; it writes a prefix of the data at the
  offset, keeps every other byte, zero-fills any gap, never grows a block past the larger of its
  old length and \<open>maxSize\<close>, stops short only when the block has reached \<open>maxSize\<close>, and always
  makes progress when the offset is inside a block with room.
\<close>

theorem CopyUntilSplit_correct:
  assumes "0 \<le> off" and "in64 (off + int (length d))"
    and "in64 (bs_maxSize b)" and "0 \<le> bs_maxSize b" and "in64 (int (length (fb_Contents block)))"
  shows "\<exists>c' k. CopyUntilSplit b block lst d off = Some (block\<lparr>fb_Contents := c'\<rparr>, int k) \<and>
     split_written (fb_Contents block) d (nat off) k c' \<and>
     length c' \<le> max (length (fb_Contents block)) (nat (bs_maxSize b)) \<and>
     (k < length d \<longrightarrow> bs_maxSize b \<le> int (length c')) \<and>
     (d \<noteq> [] \<and> off < bs_maxSize b \<and> int (length (fb_Contents block)) \<le> bs_maxSize b \<longrightarrow> 0 < k)"
  by (rule CopyUntilSplit_written[OF refl refl refl assms])

theorem CopyUntilSplit_correct_witness:
  "(0::int) \<le> 2 \<and> in64 (2 + int (length [7, 8, 9 :: byte])) \<and>
   (let b = \<lparr>bs_maxSize = 4, bs_blockChangeEmbedMaxSize = 0\<rparr>; blk = NewFileBlock\<lparr>fb_Contents := [1]\<rparr> in
    (\<exists>c' k. CopyUntilSplit b blk True [7, 8, 9] 2 = Some (blk\<lparr>fb_Contents := c'\<rparr>, int k) \<and>
       split_written [1] [7, 8, 9] (nat 2) k c' \<and> 0 < k \<and> k < 3 \<and> length c' \<le> 4))"
proof -
  let ?b = "\<lparr>bs_maxSize = 4, bs_blockChangeEmbedMaxSize = 0\<rparr>"
  let ?blk = "NewFileBlock\<lparr>fb_Contents := [1]\<rparr>"
  have h: "(0::int) \<le> 2" "in64 (2 + int (length [7, 8, 9 :: byte]))" "in64 (bs_maxSize ?b)"
    "0 \<le> bs_maxSize ?b" "in64 (int (length (fb_Contents ?blk)))"
    by (simp_all add: in64_def)
  from CopyUntilSplit_correct[OF h, of True] obtain c' k where
    *: "CopyUntilSplit ?b ?blk True [7, 8, 9] 2 = Some (?blk\<lparr>fb_Contents := c'\<rparr>, int k)"
      "split_written [1] [7, 8, 9] (nat 2) k c'" "length c' \<le> 4" "0 < k"
    by auto
  moreover have "k < 3"
  proof (rule ccontr)
    assume "\<not> k < 3"
    with *(2) have k: "k = 3" by (simp add: split_written_def)
    from *(2) have "byte_at c' 4 = Some 9" by (auto simp: split_written_def k)
    then show False using *(3) by (simp add: byte_at_def split: if_splits)
  qed
  ultimately show ?thesis using h(1,2) by (auto simp: Let_def)
qed

end
