(* ===== verification/Kbfs_Leveled_Mutex.thy ===== *)
theory Kbfs_Leveled_Mutex
  imports Kbfs_Prelude
begin

text \<open>
  libkbfs/leveled\_mutex.go: the lock hierarchy. A \<open>lockState\<close> belongs to one execution flow and
  records the levels of the mutexes that flow holds. The checks of \<open>doLock\<close> and \<open>doUnlock\<close> are
  modelled on their own first; then a transition system of several flows that share one mutex of package sync per
  level, an object with a state of its own, shows what the hierarchy is for: mutual exclusion and freedom from deadlock.
\<close>

section \<open>Model\<close>

type_synonym mutexLevel = int

datatype exclusionType = nonExclusion | writeExclusion | readExclusion

record exclusionState =
  es_level :: mutexLevel
  es_exclusionType :: exclusionType

text \<open>
  \<open>ls_busy\<close> is the one slot of the channel behind \<open>exclusionStatesLock\<close>. The function
  \<open>levelToString\<close>, which only serves error messages, is left out.
\<close>

record lockState =
  ls_busy :: bool
  ls_exclusionStates :: "exclusionState list"

datatype lock_error =
    unexpectedConcurrentAccess
  | levelViolationError mutexLevel exclusionType exclusionState
  | danglingUnlockError mutexLevel exclusionType
  | mismatchedUnlockError mutexLevel exclusionType exclusionState
  | unexpectedExclusionError mutexLevel exclusionType
  | unexpectedExclusionTypeError mutexLevel exclusionType exclusionType
  | unexpectedNonExclusionError mutexLevel

definition makeLevelState :: lockState where
  "makeLevelState = \<lparr>ls_busy = False, ls_exclusionStates = []\<rparr>"

definition exclusiveLock_lock :: "lockState \<Rightarrow> (lock_error, lockState) result" where
  "exclusiveLock_lock st =
     (if ls_busy st then Inl (Panic unexpectedConcurrentAccess) else Inr (st\<lparr>ls_busy := True\<rparr>))"

definition exclusiveLock_unlock :: "lockState \<Rightarrow> lockState" where
  "exclusiveLock_unlock st = st\<lparr>ls_busy := False\<rparr>"

definition currLocked :: "lockState \<Rightarrow> exclusionState option" where
  "currLocked st =
     (let stateCount = length (ls_exclusionStates st) in
      if stateCount = 0 then None else Some (ls_exclusionStates st ! (stateCount - 1)))"

text \<open>
  \<open>doLock\<close> up to the call of \<open>lock.Lock()\<close>, and from there on. The flow may block between the
  two. The deferred unlock of \<open>exclusionStatesLock\<close> runs on the error return and at the end.
\<close>

definition doLock_enter ::
  "lockState \<Rightarrow> mutexLevel \<Rightarrow> exclusionType \<Rightarrow> (lock_error, lockState) result" where
  "doLock_enter st level et =
     bindR (exclusiveLock_lock st) (\<lambda>st.
       case currLocked st of
         Some cur \<Rightarrow> (if level \<le> es_level cur then Inl (Error (levelViolationError level et cur))
                      else Inr st)
       | None \<Rightarrow> Inr st)"

definition doLock_finish :: "lockState \<Rightarrow> mutexLevel \<Rightarrow> exclusionType \<Rightarrow> lockState" where
  "doLock_finish st level et =
     exclusiveLock_unlock
       (st\<lparr>ls_exclusionStates := ls_exclusionStates st @ [\<lparr>es_level = level, es_exclusionType = et\<rparr>]\<rparr>)"

text \<open>
  The whole call. \<open>lock\<close> is the effect of the \<open>sync.Locker\<close> on the state of the mutexes once
  its \<open>Lock\<close> returns.
\<close>

definition doLock ::
  "lockState \<Rightarrow> mutexLevel \<Rightarrow> exclusionType \<Rightarrow> ('w \<Rightarrow> 'w) \<Rightarrow> 'w \<Rightarrow> (lock_error, lockState \<times> 'w) result" where
  "doLock st level et lock w =
     bindR (doLock_enter st level et) (\<lambda>st. Inr (doLock_finish st level et, lock w))"

definition doUnlock ::
  "lockState \<Rightarrow> mutexLevel \<Rightarrow> exclusionType \<Rightarrow> ('w \<Rightarrow> 'w) \<Rightarrow> 'w \<Rightarrow> (lock_error, lockState \<times> 'w) result" where
  "doUnlock st level et unlock w =
     bindR (exclusiveLock_lock st) (\<lambda>st.
       case currLocked st of
         None \<Rightarrow> Inl (Error (danglingUnlockError level et))
       | Some cur \<Rightarrow>
           if level \<noteq> es_level cur \<or> es_exclusionType cur \<noteq> et
           then Inl (Error (mismatchedUnlockError level et cur))
           else Inr (exclusiveLock_unlock (st\<lparr>ls_exclusionStates := butlast (ls_exclusionStates st)\<rparr>),
                     unlock w))"

text \<open>The search loop of \<open>getExclusionType\<close>, which stops at the first higher level.\<close>

fun exclusionLoop :: "exclusionState list \<Rightarrow> mutexLevel \<Rightarrow> exclusionType" where
  "exclusionLoop [] level = nonExclusion"
| "exclusionLoop (s # ss) level =
     (if es_level s > level then nonExclusion
      else if es_level s = level then es_exclusionType s
      else exclusionLoop ss level)"

definition getExclusionType :: "lockState \<Rightarrow> mutexLevel \<Rightarrow> (lock_error, exclusionType) result" where
  "getExclusionType st level =
     bindR (exclusiveLock_lock st) (\<lambda>st. Inr (exclusionLoop (ls_exclusionStates st) level))"

text \<open>A returned error becomes a panic in the methods of the mutex types.\<close>

definition panicOnError :: "('e, 'a) result \<Rightarrow> ('e, 'a) result" where
  "panicOnError r = (case r of Inl (Error e) \<Rightarrow> Inl (Panic e) | _ \<Rightarrow> r)"

text \<open>
  A \<open>leveledMutex\<close> and a \<open>leveledRWMutex\<close> are given by their level; the locker arguments are
  the effects of the wrapped \<open>sync\<close> objects.
\<close>

definition leveledMutex_Lock where
  "leveledMutex_Lock level lock st w = panicOnError (doLock st level writeExclusion lock w)"

definition leveledMutex_Unlock where
  "leveledMutex_Unlock level unlock st w = panicOnError (doUnlock st level writeExclusion unlock w)"

definition leveledRWMutex_RLock where
  "leveledRWMutex_RLock level rlock st w = panicOnError (doLock st level readExclusion rlock w)"

definition leveledRWMutex_RUnlock where
  "leveledRWMutex_RUnlock level runlock st w = panicOnError (doUnlock st level readExclusion runlock w)"

definition AssertUnlocked :: "mutexLevel \<Rightarrow> lockState \<Rightarrow> (lock_error, unit) result" where
  "AssertUnlocked level st =
     bindR (getExclusionType st level) (\<lambda>et.
       if et \<noteq> nonExclusion then Inl (Panic (unexpectedExclusionError level et)) else Inr ())"

definition AssertLocked :: "mutexLevel \<Rightarrow> lockState \<Rightarrow> (lock_error, unit) result" where
  "AssertLocked level st =
     bindR (getExclusionType st level) (\<lambda>et.
       if et \<noteq> writeExclusion then Inl (Panic (unexpectedExclusionTypeError level writeExclusion et))
       else Inr ())"

definition AssertRLocked :: "mutexLevel \<Rightarrow> lockState \<Rightarrow> (lock_error, unit) result" where
  "AssertRLocked level st =
     bindR (getExclusionType st level) (\<lambda>et.
       if et \<noteq> readExclusion then Inl (Panic (unexpectedExclusionTypeError level readExclusion et))
       else Inr ())"

definition AssertAnyLocked :: "mutexLevel \<Rightarrow> lockState \<Rightarrow> (lock_error, unit) result" where
  "AssertAnyLocked level st =
     bindR (getExclusionType st level) (\<lambda>et.
       if et = nonExclusion then Inl (Panic (unexpectedNonExclusionError level)) else Inr ())"

section \<open>The stack of one flow\<close>

definition ordered :: "lockState \<Rightarrow> bool" where
  "ordered st \<longleftrightarrow> sorted_wrt (<) (map es_level (ls_exclusionStates st)) \<and>
     nonExclusion \<notin> es_exclusionType ` set (ls_exclusionStates st)"

lemma currLocked_eq:
  "currLocked st =
     (if ls_exclusionStates st = [] then None else Some (last (ls_exclusionStates st)))"
  by (simp add: currLocked_def Let_def last_conv_nth)

lemma currLocked_upd [simp]: "currLocked (st\<lparr>ls_busy := b\<rparr>) = currLocked st"
  by (simp add: currLocked_def)

lemma ordered_busy [simp]: "ordered (st\<lparr>ls_busy := b\<rparr>) = ordered st"
  by (simp add: ordered_def)

lemma makeLevelState_ordered [go_inv]: "ordered makeLevelState"
  by (simp add: makeLevelState_def ordered_def)

lemma doLock_enter_Inr:
  "doLock_enter st level et = Inr st' \<longleftrightarrow>
     \<not> ls_busy st \<and> st' = st\<lparr>ls_busy := True\<rparr> \<and>
     (\<forall>cur. currLocked st = Some cur \<longrightarrow> es_level cur < level)"
  by (auto simp: doLock_enter_def exclusiveLock_lock_def bindR_Inr_iff split: option.splits if_splits)

lemma sorted_last_less:
  "sorted_wrt (<) (map f xs) \<Longrightarrow> (xs \<noteq> [] \<Longrightarrow> f (last xs) < (a :: int)) \<Longrightarrow> \<forall>x \<in> set xs. f x < a"
  by (cases xs rule: rev_cases) (fastforce simp: sorted_wrt_append)+

lemma enter_above_all:
  assumes "ordered st" and "doLock_enter st level et = Inr st'"
  shows "\<forall>s \<in> set (ls_exclusionStates st). es_level s < level"
  using assms
  by (intro sorted_last_less) (auto simp: ordered_def doLock_enter_Inr currLocked_eq)

lemma finish_ordered:
  assumes "ordered st" and "\<forall>s \<in> set (ls_exclusionStates st). es_level s < level" and "et \<noteq> nonExclusion"
  shows "ordered (doLock_finish st level et)"
  using assms
  by (auto simp: ordered_def doLock_finish_def exclusiveLock_unlock_def sorted_wrt_append)

lemma doLock_ordered [go_inv]:
  assumes "ordered st" and "doLock st level et lock w = Inr (st', w')" and "et \<noteq> nonExclusion"
  shows "ordered st'"
proof -
  from assms(2) obtain st1 where st1: "doLock_enter st level et = Inr st1"
    and st': "st' = doLock_finish st1 level et"
    by (auto simp: doLock_def bindR_Inr_iff)
  have "ordered (doLock_finish (st\<lparr>ls_busy := True\<rparr>) level et)"
    using assms(1,3) enter_above_all[OF assms(1) st1] by (intro finish_ordered) auto
  with st1 st' show ?thesis by (simp add: doLock_enter_Inr)
qed

lemma doUnlock_Inr:
  "doUnlock st level et unlock w = Inr (st', w') \<longleftrightarrow>
     \<not> ls_busy st \<and> ls_exclusionStates st \<noteq> [] \<and>
     last (ls_exclusionStates st) = \<lparr>es_level = level, es_exclusionType = et\<rparr> \<and>
     st' = st\<lparr>ls_exclusionStates := butlast (ls_exclusionStates st)\<rparr> \<and> w' = unlock w"
proof -
  have eta: "last ss = \<lparr>es_level = level, es_exclusionType = et\<rparr> \<longleftrightarrow>
      es_level (last ss) = level \<and> es_exclusionType (last ss) = et" for ss
    by (cases "last ss") auto
  show ?thesis
    by (cases st)
      (auto simp: doUnlock_def exclusiveLock_lock_def exclusiveLock_unlock_def currLocked_eq bindR_Inr_iff eta
        split: if_splits)
qed

lemma doUnlock_ordered [go_inv]:
  assumes "ordered st" and "doUnlock st level et unlock w = Inr (st', w')"
  shows "ordered st'"
  using assms
  by (cases "ls_exclusionStates st" rule: rev_cases)
    (auto simp: doUnlock_Inr ordered_def sorted_wrt_append)

lemma exclusionLoop_lookup:
  assumes "sorted_wrt (<) (map es_level ss)"
  shows "exclusionLoop ss level =
    (case find (\<lambda>s. es_level s = level) ss of None \<Rightarrow> nonExclusion | Some s \<Rightarrow> es_exclusionType s)"
  using assms
proof (induction ss)
  case Nil
  then show ?case by simp
next
  case (Cons s ss)
  have "find (\<lambda>s. es_level s = level) ss = None" if "es_level s > level"
    using Cons.prems that by (auto simp: find_None_iff)
  with Cons show ?case by auto
qed

section \<open>One flow\<close>

text \<open>The lock states that a flow can have: it starts with a new one and locks and unlocks mutexes.\<close>

inductive flow_reach :: "lockState \<Rightarrow> bool" where
  flow_init: "flow_reach makeLevelState"
| flow_lock: "flow_reach st \<Longrightarrow> et \<noteq> nonExclusion \<Longrightarrow> doLock st l et id () = Inr (st', u) \<Longrightarrow> flow_reach st'"
| flow_unlock: "flow_reach st \<Longrightarrow> doUnlock st l et id () = Inr (st', u) \<Longrightarrow> flow_reach st'"

lemma flow_reach_ordered: "flow_reach st \<Longrightarrow> ordered st \<and> \<not> ls_busy st"
proof (induction rule: flow_reach.induct)
  case flow_init
  then show ?case using makeLevelState_ordered by (simp add: makeLevelState_def)
next
  case (flow_lock st et l st' u)
  then have "ordered st'" using doLock_ordered[OF _ flow_lock.hyps(3)] by simp
  then show ?case using flow_lock.hyps(3) by (auto simp: doLock_def bindR_Inr_iff doLock_finish_def exclusiveLock_unlock_def)
next
  case (flow_unlock st l et st' u)
  then have "ordered st'" using doUnlock_ordered[OF _ flow_unlock.hyps(2)] by simp
  then show ?case using flow_unlock by (auto simp: doUnlock_Inr)
qed

section \<open>Several flows, one mutex per level\<close>

text \<open>
  The mutexes of package sync: whether a writer has the mutex, and how many readers have it. Unlocking a mutex that is not
  locked in this way is a fatal error, which is recorded.
\<close>

record syncMutex =
  mx_writer :: bool
  mx_readers :: nat
  mx_fatal :: bool

definition sync_Lock :: "exclusionType \<Rightarrow> syncMutex \<Rightarrow> syncMutex" where
  "sync_Lock et m = (if et = writeExclusion then m\<lparr>mx_writer := True\<rparr> else m\<lparr>mx_readers := Suc (mx_readers m)\<rparr>)"

definition sync_Unlock :: "exclusionType \<Rightarrow> syncMutex \<Rightarrow> syncMutex" where
  "sync_Unlock et m =
     (if et = writeExclusion
      then if mx_writer m then m\<lparr>mx_writer := False\<rparr> else m\<lparr>mx_fatal := True\<rparr>
      else if 0 < mx_readers m then m\<lparr>mx_readers := mx_readers m - 1\<rparr> else m\<lparr>mx_fatal := True\<rparr>)"

text \<open>What a call on the mutex of a level does to all mutexes.\<close>

definition at_level :: "mutexLevel \<Rightarrow> (syncMutex \<Rightarrow> syncMutex) \<Rightarrow> (mutexLevel \<Rightarrow> syncMutex) \<Rightarrow> mutexLevel \<Rightarrow> syncMutex" where
  "at_level l f M = M(l := f (M l))"

text \<open>
  Each flow has its own \<open>lockState\<close>. \<open>sy_wants\<close> holds the request a flow is blocked in: it has
  passed the checks of \<open>doLock\<close> and is inside \<open>lock.Lock()\<close>. The mutexes are objects of their own: \<open>Lock\<close> returns
  for a writer when nobody has the mutex, and for a reader when no writer has it (\<open>sync_free\<close>). A reader that
  comes while a writer waits is held back by an \<open>RWMutex\<close>, but the readers that waited for one writer go before
  the next one. The steps let a reader in whenever no writer has the mutex, so they include every such order;
  \<open>grantable\<close> is the case in which nothing holds the flow back.
\<close>

record 'f sys =
  sy_state :: "'f \<Rightarrow> lockState"
  sy_wants :: "'f \<Rightarrow> (mutexLevel \<times> exclusionType) option"
  sy_mutex :: "mutexLevel \<Rightarrow> syncMutex"

definition sys_init :: "'f sys" where
  "sys_init = \<lparr>sy_state = (\<lambda>_. makeLevelState), sy_wants = (\<lambda>_. None), sy_mutex = (\<lambda>_. \<lparr>mx_writer = False, mx_readers = 0, mx_fatal = False\<rparr>)\<rparr>"

definition sync_free :: "exclusionType \<Rightarrow> syncMutex \<Rightarrow> bool" where
  "sync_free et m \<longleftrightarrow> \<not> mx_writer m \<and> (et = writeExclusion \<longrightarrow> mx_readers m = 0)"

definition grantable :: "'f sys \<Rightarrow> mutexLevel \<Rightarrow> exclusionType \<Rightarrow> bool" where
  "grantable s l et \<longleftrightarrow> sync_free et (sy_mutex s l) \<and> (et = writeExclusion \<or> (\<forall>g. sy_wants s g \<noteq> Some (l, writeExclusion)))"

inductive sys_step :: "'f sys \<Rightarrow> 'f sys \<Rightarrow> bool" where
  request:
    "et \<noteq> nonExclusion \<Longrightarrow> doLock_enter (sy_state s f) l et = Inr st' \<Longrightarrow>
     sys_step s (s\<lparr>sy_state := (sy_state s)(f := st'), sy_wants := (sy_wants s)(f \<mapsto> (l, et))\<rparr>)"
| grant:
    "sy_wants s f = Some (l, et) \<Longrightarrow> sync_free et (sy_mutex s l) \<Longrightarrow>
     sys_step s (s\<lparr>sy_state := (sy_state s)(f := doLock_finish (sy_state s f) l et),
       sy_wants := (sy_wants s)(f := None), sy_mutex := at_level l (sync_Lock et) (sy_mutex s)\<rparr>)"
| release:
    "et \<noteq> nonExclusion \<Longrightarrow> doUnlock (sy_state s f) l et (at_level l (sync_Unlock et)) (sy_mutex s) = Inr (st', M') \<Longrightarrow>
     sys_step s (s\<lparr>sy_state := (sy_state s)(f := st'), sy_mutex := M'\<rparr>)"

inductive sys_reach :: "'f sys \<Rightarrow> bool" where
  init: "sys_reach sys_init"
| step: "sys_reach s \<Longrightarrow> sys_step s s' \<Longrightarrow> sys_reach s'"

definition holds :: "'f sys \<Rightarrow> 'f \<Rightarrow> mutexLevel \<Rightarrow> exclusionType \<Rightarrow> bool" where
  "holds s f l et \<longleftrightarrow> \<lparr>es_level = l, es_exclusionType = et\<rparr> \<in> set (ls_exclusionStates (sy_state s f))"

text \<open>
  The invariant: every stack is ordered; a flow is busy exactly while it waits, and then waits for
  a level above everything it holds; finitely many flows wait; and each mutex is as the stacks say: it has a writer when
  one flow has recorded it as locked for writing and no other has recorded it at all, and it has as many readers as flows
  have recorded it as locked for reading.
\<close>

definition flow_ok :: "lockState \<Rightarrow> (mutexLevel \<times> exclusionType) option \<Rightarrow> bool" where
  "flow_ok st want \<longleftrightarrow> ordered st \<and> ls_busy st = (want \<noteq> None) \<and>
     (\<forall>l et. want = Some (l, et) \<longrightarrow>
        et \<noteq> nonExclusion \<and> (\<forall>e \<in> set (ls_exclusionStates st). es_level e < l))"

definition mutex_ok :: "syncMutex \<Rightarrow> 'f set \<Rightarrow> 'f set \<Rightarrow> bool" where
  "mutex_ok m W R \<longleftrightarrow> \<not> mx_fatal m \<and> finite R \<and> mx_readers m = card R \<and>
     (if mx_writer m then (\<exists>f. W = {f}) \<and> R = {} else W = {})"

abbreviation holders :: "'f sys \<Rightarrow> mutexLevel \<Rightarrow> exclusionType \<Rightarrow> 'f set" where
  "holders s l et \<equiv> {f. holds s f l et}"

definition sys_inv :: "'f sys \<Rightarrow> bool" where
  "sys_inv s \<longleftrightarrow> (\<forall>f. flow_ok (sy_state s f) (sy_wants s f)) \<and> finite {f. sy_wants s f \<noteq> None} \<and>
     (\<forall>l. mutex_ok (sy_mutex s l) (holders s l writeExclusion) (holders s l readExclusion))"

lemma mutex_ok_Lock:
  assumes "mutex_ok m W R" and "sync_free et m" and "f \<notin> W" and "f \<notin> R" and "et \<noteq> nonExclusion"
  shows "mutex_ok (sync_Lock et m) (if et = writeExclusion then insert f W else W) (if et = readExclusion then insert f R else R)"
  using assms by (cases et) (auto simp: mutex_ok_def sync_free_def sync_Lock_def split: if_splits)

lemma mutex_ok_Unlock:
  assumes "mutex_ok m W R" and "f \<in> (if et = writeExclusion then W else R)" and "et \<noteq> nonExclusion"
  shows "mutex_ok (sync_Unlock et m) (if et = writeExclusion then W - {f} else W) (if et = readExclusion then R - {f} else R)"
  using assms by (cases et) (auto simp: mutex_ok_def sync_Unlock_def card_gt_0_iff split: if_splits)

lemma sys_inv_init: "sys_inv sys_init"
  by (simp add: sys_inv_def sys_init_def flow_ok_def makeLevelState_ordered)
    (simp add: makeLevelState_def holds_def mutex_ok_def)

lemma flow_ok_request:
  assumes "flow_ok st w" and "doLock_enter st l et = Inr st'" and "et \<noteq> nonExclusion"
  shows "flow_ok st' (Some (l, et)) \<and> ls_exclusionStates st' = ls_exclusionStates st"
proof -
  from assms(1) have ord: "ordered st" by (simp add: flow_ok_def)
  from assms(2) have "st' = st\<lparr>ls_busy := True\<rparr>" by (simp add: doLock_enter_Inr)
  with ord enter_above_all[OF ord assms(2)] assms(3) show ?thesis by (simp add: flow_ok_def)
qed

lemma flow_ok_grant:
  assumes "flow_ok st (Some (l, et))"
  shows "flow_ok (doLock_finish st l et) None"
  using assms finish_ordered[of st l et]
  by (simp add: flow_ok_def) (simp add: doLock_finish_def exclusiveLock_unlock_def)

lemma flow_ok_release:
  assumes "flow_ok st w" and "doUnlock st l et unlock M = Inr (st', M')"
  shows "flow_ok st' w" and "M' = unlock M" and "\<lparr>es_level = l, es_exclusionType = et\<rparr> \<in> set (ls_exclusionStates st)"
    and "set (ls_exclusionStates st') = set (ls_exclusionStates st) - {\<lparr>es_level = l, es_exclusionType = et\<rparr>}"
proof -
  from assms(1) have ord: "ordered st" by (simp add: flow_ok_def)
  from assms(2) have u: "st' = st\<lparr>ls_exclusionStates := butlast (ls_exclusionStates st)\<rparr>" "\<not> ls_busy st" "ls_exclusionStates st \<noteq> []"
    "last (ls_exclusionStates st) = \<lparr>es_level = l, es_exclusionType = et\<rparr>" "M' = unlock M"
    by (simp_all add: doUnlock_Inr)
  from assms(1) u(2) have "w = None" by (cases w) (auto simp: flow_ok_def)
  then show "flow_ok st' w" using doUnlock_ordered[OF ord assms(2)] u(1,2) by (simp add: flow_ok_def)
  show "M' = unlock M" by (fact u(5))
  have app: "ls_exclusionStates st = butlast (ls_exclusionStates st) @ [\<lparr>es_level = l, es_exclusionType = et\<rparr>]"
    using u(3,4) append_butlast_last_id by metis
  then show "\<lparr>es_level = l, es_exclusionType = et\<rparr> \<in> set (ls_exclusionStates st)" by (metis in_set_conv_decomp)
  have "distinct (ls_exclusionStates st)" using ord by (auto simp: ordered_def strict_sorted_iff distinct_map)
  then have "distinct (butlast (ls_exclusionStates st) @ [\<lparr>es_level = l, es_exclusionType = et\<rparr>])" using app by simp
  then show "set (ls_exclusionStates st') = set (ls_exclusionStates st) - {\<lparr>es_level = l, es_exclusionType = et\<rparr>}"
    unfolding u(1) by (subst (2) app) auto
qed

lemma finite_wants_upd: "finite {f. W f \<noteq> None} \<Longrightarrow> finite {g. (W(f := v)) g \<noteq> None}"
  by (rule finite_subset[where B = "insert f {f. W f \<noteq> None}"]) auto

lemma step_request:
  assumes "sys_inv s" and "et \<noteq> nonExclusion" and "doLock_enter (sy_state s f) l et = Inr st'"
  shows "sys_inv (s\<lparr>sy_state := (sy_state s)(f := st'), sy_wants := (sy_wants s)(f \<mapsto> (l, et))\<rparr>)"
proof -
  have "flow_ok (sy_state s f) (sy_wants s f)" using assms(1) by (simp add: sys_inv_def)
  from flow_ok_request[OF this assms(3,2)]
  have ok: "flow_ok st' (Some (l, et))" and same: "ls_exclusionStates st' = ls_exclusionStates (sy_state s f)"
    by simp_all
  have h: "holds (s\<lparr>sy_state := (sy_state s)(f := st'), sy_wants := W\<rparr>) g k e = holds s g k e" for g k e W
    using same by (simp add: holds_def)
  have fin: "finite {g. ((sy_wants s)(f \<mapsto> (l, et))) g \<noteq> None}"
    using assms(1) by (intro finite_wants_upd) (simp add: sys_inv_def)
  show ?thesis using assms(1) ok fin unfolding sys_inv_def h by simp
qed

lemma step_grant:
  assumes "sys_inv s" and "sy_wants s f = Some (l, et)" and "sync_free et (sy_mutex s l)"
  shows "sys_inv (s\<lparr>sy_state := (sy_state s)(f := doLock_finish (sy_state s f) l et),
       sy_wants := (sy_wants s)(f := None), sy_mutex := at_level l (sync_Lock et) (sy_mutex s)\<rparr>)" (is "sys_inv ?s")
proof -
  have ok0: "flow_ok (sy_state s f) (Some (l, et))" using assms(1,2) by (auto simp: sys_inv_def dest: spec[of _ f])
  then have et: "et \<noteq> nonExclusion" and below: "\<not> holds s f l e" for e by (force simp: flow_ok_def holds_def)+
  have h: "holds ?s g k e \<longleftrightarrow> holds s g k e \<or> g = f \<and> k = l \<and> e = et" for g k e
    by (auto simp: holds_def doLock_finish_def exclusiveLock_unlock_def)
  have "mutex_ok (sync_Lock et (sy_mutex s l)) (if et = writeExclusion then insert f (holders s l writeExclusion) else holders s l writeExclusion)
      (if et = readExclusion then insert f (holders s l readExclusion) else holders s l readExclusion)"
    by (rule mutex_ok_Lock) (use assms(1,3) et below in \<open>auto simp: sys_inv_def\<close>)
  moreover have "holders ?s l e = (if et = e then insert f (holders s l e) else holders s l e)" for e using h by auto
  moreover have "holders ?s k e = holders s k e" if "k \<noteq> l" for k e using h that by auto
  ultimately have "\<forall>k. mutex_ok (sy_mutex ?s k) (holders ?s k writeExclusion) (holders ?s k readExclusion)"
    using assms(1) by (simp add: sys_inv_def at_level_def)
  moreover have "finite {g. ((sy_wants s)(f := None)) g \<noteq> None}"
    using assms(1) by (intro finite_wants_upd) (simp add: sys_inv_def)
  ultimately show ?thesis using flow_ok_grant[OF ok0] assms(1) by (simp add: sys_inv_def)
qed

lemma step_release:
  assumes "sys_inv s" and "et \<noteq> nonExclusion"
    and "doUnlock (sy_state s f) l et (at_level l (sync_Unlock et)) (sy_mutex s) = Inr (st', M')"
  shows "sys_inv (s\<lparr>sy_state := (sy_state s)(f := st'), sy_mutex := M'\<rparr>)" (is "sys_inv ?s")
proof -
  have "flow_ok (sy_state s f) (sy_wants s f)" using assms(1) by (simp add: sys_inv_def)
  note r = flow_ok_release[OF this assms(3)]
  have h: "holds ?s g k e \<longleftrightarrow> holds s g k e \<and> \<not> (g = f \<and> k = l \<and> e = et)" for g k e
    using r(4) by (auto simp: holds_def)
  have "mutex_ok (sync_Unlock et (sy_mutex s l)) (if et = writeExclusion then holders s l writeExclusion - {f} else holders s l writeExclusion)
      (if et = readExclusion then holders s l readExclusion - {f} else holders s l readExclusion)"
    by (rule mutex_ok_Unlock) (use assms(1,2) r(3) in \<open>cases et; auto simp: sys_inv_def holds_def\<close>)+
  moreover have "holders ?s l e = (if et = e then holders s l e - {f} else holders s l e)" for e using h by auto
  moreover have "holders ?s k e = holders s k e" if "k \<noteq> l" for k e using h that by auto
  ultimately have "\<forall>k. mutex_ok (sy_mutex ?s k) (holders ?s k writeExclusion) (holders ?s k readExclusion)"
    using assms(1) by (simp add: sys_inv_def at_level_def r(2))
  then show ?thesis using r(1) assms(1) by (simp add: sys_inv_def)
qed

lemma sys_step_inv [go_inv]: "sys_step s s' \<Longrightarrow> sys_inv s \<Longrightarrow> sys_inv s'"
  by (induction rule: sys_step.induct) (auto intro: step_request step_grant step_release)

lemma sys_reach_inv: "sys_reach s \<Longrightarrow> sys_inv s"
  by (induction rule: sys_reach.induct) (auto intro: sys_inv_init sys_step_inv)

lemma maximal_waiter:
  assumes "sys_inv s" and "sy_wants s f \<noteq> None"
  obtains g l et where "sy_wants s g = Some (l, et)"
    and "\<And>h k e. sy_wants s h = Some (k, e) \<Longrightarrow> k \<le> l"
proof -
  let ?L = "{l. \<exists>h e. sy_wants s h = Some (l, e)}"
  have "?L = (\<lambda>h. fst (the (sy_wants s h))) ` {h. sy_wants s h \<noteq> None}"
    by (force simp: image_iff)
  moreover have "finite {h. sy_wants s h \<noteq> None}"
    using assms(1) unfolding sys_inv_def by blast
  ultimately have fin: "finite ?L" by simp
  from assms(2) have "?L \<noteq> {}" by auto
  with fin have "Max ?L \<in> ?L" by (rule Max_in)
  then obtain g e where "sy_wants s g = Some (Max ?L, e)" by auto
  moreover have "k \<le> Max ?L" if "sy_wants s h = Some (k, e)" for h k e
    using fin that by (intro Max_ge) auto
  ultimately show thesis by (rule that)
qed

lemma unlock_top:
  assumes "\<not> ls_busy st" and "ls_exclusionStates st \<noteq> []"
  shows "\<exists>l et st'. \<lparr>es_level = l, es_exclusionType = et\<rparr> \<in> set (ls_exclusionStates st) \<and>
    (\<forall>unlock M. doUnlock st l et unlock M = Inr (st', unlock M))"
proof -
  obtain l et where cur: "last (ls_exclusionStates st) = \<lparr>es_level = l, es_exclusionType = et\<rparr>"
    by (cases "last (ls_exclusionStates st)")
  then have "\<lparr>es_level = l, es_exclusionType = et\<rparr> \<in> set (ls_exclusionStates st)" using last_in_set[OF assms(2)] by simp
  moreover have "doUnlock st l et unlock M = Inr (st\<lparr>ls_exclusionStates := butlast (ls_exclusionStates st)\<rparr>, unlock M)" for unlock and M :: 'a
    unfolding doUnlock_Inr using assms cur by simp
  ultimately show ?thesis by blast
qed

lemma held_not_fatal:
  assumes "sys_inv s" and "holds s u l et"
  shows "et \<noteq> nonExclusion" and "\<not> mx_fatal (sync_Unlock et (sy_mutex s l))"
proof -
  show et: "et \<noteq> nonExclusion" using assms by (force simp: sys_inv_def flow_ok_def ordered_def holds_def)
  have "mutex_ok (sync_Unlock et (sy_mutex s l))
      (if et = writeExclusion then holders s l writeExclusion - {u} else holders s l writeExclusion)
      (if et = readExclusion then holders s l readExclusion - {u} else holders s l readExclusion)"
    by (rule mutex_ok_Unlock) (use assms et in \<open>cases et; auto simp: sys_inv_def\<close>)+
  then show "\<not> mx_fatal (sync_Unlock et (sy_mutex s l))" by (simp add: mutex_ok_def)
qed

lemma holder_not_stuck:
  assumes "sys_inv s" and "holds s u l e" and "\<And>h k e. sy_wants s h = Some (k, e) \<Longrightarrow> k \<le> l"
  shows "sy_wants s u = None \<and> (\<exists>k e st' M'. e \<noteq> nonExclusion \<and>
     doUnlock (sy_state s u) k e (at_level k (sync_Unlock e)) (sy_mutex s) = Inr (st', M') \<and> \<not> mx_fatal (M' k))"
proof -
  have ok: "flow_ok (sy_state s u) (sy_wants s u)" using assms(1) by (simp add: sys_inv_def)
  have w: "sy_wants s u = None"
  proof (cases "sy_wants s u")
    case (Some p)
    then obtain k et where p: "sy_wants s u = Some (k, et)" by (cases p) auto
    with ok assms(2) have "l < k" by (force simp: flow_ok_def holds_def)
    with assms(3)[OF p] show ?thesis by simp
  qed simp
  have "\<not> ls_busy (sy_state s u)" "ls_exclusionStates (sy_state s u) \<noteq> []"
    using w ok assms(2) by (auto simp: flow_ok_def holds_def)
  then obtain k et st' where "holds s u k et"
    and "\<forall>unlock M. doUnlock (sy_state s u) k et unlock (M :: mutexLevel \<Rightarrow> syncMutex) = Inr (st', unlock M)"
    unfolding holds_def using unlock_top by blast
  then have "et \<noteq> nonExclusion" "\<not> mx_fatal (at_level k (sync_Unlock et) (sy_mutex s) k)"
    "doUnlock (sy_state s u) k et (at_level k (sync_Unlock et)) (sy_mutex s) = Inr (st', at_level k (sync_Unlock et) (sy_mutex s))"
    using held_not_fatal[OF assms(1), of u k et] by (simp_all add: at_level_def)
  with w show ?thesis by blast
qed

lemma free_not_held:
  assumes "sys_inv s" and "\<And>u e. \<not> holds s u l e"
  shows "sync_free et (sy_mutex s l)"
proof -
  have "mutex_ok (sy_mutex s l) (holders s l writeExclusion) (holders s l readExclusion)"
    using assms(1) by (simp add: sys_inv_def)
  then show ?thesis using assms(2) by (simp add: mutex_ok_def sync_free_def split: if_splits)
qed

text \<open>What the assertions say of a flow.\<close>

lemma exclusionLoop_holds:
  assumes "ordered st" and "e \<noteq> nonExclusion"
  shows "exclusionLoop (ls_exclusionStates st) l = e \<longleftrightarrow> \<lparr>es_level = l, es_exclusionType = e\<rparr> \<in> set (ls_exclusionStates st)"
proof -
  have srt: "sorted_wrt (<) (map es_level (ls_exclusionStates st))" using assms(1) by (simp add: ordered_def)
  then have inj: "inj_on es_level (set (ls_exclusionStates st))" by (simp add: strict_sorted_iff distinct_map)
  show ?thesis
  proof (cases "find (\<lambda>s. es_level s = l) (ls_exclusionStates st)")
    case None
    then have "\<lparr>es_level = l, es_exclusionType = e\<rparr> \<notin> set (ls_exclusionStates st)" by (auto simp: find_None_iff)
    with None assms(2) show ?thesis by (simp add: exclusionLoop_lookup[OF srt])
  next
    case (Some s)
    then have "s \<in> set (ls_exclusionStates st)" "es_level s = l" by (auto simp: find_Some_iff)
    with inj have "\<lparr>es_level = l, es_exclusionType = e\<rparr> \<in> set (ls_exclusionStates st) \<longleftrightarrow> s = \<lparr>es_level = l, es_exclusionType = e\<rparr>"
      using inj_onD[OF inj, of s "\<lparr>es_level = l, es_exclusionType = e\<rparr>"] by auto
    then show ?thesis using \<open>es_level s = l\<close> by (cases s) (auto simp: exclusionLoop_lookup[OF srt] Some)
  qed
qed

lemma assert_holds:
  assumes "flow_ok (sy_state s f) (sy_wants s f)"
  shows "AssertLocked l (sy_state s f) = Inr () \<longleftrightarrow> sy_wants s f = None \<and> holds s f l writeExclusion"
    and "AssertAnyLocked l (sy_state s f) = Inr () \<longleftrightarrow> sy_wants s f = None \<and> (holds s f l writeExclusion \<or> holds s f l readExclusion)"
proof -
  have ord: "ordered (sy_state s f)" and busy: "ls_busy (sy_state s f) = (sy_wants s f \<noteq> None)"
    using assms by (simp_all add: flow_ok_def)
  note ex = exclusionLoop_holds[OF ord, of _ l, folded holds_def]
  show "AssertLocked l (sy_state s f) = Inr () \<longleftrightarrow> sy_wants s f = None \<and> holds s f l writeExclusion"
    using ex[of writeExclusion] busy by (auto simp: AssertLocked_def getExclusionType_def exclusiveLock_lock_def)
  show "AssertAnyLocked l (sy_state s f) = Inr () \<longleftrightarrow> sy_wants s f = None \<and> (holds s f l writeExclusion \<or> holds s f l readExclusion)"
    using ex[of writeExclusion] ex[of readExclusion] busy
    by (cases "exclusionLoop (ls_exclusionStates (sy_state s f)) l")
      (auto simp: AssertAnyLocked_def getExclusionType_def exclusiveLock_lock_def)
qed

lemma mutex_excludes:
  assumes "sys_inv s" and "holds s f l e" and "holds s g l e'" and "f \<noteq> g"
  shows "e = readExclusion \<and> e' = readExclusion"
proof -
  have m: "mutex_ok (sy_mutex s l) (holders s l writeExclusion) (holders s l readExclusion)"
    using assms(1) by (simp add: sys_inv_def)
  have "e \<noteq> nonExclusion" "e' \<noteq> nonExclusion" using held_not_fatal(1)[OF assms(1)] assms(2,3) by blast+
  moreover have "k = h" if "holds s h l writeExclusion" "holds s k l writeExclusion" for h k
    using m that by (auto simp: mutex_ok_def set_eq_iff split: if_splits)
  moreover have "\<not> holds s k l readExclusion" if "holds s h l writeExclusion" for h k
    using m that by (auto simp: mutex_ok_def split: if_splits)
  ultimately show ?thesis using assms(2-4) by (cases e; cases e') auto
qed

text \<open>A state in which flow 0 has level 1 for reading and flow 1 waits for it, and the state in which both have it.\<close>

lemma reach_request:
  assumes "sys_reach s" and "et \<noteq> nonExclusion" and "\<not> ls_busy (sy_state s f)"
    and "ls_exclusionStates (sy_state s f) = []"
  shows "sys_reach (s\<lparr>sy_state := (sy_state s)(f := (sy_state s f)\<lparr>ls_busy := True\<rparr>),
    sy_wants := (sy_wants s)(f \<mapsto> (l, et))\<rparr>)"
  using assms by (intro sys_reach.step[OF assms(1)] sys_step.request)
    (auto simp: doLock_enter_Inr currLocked_eq)

lemma reach_grant:
  assumes "sys_reach s" and "sy_wants s f = Some (l, et)" and "sync_free et (sy_mutex s l)"
  shows "sys_reach (s\<lparr>sy_state := (sy_state s)(f := doLock_finish (sy_state s f) l et),
       sy_wants := (sy_wants s)(f := None), sy_mutex := at_level l (sync_Lock et) (sy_mutex s)\<rparr>)"
  using assms by (intro sys_reach.step[OF assms(1)] sys_step.grant)

lemma reach_one_reader:
  assumes "et \<noteq> nonExclusion"
  shows "\<exists>s :: nat sys. sys_reach s \<and> sy_wants s = [1 \<mapsto> (1, et)] \<and> holds s 0 1 readExclusion \<and>
    sy_mutex s 1 = \<lparr>mx_writer = False, mx_readers = 1, mx_fatal = False\<rparr>"
proof -
  define s0 :: "nat sys" where "s0 = sys_init"
  define s1 where "s1 = s0\<lparr>sy_state := (sy_state s0)(0 := (sy_state s0 0)\<lparr>ls_busy := True\<rparr>),
    sy_wants := (sy_wants s0)(0 \<mapsto> (1, readExclusion))\<rparr>"
  have r0: "sys_reach s0" unfolding s0_def by (rule sys_reach.init)
  have r1: "sys_reach s1"
    unfolding s1_def by (rule reach_request[OF r0]) (simp_all add: s0_def sys_init_def makeLevelState_def)
  define s2 where "s2 = s1\<lparr>sy_state := (sy_state s1)(0 := doLock_finish (sy_state s1 0) 1 readExclusion),
       sy_wants := (sy_wants s1)(0 := None), sy_mutex := at_level 1 (sync_Lock readExclusion) (sy_mutex s1)\<rparr>"
  have r2: "sys_reach s2"
    unfolding s2_def by (rule reach_grant[OF r1]) (simp_all add: s1_def s0_def sys_init_def sync_free_def)
  define s3 where "s3 = s2\<lparr>sy_state := (sy_state s2)(1 := (sy_state s2 1)\<lparr>ls_busy := True\<rparr>),
    sy_wants := (sy_wants s2)(1 \<mapsto> (1, et))\<rparr>"
  note defs = s3_def s2_def s1_def s0_def sys_init_def makeLevelState_def doLock_finish_def
    exclusiveLock_unlock_def at_level_def sync_Lock_def
  have "sys_reach s3"
    unfolding s3_def by (rule reach_request[OF r2 assms]) (simp_all add: defs)
  moreover have "sy_wants s3 = [1 \<mapsto> (1, et)]" by (simp add: defs)
  moreover have "holds s3 0 1 readExclusion" by (simp add: defs holds_def)
  moreover have "sy_mutex s3 1 = \<lparr>mx_writer = False, mx_readers = 1, mx_fatal = False\<rparr>" by (simp add: defs)
  ultimately show ?thesis by blast
qed

section \<open>Properties\<close>

text \<open>
  C37: a flow that starts with a new lock state and only locks and unlocks mutexes holds them in strictly increasing
  level order, each for reading or writing. \<open>doLock\<close> then succeeds exactly for the levels above all of those
  the flow holds, and for every other level it returns the level violation error, with the mutex it locked last.
\<close>

theorem doLock_succeeds_iff:
  assumes "flow_reach st"
  shows "sorted_wrt (<) (map es_level (ls_exclusionStates st))
    \<and> nonExclusion \<notin> es_exclusionType ` set (ls_exclusionStates st)
    \<and> (if \<forall>s \<in> set (ls_exclusionStates st). es_level s < level
       then doLock st level et lock w =
         Inr (st\<lparr>ls_exclusionStates := ls_exclusionStates st @ [\<lparr>es_level = level, es_exclusionType = et\<rparr>]\<rparr>, lock w)
       else doLock st level et lock w = Inl (Error (levelViolationError level et (last (ls_exclusionStates st)))))"
proof -
  have ord: "ordered st" and free: "\<not> ls_busy st" using flow_reach_ordered[OF assms] by simp_all
  have top: "(\<forall>s \<in> set (ls_exclusionStates st). es_level s < level) \<longleftrightarrow>
      (ls_exclusionStates st = [] \<or> es_level (last (ls_exclusionStates st)) < level)"
    using sorted_last_less[of es_level "ls_exclusionStates st" level] ord by (auto simp: ordered_def)
  have fin: "doLock_finish (st\<lparr>ls_busy := True\<rparr>) level et =
      st\<lparr>ls_exclusionStates := ls_exclusionStates st @ [\<lparr>es_level = level, es_exclusionType = et\<rparr>]\<rparr>"
    using free by (cases st) (simp add: doLock_finish_def exclusiveLock_unlock_def)
  have "doLock st level et lock w = (if ls_exclusionStates st = [] \<or> es_level (last (ls_exclusionStates st)) < level
      then Inr (doLock_finish (st\<lparr>ls_busy := True\<rparr>) level et, lock w)
      else Inl (Error (levelViolationError level et (last (ls_exclusionStates st)))))"
    using free by (simp add: doLock_def doLock_enter_def exclusiveLock_lock_def currLocked_eq)
  then show ?thesis using ord unfolding top fin by (simp add: ordered_def)
qed

theorem doLock_succeeds_iff_witness:
  "\<exists>st. flow_reach st \<and> ls_exclusionStates st = [\<lparr>es_level = 1, es_exclusionType = writeExclusion\<rparr>] \<and>
   (\<exists>st'. doLock st 2 readExclusion id () = Inr (st', ())) \<and>
   doLock st 1 readExclusion id () =
     Inl (Error (levelViolationError 1 readExclusion \<lparr>es_level = 1, es_exclusionType = writeExclusion\<rparr>))"
proof -
  let ?st = "\<lparr>ls_busy = False, ls_exclusionStates = [\<lparr>es_level = 1, es_exclusionType = writeExclusion\<rparr>]\<rparr>"
  have h: "flow_reach ?st"
    by (rule flow_lock[OF flow_init, of writeExclusion 1 _ "()"])
      (simp_all add: doLock_def doLock_enter_def exclusiveLock_lock_def makeLevelState_def currLocked_def
        doLock_finish_def exclusiveLock_unlock_def)
  show ?thesis
    using h doLock_succeeds_iff[OF h, of 2 readExclusion id "()"]
      doLock_succeeds_iff[OF h, of 1 readExclusion id "()"]
    by (intro exI[of _ ?st]) simp
qed

text \<open>
  Locking a mutex and unlocking it again gives back the lock state, and the loop of
  \<open>getExclusionType\<close>, which stops early at a higher level, finds exactly the levels held.
\<close>

theorem lock_then_unlock:
  assumes "ordered st" and "doLock st level et lock w = Inr (st', w')" and "et \<noteq> nonExclusion"
  shows "doUnlock st' level et unlock w' = Inr (st, unlock w')
    \<and> getExclusionType st' level = Inr et
    \<and> (\<forall>k. k \<noteq> level \<longrightarrow> getExclusionType st' k = getExclusionType st k)"
proof -
  from assms(2) obtain st1 where st1: "doLock_enter st level et = Inr st1"
    and st': "st' = doLock_finish st1 level et"
    by (auto simp: doLock_def bindR_Inr_iff)
  let ?new = "\<lparr>es_level = level, es_exclusionType = et\<rparr>"
  from st1 st' have st'_eq: "st' = st\<lparr>ls_exclusionStates := ls_exclusionStates st @ [?new]\<rparr>"
    and free: "\<not> ls_busy st"
    by (cases st; simp add: doLock_enter_Inr doLock_finish_def exclusiveLock_unlock_def)+
  have ord': "sorted_wrt (<) (map es_level (ls_exclusionStates st @ [?new]))"
    using doLock_ordered[OF assms] by (simp add: ordered_def st'_eq)
  have ord: "sorted_wrt (<) (map es_level (ls_exclusionStates st))"
    using assms(1) by (simp add: ordered_def)
  have notin: "find (\<lambda>s. es_level s = level) (ls_exclusionStates st) = None"
    using enter_above_all[OF assms(1) st1] by (auto simp: find_None_iff)
  have find_app: "find P (xs @ [y]) = (case find P xs of None \<Rightarrow> if P y then Some y else None | r \<Rightarrow> r)"
    for P and xs :: "exclusionState list" and y
    by (induction xs) auto
  have loop: "exclusionLoop (ls_exclusionStates st @ [?new]) k =
      (if k = level then et else exclusionLoop (ls_exclusionStates st) k)" for k
    using notin by (simp add: exclusionLoop_lookup[OF ord'] exclusionLoop_lookup[OF ord] find_app
        split: option.split)
  show ?thesis
    using free by (simp add: doUnlock_Inr st'_eq getExclusionType_def exclusiveLock_lock_def loop)
qed

theorem lock_then_unlock_witness:
  "\<exists>st'. ordered makeLevelState \<and> doLock makeLevelState 3 readExclusion id () = Inr (st', ()) \<and>
     doUnlock st' 3 readExclusion id () = Inr (makeLevelState, ()) \<and>
     getExclusionType st' 3 = Inr readExclusion"
proof -
  obtain st' where h: "doLock makeLevelState 3 readExclusion id () = Inr (st', ())"
    by (simp add: doLock_def doLock_enter_def exclusiveLock_lock_def makeLevelState_def currLocked_def)
  show ?thesis
    using h makeLevelState_ordered lock_then_unlock[OF makeLevelState_ordered h, of id] by auto
qed

text \<open>
  C25: mutual exclusion, and what the stacks of the flows say of the mutexes. In every reachable state of any number of
  flows, no mutex has been unlocked that was not locked; a mutex has a writer exactly when some flow has recorded it as
  locked for writing, and as many readers as flows have recorded it as locked for reading; and two different flows that
  have recorded the same mutex both have it for reading. So \<open>AssertLocked\<close> passes exactly in a flow that has the mutex
  for writing and is not blocked, and then \<open>AssertAnyLocked\<close> fails in every other flow.
\<close>

theorem leveled_mutual_exclusion:
  assumes "sys_reach s"
  shows "\<not> mx_fatal (sy_mutex s l)
    \<and> (mx_writer (sy_mutex s l) \<longleftrightarrow> (\<exists>f. holds s f l writeExclusion))
    \<and> finite {f. holds s f l readExclusion} \<and> mx_readers (sy_mutex s l) = card {f. holds s f l readExclusion}
    \<and> (\<forall>f g e e'. holds s f l e \<and> holds s g l e' \<and> f \<noteq> g \<longrightarrow> e = readExclusion \<and> e' = readExclusion)
    \<and> (\<forall>f. AssertLocked l (sy_state s f) = Inr () \<longleftrightarrow> sy_wants s f = None \<and> holds s f l writeExclusion)
    \<and> (\<forall>f g. AssertLocked l (sy_state s f) = Inr () \<and> f \<noteq> g \<longrightarrow> AssertAnyLocked l (sy_state s g) \<noteq> Inr ())"
proof -
  note inv = sys_reach_inv[OF assms]
  then have ok: "flow_ok (sy_state s f) (sy_wants s f)"
    and m: "mutex_ok (sy_mutex s l) (holders s l writeExclusion) (holders s l readExclusion)" for f
    by (simp_all add: sys_inv_def)
  have "AssertAnyLocked l (sy_state s g) \<noteq> Inr ()" if "AssertLocked l (sy_state s f) = Inr ()" "f \<noteq> g" for f g
    using that mutex_excludes[OF inv, of f l writeExclusion g] by (auto simp: assert_holds[OF ok])
  moreover have "mx_writer (sy_mutex s l) \<longleftrightarrow> (\<exists>f. holds s f l writeExclusion)"
    using m by (auto simp: mutex_ok_def split: if_splits)
  moreover have "\<not> mx_fatal (sy_mutex s l)" "finite (holders s l readExclusion)" "mx_readers (sy_mutex s l) = card (holders s l readExclusion)"
    using m by (simp_all add: mutex_ok_def)
  ultimately show ?thesis using mutex_excludes[OF inv] assert_holds(1)[OF ok] by blast
qed

theorem leveled_mutual_exclusion_witness:
  "\<exists>s :: nat sys. sys_reach s \<and> holds s 0 1 readExclusion \<and> holds s 1 1 readExclusion \<and>
     mx_readers (sy_mutex s 1) = 2 \<and> card {f. holds s f 1 readExclusion} = 2 \<and> \<not> (\<exists>f. holds s f 1 writeExclusion)"
proof -
  obtain s :: "nat sys" where s: "sys_reach s" "sy_wants s = [1 \<mapsto> (1, readExclusion)]"
    "holds s 0 1 readExclusion" "sy_mutex s 1 = \<lparr>mx_writer = False, mx_readers = 1, mx_fatal = False\<rparr>"
    using reach_one_reader[of readExclusion] by auto
  let ?s = "s\<lparr>sy_state := (sy_state s)(1 := doLock_finish (sy_state s 1) 1 readExclusion),
       sy_wants := (sy_wants s)(1 := None), sy_mutex := at_level 1 (sync_Lock readExclusion) (sy_mutex s)\<rparr>"
  have r: "sys_reach ?s" by (rule reach_grant[OF s(1)]) (use s in \<open>auto simp: sync_free_def\<close>)
  have "holds ?s 0 1 readExclusion" using s(3) by (simp add: holds_def)
  moreover have "holds ?s 1 1 readExclusion"
    by (simp add: holds_def doLock_finish_def exclusiveLock_unlock_def)
  moreover have "mx_readers (sy_mutex ?s 1) = 2" "\<not> mx_writer (sy_mutex ?s 1)" using s(4) by (simp_all add: at_level_def sync_Lock_def)
  ultimately show ?thesis using r leveled_mutual_exclusion[OF r, of 1] by metis
qed

text \<open>
  C7: the hierarchy prevents deadlock. Whenever some flow is blocked in \<open>Lock\<close>, either a waiting
  flow can be granted its mutex, or a flow that is not blocked holds a mutex which it can unlock.
\<close>

theorem leveled_no_deadlock:
  assumes "sys_reach s" and "sy_wants s f \<noteq> None"
  shows "(\<exists>g l et. sy_wants s g = Some (l, et) \<and> grantable s l et) \<or>
         (\<exists>g l et st' M'. sy_wants s g = None \<and> et \<noteq> nonExclusion \<and>
            doUnlock (sy_state s g) l et (at_level l (sync_Unlock et)) (sy_mutex s) = Inr (st', M') \<and> \<not> mx_fatal (M' l))"
proof -
  note inv = sys_reach_inv[OF assms(1)]
  obtain g l et where g: "sy_wants s g = Some (l, et)"
    and top: "\<And>h k e. sy_wants s h = Some (k, e) \<Longrightarrow> k \<le> l"
    using maximal_waiter[OF inv assms(2)] by blast
  show ?thesis
  proof (cases "\<exists>u e. holds s u l e")
    case True
    then obtain u e where u: "holds s u l e" by blast
    have "sy_wants s u = None \<and> (\<exists>k e st' M'. e \<noteq> nonExclusion \<and>
       doUnlock (sy_state s u) k e (at_level k (sync_Unlock e)) (sy_mutex s) = Inr (st', M') \<and> \<not> mx_fatal (M' k))"
      using inv u by (rule holder_not_stuck) (rule top)
    then show ?thesis by blast
  next
    case False
    then have free: "sync_free e (sy_mutex s l)" for e using free_not_held[OF inv] by blast
    show ?thesis
    proof (cases "\<exists>h. sy_wants s h = Some (l, writeExclusion)")
      case True
      with free show ?thesis by (auto simp: grantable_def)
    next
      case False
      with free g have "grantable s l et" by (auto simp: grantable_def)
      with g show ?thesis by blast
    qed
  qed
qed

theorem leveled_no_deadlock_witness:
  "\<exists>s :: nat sys. sys_reach s \<and> sy_wants s 1 = Some (1, writeExclusion) \<and> holds s 0 1 readExclusion \<and>
     ((\<exists>g l et. sy_wants s g = Some (l, et) \<and> grantable s l et) \<or>
      (\<exists>g l et st' M'. sy_wants s g = None \<and> et \<noteq> nonExclusion \<and>
         doUnlock (sy_state s g) l et (at_level l (sync_Unlock et)) (sy_mutex s) = Inr (st', M') \<and> \<not> mx_fatal (M' l)))"
proof -
  obtain s :: "nat sys" where s: "sys_reach s" "sy_wants s = [1 \<mapsto> (1, writeExclusion)]" "holds s 0 1 readExclusion"
    using reach_one_reader[of writeExclusion] by auto
  have w: "sy_wants s 1 \<noteq> None" "sy_wants s 1 = Some (1, writeExclusion)" by (simp_all add: s(2))
  show ?thesis using s(1,3) w(2) leveled_no_deadlock[OF s(1) w(1)] by blast
qed

end
