(* ===== verification/Kbfs_Lru.thy ===== *)
theory Kbfs_Lru
  imports Kbfs_Prelude "HOL-Library.AList" "HOL-Library.Multiset"
begin

text \<open>
  The fixed-size LRU cache that the block cache is built on (simplelru/lru.go of golang-lru), the
  interface the block cache relies on as a locale, and its interpretation on the model.
\<close>

section \<open>The interface\<close>

text \<open>
  \<open>entries\<close> is what the cache holds. Every operation that can drop entries returns the list of
  those it dropped, for which the eviction callback runs. A client that keeps a running sum of
  weights in the callback needs exactly the conservation laws below.
\<close>

locale lru_spec =
  fixes inv :: "'c \<Rightarrow> bool"
    and entries :: "'c \<Rightarrow> ('k \<times> 'v) list"
    and lget :: "'c \<Rightarrow> 'k \<Rightarrow> 'c \<times> 'v option"
    and ladd :: "'c \<Rightarrow> 'k \<Rightarrow> 'v \<Rightarrow> 'c \<times> ('k \<times> 'v) list"
    and lremove :: "'c \<Rightarrow> 'k \<Rightarrow> 'c \<times> ('k \<times> 'v) list"
    and lremoveOldest :: "'c \<Rightarrow> 'c \<times> ('k \<times> 'v) list"
    and llen :: "'c \<Rightarrow> nat"
  assumes distinct_keys: "inv c \<Longrightarrow> distinct (map fst (entries c))"
    and len_entries: "inv c \<Longrightarrow> llen c = length (entries c)"
    and get_result: "inv c \<Longrightarrow> lget c k = (c', r) \<Longrightarrow> r = map_of (entries c) k"
    and get_entries: "inv c \<Longrightarrow> lget c k = (c', r) \<Longrightarrow> inv c' \<and> mset (entries c') = mset (entries c)"
    and add_fresh: "inv c \<Longrightarrow> map_of (entries c) k = None \<Longrightarrow> ladd c k v = (c', ev) \<Longrightarrow>
      inv c' \<and> mset (entries c') + mset ev = add_mset (k, v) (mset (entries c)) \<and> (k, v) \<notin> set ev"
    and add_present: "inv c \<Longrightarrow> map_of (entries c) k = Some old \<Longrightarrow> ladd c k v = (c', ev) \<Longrightarrow>
      inv c' \<and> ev = [] \<and> add_mset (k, old) (mset (entries c')) = add_mset (k, v) (mset (entries c))"
    and remove_entries: "inv c \<Longrightarrow> lremove c k = (c', ev) \<Longrightarrow>
      inv c' \<and> mset (entries c') + mset ev = mset (entries c) \<and>
      ev = (case map_of (entries c) k of None \<Rightarrow> [] | Some v \<Rightarrow> [(k, v)])"
    and removeOldest_entries: "inv c \<Longrightarrow> lremoveOldest c = (c', ev) \<Longrightarrow>
      inv c' \<and> mset (entries c') + mset ev = mset (entries c) \<and> length ev = min 1 (llen c)"
begin

text \<open>The weight of a list of entries, for a client that weighs values.\<close>

definition weight :: "('v \<Rightarrow> nat) \<Rightarrow> ('k \<times> 'v) list \<Rightarrow> nat" where
  "weight w es = sum_list (map (\<lambda>e. w (snd e)) es)"

lemma weight_mset: "weight w es = sum_mset (image_mset (\<lambda>e. w (snd e)) (mset es))"
  by (simp add: weight_def sum_mset_sum_list[symmetric] del: sum_mset_sum_list)

lemma weight_get: "inv c \<Longrightarrow> lget c k = (c', r) \<Longrightarrow> weight w (entries c') = weight w (entries c)"
  using get_entries[of c k c' r] by (simp add: weight_mset)

lemma weight_add_fresh:
  assumes "inv c" "map_of (entries c) k = None" "ladd c k v = (c', ev)"
  shows "weight w (entries c') + weight w ev = weight w (entries c) + w v"
proof -
  from add_fresh[OF assms]
  have "image_mset (\<lambda>e. w (snd e)) (mset (entries c') + mset ev) =
      image_mset (\<lambda>e. w (snd e)) (add_mset (k, v) (mset (entries c)))"
    by simp
  then have "sum_mset (image_mset (\<lambda>e. w (snd e)) (mset (entries c') + mset ev)) =
      sum_mset (image_mset (\<lambda>e. w (snd e)) (add_mset (k, v) (mset (entries c))))"
    by (rule arg_cong)
  then show ?thesis by (simp add: weight_mset)
qed

lemma weight_drop:
  assumes "mset (entries c') + mset ev = mset (entries c)"
  shows "weight w (entries c') + weight w ev = weight w (entries c)"
  using arg_cong[OF assms, of "\<lambda>m. sum_mset (image_mset (\<lambda>e. w (snd e)) m)"]
  by (simp add: weight_mset)

lemma weight_remove:
  "inv c \<Longrightarrow> lremove c k = (c', ev) \<Longrightarrow> weight w (entries c') + weight w ev = weight w (entries c)"
  using remove_entries by (blast intro: weight_drop)

lemma weight_removeOldest:
  "inv c \<Longrightarrow> lremoveOldest c = (c', ev) \<Longrightarrow> weight w (entries c') + weight w ev = weight w (entries c)"
  using removeOldest_entries by (blast intro: weight_drop)

lemma len_removeOldest:
  assumes "inv c" "lremoveOldest c = (c', ev)"
  shows "llen c' = llen c - 1"
proof -
  from removeOldest_entries[OF assms]
  have "length (entries c') + length ev = length (entries c)" and "inv c'" and "length ev = min 1 (llen c)"
    by (auto dest: arg_cong[where f = size])
  then show ?thesis using assms(1) by (simp add: len_entries)
qed

lemma map_of_mset:
  assumes "inv c" "inv c'" "mset (entries c') = mset (entries c)"
  shows "map_of (entries c') = map_of (entries c)"
  using map_of_inject_set[of "entries c'" "entries c"] assms distinct_keys mset_eq_setD by blast

end

section \<open>simplelru\<close>

text \<open>
  \<open>lru_evictList\<close> is the doubly linked list from its front, the most recently used entry, to its
  back; the \<open>items\<close> map of the source is its index, here \<open>map_of\<close>.
\<close>

record ('k, 'v) LRU =
  lru_size :: nat
  lru_evictList :: "('k \<times> 'v) list"

definition NewLRU :: "int \<Rightarrow> ('k, 'v) LRU option" where
  "NewLRU sz = (if sz \<le> 0 then None else Some \<lparr>lru_size = nat sz, lru_evictList = []\<rparr>)"

definition lru_RemoveOldest :: "('k, 'v) LRU \<Rightarrow> ('k, 'v) LRU \<times> ('k \<times> 'v) list" where
  "lru_RemoveOldest c =
     (if lru_evictList c = [] then (c, [])
      else (c\<lparr>lru_evictList := butlast (lru_evictList c)\<rparr>, [last (lru_evictList c)]))"

definition lru_Add :: "('k, 'v) LRU \<Rightarrow> 'k \<Rightarrow> 'v \<Rightarrow> ('k, 'v) LRU \<times> ('k \<times> 'v) list" where
  "lru_Add c k v =
     (case map_of (lru_evictList c) k of
        Some _ \<Rightarrow> (c\<lparr>lru_evictList := (k, v) # AList.delete k (lru_evictList c)\<rparr>, [])
      | None \<Rightarrow>
          (let c' = c\<lparr>lru_evictList := (k, v) # lru_evictList c\<rparr> in
           if length (lru_evictList c') > lru_size c then lru_RemoveOldest c' else (c', [])))"

definition lru_Get :: "('k, 'v) LRU \<Rightarrow> 'k \<Rightarrow> ('k, 'v) LRU \<times> 'v option" where
  "lru_Get c k =
     (case map_of (lru_evictList c) k of
        Some v \<Rightarrow> (c\<lparr>lru_evictList := (k, v) # AList.delete k (lru_evictList c)\<rparr>, Some v)
      | None \<Rightarrow> (c, None))"

definition lru_Remove :: "('k, 'v) LRU \<Rightarrow> 'k \<Rightarrow> ('k, 'v) LRU \<times> ('k \<times> 'v) list" where
  "lru_Remove c k =
     (case map_of (lru_evictList c) k of
        Some v \<Rightarrow> (c\<lparr>lru_evictList := AList.delete k (lru_evictList c)\<rparr>, [(k, v)])
      | None \<Rightarrow> (c, []))"

definition lru_Len :: "('k, 'v) LRU \<Rightarrow> nat" where
  "lru_Len c = length (lru_evictList c)"

definition lru_inv :: "('k, 'v) LRU \<Rightarrow> bool" where
  "lru_inv c \<longleftrightarrow> 0 < lru_size c \<and> distinct (map fst (lru_evictList c)) \<and>
     length (lru_evictList c) \<le> lru_size c"

subsection \<open>The interpretation\<close>

lemma mset_AList_delete:
  assumes "distinct (map fst l)" and "map_of l k = Some v"
  shows "add_mset (k, v) (mset (AList.delete k l)) = mset l"
  using assms
proof (induction l)
  case Nil
  then show ?case by simp
next
  case (Cons p l)
  obtain a b where p: "p = (a, b)" by (cases p)
  show ?case
  proof (cases "a = k")
    case True
    have "AList.delete k l = l"
      using Cons.prems(1) True p by (intro delete_id) (auto simp: image_iff)
    with True Cons.prems p show ?thesis by simp
  next
    case False
    with Cons p show ?thesis by (simp add: add_mset_commute)
  qed
qed

lemma length_AList_delete:
  assumes "distinct (map fst l)" and "map_of l k = Some v"
  shows "Suc (length (AList.delete k l)) = length l"
  using arg_cong[OF mset_AList_delete[OF assms], of size] by simp

lemma mset_butlast_last: "l \<noteq> [] \<Longrightarrow> add_mset (last l) (mset (butlast l)) = mset l"
  by (cases l rule: rev_cases) simp_all

lemma keys_delete: "fst ` set (AList.delete k l) = fst ` set l - {k}"
  by (metis delete_keys list.set_map set_removeAll)

lemma lru_RemoveOldest_conserve:
  "lru_RemoveOldest c = (c', ev) \<Longrightarrow>
     mset (lru_evictList c') + mset ev = mset (lru_evictList c) \<and> lru_size c' = lru_size c \<and>
     length ev = min 1 (lru_Len c) \<and> lru_evictList c' = butlast (lru_evictList c)"
  by (auto simp: lru_RemoveOldest_def lru_Len_def Suc_leI mset_butlast_last split: if_splits)

lemma lru_inv_butlast: "lru_inv c \<Longrightarrow> lru_inv (c\<lparr>lru_evictList := butlast (lru_evictList c)\<rparr>)"
  by (auto simp: lru_inv_def map_butlast distinct_butlast)

lemma lru_RemoveOldest_inv: "lru_inv c \<Longrightarrow> lru_RemoveOldest c = (c', ev) \<Longrightarrow> lru_inv c'"
  using lru_inv_butlast[of c] by (auto simp: lru_RemoveOldest_def split: if_splits)

lemma lru_inv_delete: "lru_inv c \<Longrightarrow> lru_inv (c\<lparr>lru_evictList := AList.delete k (lru_evictList c)\<rparr>)"
  by (auto simp: lru_inv_def delete_keys distinct_removeAll intro: le_trans[OF length_delete_le])

lemma lru_inv_front:
  assumes "lru_inv c" and "map_of (lru_evictList c) k = Some old"
  shows "lru_inv (c\<lparr>lru_evictList := (k, v) # AList.delete k (lru_evictList c)\<rparr>)"
proof -
  have "distinct (map fst (lru_evictList c))" using assms(1) by (simp add: lru_inv_def)
  from length_AList_delete[OF this assms(2)] lru_inv_delete[OF assms(1), of k] assms(1)
  show ?thesis by (simp add: lru_inv_def keys_delete)
qed

lemma lru_mset_front:
  assumes "lru_inv c" and "map_of (lru_evictList c) k = Some old"
  shows "add_mset (k, old) (mset (AList.delete k (lru_evictList c))) = mset (lru_evictList c)"
  using assms by (intro mset_AList_delete) (simp_all add: lru_inv_def)

lemma lru_Add_fresh:
  assumes "lru_inv c" and "map_of (lru_evictList c) k = None" and "lru_Add c k v = (c', ev)"
  shows "lru_inv c' \<and> mset (lru_evictList c') + mset ev = add_mset (k, v) (mset (lru_evictList c)) \<and>
    (k, v) \<notin> set ev"
proof -
  let ?l = "(k, v) # lru_evictList c"
  let ?c = "c\<lparr>lru_evictList := ?l\<rparr>"
  have dist: "distinct (map fst ?l)"
    using assms(1,2) by (auto simp: lru_inv_def map_of_eq_None_iff)
  show ?thesis
  proof (cases "length ?l > lru_size c")
    case True
    with assms(2,3) have r: "lru_RemoveOldest ?c = (c', ev)"
      by (simp add: lru_Add_def Let_def)
    have ne: "lru_evictList c \<noteq> []"
      using True assms(1) by (auto simp: lru_inv_def)
    have c': "c' = ?c\<lparr>lru_evictList := butlast ?l\<rparr>" "ev = [last ?l]"
      using r by (simp_all add: lru_RemoveOldest_def)
    have "lru_inv c'"
      using dist assms(1) ne c'(1) True
      by (auto simp: lru_inv_def map_butlast distinct_butlast dest: in_set_butlastD)
    moreover have "last ?l \<noteq> (k, v)"
    proof
      assume "last ?l = (k, v)"
      with ne have "last (lru_evictList c) = (k, v)" by simp
      with last_in_set[OF ne] have "(k, v) \<in> set (lru_evictList c)" by metis
      then have "k \<in> fst ` set (lru_evictList c)" by (rule rev_image_eqI) simp
      with dist show False by simp
    qed
    ultimately show ?thesis
      using lru_RemoveOldest_conserve[OF r] c'(2) by auto
  next
    case False
    with assms show ?thesis using dist by (auto simp: lru_Add_def Let_def lru_inv_def)
  qed
qed

interpretation lru: lru_spec lru_inv lru_evictList lru_Get lru_Add lru_Remove lru_RemoveOldest lru_Len
proof unfold_locales
  fix c :: "('k, 'v) LRU" and c' k v ev r old
  assume inv: "lru_inv c"
  show "distinct (map fst (lru_evictList c))" using inv by (simp add: lru_inv_def)
  show "lru_Len c = length (lru_evictList c)" by (simp add: lru_Len_def)
  show "r = map_of (lru_evictList c) k" if "lru_Get c k = (c', r)"
    using that by (auto simp: lru_Get_def split: option.splits)
  show "lru_inv c' \<and> mset (lru_evictList c') = mset (lru_evictList c)" if "lru_Get c k = (c', r)"
  proof (cases "map_of (lru_evictList c) k")
    case None
    with that inv show ?thesis by (simp add: lru_Get_def)
  next
    case (Some v)
    with that lru_inv_front[OF inv Some, of v] lru_mset_front[OF inv Some] show ?thesis
      by (auto simp: lru_Get_def)
  qed
  show "lru_inv c' \<and> mset (lru_evictList c') + mset ev = add_mset (k, v) (mset (lru_evictList c)) \<and>
      (k, v) \<notin> set ev"
    if "map_of (lru_evictList c) k = None" "lru_Add c k v = (c', ev)"
    using lru_Add_fresh[OF inv that] .
  show "lru_inv c' \<and> ev = [] \<and>
      add_mset (k, old) (mset (lru_evictList c')) = add_mset (k, v) (mset (lru_evictList c))"
    if h: "map_of (lru_evictList c) k = Some old" "lru_Add c k v = (c', ev)"
    using h lru_inv_front[OF inv h(1), of v] lru_mset_front[OF inv h(1)]
    by (auto simp: lru_Add_def add_mset_commute)
  show "lru_inv c' \<and> mset (lru_evictList c') + mset ev = mset (lru_evictList c) \<and>
      ev = (case map_of (lru_evictList c) k of None \<Rightarrow> [] | Some v \<Rightarrow> [(k, v)])"
    if "lru_Remove c k = (c', ev)"
  proof (cases "map_of (lru_evictList c) k")
    case None
    with that inv show ?thesis by (simp add: lru_Remove_def)
  next
    case (Some v)
    with that lru_inv_delete[OF inv, of k] lru_mset_front[OF inv Some] show ?thesis
      by (auto simp: lru_Remove_def)
  qed
  show "lru_inv c' \<and> mset (lru_evictList c') + mset ev = mset (lru_evictList c) \<and>
      length ev = min 1 (lru_Len c)"
    if "lru_RemoveOldest c = (c', ev)"
    using lru_RemoveOldest_conserve[OF that] lru_RemoveOldest_inv[OF inv that] by blast
qed

end
