(* ===== verification/Kbfs_Block_Cache.thy ===== *)
theory Kbfs_Block_Cache
  imports Kbfs_Data_Types Kbfs_Lru
begin

text \<open>
  libkbfs/bcache.go: the in-memory block cache. Clean blocks are in a fixed-size LRU cache
  (transient) or in a map (permanent), dirty blocks in a map of their own. \<open>bc_cleanTotalBytes\<close>
  is the counter that bounds the clean bytes; the LRU cache's eviction callback lowers it.
\<close>

section \<open>Model\<close>

datatype BlockCacheLifetime = TransientEntry | PermanentEntry | OtherLifetime int

record dirtyBlockID =
  dbi_id :: BlockID
  dbi_refNonce :: BlockRefNonce
  dbi_branch :: BranchName

record idCacheKey =
  ick_tlf :: TlfID
  ick_plaintextHash :: "byte list"

datatype bcache_error =
    NoSuchBlockError BlockID
  | NotDirectFileBlockError
  | UnknownLifetimeError BlockCacheLifetime

text \<open>
  A nil \<open>*lru.Cache\<close> is \<open>None\<close>. The dirty map is an association list with distinct keys, so
  that the loop over it computes. Values are typed, so the type assertions on cached values of the
  source cannot fail here.
\<close>

record BlockCacheStandard =
  bc_cleanBytesCapacity :: uint64
  bc_ids :: "(idCacheKey, BlockPointer) LRU option"
  bc_cleanTransient :: "(BlockID, Block) LRU option"
  bc_cleanPermanent :: "BlockID \<rightharpoonup> Block"
  bc_cleanTotalBytes :: uint64
  bc_dirty :: "(dirtyBlockID \<times> Block) list"
  bc_dirtyBytesEstimate :: uint64

definition NewBlockCacheStandard :: "int \<Rightarrow> uint64 \<Rightarrow> BlockCacheStandard option" where
  "NewBlockCacheStandard transientCapacity cleanBytesCapacity =
     (let b = \<lparr>bc_cleanBytesCapacity = cleanBytesCapacity, bc_ids = None, bc_cleanTransient = None,
               bc_cleanPermanent = Map.empty, bc_cleanTotalBytes = 0, bc_dirty = [],
               bc_dirtyBytesEstimate = 0\<rparr>
      in if transientCapacity > 0 then
           (case NewLRU transientCapacity of
              None \<Rightarrow> None
            | Some ids \<Rightarrow>
                (case NewLRU transientCapacity of
                   None \<Rightarrow> None
                 | Some tr \<Rightarrow> Some (b\<lparr>bc_ids := Some ids, bc_cleanTransient := Some tr\<rparr>)))
         else Some b)"

definition dirtyID :: "BlockPointer \<Rightarrow> BranchName \<Rightarrow> dirtyBlockID" where
  "dirtyID ptr branch = \<lparr>dbi_id = bp_ID ptr, dbi_refNonce = bp_RefNonce ptr, dbi_branch = branch\<rparr>"

text \<open>A hit in the transient cache moves the entry to the front, so \<open>Get\<close> changes the cache.\<close>

definition bcache_Get ::
  "BlockCacheStandard \<Rightarrow> BlockPointer \<Rightarrow> BranchName \<Rightarrow> BlockCacheStandard \<times> (bcache_error + Block)" where
  "bcache_Get b ptr branch =
     (case map_of (bc_dirty b) (dirtyID ptr branch) of
        Some block \<Rightarrow> (b, Inr block)
      | None \<Rightarrow>
          (let (b, hit) =
             (case bc_cleanTransient b of
                None \<Rightarrow> (b, None)
              | Some tr \<Rightarrow> (let (tr', hit) = lru_Get tr (bp_ID ptr)
                            in (b\<lparr>bc_cleanTransient := Some tr'\<rparr>, hit)))
           in case hit of
                Some block \<Rightarrow> (b, Inr block)
              | None \<Rightarrow>
                  (case bc_cleanPermanent b (bp_ID ptr) of
                     Some block \<Rightarrow> (b, Inr block)
                   | None \<Rightarrow> (b, Inl (NoSuchBlockError (bp_ID ptr))))))"

definition getCachedBlockSize :: "Block \<Rightarrow> uint32" where
  "getCachedBlockSize block =
     (case block of
        FileB fb \<Rightarrow> if fb_IsInd fb then fb_cachedEncodedSize fb else of_nat (length (fb_Contents fb))
      | _ \<Rightarrow> GetEncodedSize block)"

definition size64 :: "Block \<Rightarrow> uint64" where
  "size64 block = ucast (getCachedBlockSize block)"

definition onEvict :: "BlockCacheStandard \<Rightarrow> BlockID \<times> Block \<Rightarrow> BlockCacheStandard" where
  "onEvict b kv = b\<lparr>bc_cleanTotalBytes := bc_cleanTotalBytes b - size64 (snd kv)\<rparr>"

text \<open>The known-pointer key of a direct file block.\<close>

definition idKey :: "TlfID \<Rightarrow> FileBlock \<Rightarrow> idCacheKey" where
  "idKey tlf block =
     (let (_, hash) = DoRawDefaultHash (fb_Contents block)
      in \<lparr>ick_tlf = tlf, ick_plaintextHash = hash\<rparr>)"

definition CheckForKnownPtr ::
  "BlockCacheStandard \<Rightarrow> TlfID \<Rightarrow> FileBlock \<Rightarrow> BlockCacheStandard \<times> (bcache_error + BlockPointer)" where
  "CheckForKnownPtr b tlf block =
     (if fb_IsInd block then (b, Inl NotDirectFileBlockError)
      else case bc_ids b of
             None \<Rightarrow> (b, Inr zeroPtr)
           | Some ids \<Rightarrow>
               (let (ids', r) = lru_Get ids (idKey tlf block);
                    b' = b\<lparr>bc_ids := Some ids'\<rparr>
                in case r of None \<Rightarrow> (b', Inr zeroPtr) | Some ptr \<Rightarrow> (b', Inr ptr)))"

text \<open>
  The eviction loop of \<open>makeRoomForSize\<close>: it removes the oldest entry while the total would
  exceed the capacity and the last round removed something. \<open>tr\<close> is the transient cache, kept
  apart from the rest of the state \<open>b\<close>.
\<close>

function evictLoop ::
  "uint64 \<Rightarrow> nat \<Rightarrow> BlockCacheStandard \<Rightarrow> (BlockID, Block) LRU \<Rightarrow> BlockCacheStandard \<times> (BlockID, Block) LRU"
  where
  "evictLoop sz oldLen b tr =
     (if bc_cleanTotalBytes b + sz > bc_cleanBytesCapacity b \<and> oldLen \<noteq> lru_Len tr
      then let (tr', ev) = lru_RemoveOldest tr in evictLoop sz (lru_Len tr) (foldl onEvict b ev) tr'
      else (b, tr))"
  by pat_completeness auto
termination
proof (relation "measure (\<lambda>(sz :: uint64, oldLen, b :: BlockCacheStandard, tr). lru_Len tr + (if oldLen \<noteq> lru_Len tr then 1 else 0))")
  fix sz oldLen and b :: BlockCacheStandard and tr tr' :: "(BlockID, Block) LRU" and p ev
  assume g: "bc_cleanTotalBytes b + sz > bc_cleanBytesCapacity b \<and> oldLen \<noteq> lru_Len tr"
    and p: "p = lru_RemoveOldest tr" "(tr', ev) = p"
  from p lru_RemoveOldest_conserve[of tr tr' ev] have "lru_Len tr' = lru_Len tr - 1"
    by (simp add: lru_Len_def)
  with g show "((sz, lru_Len tr, foldl onEvict b ev, tr'), sz, oldLen, b, tr)
      \<in> measure (\<lambda>(sz :: uint64, oldLen, b :: BlockCacheStandard, tr). lru_Len tr + (if oldLen \<noteq> lru_Len tr then 1 else 0))"
    by auto
qed simp

declare evictLoop.simps [simp del]

definition makeRoomForSize :: "BlockCacheStandard \<Rightarrow> uint64 \<Rightarrow> BlockCacheStandard \<times> bool" where
  "makeRoomForSize b sz =
     (case bc_cleanTransient b of
        None \<Rightarrow> (b, False)
      | Some tr \<Rightarrow>
          (let (b1, tr1) = evictLoop sz (lru_Len tr + 1) b tr;
               b2 = b1\<lparr>bc_cleanTransient := Some tr1\<rparr>
           in if bc_cleanTotalBytes b2 + sz > bc_cleanBytesCapacity b2 then (b2, False)
              else (b2\<lparr>bc_cleanTotalBytes := bc_cleanTotalBytes b2 + sz\<rparr>, True)))"

definition bcache_Put ::
  "BlockCacheStandard \<Rightarrow> BlockPointer \<Rightarrow> TlfID \<Rightarrow> Block \<Rightarrow> BlockCacheLifetime \<Rightarrow>
   BlockCacheStandard \<times> bcache_error option" where
  "bcache_Put b ptr tlf block lifetime =
     (let (b, ptr) =
        (case (block, bc_ids b) of
           (FileB fBlock, Some ids) \<Rightarrow>
             if lifetime = TransientEntry \<and> \<not> fb_IsInd fBlock then
               (let ptr' = ptr\<lparr>bp_RefNonce := zeroBlockRefNonce\<rparr>
                in (b\<lparr>bc_ids := Some (fst (lru_Add ids (idKey tlf fBlock) ptr'))\<rparr>, ptr'))
             else (b, ptr)
         | _ \<Rightarrow> (b, ptr));
          store = (\<lambda>b.
            (let (b, madeRoom) = makeRoomForSize b (size64 block) in
             case bc_cleanTransient b of
               Some tr \<Rightarrow>
                 if madeRoom \<and> lifetime = TransientEntry then
                   (let (tr', ev) = lru_Add tr (bp_ID ptr) block
                    in (foldl onEvict (b\<lparr>bc_cleanTransient := Some tr'\<rparr>) ev, None))
                 else (b, None)
             | None \<Rightarrow> (b, None)))
      in case lifetime of
           TransientEntry \<Rightarrow> store b
         | PermanentEntry \<Rightarrow>
             store (b\<lparr>bc_cleanPermanent := (bc_cleanPermanent b)(bp_ID ptr \<mapsto> block)\<rparr>)
         | OtherLifetime _ \<Rightarrow> (b, Some (UnknownLifetimeError lifetime)))"

definition PutDirty :: "BlockCacheStandard \<Rightarrow> BlockPointer \<Rightarrow> BranchName \<Rightarrow> Block \<Rightarrow> BlockCacheStandard" where
  "PutDirty b ptr branch block =
     b\<lparr>bc_dirty := AList.update (dirtyID ptr branch) block (bc_dirty b), bc_dirtyBytesEstimate := 0\<rparr>"

definition DeletePermanent :: "BlockCacheStandard \<Rightarrow> BlockID \<Rightarrow> BlockCacheStandard" where
  "DeletePermanent b i =
     (case bc_cleanPermanent b i of
        None \<Rightarrow> b
      | Some block \<Rightarrow>
          b\<lparr>bc_cleanPermanent := (bc_cleanPermanent b)(i := None),
            bc_cleanTotalBytes := bc_cleanTotalBytes b - size64 block\<rparr>)"

definition DeleteTransient :: "BlockCacheStandard \<Rightarrow> BlockPointer \<Rightarrow> TlfID \<Rightarrow> BlockCacheStandard" where
  "DeleteTransient b ptr tlf =
     (case bc_cleanTransient b of
        None \<Rightarrow> b
      | Some tr \<Rightarrow>
          (let (tr1, hit) = lru_Get tr (bp_ID ptr) in
           case hit of
             None \<Rightarrow> b\<lparr>bc_cleanTransient := Some tr1\<rparr>
           | Some block \<Rightarrow>
               (let b1 = (case (block, bc_ids b) of
                            (FileB fBlock, Some ids) \<Rightarrow>
                              if \<not> fb_IsInd fBlock
                              then b\<lparr>bc_ids := Some (fst (lru_Remove ids (idKey tlf fBlock)))\<rparr>
                              else b
                          | _ \<Rightarrow> b);
                    (tr2, ev) = lru_Remove tr1 (bp_ID ptr)
                in foldl onEvict (b1\<lparr>bc_cleanTransient := Some tr2\<rparr>) ev)))"

definition DeleteKnownPtr ::
  "BlockCacheStandard \<Rightarrow> TlfID \<Rightarrow> FileBlock \<Rightarrow> BlockCacheStandard \<times> bcache_error option" where
  "DeleteKnownPtr b tlf block =
     (if fb_IsInd block then (b, Some NotDirectFileBlockError)
      else case bc_ids b of
             None \<Rightarrow> (b, None)
           | Some ids \<Rightarrow> (b\<lparr>bc_ids := Some (fst (lru_Remove ids (idKey tlf block)))\<rparr>, None))"

definition DeleteDirty :: "BlockCacheStandard \<Rightarrow> BlockPointer \<Rightarrow> BranchName \<Rightarrow> BlockCacheStandard" where
  "DeleteDirty b ptr branch =
     b\<lparr>bc_dirty := AList.delete (dirtyID ptr branch) (bc_dirty b), bc_dirtyBytesEstimate := 0\<rparr>"

definition IsDirty :: "BlockCacheStandard \<Rightarrow> BlockPointer \<Rightarrow> BranchName \<Rightarrow> bool" where
  "IsDirty b ptr branch \<longleftrightarrow> map_of (bc_dirty b) (dirtyID ptr branch) \<noteq> None"

definition DirtyBytesEstimate :: "BlockCacheStandard \<Rightarrow> BlockCacheStandard \<times> uint64" where
  "DirtyBytesEstimate b =
     (let b' = (if bc_dirtyBytesEstimate b = 0
                then b\<lparr>bc_dirtyBytesEstimate := sum_list (map (size64 \<circ> snd) (bc_dirty b))\<rparr> else b)
      in (b', bc_dirtyBytesEstimate b'))"

section \<open>What the cache holds and counts\<close>

definition blockBytes :: "Block \<Rightarrow> nat" where
  "blockBytes block = unat (size64 block)"

definition transientEntries :: "BlockCacheStandard \<Rightarrow> (BlockID \<times> Block) list" where
  "transientEntries b = (case bc_cleanTransient b of None \<Rightarrow> [] | Some tr \<Rightarrow> lru_evictList tr)"

definition entriesBytes :: "(BlockID \<times> Block) list \<Rightarrow> nat" where
  "entriesBytes es = sum_list (map (\<lambda>e. blockBytes (snd e)) es)"

definition permanentBytes :: "BlockCacheStandard \<Rightarrow> BlockID set \<Rightarrow> nat" where
  "permanentBytes b P = (\<Sum>i\<in>P. blockBytes (the (bc_cleanPermanent b i)))"

text \<open>
  The invariant: the counter is the size of the transient entries and of the permanent blocks
  \<open>P\<close> that were counted when they were put, and is within the capacity.
\<close>

definition bcache_ok :: "BlockCacheStandard \<Rightarrow> BlockID set \<Rightarrow> bool" where
  "bcache_ok b P \<longleftrightarrow>
     (\<forall>tr. bc_cleanTransient b = Some tr \<longrightarrow> lru_inv tr) \<and>
     (\<forall>ids. bc_ids b = Some ids \<longrightarrow> lru_inv ids) \<and>
     distinct (map fst (bc_dirty b)) \<and>
     finite P \<and> P \<subseteq> dom (bc_cleanPermanent b) \<and>
     unat (bc_cleanTotalBytes b) = entriesBytes (transientEntries b) + permanentBytes b P \<and>
     bc_cleanTotalBytes b \<le> bc_cleanBytesCapacity b"

lemma entriesBytes_weight: "entriesBytes es = lru.weight blockBytes es"
  by (simp add: entriesBytes_def lru.weight_def)

lemma entriesBytes_simps [simp]:
  "entriesBytes [] = 0" "entriesBytes (e # es) = blockBytes (snd e) + entriesBytes es"
  "entriesBytes (es @ es') = entriesBytes es + entriesBytes es'"
  by (simp_all add: entriesBytes_def)

lemma blockBytes_bound: "blockBytes block < 2 ^ 32"
proof -
  have "unat (getCachedBlockSize block) < 2 ^ LENGTH(32)" by (rule unsigned_less)
  moreover have "blockBytes block \<le> unat (getCachedBlockSize block)"
    by (simp add: blockBytes_def size64_def unsigned_ucast_eq)
  ultimately show ?thesis by simp
qed

lemma onEvict_simps [simp]:
  "bc_cleanBytesCapacity (foldl onEvict b ev) = bc_cleanBytesCapacity b"
  "bc_ids (foldl onEvict b ev) = bc_ids b"
  "bc_cleanTransient (foldl onEvict b ev) = bc_cleanTransient b"
  "bc_cleanPermanent (foldl onEvict b ev) = bc_cleanPermanent b"
  "bc_dirty (foldl onEvict b ev) = bc_dirty b"
  "bc_dirtyBytesEstimate (foldl onEvict b ev) = bc_dirtyBytesEstimate b"
  by (induction ev arbitrary: b) (simp_all add: onEvict_def)

lemma onEvict_total:
  "entriesBytes ev \<le> unat (bc_cleanTotalBytes b) \<Longrightarrow>
     unat (bc_cleanTotalBytes (foldl onEvict b ev)) = unat (bc_cleanTotalBytes b) - entriesBytes ev"
proof (induction ev arbitrary: b)
  case Nil
  then show ?case by simp
next
  case (Cons e ev)
  have le: "size64 (snd e) \<le> bc_cleanTotalBytes b"
    using Cons.prems by (simp add: blockBytes_def word_le_nat_alt)
  have "unat (bc_cleanTotalBytes (onEvict b e)) = unat (bc_cleanTotalBytes b) - blockBytes (snd e)"
    using le by (simp add: onEvict_def blockBytes_def unat_sub)
  with Cons show ?case by simp
qed

lemma unat_add_size:
  fixes t c :: uint64
  assumes "t \<le> c" and "unat c + 2 ^ 32 \<le> 2 ^ 64"
  shows "unat (t + size64 block) = unat t + blockBytes block"
proof -
  have "unat t + unat (size64 block) < 2 ^ LENGTH(64)"
    using assms blockBytes_bound[of block] by (simp add: blockBytes_def word_le_nat_alt)
  then show ?thesis by (simp add: blockBytes_def unat_add_lem[symmetric])
qed

section \<open>Making room\<close>

text \<open>
  The eviction loop keeps the most recently used entries: it drops entries from the old end until
  the new block fits, and no more.
\<close>

definition evict_post ::
  "uint64 \<Rightarrow> BlockCacheStandard \<Rightarrow> (BlockID, Block) LRU \<Rightarrow> BlockCacheStandard \<Rightarrow> (BlockID, Block) LRU \<Rightarrow> nat \<Rightarrow> bool"
  where
  "evict_post sz b tr b' tr' n \<longleftrightarrow>
     n \<le> lru_Len tr \<and> tr' = tr\<lparr>lru_evictList := take n (lru_evictList tr)\<rparr> \<and>
     b' = b\<lparr>bc_cleanTotalBytes := bc_cleanTotalBytes b'\<rparr> \<and>
     unat (bc_cleanTotalBytes b') + entriesBytes (drop n (lru_evictList tr)) = unat (bc_cleanTotalBytes b) \<and>
     (bc_cleanTotalBytes b' + sz > bc_cleanBytesCapacity b \<longrightarrow> n = 0) \<and>
     (n < lru_Len tr \<longrightarrow>
        bc_cleanBytesCapacity b <
        bc_cleanTotalBytes b' + size64 (snd (lru_evictList tr ! n)) + sz)"

lemma evict_post_step:
  fixes tr
  defines "l \<equiv> lru_evictList tr"
  assumes ne: "l \<noteq> []" and full: "bc_cleanBytesCapacity b < bc_cleanTotalBytes b + sz"
    and tot: "unat (bc_cleanTotalBytes (onEvict b (last l))) + blockBytes (snd (last l)) = unat (bc_cleanTotalBytes b)"
    and n: "evict_post sz (onEvict b (last l)) (tr\<lparr>lru_evictList := butlast l\<rparr>) b' tr' n"
  shows "evict_post sz b tr b' tr' n"
proof -
  have le: "n \<le> length l - 1" using n by (simp add: evict_post_def lru_Len_def)
  have l: "l = butlast l @ [last l]" using ne by simp
  have dr: "drop n l = drop n (butlast l) @ [last l]" and tk: "take n l = take n (butlast l)"
    using le by (subst l, simp)+
  have b': "b' = b\<lparr>bc_cleanTotalBytes := bc_cleanTotalBytes b'\<rparr>"
  proof -
    have "b' = (onEvict b (last l))\<lparr>bc_cleanTotalBytes := bc_cleanTotalBytes b'\<rparr>"
      using n by (simp add: evict_post_def)
    also have "\<dots> = b\<lparr>bc_cleanTotalBytes := bc_cleanTotalBytes b'\<rparr>" by (simp add: onEvict_def)
    finally show ?thesis .
  qed
  have big: "bc_cleanBytesCapacity b < bc_cleanTotalBytes b' + size64 (snd (l ! n)) + sz" if "n < length l"
  proof (cases "n < length l - 1")
    case True
    with n show ?thesis by (simp add: evict_post_def lru_Len_def nth_butlast onEvict_def)
  next
    case False
    with that le have nn: "n = length l - 1" by simp
    then have "drop n (butlast l) = []" by simp
    with n have "unat (bc_cleanTotalBytes b') = unat (bc_cleanTotalBytes (onEvict b (last l)))"
      by (simp add: evict_post_def)
    then have "bc_cleanTotalBytes b' = bc_cleanTotalBytes b - size64 (snd (last l))"
      by (simp add: onEvict_def word_unat_eq_iff)
    with full nn ne show ?thesis by (simp add: last_conv_nth)
  qed
  have "n \<le> length l" using le by linarith
  with n dr tk b' tot big show ?thesis by (simp add: evict_post_def lru_Len_def l_def onEvict_def)
qed

lemma evictLoop_correct:
  assumes "evictLoop sz oldLen b tr = (b', tr')" and "oldLen \<noteq> lru_Len tr"
    and "entriesBytes (lru_evictList tr) \<le> unat (bc_cleanTotalBytes b)"
  shows "\<exists>n. evict_post sz b tr b' tr' n"
  using assms
proof (induction sz oldLen b tr rule: evictLoop.induct)
  case (1 sz oldLen b tr)
  let ?l = "lru_evictList tr"
  show ?case
  proof (cases "bc_cleanTotalBytes b + sz > bc_cleanBytesCapacity b")
    case False
    with "1.prems"(1) have "b' = b" "tr' = tr" by (simp_all add: evictLoop.simps[of sz oldLen])
    with False show ?thesis by (intro exI[of _ "lru_Len tr"]) (simp add: evict_post_def lru_Len_def)
  next
    case full: True
    show ?thesis
    proof (cases "?l = []")
      case True
      with full "1.prems"(1,2) have "b' = b" "tr' = tr"
        by (simp_all add: evictLoop.simps[of sz oldLen] evictLoop.simps[of sz 0] lru_RemoveOldest_def lru_Len_def)
      with True show ?thesis by (intro exI[of _ 0]) (simp add: evict_post_def lru_Len_def)
    next
      case ne: False
      let ?tr = "tr\<lparr>lru_evictList := butlast ?l\<rparr>" and ?b = "onEvict b (last ?l)"
      have l: "?l = butlast ?l @ [last ?l]" using ne by simp
      have sum: "entriesBytes ?l = entriesBytes (butlast ?l) + blockBytes (snd (last ?l))"
        by (subst l) simp
      have ro: "lru_RemoveOldest tr = (?tr, [last ?l])" using ne by (simp add: lru_RemoveOldest_def)
      have run: "evictLoop sz (lru_Len tr) ?b ?tr = (b', tr')"
        using "1.prems"(1,2) full ro by (simp add: evictLoop.simps[of sz oldLen])
      have tot: "unat (bc_cleanTotalBytes ?b) + blockBytes (snd (last ?l)) = unat (bc_cleanTotalBytes b)"
        using onEvict_total[of "[last ?l]" b] "1.prems"(3) sum by simp
      have len: "lru_Len tr \<noteq> lru_Len ?tr" using ne by (cases ?l) (simp_all add: lru_Len_def)
      have "\<exists>n. evict_post sz ?b ?tr b' tr' n"
        using "1.IH"[OF _ ro[symmetric] refl] full "1.prems"(2,3) run tot sum len by simp
      then show ?thesis using evict_post_step[OF ne full tot] by blast
    qed
  qed
qed

definition counter_safe :: "BlockCacheStandard \<Rightarrow> bool" where
  "counter_safe b \<longleftrightarrow> unat (bc_cleanBytesCapacity b) + 2 ^ 33 \<le> 2 ^ 64"

lemma makeRoomForSize_correct:
  assumes ok: "bcache_ok b P" and tr: "bc_cleanTransient b = Some tr" and cap: "counter_safe b"
    and run: "makeRoomForSize b (size64 block) = (b', room)"
  shows "\<exists>n t. b' = b\<lparr>bc_cleanTotalBytes := t, bc_cleanTransient := Some (tr\<lparr>lru_evictList := take n (lru_evictList tr)\<rparr>)\<rparr> \<and>
    (if room then unat t = entriesBytes (take n (lru_evictList tr)) + permanentBytes b P + blockBytes block \<and>
                  t \<le> bc_cleanBytesCapacity b
     else n = 0 \<and> unat t = permanentBytes b P \<and> t \<le> bc_cleanBytesCapacity b \<and>
          unat (bc_cleanBytesCapacity b) < permanentBytes b P + blockBytes block) \<and>
    (n < length (lru_evictList tr) \<longrightarrow>
       unat (bc_cleanBytesCapacity b) <
       entriesBytes (take (Suc n) (lru_evictList tr)) + permanentBytes b P + blockBytes block)"
proof -
  let ?l = "lru_evictList tr" and ?cap = "bc_cleanBytesCapacity b"
  obtain b1 tr1 where ev: "evictLoop (size64 block) (lru_Len tr + 1) b tr = (b1, tr1)" by fastforce
  have tot: "unat (bc_cleanTotalBytes b) = entriesBytes ?l + permanentBytes b P"
    and le: "bc_cleanTotalBytes b \<le> ?cap"
    using ok tr by (simp_all add: bcache_ok_def transientEntries_def)
  from evictLoop_correct[OF ev] tot obtain n where n: "evict_post (size64 block) b tr b1 tr1 n" by auto
  from n obtain t where b1: "b1 = b\<lparr>bc_cleanTotalBytes := t\<rparr>" by (auto simp: evict_post_def)
  have tr1: "tr1 = tr\<lparr>lru_evictList := take n ?l\<rparr>"
    and full: "?cap < t + size64 block \<Longrightarrow> n = 0"
    and big: "n < length ?l \<Longrightarrow> ?cap < t + size64 (snd (?l ! n)) + size64 block"
    using n b1 by (simp_all add: evict_post_def lru_Len_def)
  have "entriesBytes ?l = entriesBytes (take n ?l) + entriesBytes (drop n ?l)"
    by (metis append_take_drop_id entriesBytes_simps(3))
  with n tot have t: "unat t = entriesBytes (take n ?l) + permanentBytes b P"
    by (simp add: evict_post_def b1)
  have tle: "t \<le> ?cap" using n le b1 by (simp add: evict_post_def word_le_nat_alt)
  have sum: "unat (t + size64 block) = unat t + blockBytes block"
    using tle cap unat_add_size[of t ?cap block] by (simp add: counter_safe_def)
  have sum2: "unat (t + size64 blk + size64 block) = unat t + blockBytes blk + blockBytes block" for blk
    using tle cap unat_add_size[of t ?cap blk] blockBytes_bound[of blk]
    by (subst unat_add_size[of _ "t + size64 blk"]) (simp_all add: counter_safe_def word_le_nat_alt)
  have minimal: "n < length ?l \<Longrightarrow>
      unat ?cap < entriesBytes (take (Suc n) ?l) + permanentBytes b P + blockBytes block"
    using big sum2[of "snd (?l ! n)"] t by (simp add: take_Suc_conv_app_nth word_less_nat_alt)
  have b': "b' = (if room then b\<lparr>bc_cleanTotalBytes := t + size64 block, bc_cleanTransient := Some tr1\<rparr>
      else b\<lparr>bc_cleanTotalBytes := t, bc_cleanTransient := Some tr1\<rparr>)"
    and room: "room \<longleftrightarrow> \<not> ?cap < t + size64 block"
    using run tr ev b1 by (auto simp: makeRoomForSize_def Let_def split: if_splits)
  show ?thesis
  proof (cases room)
    case True
    with room have "t + size64 block \<le> ?cap" by (simp add: not_less)
    with True b' tr1 t sum minimal show ?thesis
      by (intro exI[of _ n] exI[of _ "t + size64 block"]) simp
  next
    case False
    with room have "?cap < t + size64 block" by simp
    with sum have "unat ?cap < unat t + blockBytes block" by (simp add: word_less_nat_alt)
    with False b' tr1 t tle minimal full[OF \<open>?cap < t + size64 block\<close>] show ?thesis
      by (intro exI[of _ n] exI[of _ t]) simp
  qed
qed

text \<open>A small cache for the concrete instances: two transient entries, 100 bytes, and blocks by size.\<close>

definition ex_cache :: BlockCacheStandard where
  "ex_cache = \<lparr>bc_cleanBytesCapacity = 100, bc_ids = Some \<lparr>lru_size = 2, lru_evictList = []\<rparr>,
     bc_cleanTransient = Some \<lparr>lru_size = 2, lru_evictList = []\<rparr>, bc_cleanPermanent = Map.empty,
     bc_cleanTotalBytes = 0, bc_dirty = [], bc_dirtyBytesEstimate = 0\<rparr>"

definition ex_block :: "uint32 \<Rightarrow> Block" where
  "ex_block n = CommonB False n"

lemma NewBlockCacheStandard_ex: "NewBlockCacheStandard 2 100 = Some ex_cache"
  by (simp add: NewBlockCacheStandard_def NewLRU_def ex_cache_def)

lemma ex_cache_ok: "bcache_ok ex_cache {}"
  by (simp add: bcache_ok_def ex_cache_def lru_inv_def transientEntries_def permanentBytes_def)

lemma ex_cache_safe: "counter_safe ex_cache"
  by (simp add: counter_safe_def ex_cache_def)

lemma ex_block_bytes: "blockBytes (ex_block n) = unat n"
proof -
  have "unat n < 2 ^ LENGTH(32)" by (rule unsigned_less)
  then show ?thesis
    by (simp add: blockBytes_def ex_block_def size64_def getCachedBlockSize_def unsigned_ucast_eq
        take_bit_nat_eq_self)
qed

section \<open>Put\<close>

text \<open>The part of a transient \<open>Put\<close> that records the known pointer touches the \<open>ids\<close> cache only.\<close>

definition recordKnownPtr :: "BlockCacheStandard \<Rightarrow> BlockPointer \<Rightarrow> TlfID \<Rightarrow> Block \<Rightarrow> BlockCacheStandard" where
  "recordKnownPtr b ptr tlf block =
     (case (block, bc_ids b) of
        (FileB fBlock, Some ids) \<Rightarrow>
          if fb_IsInd fBlock then b
          else b\<lparr>bc_ids := Some (fst (lru_Add ids (idKey tlf fBlock) (ptr\<lparr>bp_RefNonce := zeroBlockRefNonce\<rparr>)))\<rparr>
      | _ \<Rightarrow> b)"

lemma lru_Add_inv: "lru_inv c \<Longrightarrow> lru_inv (fst (lru_Add c k v))"
  by (metis lru.add_fresh lru.add_present not_None_eq prod.collapse)

lemma recordKnownPtr_simps [simp]:
  "bc_cleanBytesCapacity (recordKnownPtr b ptr tlf block) = bc_cleanBytesCapacity b"
  "bc_cleanTransient (recordKnownPtr b ptr tlf block) = bc_cleanTransient b"
  "bc_cleanPermanent (recordKnownPtr b ptr tlf block) = bc_cleanPermanent b"
  "bc_cleanTotalBytes (recordKnownPtr b ptr tlf block) = bc_cleanTotalBytes b"
  "bc_dirty (recordKnownPtr b ptr tlf block) = bc_dirty b"
  by (simp_all add: recordKnownPtr_def split: Block.splits option.splits)

lemma recordKnownPtr_ids_inv:
  "(\<And>ids. bc_ids b = Some ids \<Longrightarrow> lru_inv ids) \<Longrightarrow>
     bc_ids (recordKnownPtr b ptr tlf block) = Some ids \<Longrightarrow> lru_inv ids"
  by (auto simp: recordKnownPtr_def intro!: lru_Add_inv split: Block.splits option.splits if_splits)

lemma recordKnownPtr_ok [simp]: "bcache_ok b P \<Longrightarrow> bcache_ok (recordKnownPtr b ptr tlf block) P"
  using recordKnownPtr_ids_inv[of b ptr tlf block]
  by (auto simp: bcache_ok_def transientEntries_def permanentBytes_def)

lemma Put_transient_unfold:
  "bcache_Put b ptr tlf block TransientEntry =
     (let (b', room) = makeRoomForSize (recordKnownPtr b ptr tlf block) (size64 block) in
      case bc_cleanTransient b' of
        Some tr \<Rightarrow>
          if room then (let (tr', ev) = lru_Add tr (bp_ID ptr) block
                        in (foldl onEvict (b'\<lparr>bc_cleanTransient := Some tr'\<rparr>) ev, None))
          else (b', None)
      | None \<Rightarrow> (b', None))"
  by (cases block; cases "bc_ids b")
    (simp_all add: bcache_Put_def recordKnownPtr_def Let_def split: prod.split option.split)

lemma Put_permanent_unfold:
  "bcache_Put b ptr tlf block PermanentEntry =
     (fst (makeRoomForSize (b\<lparr>bc_cleanPermanent := (bc_cleanPermanent b)(bp_ID ptr \<mapsto> block)\<rparr>) (size64 block)), None)"
  by (cases block; cases "bc_ids b")
    (simp_all add: bcache_Put_def Let_def split: prod.split option.split)

lemma lru_Add_take:
  assumes "lru_size c > 0" and "map_of (lru_evictList c) k = None"
  shows "\<exists>m. lru_Add c k v = (c\<lparr>lru_evictList := (k, v) # take m (lru_evictList c)\<rparr>, drop m (lru_evictList c))"
proof (cases "length (lru_evictList c) < lru_size c")
  case True
  with assms(2) show ?thesis
    by (intro exI[of _ "length (lru_evictList c)"]) (simp add: lru_Add_def Let_def)
next
  case False
  with assms(1) have ne: "lru_evictList c \<noteq> []" by auto
  have "drop (length (lru_evictList c) - 1) (lru_evictList c) = [last (lru_evictList c)]"
    by (metis append_butlast_last_id append_eq_conv_conj length_butlast ne)
  moreover have "butlast (lru_evictList c) = take (length (lru_evictList c) - Suc 0) (lru_evictList c)"
    by (simp add: butlast_conv_take)
  ultimately show ?thesis
    using False assms(2) ne by (intro exI[of _ "length (lru_evictList c) - 1"])
      (simp add: lru_Add_def Let_def lru_RemoveOldest_def)
qed

text \<open>C24: putting a block whose ID is not in the transient cache keeps the byte counter exact and
  within the capacity. The block is stored in front of the most recently used entries whenever it
  fits beside the permanent blocks; otherwise all transient entries are gone and it is not stored.
  Permanent and dirty blocks are untouched.\<close>

theorem bcache_Put_transient_exact:
  assumes ok: "bcache_ok b P" and safe: "counter_safe b" and tr: "bc_cleanTransient b = Some tr"
    and fresh: "bp_ID ptr \<notin> fst ` set (lru_evictList tr)"
    and put: "bcache_Put b ptr tlf block TransientEntry = (b', err)"
  shows "err = None \<and> bcache_ok b' P \<and>
    bc_cleanPermanent b' = bc_cleanPermanent b \<and> bc_dirty b' = bc_dirty b \<and>
    (if permanentBytes b P + blockBytes block \<le> unat (bc_cleanBytesCapacity b)
     then \<exists>n. transientEntries b' = (bp_ID ptr, block) # take n (transientEntries b)
     else transientEntries b' = [])"
proof -
  let ?b = "recordKnownPtr b ptr tlf block" and ?l = "lru_evictList tr"
  obtain b1 room where mr: "makeRoomForSize ?b (size64 block) = (b1, room)" by fastforce
  have perm [simp]: "permanentBytes ?b P = permanentBytes b P" by (simp add: permanentBytes_def)
  have safe': "counter_safe ?b" using safe by (simp add: counter_safe_def)
  from makeRoomForSize_correct[OF recordKnownPtr_ok[OF ok] _ safe' mr] tr
  obtain n t where b1: "b1 = ?b\<lparr>bc_cleanTotalBytes := t, bc_cleanTransient := Some (tr\<lparr>lru_evictList := take n ?l\<rparr>)\<rparr>"
    and r: "room \<Longrightarrow> unat t = entriesBytes (take n ?l) + permanentBytes b P + blockBytes block \<and> t \<le> bc_cleanBytesCapacity b"
    and nr: "\<not> room \<Longrightarrow> n = 0 \<and> unat t = permanentBytes b P \<and> t \<le> bc_cleanBytesCapacity b \<and>
        unat (bc_cleanBytesCapacity b) < permanentBytes b P + blockBytes block"
    by (auto split: if_splits)
  let ?tr = "tr\<lparr>lru_evictList := take n ?l\<rparr>"
  have inv: "lru_inv ?tr" using ok tr by (auto simp: bcache_ok_def lru_inv_def take_map[symmetric])
  have okb: "bcache_ok ?b P" using ok by simp
  show ?thesis
  proof (cases room)
    case True
    have none: "map_of (take n ?l) (bp_ID ptr) = None"
      using fresh by (auto simp: map_of_eq_None_iff dest: in_set_takeD)
    have "0 < lru_size ?tr" using inv by (simp add: lru_inv_def)
    from lru_Add_take[OF this, of "bp_ID ptr" block] none obtain m where
      add: "lru_Add ?tr (bp_ID ptr) block = (tr\<lparr>lru_evictList := (bp_ID ptr, block) # take m (take n ?l)\<rparr>, drop m (take n ?l))"
      by auto
    let ?ev = "drop m (take n ?l)"
    let ?tr2 = "tr\<lparr>lru_evictList := (bp_ID ptr, block) # take m (take n ?l)\<rparr>"
    have inv2: "lru_inv ?tr2" using lru.add_fresh[OF inv _ add] none by simp
    have b': "b' = foldl onEvict (b1\<lparr>bc_cleanTransient := Some ?tr2\<rparr>) ?ev" "err = None"
      using put mr b1 True add by (simp_all add: Put_transient_unfold)
    have sum: "entriesBytes (take n ?l) = entriesBytes (take m (take n ?l)) + entriesBytes ?ev"
      by (metis append_take_drop_id entriesBytes_simps(3))
    have tot: "unat (bc_cleanTotalBytes b') = unat t - entriesBytes ?ev"
      unfolding b'(1) using r[OF True] sum b1 by (subst onEvict_total) simp_all
    have exact: "unat (bc_cleanTotalBytes b') =
        entriesBytes (lru_evictList ?tr2) + permanentBytes b P"
      using tot r[OF True] sum by simp
    have le: "bc_cleanTotalBytes b' \<le> bc_cleanBytesCapacity b"
    proof -
      have "unat (bc_cleanTotalBytes b') \<le> unat t" using tot by simp
      also have "unat t \<le> unat (bc_cleanBytesCapacity b)" 
        using conjunct2[OF r[OF True]] by (simp only: word_le_nat_alt)
      finally show ?thesis by (simp only: word_le_nat_alt)
    qed
    have fits: "permanentBytes b P + blockBytes block \<le> unat (bc_cleanBytesCapacity b)"
      using r[OF True] by (simp add: word_le_nat_alt)
    have "transientEntries b' = (bp_ID ptr, block) # take (min m n) (transientEntries b)"
      using b'(1) b1 tr by (simp add: transientEntries_def min.commute)
    moreover have "bcache_ok b' P"
      using okb inv2 exact le b'(1) b1
      by (auto simp: bcache_ok_def transientEntries_def permanentBytes_def)
    ultimately show ?thesis using fits b' b1 by auto
  next
    case False
    with put mr b1 have "b' = b1" "err = None" by (simp_all add: Put_transient_unfold)
    with nr[OF False] b1 okb inv tr show ?thesis
      by (auto simp: bcache_ok_def transientEntries_def permanentBytes_def)
  qed
qed

theorem bcache_Put_transient_exact_witness:
  "transientEntries (fst (bcache_Put ex_cache zeroPtr NullTlfID (ex_block 60) TransientEntry)) =
     [(zeroBlockID, ex_block 60)] \<and>
   bcache_ok (fst (bcache_Put ex_cache zeroPtr NullTlfID (ex_block 60) TransientEntry)) {}"
proof -
  have "bc_cleanTransient ex_cache = Some \<lparr>lru_size = 2, lru_evictList = []\<rparr>" by (simp add: ex_cache_def)
  from bcache_Put_transient_exact[OF ex_cache_ok ex_cache_safe this _ prod.collapse[symmetric],
      of zeroPtr NullTlfID "ex_block 60"]
  show ?thesis
    by (simp add: ex_block_bytes permanentBytes_def ex_cache_def transientEntries_def zeroPtr_def)
qed

text \<open>Putting a permanent block whose ID is new always stores it and keeps every other permanent
  block. It is counted exactly when it fits beside the counted permanent blocks; transient entries
  are dropped from the old end only.\<close>

theorem bcache_Put_permanent_exact:
  assumes ok: "bcache_ok b P" and safe: "counter_safe b" and tr: "bc_cleanTransient b = Some tr"
    and fresh: "bc_cleanPermanent b (bp_ID ptr) = None"
    and put: "bcache_Put b ptr tlf block PermanentEntry = (b', err)"
  shows "err = None \<and> bc_cleanPermanent b' = (bc_cleanPermanent b)(bp_ID ptr \<mapsto> block) \<and>
    bcache_ok b' (if permanentBytes b P + blockBytes block \<le> unat (bc_cleanBytesCapacity b)
                  then insert (bp_ID ptr) P else P) \<and>
    (\<exists>n. transientEntries b' = take n (transientEntries b))"
proof -
  let ?b = "b\<lparr>bc_cleanPermanent := (bc_cleanPermanent b)(bp_ID ptr \<mapsto> block)\<rparr>" and ?l = "lru_evictList tr"
  obtain b1 room where mr: "makeRoomForSize ?b (size64 block) = (b1, room)" by fastforce
  have notin: "bp_ID ptr \<notin> P" and fin: "finite P" using ok fresh by (auto simp: bcache_ok_def)
  have perm: "permanentBytes ?b P = permanentBytes b P"
    using notin by (auto simp: permanentBytes_def intro!: sum.cong)
  have okb: "bcache_ok ?b P" using ok perm by (auto simp: bcache_ok_def transientEntries_def)
  have safe': "counter_safe ?b" using safe by (simp add: counter_safe_def)
  from makeRoomForSize_correct[OF okb _ safe' mr] tr perm
  obtain n t where b1: "b1 = ?b\<lparr>bc_cleanTotalBytes := t, bc_cleanTransient := Some (tr\<lparr>lru_evictList := take n ?l\<rparr>)\<rparr>"
    and r: "room \<Longrightarrow> unat t = entriesBytes (take n ?l) + permanentBytes b P + blockBytes block \<and> t \<le> bc_cleanBytesCapacity b"
    and nr: "\<not> room \<Longrightarrow> n = 0 \<and> unat t = permanentBytes b P \<and> t \<le> bc_cleanBytesCapacity b \<and>
        unat (bc_cleanBytesCapacity b) < permanentBytes b P + blockBytes block"
    by (auto split: if_splits)
  have b': "b' = b1" "err = None"
    using put mr by (simp_all add: Put_permanent_unfold)
  have inv: "lru_inv (tr\<lparr>lru_evictList := take n ?l\<rparr>)"
    using ok tr by (auto simp: bcache_ok_def lru_inv_def take_map[symmetric])
  have ins: "permanentBytes b1 (insert (bp_ID ptr) P) = permanentBytes b P + blockBytes block"
    using notin fin perm b1 by (simp add: permanentBytes_def)
  have p1: "permanentBytes b1 P = permanentBytes b P" using perm b1 by (simp add: permanentBytes_def)
  have fits: "room \<longleftrightarrow> permanentBytes b P + blockBytes block \<le> unat (bc_cleanBytesCapacity b)"
    using r nr by (cases room) (auto simp: word_le_nat_alt)
  have ok1: "bcache_ok b1 (if room then insert (bp_ID ptr) P else P)"
    using okb inv b1 r nr ins p1 by (cases room) (auto simp: bcache_ok_def transientEntries_def)
  show ?thesis using b' ok1 fits b1 tr by (auto simp: transientEntries_def)
qed

theorem bcache_Put_permanent_exact_witness:
  "bcache_ok (fst (bcache_Put ex_cache zeroPtr NullTlfID (ex_block 60) PermanentEntry)) {zeroBlockID} \<and>
   bcache_ok (fst (bcache_Put ex_cache zeroPtr NullTlfID (ex_block 101) PermanentEntry)) {}"
proof -
  have "bc_cleanTransient ex_cache = Some \<lparr>lru_size = 2, lru_evictList = []\<rparr>"
    and "bc_cleanPermanent ex_cache (bp_ID zeroPtr) = None" by (simp_all add: ex_cache_def)
  note put = bcache_Put_permanent_exact[OF ex_cache_ok ex_cache_safe this prod.collapse[symmetric], of NullTlfID]
  show ?thesis
    using put[of "ex_block 60"] put[of "ex_block 101"]
    by (simp add: ex_block_bytes permanentBytes_def ex_cache_def zeroPtr_def)
qed

text \<open>Putting again a block that is already in the transient cache counts its bytes a second time
  although the cache holds it once: the counter is then larger than what is stored.\<close>

theorem bcache_Put_twice_counts_twice:
  assumes ok: "bcache_ok b P" and safe: "counter_safe b" and tr: "bc_cleanTransient b = Some tr"
    and there: "map_of (lru_evictList tr) (bp_ID ptr) = Some block"
    and room: "unat (bc_cleanTotalBytes b) + blockBytes block \<le> unat (bc_cleanBytesCapacity b)"
    and put: "bcache_Put b ptr tlf block TransientEntry = (b', err)"
  shows "mset (transientEntries b') = mset (transientEntries b) \<and>
    unat (bc_cleanTotalBytes b') = entriesBytes (transientEntries b') + permanentBytes b' P + blockBytes block"
proof -
  let ?b = "recordKnownPtr b ptr tlf block"
  have le: "bc_cleanTotalBytes b \<le> bc_cleanBytesCapacity b" and inv: "lru_inv tr"
    and tot: "unat (bc_cleanTotalBytes b) = entriesBytes (lru_evictList tr) + permanentBytes b P"
    using ok tr by (auto simp: bcache_ok_def transientEntries_def)
  have sum: "unat (bc_cleanTotalBytes b + size64 block) = unat (bc_cleanTotalBytes b) + blockBytes block"
    using unat_add_size[OF le] safe by (simp add: counter_safe_def)
  then have fits: "\<not> bc_cleanBytesCapacity b < bc_cleanTotalBytes b + size64 block"
    using room by (simp add: word_less_nat_alt)
  have mr: "makeRoomForSize ?b (size64 block) =
      (?b\<lparr>bc_cleanTransient := Some tr, bc_cleanTotalBytes := bc_cleanTotalBytes b + size64 block\<rparr>, True)"
    using fits tr by (simp add: makeRoomForSize_def evictLoop.simps Let_def)
  obtain tr' ev where add: "lru_Add tr (bp_ID ptr) block = (tr', ev)" by fastforce
  from lru.add_present[OF inv there add] have ev: "ev = []" and ms: "mset (lru_evictList tr') = mset (lru_evictList tr)"
    by auto
  have b': "b' = ?b\<lparr>bc_cleanTotalBytes := bc_cleanTotalBytes b + size64 block, bc_cleanTransient := Some tr'\<rparr>"
    using put mr add ev by (simp add: Put_transient_unfold)
  have "entriesBytes (lru_evictList tr') = entriesBytes (lru_evictList tr)"
    unfolding entriesBytes_weight lru.weight_mset ms ..
  with b' ms tot sum tr show ?thesis by (simp add: transientEntries_def permanentBytes_def)
qed

definition ex_cache1 :: BlockCacheStandard where
  "ex_cache1 = ex_cache\<lparr>bc_cleanTransient := Some \<lparr>lru_size = 2, lru_evictList = [(zeroBlockID, ex_block 40)]\<rparr>,
     bc_cleanTotalBytes := 40\<rparr>"

lemma ex_cache1_ok: "bcache_ok ex_cache1 {}" "counter_safe ex_cache1"
  by (simp_all add: bcache_ok_def ex_cache1_def ex_cache_def lru_inv_def transientEntries_def permanentBytes_def
      counter_safe_def ex_block_bytes)

theorem bcache_Put_twice_counts_twice_witness:
  "transientEntries (fst (bcache_Put ex_cache1 zeroPtr NullTlfID (ex_block 40) TransientEntry)) =
     [(zeroBlockID, ex_block 40)] \<and>
   unat (bc_cleanTotalBytes (fst (bcache_Put ex_cache1 zeroPtr NullTlfID (ex_block 40) TransientEntry))) = 80"
proof -
  have "bc_cleanTransient ex_cache1 = Some \<lparr>lru_size = 2, lru_evictList = [(zeroBlockID, ex_block 40)]\<rparr>"
    by (simp add: ex_cache1_def)
  from bcache_Put_twice_counts_twice[OF ex_cache1_ok this _ _ prod.collapse[symmetric],
      of zeroPtr "ex_block 40" NullTlfID]
  show ?thesis
    by (simp add: ex_block_bytes permanentBytes_def ex_cache1_def ex_cache_def transientEntries_def zeroPtr_def)
qed

section \<open>Lookups, dirty blocks and deletions\<close>

lemma bcache_Get_result:
  assumes "bcache_ok b P"
  shows "snd (bcache_Get b ptr branch) =
    (case map_of (bc_dirty b) (dirtyID ptr branch) of
       Some block \<Rightarrow> Inr block
     | None \<Rightarrow> (case map_of (transientEntries b) (bp_ID ptr) of
                 Some block \<Rightarrow> Inr block
               | None \<Rightarrow> (case bc_cleanPermanent b (bp_ID ptr) of
                           Some block \<Rightarrow> Inr block
                         | None \<Rightarrow> Inl (NoSuchBlockError (bp_ID ptr)))))"
  using assms lru.get_result
  by (fastforce simp: bcache_Get_def bcache_ok_def transientEntries_def Let_def
      split: option.splits prod.splits)

lemma bcache_Get_state:
  assumes "bcache_ok b P"
  shows "bcache_ok (fst (bcache_Get b ptr branch)) P \<and>
    bc_dirty (fst (bcache_Get b ptr branch)) = bc_dirty b \<and>
    bc_cleanPermanent (fst (bcache_Get b ptr branch)) = bc_cleanPermanent b \<and>
    map_of (transientEntries (fst (bcache_Get b ptr branch))) = map_of (transientEntries b)"
proof (cases "bc_cleanTransient b")
  case None
  with assms show ?thesis by (simp add: bcache_Get_def split: option.splits)
next
  case (Some tr)
  obtain tr' r where g: "lru_Get tr (bp_ID ptr) = (tr', r)" by fastforce
  have inv: "lru_inv tr" using assms Some by (simp add: bcache_ok_def)
  from lru.get_entries[OF inv g] have inv': "lru_inv tr'" and ms: "mset (lru_evictList tr') = mset (lru_evictList tr)"
    by simp_all
  have bytes: "entriesBytes (lru_evictList tr') = entriesBytes (lru_evictList tr)"
    unfolding entriesBytes_weight lru.weight_mset ms ..
  have "fst (bcache_Get b ptr branch) = b \<or> fst (bcache_Get b ptr branch) = b\<lparr>bc_cleanTransient := Some tr'\<rparr>"
    using Some g by (simp add: bcache_Get_def split: option.splits)
  moreover have "bcache_ok (b\<lparr>bc_cleanTransient := Some tr'\<rparr>) P"
    using assms Some inv' bytes by (auto simp: bcache_ok_def transientEntries_def permanentBytes_def)
  ultimately show ?thesis
    using assms Some lru.map_of_mset[OF inv inv' ms] by (auto simp: transientEntries_def)
qed

text \<open>C36: a lookup answers from the dirty blocks of its branch first, then from the transient and the
  permanent clean blocks, and is an error exactly when none holds the block. It changes no answer of
  a later lookup and keeps the accounting.\<close>

theorem bcache_Get_correct:
  assumes "bcache_ok b P"
  shows "snd (bcache_Get b ptr branch) =
      (case map_of (bc_dirty b) (dirtyID ptr branch) of
         Some block \<Rightarrow> Inr block
       | None \<Rightarrow> (case map_of (transientEntries b) (bp_ID ptr) of
                   Some block \<Rightarrow> Inr block
                 | None \<Rightarrow> (case bc_cleanPermanent b (bp_ID ptr) of
                             Some block \<Rightarrow> Inr block
                           | None \<Rightarrow> Inl (NoSuchBlockError (bp_ID ptr))))) \<and>
    bcache_ok (fst (bcache_Get b ptr branch)) P \<and>
    snd (bcache_Get (fst (bcache_Get b ptr branch)) ptr' branch') = snd (bcache_Get b ptr' branch')"
  using bcache_Get_state[OF assms, of ptr branch] bcache_Get_result[OF assms]
    bcache_Get_result[of "fst (bcache_Get b ptr branch)" P]
  by (simp split: option.split)

theorem bcache_Get_correct_witness:
  "bcache_ok ex_cache1 {} \<and> snd (bcache_Get ex_cache1 zeroPtr []) = Inr (ex_block 40) \<and>
   snd (bcache_Get ex_cache zeroPtr []) = Inl (NoSuchBlockError zeroBlockID)"
  using bcache_Get_correct[OF ex_cache1_ok(1), of zeroPtr "[]"] ex_cache1_ok(1)
    bcache_Get_correct[OF ex_cache_ok, of zeroPtr "[]"]
  by (simp add: ex_cache1_def ex_cache_def transientEntries_def zeroPtr_def)

lemma PutDirty_simps [simp]:
  "map_of (bc_dirty (PutDirty b ptr branch block)) = (map_of (bc_dirty b))(dirtyID ptr branch \<mapsto> block)"
  "transientEntries (PutDirty b ptr branch block) = transientEntries b"
  "bc_cleanPermanent (PutDirty b ptr branch block) = bc_cleanPermanent b"
  by (simp_all add: PutDirty_def update_conv' transientEntries_def)

lemma DeleteDirty_simps [simp]:
  "map_of (bc_dirty (DeleteDirty b ptr branch)) = (map_of (bc_dirty b))(dirtyID ptr branch := None)"
  "transientEntries (DeleteDirty b ptr branch) = transientEntries b"
  "bc_cleanPermanent (DeleteDirty b ptr branch) = bc_cleanPermanent b"
  by (simp_all add: DeleteDirty_def delete_conv' transientEntries_def)

lemma bcache_ok_PutDirty: "bcache_ok b P \<Longrightarrow> bcache_ok (PutDirty b ptr branch block) P"
  by (auto simp: bcache_ok_def PutDirty_def transientEntries_def permanentBytes_def
      intro!: distinct_update)

lemma bcache_ok_DeleteDirty: "bcache_ok b P \<Longrightarrow> bcache_ok (DeleteDirty b ptr branch) P"
  by (auto simp: bcache_ok_def DeleteDirty_def transientEntries_def permanentBytes_def
      intro!: distinct_delete)

text \<open>A dirty block is what lookups of its pointer and branch return from \<open>PutDirty\<close> until
  \<open>DeleteDirty\<close>, which brings back the clean answer; every other pointer or branch is unaffected.\<close>

theorem PutDirty_DeleteDirty_isolated:
  assumes "bcache_ok b P"
  shows "snd (bcache_Get (PutDirty b ptr branch block) ptr branch) = Inr block \<and>
    IsDirty (PutDirty b ptr branch block) ptr branch \<and>
    (dirtyID ptr' branch' \<noteq> dirtyID ptr branch \<longrightarrow>
       snd (bcache_Get (PutDirty b ptr branch block) ptr' branch') = snd (bcache_Get b ptr' branch') \<and>
       IsDirty (PutDirty b ptr branch block) ptr' branch' = IsDirty b ptr' branch') \<and>
    \<not> IsDirty (DeleteDirty (PutDirty b ptr branch block) ptr branch) ptr branch \<and>
    (\<not> IsDirty b ptr branch \<longrightarrow>
       snd (bcache_Get (DeleteDirty (PutDirty b ptr branch block) ptr branch) ptr' branch') =
       snd (bcache_Get b ptr' branch'))"
proof -
  have p: "bcache_ok (PutDirty b ptr branch block) P" using assms by (rule bcache_ok_PutDirty)
  have d: "bcache_ok (DeleteDirty (PutDirty b ptr branch block) ptr branch) P"
    using p by (rule bcache_ok_DeleteDirty)
  show ?thesis
    unfolding bcache_Get_result[OF p] bcache_Get_result[OF d] bcache_Get_result[OF assms] IsDirty_def
    by (auto split: option.split)
qed

theorem PutDirty_DeleteDirty_isolated_witness:
  "snd (bcache_Get (PutDirty ex_cache1 zeroPtr [] (ex_block 7)) zeroPtr []) = Inr (ex_block 7) \<and>
   snd (bcache_Get (PutDirty ex_cache1 zeroPtr [] (ex_block 7)) zeroPtr ''b'') =
     snd (bcache_Get ex_cache1 zeroPtr ''b'')"
  using PutDirty_DeleteDirty_isolated[OF ex_cache1_ok(1), of zeroPtr "[]" "ex_block 7" zeroPtr "''b''"]
  by (simp add: dirtyID_def)

lemma lru_Remove_map_of: "map_of (lru_evictList (fst (lru_Remove c k))) = (map_of (lru_evictList c))(k := None)"
  by (auto simp: lru_Remove_def delete_conv' split: option.splits)

lemma lru_Remove_inv: "lru_inv c \<Longrightarrow> lru_inv (fst (lru_Remove c k))"
  by (metis lru.remove_entries prod.collapse)

definition forgetKnownPtr :: "BlockCacheStandard \<Rightarrow> TlfID \<Rightarrow> Block \<Rightarrow> BlockCacheStandard" where
  "forgetKnownPtr b tlf block =
     (case (block, bc_ids b) of
        (FileB fBlock, Some ids) \<Rightarrow>
          if \<not> fb_IsInd fBlock then b\<lparr>bc_ids := Some (fst (lru_Remove ids (idKey tlf fBlock)))\<rparr> else b
      | _ \<Rightarrow> b)"

lemma forgetKnownPtr_simps [simp]:
  "bc_cleanBytesCapacity (forgetKnownPtr b tlf block) = bc_cleanBytesCapacity b"
  "bc_cleanTransient (forgetKnownPtr b tlf block) = bc_cleanTransient b"
  "bc_cleanPermanent (forgetKnownPtr b tlf block) = bc_cleanPermanent b"
  "bc_cleanTotalBytes (forgetKnownPtr b tlf block) = bc_cleanTotalBytes b"
  "bc_dirty (forgetKnownPtr b tlf block) = bc_dirty b"
  by (simp_all add: forgetKnownPtr_def split: Block.splits option.splits)

lemma forgetKnownPtr_ids_inv:
  "(\<And>ids. bc_ids b = Some ids \<Longrightarrow> lru_inv ids) \<Longrightarrow>
     bc_ids (forgetKnownPtr b tlf block) = Some ids \<Longrightarrow> lru_inv ids"
  by (auto simp: forgetKnownPtr_def intro!: lru_Remove_inv split: Block.splits option.splits if_splits)

lemma CheckForKnownPtr_result:
  "snd (CheckForKnownPtr b tlf fBlock) =
     (if fb_IsInd fBlock then Inl NotDirectFileBlockError
      else case bc_ids b of
             None \<Rightarrow> Inr zeroPtr
           | Some ids \<Rightarrow> (case map_of (lru_evictList ids) (idKey tlf fBlock) of
                           None \<Rightarrow> Inr zeroPtr | Some ptr \<Rightarrow> Inr ptr))"
  by (auto simp: CheckForKnownPtr_def lru_Get_def Let_def split: option.splits)

lemma CheckForKnownPtr_forget:
  assumes "\<not> fb_IsInd fBlock" and "bc_ids b' = bc_ids (forgetKnownPtr b tlf (FileB fBlock))"
  shows "snd (CheckForKnownPtr b' tlf fBlock) = Inr zeroPtr"
  using assms by (auto simp: CheckForKnownPtr_result forgetKnownPtr_def lru_Remove_map_of split: option.splits)

text \<open>Deleting a transient block removes it from the transient cache only, gives its bytes back, and
  forgets the pointer known for its contents.\<close>

theorem DeleteTransient_correct:
  assumes ok: "bcache_ok b P" and tr: "bc_cleanTransient b = Some tr"
  shows "bcache_ok (DeleteTransient b ptr tlf) P \<and>
    (\<forall>i. map_of (transientEntries (DeleteTransient b ptr tlf)) i =
         (if i = bp_ID ptr then None else map_of (transientEntries b) i)) \<and>
    bc_cleanPermanent (DeleteTransient b ptr tlf) = bc_cleanPermanent b \<and>
    bc_dirty (DeleteTransient b ptr tlf) = bc_dirty b \<and>
    (\<forall>fBlock. map_of (transientEntries b) (bp_ID ptr) = Some (FileB fBlock) \<and> \<not> fb_IsInd fBlock \<longrightarrow>
       snd (CheckForKnownPtr (DeleteTransient b ptr tlf) tlf fBlock) = Inr zeroPtr)"
proof -
  have inv: "lru_inv tr" using ok tr by (simp add: bcache_ok_def)
  obtain tr1 r where g: "lru_Get tr (bp_ID ptr) = (tr1, r)" by fastforce
  note ge = lru.get_entries[OF inv g] and gr = lru.get_result[OF inv g]
  have mo: "map_of (lru_evictList tr1) = map_of (lru_evictList tr)"
    using lru.map_of_mset[OF inv] ge by blast
  have bytes: "entriesBytes (lru_evictList tr1) = entriesBytes (lru_evictList tr)"
    unfolding entriesBytes_weight lru.weight_mset using ge by simp
  show ?thesis
  proof (cases r)
    case None
    then have "DeleteTransient b ptr tlf = b\<lparr>bc_cleanTransient := Some tr1\<rparr>"
      using tr g by (simp add: DeleteTransient_def)
    then show ?thesis using ok tr ge mo bytes gr None
      by (auto simp: bcache_ok_def transientEntries_def permanentBytes_def)
  next
    case (Some block)
    obtain tr2 ev where rm: "lru_Remove tr1 (bp_ID ptr) = (tr2, ev)" by fastforce
    let ?b1 = "forgetKnownPtr b tlf block"
    have inv1: "lru_inv tr1" and hit: "map_of (lru_evictList tr1) (bp_ID ptr) = Some block"
      using ge gr mo Some by simp_all
    note re = lru.remove_entries[OF inv1 rm]
    have b': "DeleteTransient b ptr tlf = foldl onEvict (?b1\<lparr>bc_cleanTransient := Some tr2\<rparr>) ev"
      using tr g Some rm by (simp add: DeleteTransient_def forgetKnownPtr_def Let_def)
    have sum: "entriesBytes (lru_evictList tr2) + entriesBytes ev = entriesBytes (lru_evictList tr)"
      using lru.weight_remove[OF inv1 rm, of blockBytes] bytes by (simp add: entriesBytes_weight)
    have tot: "unat (bc_cleanTotalBytes b) = entriesBytes (lru_evictList tr) + permanentBytes b P"
      using ok tr by (simp add: bcache_ok_def transientEntries_def)
    have tot': "unat (bc_cleanTotalBytes (DeleteTransient b ptr tlf)) = unat (bc_cleanTotalBytes b) - entriesBytes ev"
      unfolding b' using tot sum by (subst onEvict_total) simp_all
    have le: "bc_cleanTotalBytes (DeleteTransient b ptr tlf) \<le> bc_cleanBytesCapacity b"
    proof -
      have "unat (bc_cleanTotalBytes (DeleteTransient b ptr tlf)) \<le> unat (bc_cleanTotalBytes b)"
        using tot' by simp
      also have "\<dots> \<le> unat (bc_cleanBytesCapacity b)" using ok by (simp add: bcache_ok_def word_le_nat_alt)
      finally show ?thesis by (simp only: word_le_nat_alt)
    qed
    have ids: "lru_inv ids" if "bc_ids ?b1 = Some ids" for ids
      by (rule forgetKnownPtr_ids_inv[OF _ that]) (use ok in \<open>simp add: bcache_ok_def\<close>)
    have exact: "unat (bc_cleanTotalBytes (DeleteTransient b ptr tlf)) =
        entriesBytes (lru_evictList tr2) + permanentBytes b P"
      using tot tot' sum by simp
    have "bcache_ok (DeleteTransient b ptr tlf) P"
      using ok ids exact le conjunct1[OF re]
      by (simp add: bcache_ok_def transientEntries_def permanentBytes_def b')
    moreover have "map_of (lru_evictList tr2) = (map_of (lru_evictList tr))(bp_ID ptr := None)"
      using lru_Remove_map_of[of tr1 "bp_ID ptr"] rm mo by simp
    moreover have "snd (CheckForKnownPtr (DeleteTransient b ptr tlf) tlf fBlock) = Inr zeroPtr"
      if "block = FileB fBlock" "\<not> fb_IsInd fBlock" for fBlock
      using that by (intro CheckForKnownPtr_forget[where b = b]) (simp_all add: b')
    ultimately show ?thesis using tr gr Some by (auto simp: transientEntries_def b')
  qed
qed

theorem DeleteTransient_correct_witness:
  "map_of (transientEntries (DeleteTransient ex_cache1 zeroPtr NullTlfID)) zeroBlockID = None \<and>
   bcache_ok (DeleteTransient ex_cache1 zeroPtr NullTlfID) {}"
proof -
  have "bc_cleanTransient ex_cache1 = Some \<lparr>lru_size = 2, lru_evictList = [(zeroBlockID, ex_block 40)]\<rparr>"
    by (simp add: ex_cache1_def)
  from DeleteTransient_correct[OF ex_cache1_ok(1) this, of zeroPtr NullTlfID]
  show ?thesis by (simp add: zeroPtr_def)
qed

text \<open>Deleting a counted permanent block gives back exactly its bytes; deleting an unknown ID does
  nothing.\<close>

theorem DeletePermanent_correct:
  assumes ok: "bcache_ok b P" and counted: "i \<in> P \<or> bc_cleanPermanent b i = None"
  shows "bcache_ok (DeletePermanent b i) (P - {i}) \<and>
    bc_cleanPermanent (DeletePermanent b i) = (bc_cleanPermanent b)(i := None) \<and>
    transientEntries (DeletePermanent b i) = transientEntries b"
proof (cases "bc_cleanPermanent b i")
  case None
  with ok have "P - {i} = P" by (auto simp: bcache_ok_def)
  with None ok show ?thesis by (simp add: DeletePermanent_def fun_upd_idem)
next
  case (Some block)
  with counted have i: "i \<in> P" by simp
  let ?t = "bc_cleanTotalBytes b" and ?b = "DeletePermanent b i"
  have b': "?b = b\<lparr>bc_cleanPermanent := (bc_cleanPermanent b)(i := None), bc_cleanTotalBytes := ?t - size64 block\<rparr>"
    using Some by (simp add: DeletePermanent_def)
  have fin: "finite P" and tot: "unat ?t = entriesBytes (transientEntries b) + permanentBytes b P"
    and le: "?t \<le> bc_cleanBytesCapacity b"
    using ok by (simp_all add: bcache_ok_def)
  have perm: "permanentBytes b P = blockBytes block + permanentBytes b (P - {i})"
    using sum.remove[OF fin i, of "\<lambda>j. blockBytes (the (bc_cleanPermanent b j))"] Some
    by (simp add: permanentBytes_def)
  have perm': "permanentBytes ?b (P - {i}) = permanentBytes b (P - {i})"
    by (auto simp: permanentBytes_def b' intro!: sum.cong)
  have "size64 block \<le> ?t" using tot perm by (simp add: word_le_nat_alt blockBytes_def)
  then have tot': "unat (?t - size64 block) = unat ?t - blockBytes block"
    by (simp add: unat_sub blockBytes_def)
  have "?t - size64 block \<le> bc_cleanBytesCapacity b"
  proof -
    have "unat (?t - size64 block) \<le> unat ?t" using tot' by simp
    also have "\<dots> \<le> unat (bc_cleanBytesCapacity b)" using le by (simp only: word_le_nat_alt)
    finally show ?thesis by (simp only: word_le_nat_alt)
  qed
  with ok tot tot' perm perm' show ?thesis
    by (auto simp: bcache_ok_def b' transientEntries_def)
qed

theorem DeletePermanent_correct_witness:
  "let b = ex_cache\<lparr>bc_cleanPermanent := [zeroBlockID \<mapsto> ex_block 9], bc_cleanTotalBytes := 9\<rparr> in
   bcache_ok b {zeroBlockID} \<and> bcache_ok (DeletePermanent b zeroBlockID) {}"
proof -
  let ?b = "ex_cache\<lparr>bc_cleanPermanent := [zeroBlockID \<mapsto> ex_block 9], bc_cleanTotalBytes := 9\<rparr>"
  have "bcache_ok ?b {zeroBlockID}"
    by (simp add: bcache_ok_def ex_cache_def lru_inv_def transientEntries_def permanentBytes_def ex_block_bytes)
  with DeletePermanent_correct[OF this, of zeroBlockID] show ?thesis by simp
qed

text \<open>A permanent block that did not fit is stored without being counted, but deleting it subtracts
  its bytes all the same: the unsigned counter falls below the bytes of the counted blocks by that
  size, wrapping around zero.\<close>

theorem DeletePermanent_uncounted_wraps:
  assumes "bcache_ok b P" and "counter_safe b" and "bc_cleanTransient b = Some tr"
    and "bc_cleanPermanent b (bp_ID ptr) = None"
    and "unat (bc_cleanBytesCapacity b) < permanentBytes b P + blockBytes block"
  shows "bc_cleanTotalBytes (DeletePermanent (fst (bcache_Put b ptr tlf block PermanentEntry)) (bp_ID ptr)) =
    of_nat (permanentBytes b P) - of_nat (blockBytes block)"
proof -
  let ?b = "b\<lparr>bc_cleanPermanent := (bc_cleanPermanent b)(bp_ID ptr \<mapsto> block)\<rparr>"
  obtain b1 room where mr: "makeRoomForSize ?b (size64 block) = (b1, room)" by fastforce
  have "bp_ID ptr \<notin> P" using assms(1,4) by (auto simp: bcache_ok_def)
  then have perm: "permanentBytes ?b P = permanentBytes b P"
    by (auto simp: permanentBytes_def intro!: sum.cong)
  have okb: "bcache_ok ?b P" using assms(1) perm by (auto simp: bcache_ok_def transientEntries_def)
  have "counter_safe ?b" using assms(2) by (simp add: counter_safe_def)
  from makeRoomForSize_correct[OF okb _ this mr] assms(3,5) perm
  obtain n t tr' where b1: "b1 = ?b\<lparr>bc_cleanTotalBytes := t, bc_cleanTransient := Some tr'\<rparr>"
    and t: "unat t = permanentBytes b P"
    by (auto simp: word_le_nat_alt split: if_splits)
  have "of_nat (unat t) = t" by simp
  with t have "t = of_nat (permanentBytes b P)" by simp
  with b1 mr show ?thesis
    by (simp add: Put_permanent_unfold DeletePermanent_def blockBytes_def)
qed

theorem DeletePermanent_uncounted_wraps_witness:
  "bc_cleanTotalBytes (DeletePermanent (fst (bcache_Put ex_cache zeroPtr NullTlfID (ex_block 101) PermanentEntry))
     zeroBlockID) = - 101"
proof -
  have "bc_cleanTransient ex_cache = Some \<lparr>lru_size = 2, lru_evictList = []\<rparr>"
    and "bc_cleanPermanent ex_cache (bp_ID zeroPtr) = None" by (simp_all add: ex_cache_def)
  from DeletePermanent_uncounted_wraps[OF ex_cache_ok ex_cache_safe this, of "ex_block 101" NullTlfID]
  show ?thesis by (simp add: ex_block_bytes permanentBytes_def ex_cache_def zeroPtr_def)
qed

end
