(* ===== verification/Kbfs_Write_Ranges.thy ===== *)
theory Kbfs_Write_Ranges
  imports Kbfs_Prelude
begin

text \<open>
  The write ranges of ops.go: when two of them affect each other, and how a new one is added to a
  collapsed list. The theorems compare the collapsed list, byte by byte, with the writes and truncates
  done one after the other.
\<close>

section \<open>Model\<close>

text \<open>A write range; a length of 0 is a truncate.\<close>

record WriteRange =
  wr_Off :: uint64
  wr_Len :: uint64

definition isTruncate :: "WriteRange \<Rightarrow> bool" where
  "isTruncate w \<longleftrightarrow> wr_Len w = 0"

text \<open>
  \<open>writeEnd\<close> is the value that \<open>End\<close> returns; \<open>None\<close> is its panic on a truncate. The functions below call
  \<open>End\<close> only on branches where \<open>isTruncate\<close> is false and use \<open>writeEnd\<close> there.
\<close>

definition writeEnd :: "WriteRange \<Rightarrow> uint64" where
  "writeEnd w = wr_Off w + wr_Len w"

definition WriteRange_End :: "WriteRange \<Rightarrow> uint64 option" where
  "WriteRange_End w = (if isTruncate w then None else Some (writeEnd w))"

definition Affects :: "WriteRange \<Rightarrow> WriteRange \<Rightarrow> bool" where
  "Affects w other =
     (if isTruncate w then
        (if isTruncate other then True else writeEnd other > wr_Off w)
      else if isTruncate other then writeEnd w > wr_Off other
      else (wr_Off w \<le> writeEnd other \<and> writeEnd other \<le> writeEnd w) \<or>
           (wr_Off other \<le> writeEnd w \<and> writeEnd w \<le> writeEnd other))"

text \<open>\<open>None\<close> is the panic on a new truncate.\<close>

definition coalesceWrites :: "WriteRange list \<Rightarrow> WriteRange \<Rightarrow> WriteRange list option" where
  "coalesceWrites existingWrites wNew =
     (if isTruncate wNew then None
      else if existingWrites = [] then Some [wNew]
      else
        (let wOldHead = hd existingWrites;
             wOldTail = last existingWrites;
             newEnd = (if \<not> isTruncate wOldTail \<and> writeEnd wOldTail > writeEnd wNew
                       then writeEnd wOldTail else writeEnd wNew);
             newOff = (if \<not> isTruncate wOldHead \<and> wr_Off wOldHead < wr_Off wNew
                       then wr_Off wOldHead else wr_Off wNew);
             ret = [\<lparr>wr_Off = newOff, wr_Len = newEnd - newOff\<rparr>]
         in Some (if isTruncate wOldTail then ret @ [\<lparr>wr_Off = newEnd, wr_Len = 0\<rparr>] else ret)))"

text \<open>
  The index loops of the source cut the list at the first element that stops them; the slices they
  cut are \<open>takeWhile\<close> and \<open>dropWhile\<close>. Go's \<open>append\<close> onto \<open>head\<close> may reuse the caller's array, but the
  caller replaces its slice by the result.
\<close>

definition addToCollapsedWriteRange :: "WriteRange list \<Rightarrow> WriteRange \<Rightarrow> WriteRange list option" where
  "addToCollapsedWriteRange writes wNew =
     (let before = (\<lambda>wOld. \<not> (wr_Off wOld \<ge> wr_Off wNew \<or> Affects wNew wOld));
          head = takeWhile before writes;
          rest = dropWhile before writes
      in if isTruncate wNew then
           (case rest of
              [] \<Rightarrow> Some (head @ [wNew])
            | m # _ \<Rightarrow>
                if isTruncate m then
                  (if wr_Off m < wr_Off wNew then Some (head @ [m]) else Some (head @ [wNew]))
                else if wr_Off m < wr_Off wNew then
                  Some (head @ [\<lparr>wr_Off = wr_Off m, wr_Len = wr_Off wNew - wr_Off m\<rparr>, wNew])
                else Some (head @ [wNew]))
         else
           (let mid = takeWhile (Affects wNew) rest;
                end = dropWhile (Affects wNew) rest
            in map_option (\<lambda>mid. head @ mid @ end) (coalesceWrites mid wNew)))"

section \<open>What a sequence of ranges does to a byte\<close>

text \<open>
  A byte of the file is as it was (\<open>Clean\<close>), holds written data, or was cut woff by a truncate and is
  absent or reads as zero.
\<close>

datatype byte_state = Clean | Written | Cut

definition woff :: "WriteRange \<Rightarrow> nat" where
  "woff w = unat (wr_Off w)"

definition wend :: "WriteRange \<Rightarrow> nat" where
  "wend w = unat (wr_Off w) + unat (wr_Len w)"

definition range_ok :: "WriteRange \<Rightarrow> bool" where
  "range_ok w \<longleftrightarrow> wend w < 2 ^ 64"

definition covers :: "WriteRange \<Rightarrow> nat \<Rightarrow> bool" where
  "covers w x \<longleftrightarrow> \<not> isTruncate w \<and> woff w \<le> x \<and> x < wend w"

definition cuts :: "WriteRange \<Rightarrow> nat \<Rightarrow> bool" where
  "cuts w x \<longleftrightarrow> isTruncate w \<and> woff w \<le> x"

definition byte_step :: "nat \<Rightarrow> byte_state \<Rightarrow> WriteRange \<Rightarrow> byte_state" where
  "byte_step x s w = (if covers w x then Written else if cuts w x then Cut else s)"

definition byte_after :: "WriteRange list \<Rightarrow> nat \<Rightarrow> byte_state" where
  "byte_after ws x = foldl (byte_step x) Clean ws"

text \<open>
  A collapsed list: disjoint writes that do not even touch, in increasing order, then possibly a
  truncate at or after their end.
\<close>

definition wbefore :: "WriteRange \<Rightarrow> WriteRange \<Rightarrow> bool" where
  "wbefore w w' \<longleftrightarrow> \<not> isTruncate w \<and> (if isTruncate w' then wend w \<le> woff w' else wend w < woff w')"

definition collapsed :: "WriteRange list \<Rightarrow> bool" where
  "collapsed ws \<longleftrightarrow> (\<forall>w\<in>set ws. range_ok w) \<and> sorted_wrt wbefore ws"

lemma writeEnd_nat: "range_ok w \<Longrightarrow> unat (writeEnd w) = wend w"
  by (simp add: range_ok_def wend_def writeEnd_def unat_add_lem[symmetric])

lemma woff_less_wend: "\<not> isTruncate w \<Longrightarrow> woff w < wend w"
  by (simp add: isTruncate_def woff_def wend_def unat_gt_0)

lemma woff_le_wend: "woff w \<le> wend w"
  by (simp add: woff_def wend_def)

lemma Affects_nat:
  assumes "range_ok w" "range_ok v"
  shows "Affects w v \<longleftrightarrow>
    (if isTruncate w then isTruncate v \<or> woff w < wend v
     else if isTruncate v then woff v < wend w
     else woff w \<le> wend v \<and> woff v \<le> wend w)"
  using assms woff_le_wend[of w] woff_le_wend[of v]
  by (auto simp: Affects_def word_less_nat_alt word_le_nat_alt writeEnd_nat woff_def)

lemma byte_after_collapsed:
  assumes "collapsed ws"
  shows "byte_after ws x =
    (if \<exists>w\<in>set ws. covers w x then Written else if \<exists>w\<in>set ws. cuts w x then Cut else Clean)"
  using assms
proof (induction ws rule: rev_induct)
  case Nil
  then show ?case by (simp add: byte_after_def)
next
  case (snoc w ws)
  have "collapsed ws" using snoc.prems by (simp add: collapsed_def sorted_wrt_append)
  moreover have "\<not> cuts v x" if "v \<in> set ws" for v
    using snoc.prems that by (auto simp: collapsed_def sorted_wrt_append wbefore_def cuts_def)
  moreover have "\<not> covers v x" if "v \<in> set ws" "cuts w x" for v
    using snoc.prems that by (auto simp: collapsed_def sorted_wrt_append wbefore_def cuts_def covers_def)
  ultimately show ?case using snoc.IH by (auto simp: byte_after_def byte_step_def)
qed

section \<open>Adding a range\<close>

lemma between_range:
  fixes a b :: uint64
  assumes "a < b"
  defines "v \<equiv> \<lparr>wr_Off = a, wr_Len = b - a\<rparr>"
  shows "\<not> isTruncate v" "woff v = unat a" "wend v = unat b" "range_ok v"
proof -
  have d: "unat (b - a) = unat b - unat a" using assms(1) by (intro unat_sub) simp
  have lt: "unat a < unat b" using assms(1) by (simp add: word_less_nat_alt)
  show "\<not> isTruncate v" "woff v = unat a" using assms(1) by (auto simp: v_def isTruncate_def woff_def)
  show w: "wend v = unat b" using d lt by (simp add: v_def wend_def)
  have "unat b < 2 ^ LENGTH(64)" by (rule unsigned_less)
  then show "range_ok v" using w by (simp add: range_ok_def)
qed

subsection \<open>A truncate\<close>

lemma add_truncate_head:
  assumes "collapsed ws" "range_ok n" "isTruncate n" "w \<in> set ws"
  shows "\<not> (wr_Off w \<ge> wr_Off n \<or> Affects n w) \<longleftrightarrow> \<not> isTruncate w \<and> wend w \<le> woff n"
  using assms woff_less_wend[of w]
  by (auto simp: collapsed_def Affects_nat word_le_nat_alt woff_def[symmetric])

lemma trunc_woff_wend: "isTruncate w \<Longrightarrow> wend w = woff w"
  by (simp add: isTruncate_def wend_def woff_def)

lemma add_truncate_correct:
  assumes c: "collapsed ws" and ok: "range_ok n" and tr: "isTruncate n"
    and r: "addToCollapsedWriteRange ws n = Some rs"
  shows "collapsed rs \<and> byte_after rs x = byte_step x (byte_after ws x) n"
proof -
  let ?P = "\<lambda>w. \<not> (wr_Off w \<ge> wr_Off n \<or> Affects n w)"
  define H where "H = takeWhile ?P ws"
  define R where "R = dropWhile ?P ws"
  have ws: "ws = H @ R" by (simp add: H_def R_def)
  have r': "(case R of [] \<Rightarrow> H @ [n]
      | m # _ \<Rightarrow> if isTruncate m then (if woff m < woff n then H @ [m] else H @ [n])
                else if woff m < woff n then H @ [\<lparr>wr_Off = wr_Off m, wr_Len = wr_Off n - wr_Off m\<rparr>, n]
                else H @ [n]) = rs"
    using r tr unfolding addToCollapsedWriteRange_def Let_def H_def[symmetric] R_def[symmetric]
    by (cases R) (auto simp: word_less_nat_alt woff_def split: if_splits)
  have H: "\<not> isTruncate w \<and> wend w \<le> woff n" if "w \<in> set H" for w
    using that set_takeWhileD[of w ?P ws] add_truncate_head[OF c ok tr, of w] by (simp add: H_def)
  have cH: "collapsed H" using c ws by (simp add: collapsed_def sorted_wrt_append)
  have n: "\<not> covers n x" "cuts n x \<longleftrightarrow> woff n \<le> x" "wend n = woff n"
    using tr by (simp_all add: covers_def cuts_def trunc_woff_wend)
  have addn: "collapsed (H @ [n])" using cH ok H tr by (auto simp: collapsed_def sorted_wrt_append wbefore_def)
  have stepH: "byte_after (H @ [n]) x = (if woff n \<le> x then Cut else byte_after H x)"
    by (simp add: byte_after_def byte_step_def n)
  show ?thesis
  proof (cases R)
    case Nil
    then have "rs = H @ [n]" "ws = H" using r' ws by simp_all
    then show ?thesis using addn stepH by (simp add: byte_step_def n)
  next
    case (Cons m R')
    have m: "m \<in> set ws" "\<not> ?P m" 
      using ws Cons hd_dropWhile[of ?P ws] unfolding R_def[symmetric] by auto
    have mw: "isTruncate m \<or> woff n < wend m" using m add_truncate_head[OF c ok tr m(1)] by auto
    have cR: "collapsed R" using c ws by (simp add: collapsed_def sorted_wrt_append)
    have later: "woff m \<le> woff w" if "w \<in> set R" for w
      using that cR Cons woff_le_wend[of m] by (auto simp: collapsed_def wbefore_def split: if_splits)
    have lateW: "wend m < woff w \<or> isTruncate w \<and> wend m \<le> woff w" if "w \<in> set R'" for w
      using that cR Cons by (auto simp: collapsed_def wbefore_def split: if_splits)
    consider (t) "isTruncate m" "woff m < woff n" | (w) "\<not> isTruncate m" "woff m < woff n" | (a) "woff n \<le> woff m"
      by linarith
    then show ?thesis
    proof cases
      case t
      then have "R' = []" using cR Cons by (cases R') (auto simp: collapsed_def wbefore_def)
      then have "rs = ws" using r' t Cons ws by simp
      moreover have "byte_after ws x = Cut" if "woff n \<le> x"
        using that t \<open>R' = []\<close> by (simp add: ws Cons byte_after_def byte_step_def covers_def cuts_def)
      ultimately show ?thesis using c by (simp add: byte_step_def n)
    next
      case w
      let ?v = "\<lparr>wr_Off = wr_Off m, wr_Len = wr_Off n - wr_Off m\<rparr>"
      have rs: "rs = H @ [?v, n]" using r' w Cons by simp
      note v = between_range[of "wr_Off m" "wr_Off n"]
      have lt: "wr_Off m < wr_Off n" using w by (simp add: word_less_nat_alt woff_def)
      have vv: "\<not> isTruncate ?v" "woff ?v = woff m" "wend ?v = woff n" "range_ok ?v"
        using v[OF lt] by (simp_all add: woff_def)
      have Hv: "wend u < woff m" if "u \<in> set H" for u
        using that c ws Cons w(1) by (auto simp: collapsed_def sorted_wrt_append wbefore_def)
      have crs: "collapsed rs"
        using rs cH H Hv vv ok tr by (auto simp: collapsed_def sorted_wrt_append wbefore_def)
      moreover have "byte_after rs x = Cut" if "woff n \<le> x"
        using that by (simp add: rs byte_after_def byte_step_def n)
      moreover have "byte_after rs x = byte_after ws x" if lx: "x < woff n"
      proof -
        have notR: "\<not> covers u x" "\<not> cuts u x" if "u \<in> set R'" for u
          using lateW[OF that] mw w lx by (auto simp: covers_def cuts_def)
        have "covers ?v x \<longleftrightarrow> covers m x" using lx vv w mw by (auto simp: covers_def)
        moreover have "\<not> cuts u x" if "u \<in> set H" for u using H[OF that] by (simp add: cuts_def)
        moreover have "\<not> cuts ?v x" "\<not> cuts m x" "\<not> cuts n x" using vv w lx by (auto simp: cuts_def)
        ultimately have "(\<exists>u\<in>set rs. covers u x) \<longleftrightarrow> (\<exists>u\<in>set ws. covers u x)"
          "\<not> (\<exists>u\<in>set rs. cuts u x)" "\<not> (\<exists>u\<in>set ws. cuts u x)"
          using notR n(1) by (auto simp: rs ws Cons)
        then show ?thesis by (simp add: byte_after_collapsed[OF c] byte_after_collapsed[OF crs])
      qed
      ultimately show ?thesis by (simp add: byte_step_def n)
    next
      case a
      have rs: "rs = H @ [n]" using r' a Cons by auto
      moreover have "byte_after ws x = byte_after H x" if "x < woff n"
      proof -
        have notR: "\<not> covers u x" "\<not> cuts u x" if "u \<in> set R" for u
          using later[OF that] a \<open>x < woff n\<close> by (auto simp: covers_def cuts_def)
        have "(\<exists>u\<in>set ws. covers u x) \<longleftrightarrow> (\<exists>u\<in>set H. covers u x)" "(\<exists>u\<in>set ws. cuts u x) \<longleftrightarrow> (\<exists>u\<in>set H. cuts u x)"
          using notR by (auto simp: ws)
        then show ?thesis by (simp add: byte_after_collapsed[OF c] byte_after_collapsed[OF cH])
      qed
      ultimately show ?thesis using addn stepH by (simp add: byte_step_def n)
    qed
  qed
qed

subsection \<open>A write\<close>

text \<open>The three regions that a new write cuts a collapsed list into.\<close>

definition regions :: "WriteRange list \<Rightarrow> WriteRange \<Rightarrow> WriteRange list \<Rightarrow> WriteRange list \<Rightarrow> WriteRange list \<Rightarrow> bool" where
  "regions ws n H M E \<longleftrightarrow> ws = H @ M @ E \<and>
     (\<forall>w\<in>set H. \<not> isTruncate w \<and> wend w < woff n) \<and>
     (\<forall>w\<in>set M. if isTruncate w then woff w < wend n else woff n \<le> wend w \<and> woff w \<le> wend n) \<and>
     (\<forall>w\<in>set E. if isTruncate w then wend n \<le> woff w else wend n < woff w)"

lemma add_write_regions:
  assumes c: "collapsed ws" and ok: "range_ok n" and wr: "\<not> isTruncate n"
  obtains H M E where "regions ws n H M E"
    "addToCollapsedWriteRange ws n = map_option (\<lambda>M'. H @ M' @ E) (coalesceWrites M n)"
proof -
  let ?P = "\<lambda>w. \<not> (wr_Off w \<ge> wr_Off n \<or> Affects n w)"
  define H where "H = takeWhile ?P ws"
  define R where "R = dropWhile ?P ws"
  define M where "M = takeWhile (Affects n) R"
  define E where "E = dropWhile (Affects n) R"
  have ws: "ws = H @ M @ E" by (simp add: H_def R_def M_def E_def)
  have rok: "range_ok w" if "w \<in> set ws" for w using that c by (simp add: collapsed_def)
  have pos: "woff n < wend n" using wr by (rule woff_less_wend)
  have P: "?P w \<longleftrightarrow> woff w < woff n \<and> \<not> Affects n w" for w
    by (auto simp: word_le_nat_alt woff_def)
  have A: "Affects n w \<longleftrightarrow> (if isTruncate w then woff w < wend n else woff n \<le> wend w \<and> woff w \<le> wend n)"
    if "w \<in> set ws" for w using Affects_nat[OF ok rok[OF that]] wr by simp
  have H: "\<not> isTruncate w \<and> wend w < woff n" if "w \<in> set H" for w
  proof -
    have "w \<in> set ws" "?P w" using that unfolding H_def by (auto dest: set_takeWhileD)
    then show ?thesis using A[of w] P[of w] pos by (auto split: if_splits)
  qed
  have M: "Affects n w" if "w \<in> set M" for w
    using that set_takeWhileD[of w "Affects n" R] unfolding M_def[symmetric] by simp
  have sE: "sorted_wrt wbefore E" "\<And>m e. m \<in> set M \<Longrightarrow> e \<in> set E \<Longrightarrow> wbefore m e"
    using c ws by (auto simp: collapsed_def sorted_wrt_append)
  have E: "if isTruncate e then wend n \<le> woff e else wend n < woff e" if e: "e \<in> set E" for e
  proof -
    obtain e0 E' where E0: "E = e0 # E'" using e by (cases E) auto
    have nA: "\<not> Affects n e0" using hd_dropWhile[of "Affects n" R] E0 unfolding E_def[symmetric] by simp
    have e0ws: "e0 \<in> set ws" using ws E0 by simp
    have "woff n \<le> woff e0"
    proof (cases M)
      case Nil
      have "R = E" using takeWhile_dropWhile_id[of "Affects n" R]
        unfolding M_def[symmetric] E_def[symmetric] by (simp add: Nil)
      then have "\<not> ?P e0" using hd_dropWhile[of ?P ws] E0 unfolding R_def[symmetric] by simp
      then have "\<not> (woff e0 < woff n \<and> \<not> Affects n e0)" unfolding P .
      then show ?thesis using nA by simp
    next
      case (Cons m M')
      then show ?thesis using sE(2)[of m e0] E0 M[of m] A[of m] ws
        by (auto simp: wbefore_def split: if_splits)
    qed
    then have e0: "if isTruncate e0 then wend n \<le> woff e0 else wend n < woff e0"
      using nA A[OF e0ws] woff_le_wend[of e0] by auto
    show ?thesis
    proof (cases "e = e0")
      case False
      then have "wbefore e0 e" using e E0 sE(1) by auto
      then show ?thesis using e0 woff_le_wend[of e0] by (auto simp: wbefore_def split: if_splits)
    qed (use e0 in simp)
  qed
  have "regions ws n H M E" using ws H M A E unfolding regions_def by auto
  moreover have "addToCollapsedWriteRange ws n = map_option (\<lambda>M'. H @ M' @ E) (coalesceWrites M n)"
    using wr unfolding addToCollapsedWriteRange_def Let_def H_def[symmetric] R_def[symmetric] M_def[symmetric] E_def[symmetric]
    by simp
  ultimately show ?thesis using that by blast
qed

text \<open>The coalesced middle region: one write that spans the region and the new write.\<close>

lemma collapsed_ends:
  assumes "collapsed M" "w \<in> set M"
  shows "\<not> isTruncate w \<Longrightarrow> \<not> isTruncate (hd M) \<and> woff (hd M) \<le> woff w"
    and "\<not> isTruncate w \<Longrightarrow> if isTruncate (last M) then wend w \<le> woff (last M) else wend w \<le> wend (last M)"
    and "isTruncate w \<Longrightarrow> w = last M"
proof -
  have s: "sorted_wrt wbefore M" using assms(1) by (simp add: collapsed_def)
  obtain h M' where h: "M = h # M'" using assms(2) by (cases M) auto
  obtain M'' t where t: "M = M'' @ [t]" using assms(2) by (cases M rule: rev_cases) auto
  show "\<not> isTruncate (hd M) \<and> woff (hd M) \<le> woff w" if "\<not> isTruncate w"
    using s assms(2) that woff_le_wend[of h] unfolding h by (auto simp: wbefore_def)
  show "if isTruncate (last M) then wend w \<le> woff (last M) else wend w \<le> wend (last M)" if "\<not> isTruncate w"
    using s assms(2) that woff_le_wend[of t] unfolding t
    by (auto simp: wbefore_def sorted_wrt_append split: if_splits)
  show "w = last M" if "isTruncate w"
    using s assms(2) that unfolding t by (auto simp: wbefore_def sorted_wrt_append)
qed

lemma coalesce_spec:
  assumes c: "collapsed M" and ok: "range_ok n" and wr: "\<not> isTruncate n"
    and mid: "\<forall>w\<in>set M. if isTruncate w then woff w < wend n else woff n \<le> wend w \<and> woff w \<le> wend n"
  obtains v T where "coalesceWrites M n = Some (v # T)" "\<not> isTruncate v" "range_ok v"
    "woff v \<le> woff n" "wend n \<le> wend v"
    "\<And>x. covers v x \<longleftrightarrow> covers n x \<or> (\<exists>m\<in>set M. covers m x)"
    "\<And>w. w \<in> set M \<Longrightarrow> woff v \<le> woff w \<or> isTruncate w"
    "woff v = woff n \<or> (\<exists>m\<in>set M. \<not> isTruncate m \<and> woff v = woff m)"
    "wend v = wend n \<or> (\<exists>m\<in>set M. \<not> isTruncate m \<and> wend v = wend m)"
    "T = [] \<and> (\<forall>m\<in>set M. \<not> isTruncate m) \<or>
     (\<exists>t m. T = [t] \<and> isTruncate t \<and> range_ok t \<and> woff t = wend n \<and> wend v = wend n \<and> m \<in> set M \<and> isTruncate m)"
proof (cases "M = []")
  case True
  show ?thesis
    by (rule that[of n "[]"]) (use True ok wr in \<open>auto simp: coalesceWrites_def\<close>)
next
  case False
  let ?h = "hd M" and ?t = "last M"
  have hM: "?h \<in> set M" and tM: "?t \<in> set M" using False by simp_all
  have rok: "range_ok w" if "w \<in> set M" for w using that c by (simp add: collapsed_def)
  define b where "b = (if \<not> isTruncate ?t \<and> writeEnd ?t > writeEnd n then writeEnd ?t else writeEnd n)"
  define a where "a = (if \<not> isTruncate ?h \<and> wr_Off ?h < wr_Off n then wr_Off ?h else wr_Off n)"
  have b: "unat b = (if \<not> isTruncate ?t \<and> wend ?t > wend n then wend ?t else wend n)"
    using writeEnd_nat[OF ok] writeEnd_nat[OF rok[OF tM]] by (simp add: b_def word_less_nat_alt)
  have a: "unat a = (if \<not> isTruncate ?h \<and> woff ?h < woff n then woff ?h else woff n)"
    by (simp add: a_def word_less_nat_alt woff_def)
  let ?v = "\<lparr>wr_Off = a, wr_Len = b - a\<rparr>" and ?T = "if isTruncate ?t then [\<lparr>wr_Off = b, wr_Len = 0\<rparr>] else []"
  have pos: "woff n < wend n" using wr by (rule woff_less_wend)
  have "a < b" using a b pos by (auto simp: word_less_nat_alt)
  note v = between_range[OF this]
  have co: "coalesceWrites M n = Some (?v # ?T)"
    using False wr by (simp add: coalesceWrites_def Let_def a_def b_def)
  have ord: "\<not> isTruncate ?h \<and> woff ?h \<le> woff w" "if isTruncate ?t then wend w \<le> woff ?t else wend w \<le> wend ?t"
    if "w \<in> set M" "\<not> isTruncate w" for w
    using collapsed_ends[OF c that(1)] that(2) by simp_all
  have last: "w = ?t" if "w \<in> set M" "isTruncate w" for w using collapsed_ends(3)[OF c that] .
  have midh: "\<not> isTruncate ?h \<Longrightarrow> woff n \<le> wend ?h \<and> woff ?h \<le> wend n"
    and midt: "\<not> isTruncate ?t \<Longrightarrow> woff n \<le> wend ?t \<and> woff ?t \<le> wend n" "isTruncate ?t \<Longrightarrow> woff ?t < wend n"
    using mid hM tM by (auto split: if_splits)
  have cov: "covers ?v x \<longleftrightarrow> covers n x \<or> (\<exists>m\<in>set M. covers m x)" for x
  proof
    assume "covers ?v x"
    then have x: "unat a \<le> x" "x < unat b" using v by (simp_all add: covers_def)
    consider "covers n x" | "x < woff n" | "wend n \<le> x" 
      using wr by (cases "woff n \<le> x"; cases "x < wend n") (auto simp: covers_def)
    then show "covers n x \<or> (\<exists>m\<in>set M. covers m x)"
    proof cases
      case 2
      then have "covers ?h x" using x a midh by (auto simp: covers_def split: if_splits)
      then show ?thesis using hM by blast
    next
      case 3
      then have "covers ?t x" using x b midt by (auto simp: covers_def split: if_splits)
      then show ?thesis using tM by blast
    qed simp
  next
    have lo: "unat a \<le> woff m" if "m \<in> set M" "\<not> isTruncate m" for m using ord(1)[OF that] a by auto
    have hi: "wend m \<le> unat b" if "m \<in> set M" "\<not> isTruncate m" for m
      using ord(2)[OF that] b midt(2) by (auto split: if_splits)
    assume "covers n x \<or> (\<exists>m\<in>set M. covers m x)"
    then show "covers ?v x"
    proof
      assume "covers n x"
      then show ?thesis using v a b by (auto simp: covers_def)
    next
      assume "\<exists>m\<in>set M. covers m x"
      then obtain m where m: "m \<in> set M" "covers m x" by blast
      then have "\<not> isTruncate m" by (simp add: covers_def)
      with m lo[OF m(1)] hi[OF m(1)] v show ?thesis by (auto simp: covers_def)
    qed
  qed
  show ?thesis
  proof (rule that[OF co v(1) v(4)])
    show "woff ?v \<le> woff n" using a v(2) by simp
    show "wend n \<le> wend ?v" using b v(3) by simp
    show "covers ?v x \<longleftrightarrow> covers n x \<or> (\<exists>m\<in>set M. covers m x)" for x by (rule cov)
    show "woff ?v \<le> woff w \<or> isTruncate w" if "w \<in> set M" for w
      using ord(1)[OF that] a v(2) by auto
    show "woff ?v = woff n \<or> (\<exists>m\<in>set M. \<not> isTruncate m \<and> woff ?v = woff m)"
      using a v(2) hM by auto
    show "wend ?v = wend n \<or> (\<exists>m\<in>set M. \<not> isTruncate m \<and> wend ?v = wend m)"
      using b v(3) tM by auto
    show "?T = [] \<and> (\<forall>m\<in>set M. \<not> isTruncate m) \<or>
     (\<exists>t m. ?T = [t] \<and> isTruncate t \<and> range_ok t \<and> woff t = wend n \<and> wend ?v = wend n \<and> m \<in> set M \<and> isTruncate m)"
    proof (cases "isTruncate ?t")
      case True
      then have "unat b = wend n" using b by simp
      then show ?thesis using True tM v(3) ok
        by (intro disjI2) (auto simp: isTruncate_def woff_def range_ok_def wend_def)
    next
      case False
      then show ?thesis using last by auto
    qed
  qed
qed

lemma add_write_correct:
  assumes c: "collapsed ws" and ok: "range_ok n" and wr: "\<not> isTruncate n"
  shows "\<exists>rs. addToCollapsedWriteRange ws n = Some rs \<and> collapsed rs \<and>
    (\<forall>x. byte_after rs x = byte_step x (byte_after ws x) n \<or>
         byte_after rs x = Clean \<and> byte_after ws x = Cut \<and> x < woff n)"
proof -
  obtain H M E where reg: "regions ws n H M E"
    and add: "addToCollapsedWriteRange ws n = map_option (\<lambda>M'. H @ M' @ E) (coalesceWrites M n)"
    using add_write_regions[OF assms] by blast
  note ws = conjunct1[OF reg[unfolded regions_def]]
  have H: "\<not> isTruncate w" "wend w < woff n" if "w \<in> set H" for w using reg that by (auto simp: regions_def)
  have E: "if isTruncate w then wend n \<le> woff w else wend n < woff w" if "w \<in> set E" for w
    using reg that by (auto simp: regions_def)
  have mid: "\<forall>w\<in>set M. if isTruncate w then woff w < wend n else woff n \<le> wend w \<and> woff w \<le> wend n"
    using reg by (auto simp: regions_def)
  have cM: "collapsed M" and cH: "collapsed H" and cE: "collapsed E"
    using c ws by (simp_all add: collapsed_def sorted_wrt_append)
  have HM: "wbefore w m" if "w \<in> set H" "m \<in> set M" for w m
    using c ws that by (simp add: collapsed_def sorted_wrt_append)
  have HE: "wbefore w e" if "w \<in> set H" "e \<in> set E" for w e
    using c ws that by (simp add: collapsed_def sorted_wrt_append)
  have ME: "wbefore m e" if "m \<in> set M" "e \<in> set E" for m e
    using c ws that by (simp add: collapsed_def sorted_wrt_append)
  have pos: "woff n < wend n" using wr by (rule woff_less_wend)
  show ?thesis
  proof (rule coalesce_spec[OF cM ok wr mid])
    fix v T
    assume co: "coalesceWrites M n = Some (v # T)" and v: "\<not> isTruncate v" "range_ok v"
      and vn: "woff v \<le> woff n" "wend n \<le> wend v"
      and cov: "\<And>x. covers v x \<longleftrightarrow> covers n x \<or> (\<exists>m\<in>set M. covers m x)"
      and vo: "woff v = woff n \<or> (\<exists>m\<in>set M. \<not> isTruncate m \<and> woff v = woff m)"
      and ve: "wend v = wend n \<or> (\<exists>m\<in>set M. \<not> isTruncate m \<and> wend v = wend m)"
      and T: "T = [] \<and> (\<forall>m\<in>set M. \<not> isTruncate m) \<or>
        (\<exists>t m. T = [t] \<and> isTruncate t \<and> range_ok t \<and> woff t = wend n \<and> wend v = wend n \<and> m \<in> set M \<and> isTruncate m)"
    let ?rs = "H @ (v # T) @ E"
    have Hv: "wbefore w v" if "w \<in> set H" for w
      using vo H[OF that] HM[OF that] v by (auto simp: wbefore_def)
    have vE: "wbefore v e" if "e \<in> set E" for e
      using ve E[OF that] ME[OF _ that] v by (auto simp: wbefore_def)
    have covrs: "(\<exists>w\<in>set ?rs. covers w x) \<longleftrightarrow> covers n x \<or> (\<exists>w\<in>set ws. covers w x)" for x
    proof -
      have "\<not> covers t x" if "t \<in> set T" for t using T that by (auto simp: covers_def)
      then show ?thesis by (auto simp: ws cov)
    qed
    have "collapsed ?rs \<and> (\<forall>x. byte_after ?rs x = byte_step x (byte_after ws x) n \<or>
         byte_after ?rs x = Clean \<and> byte_after ws x = Cut \<and> x < woff n)"
    proof (cases "T = []")
      case True
      then have noM: "\<not> isTruncate m" if "m \<in> set M" for m using T that by auto
      have crs: "collapsed ?rs"
        using True cH cE Hv HE vE v by (auto simp: collapsed_def sorted_wrt_append)
      have "(\<exists>w\<in>set ?rs. cuts w x) \<longleftrightarrow> (\<exists>w\<in>set ws. cuts w x)" for x
        using True v H noM by (auto simp: ws cuts_def)
      then have "byte_after ?rs x = byte_step x (byte_after ws x) n" for x
        using wr unfolding byte_after_collapsed[OF crs] byte_after_collapsed[OF c] covrs
        by (simp add: byte_step_def cuts_def)
      then show ?thesis using crs by blast
    next
      case False
      then obtain t m where t: "T = [t]" "isTruncate t" "range_ok t" "woff t = wend n" "wend v = wend n"
        and m: "m \<in> set M" "isTruncate m" using T by auto
      have E0: "E = []" using ME[OF m(1)] m(2) by (cases E) (auto simp: wbefore_def)
      have Ht: "wbefore w t" if "w \<in> set H" for w using H[OF that] t pos by (auto simp: wbefore_def)
      have crs: "collapsed ?rs"
        using E0 t cH Hv v Ht by (auto simp: collapsed_def sorted_wrt_append wbefore_def)
      have uniq: "w = m" if "w \<in> set M" "isTruncate w" for w
        using collapsed_ends(3)[OF cM] that m by metis
      have cutrs: "(\<exists>w\<in>set ?rs. cuts w x) \<longleftrightarrow> wend n \<le> x" for x
        using E0 t v H by (auto simp: cuts_def)
      have cutws: "(\<exists>w\<in>set ws. cuts w x) \<longleftrightarrow> woff m \<le> x" for x
      proof -
        have "(\<exists>w\<in>set ws. cuts w x) \<longleftrightarrow> (\<exists>w\<in>set M. cuts w x)" using E0 H by (auto simp: ws cuts_def)
        also have "\<dots> \<longleftrightarrow> woff m \<le> x" using m uniq by (metis cuts_def)
        finally show ?thesis .
      qed
      have mn: "woff m < wend n" using mid m by auto
      have "byte_after ?rs x = byte_step x (byte_after ws x) n \<or>
          byte_after ?rs x = Clean \<and> byte_after ws x = Cut \<and> x < woff n" for x
        using wr mn unfolding byte_after_collapsed[OF crs] byte_after_collapsed[OF c] covrs cutrs cutws
        by (auto simp: byte_step_def cuts_def covers_def)
      then show ?thesis using crs by blast
    qed
    then show ?thesis using add co by auto
  qed
qed

section \<open>Theorems\<close>

lemma add_range_correct:
  assumes "collapsed ws" and "range_ok n"
  shows "\<exists>rs. addToCollapsedWriteRange ws n = Some rs \<and> collapsed rs \<and>
    (\<forall>x. byte_after rs x = byte_after (ws @ [n]) x \<or>
         byte_after rs x = Clean \<and> byte_after ws x = Cut \<and> \<not> isTruncate n \<and> x < woff n)"
proof (cases "isTruncate n")
  case True
  then have "addToCollapsedWriteRange ws n \<noteq> None"
    by (simp add: addToCollapsedWriteRange_def Let_def split: list.split)
  then obtain rs where "addToCollapsedWriteRange ws n = Some rs" by blast
  with add_truncate_correct[OF assms True] show ?thesis by (auto simp: byte_after_def)
next
  case False
  with add_write_correct[OF assms False] show ?thesis by (auto simp: byte_after_def)
qed

text \<open>C1: adding a write or a truncate to a collapsed list never panics and gives a collapsed list. Byte
  by byte the list then says what doing the new range after the old ones does, except that a byte that
  was cut off and lies before a new write may be reported as untouched.\<close>

theorem addToCollapsedWriteRange_correct:
  assumes "collapsed ws" and "range_ok n"
  shows "\<exists>rs. addToCollapsedWriteRange ws n = Some rs \<and> collapsed rs \<and>
    (\<forall>x. byte_after rs x = byte_after (ws @ [n]) x \<or>
         byte_after rs x = Clean \<and> byte_after ws x = Cut \<and> \<not> isTruncate n \<and> x < woff n)"
  using assms by (rule add_range_correct)

theorem addToCollapsedWriteRange_correct_witness:
  "\<exists>rs. addToCollapsedWriteRange [\<lparr>wr_Off = 7, wr_Len = 5\<rparr>, \<lparr>wr_Off = 18, wr_Len = 10\<rparr>, \<lparr>wr_Off = 98, wr_Len = 10\<rparr>]
      \<lparr>wr_Off = 5, wr_Len = 100\<rparr> = Some rs \<and> collapsed rs"
  using addToCollapsedWriteRange_correct[of "[\<lparr>wr_Off = 7, wr_Len = 5\<rparr>, \<lparr>wr_Off = 18, wr_Len = 10\<rparr>, \<lparr>wr_Off = 98, wr_Len = 10\<rparr>]"
      "\<lparr>wr_Off = 5, wr_Len = 100\<rparr>"]
  by (auto simp: collapsed_def wbefore_def range_ok_def wend_def woff_def isTruncate_def)

text \<open>A write that starts beyond an earlier truncate leaves a gap that reads as zero, but the
  collapsed list reports the bytes of the gap as untouched.\<close>

theorem truncate_gap_lost:
  assumes "isTruncate t" and "\<not> isTruncate n" and "range_ok n" and "woff t \<le> x" and "x < woff n"
  shows "\<exists>rs. addToCollapsedWriteRange [t] n = Some rs \<and> byte_after rs x = Clean \<and> byte_after [t, n] x = Cut"
proof -
  have lt: "woff t < wend n" and lo: "\<not> woff n \<le> woff t"
    using assms woff_less_wend[OF assms(2)] by simp_all
  have ok: "range_ok t"
    using assms(1) unsigned_less[of "wr_Off t"] by (simp add: range_ok_def wend_def isTruncate_def)
  have aff: "Affects n t" using Affects_nat[OF assms(3) ok] assms(1,2) lt by simp
  let ?v = "\<lparr>wr_Off = wr_Off n, wr_Len = writeEnd n - wr_Off n\<rparr>"
  have "addToCollapsedWriteRange [t] n = Some [?v, \<lparr>wr_Off = writeEnd n, wr_Len = 0\<rparr>]"
    using assms(1,2) aff lo
    by (simp add: addToCollapsedWriteRange_def coalesceWrites_def word_le_nat_alt woff_def Let_def)
  moreover have "wr_Off n < writeEnd n"
    using woff_less_wend[OF assms(2)] writeEnd_nat[OF assms(3)] by (simp add: word_less_nat_alt woff_def)
  then have "byte_after [?v, \<lparr>wr_Off = writeEnd n, wr_Len = 0\<rparr>] x = Clean"
    using between_range[of "wr_Off n" "writeEnd n"] assms(5) writeEnd_nat[OF assms(3)] woff_le_wend[of n]
    by (simp add: byte_after_def byte_step_def covers_def cuts_def woff_def[symmetric])
      (simp add: isTruncate_def woff_def)
  moreover have "byte_after [t, n] x = Cut"
    using assms by (simp add: byte_after_def byte_step_def covers_def cuts_def)
  ultimately show ?thesis by blast
qed

theorem truncate_gap_lost_witness:
  "\<exists>rs. addToCollapsedWriteRange [\<lparr>wr_Off = 10, wr_Len = 0\<rparr>] \<lparr>wr_Off = 20, wr_Len = 5\<rparr> = Some rs \<and>
     byte_after rs 15 = Clean \<and> byte_after [\<lparr>wr_Off = 10, wr_Len = 0\<rparr>, \<lparr>wr_Off = 20, wr_Len = 5\<rparr>] 15 = Cut"
  using truncate_gap_lost[of "\<lparr>wr_Off = 10, wr_Len = 0\<rparr>" "\<lparr>wr_Off = 20, wr_Len = 5\<rparr>" 15]
  by (simp add: isTruncate_def range_ok_def wend_def woff_def)

end
