(* ===== verification/Kbfs_Ops.thy ===== *)
theory Kbfs_Ops
  imports Kbfs_Data_Types Kbfs_Block_Splitter Kbfs_Write_Ranges "HOL-Library.Multiset"
begin

text \<open>
  libkbfs/ops.go: the file-system operations that a metadata update records, the conflict-resolution
  actions that two of them give rise to, the inverse of an operation, and the collapsing of the write
  ranges of a file. \<open>BlockChanges\<close> of data\_types.go, the list of the operations of an update with
  its size estimate, is here too.
\<close>

section \<open>Operations\<close>

record blockUpdate =
  bu_Unref :: BlockPointer
  bu_Ref :: BlockPointer

definition zeroUpdate :: blockUpdate where
  "zeroUpdate = \<lparr>bu_Unref = zeroPtr, bu_Ref = zeroPtr\<rparr>"

record writerInfo =
  wi_name :: string
  wi_kid :: string
  wi_deviceName :: string

definition zeroWriterInfo :: writerInfo where
  "zeroWriterInfo = \<lparr>wi_name = [], wi_kid = [], wi_deviceName = []\<rparr>"

record OpCommon =
  oc_RefBlocks :: "BlockPointer list"
  oc_UnrefBlocks :: "BlockPointer list"
  oc_Updates :: "blockUpdate list"
  oc_writerInfo :: writerInfo
  oc_finalPath :: path

definition zeroOpCommon :: OpCommon where
  "zeroOpCommon = \<lparr>oc_RefBlocks = [], oc_UnrefBlocks = [], oc_Updates = [],
     oc_writerInfo = zeroWriterInfo, oc_finalPath = zeroPath\<rparr>"

record createOp =
  co_OpCommon :: OpCommon
  co_NewName :: string
  co_Dir :: blockUpdate
  co_Type :: EntryType
  co_renamed :: bool
  co_forceCopy :: bool
  co_crSymPath :: string

record rmOp =
  ro_OpCommon :: OpCommon
  ro_OldName :: string
  ro_Dir :: blockUpdate
  ro_dropThis :: bool

record renameOp =
  rn_OpCommon :: OpCommon
  rn_OldName :: string
  rn_OldDir :: blockUpdate
  rn_NewName :: string
  rn_NewDir :: blockUpdate
  rn_Renamed :: BlockPointer
  rn_RenamedType :: EntryType

record syncOp =
  so_OpCommon :: OpCommon
  so_File :: blockUpdate
  so_Writes :: "WriteRange list"

datatype attrChange = exAttr | mtimeAttr | sizeAttr

record setAttrOp =
  sao_OpCommon :: OpCommon
  sao_Name :: string
  sao_Dir :: blockUpdate
  sao_Attr :: attrChange
  sao_File :: BlockPointer

type_synonym MetadataRevision = int

record gcOp =
  gco_OpCommon :: OpCommon
  gco_LatestRev :: MetadataRevision

datatype op =
    CreateOp createOp
  | RmOp rmOp
  | RenameOp renameOp
  | SyncOp syncOp
  | SetAttrOp setAttrOp
  | ResolutionOp OpCommon
  | RekeyOp OpCommon
  | GcOp gcOp

text \<open>The errors and panics of ops.go.\<close>

datatype op_error =
    UnexpectedRenameConflict op
  | IndexOutOfRange
  | UnrecognizedOperation op

definition indexed :: "'a option \<Rightarrow> (op_error, 'a) result" where
  "indexed x = (case x of None \<Rightarrow> Inl (Panic IndexOutOfRange) | Some a \<Rightarrow> Inr a)"

subsection \<open>The embedded OpCommon\<close>

primrec op_common :: "op \<Rightarrow> OpCommon" where
  "op_common (CreateOp o') = co_OpCommon o'"
| "op_common (RmOp o') = ro_OpCommon o'"
| "op_common (RenameOp o') = rn_OpCommon o'"
| "op_common (SyncOp o') = so_OpCommon o'"
| "op_common (SetAttrOp o') = sao_OpCommon o'"
| "op_common (ResolutionOp c) = c"
| "op_common (RekeyOp c) = c"
| "op_common (GcOp o') = gco_OpCommon o'"

primrec op_update_common :: "(OpCommon \<Rightarrow> OpCommon) \<Rightarrow> op \<Rightarrow> op" where
  "op_update_common f (CreateOp o') = CreateOp (o'\<lparr>co_OpCommon := f (co_OpCommon o')\<rparr>)"
| "op_update_common f (RmOp o') = RmOp (o'\<lparr>ro_OpCommon := f (ro_OpCommon o')\<rparr>)"
| "op_update_common f (RenameOp o') = RenameOp (o'\<lparr>rn_OpCommon := f (rn_OpCommon o')\<rparr>)"
| "op_update_common f (SyncOp o') = SyncOp (o'\<lparr>so_OpCommon := f (so_OpCommon o')\<rparr>)"
| "op_update_common f (SetAttrOp o') = SetAttrOp (o'\<lparr>sao_OpCommon := f (sao_OpCommon o')\<rparr>)"
| "op_update_common f (ResolutionOp c) = ResolutionOp (f c)"
| "op_update_common f (RekeyOp c) = RekeyOp (f c)"
| "op_update_common f (GcOp o') = GcOp (o'\<lparr>gco_OpCommon := f (gco_OpCommon o')\<rparr>)"

definition OpCommon_AddRefBlock :: "BlockPointer \<Rightarrow> OpCommon \<Rightarrow> OpCommon" where
  "OpCommon_AddRefBlock ptr oc = oc\<lparr>oc_RefBlocks := oc_RefBlocks oc @ [ptr]\<rparr>"

definition OpCommon_AddUnrefBlock :: "BlockPointer \<Rightarrow> OpCommon \<Rightarrow> OpCommon" where
  "OpCommon_AddUnrefBlock ptr oc = oc\<lparr>oc_UnrefBlocks := oc_UnrefBlocks oc @ [ptr]\<rparr>"

definition OpCommon_AddUpdate :: "BlockPointer \<Rightarrow> BlockPointer \<Rightarrow> OpCommon \<Rightarrow> OpCommon" where
  "OpCommon_AddUpdate oldPtr newPtr oc =
     oc\<lparr>oc_Updates := oc_Updates oc @ [\<lparr>bu_Unref = oldPtr, bu_Ref = newPtr\<rparr>]\<rparr>"

definition op_AddRefBlock :: "op \<Rightarrow> BlockPointer \<Rightarrow> op" where
  "op_AddRefBlock o' ptr = op_update_common (OpCommon_AddRefBlock ptr) o'"

definition op_AddUnrefBlock :: "op \<Rightarrow> BlockPointer \<Rightarrow> op" where
  "op_AddUnrefBlock o' ptr = op_update_common (OpCommon_AddUnrefBlock ptr) o'"

definition Refs :: "op \<Rightarrow> BlockPointer list" where
  "Refs o' = oc_RefBlocks (op_common o')"

definition Unrefs :: "op \<Rightarrow> BlockPointer list" where
  "Unrefs o' = oc_UnrefBlocks (op_common o')"

definition setWriterInfo :: "op \<Rightarrow> writerInfo \<Rightarrow> op" where
  "setWriterInfo o' info = op_update_common (\<lambda>c. c\<lparr>oc_writerInfo := info\<rparr>) o'"

definition getWriterInfo :: "op \<Rightarrow> writerInfo" where
  "getWriterInfo o' = oc_writerInfo (op_common o')"

definition setFinalPath :: "op \<Rightarrow> path \<Rightarrow> op" where
  "setFinalPath o' p = op_update_common (\<lambda>c. c\<lparr>oc_finalPath := p\<rparr>) o'"

definition getFinalPath :: "op \<Rightarrow> path" where
  "getFinalPath o' = oc_finalPath (op_common o')"

subsection \<open>Constructors\<close>

definition newCreateOp :: "string \<Rightarrow> BlockPointer \<Rightarrow> EntryType \<Rightarrow> createOp" where
  "newCreateOp name oldDir t =
     \<lparr>co_OpCommon = zeroOpCommon, co_NewName = name, co_Dir = zeroUpdate\<lparr>bu_Unref := oldDir\<rparr>, co_Type = t,
      co_renamed = False, co_forceCopy = False, co_crSymPath = []\<rparr>"

definition newRmOp :: "string \<Rightarrow> BlockPointer \<Rightarrow> rmOp" where
  "newRmOp name oldDir =
     \<lparr>ro_OpCommon = zeroOpCommon, ro_OldName = name, ro_Dir = zeroUpdate\<lparr>bu_Unref := oldDir\<rparr>,
      ro_dropThis = False\<rparr>"

definition newRenameOp ::
  "string \<Rightarrow> BlockPointer \<Rightarrow> string \<Rightarrow> BlockPointer \<Rightarrow> BlockPointer \<Rightarrow> EntryType \<Rightarrow> renameOp" where
  "newRenameOp oldName oldOldDir newName oldNewDir renamed renamedType =
     \<lparr>rn_OpCommon = zeroOpCommon, rn_OldName = oldName, rn_OldDir = zeroUpdate\<lparr>bu_Unref := oldOldDir\<rparr>,
      rn_NewName = newName,
      rn_NewDir = (if oldOldDir \<noteq> oldNewDir then zeroUpdate\<lparr>bu_Unref := oldNewDir\<rparr> else zeroUpdate),
      rn_Renamed = renamed, rn_RenamedType = renamedType\<rparr>"

definition resetUpdateState :: "syncOp \<Rightarrow> syncOp" where
  "resetUpdateState so = so\<lparr>so_OpCommon := (so_OpCommon so)\<lparr>oc_Updates := []\<rparr>\<rparr>"

definition newSyncOp :: "BlockPointer \<Rightarrow> syncOp" where
  "newSyncOp oldFile =
     resetUpdateState \<lparr>so_OpCommon = zeroOpCommon, so_File = zeroUpdate\<lparr>bu_Unref := oldFile\<rparr>, so_Writes = []\<rparr>"

definition newSetAttrOp :: "string \<Rightarrow> BlockPointer \<Rightarrow> attrChange \<Rightarrow> BlockPointer \<Rightarrow> setAttrOp" where
  "newSetAttrOp name oldDir attr file =
     \<lparr>sao_OpCommon = zeroOpCommon, sao_Name = name, sao_Dir = zeroUpdate\<lparr>bu_Unref := oldDir\<rparr>, sao_Attr = attr,
      sao_File = file\<rparr>"

definition newGCOp :: "MetadataRevision \<Rightarrow> gcOp" where
  "newGCOp latestRev = \<lparr>gco_OpCommon = zeroOpCommon, gco_LatestRev = latestRev\<rparr>"

definition addWrite :: "syncOp \<Rightarrow> uint64 \<Rightarrow> uint64 \<Rightarrow> syncOp \<times> WriteRange" where
  "addWrite so offset len =
     (let latestWrite = \<lparr>wr_Off = offset, wr_Len = len\<rparr>
      in (so\<lparr>so_Writes := so_Writes so @ [latestWrite]\<rparr>, latestWrite))"

definition addTruncate :: "syncOp \<Rightarrow> uint64 \<Rightarrow> syncOp \<times> WriteRange" where
  "addTruncate so offset =
     (let latestWrite = \<lparr>wr_Off = offset, wr_Len = 0\<rparr>
      in (so\<lparr>so_Writes := so_Writes so @ [latestWrite]\<rparr>, latestWrite))"

subsection \<open>Block updates\<close>

text \<open>
  An update of the directory or file that the operation is about goes into its own field, every other
  into the common list.
\<close>

definition createOp_AddUpdate :: "createOp \<Rightarrow> BlockPointer \<Rightarrow> BlockPointer \<Rightarrow> createOp" where
  "createOp_AddUpdate x oldPtr newPtr =
     (if oldPtr = bu_Unref (co_Dir x) then x\<lparr>co_Dir := (co_Dir x)\<lparr>bu_Ref := newPtr\<rparr>\<rparr>
      else x\<lparr>co_OpCommon := OpCommon_AddUpdate oldPtr newPtr (co_OpCommon x)\<rparr>)"

definition rmOp_AddUpdate :: "rmOp \<Rightarrow> BlockPointer \<Rightarrow> BlockPointer \<Rightarrow> rmOp" where
  "rmOp_AddUpdate x oldPtr newPtr =
     (if oldPtr = bu_Unref (ro_Dir x) then x\<lparr>ro_Dir := (ro_Dir x)\<lparr>bu_Ref := newPtr\<rparr>\<rparr>
      else x\<lparr>ro_OpCommon := OpCommon_AddUpdate oldPtr newPtr (ro_OpCommon x)\<rparr>)"

definition renameOp_AddUpdate :: "renameOp \<Rightarrow> BlockPointer \<Rightarrow> BlockPointer \<Rightarrow> renameOp" where
  "renameOp_AddUpdate x oldPtr newPtr =
     (if oldPtr = bu_Unref (rn_OldDir x) then x\<lparr>rn_OldDir := (rn_OldDir x)\<lparr>bu_Ref := newPtr\<rparr>\<rparr>
      else if rn_NewDir x \<noteq> zeroUpdate \<and> oldPtr = bu_Unref (rn_NewDir x)
      then x\<lparr>rn_NewDir := (rn_NewDir x)\<lparr>bu_Ref := newPtr\<rparr>\<rparr>
      else x\<lparr>rn_OpCommon := OpCommon_AddUpdate oldPtr newPtr (rn_OpCommon x)\<rparr>)"

definition syncOp_AddUpdate :: "syncOp \<Rightarrow> BlockPointer \<Rightarrow> BlockPointer \<Rightarrow> syncOp" where
  "syncOp_AddUpdate x oldPtr newPtr =
     (if oldPtr = bu_Unref (so_File x) then x\<lparr>so_File := (so_File x)\<lparr>bu_Ref := newPtr\<rparr>\<rparr>
      else x\<lparr>so_OpCommon := OpCommon_AddUpdate oldPtr newPtr (so_OpCommon x)\<rparr>)"

definition setAttrOp_AddUpdate :: "setAttrOp \<Rightarrow> BlockPointer \<Rightarrow> BlockPointer \<Rightarrow> setAttrOp" where
  "setAttrOp_AddUpdate x oldPtr newPtr =
     (if oldPtr = bu_Unref (sao_Dir x) then x\<lparr>sao_Dir := (sao_Dir x)\<lparr>bu_Ref := newPtr\<rparr>\<rparr>
      else x\<lparr>sao_OpCommon := OpCommon_AddUpdate oldPtr newPtr (sao_OpCommon x)\<rparr>)"

fun op_AddUpdate :: "op \<Rightarrow> BlockPointer \<Rightarrow> BlockPointer \<Rightarrow> op" where
  "op_AddUpdate (CreateOp co) oldPtr newPtr = CreateOp (createOp_AddUpdate co oldPtr newPtr)"
| "op_AddUpdate (RmOp ro) oldPtr newPtr = RmOp (rmOp_AddUpdate ro oldPtr newPtr)"
| "op_AddUpdate (RenameOp ro) oldPtr newPtr = RenameOp (renameOp_AddUpdate ro oldPtr newPtr)"
| "op_AddUpdate (SyncOp so) oldPtr newPtr = SyncOp (syncOp_AddUpdate so oldPtr newPtr)"
| "op_AddUpdate (SetAttrOp sao) oldPtr newPtr = SetAttrOp (setAttrOp_AddUpdate sao oldPtr newPtr)"
| "op_AddUpdate (ResolutionOp c) oldPtr newPtr = ResolutionOp (OpCommon_AddUpdate oldPtr newPtr c)"
| "op_AddUpdate (RekeyOp c) oldPtr newPtr = RekeyOp (OpCommon_AddUpdate oldPtr newPtr c)"
| "op_AddUpdate (GcOp gco) oldPtr newPtr =
     GcOp (gco\<lparr>gco_OpCommon := OpCommon_AddUpdate oldPtr newPtr (gco_OpCommon gco)\<rparr>)"

lemmas AddUpdate_defs [simp] =
  createOp_AddUpdate_def rmOp_AddUpdate_def renameOp_AddUpdate_def syncOp_AddUpdate_def setAttrOp_AddUpdate_def

definition createOp_AllUpdates :: "createOp \<Rightarrow> blockUpdate list" where
  "createOp_AllUpdates x = oc_Updates (co_OpCommon x) @ [co_Dir x]"

definition rmOp_AllUpdates :: "rmOp \<Rightarrow> blockUpdate list" where
  "rmOp_AllUpdates x = oc_Updates (ro_OpCommon x) @ [ro_Dir x]"

definition renameOp_AllUpdates :: "renameOp \<Rightarrow> blockUpdate list" where
  "renameOp_AllUpdates x =
     (if rn_NewDir x \<noteq> zeroUpdate then oc_Updates (rn_OpCommon x) @ [rn_NewDir x, rn_OldDir x]
      else oc_Updates (rn_OpCommon x) @ [rn_OldDir x])"

definition syncOp_AllUpdates :: "syncOp \<Rightarrow> blockUpdate list" where
  "syncOp_AllUpdates x = oc_Updates (so_OpCommon x) @ [so_File x]"

definition setAttrOp_AllUpdates :: "setAttrOp \<Rightarrow> blockUpdate list" where
  "setAttrOp_AllUpdates x = oc_Updates (sao_OpCommon x) @ [sao_Dir x]"

primrec AllUpdates :: "op \<Rightarrow> blockUpdate list" where
  "AllUpdates (CreateOp co) = createOp_AllUpdates co"
| "AllUpdates (RmOp ro) = rmOp_AllUpdates ro"
| "AllUpdates (RenameOp ro) = renameOp_AllUpdates ro"
| "AllUpdates (SyncOp so) = syncOp_AllUpdates so"
| "AllUpdates (SetAttrOp sao) = setAttrOp_AllUpdates sao"
| "AllUpdates (ResolutionOp c) = oc_Updates c"
| "AllUpdates (RekeyOp c) = oc_Updates c"
| "AllUpdates (GcOp gco) = oc_Updates (gco_OpCommon gco)"

lemmas AllUpdates_defs [simp] =
  createOp_AllUpdates_def rmOp_AllUpdates_def renameOp_AllUpdates_def syncOp_AllUpdates_def setAttrOp_AllUpdates_def

definition createOp_SizeExceptUpdates :: "createOp \<Rightarrow> uint64" where
  "createOp_SizeExceptUpdates x = of_nat (length (co_NewName x))"

definition rmOp_SizeExceptUpdates :: "rmOp \<Rightarrow> uint64" where
  "rmOp_SizeExceptUpdates x = of_nat (length (ro_OldName x))"

definition renameOp_SizeExceptUpdates :: "renameOp \<Rightarrow> uint64" where
  "renameOp_SizeExceptUpdates x = of_nat (length (rn_NewName x) + length (rn_NewName x))"

definition syncOp_SizeExceptUpdates :: "syncOp \<Rightarrow> uint64" where
  "syncOp_SizeExceptUpdates x = of_nat (length (so_Writes x) * 16)"

definition setAttrOp_SizeExceptUpdates :: "setAttrOp \<Rightarrow> uint64" where
  "setAttrOp_SizeExceptUpdates x = of_nat (length (sao_Name x))"

primrec SizeExceptUpdates :: "op \<Rightarrow> uint64" where
  "SizeExceptUpdates (CreateOp co) = createOp_SizeExceptUpdates co"
| "SizeExceptUpdates (RmOp ro) = rmOp_SizeExceptUpdates ro"
| "SizeExceptUpdates (RenameOp ro) = renameOp_SizeExceptUpdates ro"
| "SizeExceptUpdates (SyncOp so) = syncOp_SizeExceptUpdates so"
| "SizeExceptUpdates (SetAttrOp sao) = setAttrOp_SizeExceptUpdates sao"
| "SizeExceptUpdates (ResolutionOp c) = 0"
| "SizeExceptUpdates (RekeyOp c) = 0"
| "SizeExceptUpdates (GcOp gco) = 0"

section \<open>Conflict-resolution actions\<close>

text \<open>The actions of cr\_actions.go, as the structs they are.\<close>

record copyUnmergedEntryAction =
  cuea_fromName :: string
  cuea_toName :: string
  cuea_symPath :: string
  cuea_sizeOnly :: bool
  cuea_unique :: bool
  cuea_unmergedEntry :: DirEntry
  cuea_attr :: "attrChange list"

record copyUnmergedAttrAction =
  cuaa_fromName :: string
  cuaa_toName :: string
  cuaa_attr :: "attrChange list"

record rmMergedEntryAction =
  rmea_name :: string

record renameUnmergedAction =
  rua_fromName :: string
  rua_toName :: string
  rua_symPath :: string
  rua_unmergedParentMostRecent :: BlockPointer
  rua_mergedParentMostRecent :: BlockPointer

record renameMergedAction =
  rma_fromName :: string
  rma_toName :: string
  rma_symPath :: string

record dropUnmergedAction =
  dua_op :: op

datatype crAction =
    CopyUnmergedEntry copyUnmergedEntryAction
  | CopyUnmergedAttr copyUnmergedAttrAction
  | RmMergedEntry rmMergedEntryAction
  | RenameUnmerged renameUnmergedAction
  | RenameMerged renameMergedAction
  | DropUnmerged dropUnmergedAction

definition zeroDirEntry :: DirEntry where
  "zeroDirEntry = \<lparr>de_BlockInfo = zeroBlockInfo,
     de_EntryInfo = \<lparr>ei_Type = File, ei_Size = 0, ei_SymPath = [], ei_Mtime = 0, ei_Ctime = 0\<rparr>\<rparr>"

text \<open>Struct literals that leave the other fields at their zero values.\<close>

definition mk_copyUnmergedEntry :: "string \<Rightarrow> string \<Rightarrow> string \<Rightarrow> bool \<Rightarrow> crAction" where
  "mk_copyUnmergedEntry from to symPath unique =
     CopyUnmergedEntry \<lparr>cuea_fromName = from, cuea_toName = to, cuea_symPath = symPath, cuea_sizeOnly = False,
       cuea_unique = unique, cuea_unmergedEntry = zeroDirEntry, cuea_attr = []\<rparr>"

definition mk_renameUnmerged :: "string \<Rightarrow> string \<Rightarrow> string \<Rightarrow> crAction" where
  "mk_renameUnmerged from to symPath =
     RenameUnmerged \<lparr>rua_fromName = from, rua_toName = to, rua_symPath = symPath,
       rua_unmergedParentMostRecent = zeroPtr, rua_mergedParentMostRecent = zeroPtr\<rparr>"

subsection \<open>CheckConflict and GetDefaultAction\<close>

text \<open>
  The renamer (\<open>ConflictRenamer\<close>, which reads the clock) is the parameter \<open>rename\<close>. \<open>Inr None\<close> is the
  nil action.
\<close>

definition createOp_CheckConflict :: "(op \<Rightarrow> string \<Rightarrow> string) \<Rightarrow> createOp \<Rightarrow> op \<Rightarrow> (op_error, crAction option) result" where
  "createOp_CheckConflict rename co mergedOp =
     (case mergedOp of
        CreateOp realMergedOp \<Rightarrow>
          (let sameName = co_NewName realMergedOp = co_NewName co in
           if sameName \<and> (co_Type realMergedOp \<noteq> Dir \<or> co_Type co \<noteq> Dir) then
             (if co_Type realMergedOp \<noteq> Dir \<and> (co_Type co = Dir \<or> co_crSymPath co \<noteq> []) then
                Inr (Some (RenameMerged \<lparr>rma_fromName = co_NewName co,
                  rma_toName = rename mergedOp (co_NewName co), rma_symPath = co_crSymPath co\<rparr>))
              else
                Inr (Some (mk_renameUnmerged (co_NewName co) (rename (CreateOp co) (co_NewName co)) (co_crSymPath co))))
           else if sameName \<and> co_Type realMergedOp = Dir \<and> co_Type co = Dir \<and>
                   (co_renamed realMergedOp \<or> co_renamed co) then
             Inr (Some (mk_copyUnmergedEntry (co_NewName co) (rename (CreateOp co) (co_NewName co)) (co_crSymPath co) True))
           else Inr None)
      | _ \<Rightarrow> Inr None)"

definition rmOp_CheckConflict :: "rmOp \<Rightarrow> op \<Rightarrow> (op_error, crAction option) result" where
  "rmOp_CheckConflict ro mergedOp =
     (case mergedOp of
        CreateOp realMergedOp \<Rightarrow>
          if co_NewName realMergedOp = ro_OldName ro then Inr (Some (DropUnmerged \<lparr>dua_op = RmOp ro\<rparr>)) else Inr None
      | RmOp realMergedOp \<Rightarrow>
          if ro_OldName realMergedOp = ro_OldName ro then Inr (Some (DropUnmerged \<lparr>dua_op = RmOp ro\<rparr>)) else Inr None
      | _ \<Rightarrow> Inr None)"

text \<open>
  Both file operations rename the unmerged file on a conflict: the arguments are evaluated in the
  order of the source, and each can panic on a path that is too short.
\<close>

definition renameUnmergedFile :: "(op \<Rightarrow> string \<Rightarrow> string) \<Rightarrow> op \<Rightarrow> op \<Rightarrow> (op_error, crAction option) result" where
  "renameUnmergedFile rename o' mergedOp =
     bindR (indexed (tailName (getFinalPath o'))) (\<lambda>from.
     bindR (indexed (tailName (getFinalPath mergedOp))) (\<lambda>mergedName.
     bindR (indexed (Option.bind (parentPath (getFinalPath o')) tailPointer)) (\<lambda>uParent.
     bindR (indexed (Option.bind (parentPath (getFinalPath mergedOp)) tailPointer)) (\<lambda>mParent.
       Inr (Some (RenameUnmerged \<lparr>rua_fromName = from, rua_toName = rename o' mergedName, rua_symPath = [],
         rua_unmergedParentMostRecent = uParent, rua_mergedParentMostRecent = mParent\<rparr>))))))"

definition syncOp_CheckConflict :: "(op \<Rightarrow> string \<Rightarrow> string) \<Rightarrow> syncOp \<Rightarrow> op \<Rightarrow> (op_error, crAction option) result" where
  "syncOp_CheckConflict rename so mergedOp =
     (case mergedOp of
        SyncOp _ \<Rightarrow> renameUnmergedFile rename (SyncOp so) mergedOp
      | SetAttrOp _ \<Rightarrow>
          bindR (indexed (tailName (getFinalPath (SyncOp so)))) (\<lambda>from.
          bindR (indexed (tailName (getFinalPath mergedOp))) (\<lambda>to.
            Inr (Some (CopyUnmergedAttr \<lparr>cuaa_fromName = from, cuaa_toName = to, cuaa_attr = [sizeAttr]\<rparr>))))
      | _ \<Rightarrow> Inr None)"

definition setAttrOp_CheckConflict :: "(op \<Rightarrow> string \<Rightarrow> string) \<Rightarrow> setAttrOp \<Rightarrow> op \<Rightarrow> (op_error, crAction option) result" where
  "setAttrOp_CheckConflict rename sao mergedOp =
     (case mergedOp of
        SetAttrOp realMergedOp \<Rightarrow>
          if sao_Attr realMergedOp = sao_Attr sao then renameUnmergedFile rename (SetAttrOp sao) mergedOp
          else Inr None
      | _ \<Rightarrow> Inr None)"

primrec CheckConflict :: "(op \<Rightarrow> string \<Rightarrow> string) \<Rightarrow> op \<Rightarrow> op \<Rightarrow> (op_error, crAction option) result" where
  "CheckConflict rename (CreateOp co) mergedOp = createOp_CheckConflict rename co mergedOp"
| "CheckConflict rename (RmOp ro) mergedOp = rmOp_CheckConflict ro mergedOp"
| "CheckConflict rename (RenameOp ro) mergedOp = Inl (Error (UnexpectedRenameConflict (RenameOp ro)))"
| "CheckConflict rename (SyncOp so) mergedOp = syncOp_CheckConflict rename so mergedOp"
| "CheckConflict rename (SetAttrOp sao) mergedOp = setAttrOp_CheckConflict rename sao mergedOp"
| "CheckConflict rename (ResolutionOp c) mergedOp = Inr None"
| "CheckConflict rename (RekeyOp c) mergedOp = Inr None"
| "CheckConflict rename (GcOp gco) mergedOp = Inr None"

definition createOp_GetDefaultAction :: "createOp \<Rightarrow> crAction" where
  "createOp_GetDefaultAction co =
     (if co_forceCopy co then mk_renameUnmerged (co_NewName co) (co_NewName co) (co_crSymPath co)
      else mk_copyUnmergedEntry (co_NewName co) (co_NewName co) (co_crSymPath co) False)"

definition rmOp_GetDefaultAction :: "rmOp \<Rightarrow> crAction" where
  "rmOp_GetDefaultAction ro =
     (if ro_dropThis ro then DropUnmerged \<lparr>dua_op = RmOp ro\<rparr> else RmMergedEntry \<lparr>rmea_name = ro_OldName ro\<rparr>)"

definition syncOp_GetDefaultAction :: "syncOp \<Rightarrow> path \<Rightarrow> (op_error, crAction option) result" where
  "syncOp_GetDefaultAction so mergedPath =
     bindR (indexed (tailName (getFinalPath (SyncOp so)))) (\<lambda>from.
     bindR (indexed (tailName mergedPath)) (\<lambda>to. Inr (Some (mk_copyUnmergedEntry from to [] False))))"

definition setAttrOp_GetDefaultAction :: "setAttrOp \<Rightarrow> path \<Rightarrow> (op_error, crAction option) result" where
  "setAttrOp_GetDefaultAction sao mergedPath =
     bindR (indexed (tailName (getFinalPath (SetAttrOp sao)))) (\<lambda>from.
     bindR (indexed (tailName mergedPath)) (\<lambda>to.
       Inr (Some (CopyUnmergedAttr \<lparr>cuaa_fromName = from, cuaa_toName = to, cuaa_attr = [sao_Attr sao]\<rparr>))))"

lemmas GetDefaultAction_defs [simp] = syncOp_GetDefaultAction_def setAttrOp_GetDefaultAction_def

primrec GetDefaultAction :: "op \<Rightarrow> path \<Rightarrow> (op_error, crAction option) result" where
  "GetDefaultAction (CreateOp co) mergedPath = Inr (Some (createOp_GetDefaultAction co))"
| "GetDefaultAction (RmOp ro) mergedPath = Inr (Some (rmOp_GetDefaultAction ro))"
| "GetDefaultAction (RenameOp ro) mergedPath = Inr None"
| "GetDefaultAction (SyncOp so) mergedPath = syncOp_GetDefaultAction so mergedPath"
| "GetDefaultAction (SetAttrOp sao) mergedPath = setAttrOp_GetDefaultAction sao mergedPath"
| "GetDefaultAction (ResolutionOp c) mergedPath = Inr None"
| "GetDefaultAction (RekeyOp c) mergedPath = Inr None"
| "GetDefaultAction (GcOp gco) mergedPath = Inr None"

section \<open>Inverting an operation\<close>

definition invertOpForLocalNotifications :: "op \<Rightarrow> (op_error, op) result" where
  "invertOpForLocalNotifications oldOp =
     (let newOp =
        (case oldOp of
           CreateOp o' \<Rightarrow> Inr (RmOp (newRmOp (co_NewName o') (bu_Ref (co_Dir o'))))
         | RmOp o' \<Rightarrow> Inr (CreateOp (newCreateOp (ro_OldName o') (bu_Ref (ro_Dir o')) File))
         | RenameOp o' \<Rightarrow>
             Inr (RenameOp (newRenameOp (rn_NewName o') (bu_Ref (rn_NewDir o')) (rn_OldName o')
               (bu_Ref (rn_OldDir o')) (rn_Renamed o') (rn_RenamedType o')))
         | SyncOp o' \<Rightarrow> Inr (SyncOp ((newSyncOp (bu_Ref (so_File o')))\<lparr>so_Writes := so_Writes o'\<rparr>))
         | SetAttrOp o' \<Rightarrow>
             Inr (SetAttrOp (newSetAttrOp (sao_Name o') (bu_Ref (sao_Dir o')) (sao_Attr o') (sao_File o')))
         | GcOp o' \<Rightarrow> Inr (GcOp o')
         | _ \<Rightarrow> Inl (Panic (UnrecognizedOperation oldOp)))
      in bindR newOp (\<lambda>newOp.
           Inr (foldl (\<lambda>o' update. op_AddUpdate o' (bu_Ref update) (bu_Unref update)) newOp (AllUpdates oldOp))))"

section \<open>Collapsing the writes of a sync\<close>

definition collapseWriteRange :: "syncOp \<Rightarrow> WriteRange list \<Rightarrow> WriteRange list option" where
  "collapseWriteRange so writes =
     foldl (\<lambda>newWrites wNew. Option.bind newWrites (\<lambda>ws. addToCollapsedWriteRange ws wNew))
       (Some writes) (so_Writes so)"

section \<open>BlockChanges\<close>

record BlockChanges =
  bch_Info :: BlockInfo
  bch_Ops :: "op list"
  bch_sizeEstimate :: uint64

text \<open>
  \<open>bpSize\<close> is the in-memory size of a \<open>BlockPointer\<close>, which the compiler fixes. Adding to a list with
  no operation is an index panic, \<open>None\<close>.
\<close>

definition addBPSize :: "uint64 \<Rightarrow> BlockChanges \<Rightarrow> BlockChanges" where
  "addBPSize bpSize bc = bc\<lparr>bch_sizeEstimate := bch_sizeEstimate bc + bpSize\<rparr>"

definition updateLastOp :: "(op \<Rightarrow> op) \<Rightarrow> BlockChanges \<Rightarrow> BlockChanges option" where
  "updateLastOp f bc =
     (if bch_Ops bc = [] then None
      else Some (bc\<lparr>bch_Ops := butlast (bch_Ops bc) @ [f (last (bch_Ops bc))]\<rparr>))"

definition BlockChanges_AddRefBlock :: "uint64 \<Rightarrow> BlockChanges \<Rightarrow> BlockPointer \<Rightarrow> BlockChanges option" where
  "BlockChanges_AddRefBlock bpSize bc ptr =
     map_option (addBPSize bpSize) (updateLastOp (\<lambda>o'. op_AddRefBlock o' ptr) bc)"

definition BlockChanges_AddUnrefBlock :: "uint64 \<Rightarrow> BlockChanges \<Rightarrow> BlockPointer \<Rightarrow> BlockChanges option" where
  "BlockChanges_AddUnrefBlock bpSize bc ptr =
     map_option (addBPSize bpSize) (updateLastOp (\<lambda>o'. op_AddUnrefBlock o' ptr) bc)"

definition BlockChanges_AddUpdate ::
  "uint64 \<Rightarrow> BlockChanges \<Rightarrow> BlockPointer \<Rightarrow> BlockPointer \<Rightarrow> BlockChanges option" where
  "BlockChanges_AddUpdate bpSize bc oldPtr newPtr =
     map_option (addBPSize bpSize \<circ> addBPSize bpSize) (updateLastOp (\<lambda>o'. op_AddUpdate o' oldPtr newPtr) bc)"

definition BlockChanges_AddOp :: "BlockChanges \<Rightarrow> op \<Rightarrow> BlockChanges" where
  "BlockChanges_AddOp bc o' =
     bc\<lparr>bch_Ops := bch_Ops bc @ [o'], bch_sizeEstimate := bch_sizeEstimate bc + SizeExceptUpdates o'\<rparr>"

definition BlockChanges_Equals :: "BlockChanges \<Rightarrow> BlockChanges \<Rightarrow> bool" where
  "BlockChanges_Equals bc other =
     (if bch_Info bc \<noteq> bch_Info other \<or> length (bch_Ops bc) \<noteq> length (bch_Ops other) \<or>
         bch_sizeEstimate bc \<noteq> bch_sizeEstimate other
      then False else True)"

definition ShouldEmbedBlockChanges :: "BlockSplitterSimple \<Rightarrow> BlockChanges \<Rightarrow> bool" where
  "ShouldEmbedBlockChanges b bc \<longleftrightarrow> bch_sizeEstimate bc \<le> bs_blockChangeEmbedMaxSize b"

section \<open>Theorems\<close>

lemma byte_after_snoc: "byte_after (ws @ [w]) x = byte_step x (byte_after ws x) w"
  by (simp add: byte_after_def)

lemma collapseWriteRange_snoc:
  "collapseWriteRange (so\<lparr>so_Writes := ws @ [w]\<rparr>) writes =
     Option.bind (collapseWriteRange (so\<lparr>so_Writes := ws\<rparr>) writes) (\<lambda>ws. addToCollapsedWriteRange ws w)"
  by (simp add: collapseWriteRange_def)

lemma byte_step_not_Cut: "\<not> isTruncate w \<Longrightarrow> s \<noteq> Cut \<Longrightarrow> byte_step x s w \<noteq> Cut"
  by (simp add: byte_step_def cuts_def)

lemma byte_after_not_Cut:
  "(\<And>w. w \<in> set ws \<Longrightarrow> \<not> isTruncate w) \<Longrightarrow> byte_after ws x \<noteq> Cut"
  by (induction ws rule: rev_induct) (simp add: byte_after_def, simp add: byte_after_snoc byte_step_not_Cut)

text \<open>C31: collapsing the writes of a sync never panics and gives a collapsed list. What it reports
  as written or cut off is what the writes, done in order, leave; only bytes that a truncate cut off may
  be reported as untouched, and without truncates the report is exact.\<close>

theorem collapseWriteRange_correct:
  assumes "collapsed writes" and "\<forall>w\<in>set (so_Writes so). range_ok w"
  shows "\<exists>rs. collapseWriteRange so writes = Some rs \<and> collapsed rs \<and>
    (\<forall>x. byte_after rs x = byte_after (writes @ so_Writes so) x \<or>
         byte_after rs x = Clean \<and> byte_after (writes @ so_Writes so) x = Cut) \<and>
    ((\<forall>w\<in>set (writes @ so_Writes so). \<not> isTruncate w) \<longrightarrow>
       (\<forall>x. byte_after rs x = byte_after (writes @ so_Writes so) x))"
proof -
  have "\<exists>rs. collapseWriteRange (so\<lparr>so_Writes := ws\<rparr>) writes = Some rs \<and> collapsed rs \<and>
      (\<forall>x. byte_after rs x = byte_after (writes @ ws) x \<or> byte_after rs x = Clean \<and> byte_after (writes @ ws) x = Cut)"
    if "\<forall>w\<in>set ws. range_ok w" for ws
    using that
  proof (induction ws rule: rev_induct)
    case Nil
    then show ?case using assms(1) by (simp add: collapseWriteRange_def)
  next
    case (snoc w ws)
    then obtain rs where rs: "collapseWriteRange (so\<lparr>so_Writes := ws\<rparr>) writes = Some rs" "collapsed rs"
      and by1: "\<And>x. byte_after rs x = byte_after (writes @ ws) x \<or>
        byte_after rs x = Clean \<and> byte_after (writes @ ws) x = Cut"
      by auto
    have "range_ok w" using snoc.prems by simp
    from add_range_correct[OF rs(2) this] obtain rs' where
      rs': "addToCollapsedWriteRange rs w = Some rs'" "collapsed rs'"
      and by2: "\<And>x. byte_after rs' x = byte_after (rs @ [w]) x \<or>
        byte_after rs' x = Clean \<and> byte_after rs x = Cut \<and> \<not> isTruncate w \<and> x < woff w"
      by blast
    have "byte_after rs' x = byte_after (writes @ ws @ [w]) x \<or>
        byte_after rs' x = Clean \<and> byte_after (writes @ ws @ [w]) x = Cut" for x
      using by1[of x] by2[of x] byte_after_snoc[of rs w x] byte_after_snoc[of "writes @ ws" w x]
      by (auto simp: byte_step_def covers_def cuts_def)
    with rs rs' show ?case by (auto simp: collapseWriteRange_snoc)
  qed
  from this[OF assms(2)] obtain rs where rs: "collapseWriteRange so writes = Some rs" "collapsed rs"
    "\<And>x. byte_after rs x = byte_after (writes @ so_Writes so) x \<or>
       byte_after rs x = Clean \<and> byte_after (writes @ so_Writes so) x = Cut"
    by auto
  have "byte_after rs x = byte_after (writes @ so_Writes so) x"
    if "\<forall>w\<in>set (writes @ so_Writes so). \<not> isTruncate w" for x
    using rs(3)[of x] byte_after_not_Cut[of "writes @ so_Writes so" x] that by blast
  with rs show ?thesis by blast
qed

definition ex_sync :: syncOp where
  "ex_sync = \<lparr>so_OpCommon = zeroOpCommon, so_File = zeroUpdate,
     so_Writes = [\<lparr>wr_Off = 18, wr_Len = 10\<rparr>, \<lparr>wr_Off = 5, wr_Len = 20\<rparr>]\<rparr>"

theorem collapseWriteRange_correct_witness:
  "\<exists>rs. collapseWriteRange ex_sync [] = Some rs \<and> collapsed rs \<and>
     (\<forall>x. byte_after rs x = byte_after (so_Writes ex_sync) x)"
proof -
  have "\<forall>w\<in>set (so_Writes ex_sync). range_ok w" "\<forall>w\<in>set (so_Writes ex_sync). \<not> isTruncate w"
    by (simp_all add: ex_sync_def range_ok_def wend_def isTruncate_def)
  with collapseWriteRange_correct[of "[]" ex_sync] show ?thesis by (auto simp: collapsed_def)
qed

subsection \<open>Block updates\<close>

text \<open>An update that is added to an operation is among all its updates, and every update of another
  block stays.\<close>

theorem AddUpdate_recorded:
  assumes "oldPtr \<noteq> zeroPtr"
  shows "\<lparr>bu_Unref = oldPtr, bu_Ref = newPtr\<rparr> \<in> set (AllUpdates (op_AddUpdate o' oldPtr newPtr)) \<and>
    (\<forall>u\<in>set (AllUpdates o'). bu_Unref u \<noteq> oldPtr \<longrightarrow> u \<in> set (AllUpdates (op_AddUpdate o' oldPtr newPtr)))"
proof (cases o')
  case (RenameOp ro)
  have "\<lparr>bu_Unref = oldPtr, bu_Ref = newPtr\<rparr> \<noteq> zeroUpdate" using assms by (simp add: zeroUpdate_def)
  moreover obtain a b where "rn_NewDir ro = \<lparr>bu_Unref = a, bu_Ref = b\<rparr>" by (cases "rn_NewDir ro")
  ultimately show ?thesis
    using RenameOp by (auto simp: OpCommon_AddUpdate_def)
qed (auto simp: OpCommon_AddUpdate_def)

theorem AddUpdate_recorded_witness:
  "\<lparr>bu_Unref = zeroPtr\<lparr>bp_KeyGen := 1\<rparr>, bu_Ref = zeroPtr\<rparr> \<in>
     set (AllUpdates (op_AddUpdate (SyncOp ex_sync) (zeroPtr\<lparr>bp_KeyGen := 1\<rparr>) zeroPtr))"
  using AddUpdate_recorded[of "zeroPtr\<lparr>bp_KeyGen := 1\<rparr>" zeroPtr "SyncOp ex_sync"]
  by (simp add: zeroPtr_def)

definition swapUpdate :: "blockUpdate \<Rightarrow> blockUpdate" where
  "swapUpdate u = \<lparr>bu_Unref = bu_Ref u, bu_Ref = bu_Unref u\<rparr>"

abbreviation addSwapped :: "op \<Rightarrow> blockUpdate \<Rightarrow> op" where
  "addSwapped o' u \<equiv> op_AddUpdate o' (bu_Ref u) (bu_Unref u)"

text \<open>The blocks that an operation keeps the update of in a field of its own.\<close>

primrec primaryUnrefs :: "op \<Rightarrow> BlockPointer set" where
  "primaryUnrefs (CreateOp co) = {bu_Unref (co_Dir co)}"
| "primaryUnrefs (RmOp ro) = {bu_Unref (ro_Dir ro)}"
| "primaryUnrefs (RenameOp ro) = {bu_Unref (rn_OldDir ro), bu_Unref (rn_NewDir ro)}"
| "primaryUnrefs (SyncOp so) = {bu_Unref (so_File so)}"
| "primaryUnrefs (SetAttrOp sao) = {bu_Unref (sao_Dir sao)}"
| "primaryUnrefs (ResolutionOp c) = {}"
| "primaryUnrefs (RekeyOp c) = {}"
| "primaryUnrefs (GcOp gco) = {}"

definition addUpdates :: "blockUpdate list \<Rightarrow> OpCommon \<Rightarrow> OpCommon" where
  "addUpdates us c = c\<lparr>oc_Updates := oc_Updates c @ us\<rparr>"

lemma op_update_common_comp: "op_update_common f (op_update_common g o') = op_update_common (f \<circ> g) o'"
  by (cases o') simp_all

lemma primaryUnrefs_common [simp]: "primaryUnrefs (op_update_common f o') = primaryUnrefs o'"
  by (cases o') simp_all

lemma AddUpdate_other:
  "old \<notin> primaryUnrefs o' \<Longrightarrow> op_AddUpdate o' old new = op_update_common (OpCommon_AddUpdate old new) o'"
  by (cases o') simp_all

lemma addSwapped_others:
  assumes "\<And>u. u \<in> set us \<Longrightarrow> bu_Ref u \<notin> primaryUnrefs o'"
  shows "foldl addSwapped o' us = op_update_common (addUpdates (map swapUpdate us)) o'"
  using assms
proof (induction us arbitrary: o')
  case Nil
  then show ?case by (cases o') (simp_all add: addUpdates_def)
next
  case (Cons u us)
  have "foldl addSwapped o' (u # us) =
      foldl addSwapped (op_update_common (OpCommon_AddUpdate (bu_Ref u) (bu_Unref u)) o') us"
    using Cons.prems by (simp add: AddUpdate_other)
  also have "\<dots> = op_update_common (addUpdates (map swapUpdate us) \<circ> OpCommon_AddUpdate (bu_Ref u) (bu_Unref u)) o'"
    using Cons.prems by (subst Cons.IH) (simp_all add: op_update_common_comp)
  also have "addUpdates (map swapUpdate us) \<circ> OpCommon_AddUpdate (bu_Ref u) (bu_Unref u) =
      addUpdates (map swapUpdate (u # us))"
    by (auto simp: addUpdates_def OpCommon_AddUpdate_def swapUpdate_def)
  finally show ?case .
qed

lemma invert_primary:
  assumes "distinct (map bu_Ref (us @ [d]))" and "primaryUnrefs n = {bu_Ref d}"
    and "\<And>vs. AllUpdates (addSwapped (op_update_common (addUpdates vs) n) d) = vs @ [swapUpdate d]"
  shows "AllUpdates (foldl addSwapped n (us @ [d])) = map swapUpdate (us @ [d])"
proof -
  have "bu_Ref u \<notin> primaryUnrefs n" if "u \<in> set us" for u using assms(1,2) that by (auto simp: image_iff)
  from addSwapped_others[OF this] assms(3)[of "map swapUpdate us"] show ?thesis by simp
qed

lemmas invert_defs = newRmOp_def newCreateOp_def newRenameOp_def newSyncOp_def newSetAttrOp_def
  resetUpdateState_def zeroOpCommon_def zeroUpdate_def addUpdates_def swapUpdate_def

lemma invert_rename:
  assumes "distinct (map bu_Ref (us @ [dNew, dOld]))" and "bu_Ref dOld \<noteq> zeroPtr"
  shows "AllUpdates (foldl addSwapped (RenameOp (newRenameOp nn (bu_Ref dNew) on (bu_Ref dOld) re ty)) (us @ [dNew, dOld])) =
    map swapUpdate us @ [swapUpdate dOld, swapUpdate dNew]"
proof -
  let ?n = "RenameOp (newRenameOp nn (bu_Ref dNew) on (bu_Ref dOld) re ty)"
  have ne: "bu_Ref dNew \<noteq> bu_Ref dOld" using assms(1) by auto
  have "bu_Ref u \<notin> primaryUnrefs ?n" if "u \<in> set us" for u
    using assms(1) that ne by (auto simp: newRenameOp_def image_iff)
  from addSwapped_others[OF this] ne assms(2) show ?thesis
    by (auto simp: invert_defs)
qed

lemma invert_rename_same_dir:
  assumes "distinct (map bu_Ref (us @ [d]))" and "zeroPtr \<notin> bu_Ref ` set (us @ [d])"
  shows "AllUpdates (foldl addSwapped (RenameOp (newRenameOp nn zeroPtr on (bu_Ref d) re ty)) (us @ [d])) =
    map swapUpdate us @ [swapUpdate d, zeroUpdate]"
proof -
  let ?n = "RenameOp (newRenameOp nn zeroPtr on (bu_Ref d) re ty)"
  have "bu_Ref u \<notin> primaryUnrefs ?n" if "u \<in> set us" for u
    using assms that by (auto simp: newRenameOp_def zeroUpdate_def image_iff)
  from addSwapped_others[OF this] assms(2) show ?thesis
    by (auto simp: invert_defs)
qed

text \<open>C34: the inverse of an operation undoes exactly its block updates: its updates are those of the
  operation with old and new block swapped. The blocks the operation produced are assumed to be
  distinct and set, as they are in a committed update. Two kinds of operations have more updates in their inverse: that of a
  rename within one directory also has the empty update, and that of a \<open>gcOp\<close>, which is the operation itself,
  keeps the original updates and has the swapped ones after them.\<close>

theorem invert_reverses_updates:
  assumes "invertOpForLocalNotifications o' = Inr r"
    and "distinct (map bu_Ref (AllUpdates o'))" and "zeroPtr \<notin> bu_Ref ` set (AllUpdates o')"
  shows "mset (AllUpdates r) = image_mset swapUpdate (mset (AllUpdates o')) +
    (case o' of
       GcOp g \<Rightarrow> mset (AllUpdates o')
     | RenameOp ro \<Rightarrow> if rn_NewDir ro = zeroUpdate then {#zeroUpdate#} else {#}
     | _ \<Rightarrow> {#})"
proof (cases o')
  case (RenameOp ro)
  show ?thesis
  proof (cases "rn_NewDir ro = zeroUpdate")
    case True
    with RenameOp assms invert_rename_same_dir[of "oc_Updates (rn_OpCommon ro)" "rn_OldDir ro"] show ?thesis
      by (auto simp: invertOpForLocalNotifications_def zeroUpdate_def)
  next
    case False
    with RenameOp assms invert_rename[of "oc_Updates (rn_OpCommon ro)" "rn_NewDir ro" "rn_OldDir ro"] show ?thesis
      by (auto simp: invertOpForLocalNotifications_def)
  qed
next
  case (GcOp g)
  with assms(1) addSwapped_others[of "oc_Updates (gco_OpCommon g)" o'] show ?thesis
    by (auto simp: invertOpForLocalNotifications_def addUpdates_def)
next
  case (CreateOp co)
  then have "AllUpdates r = map swapUpdate (AllUpdates o')"
    using assms invert_primary[of "oc_Updates (co_OpCommon co)" "co_Dir co" "RmOp (newRmOp (co_NewName co) (bu_Ref (co_Dir co)))"]
    by (simp add: invertOpForLocalNotifications_def invert_defs)
  then show ?thesis by (simp add: CreateOp)
next
  case (RmOp ro)
  then have "AllUpdates r = map swapUpdate (AllUpdates o')"
    using assms invert_primary[of "oc_Updates (ro_OpCommon ro)" "ro_Dir ro" "CreateOp (newCreateOp (ro_OldName ro) (bu_Ref (ro_Dir ro)) File)"]
    by (simp add: invertOpForLocalNotifications_def invert_defs)
  then show ?thesis by (simp add: RmOp)
next
  case (SyncOp so)
  then have "AllUpdates r = map swapUpdate (AllUpdates o')"
    using assms invert_primary[of "oc_Updates (so_OpCommon so)" "so_File so"
        "SyncOp ((newSyncOp (bu_Ref (so_File so)))\<lparr>so_Writes := so_Writes so\<rparr>)"]
    by (simp add: invertOpForLocalNotifications_def invert_defs)
  then show ?thesis by (simp add: SyncOp)
next
  case (SetAttrOp sao)
  then have "AllUpdates r = map swapUpdate (AllUpdates o')"
    using assms invert_primary[of "oc_Updates (sao_OpCommon sao)" "sao_Dir sao"
        "SetAttrOp (newSetAttrOp (sao_Name sao) (bu_Ref (sao_Dir sao)) (sao_Attr sao) (sao_File sao))"]
    by (simp add: invertOpForLocalNotifications_def invert_defs)
  then show ?thesis by (simp add: SetAttrOp)
qed (use assms(1) in \<open>auto simp: invertOpForLocalNotifications_def\<close>)

definition ex_ptr :: "int \<Rightarrow> BlockPointer" where
  "ex_ptr n = zeroPtr\<lparr>bp_ID := BlockID (Hash [1]), bp_KeyGen := n\<rparr>"

lemma ex_ptr_eq [simp]:
  "ex_ptr m = ex_ptr n \<longleftrightarrow> m = n" "ex_ptr n \<noteq> zeroPtr" "zeroPtr \<noteq> ex_ptr n" "IsInitialized (ex_ptr n)"
  by (auto simp: ex_ptr_def zeroPtr_def IsInitialized_def)

definition ex_rename :: renameOp where
  "ex_rename = \<lparr>rn_OpCommon = zeroOpCommon, rn_OldName = ''a'', rn_OldDir = \<lparr>bu_Unref = ex_ptr 1, bu_Ref = ex_ptr 2\<rparr>,
     rn_NewName = ''b'', rn_NewDir = \<lparr>bu_Unref = ex_ptr 3, bu_Ref = ex_ptr 4\<rparr>, rn_Renamed = ex_ptr 5, rn_RenamedType = File\<rparr>"

definition ex_gc :: gcOp where
  "ex_gc = \<lparr>gco_OpCommon = zeroOpCommon\<lparr>oc_Updates := [\<lparr>bu_Unref = ex_ptr 1, bu_Ref = ex_ptr 2\<rparr>]\<rparr>, gco_LatestRev = 7\<rparr>"

theorem invert_reverses_updates_witness:
  "(\<exists>r. invertOpForLocalNotifications (RenameOp ex_rename) = Inr r \<and>
     mset (AllUpdates r) = {#\<lparr>bu_Unref = ex_ptr 2, bu_Ref = ex_ptr 1\<rparr>, \<lparr>bu_Unref = ex_ptr 4, bu_Ref = ex_ptr 3\<rparr>#}) \<and>
   (\<exists>r. invertOpForLocalNotifications (GcOp ex_gc) = Inr r \<and>
     mset (AllUpdates r) = {#\<lparr>bu_Unref = ex_ptr 1, bu_Ref = ex_ptr 2\<rparr>, \<lparr>bu_Unref = ex_ptr 2, bu_Ref = ex_ptr 1\<rparr>#})"
proof (rule conjI)
  obtain r where r: "invertOpForLocalNotifications (RenameOp ex_rename) = Inr r"
    by (simp add: invertOpForLocalNotifications_def)
  have nz: "rn_NewDir ex_rename \<noteq> zeroUpdate" using ex_ptr_eq(2)[of 3] by (simp add: ex_rename_def zeroUpdate_def)
  have "mset (AllUpdates r) = image_mset swapUpdate (mset (AllUpdates (RenameOp ex_rename)))"
    using invert_reverses_updates[OF r] nz ex_ptr_eq(2)[of 2] ex_ptr_eq(2)[of 4] by (auto simp: ex_rename_def zeroOpCommon_def)
  with r nz show "\<exists>r. invertOpForLocalNotifications (RenameOp ex_rename) = Inr r \<and>
     mset (AllUpdates r) = {#\<lparr>bu_Unref = ex_ptr 2, bu_Ref = ex_ptr 1\<rparr>, \<lparr>bu_Unref = ex_ptr 4, bu_Ref = ex_ptr 3\<rparr>#}"
    by (auto simp: ex_rename_def zeroOpCommon_def swapUpdate_def)
next
  obtain r where r: "invertOpForLocalNotifications (GcOp ex_gc) = Inr r"
    by (simp add: invertOpForLocalNotifications_def)
  with invert_reverses_updates[OF r] show "\<exists>r. invertOpForLocalNotifications (GcOp ex_gc) = Inr r \<and>
     mset (AllUpdates r) = {#\<lparr>bu_Unref = ex_ptr 1, bu_Ref = ex_ptr 2\<rparr>, \<lparr>bu_Unref = ex_ptr 2, bu_Ref = ex_ptr 1\<rparr>#}"
    by (auto simp: ex_gc_def swapUpdate_def)
qed

text \<open>The inverse of a rename within one directory is not a rename within one directory. Its old
  directory is the empty update and its new directory carries the reversed update, although a rename
  within a directory is the one whose new directory is empty.\<close>

theorem invert_same_dir_rename:
  assumes "rn_NewDir ro = zeroUpdate" and "bu_Ref (rn_OldDir ro) \<noteq> zeroPtr" and "oc_Updates (rn_OpCommon ro) = []"
  shows "\<exists>r. invertOpForLocalNotifications (RenameOp ro) = Inr (RenameOp r) \<and>
    rn_OldDir r = zeroUpdate \<and> rn_NewDir r = swapUpdate (rn_OldDir ro) \<and> rn_NewDir r \<noteq> zeroUpdate"
  using assms by (auto simp: invertOpForLocalNotifications_def newRenameOp_def zeroUpdate_def swapUpdate_def)

theorem invert_same_dir_rename_witness:
  "\<exists>r. invertOpForLocalNotifications (RenameOp (ex_rename\<lparr>rn_NewDir := zeroUpdate\<rparr>)) = Inr (RenameOp r) \<and>
     rn_OldDir r = zeroUpdate \<and> rn_NewDir r = \<lparr>bu_Unref = ex_ptr 2, bu_Ref = ex_ptr 1\<rparr>"
  using invert_same_dir_rename[of "ex_rename\<lparr>rn_NewDir := zeroUpdate\<rparr>"] ex_ptr_eq(2)[of 2]
  by (auto simp: ex_rename_def zeroOpCommon_def swapUpdate_def)

subsection \<open>Conflict checks\<close>

lemma path_two:
  assumes "2 \<le> length (p_path p)"
  shows "\<exists>n. tailName p = Some n" "\<exists>q ptr. parentPath p = Some q \<and> tailPointer q = Some ptr"
proof -
  have "p_path p \<noteq> []" "butlast (p_path p) \<noteq> []"
    using assms by (auto simp: length_0_conv[symmetric] simp del: length_0_conv)
  then show "\<exists>n. tailName p = Some n" "\<exists>q ptr. parentPath p = Some q \<and> tailPointer q = Some ptr"
    by (simp_all add: tailName_def parentPath_def tailPointer_def)
qed

text \<open>Checking an unmerged operation against a merged one is an error exactly for renames and
  never panics when both final paths lie below the root. Two operations of the same kind on a file always
  conflict: the unmerged file gets a new name in its own directory.\<close>

theorem CheckConflict_total:
  assumes "2 \<le> length (p_path (getFinalPath o'))" and "2 \<le> length (p_path (getFinalPath m))"
  shows "(case CheckConflict rename o' m of
            Inl (Panic e) \<Rightarrow> False
          | Inl (Error e) \<Rightarrow> (\<exists>ro. o' = RenameOp ro)
          | Inr a \<Rightarrow> \<not> (\<exists>ro. o' = RenameOp ro)) \<and>
    ((\<exists>so so'. o' = SyncOp so \<and> m = SyncOp so') \<or>
     (\<exists>sao sao'. o' = SetAttrOp sao \<and> m = SetAttrOp sao' \<and> sao_Attr sao = sao_Attr sao') \<longrightarrow>
       (\<exists>rua mn. CheckConflict rename o' m = Inr (Some (RenameUnmerged rua)) \<and>
          tailName (getFinalPath m) = Some mn \<and> rua_toName rua = rename o' mn \<and>
          Some (rua_fromName rua) = tailName (getFinalPath o') \<and>
          Some (rua_unmergedParentMostRecent rua) = Option.bind (parentPath (getFinalPath o')) tailPointer \<and>
          Some (rua_mergedParentMostRecent rua) = Option.bind (parentPath (getFinalPath m)) tailPointer))"
proof -
  obtain n q ptr where o: "tailName (getFinalPath o') = Some n" "parentPath (getFinalPath o') = Some q" "tailPointer q = Some ptr"
    using path_two[OF assms(1)] by blast
  obtain n' q' ptr' where m: "tailName (getFinalPath m) = Some n'" "parentPath (getFinalPath m) = Some q'" "tailPointer q' = Some ptr'"
    using path_two[OF assms(2)] by blast
  have ru: "renameUnmergedFile rename o' m = Inr (Some (RenameUnmerged \<lparr>rua_fromName = n, rua_toName = rename o' n',
      rua_symPath = [], rua_unmergedParentMostRecent = ptr, rua_mergedParentMostRecent = ptr'\<rparr>))"
    using o m by (simp add: renameUnmergedFile_def indexed_def)
  show ?thesis
    using o m ru
    by (cases o'; cases m)
      (auto simp: createOp_CheckConflict_def rmOp_CheckConflict_def syncOp_CheckConflict_def
        setAttrOp_CheckConflict_def indexed_def Let_def)
qed

definition ex_path :: path where
  "ex_path = zeroPath\<lparr>p_path := [\<lparr>pn_BlockPointer = ex_ptr 1, pn_Name = ''d''\<rparr>, \<lparr>pn_BlockPointer = ex_ptr 2, pn_Name = ''f''\<rparr>]\<rparr>"

theorem CheckConflict_total_witness:
  "\<exists>rua. CheckConflict (\<lambda>_ n. n @ ''~'') (setFinalPath (SyncOp ex_sync) ex_path) (setFinalPath (SyncOp ex_sync) ex_path) =
     Inr (Some (RenameUnmerged rua)) \<and> rua_toName rua = ''f~''"
  using CheckConflict_total[of "setFinalPath (SyncOp ex_sync) ex_path" "setFinalPath (SyncOp ex_sync) ex_path" "\<lambda>_ n. n @ ''~''"]
  by (auto simp: setFinalPath_def getFinalPath_def ex_path_def tailName_def)

end
