(* ===== verification/Kbfs_Cr_Chains.thy ===== *)
theory Kbfs_Cr_Chains
  imports Kbfs_Ops
begin

text \<open>
  libkbfs/cr\_chains.go: the chains of operations per node that conflict resolution builds from a list
  of metadata updates. A chain is reached through its original and through its most recent block
  pointer; both maps hold references to the same chain object, so the chains live in a store and the
  maps hold addresses.
\<close>

section \<open>One chain\<close>

record crChain =
  cc_ops :: "op list"
  cc_original :: BlockPointer
  cc_mostRecent :: BlockPointer

text \<open>
  The scan of \<open>collapse\<close>: the index of the last create per name, and the indices to remove. The loop
  variable is the index \<open>i\<close>.
\<close>

fun collapseScan :: "nat \<Rightarrow> op list \<Rightarrow> (string \<rightharpoonup> nat) \<Rightarrow> nat list \<Rightarrow> (string \<rightharpoonup> nat) \<times> nat list" where
  "collapseScan i [] createsSeen indicesToRemove = (createsSeen, indicesToRemove)"
| "collapseScan i (o' # ops) createsSeen indicesToRemove =
     (case o' of
        CreateOp realOp \<Rightarrow>
          (let rem = (case createsSeen (co_NewName realOp) of
                        Some prevCreateIndex \<Rightarrow>
                          if co_renamed realOp then prevCreateIndex # indicesToRemove else indicesToRemove
                      | None \<Rightarrow> indicesToRemove)
           in collapseScan (Suc i) ops (createsSeen(co_NewName realOp \<mapsto> i)) rem)
      | RmOp realOp \<Rightarrow>
          (case createsSeen (ro_OldName realOp) of
             Some prevCreateIndex \<Rightarrow>
               collapseScan (Suc i) ops (createsSeen(ro_OldName realOp := None))
                 (i # prevCreateIndex # indicesToRemove)
           | None \<Rightarrow> collapseScan (Suc i) ops createsSeen indicesToRemove)
      | _ \<Rightarrow> collapseScan (Suc i) ops createsSeen indicesToRemove)"

definition keepOps :: "op list \<Rightarrow> nat list \<Rightarrow> op list" where
  "keepOps ops indicesToRemove = map snd (filter (\<lambda>(i, _). i \<notin> set indicesToRemove) (enumerate 0 ops))"

definition crChain_collapse :: "crChain \<Rightarrow> crChain" where
  "crChain_collapse cc =
     (let (_, indicesToRemove) = collapseScan 0 (cc_ops cc) Map.empty []
      in if indicesToRemove \<noteq> [] then cc\<lparr>cc_ops := keepOps (cc_ops cc) indicesToRemove\<rparr> else cc)"

definition crChain_isFile :: "crChain \<Rightarrow> bool" where
  "crChain_isFile cc =
     (case cc_ops cc of
        [] \<Rightarrow> False
      | o' # _ \<Rightarrow> (case o' of SyncOp _ \<Rightarrow> True | SetAttrOp _ \<Rightarrow> True | _ \<Rightarrow> False))"

text \<open>\<open>None\<close> is a panic inside \<open>collapseWriteRange\<close>.\<close>

definition getCollapsedWriteRange :: "crChain \<Rightarrow> WriteRange list option" where
  "getCollapsedWriteRange cc =
     (if \<not> crChain_isFile cc then Some []
      else foldl (\<lambda>wr o'. case o' of
                            SyncOp so \<Rightarrow> Option.bind wr (collapseWriteRange so)
                          | _ \<Rightarrow> wr)
             (Some []) (cc_ops cc))"

text \<open>
  The conflicts of one unmerged operation with the operations of the merged chain, and the actions of
  the whole chain. A list element \<open>None\<close> is a nil action.
\<close>

definition conflictActions ::
  "(op \<Rightarrow> string \<Rightarrow> string) \<Rightarrow> op \<Rightarrow> op list \<Rightarrow> (op_error, crAction option list) result" where
  "conflictActions rename unmergedOp mergedOps =
     foldR (\<lambda>actions mergedOp.
       bindR (CheckConflict rename unmergedOp mergedOp) (\<lambda>action.
         Inr (case action of None \<Rightarrow> actions | Some a \<Rightarrow> actions @ [Some a])))
       [] mergedOps"

definition sameTruncate :: "WriteRange list \<Rightarrow> WriteRange list \<Rightarrow> bool" where
  "sameTruncate myWriteRange mergedWriteRange =
     (case (myWriteRange, mergedWriteRange) of
        ([w], [m]) \<Rightarrow> isTruncate w \<and> isTruncate m \<and> wr_Off w = wr_Off m
      | _ \<Rightarrow> False)"

definition isSyncOp :: "op \<Rightarrow> bool" where
  "isSyncOp o' = (case o' of SyncOp _ \<Rightarrow> True | _ \<Rightarrow> False)"

definition unmergedOpActions ::
  "(op \<Rightarrow> string \<Rightarrow> string) \<Rightarrow> path \<Rightarrow> crChain option \<Rightarrow> op \<Rightarrow> (op_error, crAction option list) result" where
  "unmergedOpActions rename mergedPath mergedChain unmergedOp =
     bindR (case mergedChain of None \<Rightarrow> Inr [] | Some mc \<Rightarrow> conflictActions rename unmergedOp (cc_ops mc))
       (\<lambda>conflicts.
          if conflicts \<noteq> [] then Inr conflicts
          else bindR (GetDefaultAction unmergedOp mergedPath) (\<lambda>action. Inr [action]))"

definition getActionsToMerge ::
  "(op \<Rightarrow> string \<Rightarrow> string) \<Rightarrow> path \<Rightarrow> crChain \<Rightarrow> crChain option \<Rightarrow> (op_error, crAction option list) result" where
  "getActionsToMerge rename mergedPath cc mergedChain =
     bindR (case mergedChain of
              None \<Rightarrow> Inr False
            | Some mc \<Rightarrow>
                if crChain_isFile cc then
                  bindR (indexed (getCollapsedWriteRange cc)) (\<lambda>myWriteRange.
                  bindR (indexed (getCollapsedWriteRange mc)) (\<lambda>mergedWriteRange.
                    Inr (sameTruncate myWriteRange mergedWriteRange)))
                else Inr False) (\<lambda>dropSyncs.
       (let dropped = (if dropSyncs then filter isSyncOp (cc_ops cc) else []);
            rest = (if dropSyncs then filter (\<lambda>o'. \<not> isSyncOp o') (cc_ops cc) else cc_ops cc)
        in foldR (\<lambda>actions unmergedOp.
             bindR (unmergedOpActions rename mergedPath mergedChain unmergedOp) (\<lambda>as. Inr (actions @ as)))
             (map (\<lambda>o'. Some (DropUnmerged \<lparr>dua_op = o'\<rparr>)) dropped) rest))"

section \<open>All chains\<close>

record renameInfo =
  ri_originalOldParent :: BlockPointer
  ri_oldName :: string
  ri_originalNewParent :: BlockPointer
  ri_newName :: string

text \<open>
  What the chains read of a \<open>RootMetadata\<close>. \<open>md_writerInfo\<close> is the answer of \<open>newWriterInfo\<close>, which asks
  the Keybase daemon: an error or the writer.
\<close>

record crMD =
  md_writerMetadataCopied :: bool
  md_writerInfo :: "string + writerInfo"
  md_cachedChangesPtr :: BlockPointer
  md_Ops :: "op list"
  md_rootPtr :: BlockPointer

text \<open>
  \<open>ccs_heap\<close> holds the chain objects; an address is an index into it and objects are only added. The
  maps to \<open>bool\<close> of the source are only ever set to true, so they are sets.
\<close>

record crChains =
  ccs_heap :: "crChain list"
  ccs_byOriginal :: "BlockPointer \<rightharpoonup> nat"
  ccs_byMostRecent :: "BlockPointer \<rightharpoonup> nat"
  ccs_originalRoot :: BlockPointer
  ccs_deletedOriginals :: "BlockPointer set"
  ccs_createdOriginals :: "BlockPointer set"
  ccs_renamedOriginals :: "BlockPointer \<rightharpoonup> renameInfo"
  ccs_blockChangePointers :: "BlockPointer set"
  ccs_toUnrefPointers :: "BlockPointer set"
  ccs_mostRecentMD :: "crMD option"
  ccs_originals :: "BlockPointer \<rightharpoonup> BlockPointer"

datatype crc_error =
    ChainNotFound BlockPointer
  | NewParentNotFound BlockPointer
  | OldParentNotFound BlockPointer
  | NoChainFoundError BlockPointer
  | NewOriginalExists BlockPointer
  | UnexpectedChainLength BlockPointer
  | UnknownOperation op
  | WriterInfoError string

definition chainAt :: "crChains \<Rightarrow> nat \<Rightarrow> crChain" where
  "chainAt ccs a = ccs_heap ccs ! a"

definition setChain :: "crChains \<Rightarrow> nat \<Rightarrow> crChain \<Rightarrow> crChains" where
  "setChain ccs a c = ccs\<lparr>ccs_heap := (ccs_heap ccs)[a := c]\<rparr>"

definition modifyOps :: "crChains \<Rightarrow> nat \<Rightarrow> (op list \<Rightarrow> op list) \<Rightarrow> crChains" where
  "modifyOps ccs a f = setChain ccs a ((chainAt ccs a)\<lparr>cc_ops := f (cc_ops (chainAt ccs a))\<rparr>)"

definition addOp :: "crChains \<Rightarrow> BlockPointer \<Rightarrow> op \<Rightarrow> (crc_error, crChains) result" where
  "addOp ccs ptr o' =
     (case ccs_byMostRecent ccs ptr of
        None \<Rightarrow> Inl (Error (ChainNotFound ptr))
      | Some a \<Rightarrow> Inr (modifyOps ccs a (\<lambda>ops. ops @ [o'])))"

text \<open>One round of the loop over \<open>AllUpdates\<close>.\<close>

definition applyUpdate :: "crChains \<Rightarrow> blockUpdate \<Rightarrow> crChains" where
  "applyUpdate ccs update =
     (let (ccs, a) =
        (case ccs_byMostRecent ccs (bu_Unref update) of
           Some a \<Rightarrow> (ccs, a)
         | None \<Rightarrow>
             (let a = length (ccs_heap ccs)
              in (ccs\<lparr>ccs_heap := ccs_heap ccs @
                        [\<lparr>cc_ops = [], cc_original = bu_Unref update, cc_mostRecent = zeroPtr\<rparr>],
                      ccs_byOriginal := (ccs_byOriginal ccs)(bu_Unref update \<mapsto> a)\<rparr>, a)));
          chain = chainAt ccs a;
          ccs = (if IsInitialized (cc_mostRecent chain)
                 then ccs\<lparr>ccs_byMostRecent := (ccs_byMostRecent ccs)(cc_mostRecent chain := None)\<rparr> else ccs);
          ccs = setChain ccs a (chain\<lparr>cc_mostRecent := bu_Ref update\<rparr>);
          ccs = ccs\<lparr>ccs_byMostRecent := (ccs_byMostRecent ccs)(bu_Ref update \<mapsto> a)\<rparr>
      in if cc_original chain \<noteq> bu_Ref update
         then ccs\<lparr>ccs_originals := (ccs_originals ccs)(bu_Ref update \<mapsto> cc_original chain)\<rparr> else ccs)"

definition addCreated :: "crChains \<Rightarrow> BlockPointer \<Rightarrow> crChains" where
  "addCreated ccs ptr = ccs\<lparr>ccs_createdOriginals := insert ptr (ccs_createdOriginals ccs)\<rparr>"

definition addDeleted :: "crChains \<Rightarrow> BlockPointer \<Rightarrow> crChains" where
  "addDeleted ccs ptr =
     (let original = (case ccs_byMostRecent ccs ptr of
                        Some a \<Rightarrow> cc_original (chainAt ccs a) | None \<Rightarrow> ptr)
      in ccs\<lparr>ccs_deletedOriginals := insert original (ccs_deletedOriginals ccs)\<rparr>)"

text \<open>
  A rename is split into a remove, possibly a second remove for an overwritten entry, and a create.
  \<open>recordRename\<close> is the end of that branch: the create operation is a reference, so the block that is
  added to it is added to the operation that is already the last one of the new parent's chain.
\<close>

definition recordRename :: "crChains \<Rightarrow> renameOp \<Rightarrow> BlockPointer \<Rightarrow> (crc_error, crChains) result" where
  "recordRename ccs realOp ndr =
     (case ccs_byMostRecent ccs ndr of
        None \<Rightarrow> Inl (Error (NewParentNotFound ndr))
      | Some newParent \<Rightarrow>
     (case ccs_byMostRecent ccs (bu_Ref (rn_OldDir realOp)) of
        None \<Rightarrow> Inl (Error (OldParentNotFound ndr))
      | Some oldParent \<Rightarrow>
          (let renamedOriginal = (case ccs_byMostRecent ccs (rn_Renamed realOp) of
                                    Some a \<Rightarrow> cc_original (chainAt ccs a)
                                  | None \<Rightarrow> rn_Renamed realOp);
               ri = (case ccs_renamedOriginals ccs renamedOriginal of
                       Some ri \<Rightarrow> ri
                     | None \<Rightarrow> \<lparr>ri_originalOldParent = cc_original (chainAt ccs oldParent),
                                 ri_oldName = rn_OldName realOp,
                                 ri_originalNewParent = zeroPtr, ri_newName = []\<rparr>);
               ri = ri\<lparr>ri_originalNewParent := cc_original (chainAt ccs newParent),
                       ri_newName := rn_NewName realOp\<rparr>;
               ccs = ccs\<lparr>ccs_renamedOriginals := (ccs_renamedOriginals ccs)(renamedOriginal \<mapsto> ri)\<rparr>
           in Inr (modifyOps ccs newParent
                (\<lambda>ops. butlast ops @ [op_AddRefBlock (last ops) renamedOriginal])))))"

definition splitRename :: "crChains \<Rightarrow> renameOp \<Rightarrow> (crc_error, crChains) result" where
  "splitRename ccs realOp =
     (let winfo = getWriterInfo (RenameOp realOp);
          ro = setWriterInfo (RmOp ((newRmOp (rn_OldName realOp) (bu_Unref (rn_OldDir realOp)))
                 \<lparr>ro_Dir := rn_OldDir realOp\<rparr>)) winfo;
          nd = (if rn_NewDir realOp = zeroUpdate then rn_OldDir realOp else rn_NewDir realOp);
          ndu = bu_Unref nd;
          ndr = bu_Ref nd;
          roOverwrite = foldl op_AddUnrefBlock
            (setWriterInfo (RmOp ((newRmOp (rn_NewName realOp) ndu)
               \<lparr>ro_Dir := \<lparr>bu_Unref = ndu, bu_Ref = ndr\<rparr>\<rparr>)) winfo)
            (Unrefs (RenameOp realOp));
          co = setWriterInfo (CreateOp ((newCreateOp (rn_NewName realOp) ndu (rn_RenamedType realOp))
                 \<lparr>co_renamed := True, co_Dir := \<lparr>bu_Unref = ndu, bu_Ref = ndr\<rparr>\<rparr>)) winfo
      in bindR (addOp ccs (bu_Ref (rn_OldDir realOp)) ro) (\<lambda>ccs.
         bindR (if Unrefs (RenameOp realOp) \<noteq> [] then addOp ccs ndr roOverwrite else Inr ccs) (\<lambda>ccs.
         bindR (addOp ccs ndr co) (\<lambda>ccs.
         if IsInitialized (rn_Renamed realOp) then recordRename ccs realOp ndr else Inr ccs))))"

definition addSetAttr :: "crChains \<Rightarrow> setAttrOp \<Rightarrow> (crc_error, crChains) result" where
  "addSetAttr ccs realOp =
     (let ccs = (case ccs_byMostRecent ccs (sao_File realOp) of
                   Some _ \<Rightarrow> ccs
                 | None \<Rightarrow>
                     (let a = length (ccs_heap ccs)
                      in ccs\<lparr>ccs_heap := ccs_heap ccs @
                               [\<lparr>cc_ops = [], cc_original = sao_File realOp, cc_mostRecent = sao_File realOp\<rparr>],
                             ccs_byOriginal := (ccs_byOriginal ccs)(sao_File realOp \<mapsto> a),
                             ccs_byMostRecent := (ccs_byMostRecent ccs)(sao_File realOp \<mapsto> a)\<rparr>))
      in addOp ccs (sao_File realOp) (SetAttrOp realOp))"

definition makeChainForOp :: "crChains \<Rightarrow> op \<Rightarrow> (crc_error, crChains) result" where
  "makeChainForOp ccs o' =
     (let ccs = foldl applyUpdate ccs (AllUpdates o');
          ccs = foldl addCreated ccs (Refs o');
          ccs = foldl addDeleted ccs (Unrefs o')
      in case o' of
           CreateOp realOp \<Rightarrow> addOp ccs (bu_Ref (co_Dir realOp)) o'
         | RmOp realOp \<Rightarrow> addOp ccs (bu_Ref (ro_Dir realOp)) o'
         | RenameOp realOp \<Rightarrow> splitRename ccs realOp
         | SyncOp realOp \<Rightarrow> addOp ccs (bu_Ref (so_File realOp)) o'
         | SetAttrOp realOp \<Rightarrow> addSetAttr ccs realOp
         | _ \<Rightarrow> Inr ccs)"

subsection \<open>Operations without pointers\<close>

text \<open>The update that an operation keeps in a field of its own, read and written.\<close>

primrec opUpdate :: "op \<Rightarrow> blockUpdate" where
  "opUpdate (CreateOp co) = co_Dir co"
| "opUpdate (RmOp ro) = ro_Dir ro"
| "opUpdate (RenameOp ro) = rn_NewDir ro"
| "opUpdate (SyncOp so) = so_File so"
| "opUpdate (SetAttrOp sao) = sao_Dir sao"
| "opUpdate (ResolutionOp c) = zeroUpdate"
| "opUpdate (RekeyOp c) = zeroUpdate"
| "opUpdate (GcOp gco) = zeroUpdate"

primrec setOpUpdate :: "op \<Rightarrow> blockUpdate \<Rightarrow> op" where
  "setOpUpdate (CreateOp co) u = CreateOp (co\<lparr>co_Dir := u\<rparr>)"
| "setOpUpdate (RmOp ro) u = RmOp (ro\<lparr>ro_Dir := u\<rparr>)"
| "setOpUpdate (RenameOp ro) u = RenameOp (ro\<lparr>rn_NewDir := u\<rparr>)"
| "setOpUpdate (SyncOp so) u = SyncOp (so\<lparr>so_File := u\<rparr>)"
| "setOpUpdate (SetAttrOp sao) u = SetAttrOp (sao\<lparr>sao_Dir := u\<rparr>)"
| "setOpUpdate (ResolutionOp c) u = ResolutionOp c"
| "setOpUpdate (RekeyOp c) u = RekeyOp c"
| "setOpUpdate (GcOp gco) u = GcOp gco"

text \<open>
  The operation is a reference: when the deferred function resets its update, the operation that was
  just appended to a chain changes with it. The new state of the operation is returned first.
\<close>

definition makeChainForNewOpWithUpdate ::
  "crChains \<Rightarrow> BlockPointer \<Rightarrow> op \<Rightarrow> op \<times> (crc_error, crChains) result" where
  "makeChainForNewOpWithUpdate ccs targetPtr newOp =
     (let oldUnref = bu_Unref (opUpdate newOp);
          during = setOpUpdate newOp \<lparr>bu_Unref = targetPtr, bu_Ref = targetPtr\<rparr>;
          after = setOpUpdate newOp \<lparr>bu_Unref = oldUnref, bu_Ref = zeroPtr\<rparr>;
          chainPtr = (case newOp of SetAttrOp sao \<Rightarrow> sao_File sao | _ \<Rightarrow> targetPtr)
      in (after, bindR (makeChainForOp ccs during) (\<lambda>ccs.
            Inr (case ccs_byMostRecent ccs chainPtr of
                   None \<Rightarrow> ccs
                 | Some a \<Rightarrow> modifyOps ccs a (\<lambda>ops. butlast ops @ [after])))))"

definition makeChainForNewOp :: "crChains \<Rightarrow> BlockPointer \<Rightarrow> op \<Rightarrow> op \<times> (crc_error, crChains) result" where
  "makeChainForNewOp ccs targetPtr newOp =
     (case newOp of
        CreateOp _ \<Rightarrow> makeChainForNewOpWithUpdate ccs targetPtr newOp
      | RmOp _ \<Rightarrow> makeChainForNewOpWithUpdate ccs targetPtr newOp
      | SetAttrOp _ \<Rightarrow> makeChainForNewOpWithUpdate ccs targetPtr newOp
      | SyncOp _ \<Rightarrow> makeChainForNewOpWithUpdate ccs targetPtr newOp
      | RenameOp realOp \<Rightarrow>
          (let co = CreateOp (newCreateOp (rn_NewName realOp) (bu_Unref (rn_NewDir realOp)) File)
           in (newOp,
               bindR (snd (makeChainForNewOpWithUpdate ccs targetPtr co)) (\<lambda>ccs.
                 case ccs_byMostRecent ccs targetPtr of
                   None \<Rightarrow> Inl (Error (ChainNotFound targetPtr))
                 | Some a \<Rightarrow>
                     if length (cc_ops (chainAt ccs a)) \<noteq> 1 then Inl (Error (UnexpectedChainLength targetPtr))
                     else Inr (modifyOps ccs a (\<lambda>_. [RenameOp realOp])))))
      | _ \<Rightarrow> (newOp, Inl (Error (UnknownOperation newOp))))"

subsection \<open>Lookups\<close>

definition mostRecentFromOriginal :: "crChains \<Rightarrow> BlockPointer \<Rightarrow> (crc_error, BlockPointer) result" where
  "mostRecentFromOriginal ccs original =
     (case ccs_byOriginal ccs original of
        None \<Rightarrow> Inl (Error (NoChainFoundError original))
      | Some a \<Rightarrow> Inr (cc_mostRecent (chainAt ccs a)))"

definition mostRecentFromOriginalOrSame :: "crChains \<Rightarrow> BlockPointer \<Rightarrow> (crc_error, BlockPointer) result" where
  "mostRecentFromOriginalOrSame ccs original =
     (case mostRecentFromOriginal ccs original of
        Inr ptr \<Rightarrow> Inr ptr
      | Inl (Error (NoChainFoundError _)) \<Rightarrow> Inr original
      | Inl e \<Rightarrow> Inl e)"

definition originalFromMostRecent :: "crChains \<Rightarrow> BlockPointer \<Rightarrow> (crc_error, BlockPointer) result" where
  "originalFromMostRecent ccs mostRecent =
     (case ccs_byMostRecent ccs mostRecent of
        None \<Rightarrow> Inl (Error (NoChainFoundError mostRecent))
      | Some a \<Rightarrow> Inr (cc_original (chainAt ccs a)))"

definition originalFromMostRecentOrSame :: "crChains \<Rightarrow> BlockPointer \<Rightarrow> (crc_error, BlockPointer) result" where
  "originalFromMostRecentOrSame ccs mostRecent =
     (case originalFromMostRecent ccs mostRecent of
        Inr ptr \<Rightarrow> Inr ptr
      | Inl (Error (NoChainFoundError _)) \<Rightarrow> Inr mostRecent
      | Inl e \<Rightarrow> Inl e)"

definition isCreated :: "crChains \<Rightarrow> BlockPointer \<Rightarrow> bool" where
  "isCreated ccs original \<longleftrightarrow> original \<in> ccs_createdOriginals ccs"

definition isDeleted :: "crChains \<Rightarrow> BlockPointer \<Rightarrow> bool" where
  "isDeleted ccs original \<longleftrightarrow> original \<in> ccs_deletedOriginals ccs"

definition renamedParentAndName :: "crChains \<Rightarrow> BlockPointer \<Rightarrow> (BlockPointer \<times> string) option" where
  "renamedParentAndName ccs original =
     (case ccs_renamedOriginals ccs original of
        None \<Rightarrow> None | Some info \<Rightarrow> Some (ri_originalNewParent info, ri_newName info))"

subsection \<open>Building and changing the chains\<close>

definition newCRChainsEmpty :: crChains where
  "newCRChainsEmpty =
     \<lparr>ccs_heap = [], ccs_byOriginal = Map.empty, ccs_byMostRecent = Map.empty, ccs_originalRoot = zeroPtr,
      ccs_deletedOriginals = {}, ccs_createdOriginals = {}, ccs_renamedOriginals = Map.empty,
      ccs_blockChangePointers = {}, ccs_toUnrefPointers = {}, ccs_mostRecentMD = None, ccs_originals = Map.empty\<rparr>"

definition addMD :: "crChains \<Rightarrow> crMD \<Rightarrow> (crc_error, crChains) result" where
  "addMD ccs rmd =
     (if md_writerMetadataCopied rmd then Inr ccs
      else case md_writerInfo rmd of
             Inl e \<Rightarrow> Inl (Error (WriterInfoError e))
           | Inr winfo \<Rightarrow>
               (let ptr = md_cachedChangesPtr rmd;
                    ccs = (if ptr \<noteq> zeroPtr
                           then ccs\<lparr>ccs_blockChangePointers := insert ptr (ccs_blockChangePointers ccs)\<rparr> else ccs)
                in bindR (foldR (\<lambda>ccs o'. makeChainForOp ccs (setWriterInfo o' winfo)) ccs (md_Ops rmd)) (\<lambda>ccs.
                     Inr (if \<not> IsInitialized (ccs_originalRoot ccs) then
                            (case ccs_byMostRecent ccs (md_rootPtr rmd) of
                               Some a \<Rightarrow> ccs\<lparr>ccs_originalRoot := cc_original (chainAt ccs a)\<rparr>
                             | None \<Rightarrow> ccs)
                          else ccs))))"

text \<open>
  The loop over \<open>byOriginal\<close> collapses the chains it holds, in any order. A chain is in \<open>byOriginal\<close>
  exactly when it is found there under its own original (\<open>byOriginal_original\<close> below).
\<close>

definition collapseAll :: "crChains \<Rightarrow> crChains" where
  "collapseAll ccs =
     ccs\<lparr>ccs_heap := map (\<lambda>(a, c). if ccs_byOriginal ccs (cc_original c) = Some a then crChain_collapse c else c)
       (enumerate 0 (ccs_heap ccs))\<rparr>"

definition newCRChains :: "crMD list \<Rightarrow> (crc_error, crChains) result" where
  "newCRChains rmds =
     bindR (foldR addMD newCRChainsEmpty rmds) (\<lambda>ccs.
       let ccs = collapseAll ccs
       in Inr (if rmds \<noteq> [] then ccs\<lparr>ccs_mostRecentMD := Some (last rmds)\<rparr> else ccs))"

definition removeChain :: "crChains \<Rightarrow> BlockPointer \<Rightarrow> crChains" where
  "removeChain ccs ptr =
     ccs\<lparr>ccs_byOriginal := (ccs_byOriginal ccs)(ptr := None), ccs_byMostRecent := (ccs_byMostRecent ccs)(ptr := None)\<rparr>"

definition revertPtr :: "crChains \<Rightarrow> BlockPointer \<Rightarrow> BlockPointer" where
  "revertPtr ccs ptr = (case ccs_originals ccs ptr of Some original \<Rightarrow> original | None \<Rightarrow> ptr)"

text \<open>The source returns a nil operation for the two kinds it does not list: \<open>None\<close>.\<close>

definition copyOpAndRevertUnrefsToOriginals :: "crChains \<Rightarrow> op \<Rightarrow> op option" where
  "copyOpAndRevertUnrefsToOriginals ccs currOp =
     (let rev = (\<lambda>u. u\<lparr>bu_Unref := revertPtr ccs (bu_Unref u)\<rparr>) in
      case currOp of
        CreateOp o' \<Rightarrow> Some (CreateOp (o'\<lparr>co_Dir := rev (co_Dir o')\<rparr>))
      | RmOp o' \<Rightarrow> Some (RmOp (o'\<lparr>ro_Dir := rev (ro_Dir o')\<rparr>))
      | RenameOp o' \<Rightarrow>
          Some (RenameOp (o'\<lparr>rn_OldDir := rev (rn_OldDir o'), rn_NewDir := rev (rn_NewDir o'),
            rn_Renamed := revertPtr ccs (rn_Renamed o')\<rparr>))
      | SyncOp o' \<Rightarrow> Some (SyncOp (o'\<lparr>so_File := rev (so_File o')\<rparr>))
      | SetAttrOp o' \<Rightarrow>
          Some (SetAttrOp (o'\<lparr>sao_Dir := rev (sao_Dir o'), sao_File := revertPtr ccs (sao_File o')\<rparr>))
      | GcOp o' \<Rightarrow> Some (GcOp o')
      | _ \<Rightarrow> None)"

definition moveKey :: "BlockPointer \<Rightarrow> BlockPointer \<Rightarrow> BlockPointer set \<Rightarrow> BlockPointer set" where
  "moveKey old new S = (if old \<in> S then insert new (S - {old}) else S)"

definition changeOriginal ::
  "crChains \<Rightarrow> BlockPointer \<Rightarrow> BlockPointer \<Rightarrow> (crc_error, crChains) result" where
  "changeOriginal ccs oldOriginal newOriginal =
     (case ccs_byOriginal ccs oldOriginal of
        None \<Rightarrow> Inl (Error (NoChainFoundError oldOriginal))
      | Some a \<Rightarrow>
          if ccs_byOriginal ccs newOriginal \<noteq> None then Inl (Error (NewOriginalExists newOriginal))
          else
            (let chain = (chainAt ccs a)\<lparr>cc_original := newOriginal\<rparr>;
                 ccs = setChain ccs a chain;
                 ccs = ccs\<lparr>ccs_byOriginal := (ccs_byOriginal ccs)(oldOriginal := None, newOriginal \<mapsto> a),
                           ccs_originals := (ccs_originals ccs)(oldOriginal \<mapsto> newOriginal)\<rparr>;
                 ccs = (if cc_mostRecent chain = oldOriginal then
                          (setChain ccs a (chain\<lparr>cc_mostRecent := newOriginal\<rparr>))
                            \<lparr>ccs_byMostRecent := (ccs_byMostRecent ccs)(oldOriginal := None, newOriginal \<mapsto> a)\<rparr>
                        else ccs)
             in Inr (ccs\<lparr>ccs_deletedOriginals := moveKey oldOriginal newOriginal (ccs_deletedOriginals ccs),
                        ccs_createdOriginals := moveKey oldOriginal newOriginal (ccs_createdOriginals ccs),
                        ccs_renamedOriginals :=
                          (case ccs_renamedOriginals ccs oldOriginal of
                             Some ri \<Rightarrow> (ccs_renamedOriginals ccs)(oldOriginal := None, newOriginal \<mapsto> ri)
                           | None \<Rightarrow> ccs_renamedOriginals ccs)\<rparr>)))"

section \<open>The two indices agree\<close>

definition chains_wf :: "crChains \<Rightarrow> bool" where
  "chains_wf ccs \<longleftrightarrow>
     (\<forall>p a. ccs_byOriginal ccs p = Some a \<longrightarrow>
        a < length (ccs_heap ccs) \<and> cc_original (chainAt ccs a) = p \<and>
        ccs_byMostRecent ccs (cc_mostRecent (chainAt ccs a)) = Some a) \<and>
     (\<forall>p a. ccs_byMostRecent ccs p = Some a \<longrightarrow>
        a < length (ccs_heap ccs) \<and> cc_mostRecent (chainAt ccs a) = p \<and>
        ccs_byOriginal ccs (cc_original (chainAt ccs a)) = Some a)"

text \<open>An update that continues a chain at its end, or starts one at a pointer not seen before.\<close>

definition update_ok :: "crChains \<Rightarrow> blockUpdate \<Rightarrow> bool" where
  "update_ok ccs u \<longleftrightarrow>
     (IsInitialized (bu_Unref u) \<or> bu_Ref u = bu_Unref u) \<and>
     (ccs_byMostRecent ccs (bu_Ref u) = None \<or> bu_Ref u = bu_Unref u) \<and>
     (ccs_byMostRecent ccs (bu_Unref u) = None \<longrightarrow> ccs_byOriginal ccs (bu_Unref u) = None)"

lemma chains_wfD1:
  "chains_wf ccs \<Longrightarrow> ccs_byOriginal ccs p = Some a \<Longrightarrow>
     a < length (ccs_heap ccs) \<and> cc_original (chainAt ccs a) = p \<and>
     ccs_byMostRecent ccs (cc_mostRecent (chainAt ccs a)) = Some a"
  by (simp add: chains_wf_def)

lemma chains_wfD2:
  "chains_wf ccs \<Longrightarrow> ccs_byMostRecent ccs p = Some a \<Longrightarrow>
     a < length (ccs_heap ccs) \<and> cc_mostRecent (chainAt ccs a) = p \<and>
     ccs_byOriginal ccs (cc_original (chainAt ccs a)) = Some a"
  by (simp add: chains_wf_def)

lemma byOriginal_original:
  assumes "chains_wf ccs"
  shows "a \<in> ran (ccs_byOriginal ccs) \<longleftrightarrow> ccs_byOriginal ccs (cc_original (chainAt ccs a)) = Some a"
  using chains_wfD1[OF assms] by (auto simp: ran_def)

text \<open>Only the two maps and the end points of the chains matter.\<close>

lemma chains_wf_cong:
  assumes "ccs_byOriginal ccs' = ccs_byOriginal ccs" and "ccs_byMostRecent ccs' = ccs_byMostRecent ccs"
    and "length (ccs_heap ccs') = length (ccs_heap ccs)"
    and "\<And>a. a < length (ccs_heap ccs) \<Longrightarrow> cc_original (chainAt ccs' a) = cc_original (chainAt ccs a) \<and>
      cc_mostRecent (chainAt ccs' a) = cc_mostRecent (chainAt ccs a)"
    and wf: "chains_wf ccs"
  shows "chains_wf ccs'"
  unfolding chains_wf_def assms(1-3)
proof (intro conjI allI impI)
  fix p a assume "ccs_byOriginal ccs p = Some a"
  from chains_wfD1[OF wf this] assms(4)[of a]
  show "a < length (ccs_heap ccs)" "cc_original (chainAt ccs' a) = p"
    "ccs_byMostRecent ccs (cc_mostRecent (chainAt ccs' a)) = Some a" by auto
next
  fix p a assume "ccs_byMostRecent ccs p = Some a"
  from chains_wfD2[OF wf this] assms(4)[of a]
  show "a < length (ccs_heap ccs)" "cc_mostRecent (chainAt ccs' a) = p"
    "ccs_byOriginal ccs (cc_original (chainAt ccs' a)) = Some a" by auto
qed

lemma modifyOps_simps [simp]:
  "ccs_byOriginal (modifyOps ccs a f) = ccs_byOriginal ccs"
  "ccs_byMostRecent (modifyOps ccs a f) = ccs_byMostRecent ccs"
  "ccs_originals (modifyOps ccs a f) = ccs_originals ccs"
  "length (ccs_heap (modifyOps ccs a f)) = length (ccs_heap ccs)"
  by (simp_all add: modifyOps_def setChain_def)

lemma chainAt_setChain:
  "chainAt (setChain ccs a c) b = (if b = a \<and> a < length (ccs_heap ccs) then c else chainAt ccs b)"
  by (cases "a < length (ccs_heap ccs)") (simp_all add: setChain_def chainAt_def nth_list_update list_update_beyond)

lemma chainAt_modifyOps [simp]:
  "cc_original (chainAt (modifyOps ccs a f) b) = cc_original (chainAt ccs b)"
  "cc_mostRecent (chainAt (modifyOps ccs a f) b) = cc_mostRecent (chainAt ccs b)"
  by (simp_all add: modifyOps_def chainAt_setChain)

lemma chains_wf_modifyOps [simp]: "chains_wf ccs \<Longrightarrow> chains_wf (modifyOps ccs a f)"
  by (rule chains_wf_cong[of _ ccs]) simp_all

lemma applyUpdate_known:
  assumes "ccs_byMostRecent ccs (bu_Unref u) = Some a" "chains_wf ccs" "update_ok ccs u"
  shows "ccs_byOriginal (applyUpdate ccs u) = ccs_byOriginal ccs"
    "ccs_byMostRecent (applyUpdate ccs u) = (ccs_byMostRecent ccs)(bu_Unref u := None, bu_Ref u \<mapsto> a)"
    "ccs_heap (applyUpdate ccs u) = (ccs_heap ccs)[a := (chainAt ccs a)\<lparr>cc_mostRecent := bu_Ref u\<rparr>]"
    "ccs_originals (applyUpdate ccs u) = (if cc_original (chainAt ccs a) \<noteq> bu_Ref u
       then (ccs_originals ccs)(bu_Ref u \<mapsto> cc_original (chainAt ccs a)) else ccs_originals ccs)"
  using assms chains_wfD2[OF assms(2,1)]
  by (auto simp: applyUpdate_def Let_def setChain_def update_ok_def chainAt_def)

lemma applyUpdate_new:
  assumes "ccs_byMostRecent ccs (bu_Unref u) = None"
  shows "ccs_byOriginal (applyUpdate ccs u) = (ccs_byOriginal ccs)(bu_Unref u \<mapsto> length (ccs_heap ccs))"
    "ccs_byMostRecent (applyUpdate ccs u) = (ccs_byMostRecent ccs)(bu_Ref u \<mapsto> length (ccs_heap ccs))"
    "ccs_heap (applyUpdate ccs u) =
       ccs_heap ccs @ [\<lparr>cc_ops = [], cc_original = bu_Unref u, cc_mostRecent = bu_Ref u\<rparr>]"
    "ccs_originals (applyUpdate ccs u) = (if bu_Unref u \<noteq> bu_Ref u
       then (ccs_originals ccs)(bu_Ref u \<mapsto> bu_Unref u) else ccs_originals ccs)"
  using assms by (simp_all add: applyUpdate_def Let_def setChain_def chainAt_def)

lemma applyUpdate_wf:
  assumes wf: "chains_wf ccs" and ok: "update_ok ccs u"
  shows "chains_wf (applyUpdate ccs u)"
proof (cases "ccs_byMostRecent ccs (bu_Unref u)")
  case None
  note new = applyUpdate_new[OF None]
  have at: "chainAt (applyUpdate ccs u) b = (if b = length (ccs_heap ccs)
      then \<lparr>cc_ops = [], cc_original = bu_Unref u, cc_mostRecent = bu_Ref u\<rparr> else chainAt ccs b)"
    if "b \<le> length (ccs_heap ccs)" for b
    using that by (simp add: chainAt_def new nth_append)
  have fresh: "ccs_byMostRecent ccs (bu_Ref u) = None" "ccs_byOriginal ccs (bu_Unref u) = None"
    using ok None by (auto simp: update_ok_def)
  show ?thesis
    unfolding chains_wf_def new(1,2)
  proof (intro conjI allI impI)
    fix p b assume "((ccs_byOriginal ccs)(bu_Unref u \<mapsto> length (ccs_heap ccs))) p = Some b"
    then have "b = length (ccs_heap ccs) \<and> p = bu_Unref u \<or> p \<noteq> bu_Unref u \<and> ccs_byOriginal ccs p = Some b"
      by (auto split: if_splits)
    with chains_wfD1[OF wf, of p b] fresh
    show "b < length (ccs_heap (applyUpdate ccs u))" "cc_original (chainAt (applyUpdate ccs u) b) = p"
      "((ccs_byMostRecent ccs)(bu_Ref u \<mapsto> length (ccs_heap ccs))) (cc_mostRecent (chainAt (applyUpdate ccs u) b)) = Some b"
      by (auto simp: at new(3) less_imp_le_nat)
  next
    fix p b assume "((ccs_byMostRecent ccs)(bu_Ref u \<mapsto> length (ccs_heap ccs))) p = Some b"
    then have "b = length (ccs_heap ccs) \<and> p = bu_Ref u \<or> p \<noteq> bu_Ref u \<and> ccs_byMostRecent ccs p = Some b"
      by (auto split: if_splits)
    with chains_wfD2[OF wf, of p b] fresh
    show "b < length (ccs_heap (applyUpdate ccs u))" "cc_mostRecent (chainAt (applyUpdate ccs u) b) = p"
      "((ccs_byOriginal ccs)(bu_Unref u \<mapsto> length (ccs_heap ccs))) (cc_original (chainAt (applyUpdate ccs u) b)) = Some b"
      by (auto simp: at new(3) less_imp_le_nat)
  qed
next
  case (Some a)
  note known = applyUpdate_known[OF Some wf ok]
  note wa = chains_wfD2[OF wf Some]
  have at: "chainAt (applyUpdate ccs u) b = (if b = a then (chainAt ccs a)\<lparr>cc_mostRecent := bu_Ref u\<rparr> else chainAt ccs b)" for b
    using wa by (simp add: chainAt_def known nth_list_update)
  have fresh: "ccs_byMostRecent ccs (bu_Ref u) = None \<or> bu_Ref u = bu_Unref u"
    using ok by (auto simp: update_ok_def)
  show ?thesis
    unfolding chains_wf_def known(1,2)
  proof (intro conjI allI impI)
    fix p b assume b: "ccs_byOriginal ccs p = Some b"
    note wb = chains_wfD1[OF wf b]
    show "b < length (ccs_heap (applyUpdate ccs u))" "cc_original (chainAt (applyUpdate ccs u) b) = p"
      using wb by (auto simp: at known(3))
    show "((ccs_byMostRecent ccs)(bu_Unref u := None, bu_Ref u \<mapsto> a)) (cc_mostRecent (chainAt (applyUpdate ccs u) b)) = Some b"
      using wb fresh Some wa by (auto simp: at)
  next
    fix p b assume "((ccs_byMostRecent ccs)(bu_Unref u := None, bu_Ref u \<mapsto> a)) p = Some b"
    then have "b = a \<and> p = bu_Ref u \<or> p \<noteq> bu_Ref u \<and> p \<noteq> bu_Unref u \<and> ccs_byMostRecent ccs p = Some b"
      by (auto split: if_splits)
    with chains_wfD2[OF wf, of p b] wa
    show "b < length (ccs_heap (applyUpdate ccs u))" "cc_mostRecent (chainAt (applyUpdate ccs u) b) = p"
      "ccs_byOriginal ccs (cc_original (chainAt (applyUpdate ccs u) b)) = Some b"
      by (auto simp: at known(3))
  qed
qed

lemma wf_other_maps [simp]:
  "chains_wf ccs \<Longrightarrow> chains_wf (addCreated ccs ptr)" "chains_wf ccs \<Longrightarrow> chains_wf (addDeleted ccs ptr)"
  "chains_wf ccs \<Longrightarrow> chains_wf (ccs\<lparr>ccs_renamedOriginals := r\<rparr>)"
  by (rule chains_wf_cong[of _ ccs]; simp add: addCreated_def addDeleted_def Let_def chainAt_def)+

lemma addOp_wf: "chains_wf ccs \<Longrightarrow> addOp ccs ptr o' = Inr ccs' \<Longrightarrow> chains_wf ccs'"
  by (auto simp: addOp_def split: option.splits)

lemma recordRename_wf: "chains_wf ccs \<Longrightarrow> recordRename ccs ro ndr = Inr ccs' \<Longrightarrow> chains_wf ccs'"
  by (auto simp: recordRename_def Let_def split: option.splits)

lemma splitRename_wf:
  assumes "chains_wf ccs" "splitRename ccs ro = Inr ccs'"
  shows "chains_wf ccs'"
proof -
  from assms(2) obtain c1 c2 c3 p1 o1 p2 o2 p3 o3 where "addOp ccs p1 o1 = Inr c1"
    and "addOp c1 p2 o2 = Inr c2 \<or> c2 = c1" and "addOp c2 p3 o3 = Inr c3"
    and "(\<exists>ndr. recordRename c3 ro ndr = Inr ccs') \<or> ccs' = c3"
    unfolding splitRename_def Let_def bindR_Inr_iff by (metis sum.inject(2))
  with assms(1) show ?thesis by (metis addOp_wf recordRename_wf)
qed

lemma foldl_wf: "(\<And>ccs x. chains_wf ccs \<Longrightarrow> chains_wf (f ccs x)) \<Longrightarrow> chains_wf ccs \<Longrightarrow> chains_wf (foldl f ccs xs)"
  by (induction xs arbitrary: ccs) simp_all

text \<open>Each update of a list is good when its turn comes.\<close>

fun updates_ok :: "crChains \<Rightarrow> blockUpdate list \<Rightarrow> bool" where
  "updates_ok ccs [] = True"
| "updates_ok ccs (u # us) = (update_ok ccs u \<and> updates_ok (applyUpdate ccs u) us)"

lemma updates_ok_append:
  "updates_ok ccs (us @ vs) \<longleftrightarrow> updates_ok ccs us \<and> updates_ok (foldl applyUpdate ccs us) vs"
  by (induction us arbitrary: ccs) auto

lemma applyUpdates_wf: "chains_wf ccs \<Longrightarrow> updates_ok ccs us \<Longrightarrow> chains_wf (foldl applyUpdate ccs us)"
  by (induction us arbitrary: ccs) (auto simp: applyUpdate_wf)

lemma refs_maps [simp]:
  "ccs_byOriginal (foldl addCreated ccs ps) = ccs_byOriginal ccs"
  "ccs_byMostRecent (foldl addCreated ccs ps) = ccs_byMostRecent ccs"
  "ccs_heap (foldl addCreated ccs ps) = ccs_heap ccs"
  "ccs_byOriginal (foldl addDeleted ccs ps) = ccs_byOriginal ccs"
  "ccs_byMostRecent (foldl addDeleted ccs ps) = ccs_byMostRecent ccs"
  "ccs_heap (foldl addDeleted ccs ps) = ccs_heap ccs"
  by (induction ps arbitrary: ccs; simp add: addCreated_def addDeleted_def Let_def)+

lemma addSetAttr_wf:
  assumes wf: "chains_wf ccs" and new: "ccs_byMostRecent ccs (sao_File sao) = None \<longrightarrow> ccs_byOriginal ccs (sao_File sao) = None"
    and run: "addSetAttr ccs sao = Inr ccs'"
  shows "chains_wf ccs'"
proof (cases "ccs_byMostRecent ccs (sao_File sao)")
  case (Some a)
  with run wf show ?thesis by (auto simp: addSetAttr_def dest: addOp_wf)
next
  case None
  let ?u = "\<lparr>bu_Unref = sao_File sao, bu_Ref = sao_File sao\<rparr>"
  have "update_ok ccs ?u" using None new by (simp add: update_ok_def)
  from applyUpdate_wf[OF wf this] have wf': "chains_wf (applyUpdate ccs ?u)" .
  have n: "ccs_byMostRecent ccs (bu_Unref ?u) = None" using None by simp
  note new' = applyUpdate_new[OF n]
  let ?a = "length (ccs_heap ccs)"
  let ?c = "ccs\<lparr>ccs_heap := ccs_heap ccs @ [\<lparr>cc_ops = [], cc_original = sao_File sao, cc_mostRecent = sao_File sao\<rparr>],
      ccs_byOriginal := (ccs_byOriginal ccs)(sao_File sao \<mapsto> ?a), ccs_byMostRecent := (ccs_byMostRecent ccs)(sao_File sao \<mapsto> ?a)\<rparr>"
  have "chains_wf ?c" by (rule chains_wf_cong[OF _ _ _ _ wf']) (simp_all add: new' chainAt_def)
  moreover have "addOp ?c (sao_File sao) (SetAttrOp sao) = Inr ccs'"
    using run None by (simp add: addSetAttr_def Let_def)
  ultimately show ?thesis by (rule addOp_wf)
qed

definition op_ok :: "crChains \<Rightarrow> op \<Rightarrow> bool" where
  "op_ok ccs o' \<longleftrightarrow> updates_ok ccs (AllUpdates o') \<and>
     (case o' of
        SetAttrOp sao \<Rightarrow>
          (let ccs' = foldl applyUpdate ccs (AllUpdates o')
           in ccs_byMostRecent ccs' (sao_File sao) = None \<longrightarrow> ccs_byOriginal ccs' (sao_File sao) = None)
      | _ \<Rightarrow> True)"

text \<open>C8: an operation whose updates each continue a chain at its end or start one at a new pointer
  keeps the two indices consistent: every chain is found under its original and under its most recent
  pointer, and under no other.\<close>

theorem makeChainForOp_wf:
  assumes "chains_wf ccs" and "op_ok ccs o'" and "makeChainForOp ccs o' = Inr ccs'"
  shows "chains_wf ccs'"
proof -
  let ?u = "foldl applyUpdate ccs (AllUpdates o')"
  let ?ccs = "foldl addDeleted (foldl addCreated ?u (Refs o')) (Unrefs o')"
  have "chains_wf ?u" using assms(1,2) by (intro applyUpdates_wf) (simp_all add: op_ok_def)
  then have wf: "chains_wf ?ccs" by (intro foldl_wf[where f = addDeleted] foldl_wf[where f = addCreated]) simp_all
  show ?thesis
  proof (cases o')
    case (SetAttrOp sao)
    have add: "addSetAttr ?ccs sao = Inr ccs'" using assms(3) SetAttrOp by (simp add: makeChainForOp_def Let_def)
    have new: "ccs_byMostRecent ?ccs (sao_File sao) = None \<longrightarrow> ccs_byOriginal ?ccs (sao_File sao) = None"
      using assms(2) SetAttrOp by (simp add: op_ok_def Let_def)
    show ?thesis by (rule addSetAttr_wf[OF wf new add])
  qed (use assms(3) wf in \<open>auto simp: makeChainForOp_def Let_def dest: addOp_wf splitRename_wf\<close>)
qed

definition ex_create :: op where
  "ex_create = CreateOp ((newCreateOp ''f'' (ex_ptr 1) File)\<lparr>co_Dir := \<lparr>bu_Unref = ex_ptr 1, bu_Ref = ex_ptr 2\<rparr>\<rparr>)"

theorem makeChainForOp_wf_witness:
  "\<exists>ccs. makeChainForOp newCRChainsEmpty ex_create = Inr ccs \<and> chains_wf ccs \<and>
     ccs_byMostRecent ccs (ex_ptr 2) = Some 0"
proof -
  have wf: "chains_wf newCRChainsEmpty" by (simp add: chains_wf_def newCRChainsEmpty_def)
  obtain ccs where run: "makeChainForOp newCRChainsEmpty ex_create = Inr ccs"
    and mr: "ccs_byMostRecent ccs (ex_ptr 2) = Some 0"
    by (simp add: makeChainForOp_def ex_create_def newCreateOp_def zeroOpCommon_def Refs_def Unrefs_def addOp_def
        applyUpdate_new newCRChainsEmpty_def)
  have "op_ok newCRChainsEmpty ex_create"
    by (simp add: op_ok_def ex_create_def newCreateOp_def zeroOpCommon_def update_ok_def newCRChainsEmpty_def)
  from makeChainForOp_wf[OF wf this run] run mr show ?thesis by blast
qed

subsection \<open>Following a pointer through the updates\<close>

text \<open>
  Updates of a history: a pointer is replaced at most once and produced at most once, and never produced
  after it was replaced. \<open>follow\<close> walks a pointer through them.
\<close>

definition linear_updates :: "blockUpdate list \<Rightarrow> bool" where
  "linear_updates us \<longleftrightarrow>
     sorted_wrt (\<lambda>u v. bu_Unref u \<noteq> bu_Unref v \<and> bu_Ref u \<noteq> bu_Ref v \<and> bu_Unref u \<noteq> bu_Ref v) us \<and>
     (\<forall>u\<in>set us. IsInitialized (bu_Unref u) \<and> bu_Ref u \<noteq> bu_Unref u)"

definition follow :: "blockUpdate list \<Rightarrow> BlockPointer \<Rightarrow> BlockPointer" where
  "follow us p = foldl (\<lambda>p u. if bu_Unref u = p then bu_Ref u else p) p us"

lemma follow_snoc: "follow (us @ [u]) p = (if bu_Unref u = follow us p then bu_Ref u else follow us p)"
  by (simp add: follow_def)

definition mostRecentOf :: "crChains \<Rightarrow> BlockPointer \<Rightarrow> BlockPointer" where
  "mostRecentOf ccs o' = (case ccs_byOriginal ccs o' of None \<Rightarrow> o' | Some a \<Rightarrow> cc_mostRecent (chainAt ccs a))"

lemma mostRecentFromOriginalOrSame_eq: "mostRecentFromOriginalOrSame ccs o' = Inr (mostRecentOf ccs o')"
  by (simp add: mostRecentFromOriginalOrSame_def mostRecentFromOriginal_def mostRecentOf_def split: option.split)

lemma mostRecentOf_applyUpdate:
  assumes wf: "chains_wf ccs" and ok: "update_ok ccs u"
    and o': "ccs_byOriginal ccs o' = None \<longrightarrow> ccs_byMostRecent ccs o' = None"
  shows "mostRecentOf (applyUpdate ccs u) o' =
    (if bu_Unref u = mostRecentOf ccs o' then bu_Ref u else mostRecentOf ccs o')"
proof (cases "ccs_byMostRecent ccs (bu_Unref u)")
  case None
  note new = applyUpdate_new[OF None]
  have none: "ccs_byOriginal ccs (bu_Unref u) = None" using ok None by (simp add: update_ok_def)
  have "cc_mostRecent (chainAt ccs b) \<noteq> bu_Unref u" "b < length (ccs_heap ccs)" if "ccs_byOriginal ccs o' = Some b" for b
    using chains_wfD1[OF wf that] None by auto
  then show ?thesis using none
    by (auto simp: mostRecentOf_def new chainAt_def nth_append split: option.splits)
next
  case (Some a)
  note known = applyUpdate_known[OF Some wf ok]
  note wa = chains_wfD2[OF wf Some]
  show ?thesis
  proof (cases "ccs_byOriginal ccs o'")
    case None
    with o' Some have "o' \<noteq> bu_Unref u" by auto
    with None show ?thesis by (simp add: mostRecentOf_def known)
  next
    case (Some b)
    note wb = chains_wfD1[OF wf Some]
    show ?thesis
    proof (cases "b = a")
      case True
      with Some wa show ?thesis by (simp add: mostRecentOf_def known chainAt_def)
    next
      case False
      with wb \<open>ccs_byMostRecent ccs (bu_Unref u) = Some a\<close> have "cc_mostRecent (chainAt ccs b) \<noteq> bu_Unref u" by auto
      with Some False show ?thesis by (simp add: mostRecentOf_def known chainAt_def)
    qed
  qed
qed

lemma applyUpdate_dom:
  assumes "chains_wf ccs" and "update_ok ccs u"
  shows "dom (ccs_byMostRecent (applyUpdate ccs u)) \<subseteq> insert (bu_Ref u) (dom (ccs_byMostRecent ccs))"
    and "dom (ccs_byOriginal (applyUpdate ccs u)) \<subseteq> insert (bu_Unref u) (dom (ccs_byOriginal ccs))"
  using applyUpdate_known[OF _ assms] applyUpdate_new[of ccs u]
  by (cases "ccs_byMostRecent ccs (bu_Unref u)"; auto simp: dom_def split: if_splits)+

lemma history_state:
  assumes "linear_updates us"
  defines "ccs \<equiv> foldl applyUpdate newCRChainsEmpty us"
  shows "chains_wf ccs" and "dom (ccs_byMostRecent ccs) \<subseteq> bu_Ref ` set us"
    and "dom (ccs_byOriginal ccs) \<subseteq> bu_Unref ` set us"
    and "o' \<notin> bu_Ref ` set us \<Longrightarrow> mostRecentOf ccs o' = follow us o'"
  using assms(1) unfolding ccs_def
proof (induction us arbitrary: o' rule: rev_induct)
  case Nil
  { case 1 show ?case by (simp add: chains_wf_def newCRChainsEmpty_def) }
  { case 2 show ?case by (simp add: newCRChainsEmpty_def) }
  { case 3 show ?case by (simp add: newCRChainsEmpty_def) }
  { case 4 show ?case by (simp add: newCRChainsEmpty_def mostRecentOf_def follow_def) }
next
  case (snoc u us)
  let ?c = "foldl applyUpdate newCRChainsEmpty us"
  have lin: "linear_updates us" if "linear_updates (us @ [u])"
    using that by (auto simp: linear_updates_def sorted_wrt_append)
  have ok: "update_ok ?c u" if "linear_updates (us @ [u])"
    using that snoc(2,3)[OF lin[OF that]] 
    by (fastforce simp: linear_updates_def sorted_wrt_append update_ok_def dom_def image_iff)
  { case 1
    show ?case using applyUpdate_wf[OF snoc(1)[OF lin[OF 1]] ok[OF 1]] by simp }
  { case 2
    show ?case
      using snoc(2)[OF lin[OF 2]] applyUpdate_dom(1)[OF snoc(1)[OF lin[OF 2]] ok[OF 2]] by simp blast }
  { case 3
    show ?case
      using snoc(3)[OF lin[OF 3]] applyUpdate_dom(2)[OF snoc(1)[OF lin[OF 3]] ok[OF 3]] by simp blast }
  { case 4
    have "ccs_byMostRecent ?c o' = None" using snoc(2)[OF lin[OF 4(2)]] 4(1) by (auto simp: dom_def)
    then show ?case
      using mostRecentOf_applyUpdate[OF snoc(1)[OF lin[OF 4(2)]] ok[OF 4(2)], of o'] snoc(4)[of o', OF _ lin[OF 4(2)]] 4(1)
      by (simp add: follow_snoc) }
qed

text \<open>C9: after the updates of a history, the most recent pointer of a node is where its original
  pointer gets by following the updates, and the original is found again from there. Pointers that
  no update touches stand for themselves.\<close>

theorem history_pointers:
  assumes "linear_updates us" and "o' \<notin> bu_Ref ` set us"
  shows "mostRecentFromOriginalOrSame (foldl applyUpdate newCRChainsEmpty us) o' = Inr (follow us o') \<and>
    originalFromMostRecentOrSame (foldl applyUpdate newCRChainsEmpty us) (follow us o') = Inr o'"
proof -
  let ?c = "foldl applyUpdate newCRChainsEmpty us"
  note h = history_state[OF assms(1)]
  have mr: "mostRecentOf ?c o' = follow us o'" using h(4)[OF assms(2)] .
  show ?thesis
  proof (cases "ccs_byOriginal ?c o'")
    case None
    then have "follow us o' = o'" using mr by (simp add: mostRecentOf_def)
    moreover have "ccs_byMostRecent ?c o' = None" using h(2) assms(2) by (auto simp: dom_def)
    ultimately show ?thesis
      using mr by (simp add: mostRecentFromOriginalOrSame_eq originalFromMostRecentOrSame_def originalFromMostRecent_def)
  next
    case (Some a)
    from chains_wfD1[OF h(1) Some] Some mr show ?thesis
      by (simp add: mostRecentFromOriginalOrSame_eq originalFromMostRecentOrSame_def originalFromMostRecent_def
          mostRecentOf_def)
  qed
qed

theorem history_pointers_witness:
  "mostRecentFromOriginalOrSame (foldl applyUpdate newCRChainsEmpty
     [\<lparr>bu_Unref = ex_ptr 1, bu_Ref = ex_ptr 2\<rparr>, \<lparr>bu_Unref = ex_ptr 2, bu_Ref = ex_ptr 3\<rparr>]) (ex_ptr 1) = Inr (ex_ptr 3)"
  using history_pointers[of "[\<lparr>bu_Unref = ex_ptr 1, bu_Ref = ex_ptr 2\<rparr>, \<lparr>bu_Unref = ex_ptr 2, bu_Ref = ex_ptr 3\<rparr>]" "ex_ptr 1"]
  by (simp add: linear_updates_def follow_def)

subsection \<open>Changing an original\<close>

text \<open>C40: \<open>changeOriginal\<close> moves the chain of a node to a new original that no chain uses. The new original
  leads to the same most recent pointer, and to itself if the node had not moved; every other chain
  stays.\<close>

theorem changeOriginal_correct:
  assumes wf: "chains_wf ccs" and old: "ccs_byOriginal ccs oldO = Some a"
    and new: "ccs_byOriginal ccs newO = None" and new': "ccs_byMostRecent ccs newO = None"
  shows "\<exists>ccs'. changeOriginal ccs oldO newO = Inr ccs' \<and> chains_wf ccs' \<and>
    mostRecentFromOriginal ccs' newO =
      Inr (if cc_mostRecent (chainAt ccs a) = oldO then newO else cc_mostRecent (chainAt ccs a)) \<and>
    mostRecentFromOriginal ccs' oldO = Inl (Error (NoChainFoundError oldO)) \<and>
    (\<forall>p. p \<noteq> oldO \<and> p \<noteq> newO \<longrightarrow> mostRecentFromOriginal ccs' p = mostRecentFromOriginal ccs p) \<and>
    (isDeleted ccs' newO \<longleftrightarrow> isDeleted ccs oldO \<or> isDeleted ccs newO) \<and>
    (isCreated ccs' newO \<longleftrightarrow> isCreated ccs oldO \<or> isCreated ccs newO)"
proof -
  note wa = chains_wfD1[OF wf old]
  have ne: "oldO \<noteq> newO" using old new by auto
  have "\<exists>ccs'. changeOriginal ccs oldO newO = Inr ccs'" using old new by (simp add: changeOriginal_def Let_def)
  then obtain ccs' where run: "changeOriginal ccs oldO newO = Inr ccs'" ..
  let ?mr = "if cc_mostRecent (chainAt ccs a) = oldO then newO else cc_mostRecent (chainAt ccs a)"
  have bo: "ccs_byOriginal ccs' = (ccs_byOriginal ccs)(oldO := None, newO \<mapsto> a)"
    and bm: "ccs_byMostRecent ccs' = (if cc_mostRecent (chainAt ccs a) = oldO
        then (ccs_byMostRecent ccs)(oldO := None, newO \<mapsto> a) else ccs_byMostRecent ccs)"
    and len: "length (ccs_heap ccs') = length (ccs_heap ccs)"
    and del: "ccs_deletedOriginals ccs' = moveKey oldO newO (ccs_deletedOriginals ccs)"
    and cre: "ccs_createdOriginals ccs' = moveKey oldO newO (ccs_createdOriginals ccs)"
    using run old new
    by (cases "cc_mostRecent (chainAt ccs a) = oldO"; auto simp: changeOriginal_def Let_def setChain_def)+
  have at: "cc_original (chainAt ccs' b) = (if b = a then newO else cc_original (chainAt ccs b))"
    "cc_mostRecent (chainAt ccs' b) = (if b = a then ?mr else cc_mostRecent (chainAt ccs b))" for b
    using run old new wa
    by (cases "cc_mostRecent (chainAt ccs a) = oldO";
        auto simp: changeOriginal_def Let_def setChain_def chainAt_def nth_list_update)+
  have other: "b \<noteq> a" if "ccs_byOriginal ccs p = Some b" "p \<noteq> oldO" for p b
    using chains_wfD1[OF wf that(1)] that(2) wa by auto
  have "chains_wf ccs'"
    unfolding chains_wf_def
  proof (intro conjI allI impI)
    fix p b assume "ccs_byOriginal ccs' p = Some b"
    then have "p = newO \<and> b = a \<or> p \<noteq> oldO \<and> p \<noteq> newO \<and> ccs_byOriginal ccs p = Some b"
      by (auto simp: bo split: if_splits)
    then consider "p = newO" "b = a" | "p \<noteq> oldO" "p \<noteq> newO" "ccs_byOriginal ccs p = Some b" "b \<noteq> a"
      using other by blast
    then show "b < length (ccs_heap ccs')" "cc_original (chainAt ccs' b) = p"
      "ccs_byMostRecent ccs' (cc_mostRecent (chainAt ccs' b)) = Some b"
      using wa chains_wfD1[OF wf, of p b] new' by (cases; auto simp: len at bm)+
  next
    fix p b assume "ccs_byMostRecent ccs' p = Some b"
    then have "p = newO \<and> b = a \<and> cc_mostRecent (chainAt ccs a) = oldO \<or>
        ccs_byMostRecent ccs p = Some b \<and> p \<noteq> newO \<and> (b = a \<longrightarrow> cc_mostRecent (chainAt ccs a) \<noteq> oldO)"
      using new' wa chains_wfD2[OF wf, of p b] by (auto simp: bm split: if_splits)
    moreover have "cc_original (chainAt ccs b) \<noteq> oldO" "cc_original (chainAt ccs b) \<noteq> newO"
      if "ccs_byMostRecent ccs p = Some b" "b \<noteq> a"
      using chains_wfD2[OF wf that(1)] that(2) old new by auto
    ultimately show "b < length (ccs_heap ccs')" "cc_mostRecent (chainAt ccs' b) = p"
      "ccs_byOriginal ccs' (cc_original (chainAt ccs' b)) = Some b"
      using wa chains_wfD2[OF wf, of p b] by (auto simp: len at bo)
  qed
  moreover have "mostRecentFromOriginal ccs' p = mostRecentFromOriginal ccs p" if "p \<noteq> oldO" "p \<noteq> newO" for p
    using that other by (auto simp: mostRecentFromOriginal_def bo at split: option.split)
  ultimately show ?thesis
    using run ne by (auto simp: mostRecentFromOriginal_def bo at isDeleted_def isCreated_def del cre moveKey_def)
qed

definition ex_chains :: crChains where
  "ex_chains = foldl applyUpdate newCRChainsEmpty
     [\<lparr>bu_Unref = ex_ptr 1, bu_Ref = ex_ptr 2\<rparr>, \<lparr>bu_Unref = ex_ptr 2, bu_Ref = ex_ptr 3\<rparr>]"

lemma newCRChainsEmpty_simps [simp]:
  "ccs_heap newCRChainsEmpty = []" "ccs_byOriginal newCRChainsEmpty = Map.empty"
  "ccs_byMostRecent newCRChainsEmpty = Map.empty" "ccs_originals newCRChainsEmpty = Map.empty"
  by (simp_all add: newCRChainsEmpty_def)

lemma ex_chains_facts:
  "chains_wf ex_chains" "ccs_byOriginal ex_chains = [ex_ptr 1 \<mapsto> 0]" "ccs_byMostRecent ex_chains = [ex_ptr 3 \<mapsto> 0]"
  "ccs_originals ex_chains = [ex_ptr 2 \<mapsto> ex_ptr 1, ex_ptr 3 \<mapsto> ex_ptr 1]"
  "cc_mostRecent (chainAt ex_chains 0) = ex_ptr 3"
proof -
  let ?u = "\<lparr>bu_Unref = ex_ptr 1, bu_Ref = ex_ptr 2\<rparr>" and ?v = "\<lparr>bu_Unref = ex_ptr 2, bu_Ref = ex_ptr 3\<rparr>"
  have wf0: "chains_wf newCRChainsEmpty" by (simp add: chains_wf_def)
  have ok: "updates_ok newCRChainsEmpty [?u, ?v]"
    by (simp add: update_ok_def applyUpdate_new)
  from applyUpdates_wf[OF wf0 ok] show wf: "chains_wf ex_chains" by (simp add: ex_chains_def)
  have "ccs_byMostRecent newCRChainsEmpty (bu_Unref ?u) = None" by simp
  note one = applyUpdate_new[OF this, simplified]
  have mr: "ccs_byMostRecent (applyUpdate newCRChainsEmpty ?u) (bu_Unref ?v) = Some 0"
    by (simp add: one)
  have wf1: "chains_wf (applyUpdate newCRChainsEmpty ?u)" "update_ok (applyUpdate newCRChainsEmpty ?u) ?v"
    using applyUpdate_wf[OF wf0] ok by simp_all
  note two = applyUpdate_known[OF mr wf1, simplified]
  show "ccs_byOriginal ex_chains = [ex_ptr 1 \<mapsto> 0]" "ccs_byMostRecent ex_chains = [ex_ptr 3 \<mapsto> 0]"
    "ccs_originals ex_chains = [ex_ptr 2 \<mapsto> ex_ptr 1, ex_ptr 3 \<mapsto> ex_ptr 1]"
    "cc_mostRecent (chainAt ex_chains 0) = ex_ptr 3"
    by (auto simp: ex_chains_def two one chainAt_def)
qed

theorem changeOriginal_correct_witness:
  "\<exists>ccs'. changeOriginal ex_chains (ex_ptr 1) (ex_ptr 9) = Inr ccs' \<and> chains_wf ccs' \<and>
     mostRecentFromOriginal ccs' (ex_ptr 9) = Inr (ex_ptr 3)"
  using changeOriginal_correct[of ex_chains "ex_ptr 1" 0 "ex_ptr 9"] by (auto simp: ex_chains_facts)

text \<open>\<open>changeOriginal\<close> leaves the pointers in the middle of a chain behind. They are still traced
  back to the old original, for which there is no chain any more.\<close>

theorem changeOriginal_leaves_intermediate:
  assumes "ccs_byOriginal ccs oldO = Some a" and "ccs_byOriginal ccs newO = None"
    and "ccs_originals ccs p = Some oldO" and "p \<noteq> oldO"
  shows "\<exists>ccs'. changeOriginal ccs oldO newO = Inr ccs' \<and> revertPtr ccs' p = oldO \<and>
    mostRecentFromOriginal ccs' oldO = Inl (Error (NoChainFoundError oldO))"
proof -
  have "oldO \<noteq> newO" using assms(1,2) by auto
  then show ?thesis using assms
    by (cases "cc_mostRecent (chainAt ccs a) = oldO")
      (auto simp: changeOriginal_def Let_def setChain_def revertPtr_def mostRecentFromOriginal_def)
qed

theorem changeOriginal_leaves_intermediate_witness:
  "\<exists>ccs'. changeOriginal ex_chains (ex_ptr 1) (ex_ptr 9) = Inr ccs' \<and> revertPtr ccs' (ex_ptr 2) = ex_ptr 1"
  using changeOriginal_leaves_intermediate[of ex_chains "ex_ptr 1" 0 "ex_ptr 9" "ex_ptr 2"]
  by (auto simp: ex_chains_facts)

section \<open>Collapsing a chain\<close>

text \<open>
  What the creates and removes of a directory chain do to one name: it is absent, there from before the
  chain, or made by the chain.
\<close>

datatype presence = Absent | Before | Made

definition presence_step :: "string \<Rightarrow> presence \<Rightarrow> op \<Rightarrow> presence" where
  "presence_step n s o' =
     (case o' of
        CreateOp co \<Rightarrow> if co_NewName co = n then Made else s
      | RmOp ro \<Rightarrow> if ro_OldName ro = n then Absent else s
      | _ \<Rightarrow> s)"

definition presence_after :: "string \<Rightarrow> presence \<Rightarrow> op list \<Rightarrow> presence" where
  "presence_after n s ops = foldl (presence_step n) s ops"

text \<open>The same fold over the indices of a list, skipping some.\<close>

definition skip_fold :: "op list \<Rightarrow> string \<Rightarrow> nat list \<Rightarrow> presence \<Rightarrow> nat \<Rightarrow> presence" where
  "skip_fold xs n rem s i = foldl (\<lambda>s k. if k \<in> set rem then s else presence_step n s (xs ! k)) s [0..<i]"

lemma skip_fold_Suc:
  "skip_fold xs n rem s (Suc i) =
     (if i \<in> set rem then skip_fold xs n rem s i else presence_step n (skip_fold xs n rem s i) (xs ! i))"
  by (simp add: skip_fold_def)

lemma skip_fold_cong:
  assumes "\<And>k s. k < i \<Longrightarrow> (k \<in> set rem) \<noteq> (k \<in> set rem') \<Longrightarrow> presence_step n s (xs ! k) = s"
  shows "skip_fold xs n rem s i = skip_fold xs n rem' s i"
  unfolding skip_fold_def by (rule foldl_cong) (use assms in auto)

lemma presence_keepOps:
  "presence_after n s (keepOps xs rem) = skip_fold xs n rem s (length xs)"
proof -
  have "presence_after n s (map snd (filter (\<lambda>(i, _). i \<notin> set rem) (enumerate 0 (take i xs)))) =
      skip_fold xs n rem s i" if "i \<le> length xs" for i
    using that
  proof (induction i)
    case (Suc i)
    then show ?case
      by (simp add: take_Suc_conv_app_nth enumerate_append_eq skip_fold_Suc presence_after_def)
  qed (simp add: skip_fold_def presence_after_def)
  from this[of "length xs"] show ?thesis by (simp add: keepOps_def)
qed

lemma presence_all: "presence_after n s (take i xs) = skip_fold xs n [] s i" if "i \<le> length xs"
  using that
proof (induction i)
  case (Suc i)
  then show ?case by (simp add: take_Suc_conv_app_nth skip_fold_Suc presence_after_def)
qed (simp add: skip_fold_def presence_after_def)

definition creates :: "string \<Rightarrow> op \<Rightarrow> bool" where
  "creates n o' = (case o' of CreateOp co \<Rightarrow> co_NewName co = n | _ \<Rightarrow> False)"

definition removes :: "string \<Rightarrow> op \<Rightarrow> bool" where
  "removes n o' = (case o' of RmOp ro \<Rightarrow> ro_OldName ro = n | _ \<Rightarrow> False)"

lemma presence_step_simps:
  "creates n o' \<Longrightarrow> presence_step n s o' = Made" "removes n o' \<Longrightarrow> presence_step n s o' = Absent"
  "\<not> creates n o' \<Longrightarrow> \<not> removes n o' \<Longrightarrow> presence_step n s o' = s"
  by (auto simp: creates_def removes_def presence_step_def split: op.splits)

lemma creates_other: "creates m o' \<Longrightarrow> m \<noteq> n \<Longrightarrow> \<not> creates n o' \<and> \<not> removes n o'"
  "removes m o' \<Longrightarrow> m \<noteq> n \<Longrightarrow> \<not> creates n o' \<and> \<not> removes n o'"
  by (auto simp: creates_def removes_def split: op.splits)

text \<open>
  What shows of a name when the entry that the operations made last is taken back: \<open>k\<close> is that, and \<open>s\<close> what the
  name is. A rename over an entry that the operations made leaves nothing more beneath; a create that is not a rename
  leaves that entry. A remove takes back the entry that the operations made, and otherwise clears the name.
\<close>

fun beneath :: "string \<Rightarrow> presence \<Rightarrow> presence \<Rightarrow> op list \<Rightarrow> presence" where
  "beneath n s k [] = k"
| "beneath n s k (o' # ops) =
     beneath n (presence_step n s o')
       (case o' of
          CreateOp co \<Rightarrow> if co_NewName co = n \<and> s = Made \<and> \<not> co_renamed co then Made else k
        | RmOp ro \<Rightarrow> if ro_OldName ro = n \<and> s \<noteq> Made then Absent else k
        | _ \<Rightarrow> k) ops"

text \<open>
  The name is created only when it is absent, or by a rename over an entry that the operations themselves made.
  \<open>makeChainForOp\<close> puts a remove before the create of a rename that replaces something, but only when the rename
  unreferences blocks.
\<close>

fun creates_fresh :: "string \<Rightarrow> presence \<Rightarrow> op list \<Rightarrow> bool" where
  "creates_fresh n s [] = True"
| "creates_fresh n s (o' # ops) =
     ((case o' of CreateOp co \<Rightarrow> co_NewName co = n \<longrightarrow> s = Absent \<or> s = Made \<and> co_renamed co | _ \<Rightarrow> True) \<and>
      creates_fresh n (presence_step n s o') ops)"

lemma beneath_fresh:
  "creates_fresh n s ops \<Longrightarrow> k = (if s = Made then Absent else s) \<Longrightarrow>
   beneath n s k ops = (if presence_after n s ops = Made then Absent else presence_after n s ops)"
proof (induction ops arbitrary: s k)
  case Nil
  then show ?case by (simp add: presence_after_def)
next
  case (Cons o' ops)
  have after: "presence_after n s (o' # ops) = presence_after n (presence_step n s o') ops" by (simp add: presence_after_def)
  have "creates_fresh n (presence_step n s o') ops" using Cons.prems(1) by simp
  then show ?case unfolding after beneath.simps
    by (rule Cons.IH) (use Cons.prems in \<open>cases o'; cases s; auto simp: presence_step_def split: if_splits\<close>)
qed

text \<open>The state of the scan after the operations before index \<open>i\<close>, seen by one name.\<close>

definition scan_inv :: "op list \<Rightarrow> string \<Rightarrow> presence \<Rightarrow> nat \<Rightarrow> presence \<Rightarrow> (string \<rightharpoonup> nat) \<Rightarrow> nat list \<Rightarrow> bool" where
  "scan_inv xs n s i k seen rem \<longleftrightarrow>
     (\<forall>k\<in>set rem. k < i) \<and> (\<forall>m k. seen m = Some k \<longrightarrow> k < i \<and> creates m (xs ! k)) \<and>
     (case seen n of
        None \<Rightarrow> skip_fold xs n [] s i \<noteq> Made \<and> skip_fold xs n rem s i = k
      | Some j \<Rightarrow> skip_fold xs n [] s i = Made \<and> skip_fold xs n rem s i = Made \<and> skip_fold xs n (j # rem) s i = k)"

lemma scan_step_create:
  assumes inv: "scan_inv xs n s i k seen rem" and co: "xs ! i = CreateOp co" and m: "m = co_NewName co"
    and rem': "rem' = (case seen m of Some k \<Rightarrow> if co_renamed co then k # rem else rem | None \<Rightarrow> rem)"
  shows "scan_inv xs n s (Suc i) (if m = n \<and> skip_fold xs n [] s i = Made \<and> \<not> co_renamed co then Made else k) (seen(m \<mapsto> i)) rem'"
proof -
  have c: "creates m (xs ! i)" using co m by (simp add: creates_def)
  have lt: "\<forall>k\<in>set rem'. k < i" and seen: "\<And>m k. seen m = Some k \<Longrightarrow> k < i \<and> creates m (xs ! k)"
    using inv by (auto simp: scan_inv_def rem' split: option.splits if_splits)
  show ?thesis
  proof (cases "m = n")
    case True
    have "skip_fold xs n (i # rem') s i = skip_fold xs n rem' s i"
      by (rule skip_fold_cong) auto
    moreover have "skip_fold xs n rem' s i = (if skip_fold xs n [] s i = Made \<and> \<not> co_renamed co then Made else k)"
      using inv True by (auto simp: scan_inv_def rem' split: option.splits)
    ultimately show ?thesis using lt seen c True
      by (auto simp: scan_inv_def skip_fold_Suc presence_step_simps less_Suc_eq)
  next
    case False
    have other: "presence_step n t (xs ! i) = t" for t
      using creates_other(1)[OF c False] presence_step_simps(3) by blast
    have keep: "skip_fold xs n rem' s i = skip_fold xs n rem s i"
      "skip_fold xs n (j # rem') s i = skip_fold xs n (j # rem) s i" for j
      by (rule skip_fold_cong; use seen creates_other(1)[OF _ False] presence_step_simps(3) in
          \<open>auto simp: rem' split: option.splits if_splits\<close>)+
    show ?thesis using inv lt seen c False
      by (auto simp: scan_inv_def skip_fold_Suc other keep less_Suc_eq split: option.splits)
  qed
qed

lemma scan_step_remove:
  assumes inv: "scan_inv xs n s i k seen rem" and ro: "xs ! i = RmOp ro" and m: "m = ro_OldName ro"
    and res: "(seen', rem') = (case seen m of Some k \<Rightarrow> (seen(m := None), i # k # rem) | None \<Rightarrow> (seen, rem))"
  shows "scan_inv xs n s (Suc i) (if m = n \<and> skip_fold xs n [] s i \<noteq> Made then Absent else k) seen' rem'"
proof -
  have r: "removes m (xs ! i)" using ro m by (simp add: removes_def)
  have lt: "\<forall>k\<in>set rem. k < i" and seen: "\<And>m k. seen m = Some k \<Longrightarrow> k < i \<and> creates m (xs ! k)"
    using inv by (auto simp: scan_inv_def)
  then have lt': "\<forall>k\<in>set rem'. k < Suc i" and seen': "\<And>m k. seen' m = Some k \<Longrightarrow> k < i \<and> creates m (xs ! k)"
    using res by (auto split: option.splits if_splits dest: less_SucI)
  have iN: "i \<notin> set rem" using lt by auto
  show ?thesis
  proof (cases "m = n")
    case True
    show ?thesis
    proof (cases "seen n")
      case None
      then show ?thesis using inv res lt' seen r True iN
        by (auto simp: scan_inv_def skip_fold_Suc presence_step_simps less_Suc_eq)
    next
      case (Some j)
      have "skip_fold xs n (i # j # rem) s i = skip_fold xs n (j # rem) s i"
        by (rule skip_fold_cong) auto
      with Some show ?thesis using inv res lt' seen r True
        by (auto simp: scan_inv_def skip_fold_Suc presence_step_simps less_Suc_eq split: if_splits)
    qed
  next
    case False
    have other: "presence_step n t (xs ! i) = t" for t
      using creates_other(2)[OF r False] presence_step_simps(3) by blast
    have keep: "skip_fold xs n rem' s i = skip_fold xs n rem s i"
      "skip_fold xs n (j # rem') s i = skip_fold xs n (j # rem) s i" for j
      by (rule skip_fold_cong; use res seen creates_other(1)[OF _ False] presence_step_simps(3) in
          \<open>auto split: option.splits\<close>)+
    have "seen' n = seen n" using res False by (auto split: option.splits)
    then show ?thesis using inv lt' seen' False
      by (auto simp: scan_inv_def skip_fold_Suc other keep less_Suc_eq split: option.splits)
  qed
qed

lemma scan_step_other:
  assumes "scan_inv xs n s i k seen rem" and "\<And>m. \<not> creates m (xs ! i) \<and> \<not> removes m (xs ! i)"
  shows "scan_inv xs n s (Suc i) k seen rem"
  using assms presence_step_simps(3)[of n "xs ! i"]
  by (auto simp: scan_inv_def skip_fold_Suc less_Suc_eq split: option.splits)

lemma scan_correct:
  assumes "drop i xs = ops" "i \<le> length xs" "scan_inv xs n s i k seen rem"
    and "collapseScan i ops seen rem = (seen', rem')"
  shows "scan_inv xs n s (length xs) (beneath n (skip_fold xs n [] s i) k ops) seen' rem'"
  using assms
proof (induction ops arbitrary: i k seen rem)
  case Nil
  then show ?case by simp
next
  case (Cons o' ops)
  have xi: "xs ! i = o'" and d: "drop (Suc i) xs = ops" and le: "Suc i \<le> length xs"
    using Cons.prems(1) by (auto simp: nth_via_drop drop_Suc drop_tl dest: arg_cong[where f = length])
  have next_real: "presence_step n (skip_fold xs n [] s i) o' = skip_fold xs n [] s (Suc i)"
    using xi by (simp add: skip_fold_Suc)
  note IH = Cons.IH[OF d le]
  show ?case
  proof (cases o')
    case (CreateOp co)
    let ?rem = "case seen (co_NewName co) of Some k \<Rightarrow> if co_renamed co then k # rem else rem | None \<Rightarrow> rem"
    have "collapseScan (Suc i) ops (seen(co_NewName co \<mapsto> i)) ?rem = (seen', rem')"
      using Cons.prems(4) CreateOp by simp
    from IH[OF scan_step_create[OF Cons.prems(3) xi[unfolded CreateOp] refl refl] this] show ?thesis
      using next_real CreateOp by simp
  next
    case (RmOp ro)
    obtain seen1 rem1 where s1: "(seen1, rem1) =
        (case seen (ro_OldName ro) of Some k \<Rightarrow> (seen(ro_OldName ro := None), i # k # rem) | None \<Rightarrow> (seen, rem))"
      by (cases "seen (ro_OldName ro)") auto
    have "collapseScan (Suc i) ops seen1 rem1 = (seen', rem')"
      using Cons.prems(4) RmOp s1 by (cases "seen (ro_OldName ro)") simp_all
    from IH[OF scan_step_remove[OF Cons.prems(3) xi[unfolded RmOp] refl s1] this] show ?thesis
      using next_real RmOp by simp
  qed (use IH[OF scan_step_other[OF Cons.prems(3)]] Cons.prems(4) xi next_real in \<open>auto simp: creates_def removes_def\<close>)
qed

text \<open>
  C10: what collapsing a chain does to the names of a directory, for every sequence of operations. A name that the
  operations made is there after the collapsed ones too. Every other name is, after the collapsed operations, what was
  beneath the entry that the operations made last and then removed. So when each create of the name finds it absent, or
  renames over an entry that the operations made, the name is the same after the collapsed operations as after all of
  them. The other case happens: a rename over a symlink from before the chain has no remove of its own, and when the
  new entry is removed again, the create and the remove cancel each other out and the symlink counts as present.
\<close>

theorem collapse_preserves_names:
  assumes "s \<noteq> Made"
  shows "presence_after n s (cc_ops (crChain_collapse cc)) =
      (if presence_after n s (cc_ops cc) = Made then Made else beneath n s s (cc_ops cc)) \<and>
    (creates_fresh n s (cc_ops cc) \<longrightarrow>
      presence_after n s (cc_ops (crChain_collapse cc)) = presence_after n s (cc_ops cc)) \<and>
    cc_original (crChain_collapse cc) = cc_original cc \<and> cc_mostRecent (crChain_collapse cc) = cc_mostRecent cc"
proof -
  let ?xs = "cc_ops cc"
  obtain seen rem where scan: "collapseScan 0 ?xs Map.empty [] = (seen, rem)" by fastforce
  have zero: "skip_fold ?xs n [] s 0 = s" by (simp add: skip_fold_def)
  have "scan_inv ?xs n s 0 s Map.empty []" using assms by (simp add: scan_inv_def skip_fold_def)
  from scan_correct[OF _ _ this scan] have inv: "scan_inv ?xs n s (length ?xs) (beneath n s s ?xs) seen rem"
    by (simp add: zero)
  have all: "presence_after n s ?xs = skip_fold ?xs n [] s (length ?xs)" using presence_all[of "length ?xs" ?xs n s] by simp
  have ops: "cc_ops (crChain_collapse cc) = (if rem = [] then ?xs else keepOps ?xs rem)"
    using scan by (simp add: crChain_collapse_def)
  have "presence_after n s (cc_ops (crChain_collapse cc)) = skip_fold ?xs n rem s (length ?xs)"
    using all by (simp add: ops presence_keepOps)
  with inv all have after: "presence_after n s (cc_ops (crChain_collapse cc)) =
      (if presence_after n s ?xs = Made then Made else beneath n s s ?xs)"
    by (auto simp: scan_inv_def split: option.splits)
  moreover have "beneath n s s ?xs = presence_after n s ?xs" if "creates_fresh n s ?xs" "presence_after n s ?xs \<noteq> Made"
    using beneath_fresh[OF that(1), of s] that(2) assms by simp
  ultimately show ?thesis using scan by (simp add: crChain_collapse_def)
qed

definition ex_renamed :: op where
  "ex_renamed = CreateOp ((newCreateOp ''a'' zeroPtr File)\<lparr>co_renamed := True\<rparr>)"

definition ex_chain_of :: "op list \<Rightarrow> crChain" where
  "ex_chain_of ops = \<lparr>cc_ops = ops, cc_original = zeroPtr, cc_mostRecent = zeroPtr\<rparr>"

theorem collapse_preserves_names_witness:
  "presence_after ''a'' Absent (cc_ops (crChain_collapse (ex_chain_of
      [CreateOp (newCreateOp ''a'' zeroPtr File), ex_renamed, RmOp (newRmOp ''a'' zeroPtr)]))) = Absent
   \<and> presence_after ''a'' Before (cc_ops (crChain_collapse (ex_chain_of [RmOp (newRmOp ''a'' zeroPtr), ex_renamed, RmOp (newRmOp ''a'' zeroPtr)]))) = Absent
   \<and> presence_after ''a'' Before (cc_ops (crChain_collapse (ex_chain_of [ex_renamed, RmOp (newRmOp ''a'' zeroPtr)]))) = Before"
  using collapse_preserves_names[of Absent "''a''" "ex_chain_of [CreateOp (newCreateOp ''a'' zeroPtr File), ex_renamed, RmOp (newRmOp ''a'' zeroPtr)]"]
    collapse_preserves_names[of Before "''a''" "ex_chain_of [RmOp (newRmOp ''a'' zeroPtr), ex_renamed, RmOp (newRmOp ''a'' zeroPtr)]"]
    collapse_preserves_names[of Before "''a''" "ex_chain_of [ex_renamed, RmOp (newRmOp ''a'' zeroPtr)]"]
  by (simp add: ex_chain_of_def ex_renamed_def presence_step_def presence_after_def newCreateOp_def newRmOp_def)

end
