(* ===== verification/Kbfs_File_Chunks.thy ===== *)
theory Kbfs_File_Chunks
  imports Kbfs_Block_Splitter
begin

text \<open>
  A file as a flat list of bytes, and a file as the list of the contents of its blocks. All blocks but
  the last are full. What one round of the write loop of folder\_block\_ops.go does to the blocks is
  shown here to do the right thing to the bytes; the loop itself, on block objects and pointers, is
  modelled in \<open>Kbfs_Folder_Block_Ops\<close>.
\<close>

section \<open>Flat files\<close>

definition flat_read :: "byte list \<Rightarrow> nat \<Rightarrow> nat \<Rightarrow> byte list" where
  "flat_read F off n = take n (drop off F)"

text \<open>A write beyond the end fills the gap with zeros; writing nothing changes nothing.\<close>

definition flat_write :: "byte list \<Rightarrow> nat \<Rightarrow> byte list \<Rightarrow> byte list" where
  "flat_write F off d =
     (if d = [] then F else take off (F @ replicate (off - length F) 0) @ d @ drop (off + length d) F)"

definition flat_truncate :: "byte list \<Rightarrow> nat \<Rightarrow> byte list" where
  "flat_truncate F n = take n F @ replicate (n - length F) 0"

lemma byte_at_None_iff [simp]: "byte_at c p = None \<longleftrightarrow> length c \<le> p"
  by (simp add: byte_at_def)

lemma byte_at_eqI: "(\<And>p. byte_at xs p = byte_at ys p) \<Longrightarrow> xs = ys"
proof (rule nth_equalityI)
  assume h: "\<And>p. byte_at xs p = byte_at ys p"
  have "length xs \<le> p \<longleftrightarrow> length ys \<le> p" for p using h[of p] by (metis byte_at_None_iff)
  then show len: "length xs = length ys" by (metis order_antisym order_refl)
  show "xs ! p = ys ! p" if "p < length xs" for p using h[of p] that len by (simp add: byte_at_def)
qed

lemma length_flat_write:
  "length (flat_write F off d) = (if d = [] then length F else max (length F) (off + length d))"
  by (auto simp: flat_write_def)

lemma byte_at_flat_write:
  "byte_at (flat_write F off d) p =
     (if off \<le> p \<and> p < off + length d then Some (d ! (p - off))
      else if p < length F then Some (F ! p)
      else if p < off \<and> d \<noteq> [] then Some 0 else None)"
  by (auto simp: flat_write_def byte_at_def nth_append min_def)

lemma flat_write_append: "flat_write F (length F) d = F @ d"
  by (simp add: flat_write_def)

lemma flat_truncate_extend: "length F \<le> n \<Longrightarrow> flat_truncate F n = F @ replicate (n - length F) 0"
  by (simp add: flat_truncate_def)

section \<open>Chunks\<close>

definition chunks_ok :: "nat \<Rightarrow> byte list list \<Rightarrow> bool" where
  "chunks_ok m cs \<longleftrightarrow> 0 < m \<and> cs \<noteq> [] \<and> (\<forall>i. Suc i < length cs \<longrightarrow> length (cs ! i) = m) \<and> length (last cs) \<le> m"

text \<open>The chunk that the search of \<open>getFileBlockAtOffsetLocked\<close> ends in.\<close>

definition chunk_index :: "nat \<Rightarrow> byte list list \<Rightarrow> nat \<Rightarrow> nat" where
  "chunk_index m cs pos = min (pos div m) (length cs - 1)"

lemma chunks_ok_Cons:
  "chunks_ok m (c # cs) \<longleftrightarrow> 0 < m \<and> (if cs = [] then length c \<le> m else length c = m \<and> chunks_ok m cs)"
  by (cases cs) (auto simp: chunks_ok_def nth_Cons split: nat.splits)

lemma chunks_ok_nth: "chunks_ok m cs \<Longrightarrow> i < length cs \<Longrightarrow> length (cs ! i) \<le> m"
proof (cases "Suc i < length cs")
  case False
  moreover assume "chunks_ok m cs" "i < length cs"
  moreover from calculation have "i = length cs - 1" by simp
  ultimately show ?thesis by (auto simp: chunks_ok_def last_conv_nth)
qed (simp add: chunks_ok_def)

lemma byte_at_concat:
  "chunks_ok m cs \<Longrightarrow>
     byte_at (concat cs) p = (if p div m < length cs then byte_at (cs ! (p div m)) (p mod m) else None)"
proof (induction cs arbitrary: p)
  case Nil
  then show ?case by (simp add: chunks_ok_def)
next
  case (Cons c cs)
  then have m: "0 < m" by (simp add: chunks_ok_def)
  show ?case
  proof (cases "cs = []")
    case True
    then have "length c \<le> m" using Cons.prems by (simp add: chunks_ok_Cons)
    then show ?thesis
      using True m by (cases "p < m") (simp_all add: byte_at_def div_eq_0_iff)
  next
    case False
    then have c: "length c = m" and ok: "chunks_ok m cs" using Cons.prems by (simp_all add: chunks_ok_Cons)
    show ?thesis
    proof (cases "p < m")
      case True
      then have "p div m = 0" "p mod m = p" by simp_all
      then show ?thesis using c True unfolding byte_at_def by (simp add: nth_append)
    next
      case False
      then have "byte_at (concat (c # cs)) p = byte_at (concat cs) (p - m)"
        using c by (auto simp: byte_at_def nth_append)
      moreover have d: "p div m = Suc ((p - m) div m)" and r: "p mod m = (p - m) mod m"
        using False m by (simp_all add: le_div_geq le_mod_geq)
      ultimately show ?thesis using Cons.IH[OF ok, of "p - m"] unfolding d r by simp
    qed
  qed
qed

lemma length_concat_chunks:
  "chunks_ok m cs \<Longrightarrow> length (concat cs) = (length cs - 1) * m + length (last cs)"
proof (induction cs)
  case (Cons c cs)
  then show ?case by (cases cs) (auto simp: chunks_ok_Cons)
qed (simp add: chunks_ok_def)

lemma chunks_ok_update:
  assumes "chunks_ok m cs" and "i < length cs" and "length c' \<le> m" and "Suc i < length cs \<longrightarrow> length c' = m"
  shows "chunks_ok m (cs[i := c'])"
proof -
  have "length (last (cs[i := c'])) \<le> m"
    using assms by (cases "Suc i = length cs") (auto simp: chunks_ok_def last_list_update)
  then show ?thesis using assms by (auto simp: chunks_ok_def nth_list_update)
qed

lemma chunks_ok_snoc:
  assumes "chunks_ok m cs" and "length (last cs) = m"
  shows "chunks_ok m (cs @ [[]])"
proof -
  have "length (cs ! i) = m" if "i < length cs" for i
  proof (cases "Suc i < length cs")
    case False
    with that have "i = length cs - 1" by simp
    then show ?thesis using assms by (auto simp: chunks_ok_def last_conv_nth)
  qed (use assms in \<open>simp add: chunks_ok_def\<close>)
  then show ?thesis using assms by (simp add: chunks_ok_def nth_append)
qed

text \<open>Rounds left to do: a byte or a block of the gap per round.\<close>

definition write_rounds :: "nat \<Rightarrow> byte list list \<Rightarrow> nat \<Rightarrow> byte list \<Rightarrow> nat" where
  "write_rounds m cs pos d = (if d = [] then 0 else length d + (Suc (pos div m) - length cs))"

lemma CopyUntilSplit_length:
  assumes "CopyUntilSplit b block lst d off = Some (block', k)"
    and "0 \<le> off" and "in64 (off + int (length d))" and "in64 (bs_maxSize b)" "0 \<le> bs_maxSize b"
    and "in64 (int (length (fb_Contents block)))"
  shows "length (fb_Contents block') \<le> max (length (fb_Contents block)) (nat off + length d)"
  using assms(1) unfolding CopyUntilSplit_cases[OF refl refl refl assms(2-6)]
  using assms(2) by (auto simp: copy_at_Some_iff split: if_splits)

text \<open>
  One round: the bytes \<open>d\<close> that are left are written at \<open>pos\<close>. Chunk \<open>i\<close> becomes \<open>c'\<close>
  with \<open>k\<close> bytes copied, and an empty chunk is added if bytes are left after the last one.
\<close>

definition chunk_round :: "byte list list \<Rightarrow> nat \<Rightarrow> byte list \<Rightarrow> nat \<Rightarrow> byte list \<Rightarrow> byte list list" where
  "chunk_round cs i c' k d =
     (if k < length d \<and> Suc i = length cs then cs[i := c'] @ [[]] else cs[i := c'])"

definition split_round :: "nat \<Rightarrow> byte list list \<Rightarrow> nat \<Rightarrow> byte list \<Rightarrow> nat \<Rightarrow> byte list \<Rightarrow> bool" where
  "split_round m cs pos d k c' \<longleftrightarrow>
     (let i = chunk_index m cs pos; rel = pos - i * m in
      chunks_ok m cs \<and> d \<noteq> [] \<and> split_written (cs ! i) d rel k c' \<and> length c' \<le> m \<and>
      (k < length d \<longrightarrow> length c' = m) \<and> length c' \<le> max (length (cs ! i)) (rel + length d) \<and>
      (rel < m \<longrightarrow> 0 < k))"

lemma chunk_index_less: "chunks_ok m cs \<Longrightarrow> chunk_index m cs pos < length cs"
  by (cases cs) (auto simp: chunks_ok_def chunk_index_def min_def)

lemma chunk_index_le: "chunk_index m cs pos * m \<le> pos"
proof -
  have "chunk_index m cs pos \<le> pos div m" by (simp add: chunk_index_def)
  then show ?thesis by (metis div_times_less_eq_dividend le_trans mult_le_mono1)
qed

lemma split_round_more:
  assumes "split_round m cs pos d k c'" and "Suc (chunk_index m cs pos) < length cs"
  shows "length c' = m"
  using assms by (auto simp: split_round_def Let_def split_written_def chunks_ok_def intro: le_antisym)

lemma split_round_set:
  assumes r: "split_round m cs pos d k c'"
  shows "chunks_ok m (cs[chunk_index m cs pos := c'])"
proof -
  from r have ok: "chunks_ok m cs" and l: "length c' \<le> m" by (simp_all add: split_round_def Let_def)
  show ?thesis
    by (rule chunks_ok_update[OF ok chunk_index_less[OF ok] l]) (use split_round_more[OF r] in simp)
qed

lemma split_round_ok:
  assumes r: "split_round m cs pos d k c'"
  shows "chunks_ok m (chunk_round cs (chunk_index m cs pos) c' k d)"
proof (cases "k < length d \<and> Suc (chunk_index m cs pos) = length cs")
  case True
  let ?xs = "cs[chunk_index m cs pos := c']"
  have "cs \<noteq> []" and e: "length cs - 1 = chunk_index m cs pos" using True by auto
  then have "last ?xs = ?xs ! (length cs - 1)" by (simp add: last_conv_nth)
  also have "\<dots> = c'" unfolding e using True by simp
  finally have "last ?xs = c'" .
  then show ?thesis
    using True split_round_set[OF r] r by (simp add: chunk_round_def chunks_ok_snoc split_round_def Let_def)
next
  case False
  then have "chunk_round cs (chunk_index m cs pos) c' k d = cs[chunk_index m cs pos := c']"
    by (auto simp: chunk_round_def)
  then show ?thesis using split_round_set[OF r] by simp
qed

lemma concat_round: "concat (chunk_round cs i c' k d) = concat (cs[i := c'])"
  by (simp add: chunk_round_def)

text \<open>Within its chunk, a position of the file is its distance from the start of the chunk.\<close>

lemma byte_at_chunk:
  assumes "chunks_ok m cs" and "i < length cs" and "j < m"
  shows "byte_at (concat cs) (i * m + j) = byte_at (cs ! i) j"
proof -
  have "(i * m + j) div m = i" "(i * m + j) mod m = j"
    using assms(3) by (simp_all add: div_add1_eq)
  then show ?thesis using byte_at_concat[OF assms(1), of "i * m + j"] assms(2) by simp
qed

lemma split_round_bytes:
  assumes r: "split_round m cs pos d k c'"
  defines "F' \<equiv> concat (chunk_round cs (chunk_index m cs pos) c' k d)"
  shows "byte_at F' p =
     (if pos \<le> p \<and> p < pos + k then Some (d ! (p - pos))
      else if p < length (concat cs) then Some (concat cs ! p)
      else if p < length F' then Some 0 else None)"
proof -
  define i where "i = chunk_index m cs pos"
  from r have ok: "chunks_ok m cs" and w: "split_written (cs ! i) d (pos - i * m) k c'" and l: "length c' \<le> m"
    by (simp_all add: split_round_def Let_def i_def)
  have i: "i < length cs" "i * m \<le> pos" and m: "0 < m"
    using chunk_index_less[OF ok] chunk_index_le ok by (auto simp: i_def chunks_ok_def)
  have ok': "chunks_ok m (cs[i := c'])" using split_round_set[OF r] by (simp add: i_def)
  have F': "F' = concat (cs[i := c'])" by (simp add: F'_def concat_round i_def)
  have kl: "pos - i * m + k \<le> length c'" if "0 < k"
  proof -
    have "byte_at c' (pos - i * m + k - 1) \<noteq> None" using w that by (auto simp: split_written_def)
    then show ?thesis using that by simp
  qed
  show ?thesis
  proof (cases "p div m = i")
    case True
    define j where "j = p mod m"
    have p: "p = i * m + j" and j: "j < m" using True m div_mult_mod_eq[of p m] by (simp_all add: j_def)
    have new: "byte_at F' p = byte_at c' j"
      using byte_at_chunk[OF ok', of i j] i(1) j by (simp add: F' p)
    have old: "byte_at (concat cs) p = byte_at (cs ! i) j" using byte_at_chunk[OF ok i(1) j] by (simp add: p)
    obtain rel where rel: "pos = i * m + rel" using i(2) le_Suc_ex by blast
    have "byte_at F' p =
        (if rel \<le> j \<and> j < rel + k then Some (d ! (j - rel))
         else if j < length (cs ! i) then Some (cs ! i ! j) else if j < length c' then Some 0 else None)"
      using w unfolding new by (simp add: split_written_def rel)
    moreover have "p < length F' \<longleftrightarrow> j < length c'" using new by (metis byte_at_None_iff not_less)
    moreover have "p < length (concat cs) \<longleftrightarrow> j < length (cs ! i)" using old by (metis byte_at_None_iff not_less)
    moreover have "concat cs ! p = cs ! i ! j" if "j < length (cs ! i)"
      using old that calculation(3) by (simp add: byte_at_def)
    moreover have "pos \<le> p \<and> p < pos + k \<longleftrightarrow> rel \<le> j \<and> j < rel + k" "p - pos = j - rel"
      by (auto simp: rel p)
    ultimately show ?thesis by simp
  next
    case False
    have "byte_at F' p = byte_at (concat cs) p"
      using byte_at_concat[OF ok, of p] byte_at_concat[OF ok', of p] False by (simp add: F')
    moreover have "\<not> (pos \<le> p \<and> p < pos + k)"
    proof
      assume h: "pos \<le> p \<and> p < pos + k"
      then have "p < i * m + m" using kl l i(2) by auto
      moreover have "i * m \<le> p" using h i(2) by simp
      ultimately show False using False m
        by (metis add.commute div_less_iff_less_mult div_nat_eqI mult.commute mult_Suc)
    qed
    ultimately show ?thesis by (auto simp: byte_at_def split: if_splits)
  qed
qed

lemma split_round_length:
  assumes r: "split_round m cs pos d k c'"
  defines "F' \<equiv> concat (chunk_round cs (chunk_index m cs pos) c' k d)"
  shows "length (concat cs) \<le> length F'" and "length F' \<le> max (length (concat cs)) (pos + length d)"
    and "k \<le> length d"
proof -
  define i where "i = chunk_index m cs pos"
  from r have ok: "chunks_ok m cs" and w: "split_written (cs ! i) d (pos - i * m) k c'"
    and b: "length c' \<le> max (length (cs ! i)) (pos - i * m + length d)"
    by (simp_all add: split_round_def Let_def i_def)
  have i: "i < length cs" "i * m \<le> pos" using chunk_index_less[OF ok] chunk_index_le by (simp_all add: i_def)
  have lw: "length (cs ! i) \<le> length c'" and "k \<le> length d" using w by (simp_all add: split_written_def)
  then show "k \<le> length d" by simp
  have ok': "chunks_ok m (cs[i := c'])" using split_round_set[OF r] by (simp add: i_def)
  have F': "F' = concat (cs[i := c'])" by (simp add: F'_def concat_round i_def)
  have "length (concat cs) \<le> length F' \<and> length F' \<le> max (length (concat cs)) (pos + length d)"
  proof (cases "Suc i = length cs")
    case True
    then have ne: "cs \<noteq> []" and e: "length cs - 1 = i" by auto
    then have "last cs = cs ! i" "last (cs[i := c']) = c'"
      using i(1) by (simp_all add: last_conv_nth del: One_nat_def)
    moreover obtain rel where "pos = i * m + rel" using i(2) le_Suc_ex by blast
    ultimately show ?thesis
      unfolding F' length_concat_chunks[OF ok] length_concat_chunks[OF ok'] length_list_update e
      using lw b by auto
  next
    case False
    then have "length c' = length (cs ! i)" using split_round_more[OF r] ok i(1) by (simp add: i_def chunks_ok_def)
    then have "map length (cs[i := c']) = map length cs" by (simp add: map_update list_update_same_conv i(1))
    then show ?thesis unfolding F' length_concat by simp
  qed
  then show "length (concat cs) \<le> length F'" "length F' \<le> max (length (concat cs)) (pos + length d)" by simp_all
qed

lemma split_round_decreases:
  assumes r: "split_round m cs pos d k c'"
  shows "write_rounds m (chunk_round cs (chunk_index m cs pos) c' k d) (pos + k) (drop k d) < write_rounds m cs pos d"
proof -
  define i where "i = chunk_index m cs pos"
  let ?cs = "chunk_round cs i c' k d"
  from r have ok: "chunks_ok m cs" and w: "split_written (cs ! i) d (pos - i * m) k c'" and d: "d \<noteq> []"
    and l: "length c' \<le> m" and full: "k < length d \<longrightarrow> length c' = m" and prog: "pos - i * m < m \<longrightarrow> 0 < k"
    by (simp_all add: split_round_def Let_def i_def)
  have i: "i < length cs" "i * m \<le> pos" and m: "0 < m"
    using chunk_index_less[OF ok] chunk_index_le ok by (auto simp: i_def chunks_ok_def)
  show ?thesis
  proof (cases "k < length d")
    case False
    then show ?thesis using d unfolding i_def[symmetric] by (cases d) (simp_all add: write_rounds_def)
  next
    case True
    show ?thesis
    proof (cases "k = 0")
      case zero: True
      then have "i < pos div m" using prog i(2) m by (simp add: less_eq_div_iff_mult_less_eq Suc_le_eq[symmetric])
      then have "Suc i = length cs" using i(1) by (simp add: i_def chunk_index_def min_def split: if_splits)
      then show ?thesis using True zero d \<open>i < pos div m\<close>
        unfolding i_def[symmetric] by (simp add: write_rounds_def chunk_round_def)
    next
      case pos_k: False
      have "pos - i * m + k \<le> m"
      proof -
        have "byte_at c' (pos - i * m + k - 1) \<noteq> None" using w pos_k by (auto simp: split_written_def)
        then show ?thesis using pos_k l by simp
      qed
      then have "pos + k \<le> Suc i * m" using i(2) by simp
      then have "(pos + k) div m \<le> Suc i" using m by (metis div_le_mono nonzero_mult_div_cancel_right less_numeral_extra(3))
      moreover have "Suc i < length ?cs" using i(1) True by (auto simp: chunk_round_def)
      ultimately have "Suc ((pos + k) div m) - length ?cs = 0" by simp
      then show ?thesis using True pos_k d unfolding i_def[symmetric] by (simp add: write_rounds_def)
    qed
  qed
qed

text \<open>The splitter does such a round.\<close>

lemma CopyUntilSplit_round:
  assumes ok: "chunks_ok (nat (bs_maxSize b)) cs" and d: "d \<noteq> []" and m: "in64 (bs_maxSize b)"
    and off: "in64 (int pos + int (length d))"
  defines "i \<equiv> chunk_index (nat (bs_maxSize b)) cs pos"
  assumes block: "fb_Contents block = cs ! i" and rel: "rel = int pos - int (i * nat (bs_maxSize b))"
  shows "\<exists>c' k. CopyUntilSplit b block lst d rel = Some (block\<lparr>fb_Contents := c'\<rparr>, int k) \<and>
    split_round (nat (bs_maxSize b)) cs pos d k c'"
proof -
  let ?m = "nat (bs_maxSize b)"
  have m0: "0 < ?m" using ok by (simp add: chunks_ok_def)
  have i: "i < length cs" "i * ?m \<le> pos"
    using chunk_index_less[OF ok] chunk_index_le[of ?m cs pos] by (simp_all add: i_def)
  have n: "nat rel = pos - i * ?m" and rel0: "0 \<le> rel" and relp: "rel \<le> int pos"
    using i(2) unfolding rel by linarith+
  have sum: "in64 (rel + int (length d))" using off rel0 relp by (simp add: in64_def)
  have len: "length (cs ! i) \<le> ?m" using chunks_ok_nth[OF ok i(1)] .
  have c64: "in64 (int (length (fb_Contents block)))" using len m m0 by (simp add: block in64_def)
  have mm: "0 \<le> bs_maxSize b" using m0 by simp
  from CopyUntilSplit_written[OF refl refl refl rel0 sum m mm c64, of lst] obtain c' k where
    c: "CopyUntilSplit b block lst d rel = Some (block\<lparr>fb_Contents := c'\<rparr>, int k)"
    and w: "split_written (cs ! i) d (nat rel) k c'" "length c' \<le> max (length (cs ! i)) ?m"
      "k < length d \<longrightarrow> bs_maxSize b \<le> int (length c')"
      "d \<noteq> [] \<and> rel < bs_maxSize b \<and> int (length (cs ! i)) \<le> bs_maxSize b \<longrightarrow> 0 < k"
    unfolding block by blast
  have "length c' \<le> max (length (cs ! i)) (nat rel + length d)"
    using CopyUntilSplit_length[OF c rel0 sum m mm c64] by (simp add: block)
  moreover have "k < length d \<longrightarrow> length c' = ?m" using w(2,3) len mm by auto
  moreover have "nat rel < ?m \<longrightarrow> 0 < k" using w(4) d len mm rel0 by linarith
  ultimately have "split_round ?m cs pos d k c'"
    using ok d w len mm n rel0 unfolding split_round_def Let_def i_def[symmetric] by auto
  then show ?thesis using c by blast
qed

section \<open>Many rounds\<close>

text \<open>\<open>cs\<close> is what the file \<open>F\<close> has become after \<open>n\<close> bytes of \<open>d\<close> have been written at \<open>off\<close>.\<close>

definition partly_written :: "byte list \<Rightarrow> nat \<Rightarrow> byte list \<Rightarrow> nat \<Rightarrow> byte list list \<Rightarrow> bool" where
  "partly_written F off d n cs \<longleftrightarrow> n \<le> length d \<and>
     (\<forall>p. byte_at (concat cs) p =
        (if off \<le> p \<and> p < off + n then Some (d ! (p - off))
         else if p < length F then Some (F ! p)
         else if p < length (concat cs) then Some 0 else None)) \<and>
     length F \<le> length (concat cs) \<and> length (concat cs) \<le> max (length F) (off + length d)"

lemma partly_written_start: "partly_written (concat cs) off d 0 cs"
  by (auto simp: partly_written_def byte_at_def)

lemma partly_written_round:
  assumes p: "partly_written F off d n cs" and r: "split_round m cs (off + n) (drop n d) k c'"
  shows "partly_written F off d (n + k) (chunk_round cs (chunk_index m cs (off + n)) c' k (drop n d))"
proof -
  let ?cs = "chunk_round cs (chunk_index m cs (off + n)) c' k (drop n d)"
  note len = split_round_length[OF r]
  have old: "byte_at (concat cs) p =
        (if off \<le> p \<and> p < off + n then Some (d ! (p - off))
         else if p < length F then Some (F ! p)
         else if p < length (concat cs) then Some 0 else None)" for p
    using p by (simp add: partly_written_def)
  have n: "n \<le> length d" "length F \<le> length (concat cs)" "length (concat cs) \<le> max (length F) (off + length d)"
    using p by (auto simp: partly_written_def)
  have "byte_at (concat ?cs) p =
        (if off \<le> p \<and> p < off + (n + k) then Some (d ! (p - off))
         else if p < length F then Some (F ! p)
         else if p < length (concat ?cs) then Some 0 else None)" for p
  proof (cases "p < length (concat cs)")
    case True
    then have "concat cs ! p =
        (if off \<le> p \<and> p < off + n then d ! (p - off) else if p < length F then F ! p else 0)"
      using old[of p] by (auto simp: byte_at_def split: if_splits)
    then show ?thesis using split_round_bytes[OF r, of p] True len(1) n(1) by (auto simp: nth_drop)
  next
    case False
    then have "\<not> (off \<le> p \<and> p < off + n)" using old[of p] by (auto simp: byte_at_def split: if_splits)
    then show ?thesis using split_round_bytes[OF r, of p] False n by (auto simp: nth_drop)
  qed
  then show ?thesis using n len by (auto simp: partly_written_def)
qed

lemma partly_written_done:
  assumes "partly_written F off d (length d) cs" and "d \<noteq> []"
  shows "concat cs = flat_write F off d"
proof (rule byte_at_eqI)
  fix p
  have old: "\<And>p. byte_at (concat cs) p =
        (if off \<le> p \<and> p < off + length d then Some (d ! (p - off))
         else if p < length F then Some (F ! p)
         else if p < length (concat cs) then Some 0 else None)"
    and len: "length F \<le> length (concat cs)" "length (concat cs) \<le> max (length F) (off + length d)"
    using assms(1) by (auto simp: partly_written_def)
  obtain l where l: "length d = Suc l" using assms(2) by (cases d) auto
  have "byte_at (concat cs) (off + l) \<noteq> None" using old[of "off + l"] l by simp
  then have "off + length d \<le> length (concat cs)" using l by simp
  then show "byte_at (concat cs) p = byte_at (flat_write F off d) p"
    unfolding old byte_at_flat_write using len assms(2) by auto
qed

end
