(* ===== verification/Kbfs_Folder_Block_Ops.thy ===== *)
theory Kbfs_Folder_Block_Ops
  imports Kbfs_Block_Cache Kbfs_Ops Kbfs_File_Chunks
begin

text \<open>
  libkbfs/folder\_block\_ops.go: reading, writing and truncating the files of a folder on top of the
  block cache. The calls run under \<open>blockLock\<close>, which \<open>Kbfs_Leveled_Mutex\<close> is about; here they are
  functions on the state that the lock protects.
\<close>

section \<open>State\<close>

datatype blockReqType = blockRead | blockWrite

datatype syncBlockState = blockNotBeingSynced | blockSyncingNotDirty | blockSyncingAndDirty

datatype overallBlockState = cleanState | dirtyState

text \<open>A block with its encoded form, on its way to the server.\<close>

record blockState =
  bst_blockPtr :: BlockPointer
  bst_block :: Block
  bst_buf :: "byte list"

record syncInfo =
  si_oldInfo :: BlockInfo
  si_op :: syncOp
  si_unrefs :: "BlockInfo list"
  si_bps :: "blockState list option"
  si_refBytes :: uint64
  si_unrefBytes :: uint64

datatype deferredWrite = DeferredWrite "byte list" int | DeferredTruncate uint64

text \<open>
  Blocks are shared and changed in place, so they are objects: \<open>fs_heap\<close> holds them and an address is
  an index into it. \<open>fs_dirty\<close> is the dirty map of the block cache, holding addresses; \<open>fs_cache\<close> is the
  rest of the cache. Clean blocks are never changed, so a clean block may get a new address every time
  it is looked up. The maps that loops walk or whose emptiness is tested are association lists.
  \<open>fs_fileBlockStates\<close> gives \<open>blockNotBeingSynced\<close>, the zero value, for missing keys.
  \<open>fs_tempCount\<close> counts the calls of \<open>MakeTemporaryBlockID\<close>.
\<close>

record fboState =
  fs_heap :: "Block list"
  fs_cache :: BlockCacheStandard
  fs_dirty :: "(dirtyBlockID \<times> nat) list"
  fs_fileBlockStates :: "BlockPointer \<Rightarrow> syncBlockState"
  fs_unrefCache :: "blockRef \<rightharpoonup> syncInfo"
  fs_deCache :: "(blockRef \<times> DirEntry) list"
  fs_deferredWrites :: "deferredWrite list"
  fs_deferredDirtyDeletes :: "BlockPointer list"
  fs_doDeferWrite :: bool
  fs_tempCount :: nat

text \<open>
  What the calls get from elsewhere: the block server behind \<open>BlockOps.Get\<close> (which decodes into an
  empty block of the wanted kind), the codec behind \<open>DeepCopy\<close>, the random IDs, the current user, the
  writers of the folder, the configuration. \<open>fe_levels\<close> bounds how deep indirect blocks nest. No operation looks at
  \<open>fe_known\<close>: the statements about files use it for the pointers of the folder, each with the empty block that it is fetched into.
\<close>

record fboEnv =
  fe_folderBranch :: FolderBranch
  fe_bopsGet :: "BlockPointer \<Rightarrow> Block \<Rightarrow> string + Block"
  fe_copyFile :: "FileBlock \<Rightarrow> string + FileBlock"
  fe_copyDir :: "DirBlock \<Rightarrow> string + DirBlock"
  fe_tempID :: "nat \<Rightarrow> string + BlockID"
  fe_user :: "string + UID"
  fe_writers :: "UID list"
  fe_keyGen :: int
  fe_dataVer :: int
  fe_maxFileBytes :: uint64
  fe_splitter :: BlockSplitterSimple
  fe_levels :: nat
  fe_known :: "BlockPointer \<Rightarrow> Block \<Rightarrow> bool"

datatype fbo_error =
    InvalidBlockRefError blockRef
  | NotFileBlockError BlockPointer
  | NotDirBlockError BlockPointer
  | InvalidPathError path
  | InvalidParentPathError path
  | NoSuchNameError string
  | FileTooBigError path int uint64
  | WriteAccessError
  | BadSplitError
  | ServerError string
  | CodecCopyError string
  | CryptoError string
  | UserInfoError string
  | BlockCacheError bcache_error
  | IndexPanic
  | SlicePanic
  | NilDereference
  | OutOfFuel

type_synonym 'a fbo = "(fboState, fbo_error, 'a) act"

subsection \<open>Objects and the dirty cache\<close>

definition newBlock :: "Block \<Rightarrow> nat fbo" where
  "newBlock b s = (Inr (length (fs_heap s)), s\<lparr>fs_heap := fs_heap s @ [b]\<rparr>)"

text \<open>A \<open>*FileBlock\<close> and a \<open>*DirBlock\<close>; they are only read at addresses of such blocks.\<close>

definition fileAt :: "fboState \<Rightarrow> nat \<Rightarrow> FileBlock" where
  "fileAt s a = (case fs_heap s ! a of FileB b \<Rightarrow> b | _ \<Rightarrow> NewFileBlock)"

definition dirAt :: "fboState \<Rightarrow> nat \<Rightarrow> DirBlock" where
  "dirAt s a = (case fs_heap s ! a of DirB b \<Rightarrow> b | _ \<Rightarrow> NewDirBlock)"

definition setFile :: "nat \<Rightarrow> FileBlock \<Rightarrow> fboState \<Rightarrow> fboState" where
  "setFile a b s = s\<lparr>fs_heap := (fs_heap s)[a := FileB b]\<rparr>"

definition dirtyAddr :: "fboState \<Rightarrow> BlockPointer \<Rightarrow> BranchName \<Rightarrow> nat option" where
  "dirtyAddr s ptr branch = map_of (fs_dirty s) (dirtyID ptr branch)"

definition isDirtyPtr :: "fboState \<Rightarrow> BlockPointer \<Rightarrow> BranchName \<Rightarrow> bool" where
  "isDirtyPtr s ptr branch \<longleftrightarrow> dirtyAddr s ptr branch \<noteq> None"

definition putDirtyPtr :: "BlockPointer \<Rightarrow> BranchName \<Rightarrow> nat \<Rightarrow> fboState \<Rightarrow> fboState" where
  "putDirtyPtr ptr branch a s = s\<lparr>fs_dirty := AList.update (dirtyID ptr branch) a (fs_dirty s)\<rparr>"

definition deleteDirtyPtr :: "BlockPointer \<Rightarrow> BranchName \<Rightarrow> fboState \<Rightarrow> fboState" where
  "deleteDirtyPtr ptr branch s = s\<lparr>fs_dirty := AList.delete (dirtyID ptr branch) (fs_dirty s)\<rparr>"

definition tailA :: "path \<Rightarrow> BlockPointer fbo" where
  "tailA p = theA (Panic IndexPanic) (tailPointer p)"

definition branchOf :: "path \<Rightarrow> BranchName" where
  "branchOf p = fbr_Branch (p_FolderBranch p)"

section \<open>Getting blocks\<close>

definition GetState :: "fboState \<Rightarrow> overallBlockState" where
  "GetState s = (if fs_deCache s = [] then cleanState else dirtyState)"

definition getBlockHelperLocked :: "fboEnv \<Rightarrow> BlockPointer \<Rightarrow> BranchName \<Rightarrow> Block \<Rightarrow> bool \<Rightarrow> nat fbo" where
  "getBlockHelperLocked e ptr branch emptyBlock doCache s =
     (if \<not> BlockPointer_IsValid ptr then failA (Error (InvalidBlockRefError (BlockPointer_ref ptr))) s
      else case dirtyAddr s ptr branch of
        Some a \<Rightarrow> retA a s
      | None \<Rightarrow>
          (case bcache_Get (fs_cache s) ptr branch of
             (c, Inr block) \<Rightarrow> newBlock block (s\<lparr>fs_cache := c\<rparr>)
           | (c, Inl _) \<Rightarrow>
               (case fe_bopsGet e ptr emptyBlock of
                  Inl er \<Rightarrow> failA (Error (ServerError er)) (s\<lparr>fs_cache := c\<rparr>)
                | Inr block \<Rightarrow>
                    if doCache then
                      (case bcache_Put c ptr (fbr_Tlf (fe_folderBranch e)) block TransientEntry of
                         (c', Some er) \<Rightarrow> failA (Error (BlockCacheError er)) (s\<lparr>fs_cache := c'\<rparr>)
                       | (c', None) \<Rightarrow> newBlock block (s\<lparr>fs_cache := c'\<rparr>))
                    else newBlock block (s\<lparr>fs_cache := c\<rparr>))))"

definition getFileBlockHelperLocked :: "fboEnv \<Rightarrow> BlockPointer \<Rightarrow> BranchName \<Rightarrow> nat fbo" where
  "getFileBlockHelperLocked e ptr branch =
     bindA (getBlockHelperLocked e ptr branch (FileB NewFileBlock) True) (\<lambda>a.
     bindA (readA (\<lambda>s. fs_heap s ! a)) (\<lambda>block.
       case block of FileB _ \<Rightarrow> retA a | _ \<Rightarrow> failA (Error (NotFileBlockError ptr))))"

definition GetBlockForReading :: "fboEnv \<Rightarrow> BlockPointer \<Rightarrow> BranchName \<Rightarrow> nat fbo" where
  "GetBlockForReading e ptr branch = getBlockHelperLocked e ptr branch (CommonB False 0) False"

definition getDirBlockHelperLocked :: "fboEnv \<Rightarrow> BlockPointer \<Rightarrow> BranchName \<Rightarrow> nat fbo" where
  "getDirBlockHelperLocked e ptr branch =
     bindA (getBlockHelperLocked e ptr branch (DirB NewDirBlock) True) (\<lambda>a.
     bindA (readA (\<lambda>s. fs_heap s ! a)) (\<lambda>block.
       case block of DirB _ \<Rightarrow> retA a | _ \<Rightarrow> failA (Error (NotDirBlockError ptr))))"

definition GetFileBlockForReading :: "fboEnv \<Rightarrow> BlockPointer \<Rightarrow> BranchName \<Rightarrow> nat fbo" where
  "GetFileBlockForReading e ptr branch = getFileBlockHelperLocked e ptr branch"

definition GetDirBlockForReading :: "fboEnv \<Rightarrow> BlockPointer \<Rightarrow> BranchName \<Rightarrow> nat fbo" where
  "GetDirBlockForReading e ptr branch = getDirBlockHelperLocked e ptr branch"

definition FileBlock_DeepCopy :: "fboEnv \<Rightarrow> nat \<Rightarrow> nat fbo" where
  "FileBlock_DeepCopy e a s =
     (case fe_copyFile e (fileAt s a) of
        Inl er \<Rightarrow> failA (Error (CodecCopyError er)) s
      | Inr b \<Rightarrow> newBlock (FileB b) s)"

definition DirBlock_DeepCopy :: "fboEnv \<Rightarrow> nat \<Rightarrow> nat fbo" where
  "DirBlock_DeepCopy e a s =
     (case fe_copyDir e (dirAt s a) of
        Inl er \<Rightarrow> failA (Error (CodecCopyError er)) s
      | Inr b \<Rightarrow> newBlock (DirB b) s)"

definition getFileBlockLocked :: "fboEnv \<Rightarrow> BlockPointer \<Rightarrow> path \<Rightarrow> blockReqType \<Rightarrow> nat fbo" where
  "getFileBlockLocked e ptr file rtype =
     (if \<not> path_isValid file then failA (Error (InvalidPathError file))
      else bindA (getFileBlockHelperLocked e ptr (branchOf file)) (\<lambda>a.
           bindA (readA id) (\<lambda>s.
             if rtype = blockWrite \<and>
                (\<not> isDirtyPtr s ptr (branchOf file) \<or> fs_fileBlockStates s ptr = blockSyncingNotDirty)
             then FileBlock_DeepCopy e a else retA a)))"

definition getFileLocked :: "fboEnv \<Rightarrow> path \<Rightarrow> blockReqType \<Rightarrow> nat fbo" where
  "getFileLocked e file rtype = bindA (tailA file) (\<lambda>ptr. getFileBlockLocked e ptr file rtype)"

definition GetIndirectFileBlockInfos :: "fboEnv \<Rightarrow> path \<Rightarrow> BlockInfo list fbo" where
  "GetIndirectFileBlockInfos e file =
     bindA (getFileLocked e file blockRead) (\<lambda>a.
     bindA (readA (\<lambda>s. fileAt s a)) (\<lambda>fBlock.
       retA (if \<not> fb_IsInd fBlock then [] else map ifp_BlockInfo (fb_IPtrs fBlock))))"

definition getDirLocked :: "fboEnv \<Rightarrow> path \<Rightarrow> blockReqType \<Rightarrow> nat fbo" where
  "getDirLocked e dir rtype =
     (if \<not> path_isValid dir then failA (Error (InvalidPathError dir))
      else bindA (tailA dir) (\<lambda>ptr.
           bindA (getDirBlockHelperLocked e ptr (branchOf dir)) (\<lambda>a.
           bindA (readA id) (\<lambda>s.
             if rtype = blockWrite \<and> \<not> isDirtyPtr s ptr (branchOf dir)
             then DirBlock_DeepCopy e a else retA a))))"

text \<open>
  The search among the pointers of an indirect block: the first pointer with that offset, or the one
  before the first with a larger offset, or the last.
\<close>

fun nextIndex :: "IndirectFilePtr list \<Rightarrow> int \<Rightarrow> int \<Rightarrow> int \<Rightarrow> int" where
  "nextIndex [] off i lastIndex = lastIndex"
| "nextIndex (ptr # ptrs) off i lastIndex =
     (if ifp_Off ptr = off then i
      else if ifp_Off ptr > off then i - 1
      else nextIndex ptrs off (i + 1) lastIndex)"

record blockAtOffset =
  bo_ptr :: BlockPointer
  bo_parentBlock :: "nat option"
  bo_indexInParent :: nat
  bo_block :: nat
  bo_more :: bool
  bo_startOff :: int

primrec blockAtOffsetLoop :: "nat \<Rightarrow> fboEnv \<Rightarrow> path \<Rightarrow> int \<Rightarrow> blockReqType \<Rightarrow> blockAtOffset \<Rightarrow> blockAtOffset fbo" where
  "blockAtOffsetLoop 0 e file off rtype r s =
     (if fb_IsInd (fileAt s (bo_block r)) then failA (Panic OutOfFuel) s else retA r s)"
| "blockAtOffsetLoop (Suc fuel) e file off rtype r s =
     (let block = fileAt s (bo_block r);
          len = int (length (fb_IPtrs block));
          i = nextIndex (fb_IPtrs block) off 0 (len - 1)
      in if \<not> fb_IsInd block then retA r s
         else if i < 0 \<or> i \<ge> len then failA (Panic IndexPanic) s
         else let nextPtr = fb_IPtrs block ! nat i;
                  ptr = bi_BlockPointer (ifp_BlockInfo nextPtr)
              in bindA (getFileBlockLocked e ptr file rtype) (\<lambda>a.
                   blockAtOffsetLoop fuel e file off rtype
                     \<lparr>bo_ptr = ptr, bo_parentBlock = Some (bo_block r), bo_indexInParent = nat i, bo_block = a,
                      bo_more = (bo_more r \<or> i \<noteq> len - 1), bo_startOff = ifp_Off nextPtr\<rparr>) s)"

definition getFileBlockAtOffsetLocked ::
  "fboEnv \<Rightarrow> path \<Rightarrow> nat \<Rightarrow> int \<Rightarrow> blockReqType \<Rightarrow> blockAtOffset fbo" where
  "getFileBlockAtOffsetLocked e file topBlock off rtype =
     bindA (tailA file) (\<lambda>ptr.
       blockAtOffsetLoop (fe_levels e) e file off rtype
         \<lparr>bo_ptr = ptr, bo_parentBlock = None, bo_indexInParent = 0, bo_block = topBlock, bo_more = False,
          bo_startOff = 0\<rparr>)"

section \<open>Directory entries\<close>

definition entryRef :: "DirEntry \<Rightarrow> blockRef" where
  "entryRef de = BlockPointer_ref (bi_BlockPointer (de_BlockInfo de))"

text \<open>The entries of a directory, with those of dirty files replaced by the cached ones.\<close>

definition dirtyChildren :: "(blockRef \<rightharpoonup> DirEntry) \<Rightarrow> (string \<rightharpoonup> DirEntry) \<Rightarrow> string \<rightharpoonup> DirEntry" where
  "dirtyChildren deCache children k =
     (case children k of
        None \<Rightarrow> None
      | Some v \<Rightarrow> (case deCache (entryRef v) of None \<Rightarrow> Some v | Some de \<Rightarrow> Some de))"

definition updateWithDirtyEntriesLocked :: "fboEnv \<Rightarrow> nat \<Rightarrow> nat fbo" where
  "updateWithDirtyEntriesLocked e a s =
     (if fs_deCache s = [] then retA a s
      else if \<not> (\<exists>k v. db_Children (dirAt s a) k = Some v \<and> map_of (fs_deCache s) (entryRef v) \<noteq> None) then retA a s
      else bindA (DirBlock_DeepCopy e a) (\<lambda>a'.
             bindA (updA (\<lambda>s. s\<lparr>fs_heap := (fs_heap s)[a' :=
                      DirB ((dirAt s a')\<lparr>db_Children := dirtyChildren (map_of (fs_deCache s)) (db_Children (dirAt s a'))\<rparr>)]\<rparr>))
               (\<lambda>_. retA a')) s)"

definition getDirtyDirLocked :: "fboEnv \<Rightarrow> path \<Rightarrow> blockReqType \<Rightarrow> nat fbo" where
  "getDirtyDirLocked e dir rtype = bindA (getDirLocked e dir rtype) (updateWithDirtyEntriesLocked e)"

definition GetDirtyDirChildren :: "fboEnv \<Rightarrow> path \<Rightarrow> (string \<rightharpoonup> EntryInfo) fbo" where
  "GetDirtyDirChildren e dir =
     bindA (getDirtyDirLocked e dir blockRead) (\<lambda>a.
       readA (\<lambda>s. map_option de_EntryInfo \<circ> db_Children (dirAt s a)))"

definition getDirtyParentAndEntryLocked :: "fboEnv \<Rightarrow> path \<Rightarrow> blockReqType \<Rightarrow> (nat \<times> DirEntry) fbo" where
  "getDirtyParentAndEntryLocked e file rtype =
     (if \<not> hasValidParent file then failA (Error (InvalidParentPathError file))
      else bindA (theA (Panic IndexPanic) (parentPath file)) (\<lambda>parent.
           bindA (getDirtyDirLocked e parent rtype) (\<lambda>a.
           bindA (theA (Panic IndexPanic) (tailName file)) (\<lambda>name.
           bindA (readA (\<lambda>s. db_Children (dirAt s a) name)) (\<lambda>de.
             case de of
               None \<Rightarrow> failA (Error (NoSuchNameError name))
             | Some de \<Rightarrow> retA (a, de))))))"

definition GetDirtyParentAndEntry :: "fboEnv \<Rightarrow> path \<Rightarrow> (nat \<times> DirEntry) fbo" where
  "GetDirtyParentAndEntry e file = getDirtyParentAndEntryLocked e file blockWrite"

definition getDirtyEntryLocked :: "fboEnv \<Rightarrow> path \<Rightarrow> DirEntry fbo" where
  "getDirtyEntryLocked e file = bindA (getDirtyParentAndEntryLocked e file blockRead) (\<lambda>(a, de). retA de)"

definition GetDirtyEntry :: "fboEnv \<Rightarrow> path \<Rightarrow> DirEntry fbo" where
  "GetDirtyEntry e file = getDirtyEntryLocked e file"

section \<open>Writing\<close>

definition setBlockState :: "BlockPointer \<Rightarrow> syncBlockState \<Rightarrow> fboState \<Rightarrow> fboState" where
  "setBlockState ptr st s = s\<lparr>fs_fileBlockStates := (fs_fileBlockStates s)(ptr := st)\<rparr>"

definition cacheBlockIfNotYetDirtyLocked :: "BlockPointer \<Rightarrow> BranchName \<Rightarrow> nat \<Rightarrow> fboState \<Rightarrow> fboState" where
  "cacheBlockIfNotYetDirtyLocked ptr branch a s =
     (if \<not> isDirtyPtr s ptr branch then putDirtyPtr ptr branch a s
      else case fs_fileBlockStates s ptr of
        blockNotBeingSynced \<Rightarrow> s
      | blockSyncingNotDirty \<Rightarrow>
          (setBlockState ptr blockSyncingAndDirty (putDirtyPtr ptr branch a s))\<lparr>fs_doDeferWrite := True\<rparr>
      | blockSyncingAndDirty \<Rightarrow> s\<lparr>fs_doDeferWrite := True\<rparr>)"

definition MakeTemporaryBlockID :: "fboEnv \<Rightarrow> BlockID fbo" where
  "MakeTemporaryBlockID e s =
     (case fe_tempID e (fs_tempCount s) of
        Inl er \<Rightarrow> failA (Error (CryptoError er)) (s\<lparr>fs_tempCount := Suc (fs_tempCount s)\<rparr>)
      | Inr i \<Rightarrow> retA i (s\<lparr>fs_tempCount := Suc (fs_tempCount s)\<rparr>))"

definition GetCurrentUID :: "fboEnv \<Rightarrow> UID fbo" where
  "GetCurrentUID e = (case fe_user e of Inl er \<Rightarrow> failA (Error (UserInfoError er)) | Inr uid \<Rightarrow> retA uid)"

definition newBlockPointer :: "fboEnv \<Rightarrow> BlockID \<Rightarrow> UID \<Rightarrow> BlockPointer" where
  "newBlockPointer e i uid =
     \<lparr>bp_ID = i, bp_KeyGen = fe_keyGen e, bp_DataVer = fe_dataVer e, bp_Creator = uid, bp_Writer = [],
      bp_RefNonce = zeroBlockRefNonce\<rparr>"

definition newIndirectPtr :: "fboEnv \<Rightarrow> BlockID \<Rightarrow> UID \<Rightarrow> int \<Rightarrow> IndirectFilePtr" where
  "newIndirectPtr e i uid off =
     \<lparr>ifp_BlockInfo = \<lparr>bi_BlockPointer = newBlockPointer e i uid, bi_EncodedSize = 0\<rparr>, ifp_Off = off\<rparr>"

definition appendIPtr :: "nat \<Rightarrow> IndirectFilePtr \<Rightarrow> fboState \<Rightarrow> fboState" where
  "appendIPtr a ip s = setFile a ((fileAt s a)\<lparr>fb_IPtrs := fb_IPtrs (fileAt s a) @ [ip]\<rparr>) s"

definition newRightBlockLocked :: "fboEnv \<Rightarrow> BlockPointer \<Rightarrow> BranchName \<Rightarrow> nat \<Rightarrow> int \<Rightarrow> unit fbo" where
  "newRightBlockLocked e ptr branch pblock off =
     bindA (MakeTemporaryBlockID e) (\<lambda>newRID.
     bindA (GetCurrentUID e) (\<lambda>uid.
     bindA (newBlock (FileB NewFileBlock)) (\<lambda>rblock.
     bindA (updA (appendIPtr pblock (newIndirectPtr e newRID uid off))) (\<lambda>_.
     bindA (updA (putDirtyPtr (newBlockPointer e newRID uid) branch rblock)) (\<lambda>_.
       updA (cacheBlockIfNotYetDirtyLocked ptr branch pblock))))))"

definition getOrCreateSyncInfoLocked :: "DirEntry \<Rightarrow> fboState \<Rightarrow> fboState" where
  "getOrCreateSyncInfoLocked de s =
     (case fs_unrefCache s (entryRef de) of
        Some _ \<Rightarrow> s
      | None \<Rightarrow>
          s\<lparr>fs_unrefCache := (fs_unrefCache s)(entryRef de \<mapsto>
              \<lparr>si_oldInfo = de_BlockInfo de, si_op = newSyncOp (bi_BlockPointer (de_BlockInfo de)), si_unrefs = [],
               si_bps = None, si_refBytes = 0, si_unrefBytes = 0\<rparr>)\<rparr>)"

text \<open>The \<open>syncInfo\<close> of a write is the object in \<open>unrefCache\<close>: changing it changes the map.\<close>

definition updSyncInfo :: "blockRef \<Rightarrow> (syncInfo \<Rightarrow> syncInfo) \<Rightarrow> fboState \<Rightarrow> fboState" where
  "updSyncInfo ref f s = s\<lparr>fs_unrefCache := (fs_unrefCache s)(ref := map_option f (fs_unrefCache s ref))\<rparr>"

definition addUnref :: "BlockInfo \<Rightarrow> syncInfo \<Rightarrow> syncInfo" where
  "addUnref info si = si\<lparr>si_unrefs := si_unrefs si @ [info]\<rparr>"

definition GetDirtyRefs :: "fboState \<Rightarrow> blockRef list" where
  "GetDirtyRefs s = map fst (fs_deCache s)"

text \<open>
  A new parent block for a file of one block: the parent takes over the pointer of the file, the block
  gets a new one.
\<close>

definition makeParentBlock :: "fboEnv \<Rightarrow> path \<Rightarrow> BlockPointer \<Rightarrow> UID \<Rightarrow> (nat \<times> BlockPointer) fbo" where
  "makeParentBlock e file tail uid =
     bindA (MakeTemporaryBlockID e) (\<lambda>newID.
     bindA (newBlock (FileB (NewFileBlock\<lparr>fb_IsInd := True, fb_IPtrs := [newIndirectPtr e newID uid 0]\<rparr>))) (\<lambda>fblock.
     bindA (updA (putDirtyPtr tail (branchOf file) fblock)) (\<lambda>_.
       retA (fblock, newBlockPointer e newID uid))))"

text \<open>Marks the pointer in the parent as changed, remembering what it was.\<close>

definition markChild :: "blockRef \<Rightarrow> nat \<Rightarrow> nat \<Rightarrow> fboState \<Rightarrow> fboState" where
  "markChild siRef parent i s =
     (let b = fileAt s parent; ip = fb_IPtrs b ! i
      in setFile parent (b\<lparr>fb_IPtrs := (fb_IPtrs b)[i := ip\<lparr>ifp_BlockInfo := (ifp_BlockInfo ip)\<lparr>bi_EncodedSize := 0\<rparr>\<rparr>]\<rparr>)
           (updSyncInfo siRef (addUnref (ifp_BlockInfo ip)) s))"

definition grownEntry :: "DirEntry \<Rightarrow> int \<Rightarrow> DirEntry" where
  "grownEntry de n =
     de\<lparr>de_BlockInfo := (de_BlockInfo de)\<lparr>bi_EncodedSize := 0\<rparr>,
        de_EntryInfo := (de_EntryInfo de)\<lparr>ei_Size := ei_Size (de_EntryInfo de) + of_int n\<rparr>\<rparr>"

definition cacheEntry :: "blockRef \<Rightarrow> DirEntry \<Rightarrow> fboState \<Rightarrow> fboState" where
  "cacheEntry ref de s = s\<lparr>fs_deCache := AList.update ref de (fs_deCache s)\<rparr>"

text \<open>
  One round of the loop of \<open>writeDataLocked\<close>. When bytes are left after the last block, there is a new block
  to its right; then the entry grows with the block, and the changed blocks become dirty.
\<close>

definition growRight ::
  "fboEnv \<Rightarrow> path \<Rightarrow> BlockPointer \<Rightarrow> UID \<Rightarrow> nat \<Rightarrow> blockAtOffset \<Rightarrow> nat \<Rightarrow> (nat \<times> BlockPointer) fbo" where
  "growRight e file tail uid fblock r newLen =
     bindA (if bo_ptr r = tail then makeParentBlock e file tail uid else retA (fblock, bo_ptr r)) (\<lambda>(fblock, ptr).
     bindA (newRightBlockLocked e tail (branchOf file) fblock (wrap64 (bo_startOff r + int newLen))) (\<lambda>_.
       retA (fblock, ptr)))"

definition endRound ::
  "path \<Rightarrow> BlockPointer \<Rightarrow> blockRef \<Rightarrow> blockAtOffset \<Rightarrow> nat \<Rightarrow> nat \<Rightarrow> DirEntry \<Rightarrow> BlockPointer \<Rightarrow> fboState \<Rightarrow> fboState" where
  "endRound file tail siRef r oldLen newLen de ptr s =
     cacheBlockIfNotYetDirtyLocked ptr (branchOf file) (bo_block r)
       ((case bo_parentBlock r of None \<Rightarrow> id | Some p \<Rightarrow> markChild siRef p (bo_indexInParent r))
          ((if oldLen \<noteq> newLen then cacheEntry (BlockPointer_ref tail) de else id) s))"

text \<open>The new top block, entry, count and dirtied pointer.\<close>

definition writeRound ::
  "fboEnv \<Rightarrow> path \<Rightarrow> BlockPointer \<Rightarrow> UID \<Rightarrow> blockRef \<Rightarrow> byte list \<Rightarrow> int \<Rightarrow> nat \<Rightarrow> DirEntry \<Rightarrow> int \<Rightarrow>
   (nat \<times> DirEntry \<times> int \<times> BlockPointer) fbo" where
  "writeRound e file tail uid siRef d off fblock de nCopied =
     bindA (getFileBlockAtOffsetLocked e file fblock (wrap64 (off + nCopied)) blockWrite) (\<lambda>r.
     bindA (readA (\<lambda>s. fileAt s (bo_block r))) (\<lambda>old.
     bindA (theA (Panic SlicePanic)
              (CopyUntilSplit (fe_splitter e) old (\<not> bo_more r) (drop (nat nCopied) d)
                (wrap64 (wrap64 (off + nCopied) - bo_startOff r)))) (\<lambda>(new, k).
     bindA (updA (setFile (bo_block r) new)) (\<lambda>_.
     let oldLen = length (fb_Contents old);
         newLen = length (fb_Contents new);
         nCopied = wrap64 (nCopied + k);
         de' = (if oldLen \<noteq> newLen then grownEntry de (int newLen - int oldLen) else de)
     in if bo_more r \<and> oldLen < newLen then failA (Error BadSplitError)
        else
     bindA (if nCopied < int (length d) \<and> \<not> bo_more r then growRight e file tail uid fblock r newLen
            else retA (fblock, bo_ptr r)) (\<lambda>(fblock, ptr).
     bindA (updA (endRound file tail siRef r oldLen newLen de' ptr)) (\<lambda>_.
       retA (fblock, de', nCopied, ptr)))))))"

text \<open>The loop, for at most \<open>fuel\<close> rounds.\<close>

primrec writeLoop ::
  "nat \<Rightarrow> fboEnv \<Rightarrow> path \<Rightarrow> BlockPointer \<Rightarrow> UID \<Rightarrow> blockRef \<Rightarrow> byte list \<Rightarrow> int \<Rightarrow> nat \<Rightarrow> DirEntry \<Rightarrow> int \<Rightarrow>
   BlockPointer list \<Rightarrow> (nat \<times> BlockPointer list) fbo" where
  "writeLoop 0 e file tail uid siRef d off fblock de nCopied dirtyPtrs =
     (if nCopied < int (length d) then failA (Panic OutOfFuel) else retA (fblock, dirtyPtrs))"
| "writeLoop (Suc fuel) e file tail uid siRef d off fblock de nCopied dirtyPtrs =
     (if nCopied < int (length d) then
        bindA (writeRound e file tail uid siRef d off fblock de nCopied) (\<lambda>(fblock, de, nCopied, ptr).
          writeLoop fuel e file tail uid siRef d off fblock de nCopied (dirtyPtrs @ [ptr]))
      else retA (fblock, dirtyPtrs))"

text \<open>
  \<open>fuel\<close> is enough for a byte or a block of the gap per round. The sync that is forced when too many bytes
  are dirty is a message to another goroutine and not part of the state.
\<close>

definition writeDataLocked :: "nat \<Rightarrow> fboEnv \<Rightarrow> path \<Rightarrow> byte list \<Rightarrow> int \<Rightarrow> (WriteRange \<times> BlockPointer list) fbo" where
  "writeDataLocked fuel e file d off =
     (let sz = wrap64 (off + int (length d))
      in if (of_int sz :: uint64) > fe_maxFileBytes e then failA (Error (FileTooBigError file sz (fe_maxFileBytes e)))
         else
     bindA (GetCurrentUID e) (\<lambda>uid.
     if \<not> List.member (fe_writers e) uid then failA (Error WriteAccessError)
     else
     bindA (getFileLocked e file blockWrite) (\<lambda>fblock.
     bindA (getDirtyEntryLocked e file) (\<lambda>de.
     bindA (updA (getOrCreateSyncInfoLocked de)) (\<lambda>_.
     bindA (tailA file) (\<lambda>tail.
     bindA (writeLoop fuel e file tail uid (entryRef de) d off fblock de 0 []) (\<lambda>(fblock, dirtyPtrs).
     bindA (readA (\<lambda>s. fb_IsInd (fileAt s fblock))) (\<lambda>isInd.
     bindA (updA (if isInd then cacheBlockIfNotYetDirtyLocked tail (branchOf file) fblock else id)) (\<lambda>_.
     bindA (updA (updSyncInfo (entryRef de) (\<lambda>si. si\<lparr>si_op := fst (addWrite (si_op si) (of_int off) (of_nat (length d)))\<rparr>))) (\<lambda>_.
       retA (\<lparr>wr_Off = of_int off, wr_Len = of_nat (length d)\<rparr>,
             if isInd then dirtyPtrs @ [tail] else dirtyPtrs)))))))))))"

text \<open>\<open>Write\<close> and \<open>Truncate\<close> after they have got the lock, on the path \<open>p\<close> that the node cache gives.\<close>

definition pathFromNodeForBlockWriteLocked :: "path \<Rightarrow> path fbo" where
  "pathFromNodeForBlockWriteLocked p =
     (if \<not> path_isValid p then failA (Error (InvalidPathError p)) else retA p)"

definition endWrite :: "(fbo_error, 'a) result \<times> fboState \<Rightarrow> (fbo_error, 'a) result \<times> fboState" where
  "endWrite rs = (fst rs, (snd rs)\<lparr>fs_doDeferWrite := False\<rparr>)"

definition deferIfNeeded :: "BlockPointer list \<Rightarrow> deferredWrite \<Rightarrow> fboState \<Rightarrow> fboState" where
  "deferIfNeeded dirtyPtrs dw s =
     (if fs_doDeferWrite s
      then s\<lparr>fs_deferredDirtyDeletes := fs_deferredDirtyDeletes s @ dirtyPtrs,
             fs_deferredWrites := fs_deferredWrites s @ [dw]\<rparr>
      else s)"

definition fbo_Write :: "nat \<Rightarrow> fboEnv \<Rightarrow> path \<Rightarrow> byte list \<Rightarrow> int \<Rightarrow> unit fbo" where
  "fbo_Write fuel e p d off =
     bindA (pathFromNodeForBlockWriteLocked p) (\<lambda>filePath s.
       endWrite (bindA (writeDataLocked fuel e filePath d off) (\<lambda>(latestWrite, dirtyPtrs).
         updA (deferIfNeeded dirtyPtrs (DeferredWrite d off))) s))"

section \<open>Reading\<close>

primrec readLoop :: "nat \<Rightarrow> fboEnv \<Rightarrow> path \<Rightarrow> nat \<Rightarrow> int \<Rightarrow> byte list \<Rightarrow> int \<Rightarrow> (int \<times> byte list) fbo" where
  "readLoop 0 e file fblock off dest nRead =
     (if nRead < int (length dest) then failA (Panic OutOfFuel) else retA (int (length dest), dest))"
| "readLoop (Suc fuel) e file fblock off dest nRead =
     (if nRead < int (length dest) then
        (let nextByte = wrap64 (nRead + off);
             toRead = int (length dest) - nRead
         in bindA (getFileBlockAtOffsetLocked e file fblock nextByte blockRead) (\<lambda>r.
            bindA (readA (\<lambda>s. fb_Contents (fileAt s (bo_block r)))) (\<lambda>contents.
            let lastByteInBlock = wrap64 (bo_startOff r + int (length contents))
            in if nextByte \<ge> lastByteInBlock then retA (nRead, dest)
               else
                 (let avail = wrap64 (lastByteInBlock - nextByte);
                      toRead = (if toRead > avail then avail else toRead);
                      firstByteToRead = wrap64 (nextByte - bo_startOff r)
                  in if firstByteToRead < 0 \<or> toRead < 0 \<or> firstByteToRead + toRead > int (length contents)
                     then failA (Panic SlicePanic)
                     else
                  bindA (theA (Panic SlicePanic)
                           (copy_at dest nRead toRead (drop (nat firstByteToRead) contents))) (\<lambda>dest.
                    readLoop fuel e file fblock off dest (wrap64 (nRead + toRead)))))))
      else retA (int (length dest), dest))"

text \<open>A round reads at least a byte or is the last.\<close>

definition fbo_Read :: "fboEnv \<Rightarrow> path \<Rightarrow> byte list \<Rightarrow> int \<Rightarrow> (int \<times> byte list) fbo" where
  "fbo_Read e file dest off =
     bindA (getFileLocked e file blockRead) (\<lambda>fblock. readLoop (length dest) e file fblock off dest 0)"

section \<open>Truncating\<close>

text \<open>
  \<open>truncateLocked\<close> does not look at the error of \<open>getFileBlockAtOffsetLocked\<close>; with one, the block is nil
  and reading its length panics.
\<close>

definition nilOnError :: "'a fbo \<Rightarrow> 'a fbo" where
  "nilOnError m s = (case m s of (Inl (Error _), s') \<Rightarrow> (Inl (Panic NilDereference), s') | rs \<Rightarrow> rs)"

definition dropChildren :: "blockRef \<Rightarrow> nat \<Rightarrow> nat \<Rightarrow> fboState \<Rightarrow> fboState" where
  "dropChildren siRef parent i s =
     (let b = fileAt s parent
      in setFile parent (b\<lparr>fb_IPtrs := take (i + 1) (fb_IPtrs b)\<rparr>)
           (foldl (\<lambda>s ip. updSyncInfo siRef (addUnref (ifp_BlockInfo ip)) s) s (drop (i + 1) (fb_IPtrs b))))"

definition shrinkFile ::
  "fboEnv \<Rightarrow> path \<Rightarrow> BlockPointer \<Rightarrow> nat \<Rightarrow> blockAtOffset \<Rightarrow> uint64 \<Rightarrow> (WriteRange option \<times> BlockPointer list) fbo" where
  "shrinkFile e file tail fblock r sz =
     bindA (getDirtyEntryLocked e file) (\<lambda>de.
     bindA (readA (\<lambda>s. fileAt s (bo_block r))) (\<lambda>block.
     let keep = wrap64 (sint sz - bo_startOff r)
     in if keep < 0 \<or> keep > int (length (fb_Contents block)) then failA (Panic SlicePanic)
        else
     bindA (updA (setFile (bo_block r) (block\<lparr>fb_Contents := take (nat keep) (fb_Contents block)\<rparr>))) (\<lambda>_.
     bindA (updA (getOrCreateSyncInfoLocked de)) (\<lambda>_.
     bindA (if bo_more r then
              bindA (theA (Panic NilDereference) (bo_parentBlock r)) (\<lambda>p.
                updA (\<lambda>s. cacheBlockIfNotYetDirtyLocked tail (branchOf file) p
                        (dropChildren (entryRef de) p (bo_indexInParent r) s)))
            else retA ()) (\<lambda>_.
     bindA (readA (\<lambda>s. fb_IsInd (fileAt s fblock))) (\<lambda>isInd.
     bindA (updA (if isInd then cacheBlockIfNotYetDirtyLocked tail (branchOf file) fblock else id)) (\<lambda>_.
     bindA (updA (case bo_parentBlock r of
                    None \<Rightarrow> id | Some p \<Rightarrow> markChild (entryRef de) p (bo_indexInParent r))) (\<lambda>_.
     bindA (updA (updSyncInfo (entryRef de) (\<lambda>si. si\<lparr>si_op := fst (addTruncate (si_op si) sz)\<rparr>))) (\<lambda>_.
     bindA (updA (cacheEntry (BlockPointer_ref tail)
              (de\<lparr>de_BlockInfo := (de_BlockInfo de)\<lparr>bi_EncodedSize := 0\<rparr>,
                  de_EntryInfo := (de_EntryInfo de)\<lparr>ei_Size := sz\<rparr>\<rparr>))) (\<lambda>_.
     bindA (updA (cacheBlockIfNotYetDirtyLocked (bo_ptr r) (branchOf file) (bo_block r))) (\<lambda>_.
       retA (Some \<lparr>wr_Off = sz, wr_Len = 0\<rparr>, []))))))))))))"

definition truncateLocked :: "nat \<Rightarrow> fboEnv \<Rightarrow> path \<Rightarrow> uint64 \<Rightarrow> (WriteRange option \<times> BlockPointer list) fbo" where
  "truncateLocked fuel e file sz =
     bindA (GetCurrentUID e) (\<lambda>uid.
     if \<not> List.member (fe_writers e) uid then failA (Error WriteAccessError)
     else
     bindA (getFileLocked e file blockWrite) (\<lambda>fblock.
     bindA (tailA file) (\<lambda>tail.
     let iSize = sint sz
     in bindA (nilOnError (getFileBlockAtOffsetLocked e file fblock iSize blockWrite)) (\<lambda>r.
        bindA (readA (\<lambda>s. wrap64 (bo_startOff r + int (length (fb_Contents (fileAt s (bo_block r))))))) (\<lambda>currLen.
        if currLen < iSize then
          bindA (writeDataLocked fuel e file (replicate (nat (wrap64 (iSize - currLen))) 0) currLen)
            (\<lambda>(latestWrite, dirtyPtrs). retA (Some latestWrite, dirtyPtrs))
        else if currLen = iSize then retA (None, [])
        else shrinkFile e file tail fblock r sz)))))"

definition fbo_Truncate :: "nat \<Rightarrow> fboEnv \<Rightarrow> path \<Rightarrow> uint64 \<Rightarrow> unit fbo" where
  "fbo_Truncate fuel e p sz =
     bindA (pathFromNodeForBlockWriteLocked p) (\<lambda>filePath s.
       endWrite (bindA (truncateLocked fuel e filePath sz) (\<lambda>(latestWrite, dirtyPtrs).
         updA (deferIfNeeded dirtyPtrs (DeferredTruncate sz))) s))"

definition fbo_IsDirty :: "fboState \<Rightarrow> path \<Rightarrow> bool option" where
  "fbo_IsDirty s file = map_option (\<lambda>ptr. isDirtyPtr s ptr (branchOf file)) (tailPointer file)"

definition clearCacheInfoLocked :: "path \<Rightarrow> unit fbo" where
  "clearCacheInfoLocked file =
     bindA (tailA file) (\<lambda>ptr.
       updA (\<lambda>s. s\<lparr>fs_deCache := AList.delete (BlockPointer_ref ptr) (fs_deCache s),
                   fs_unrefCache := (fs_unrefCache s)(BlockPointer_ref ptr := None)\<rparr>))"

end
