(* ===== verification/Kbfs_File_Io.thy ===== *)
theory Kbfs_File_Io
  imports Kbfs_Folder_Block_Ops
begin

text \<open>
  What reading, writing and truncating a file do to its bytes: the operations of
  folder\_block\_ops.go refine the operations on flat files of \<open>Kbfs_File_Chunks\<close>.
\<close>

section \<open>Clean blocks\<close>

text \<open>Looking up a clean block and caching a fetched one changes no answer of a later lookup.\<close>

definition lru_ok :: "BlockCacheStandard \<Rightarrow> bool" where
  "lru_ok c \<longleftrightarrow> (\<forall>tr. bc_cleanTransient c = Some tr \<longrightarrow> lru_inv tr) \<and> bc_dirty c = []"

definition cachedClean :: "BlockCacheStandard \<Rightarrow> BlockID \<Rightarrow> Block option" where
  "cachedClean c i = (case map_of (transientEntries c) i of Some b \<Rightarrow> Some b | None \<Rightarrow> bc_cleanPermanent c i)"

lemma bcache_Get_clean:
  assumes "lru_ok c"
  shows "\<exists>c'. bcache_Get c ptr branch =
      (c', case cachedClean c (bp_ID ptr) of Some b \<Rightarrow> Inr b | None \<Rightarrow> Inl (NoSuchBlockError (bp_ID ptr))) \<and>
    lru_ok c' \<and> map_of (transientEntries c') = map_of (transientEntries c) \<and> bc_cleanPermanent c' = bc_cleanPermanent c"
proof (cases "bc_cleanTransient c")
  case None
  with assms show ?thesis
    by (simp add: bcache_Get_def lru_ok_def cachedClean_def transientEntries_def split: option.splits)
next
  case (Some tr)
  obtain tr' r where g: "lru_Get tr (bp_ID ptr) = (tr', r)" by fastforce
  have inv: "lru_inv tr" using assms Some by (simp add: lru_ok_def)
  from lru.get_entries[OF inv g] have inv': "lru_inv tr'" and ms: "mset (lru_evictList tr') = mset (lru_evictList tr)"
    by simp_all
  have r: "r = map_of (lru_evictList tr) (bp_ID ptr)" by (rule lru.get_result[OF inv g])
  show ?thesis
    by (rule exI[of _ "c\<lparr>bc_cleanTransient := Some tr'\<rparr>"])
      (use assms Some g r inv' lru.map_of_mset[OF inv inv' ms] in
        \<open>simp add: bcache_Get_def lru_ok_def cachedClean_def transientEntries_def split: option.splits\<close>)
qed

lemma evictLoop_take:
  "evictLoop sz oldLen b tr = (b', tr') \<Longrightarrow>
     \<exists>n t. tr' = tr\<lparr>lru_evictList := take n (lru_evictList tr)\<rparr> \<and> b' = b\<lparr>bc_cleanTotalBytes := t\<rparr>"
proof (induction sz oldLen b tr rule: evictLoop.induct)
  case (1 sz oldLen b tr)
  show ?case
  proof (cases "bc_cleanTotalBytes b + sz > bc_cleanBytesCapacity b \<and> oldLen \<noteq> lru_Len tr")
    case False
    with "1.prems" have "b' = b" "tr' = tr" by (simp_all add: evictLoop.simps[of sz oldLen])
    then show ?thesis
      by (intro exI[of _ "length (lru_evictList tr)"] exI[of _ "bc_cleanTotalBytes b"]) simp
  next
    case True
    obtain tr1 ev where ro: "lru_RemoveOldest tr = (tr1, ev)" by fastforce
    then have tr1: "tr1 = tr\<lparr>lru_evictList := take (length (lru_evictList tr) - 1) (lru_evictList tr)\<rparr>"
      by (cases "lru_evictList tr = []") (auto simp: lru_RemoveOldest_def butlast_conv_take)
    have "evictLoop sz (lru_Len tr) (foldl onEvict b ev) tr1 = (b', tr')"
      using "1.prems" True ro by (simp add: evictLoop.simps[of sz oldLen])
    from "1.IH"[OF True ro[symmetric] refl this] obtain n t where
      "tr' = tr1\<lparr>lru_evictList := take n (lru_evictList tr1)\<rparr>" "b' = (foldl onEvict b ev)\<lparr>bc_cleanTotalBytes := t\<rparr>"
      by blast
    moreover have "(foldl onEvict b ev)\<lparr>bc_cleanTotalBytes := t\<rparr> = b\<lparr>bc_cleanTotalBytes := t\<rparr>" for t
      by (induction ev arbitrary: b) (simp_all add: onEvict_def)
    ultimately show ?thesis
      by (intro exI[of _ "min n (length (lru_evictList tr) - 1)"] exI[of _ t]) (simp add: tr1 min.commute)
  qed
qed

lemma lru_inv_take: "lru_inv tr \<Longrightarrow> lru_inv (tr\<lparr>lru_evictList := take n (lru_evictList tr)\<rparr>)"
  by (auto simp: lru_inv_def take_map[symmetric])

lemma bcache_Put_clean:
  assumes "lru_ok c" and "map_of (transientEntries c) (bp_ID ptr) = None"
  shows "\<exists>c'. bcache_Put c ptr tlf block TransientEntry = (c', None) \<and> lru_ok c' \<and>
    bc_cleanPermanent c' = bc_cleanPermanent c \<and>
    set (transientEntries c') \<subseteq> insert (bp_ID ptr, block) (set (transientEntries c))"
proof (cases "bc_cleanTransient c")
  case None
  with assms show ?thesis
    by (simp add: Put_transient_unfold makeRoomForSize_def lru_ok_def transientEntries_def)
next
  case (Some tr)
  let ?c = "recordKnownPtr c ptr tlf block"
  obtain b1 tr1 where ev: "evictLoop (size64 block) (lru_Len tr + 1) ?c tr = (b1, tr1)" by fastforce
  from evictLoop_take[OF ev] obtain n t where
    tr1: "tr1 = tr\<lparr>lru_evictList := take n (lru_evictList tr)\<rparr>" and b1: "b1 = ?c\<lparr>bc_cleanTotalBytes := t\<rparr>" by blast
  have inv1: "lru_inv tr1" using assms(1) Some lru_inv_take[of tr n] by (simp add: lru_ok_def tr1)
  have none: "map_of (lru_evictList tr1) (bp_ID ptr) = None"
    using assms(2) Some by (auto simp: tr1 transientEntries_def map_of_eq_None_iff dest: in_set_takeD)
  have "0 < lru_size tr1" using inv1 by (simp add: lru_inv_def)
  from lru_Add_take[OF this none, of block] obtain m where
    add: "lru_Add tr1 (bp_ID ptr) block =
      (tr1\<lparr>lru_evictList := (bp_ID ptr, block) # take m (lru_evictList tr1)\<rparr>, drop m (lru_evictList tr1))" by blast
  have inv2: "lru_inv (tr1\<lparr>lru_evictList := (bp_ID ptr, block) # take m (lru_evictList tr1)\<rparr>)"
    using lru.add_fresh[OF inv1 none add] by simp
  have sub: "set (take m (lru_evictList tr1)) \<subseteq> set (lru_evictList tr)" "set (lru_evictList tr1) \<subseteq> set (lru_evictList tr)"
    by (auto simp: tr1 dest!: in_set_takeD)
  show ?thesis
    using assms Some ev b1 inv1 inv2 add sub
    by (auto simp: Put_transient_unfold makeRoomForSize_def Let_def lru_ok_def transientEntries_def)
qed

text \<open>
  What is relied on of the block server: a block decodes into the kind of block that was asked for, and two pointers of
  the folder with the same ID, which is the hash of the block, are references to one block: they are fetched as the same
  kind of block, with the same answer. Nothing is said of other pointers, or of the pointers of the folder when a block
  of another kind is asked for.
\<close>

fun sameKind :: "Block \<Rightarrow> Block \<Rightarrow> bool" where
  "sameKind (FileB _) (FileB _) = True"
| "sameKind (DirB _) (DirB _) = True"
| "sameKind (CommonB _ _) (CommonB _ _) = True"
| "sameKind _ _ = False"

abbreviation emptyFile :: Block where "emptyFile \<equiv> FileB NewFileBlock"
abbreviation emptyDir :: Block where "emptyDir \<equiv> DirB NewDirBlock"

definition server_ok :: "fboEnv \<Rightarrow> bool" where
  "server_ok e \<longleftrightarrow>
     (\<forall>p q nb nb'. fe_known e p nb \<and> fe_known e q nb' \<and> bp_ID p = bp_ID q \<longrightarrow> nb = nb' \<and> fe_bopsGet e p nb = fe_bopsGet e q nb) \<and>
     (\<forall>p nb b. fe_known e p nb \<and> fe_bopsGet e p nb = Inr b \<longrightarrow> sameKind nb b)"

text \<open>A cached copy of a block is the block, and the server has the blocks that can be evicted.\<close>

definition cache_true :: "fboEnv \<Rightarrow> BlockCacheStandard \<Rightarrow> bool" where
  "cache_true e c \<longleftrightarrow>
     (\<forall>i b. (i, b) \<in> set (transientEntries c) \<longrightarrow>
        (bc_cleanPermanent c i = None \<or> bc_cleanPermanent c i = Some b) \<and>
        (\<forall>p nb. fe_known e p nb \<and> bp_ID p = i \<and> sameKind nb b \<longrightarrow> fe_bopsGet e p nb = Inr b))"

definition cleanBlock :: "fboEnv \<Rightarrow> BlockCacheStandard \<Rightarrow> BlockPointer \<Rightarrow> Block \<Rightarrow> string + Block" where
  "cleanBlock e c p nb = (case cachedClean c (bp_ID p) of Some b \<Rightarrow> Inr b | None \<Rightarrow> fe_bopsGet e p nb)"

definition clean_le :: "fboEnv \<Rightarrow> BlockCacheStandard \<Rightarrow> BlockCacheStandard \<Rightarrow> bool" where
  "clean_le e c c' \<longleftrightarrow>
     (\<forall>p nb b. fe_known e p nb \<and> sameKind nb b \<and> cleanBlock e c p nb = Inr b \<longrightarrow> cleanBlock e c' p nb = Inr b)"

lemma clean_le_refl [simp]: "clean_le e c c"
  by (simp add: clean_le_def)

lemma clean_le_trans: "clean_le e c c' \<Longrightarrow> clean_le e c' c'' \<Longrightarrow> clean_le e c c''"
  by (simp add: clean_le_def)

lemma map_of_transient: "lru_ok c \<Longrightarrow> (i, b) \<in> set (transientEntries c) \<Longrightarrow> map_of (transientEntries c) i = Some b"
  by (auto simp: lru_ok_def transientEntries_def lru_inv_def split: option.splits)

lemma clean_after_Get:
  assumes "map_of (transientEntries c') = map_of (transientEntries c)" and "bc_cleanPermanent c' = bc_cleanPermanent c"
    and "lru_ok c" and "lru_ok c'" and "cache_true e c"
  shows "clean_le e c c' \<and> cache_true e c'"
proof -
  have "set (transientEntries c') \<subseteq> set (transientEntries c)"
    using map_of_transient[OF assms(4)] assms(1) by (auto dest!: map_of_SomeD)
  then have "cache_true e c'" using assms(2,5) unfolding cache_true_def by (metis subsetD)
  moreover have "cachedClean c' i = cachedClean c i" for i unfolding cachedClean_def assms(1,2) ..
  ultimately show ?thesis by (simp add: clean_le_def cleanBlock_def)
qed

lemma clean_after_Put:
  assumes sub: "set (transientEntries c') \<subseteq> insert (i, b) (set (transientEntries c))"
    and perm: "bc_cleanPermanent c' = bc_cleanPermanent c"
    and lru: "lru_ok c" "lru_ok c'" and tr: "cache_true e c" and srv: "server_ok e"
    and miss: "cachedClean c i = None" and got: "fe_bopsGet e p0 nb0 = Inr b" "bp_ID p0 = i" "fe_known e p0 nb0"
  shows "clean_le e c c' \<and> cache_true e c'"
proof -
  have same: "fe_bopsGet e p nb = Inr b" if "fe_known e p nb" "bp_ID p = i" for p nb
    using srv that got unfolding server_ok_def by metis
  have true': "cache_true e c'"
    unfolding cache_true_def
  proof (intro allI impI)
    fix j b' assume "(j, b') \<in> set (transientEntries c')"
    then consider "(j, b') \<in> set (transientEntries c)" | "j = i" "b' = b" using sub by auto
    then show "(bc_cleanPermanent c' j = None \<or> bc_cleanPermanent c' j = Some b') \<and>
        (\<forall>p nb. fe_known e p nb \<and> bp_ID p = j \<and> sameKind nb b' \<longrightarrow> fe_bopsGet e p nb = Inr b')"
    proof cases
      case 1
      then show ?thesis using tr unfolding cache_true_def perm by blast
    next
      case 2
      have "bc_cleanPermanent c' i = None"
        using miss unfolding perm by (simp add: cachedClean_def split: option.splits)
      then show ?thesis using 2 same by blast
    qed
  qed
  have "cleanBlock e c' p nb = Inr b'"
    if h: "fe_known e p nb" "sameKind nb b'" "cleanBlock e c p nb = Inr b'" for p nb b'
  proof (cases "map_of (transientEntries c') (bp_ID p)")
    case (Some b1)
    then have "(bp_ID p, b1) \<in> set (transientEntries c')" by (rule map_of_SomeD)
    then consider "(bp_ID p, b1) \<in> set (transientEntries c)" | "bp_ID p = i" "b1 = b" using sub by auto
    then have "b1 = b'"
    proof cases
      case 1
      then show ?thesis using map_of_transient[OF lru(1)] h(3) by (simp add: cleanBlock_def cachedClean_def)
    next
      case 2
      then show ?thesis using h miss same[of p nb] by (simp add: cleanBlock_def)
    qed
    then show ?thesis using Some by (simp add: cleanBlock_def cachedClean_def)
  next
    case None
    show ?thesis
    proof (cases "map_of (transientEntries c) (bp_ID p)")
      case None': None
      then show ?thesis using None h(3) perm by (simp add: cleanBlock_def cachedClean_def)
    next
      case (Some b1)
      then have "b1 = b'" using h(3) by (simp add: cleanBlock_def cachedClean_def)
      moreover have "(bp_ID p, b1) \<in> set (transientEntries c)" using Some by (rule map_of_SomeD)
      ultimately have "(bc_cleanPermanent c (bp_ID p) = None \<or> bc_cleanPermanent c (bp_ID p) = Some b') \<and>
          fe_bopsGet e p nb = Inr b'"
        using tr h(1,2) unfolding cache_true_def by blast
      then show ?thesis using None perm by (auto simp: cleanBlock_def cachedClean_def)
    qed
  qed
  then show ?thesis using true' by (simp add: clean_le_def)
qed

section \<open>Looking up blocks\<close>

definition store_ok :: "fboEnv \<Rightarrow> fboState \<Rightarrow> bool" where
  "store_ok e s \<longleftrightarrow> server_ok e \<and> lru_ok (fs_cache s) \<and> cache_true e (fs_cache s)"

text \<open>Every dirty key has an object of its own.\<close>

definition dirty_ok :: "fboState \<Rightarrow> bool" where
  "dirty_ok s \<longleftrightarrow> distinct (map fst (fs_dirty s)) \<and> distinct (map snd (fs_dirty s)) \<and>
     (\<forall>a \<in> snd ` set (fs_dirty s). a < length (fs_heap s))"

text \<open>The block that a pointer stands for: the dirty one, else the clean one, when the pointer is one of the folder.\<close>

definition knownBlock :: "fboEnv \<Rightarrow> BlockCacheStandard \<Rightarrow> BlockPointer \<Rightarrow> Block \<Rightarrow> string + Block" where
  "knownBlock e c p nb = (if fe_known e p nb then cleanBlock e c p nb else Inl ''not a block of the folder'')"

lemma knownBlock_Inr: "knownBlock e c p nb = Inr b \<longleftrightarrow> fe_known e p nb \<and> cleanBlock e c p nb = Inr b"
  by (simp add: knownBlock_def)

definition blockView :: "fboEnv \<Rightarrow> fboState \<Rightarrow> BranchName \<Rightarrow> BlockPointer \<Rightarrow> Block \<Rightarrow> string + Block" where
  "blockView e s br p nb =
     (case dirtyAddr s p br of Some a \<Rightarrow> Inr (fs_heap s ! a) | None \<Rightarrow> knownBlock e (fs_cache s) p nb)"

text \<open>Steps that only add objects and refresh the clean cache.\<close>

definition grew :: "fboEnv \<Rightarrow> fboState \<Rightarrow> fboState \<Rightarrow> bool" where
  "grew e s s' \<longleftrightarrow>
     (\<exists>hs c'. s' = s\<lparr>fs_heap := fs_heap s @ hs, fs_cache := c'\<rparr> \<and> lru_ok c' \<and> cache_true e c' \<and> clean_le e (fs_cache s) c')"

lemma grew_refl [simp]: "store_ok e s \<Longrightarrow> grew e s s"
  by (auto simp: grew_def store_ok_def intro!: exI[of _ "[]"] exI[of _ "fs_cache s"])

lemma grew_trans:
  assumes "grew e s s'" and "grew e s' s''"
  shows "grew e s s''"
proof -
  from assms obtain hs c hs' c' where
    1: "s' = s\<lparr>fs_heap := fs_heap s @ hs, fs_cache := c\<rparr>" "clean_le e (fs_cache s) c" and
    2: "s'' = s'\<lparr>fs_heap := fs_heap s' @ hs', fs_cache := c'\<rparr>" "lru_ok c'" "cache_true e c'" "clean_le e (fs_cache s') c'"
    unfolding grew_def by blast
  show ?thesis
    unfolding grew_def
    by (rule exI[of _ "hs @ hs'"], rule exI[of _ c']) (use 1 2 clean_le_trans[OF 1(2)] in simp)
qed

lemma grew_newBlock:
  assumes "store_ok e s"
  shows "grew e s (s\<lparr>fs_heap := fs_heap s @ [b]\<rparr>)"
  using assms unfolding grew_def store_ok_def
  by (intro exI[of _ "[b]"] exI[of _ "fs_cache s"]) simp

lemma grewD:
  assumes "grew e s s'"
  shows "fs_dirty s' = fs_dirty s" "fs_fileBlockStates s' = fs_fileBlockStates s" "fs_unrefCache s' = fs_unrefCache s"
    "fs_deCache s' = fs_deCache s" "fs_deferredWrites s' = fs_deferredWrites s"
    "fs_deferredDirtyDeletes s' = fs_deferredDirtyDeletes s" "fs_doDeferWrite s' = fs_doDeferWrite s"
    "fs_tempCount s' = fs_tempCount s" "length (fs_heap s) \<le> length (fs_heap s')"
    "dirtyAddr s' p br = dirtyAddr s p br" "isDirtyPtr s' p br = isDirtyPtr s p br"
  using assms by (auto simp: grew_def dirtyAddr_def isDirtyPtr_def)

lemma grew_heap: "grew e s s' \<Longrightarrow> a < length (fs_heap s) \<Longrightarrow> fs_heap s' ! a = fs_heap s ! a"
  by (auto simp: grew_def nth_append)

lemma grew_fileAt: "grew e s s' \<Longrightarrow> a < length (fs_heap s) \<Longrightarrow> fileAt s' a = fileAt s a"
  by (simp add: fileAt_def grew_heap)

lemma grew_store: "store_ok e s \<Longrightarrow> grew e s s' \<Longrightarrow> store_ok e s'"
  by (auto simp: grew_def store_ok_def)

lemma grew_dirty_ok: "dirty_ok s \<Longrightarrow> grew e s s' \<Longrightarrow> dirty_ok s'"
  using grewD(1,9)[of e s s'] by (fastforce simp: dirty_ok_def)

lemma dirtyAddr_bound: "dirty_ok s \<Longrightarrow> dirtyAddr s p br = Some a \<Longrightarrow> a < length (fs_heap s)"
  by (auto simp: dirty_ok_def dirtyAddr_def dest!: map_of_SomeD)

lemma dirtyAddr_inj:
  "dirty_ok s \<Longrightarrow> dirtyAddr s p br = Some a \<Longrightarrow> dirtyAddr s q br' = Some a \<Longrightarrow> dirtyID p br = dirtyID q br'"
  unfolding dirty_ok_def dirtyAddr_def distinct_map
  by (metis inj_onD map_of_SomeD prod.sel snd_conv)

lemma grew_view:
  assumes "grew e s s'" and "dirty_ok s" and "blockView e s br p nb = Inr b" and "nb \<in> {emptyFile, emptyDir}" "sameKind nb b"
  shows "blockView e s' br p nb = Inr b"
proof (cases "dirtyAddr s p br")
  case (Some a)
  then show ?thesis
    using assms(3) grewD(10)[OF assms(1)] grew_heap[OF assms(1) dirtyAddr_bound[OF assms(2) Some]]
    by (simp add: blockView_def)
next
  case None
  then show ?thesis
    using assms grewD(10)[OF assms(1)] by (auto simp: blockView_def knownBlock_Inr grew_def clean_le_def)
qed

lemma getBlockHelper_view:
  assumes ok: "store_ok e s" "dirty_ok s" and v: "blockView e s br p nb = Inr b" "nb \<in> {emptyFile, emptyDir}"
    and valid: "BlockPointer_IsValid p"
  shows "\<exists>a s'. getBlockHelperLocked e p br nb True s = (Inr a, s') \<and> grew e s s' \<and>
    a < length (fs_heap s') \<and> fs_heap s' ! a = b \<and>
    (case dirtyAddr s p br of Some a' \<Rightarrow> a = a' | None \<Rightarrow> length (fs_heap s) \<le> a)"
proof (cases "dirtyAddr s p br")
  case (Some a)
  then show ?thesis
    using ok v valid dirtyAddr_bound[OF ok(2) Some]
    by (simp add: getBlockHelperLocked_def blockView_def)
next
  case None
  let ?c = "fs_cache s" and ?i = "bp_ID p"
  from ok(1) have lru: "lru_ok ?c" and tr: "cache_true e ?c" and srv: "server_ok e" by (simp_all add: store_ok_def)
  from bcache_Get_clean[OF lru] obtain c where
    get: "bcache_Get ?c p br = (c, case cachedClean ?c ?i of Some b \<Rightarrow> Inr b | None \<Rightarrow> Inl (NoSuchBlockError ?i))"
    and c: "lru_ok c" "map_of (transientEntries c) = map_of (transientEntries ?c)" "bc_cleanPermanent c = bc_cleanPermanent ?c"
    by blast
  have le: "clean_le e ?c c \<and> cache_true e c" using clean_after_Get[OF c(2,3) lru c(1) tr] .
  have step: "\<exists>a s'. newBlock b (s\<lparr>fs_cache := c'\<rparr>) = (Inr a, s') \<and> grew e s s' \<and>
      a < length (fs_heap s') \<and> fs_heap s' ! a = b \<and> length (fs_heap s) \<le> a"
    if "clean_le e ?c c' \<and> cache_true e c'" "lru_ok c'" for c'
    using that by (auto simp: newBlock_def grew_def intro!: exI[of _ "[b]"] exI[of _ c'])
  show ?thesis
  proof (cases "cachedClean ?c ?i")
    case (Some b')
    then have "b' = b" using v None by (simp add: blockView_def knownBlock_Inr cleanBlock_def)
    then show ?thesis using None Some get valid step[OF le c(1)] by (simp add: getBlockHelperLocked_def)
  next
    case miss: None
    then have got: "fe_bopsGet e p nb = Inr b" and known: "fe_known e p nb"
      using v None by (simp_all add: blockView_def knownBlock_Inr cleanBlock_def)
    have missc: "cachedClean c ?i = None" using miss unfolding cachedClean_def c(2,3) .
    then have "map_of (transientEntries c) ?i = None" by (simp add: cachedClean_def split: option.splits)
    from bcache_Put_clean[OF c(1) this] obtain c' where
      put: "bcache_Put c p (fbr_Tlf (fe_folderBranch e)) b TransientEntry = (c', None)" and
      c': "lru_ok c'" "bc_cleanPermanent c' = bc_cleanPermanent c"
        "set (transientEntries c') \<subseteq> insert (?i, b) (set (transientEntries c))" by blast
    have "clean_le e c c' \<and> cache_true e c'"
      using clean_after_Put[OF c'(3,2) c(1) c'(1) _ srv missc got refl known] le by simp
    then have "clean_le e ?c c' \<and> cache_true e c'" using clean_le_trans le by blast
    from step[OF this c'(1)] show ?thesis
      using None miss get valid got put by (simp add: getBlockHelperLocked_def)
  qed
qed

text \<open>What is relied on of the codec: a copy has the exported fields, and not the cached encoded size.\<close>

definition codec_ok :: "fboEnv \<Rightarrow> bool" where
  "codec_ok e \<longleftrightarrow> (\<forall>b. fe_copyFile e b = Inr (b\<lparr>fb_cachedEncodedSize := 0\<rparr>)) \<and>
     (\<forall>b. fe_copyDir e b = Inr (b\<lparr>db_cachedEncodedSize := 0\<rparr>))"

definition sameFile :: "FileBlock \<Rightarrow> FileBlock \<Rightarrow> bool" where
  "sameFile f g \<longleftrightarrow> fb_IsInd f = fb_IsInd g \<and> fb_Contents f = fb_Contents g \<and> fb_IPtrs f = fb_IPtrs g"

lemma sameFile_refl [simp]: "sameFile f f"
  by (simp add: sameFile_def)

lemma sameFile_size [simp]: "sameFile (f\<lparr>fb_cachedEncodedSize := n\<rparr>) f"
  by (simp add: sameFile_def)

text \<open>
  A block object that a caller may change as the block of pointer \<open>p\<close>: it is the one in the dirty cache,
  or a copy of its own that \<open>cacheBlockIfNotYetDirtyLocked\<close> will put there.
\<close>

definition held :: "fboState \<Rightarrow> BranchName \<Rightarrow> BlockPointer \<Rightarrow> nat \<Rightarrow> bool" where
  "held s br p a \<longleftrightarrow> a < length (fs_heap s) \<and>
     (dirtyAddr s p br = Some a \<or>
      a \<notin> snd ` set (fs_dirty s) \<and> (dirtyAddr s p br = None \<or> fs_fileBlockStates s p = blockSyncingNotDirty))"

lemma grew_held:
  assumes "grew e s s'" and "held s br p a"
  shows "held s' br p a"
  using assms grewD[OF assms(1)] by (auto simp: held_def)

lemma getFileBlockHelper_view:
  assumes "store_ok e s" "dirty_ok s" and "blockView e s br p emptyFile = Inr (FileB f)" and "BlockPointer_IsValid p"
  shows "\<exists>a s'. getFileBlockHelperLocked e p br s = (Inr a, s') \<and> grew e s s' \<and>
    a < length (fs_heap s') \<and> fs_heap s' ! a = FileB f \<and>
    (case dirtyAddr s p br of Some a' \<Rightarrow> a = a' | None \<Rightarrow> length (fs_heap s) \<le> a)"
proof -
  from getBlockHelper_view[OF assms(1,2,3) _ assms(4)] obtain a s' where
    r: "getBlockHelperLocked e p br emptyFile True s = (Inr a, s')" "grew e s s'" "a < length (fs_heap s')"
      "fs_heap s' ! a = FileB f" "case dirtyAddr s p br of Some a' \<Rightarrow> a = a' | None \<Rightarrow> length (fs_heap s) \<le> a"
    by auto
  then show ?thesis by (simp add: getFileBlockHelperLocked_def)
qed

lemma getFileBlock_read:
  assumes "store_ok e s" "dirty_ok s" and "blockView e s (branchOf file) p emptyFile = Inr (FileB f)"
    and "BlockPointer_IsValid p" and "path_isValid file"
  shows "\<exists>a s'. getFileBlockLocked e p file blockRead s = (Inr a, s') \<and> grew e s s' \<and>
    a < length (fs_heap s') \<and> fs_heap s' ! a = FileB f"
proof -
  from getFileBlockHelper_view[OF assms(1-4)] obtain a s' where
    "getFileBlockHelperLocked e p (branchOf file) s = (Inr a, s')" "grew e s s'" "a < length (fs_heap s')"
      "fs_heap s' ! a = FileB f" by blast
  then show ?thesis using assms(5) by (simp add: getFileBlockLocked_def)
qed

lemma getFileBlock_write:
  assumes ok: "store_ok e s" "dirty_ok s" "codec_ok e" and v: "blockView e s (branchOf file) p emptyFile = Inr (FileB f)"
    and valid: "BlockPointer_IsValid p" "path_isValid file"
  shows "\<exists>a s' g. getFileBlockLocked e p file blockWrite s = (Inr a, s') \<and> grew e s s' \<and>
    held s' (branchOf file) p a \<and> fs_heap s' ! a = FileB g \<and> sameFile g f \<and>
    (dirtyAddr s p (branchOf file) = Some a \<or> length (fs_heap s) \<le> a)"
proof -
  let ?br = "branchOf file"
  from getFileBlockHelper_view[OF ok(1,2) v valid(1)] obtain a s' where
    r: "getFileBlockHelperLocked e p ?br s = (Inr a, s')" and gr: "grew e s s'" and a: "a < length (fs_heap s')"
      "fs_heap s' ! a = FileB f" "case dirtyAddr s p ?br of Some a' \<Rightarrow> a = a' | None \<Rightarrow> length (fs_heap s) \<le> a"
    by blast
  show ?thesis
  proof (cases "\<not> isDirtyPtr s p ?br \<or> fs_fileBlockStates s p = blockSyncingNotDirty")
    case False
    then obtain a' where "dirtyAddr s p ?br = Some a'" by (auto simp: isDirtyPtr_def)
    then show ?thesis
      using r gr a False valid grewD[OF gr] by (auto simp: getFileBlockLocked_def held_def)
  next
    case True
    let ?g = "f\<lparr>fb_cachedEncodedSize := 0\<rparr>"
    let ?s = "s'\<lparr>fs_heap := fs_heap s' @ [FileB ?g]\<rparr>"
    have gr': "grew e s ?s" using grew_trans[OF gr grew_newBlock[OF grew_store[OF ok(1) gr]]] .
    have "fileAt s' a = f" by (simp add: fileAt_def a)
    then have "FileBlock_DeepCopy e a s' = (Inr (length (fs_heap s')), ?s)"
      using ok(3) by (simp add: FileBlock_DeepCopy_def codec_ok_def newBlock_def)
    then have run: "getFileBlockLocked e p file blockWrite s = (Inr (length (fs_heap s')), ?s)"
      using r True valid grewD[OF gr] by (simp add: getFileBlockLocked_def)
    have new: "length (fs_heap s') \<notin> snd ` set (fs_dirty s')"
      using grew_dirty_ok[OF ok(2) gr] by (auto simp: dirty_ok_def)
    have "held ?s ?br p (length (fs_heap s'))"
      using True new grewD[OF gr] by (auto simp: held_def isDirtyPtr_def dirtyAddr_def)
    then show ?thesis using run gr' grewD(9)[OF gr]
      by (intro exI[of _ "length (fs_heap s')"] exI[of _ ?s] exI[of _ ?g]) simp
  qed
qed

section \<open>The blocks of a file\<close>

definition ipPtr :: "IndirectFilePtr \<Rightarrow> BlockPointer" where
  "ipPtr ip = bi_BlockPointer (ifp_BlockInfo ip)"

definition ipKey :: "BranchName \<Rightarrow> IndirectFilePtr \<Rightarrow> dirtyBlockID" where
  "ipKey br ip = dirtyID (ipPtr ip) br"

definition childHas :: "fboEnv \<Rightarrow> fboState \<Rightarrow> BranchName \<Rightarrow> IndirectFilePtr \<Rightarrow> byte list \<Rightarrow> bool" where
  "childHas e s br ip c \<longleftrightarrow> BlockPointer_IsValid (ipPtr ip) \<and>
     (\<exists>b. blockView e s br (ipPtr ip) emptyFile = Inr (FileB b) \<and> \<not> fb_IsInd b \<and> fb_Contents b = c)"

text \<open>
  The top block \<open>f\<close> of a file with pointer \<open>t\<close> stands for the chunks \<open>cs\<close>: it is the only chunk, or it points
  to one block for each, in order, under different pointers.
\<close>

definition fileShape :: "fboEnv \<Rightarrow> fboState \<Rightarrow> BranchName \<Rightarrow> BlockPointer \<Rightarrow> nat \<Rightarrow> FileBlock \<Rightarrow> byte list list \<Rightarrow> bool" where
  "fileShape e s br t m f cs \<longleftrightarrow> chunks_ok m cs \<and>
     (if fb_IsInd f
      then length (fb_IPtrs f) = length cs \<and>
           (\<forall>i<length cs. ifp_Off (fb_IPtrs f ! i) = int (i * m) \<and> childHas e s br (fb_IPtrs f ! i) (cs ! i)) \<and>
           distinct (map (ipKey br) (fb_IPtrs f)) \<and> dirtyID t br \<notin> ipKey br ` set (fb_IPtrs f)
      else cs = [fb_Contents f])"

lemma fileShape_sameFile: "sameFile g f \<Longrightarrow> fileShape e s br t m g cs = fileShape e s br t m f cs"
  by (simp add: fileShape_def sameFile_def)

lemma grew_childHas: "grew e s s' \<Longrightarrow> dirty_ok s \<Longrightarrow> childHas e s br ip c \<Longrightarrow> childHas e s' br ip c"
  unfolding childHas_def using grew_view[of e s s' br "ipPtr ip" emptyFile] by fastforce

lemma grew_fileShape:
  "grew e s s' \<Longrightarrow> dirty_ok s \<Longrightarrow> fileShape e s br t m f cs \<Longrightarrow> fileShape e s' br t m f cs"
  unfolding fileShape_def using grew_childHas by (auto split: if_splits)

lemma nextIndex_chunks:
  "0 < m \<Longrightarrow> j \<le> Suc (pos div m) \<Longrightarrow> (\<And>k. k < length ps \<Longrightarrow> ifp_Off (ps ! k) = int ((j + k) * m)) \<Longrightarrow>
   0 < j + length ps \<Longrightarrow>
   nextIndex ps (int pos) (int j) (int (j + length ps) - 1) = int (min (pos div m) (j + length ps - 1))"
proof (induction ps arbitrary: j)
  case Nil
  then show ?case by (auto simp: min_def)
next
  case (Cons p ps)
  have off: "ifp_Off p = int (j * m)" using Cons.prems(3)[of 0] by simp
  consider "j * m = pos" | "pos < j * m" | "j * m < pos" by linarith
  then show ?case
  proof cases
    case 1
    then have "pos div m = j" using Cons.prems(1) by auto
    then show ?thesis using 1 off by simp
  next
    case 2
    then have "\<not> j \<le> pos div m" using Cons.prems(1) by (simp add: less_eq_div_iff_mult_less_eq)
    then have "j = Suc (pos div m)" using Cons.prems(2) by simp
    moreover have "int pos < ifp_Off p" unfolding off using 2 by (simp only: of_nat_less_iff)
    ultimately show ?thesis by (simp add: min_def)
  next
    case 3
    then have "j \<le> pos div m" using Cons.prems(1) by (simp add: less_eq_div_iff_mult_less_eq)
    moreover have "ifp_Off (ps ! k) = int ((Suc j + k) * m)" if "k < length ps" for k
      using Cons.prems(3)[of "Suc k"] that by simp
    ultimately have ih: "nextIndex ps (int pos) (int (Suc j)) (int (Suc j + length ps) - 1) =
        int (min (pos div m) (Suc j + length ps - 1))"
      using Cons.prems(1) by (intro Cons.IH) simp_all
    have "ifp_Off p < int pos" unfolding off using 3 by (simp only: of_nat_less_iff)
    then show ?thesis using ih by (simp add: ac_simps)
  qed
qed

lemma nextIndex_shape:
  assumes "fileShape e s br t m f cs" and "fb_IsInd f"
  shows "nextIndex (fb_IPtrs f) (int pos) 0 (int (length (fb_IPtrs f)) - 1) = int (chunk_index m cs pos)"
  using assms nextIndex_chunks[of m 0 pos "fb_IPtrs f"]
  by (simp add: fileShape_def chunks_ok_def chunk_index_def)

lemma held_ne:
  assumes "dirty_ok s" and "held s br p a" and "held s br q b" and "dirtyID p br \<noteq> dirtyID q br"
    and "dirtyAddr s p br = Some a \<or> dirtyAddr s q br = Some b"
  shows "a \<noteq> b"
proof
  assume "a = b"
  moreover have "c \<in> snd ` set (fs_dirty s)" if "dirtyAddr s r br = Some c" for r c
    using that by (force simp: dirtyAddr_def dest!: map_of_SomeD)
  ultimately have "dirtyAddr s p br = Some a" "dirtyAddr s q br = Some a"
    using assms(2,3,5) unfolding held_def by metis+
  then show False using dirtyAddr_inj[OF assms(1)] assms(4) by blast
qed

definition locates ::
  "fboState \<Rightarrow> BranchName \<Rightarrow> BlockPointer \<Rightarrow> nat \<Rightarrow> FileBlock \<Rightarrow> byte list list \<Rightarrow> nat \<Rightarrow> nat \<Rightarrow> blockAtOffset \<Rightarrow> FileBlock \<Rightarrow> bool" where
  "locates s br t T f cs m i r b \<longleftrightarrow>
     bo_block r < length (fs_heap s) \<and> fs_heap s ! bo_block r = FileB b \<and> \<not> fb_IsInd b \<and> fb_Contents b = cs ! i \<and>
     bo_startOff r = int (i * m) \<and> (bo_more r \<longleftrightarrow> Suc i < length cs) \<and>
     (if fb_IsInd f
      then bo_ptr r = ipPtr (fb_IPtrs f ! i) \<and> bo_parentBlock r = Some T \<and> bo_indexInParent r = i
      else bo_ptr r = t \<and> bo_parentBlock r = None \<and> bo_block r = T)"

text \<open>Both kinds of lookups find the block of a position; one for writing finds a block that may be changed.\<close>

lemma locate:
  assumes ok: "store_ok e s" "dirty_ok s" "codec_ok e" "path_isValid file" "tailPointer file = Some t" "0 < fe_levels e"
    and T: "T < length (fs_heap s)" "fs_heap s ! T = FileB f" and shape: "fileShape e s (branchOf file) t m f cs"
    and i_def: "i = chunk_index m cs pos"
  shows "\<exists>r s1 b. getFileBlockAtOffsetLocked e file T (int pos) rtype s = (Inr r, s1) \<and> grew e s s1 \<and>
    locates s1 (branchOf file) t T f cs m i r b \<and>
    (rtype = blockWrite \<and> fb_IsInd f \<longrightarrow> held s1 (branchOf file) (bo_ptr r) (bo_block r) \<and>
       (dirtyAddr s1 (bo_ptr r) (branchOf file) = Some (bo_block r) \<or> length (fs_heap s) \<le> bo_block r))"
proof (cases "fb_IsInd f")
  case False
  then have "fileAt s T = f" "cs = [fb_Contents f]" using T(2) shape by (simp_all add: fileAt_def fileShape_def)
  moreover from this have "i = 0" by (simp add: i_def chunk_index_def)
  ultimately show ?thesis
    using False T ok by (cases "fe_levels e")
      (auto simp: getFileBlockAtOffsetLocked_def tailA_def locates_def intro!: exI[of _ f])
next
  case True
  obtain n where n: "fe_levels e = Suc n" using ok(6) gr0_implies_Suc by blast
  have f: "fileAt s T = f" using T(2) by (simp add: fileAt_def)
  let ?ip = "fb_IPtrs f ! i"
  have cs: "chunks_ok m cs" "length (fb_IPtrs f) = length cs" using shape True by (simp_all add: fileShape_def)
  have i: "i < length cs" using chunk_index_less[OF cs(1)] by (simp add: i_def)
  then have off: "ifp_Off ?ip = int (i * m)" and child: "childHas e s (branchOf file) ?ip (cs ! i)"
    using shape True by (simp_all add: fileShape_def)
  from child obtain b where
    b: "blockView e s (branchOf file) (ipPtr ?ip) emptyFile = Inr (FileB b)" "\<not> fb_IsInd b" "fb_Contents b = cs ! i"
    and valid: "BlockPointer_IsValid (ipPtr ?ip)" by (auto simp: childHas_def)
  have idx: "nextIndex (fb_IPtrs f) (int pos) 0 (int (length cs) - 1) = int i"
    using nextIndex_shape[OF shape True, of pos] cs(2) by (simp add: i_def)
  have got: "\<exists>a s1 g. getFileBlockLocked e (ipPtr ?ip) file rtype s = (Inr a, s1) \<and> grew e s s1 \<and>
      a < length (fs_heap s1) \<and> fs_heap s1 ! a = FileB g \<and> sameFile g b \<and>
      (rtype = blockWrite \<longrightarrow> held s1 (branchOf file) (ipPtr ?ip) a \<and>
        (dirtyAddr s (ipPtr ?ip) (branchOf file) = Some a \<or> length (fs_heap s) \<le> a))"
  proof (cases rtype)
    case blockRead
    then show ?thesis using getFileBlock_read[OF ok(1,2) b(1) valid ok(4)] by fastforce
  next
    case blockWrite
    then show ?thesis using getFileBlock_write[OF ok(1,2,3) b(1) valid ok(4)] unfolding held_def by blast
  qed
  then obtain a s1 g where g: "getFileBlockLocked e (ipPtr ?ip) file rtype s = (Inr a, s1)" "grew e s s1"
      "a < length (fs_heap s1)" "fs_heap s1 ! a = FileB g" "sameFile g b" and
    h: "rtype = blockWrite \<longrightarrow> held s1 (branchOf file) (ipPtr ?ip) a \<and>
        (dirtyAddr s (ipPtr ?ip) (branchOf file) = Some a \<or> length (fs_heap s) \<le> a)" by blast
  let ?r = "\<lparr>bo_ptr = ipPtr ?ip, bo_parentBlock = Some T, bo_indexInParent = i, bo_block = a,
      bo_more = (int i \<noteq> int (length cs) - 1), bo_startOff = int (i * m)\<rparr>"
  have nind: "\<not> fb_IsInd (fileAt s1 a)" using g(4,5) b(2) by (simp add: fileAt_def sameFile_def)
  have stop: "blockAtOffsetLoop k e file (int pos) rtype ?r s1 = (Inr ?r, s1)" for k
    using nind by (cases k) simp_all
  have "getFileBlockAtOffsetLocked e file T (int pos) rtype s = (Inr ?r, s1)"
    using True f idx cs i off g(1) stop ok(5) n
    by (simp add: getFileBlockAtOffsetLocked_def tailA_def Let_def ipPtr_def)
  moreover have "locates s1 (branchOf file) t T f cs m i ?r g"
    using g b True i by (auto simp: locates_def sameFile_def)
  ultimately show ?thesis using g(2) h grewD(10)[OF g(2)] True by auto
qed

lemma drop_chunks: "chunks_ok m cs \<Longrightarrow> i < length cs \<Longrightarrow> drop (i * m) (concat cs) = concat (drop i cs)"
proof (induction cs arbitrary: i)
  case (Cons c cs)
  show ?case
  proof (cases i)
    case (Suc j)
    then have "cs \<noteq> []" using Cons.prems(2) by auto
    then show ?thesis using Cons Suc by (auto simp: chunks_ok_Cons)
  qed simp
qed simp

lemma chunk_end: "chunks_ok m cs \<Longrightarrow> i < length cs \<Longrightarrow> i * m + length (cs ! i) \<le> length (concat cs)"
proof (induction cs arbitrary: i)
  case (Cons c cs)
  show ?case
  proof (cases i)
    case (Suc j)
    then have "cs \<noteq> []" using Cons.prems(2) by auto
    then show ?thesis using Cons Suc by (auto simp: chunks_ok_Cons)
  qed simp
qed simp

lemma read_chunk:
  assumes ok: "chunks_ok m cs" and i: "i = chunk_index m cs pos" and k: "pos + k \<le> i * m + length (cs ! i)"
  shows "take k (drop pos (concat cs)) = take k (drop (pos - i * m) (cs ! i))"
proof -
  have il: "i < length cs" and p: "i * m \<le> pos" using chunk_index_less[OF ok] chunk_index_le by (simp_all add: i)
  have "drop pos (concat cs) = drop (pos - i * m) (concat (drop i cs))"
    using p by (simp add: drop_chunks[OF ok il, symmetric])
  also have "\<dots> = drop (pos - i * m) (cs ! i @ concat (drop (Suc i) cs))"
    using Cons_nth_drop_Suc[OF il] by (metis concat.simps(2))
  finally show ?thesis using k p by simp
qed

lemma read_past_end:
  assumes ok: "chunks_ok m cs" and i: "i = chunk_index m cs pos" and p: "i * m + length (cs ! i) \<le> pos"
  shows "length (concat cs) \<le> pos"
proof -
  have il: "i < length cs" using chunk_index_less[OF ok] by (simp add: i)
  show ?thesis
  proof (cases "Suc i < length cs")
    case True
    then have "length (cs ! i) = m" "i = pos div m" "0 < m" using ok i by (auto simp: chunks_ok_def chunk_index_def)
    then have "pos < i * m + m" using dividend_less_div_times[of m pos] by simp
    then show ?thesis using p \<open>length (cs ! i) = m\<close> by simp
  next
    case False
    then have "i = length cs - 1" using il by simp
    then show ?thesis using p length_concat_chunks[OF ok] ok by (auto simp: last_conv_nth chunks_ok_def)
  qed
qed

section \<open>Reading\<close>

lemma readLoop_correct:
  assumes ok: "codec_ok e" "path_isValid file" "tailPointer file = Some t" "0 < fe_levels e"
    and F: "concat cs = F" "in64 (int (length F))" and off: "in64 (int off + int n)"
  shows "\<lbrakk>store_ok e s; dirty_ok s; T < length (fs_heap s); fs_heap s ! T = FileB f;
      fileShape e s (branchOf file) t m f cs; length dest = n; nRead \<le> n; n - nRead \<le> fuel\<rbrakk> \<Longrightarrow>
    \<exists>s'. readLoop fuel e file T (int off) dest (int nRead) s =
      (Inr (int (nRead + length (flat_read F (off + nRead) (n - nRead))),
            take nRead dest @ flat_read F (off + nRead) (n - nRead) @
              drop (nRead + length (flat_read F (off + nRead) (n - nRead))) dest), s') \<and> grew e s s'"
proof (induction fuel arbitrary: s dest nRead)
  case 0
  then show ?case by (auto simp: flat_read_def)
next
  case (Suc fuel)
  note shape = Suc.prems(5)
  have cs: "chunks_ok m cs" using shape by (simp add: fileShape_def)
  show ?case
  proof (cases "nRead < n")
    case False
    then show ?thesis using Suc.prems by (auto simp: flat_read_def)
  next
    case lt: True
    let ?pos = "off + nRead"
    define i where "i = chunk_index m cs ?pos"
    have il: "i < length cs" and ip: "i * m \<le> ?pos" using chunk_index_less[OF cs] chunk_index_le by (simp_all add: i_def)
    let ?c = "cs ! i"
    have cend: "i * m + length ?c \<le> length F" using chunk_end[OF cs il] F by simp
    from locate[OF Suc.prems(1,2) ok Suc.prems(3,4) shape i_def, of blockRead] obtain r s1 b where
      run: "getFileBlockAtOffsetLocked e file T (int ?pos) blockRead s = (Inr r, s1)" and gr: "grew e s s1"
      and loc: "locates s1 (branchOf file) t T f cs m i r b" by blast
    have cont: "fb_Contents (fileAt s1 (bo_block r)) = ?c" and so: "bo_startOff r = int (i * m)"
      using loc by (auto simp: locates_def fileAt_def)
    have w1: "wrap64 (int nRead + int off) = int ?pos" using off lt by (simp add: in64_def)
    have w2: "wrap64 (int (i * m) + int (length ?c)) = int (i * m + length ?c)"
      by (rule wrap64_nat_sum[OF F(2) cend])
    show ?thesis
    proof (cases "i * m + length ?c \<le> ?pos")
      case True
      then have "length F \<le> ?pos" using read_past_end[OF cs i_def] F by simp
      then have "flat_read F ?pos (n - nRead) = []" by (simp add: flat_read_def)
      then show ?thesis using lt Suc.prems(6) run cont so w1 w2 True gr
        by (simp add: Let_def del: of_nat_mult of_nat_add)
    next
      case False
      define first where "first = ?pos - i * m"
      define k where "k = min (n - nRead) (length ?c - first)"
      have k: "0 < k" "k \<le> n - nRead" "first + k \<le> length ?c" "?pos + k \<le> i * m + length ?c"
        using False lt ip by (auto simp: k_def first_def)
      define A where "A = length ?c - first"
      obtain l where l: "n = nRead + l" using lt less_imp_add_positive by blast
      have w3: "wrap64 (int (i * m + length ?c) - int ?pos) = int A"
        using wrap64_nat_diff[OF F(2) cend, of ?pos] False ip by (simp add: A_def first_def)
      have w4: "wrap64 (int ?pos - int (i * m)) = int first"
        unfolding first_def by (rule wrap64_nat_diff[of "off + n"]) (use off lt ip in simp_all)
      have w5: "wrap64 (int nRead + int k) = int (nRead + k)"
        by (rule wrap64_nat_sum[of "off + n"]) (use off k lt in simp_all)
      have kA: "k = min l A" by (simp add: k_def A_def l)
      let ?dest = "take nRead dest @ take k (drop first ?c) @ drop (nRead + k) dest"
      have len: "length ?dest = n" using Suc.prems(6) k lt by simp
      have cp: "copy_at dest (int nRead) (int k) (drop first ?c) = Some ?dest"
        using Suc.prems(6) k lt by (simp add: copy_at_def nat_add_distrib)
      have step: "readLoop (Suc fuel) e file T (int off) dest (int nRead) s = readLoop fuel e file T (int off) ?dest (int (nRead + k)) s1"
      proof -
        have d: "int (length dest) - int nRead = int l" "nRead < length dest" using Suc.prems(6) lt l by simp_all
        have "first + A \<le> length ?c \<or> l \<le> A" "k \<le> length ?c" using k(3) by (auto simp: A_def)
        then show ?thesis
          using d run cont so w1 w2 w3 w4 w5 False cp k kA
          by (cases "A < l") (auto simp: Let_def simp del: of_nat_mult of_nat_add)
      qed
      have "\<exists>s'. readLoop fuel e file T (int off) ?dest (int (nRead + k)) s1 =
        (Inr (int (nRead + k + length (flat_read F (off + (nRead + k)) (n - (nRead + k)))),
            take (nRead + k) ?dest @ flat_read F (off + (nRead + k)) (n - (nRead + k)) @
              drop (nRead + k + length (flat_read F (off + (nRead + k)) (n - (nRead + k)))) ?dest), s') \<and> grew e s1 s'"
        by (rule Suc.IH) (use Suc.prems gr grew_store[OF _ gr] grew_dirty_ok[OF _ gr] grewD(9)[OF gr] grew_heap[OF gr]
            grew_fileShape[OF gr] len k in auto)
      moreover have "flat_read F ?pos (n - nRead) = take k (drop first ?c) @ flat_read F (?pos + k) (n - (nRead + k))"
      proof -
        have "flat_read F ?pos (n - nRead) = take k (drop ?pos F) @ take (n - nRead - k) (drop k (drop ?pos F))"
          unfolding flat_read_def using k(2) by (metis le_add_diff_inverse take_add)
        moreover have "take k (drop ?pos F) = take k (drop first ?c)"
          using read_chunk[OF cs i_def k(4)] F(1) by (simp add: first_def)
        ultimately show ?thesis by (simp add: flat_read_def add.commute diff_diff_left)
      qed
      ultimately show ?thesis
        unfolding step using grew_trans[OF gr] k Suc.prems(6) lt by (auto simp: ac_simps)
    qed
  qed
qed

section \<open>Files at rest\<close>

text \<open>The bytes of a file, and the state in which it is well-formed with blocks of \<open>m\<close> bytes.\<close>

definition childBytes :: "fboEnv \<Rightarrow> fboState \<Rightarrow> BranchName \<Rightarrow> IndirectFilePtr \<Rightarrow> byte list option" where
  "childBytes e s br ip =
     (case blockView e s br (ipPtr ip) emptyFile of Inr (FileB b) \<Rightarrow> Some (fb_Contents b) | _ \<Rightarrow> None)"

definition fileBytes :: "fboEnv \<Rightarrow> fboState \<Rightarrow> path \<Rightarrow> byte list option" where
  "fileBytes e s file =
     Option.bind (tailPointer file) (\<lambda>t.
       case blockView e s (branchOf file) t emptyFile of
         Inr (FileB f) \<Rightarrow>
           if fb_IsInd f then map_option concat (those (map (childBytes e s (branchOf file)) (fb_IPtrs f)))
           else Some (fb_Contents f)
       | _ \<Rightarrow> None)"

definition env_ok :: "fboEnv \<Rightarrow> path \<Rightarrow> bool" where
  "env_ok e file \<longleftrightarrow> server_ok e \<and> codec_ok e \<and> path_isValid file \<and> 0 < fe_levels e"

definition file_ok :: "fboEnv \<Rightarrow> fboState \<Rightarrow> path \<Rightarrow> nat \<Rightarrow> bool" where
  "file_ok e s file m \<longleftrightarrow> env_ok e file \<and> store_ok e s \<and> dirty_ok s \<and>
     (\<exists>t f cs. tailPointer file = Some t \<and> blockView e s (branchOf file) t emptyFile = Inr (FileB f) \<and>
        fileShape e s (branchOf file) t m f cs \<and> in64 (int (length (concat cs))))"

lemma those_nth: "length xs = length ys \<Longrightarrow> (\<And>i. i < length ys \<Longrightarrow> f (xs ! i) = Some (ys ! i)) \<Longrightarrow> those (map f xs) = Some ys"
proof (induction xs arbitrary: ys)
  case (Cons x xs)
  then obtain y ys' where ys: "ys = y # ys'" by (cases ys) auto
  have "f (xs ! i) = Some (ys' ! i)" if "i < length ys'" for i using Cons.prems(2)[of "Suc i"] that ys by simp
  then have "those (map f xs) = Some ys'" using Cons.prems(1) ys by (intro Cons.IH) simp_all
  moreover have "f x = Some y" using Cons.prems(2)[of 0] ys by simp
  ultimately show ?case by (simp add: ys)
qed simp

lemma fileBytes_shape:
  assumes "tailPointer file = Some t" and "blockView e s (branchOf file) t emptyFile = Inr (FileB f)"
    and "fileShape e s (branchOf file) t m f cs"
  shows "fileBytes e s file = Some (concat cs)"
proof (cases "fb_IsInd f")
  case True
  then have "those (map (childBytes e s (branchOf file)) (fb_IPtrs f)) = Some cs"
    using assms(3) by (intro those_nth) (auto simp: fileShape_def childHas_def childBytes_def)
  then show ?thesis using assms True by (simp add: fileBytes_def)
next
  case False
  then show ?thesis using assms by (simp add: fileBytes_def fileShape_def)
qed

lemma grew_file_ok:
  assumes gr: "grew e s s'" and ok: "file_ok e s file m"
  shows "file_ok e s' file m" "fileBytes e s' file = fileBytes e s file"
proof -
  from ok obtain t f cs where h: "tailPointer file = Some t" "blockView e s (branchOf file) t emptyFile = Inr (FileB f)"
    "fileShape e s (branchOf file) t m f cs" "in64 (int (length (concat cs)))" "store_ok e s" "dirty_ok s" "env_ok e file"
    by (auto simp: file_ok_def)
  have v: "blockView e s' (branchOf file) t emptyFile = Inr (FileB f)" using grew_view[OF gr h(6,2)] by simp
  have sh: "fileShape e s' (branchOf file) t m f cs" using grew_fileShape[OF gr h(6,3)] .
  show "file_ok e s' file m"
    using v sh h grew_store[OF h(5) gr] grew_dirty_ok[OF h(6) gr] unfolding file_ok_def by blast
  show "fileBytes e s' file = fileBytes e s file"
    using fileBytes_shape[OF h(1,2,3)] fileBytes_shape[OF h(1) v sh] by simp
qed

lemma Read_correct:
  assumes ok: "file_ok e s file m" and F: "fileBytes e s file = Some F" and off: "in64 (int off + int (length dest))"
  shows "\<exists>s'. fbo_Read e file dest (int off) s =
      (Inr (int (length (flat_read F off (length dest))),
            flat_read F off (length dest) @ drop (length (flat_read F off (length dest))) dest), s') \<and>
    file_ok e s' file m \<and> fileBytes e s' file = Some F"
proof -
  from ok obtain t f cs where h: "tailPointer file = Some t" "blockView e s (branchOf file) t emptyFile = Inr (FileB f)"
    "fileShape e s (branchOf file) t m f cs" "in64 (int (length (concat cs)))" "store_ok e s" "dirty_ok s"
    and env: "server_ok e" "codec_ok e" "path_isValid file" "0 < fe_levels e"
    by (auto simp: file_ok_def env_ok_def)
  have F': "concat cs = F" using fileBytes_shape[OF h(1-3)] F by simp
  have valid: "BlockPointer_IsValid t" using valid_path_tail[OF env(3)] h(1) by auto
  from getFileBlock_read[OF h(5,6,2) valid env(3)] obtain T s1 where
    get: "getFileBlockLocked e t file blockRead s = (Inr T, s1)" and gr: "grew e s s1"
    and T: "T < length (fs_heap s1)" "fs_heap s1 ! T = FileB f" by blast
  from readLoop_correct[OF env(2,3) h(1) env(4) F' _ off grew_store[OF h(5) gr] grew_dirty_ok[OF h(6) gr] T
      grew_fileShape[OF gr h(6,3)] refl, of 0 "length dest"] h(4) F' obtain s' where
    "readLoop (length dest) e file T (int off) dest 0 s1 =
      (Inr (int (length (flat_read F off (length dest))),
            flat_read F off (length dest) @ drop (length (flat_read F off (length dest))) dest), s')" "grew e s1 s'"
    by auto
  then show ?thesis
    using get h(1) grew_file_ok[OF grew_trans[OF gr] ok] F by (auto simp: fbo_Read_def getFileLocked_def tailA_def)
qed

end
