(* ===== verification/Kbfs_File_Write.thy ===== *)
theory Kbfs_File_Write
  imports Kbfs_File_Io
begin

text \<open>
  Writing and truncating: the loop of \<open>writeDataLocked\<close> on block objects does the rounds of
  \<open>Kbfs_File_Chunks\<close>, so a write and a truncate of a file refine those of a flat file and leave every
  other block alone.
\<close>

section \<open>Steps on the objects and the dirty cache\<close>

lemma dirtyAddr_putDirty [simp]:
  "dirtyAddr (putDirtyPtr p br a s) q br' = (if dirtyID q br' = dirtyID p br then Some a else dirtyAddr s q br')"
  by (auto simp: dirtyAddr_def putDirtyPtr_def update_conv')

lemma putDirty_fields [simp]:
  "fs_heap (putDirtyPtr p br a s) = fs_heap s" "fs_cache (putDirtyPtr p br a s) = fs_cache s"
  "fs_fileBlockStates (putDirtyPtr p br a s) = fs_fileBlockStates s" "fs_tempCount (putDirtyPtr p br a s) = fs_tempCount s"
  "fs_deCache (putDirtyPtr p br a s) = fs_deCache s" "fs_unrefCache (putDirtyPtr p br a s) = fs_unrefCache s"
  by (simp_all add: putDirtyPtr_def)

lemma setFile_fields [simp]:
  "fs_heap (setFile a g s) = (fs_heap s)[a := FileB g]" "fs_cache (setFile a g s) = fs_cache s"
  "fs_dirty (setFile a g s) = fs_dirty s" "fs_fileBlockStates (setFile a g s) = fs_fileBlockStates s"
  "fs_tempCount (setFile a g s) = fs_tempCount s" "fs_deCache (setFile a g s) = fs_deCache s"
  "fs_unrefCache (setFile a g s) = fs_unrefCache s" "dirtyAddr (setFile a g s) q br = dirtyAddr s q br"
  by (simp_all add: setFile_def dirtyAddr_def)

lemma snd_update: "snd ` set (AList.update k v al) \<subseteq> insert v (snd ` set al)"
  by (induction al) auto

lemma distinct_snd_update:
  "v \<notin> snd ` set al \<Longrightarrow> distinct (map snd al) \<Longrightarrow> distinct (map snd (AList.update k v al))"
proof (induction al)
  case (Cons p al)
  then show ?case using snd_update[of k v al] by (cases p) (auto simp: image_iff)
qed simp

lemma fst_update: "fst ` set (AList.update k v al) = insert k (fst ` set al)"
  by (induction al) auto

lemma dirty_ok_putDirty:
  assumes "dirty_ok s" and "a < length (fs_heap s)" and "a \<notin> snd ` set (fs_dirty s)"
  shows "dirty_ok (putDirtyPtr p br a s)"
proof -
  have "a' < length (fs_heap s)" if "a' \<in> snd ` set (AList.update (dirtyID p br) a (fs_dirty s))" for a'
    using subsetD[OF snd_update that] assms unfolding dirty_ok_def by blast
  then show ?thesis using assms
    unfolding dirty_ok_def by (simp add: putDirtyPtr_def distinct_update distinct_snd_update)
qed

lemma dirty_ok_setFile [simp]: "dirty_ok (setFile a g s) = dirty_ok s"
  by (simp add: dirty_ok_def)

lemma dirty_ok_heap: "dirty_ok s \<Longrightarrow> dirty_ok (s\<lparr>fs_heap := fs_heap s @ [b]\<rparr>)"
  by (fastforce simp: dirty_ok_def)

lemma store_ok_fields [simp]:
  "store_ok e (setFile a g s) = store_ok e s" "store_ok e (putDirtyPtr p br a s) = store_ok e s"
  "store_ok e (s\<lparr>fs_heap := h\<rparr>) = store_ok e s" "store_ok e (s\<lparr>fs_tempCount := n\<rparr>) = store_ok e s"
  by (simp_all add: store_ok_def)

lemma dirtyAddr_range: "dirtyAddr s p br = Some a \<Longrightarrow> a \<in> snd ` set (fs_dirty s)"
  by (force simp: dirtyAddr_def dest!: map_of_SomeD)

lemma held_unused:
  assumes "dirty_ok s" and "held s br p a" and "dirtyAddr s p br \<noteq> Some a"
  shows "a \<notin> snd ` set (fs_dirty s)"
  using assms by (simp add: held_def)

lemma held_not_addr:
  assumes "dirty_ok s" and "held s br p a" and "dirtyID q br' \<noteq> dirtyID p br"
  shows "dirtyAddr s q br' \<noteq> Some a"
proof
  assume q: "dirtyAddr s q br' = Some a"
  then have "dirtyAddr s p br = Some a" using assms(2) dirtyAddr_range[OF q] by (auto simp: held_def)
  then show False using dirtyAddr_inj[OF assms(1) q] assms(3) by blast
qed

text \<open>Views of the other pointers.\<close>

lemma view_setFile [simp]:
  "dirtyAddr s q br' \<noteq> Some a \<Longrightarrow> blockView e (setFile a g s) br' q nb = blockView e s br' q nb"
  by (auto simp: blockView_def split: option.split)

lemma view_setFile_same:
  "dirtyAddr s q br' = Some a \<Longrightarrow> a < length (fs_heap s) \<Longrightarrow> blockView e (setFile a g s) br' q nb = Inr (FileB g)"
  by (simp add: blockView_def)

lemma view_putDirty [simp]:
  "dirtyID q br' \<noteq> dirtyID p br \<Longrightarrow> blockView e (putDirtyPtr p br a s) br' q nb = blockView e s br' q nb"
  by (simp add: blockView_def split: option.split)

lemma view_heap: "dirty_ok s \<Longrightarrow> blockView e (s\<lparr>fs_heap := fs_heap s @ [b]\<rparr>) br' q nb = blockView e s br' q nb"
  using dirtyAddr_bound[of s q br'] by (auto simp: blockView_def dirtyAddr_def nth_append split: option.split)

text \<open>Caching a held block.\<close>

lemma cacheBlock_cases:
  assumes "held s br p a"
  shows "(dirtyAddr s p br = Some a \<and>
       (cacheBlockIfNotYetDirtyLocked p br a s = s \<or>
        cacheBlockIfNotYetDirtyLocked p br a s = s\<lparr>fs_doDeferWrite := True\<rparr> \<or>
        cacheBlockIfNotYetDirtyLocked p br a s =
          (setBlockState p blockSyncingAndDirty (putDirtyPtr p br a s))\<lparr>fs_doDeferWrite := True\<rparr>)) \<or>
     (a \<notin> snd ` set (fs_dirty s) \<and>
       (cacheBlockIfNotYetDirtyLocked p br a s = putDirtyPtr p br a s \<or>
        cacheBlockIfNotYetDirtyLocked p br a s =
          (setBlockState p blockSyncingAndDirty (putDirtyPtr p br a s))\<lparr>fs_doDeferWrite := True\<rparr>))"
  using assms
  by (auto simp: held_def cacheBlockIfNotYetDirtyLocked_def isDirtyPtr_def split: syncBlockState.split)

lemma cacheBlock_fields [simp]:
  "fs_heap (cacheBlockIfNotYetDirtyLocked p br a s) = fs_heap s"
  "fs_cache (cacheBlockIfNotYetDirtyLocked p br a s) = fs_cache s"
  "fs_tempCount (cacheBlockIfNotYetDirtyLocked p br a s) = fs_tempCount s"
  "fs_deCache (cacheBlockIfNotYetDirtyLocked p br a s) = fs_deCache s"
  "fs_unrefCache (cacheBlockIfNotYetDirtyLocked p br a s) = fs_unrefCache s"
  "store_ok e (cacheBlockIfNotYetDirtyLocked p br a s) = store_ok e s"
  by (simp_all add: cacheBlockIfNotYetDirtyLocked_def setBlockState_def store_ok_def split: syncBlockState.split)

lemma cacheBlock_states:
  "q \<noteq> p \<Longrightarrow> fs_fileBlockStates (cacheBlockIfNotYetDirtyLocked p br a s) q = fs_fileBlockStates s q"
  by (simp add: cacheBlockIfNotYetDirtyLocked_def setBlockState_def split: syncBlockState.split)

lemma cacheBlock_addr:
  assumes "held s br p a"
  shows "dirtyAddr (cacheBlockIfNotYetDirtyLocked p br a s) q br' =
    (if dirtyID q br' = dirtyID p br then Some a else dirtyAddr s q br')"
  using cacheBlock_cases[OF assms] by (auto simp: setBlockState_def dirtyAddr_def putDirtyPtr_def update_conv')

lemma cacheBlock_dirty_ok:
  assumes "dirty_ok s" and "held s br p a"
  shows "dirty_ok (cacheBlockIfNotYetDirtyLocked p br a s)"
proof -
  have "dirty_ok (s\<lparr>fs_doDeferWrite := b\<rparr>) = dirty_ok s" "dirty_ok (setBlockState p st s) = dirty_ok s" for b st s
    by (simp_all add: dirty_ok_def setBlockState_def)
  moreover have "putDirtyPtr p br a s = s" if "dirtyAddr s p br = Some a"
    using that by (simp add: putDirtyPtr_def dirtyAddr_def update_triv)
  ultimately show ?thesis
    using cacheBlock_cases[OF assms(2)] assms dirty_ok_putDirty[OF assms(1), of a p br] by (auto simp: held_def)
qed

lemma cacheBlock_dirty:
  "fs_dirty (cacheBlockIfNotYetDirtyLocked p br a s) = fs_dirty s \<or>
   fs_dirty (cacheBlockIfNotYetDirtyLocked p br a s) = AList.update (dirtyID p br) a (fs_dirty s)"
  by (simp add: cacheBlockIfNotYetDirtyLocked_def setBlockState_def putDirtyPtr_def split: syncBlockState.split)

lemma cacheBlock_range:
  "snd ` set (fs_dirty (cacheBlockIfNotYetDirtyLocked p br a s)) \<subseteq> insert a (snd ` set (fs_dirty s))"
  using cacheBlock_dirty[of p br a s] snd_update[of "dirtyID p br" a "fs_dirty s"]
  by (elim disjE) (simp_all add: subset_insertI)

lemma cacheBlock_keys:
  "fst ` set (fs_dirty (cacheBlockIfNotYetDirtyLocked p br a s)) \<subseteq> insert (dirtyID p br) (fst ` set (fs_dirty s))"
  using cacheBlock_dirty[of p br a s] fst_update[of "dirtyID p br" a "fs_dirty s"]
  by (elim disjE) (simp_all add: subset_insertI)

lemma cacheBlock_held_other:
  assumes h: "held s br p a" and q: "held s br q b" and ne: "dirtyID q br \<noteq> dirtyID p br" "b \<noteq> a"
  shows "held (cacheBlockIfNotYetDirtyLocked p br a s) br q b"
proof -
  have "q \<noteq> p" using ne by auto
  then show ?thesis
    using q ne cacheBlock_range[of p br a s] cacheBlock_states[of q p br a s] cacheBlock_addr[OF h, of q br]
    by (auto simp: held_def)
qed

lemma cacheBlock_held_same:
  assumes "held s br p a"
  shows "held (cacheBlockIfNotYetDirtyLocked p br a s) br p a"
  using assms cacheBlock_addr[OF assms, of p br] by (simp add: held_def)

lemma view_cacheBlock:
  "held s br p a \<Longrightarrow> blockView e (cacheBlockIfNotYetDirtyLocked p br a s) br' q nb =
     (if dirtyID q br' = dirtyID p br then Inr (fs_heap s ! a) else blockView e s br' q nb)"
  by (auto simp: blockView_def cacheBlock_addr split: option.split)

section \<open>Temporary IDs\<close>

text \<open>
  What is relied on of the random IDs: the calls of \<open>MakeTemporaryBlockID\<close> up to the \<open>N\<close>-th one succeed, and
  give valid IDs that differ from each other and from every ID in use. \<open>tempIDs\<close> are those still to come.
\<close>

definition tempIDs :: "nat \<Rightarrow> fboEnv \<Rightarrow> fboState \<Rightarrow> BlockID set" where
  "tempIDs N e s = {i. \<exists>k. fs_tempCount s \<le> k \<and> k < N \<and> fe_tempID e k = Inr i}"

definition temp_ok :: "nat \<Rightarrow> fboEnv \<Rightarrow> fboState \<Rightarrow> dirtyBlockID set \<Rightarrow> bool" where
  "temp_ok N e s K \<longleftrightarrow>
     (\<forall>k. fs_tempCount s \<le> k \<and> k < N \<longrightarrow> (\<exists>i. fe_tempID e k = Inr i \<and> BlockID_IsValid i)) \<and>
     inj_on (fe_tempID e) {fs_tempCount s..<N} \<and>
     tempIDs N e s \<inter> dbi_id ` (K \<union> fst ` set (fs_dirty s)) = {}"

lemma temp_ok_next:
  assumes ok: "temp_ok N e s K" and N: "fs_tempCount s < N"
  shows "\<exists>i. MakeTemporaryBlockID e s = (Inr i, s\<lparr>fs_tempCount := Suc (fs_tempCount s)\<rparr>) \<and> BlockID_IsValid i \<and>
    i \<in> tempIDs N e s \<and> i \<notin> dbi_id ` (K \<union> fst ` set (fs_dirty s)) \<and>
    tempIDs N e (s\<lparr>fs_tempCount := Suc (fs_tempCount s)\<rparr>) = tempIDs N e s - {i} \<and>
    temp_ok N e (s\<lparr>fs_tempCount := Suc (fs_tempCount s)\<rparr>) K"
proof -
  let ?c = "fs_tempCount s" and ?s = "s\<lparr>fs_tempCount := Suc (fs_tempCount s)\<rparr>"
  obtain i where i: "fe_tempID e ?c = Inr i" "BlockID_IsValid i" using ok N by (auto simp: temp_ok_def)
  have inj: "inj_on (fe_tempID e) {?c..<N}" and ids: "\<And>k. ?c \<le> k \<Longrightarrow> k < N \<Longrightarrow> \<exists>i. fe_tempID e k = Inr i \<and> BlockID_IsValid i"
    and disj: "tempIDs N e s \<inter> dbi_id ` (K \<union> fst ` set (fs_dirty s)) = {}"
    using ok by (simp_all add: temp_ok_def)
  have mem: "i \<in> tempIDs N e s" using i(1) N by (auto simp: tempIDs_def)
  have eq: "fe_tempID e k = Inr i \<longleftrightarrow> k = ?c" if "?c \<le> k" "k < N" for k
    using inj_onD[OF inj, of k ?c] that i(1) N by auto
  have rest: "tempIDs N e ?s = tempIDs N e s - {i}"
  proof (rule set_eqI)
    fix j
    have "(\<exists>k. Suc ?c \<le> k \<and> k < N \<and> fe_tempID e k = Inr j) \<longleftrightarrow> (\<exists>k. ?c \<le> k \<and> k < N \<and> fe_tempID e k = Inr j) \<and> j \<noteq> i"
      using eq i(1) by (metis Suc_leD Suc_leI le_neq_implies_less not_less_eq_eq order_refl sum.inject(2))
    then show "j \<in> tempIDs N e ?s \<longleftrightarrow> j \<in> tempIDs N e s - {i}" by (simp add: tempIDs_def)
  qed
  have "inj_on (fe_tempID e) {Suc ?c..<N}" by (rule inj_on_subset[OF inj]) auto
  then have "temp_ok N e ?s K" using ids disj rest by (auto simp: temp_ok_def)
  moreover have "MakeTemporaryBlockID e s = (Inr i, ?s)" using i(1) by (simp add: MakeTemporaryBlockID_def)
  ultimately show ?thesis using i(2) mem rest disj by blast
qed

lemma temp_ok_mono:
  assumes "temp_ok N e s K" and "fs_tempCount s' = fs_tempCount s"
    and "dbi_id ` (K' \<union> fst ` set (fs_dirty s')) \<inter> tempIDs N e s = {}"
  shows "temp_ok N e s' K'"
proof -
  have "tempIDs N e s' = tempIDs N e s" using assms(2) by (simp add: tempIDs_def)
  then show ?thesis using assms unfolding temp_ok_def by auto
qed

lemma disjoint_sub: "A \<inter> B = {} \<Longrightarrow> C \<subseteq> B \<Longrightarrow> C \<inter> A = {}"
  by blast

lemma disjoint_insert_sub: "A \<inter> B = {} \<Longrightarrow> (A - {i}) \<inter> insert i B = {}"
  by blast

lemma insert_keys: "A \<subseteq> insert x (insert k B) \<Longrightarrow> x \<in> K \<Longrightarrow> insert k K \<union> A \<subseteq> insert k (K \<union> B)"
  by blast

lemma temp_ok_sub:
  assumes "temp_ok N e s K" and "fs_tempCount s' = fs_tempCount s"
    and "K' \<union> fst ` set (fs_dirty s') \<subseteq> K \<union> fst ` set (fs_dirty s)"
  shows "temp_ok N e s' K'"
proof (rule temp_ok_mono[OF assms(1,2)])
  have "tempIDs N e s \<inter> dbi_id ` (K \<union> fst ` set (fs_dirty s)) = {}" using assms(1) by (simp add: temp_ok_def)
  then show "dbi_id ` (K' \<union> fst ` set (fs_dirty s')) \<inter> tempIDs N e s = {}"
    by (rule disjoint_sub[OF _ image_mono[OF assms(3)]])
qed

lemma cacheBlock_temp_ok:
  assumes "temp_ok N e s K" and "dirtyID p br \<in> K"
  shows "temp_ok N e (cacheBlockIfNotYetDirtyLocked p br a s) K"
proof (rule temp_ok_sub[OF assms(1)])
  have "insert (dirtyID p br) (fst ` set (fs_dirty s)) \<subseteq> K \<union> fst ` set (fs_dirty s)" using assms(2) by simp
  from subset_trans[OF cacheBlock_keys this]
  show "K \<union> fst ` set (fs_dirty (cacheBlockIfNotYetDirtyLocked p br a s)) \<subseteq> K \<union> fst ` set (fs_dirty s)" by simp
qed simp

section \<open>A file while it is written\<close>

definition fkeys :: "BranchName \<Rightarrow> BlockPointer \<Rightarrow> FileBlock \<Rightarrow> dirtyBlockID set" where
  "fkeys br t f = insert (dirtyID t br) (if fb_IsInd f then ipKey br ` set (fb_IPtrs f) else {})"

lemma fkeys_tail: "dirtyID t br \<in> fkeys br t f"
  by (cases "fb_IsInd f") (auto simp: fkeys_def)

text \<open>
  Steps that leave all blocks alone but those with keys in \<open>K\<close> and those with new IDs.
\<close>

definition frame :: "nat \<Rightarrow> fboEnv \<Rightarrow> dirtyBlockID set \<Rightarrow> fboState \<Rightarrow> fboState \<Rightarrow> bool" where
  "frame N e K s s' \<longleftrightarrow> tempIDs N e s' \<subseteq> tempIDs N e s \<and>
     (\<forall>q br nb b. dirtyID q br \<notin> K \<and> bp_ID q \<notin> tempIDs N e s \<and> nb \<in> {emptyFile, emptyDir} \<and> sameKind nb b \<and>
        blockView e s br q nb = Inr b \<longrightarrow> blockView e s' br q nb = Inr b)"

lemma frame_refl [simp]: "frame N e K s s"
  by (simp add: frame_def)

lemma frameI:
  assumes "\<And>q br nb. dirtyID q br \<notin> K \<Longrightarrow> bp_ID q \<notin> tempIDs N e s \<Longrightarrow> blockView e s' br q nb = blockView e s br q nb"
    and "tempIDs N e s' \<subseteq> tempIDs N e s"
  shows "frame N e K s s'"
  using assms by (simp add: frame_def)

lemma tempIDs_count: "fs_tempCount s' = fs_tempCount s \<Longrightarrow> tempIDs N e s' = tempIDs N e s"
  by (simp add: tempIDs_def)

lemma frame_one:
  assumes "\<And>q br nb. dirtyID q br \<noteq> k \<Longrightarrow> blockView e s' br q nb = blockView e s br q nb"
    and "k \<in> K" and "fs_tempCount s' = fs_tempCount s"
  shows "frame N e K s s'"
proof (rule frameI)
  fix q br nb assume "dirtyID q br \<notin> K"
  then have "dirtyID q br \<noteq> k" using assms(2) by auto
  then show "blockView e s' br q nb = blockView e s br q nb" by (rule assms(1))
qed (simp add: tempIDs_def assms(3))

lemma frame_trans:
  assumes "frame N e K s s'" and "frame N e K' s' s''" and "\<And>k. k \<in> K' \<Longrightarrow> k \<in> K \<or> dbi_id k \<in> tempIDs N e s"
  shows "frame N e K s s''"
proof -
  have "dirtyID q br \<notin> K'" if "dirtyID q br \<notin> K" "bp_ID q \<notin> tempIDs N e s" for q br
    using assms(3)[of "dirtyID q br"] that by (auto simp: dirtyID_def)
  then show ?thesis using assms(1,2) unfolding frame_def by (meson subsetD subset_trans)
qed

lemma grew_frame: "grew e s s' \<Longrightarrow> dirty_ok s \<Longrightarrow> frame N e K s s'"
  using grew_view grewD(8) by (fastforce simp: frame_def tempIDs_def)

text \<open>
  The file with pointer \<open>t\<close> stands for the chunks \<open>cs\<close>, its top block being the object \<open>T\<close>, which has the
  value \<open>f\<close>.
\<close>

definition wInv :: "nat \<Rightarrow> fboEnv \<Rightarrow> fboState \<Rightarrow> path \<Rightarrow> BlockPointer \<Rightarrow> nat \<Rightarrow> FileBlock \<Rightarrow> byte list list \<Rightarrow> nat \<Rightarrow> bool" where
  "wInv N e s file t T f cs m \<longleftrightarrow>
     env_ok e file \<and> store_ok e s \<and> dirty_ok s \<and> tailPointer file = Some t \<and>
     held s (branchOf file) t T \<and> fs_heap s ! T = FileB f \<and> fileShape e s (branchOf file) t m f cs \<and>
     temp_ok N e s (fkeys (branchOf file) t f)"

text \<open>
  The same in the middle of a round: the block of pointer \<open>i\<close> is the object \<open>B\<close>, which may be a copy that
  is not in the cache yet. The sizes of the chunks are not looked at.
\<close>

definition wMid ::
  "nat \<Rightarrow> fboEnv \<Rightarrow> fboState \<Rightarrow> path \<Rightarrow> BlockPointer \<Rightarrow> nat \<Rightarrow> FileBlock \<Rightarrow> byte list list \<Rightarrow> nat \<Rightarrow> nat \<Rightarrow> nat \<Rightarrow> bool" where
  "wMid N e s file t T f cs m i B \<longleftrightarrow>
     (let br = branchOf file; ips = fb_IPtrs f in
      env_ok e file \<and> store_ok e s \<and> dirty_ok s \<and> tailPointer file = Some t \<and>
      held s br t T \<and> fs_heap s ! T = FileB f \<and> fb_IsInd f \<and> length ips = length cs \<and> i < length cs \<and>
      (\<forall>j<length cs. ifp_Off (ips ! j) = int (j * m) \<and> (j \<noteq> i \<longrightarrow> childHas e s br (ips ! j) (cs ! j))) \<and>
      distinct (map (ipKey br) ips) \<and> dirtyID t br \<notin> ipKey br ` set ips \<and>
      BlockPointer_IsValid (ipPtr (ips ! i)) \<and> held s br (ipPtr (ips ! i)) B \<and> B \<noteq> T \<and>
      (\<exists>b. fs_heap s ! B = FileB b \<and> \<not> fb_IsInd b \<and> fb_Contents b = cs ! i) \<and>
      temp_ok N e s (fkeys br t f))"

lemma grew_temp_ok: "grew e s s' \<Longrightarrow> temp_ok N e s' K = temp_ok N e s K"
  by (simp add: temp_ok_def tempIDs_def grewD)

lemma grew_wInv:
  assumes gr: "grew e s s'" and w: "wInv N e s file t T f cs m"
  shows "wInv N e s' file t T f cs m"
proof -
  from w have d: "dirty_ok s" and st: "store_ok e s" and h: "held s (branchOf file) t T"
    and sh: "fileShape e s (branchOf file) t m f cs" by (simp_all add: wInv_def)
  have "T < length (fs_heap s)" using h by (simp add: held_def)
  then show ?thesis
    using w grew_store[OF st gr] grew_dirty_ok[OF d gr] grew_held[OF gr h] grew_heap[OF gr] grew_fileShape[OF gr d sh]
      grew_temp_ok[OF gr] unfolding wInv_def by simp
qed

lemma childHas_cong:
  "blockView e s' br (ipPtr ip) emptyFile = blockView e s br (ipPtr ip) emptyFile \<Longrightarrow>
   childHas e s' br ip c = childHas e s br ip c"
  by (simp add: childHas_def)

lemma ipKey_ne:
  assumes "distinct (map (ipKey br) ips)" and "i < length ips" "j < length ips" "i \<noteq> j"
  shows "dirtyID (ipPtr (ips ! i)) br \<noteq> dirtyID (ipPtr (ips ! j)) br"
  using assms by (auto simp: ipKey_def[symmetric] distinct_conv_nth)

lemma tail_key_ne: "dirtyID t br \<notin> ipKey br ` set ips \<Longrightarrow> j < length ips \<Longrightarrow> dirtyID (ipPtr (ips ! j)) br \<noteq> dirtyID t br"
  by (metis image_eqI ipKey_def nth_mem)

lemma held_setFile [simp]: "held (setFile a g s) br p b = held s br p b"
  by (simp add: held_def)

lemma temp_ok_setFile [simp]: "temp_ok N e (setFile a g s) K = temp_ok N e s K"
  by (simp add: temp_ok_def tempIDs_def)

lemma wMid_locate:
  assumes w: "wInv N e s file t T f cs m" and ind: "fb_IsInd f" and loc: "locates s br t T f cs m i r b" and i: "i < length cs"
    and h: "held s (branchOf file) (bo_ptr r) (bo_block r)" and ne: "bo_block r \<noteq> T"
  shows "wMid N e s file t T f cs m i (bo_block r)"
proof -
  have "BlockPointer_IsValid (ipPtr (fb_IPtrs f ! i))"
    using w ind i by (auto simp: wInv_def fileShape_def childHas_def)
  then show ?thesis
    using w ind loc i h ne unfolding wMid_def Let_def wInv_def fileShape_def locates_def by auto
qed

lemma wMid_setFile:
  assumes w: "wMid N e s file t T f cs m i B" and g: "\<not> fb_IsInd g"
  shows "wMid N e (setFile B g s) file t T f (cs[i := fb_Contents g]) m i B"
    and "frame N e (fkeys (branchOf file) t f) s (setFile B g s)"
proof -
  let ?br = "branchOf file" and ?ips = "fb_IPtrs f"
  have d: "dirty_ok s" and hB: "held s ?br (ipPtr (?ips ! i)) B" and len: "length ?ips = length cs" "i < length cs"
    and dist: "distinct (map (ipKey ?br) ?ips)" and ind: "fb_IsInd f"
    using w by (auto simp: wMid_def Let_def)
  have other: "blockView e (setFile B g s) br' q nb = blockView e s br' q nb"
    if "dirtyID q br' \<noteq> dirtyID (ipPtr (?ips ! i)) ?br" for q br' nb
    using held_not_addr[OF d hB that] by simp
  have "childHas e (setFile B g s) ?br (?ips ! j) (cs ! j)" if "j < length cs" "j \<noteq> i" for j
    using w that other[OF ipKey_ne[OF dist, of j i]] len childHas_cong[of e "setFile B g s" ?br "?ips ! j" s]
    by (auto simp: wMid_def Let_def)
  moreover have "B < length (fs_heap s)" using hB by (simp add: held_def)
  ultimately show "wMid N e (setFile B g s) file t T f (cs[i := fb_Contents g]) m i B"
    using w g unfolding wMid_def Let_def by auto
  have key: "dirtyID (ipPtr (?ips ! i)) ?br \<in> fkeys ?br t f"
    using ind len by (auto simp: fkeys_def ipKey_def)
  show "frame N e (fkeys ?br t f) s (setFile B g s)"
    by (rule frame_one[OF other key]) simp_all
qed

lemma wMid_cache:
  assumes w: "wMid N e s file t T f cs m i B" and ok: "chunks_ok m cs"
  defines "s' \<equiv> cacheBlockIfNotYetDirtyLocked (ipPtr (fb_IPtrs f ! i)) (branchOf file) B s"
  shows "wInv N e s' file t T f cs m" and "frame N e (fkeys (branchOf file) t f) s s'"
proof -
  let ?br = "branchOf file" and ?ips = "fb_IPtrs f"
  let ?p = "ipPtr (?ips ! i)"
  have d: "dirty_ok s" and hB: "held s ?br ?p B" and len: "length ?ips = length cs" "i < length cs"
    and dist: "distinct (map (ipKey ?br) ?ips)" and ind: "fb_IsInd f" and hT: "held s ?br t T" and ne: "B \<noteq> T"
    and tk: "dirtyID t ?br \<notin> ipKey ?br ` set ?ips" and tmp: "temp_ok N e s (fkeys ?br t f)"
    using w by (auto simp: wMid_def Let_def)
  have key: "dirtyID ?p ?br \<in> fkeys ?br t f" and tne: "dirtyID t ?br \<noteq> dirtyID ?p ?br"
    using ind len tk by (auto simp: fkeys_def ipKey_def)
  have other: "blockView e s' br' q nb = blockView e s br' q nb" if "dirtyID q br' \<noteq> dirtyID ?p ?br" for q br' nb
    using that by (simp add: s'_def view_cacheBlock[OF hB])
  have child: "childHas e s' ?br (?ips ! j) (cs ! j)" if j: "j < length cs" for j
  proof (cases "j = i")
    case True
    then show ?thesis using w unfolding wMid_def Let_def childHas_def s'_def view_cacheBlock[OF hB] by auto
  next
    case False
    then show ?thesis
      using w j other[OF ipKey_ne[OF dist, of j i]] len childHas_cong[of e s' ?br "?ips ! j" s]
      by (auto simp: wMid_def Let_def)
  qed
  have tmp': "temp_ok N e s' (fkeys ?br t f)" unfolding s'_def by (rule cacheBlock_temp_ok[OF tmp key])
  show "wInv N e s' file t T f cs m"
    using w ok child tmp' cacheBlock_dirty_ok[OF d hB] cacheBlock_held_other[OF hB hT tne] ne
    unfolding wInv_def wMid_def fileShape_def Let_def s'_def by auto
  show "frame N e (fkeys ?br t f) s s'"
    by (rule frame_one[OF other key]) (simp_all add: s'_def)
qed

lemma bookkeeping_simps [simp]:
  "dirtyAddr (s\<lparr>fs_deCache := x\<rparr>) p br = dirtyAddr s p br" "dirtyAddr (s\<lparr>fs_unrefCache := y\<rparr>) p br = dirtyAddr s p br"
  "dirtyAddr (s\<lparr>fs_tempCount := n\<rparr>) p br = dirtyAddr s p br" "dirtyAddr (s\<lparr>fs_heap := hp\<rparr>) p br = dirtyAddr s p br"
  "blockView e (s\<lparr>fs_deCache := x\<rparr>) br p nb = blockView e s br p nb"
  "blockView e (s\<lparr>fs_unrefCache := y\<rparr>) br p nb = blockView e s br p nb"
  "blockView e (s\<lparr>fs_tempCount := n\<rparr>) br p nb = blockView e s br p nb"
  "held (s\<lparr>fs_deCache := x\<rparr>) br p a = held s br p a" "held (s\<lparr>fs_unrefCache := y\<rparr>) br p a = held s br p a"
  "held (s\<lparr>fs_tempCount := n\<rparr>) br p a = held s br p a"
  "temp_ok N e (s\<lparr>fs_deCache := x\<rparr>) K = temp_ok N e s K" "temp_ok N e (s\<lparr>fs_unrefCache := y\<rparr>) K = temp_ok N e s K"
  "store_ok e (s\<lparr>fs_deCache := x\<rparr>) = store_ok e s" "store_ok e (s\<lparr>fs_unrefCache := y\<rparr>) = store_ok e s"
  "dirty_ok (s\<lparr>fs_deCache := x\<rparr>) = dirty_ok s" "dirty_ok (s\<lparr>fs_unrefCache := y\<rparr>) = dirty_ok s"
  "dirty_ok (s\<lparr>fs_tempCount := n\<rparr>) = dirty_ok s"
  by (simp_all add: dirtyAddr_def blockView_def held_def temp_ok_def tempIDs_def store_ok_def dirty_ok_def
      split: option.split)

lemma childHas_bookkeeping [simp]:
  "childHas e (s\<lparr>fs_deCache := x\<rparr>) br ip c = childHas e s br ip c"
  "childHas e (s\<lparr>fs_unrefCache := y\<rparr>) br ip c = childHas e s br ip c"
  by (simp_all add: childHas_def)

lemma wMid_bookkeeping [simp]:
  "wMid N e (s\<lparr>fs_deCache := x\<rparr>) file t T f cs m i B = wMid N e s file t T f cs m i B"
  "wMid N e (s\<lparr>fs_unrefCache := y\<rparr>) file t T f cs m i B = wMid N e s file t T f cs m i B"
  by (simp_all add: wMid_def)

lemma wInv_bookkeeping [simp]:
  "wInv N e (s\<lparr>fs_deCache := x\<rparr>) file t T f cs m = wInv N e s file t T f cs m"
  "wInv N e (s\<lparr>fs_unrefCache := y\<rparr>) file t T f cs m = wInv N e s file t T f cs m"
  by (simp_all add: wInv_def fileShape_def)

lemma frame_bookkeeping [simp]:
  "frame N e K s (s'\<lparr>fs_deCache := x\<rparr>) = frame N e K s s'" "frame N e K s (s'\<lparr>fs_unrefCache := y\<rparr>) = frame N e K s s'"
  by (simp_all add: frame_def tempIDs_def)

text \<open>Replacing the top block by one with the same pointers.\<close>

lemma wMid_setTop:
  assumes w: "wMid N e s file t T f cs m i B" and g: "fb_IsInd g" "length (fb_IPtrs g) = length (fb_IPtrs f)"
    and same: "\<And>j. j < length (fb_IPtrs f) \<Longrightarrow> ipPtr (fb_IPtrs g ! j) = ipPtr (fb_IPtrs f ! j) \<and> ifp_Off (fb_IPtrs g ! j) = ifp_Off (fb_IPtrs f ! j)"
  shows "wMid N e (setFile T g s) file t T g cs m i B" and "fkeys (branchOf file) t g = fkeys (branchOf file) t f"
    and "frame N e (fkeys (branchOf file) t f) s (setFile T g s)"
proof -
  let ?br = "branchOf file"
  have d: "dirty_ok s" and hT: "held s ?br t T" and ind: "fb_IsInd f" and tk: "dirtyID t ?br \<notin> ipKey ?br ` set (fb_IPtrs f)"
    and len: "length (fb_IPtrs f) = length cs"
    using w by (simp_all add: wMid_def Let_def)
  have keys: "map (ipKey ?br) (fb_IPtrs g) = map (ipKey ?br) (fb_IPtrs f)"
    by (rule nth_equalityI) (use g same in \<open>simp_all add: ipKey_def\<close>)
  have keys': "ipKey ?br ` set (fb_IPtrs g) = ipKey ?br ` set (fb_IPtrs f)"
    using keys by (metis list.set_map)
  show fk: "fkeys ?br t g = fkeys ?br t f" using g ind keys' by (simp add: fkeys_def)
  have other: "blockView e (setFile T g s) br' q nb = blockView e s br' q nb" if "dirtyID q br' \<noteq> dirtyID t ?br" for q br' nb
    using held_not_addr[OF d hT that] by simp
  have child: "childHas e (setFile T g s) ?br (fb_IPtrs g ! j) c = childHas e s ?br (fb_IPtrs f ! j) c"
    if "j < length cs" for j c
  proof -
    have "dirtyID (ipPtr (fb_IPtrs f ! j)) ?br \<noteq> dirtyID t ?br"
      using tail_key_ne[OF tk] that len by simp
    then show ?thesis using other same[of j] that len by (simp add: childHas_def)
  qed
  have "T < length (fs_heap s)" using hT by (simp add: held_def)
  then show "wMid N e (setFile T g s) file t T g cs m i B"
    using w g same child keys keys' fk len unfolding wMid_def Let_def by auto
  show "frame N e (fkeys ?br t f) s (setFile T g s)"
    by (rule frame_one[OF other fkeys_tail]) simp_all
qed

lemma wMid_mark:
  assumes w: "wMid N e s file t T f cs m i B"
  shows "\<exists>g. wMid N e (markChild r T i s) file t T g cs m i B \<and> fkeys (branchOf file) t g = fkeys (branchOf file) t f \<and>
    fb_IsInd g \<and> ipPtr (fb_IPtrs g ! i) = ipPtr (fb_IPtrs f ! i) \<and>
    frame N e (fkeys (branchOf file) t f) s (markChild r T i s)"
proof -
  let ?ip = "fb_IPtrs f ! i"
  define g where "g = f\<lparr>fb_IPtrs := (fb_IPtrs f)[i := ?ip\<lparr>ifp_BlockInfo := (ifp_BlockInfo ?ip)\<lparr>bi_EncodedSize := 0\<rparr>\<rparr>]\<rparr>"
  have f: "fileAt s T = f" and ind: "fb_IsInd f" and i: "i < length (fb_IPtrs f)"
    using w by (simp_all add: wMid_def Let_def fileAt_def)
  have same: "ipPtr (fb_IPtrs g ! j) = ipPtr (fb_IPtrs f ! j) \<and> ifp_Off (fb_IPtrs g ! j) = ifp_Off (fb_IPtrs f ! j)"
    if "j < length (fb_IPtrs f)" for j
    using that by (cases "j = i") (simp_all add: ipPtr_def g_def)
  let ?s = "updSyncInfo r (addUnref (ifp_BlockInfo ?ip)) s"
  have "wMid N e ?s file t T f cs m i B" using w by (simp add: updSyncInfo_def)
  note st = wMid_setTop[OF this, of g] 
  have mk: "markChild r T i s = setFile T g ?s" by (simp add: markChild_def Let_def f g_def)
  have g: "fb_IsInd g" "length (fb_IPtrs g) = length (fb_IPtrs f)" using ind by (simp_all add: g_def)
  have fr: "frame N e (fkeys (branchOf file) t f) s (setFile T g ?s)"
    using st(3)[OF g same] by (simp add: updSyncInfo_def frame_def tempIDs_def)
  show ?thesis
    unfolding mk by (rule exI[of _ g]) (use st(1,2)[OF g same] g same[OF i] fr in simp)
qed

text \<open>Adding an empty block at the end.\<close>

lemma newRight_state:
  assumes d: "dirty_ok s" and hT: "held s br t T" and T: "fs_heap s ! T = FileB f" and tmp: "temp_ok N e s K"
    and tK: "dirtyID t br \<in> K" and uid: "fe_user e = Inr uid" and N: "fs_tempCount s < N"
  obtains s' i0 where "newRightBlockLocked e t br T off s = (Inr (), s')" and "BlockID_IsValid i0" and "i0 \<in> tempIDs N e s"
    and "dirtyID (newBlockPointer e i0 uid) br \<notin> K" and "dirty_ok s'" and "store_ok e s' = store_ok e s"
    and "fs_heap s' = (fs_heap s @ [emptyFile])[T := FileB (f\<lparr>fb_IPtrs := fb_IPtrs f @ [newIndirectPtr e i0 uid off]\<rparr>)]"
    and "temp_ok N e s' (insert (dirtyID (newBlockPointer e i0 uid) br) K)" and "tempIDs N e s' \<subseteq> tempIDs N e s"
    and "\<And>q br' nb. dirtyID q br' \<noteq> dirtyID t br \<Longrightarrow> dirtyID q br' \<noteq> dirtyID (newBlockPointer e i0 uid) br \<Longrightarrow>
           blockView e s' br' q nb = blockView e s br' q nb"
    and "\<And>nb. blockView e s' br (newBlockPointer e i0 uid) nb = Inr emptyFile" and "dirtyAddr s' t br = Some T"
    and "\<And>q a. held s br q a \<Longrightarrow> dirtyID q br \<in> K \<Longrightarrow> dirtyID q br \<noteq> dirtyID t br \<Longrightarrow> a \<noteq> T \<Longrightarrow> held s' br q a"
    and "fs_deCache s' = fs_deCache s" and "fs_unrefCache s' = fs_unrefCache s" and "fs_tempCount s' = Suc (fs_tempCount s)"
proof -
  from temp_ok_next[OF tmp N] obtain i0 where
    mk: "MakeTemporaryBlockID e s = (Inr i0, s\<lparr>fs_tempCount := Suc (fs_tempCount s)\<rparr>)" and v0: "BlockID_IsValid i0"
    and i0: "i0 \<in> tempIDs N e s" "i0 \<notin> dbi_id ` (K \<union> fst ` set (fs_dirty s))"
    and left: "tempIDs N e (s\<lparr>fs_tempCount := Suc (fs_tempCount s)\<rparr>) = tempIDs N e s - {i0}"
    and tmp1: "temp_ok N e (s\<lparr>fs_tempCount := Suc (fs_tempCount s)\<rparr>) K" by blast
  let ?p = "newBlockPointer e i0 uid"
  let ?k = "dirtyID ?p br" and ?R = "length (fs_heap s)"
  have k: "dbi_id ?k = i0" by (simp add: dirtyID_def newBlockPointer_def)
  have kn: "?k \<notin> K" using i0(2) imageI[of ?k K dbi_id] unfolding k by blast
  define g where "g = f\<lparr>fb_IPtrs := fb_IPtrs f @ [newIndirectPtr e i0 uid off]\<rparr>"
  define s1 where "s1 = s\<lparr>fs_tempCount := Suc (fs_tempCount s), fs_heap := fs_heap s @ [emptyFile]\<rparr>"
  define s2 where "s2 = putDirtyPtr ?p br ?R (setFile T g s1)"
  define s' where "s' = cacheBlockIfNotYetDirtyLocked t br T s2"
  have Tl: "T < ?R" using hT by (simp add: held_def)
  have run: "newRightBlockLocked e t br T off s = (Inr (), s')"
    using mk uid T Tl
    by (simp add: newRightBlockLocked_def GetCurrentUID_def newBlock_def appendIPtr_def fileAt_def nth_append
        s'_def s2_def s1_def g_def)
  have Rn: "?R \<notin> snd ` set (fs_dirty s)" using d by (auto simp: dirty_ok_def)
  have d1: "dirty_ok s1" using dirty_ok_heap[OF d, of emptyFile] by (simp add: s1_def dirty_ok_def)
  have d2: "dirty_ok s2" unfolding s2_def by (rule dirty_ok_putDirty) (use d1 Rn in \<open>simp_all add: s1_def\<close>)
  have heap2: "fs_heap s2 = (fs_heap s @ [emptyFile])[T := FileB g]" by (simp add: s2_def s1_def)
  have addr2: "dirtyAddr s2 q br' = (if dirtyID q br' = ?k then Some ?R else dirtyAddr s q br')" for q br'
    unfolding s2_def s1_def dirtyAddr_putDirty setFile_fields by (simp add: dirtyAddr_def)
  have range2: "snd ` set (fs_dirty s2) \<subseteq> insert ?R (snd ` set (fs_dirty s))"
    using snd_update[of ?k ?R "fs_dirty s"] by (simp add: s2_def s1_def putDirtyPtr_def)
  have held2: "held s2 br q a" if h: "held s br q a" and q: "dirtyID q br \<in> K" for q a
  proof -
    have al: "a < ?R" using h by (simp add: held_def)
    moreover have "dirtyID q br \<noteq> ?k" using kn q by auto
    moreover have "a \<notin> snd ` set (fs_dirty s2)" if "a \<notin> snd ` set (fs_dirty s)"
      using that al subsetD[OF range2, of a] by auto
    moreover have "fs_fileBlockStates s2 = fs_fileBlockStates s" by (simp add: s2_def s1_def)
    ultimately show ?thesis using h addr2[of q br] heap2 unfolding held_def by auto
  qed
  note hT2 = held2[OF hT tK]
  have view: "blockView e s' br' q nb = blockView e s br' q nb" if "dirtyID q br' \<noteq> dirtyID t br" "dirtyID q br' \<noteq> ?k" for q br' nb
  proof -
    have "dirtyAddr s q br' \<noteq> Some T" by (rule held_not_addr[OF d hT that(1)])
    moreover have "a < ?R" if "dirtyAddr s q br' = Some a" for a using dirtyAddr_bound[OF d that] .
    ultimately have "blockView e s2 br' q nb = blockView e s br' q nb"
      using addr2[of q br'] that(2) heap2 by (auto simp: blockView_def nth_append s2_def s1_def split: option.split)
    then show ?thesis using that(1) by (simp add: s'_def view_cacheBlock[OF hT2])
  qed
  have heap': "fs_heap s' = (fs_heap s @ [emptyFile])[T := FileB g]" by (simp add: s'_def heap2)
  have count': "fs_tempCount s' = Suc (fs_tempCount s)" by (simp add: s'_def s2_def s1_def)
  have left': "tempIDs N e s' = tempIDs N e s - {i0}" using left count' by (simp add: tempIDs_def)
  have keys2: "fst ` set (fs_dirty s2) = insert ?k (fst ` set (fs_dirty s))"
    using fst_update[of ?k ?R "fs_dirty s"] by (simp add: s2_def s1_def putDirtyPtr_def)
  have keys': "insert ?k K \<union> fst ` set (fs_dirty s') \<subseteq> insert ?k (K \<union> fst ` set (fs_dirty s))"
    unfolding s'_def by (rule insert_keys[OF cacheBlock_keys[of t br T s2, unfolded keys2] tK])
  have "tempIDs N e s \<inter> dbi_id ` (K \<union> fst ` set (fs_dirty s)) = {}" using tmp by (simp add: temp_ok_def)
  then have "(tempIDs N e s - {i0}) \<inter> dbi_id ` insert ?k (K \<union> fst ` set (fs_dirty s)) = {}"
    unfolding image_insert k by (rule disjoint_insert_sub)
  from disjoint_sub[OF this image_mono[OF keys']] have tmp': "temp_ok N e s' (insert ?k K)"
    using left by (intro temp_ok_mono[OF tmp1]) (simp_all add: count')
  have kt: "?k \<noteq> dirtyID t br" using kn tK by auto
  have new: "blockView e s' br ?p nb = Inr emptyFile" for nb
    using kt Tl heap2 unfolding s'_def by (subst view_cacheBlock[OF hT2]) (simp add: blockView_def addr2 nth_append)
  show thesis
  proof (rule that[OF run v0 i0(1) kn])
    show "dirty_ok s'" unfolding s'_def by (rule cacheBlock_dirty_ok[OF d2 hT2])
    show "store_ok e s' = store_ok e s" by (simp add: s'_def s2_def s1_def)
    show "dirtyAddr s' t br = Some T" using cacheBlock_addr[OF hT2] by (simp add: s'_def)
    show "held s' br q a" if "held s br q a" "dirtyID q br \<in> K" "dirtyID q br \<noteq> dirtyID t br" "a \<noteq> T" for q a
      unfolding s'_def by (rule cacheBlock_held_other[OF hT2 held2[OF that(1,2)] that(3,4)])
  qed (use heap' tmp' left' view new in \<open>auto simp: g_def s'_def s2_def s1_def\<close>)
qed

lemma wMid_newRight:
  assumes w: "wMid N e s file t T f cs m i B" and uid: "fe_user e = Inr uid" and N: "fs_tempCount s < N"
  obtains g s' where "newRightBlockLocked e t (branchOf file) T (int (length cs * m)) s = (Inr (), s')"
    and "wMid N e s' file t T g (cs @ [[]]) m i B" and "ipPtr (fb_IPtrs g ! i) = ipPtr (fb_IPtrs f ! i)"
    and "frame N e (fkeys (branchOf file) t f) s s'" and "fs_deCache s' = fs_deCache s" and "fs_unrefCache s' = fs_unrefCache s"
    and "fs_tempCount s' = Suc (fs_tempCount s)"
    and "\<And>k. k \<in> fkeys (branchOf file) t g \<Longrightarrow> k \<in> fkeys (branchOf file) t f \<or> dbi_id k \<in> tempIDs N e s"
proof -
  let ?br = "branchOf file"
  have d: "dirty_ok s" and hT: "held s ?br t T" and hB: "held s ?br (ipPtr (fb_IPtrs f ! i)) B" and ne: "B \<noteq> T"
    and ind: "fb_IsInd f" and tk: "dirtyID t ?br \<notin> ipKey ?br ` set (fb_IPtrs f)"
    and len: "length (fb_IPtrs f) = length cs" "i < length cs" and dist: "distinct (map (ipKey ?br) (fb_IPtrs f))"
    and tmp: "temp_ok N e s (fkeys ?br t f)" and T: "fs_heap s ! T = FileB f"
    using w by (simp_all add: wMid_def Let_def)
  obtain s' i0 where
    run: "newRightBlockLocked e t ?br T (int (length cs * m)) s = (Inr (), s')" and v0: "BlockID_IsValid i0"
    and i0: "i0 \<in> tempIDs N e s" "dirtyID (newBlockPointer e i0 uid) ?br \<notin> fkeys ?br t f"
    and ok': "dirty_ok s'" "store_ok e s' = store_ok e s"
    and heap': "fs_heap s' = (fs_heap s @ [emptyFile])[T := FileB (f\<lparr>fb_IPtrs := fb_IPtrs f @ [newIndirectPtr e i0 uid (int (length cs * m))]\<rparr>)]"
    and tmp': "temp_ok N e s' (insert (dirtyID (newBlockPointer e i0 uid) ?br) (fkeys ?br t f))" "tempIDs N e s' \<subseteq> tempIDs N e s"
    and view: "\<And>q br' nb. dirtyID q br' \<noteq> dirtyID t ?br \<Longrightarrow> dirtyID q br' \<noteq> dirtyID (newBlockPointer e i0 uid) ?br \<Longrightarrow>
           blockView e s' br' q nb = blockView e s br' q nb"
    and new: "\<And>nb. blockView e s' ?br (newBlockPointer e i0 uid) nb = Inr emptyFile" and aT: "dirtyAddr s' t ?br = Some T"
    and held': "\<And>q a. held s ?br q a \<Longrightarrow> dirtyID q ?br \<in> fkeys ?br t f \<Longrightarrow> dirtyID q ?br \<noteq> dirtyID t ?br \<Longrightarrow> a \<noteq> T \<Longrightarrow> held s' ?br q a"
    and rest: "fs_deCache s' = fs_deCache s" "fs_unrefCache s' = fs_unrefCache s" "fs_tempCount s' = Suc (fs_tempCount s)"
    by (rule newRight_state[OF d hT T tmp fkeys_tail uid N, of "int (length cs * m)"]) (rule that)
  define p where "p = newBlockPointer e i0 uid"
  define ip where "ip = newIndirectPtr e i0 uid (int (length cs * m))"
  define g where "g = f\<lparr>fb_IPtrs := fb_IPtrs f @ [ip]\<rparr>"
  have ip: "ipPtr ip = p" "ipKey ?br ip = dirtyID p ?br" "ifp_Off ip = int (length cs * m)"
    by (simp_all add: ip_def p_def ipKey_def ipPtr_def newIndirectPtr_def)
  have gs: "fb_IsInd g" "fb_IPtrs g = fb_IPtrs f @ [ip]" using ind by (simp_all add: g_def)
  have fk: "fkeys ?br t g = insert (dirtyID p ?br) (fkeys ?br t f)" using ind by (auto simp: fkeys_def gs ip)
  have pn: "dirtyID p ?br \<notin> fkeys ?br t f" using i0(2) by (simp add: p_def)
  have pv: "BlockPointer_IsValid p" using v0 by (simp add: p_def BlockPointer_IsValid_def newBlockPointer_def)
  have Tl: "T < length (fs_heap s)" "B < length (fs_heap s)" using hT hB by (simp_all add: held_def)
  have key: "dirtyID (ipPtr (fb_IPtrs f ! j)) ?br \<in> fkeys ?br t f" if "j < length cs" for j
    using ind len that by (auto simp: fkeys_def ipKey_def)
  have keyt: "dirtyID (ipPtr (fb_IPtrs f ! j)) ?br \<noteq> dirtyID t ?br" if "j < length cs" for j
    using tail_key_ne[OF tk] len that by simp
  let ?ips = "fb_IPtrs g"
  have child: "ifp_Off (?ips ! j) = int (j * m) \<and> (j \<noteq> i \<longrightarrow> childHas e s' ?br (?ips ! j) ((cs @ [[]]) ! j))"
    if "j < length (cs @ [[]])" for j
  proof (cases "j = length cs")
    case True
    then show ?thesis using new pv len ip by (simp add: gs nth_append childHas_def p_def NewFileBlock_def)
  next
    case False
    then have j: "j < length cs" using that by simp
    have "dirtyID (ipPtr (fb_IPtrs f ! j)) ?br \<noteq> dirtyID p ?br" using key[OF j] pn by auto
    then have "childHas e s' ?br (fb_IPtrs f ! j) c = childHas e s ?br (fb_IPtrs f ! j) c" for c
      using view[OF keyt[OF j]] by (intro childHas_cong) (simp add: p_def)
    then show ?thesis using w j len by (simp add: gs nth_append wMid_def Let_def)
  qed
  have hB': "held s' ?br (ipPtr (?ips ! i)) B" using held'[OF hB key keyt ne] len by (simp add: gs nth_append)
  have hT': "held s' ?br t T" using aT Tl heap' by (simp add: held_def)
  have heapg: "fs_heap s' = (fs_heap s @ [emptyFile])[T := FileB g]" unfolding heap' g_def ip_def ..
  have pt: "dirtyID t ?br \<noteq> dirtyID p ?br" using pn fkeys_tail[of t ?br f] by auto
  have wm: "wMid N e s' file t T g (cs @ [[]]) m i B"
    using w child hB' hT' ok' Tl ne len dist pn pt tk tmp'(1) unfolding wMid_def Let_def fk heapg
    by (simp add: gs nth_append fkeys_def ip p_def[symmetric])
  have fr: "frame N e (fkeys ?br t f) s s'"
  proof (rule frameI[OF _ tmp'(2)])
    fix q br' nb assume q: "dirtyID q br' \<notin> fkeys ?br t f" "bp_ID q \<notin> tempIDs N e s"
    have "dirtyID q br' \<noteq> dirtyID (newBlockPointer e i0 uid) ?br"
      using q(2) i0(1) by (auto simp: dirtyID_def newBlockPointer_def)
    moreover have "dirtyID q br' \<noteq> dirtyID t ?br" using q(1) fkeys_tail[of t ?br f] by auto
    ultimately show "blockView e s' br' q nb = blockView e s br' q nb" by (intro view)
  qed
  have "dbi_id (dirtyID p ?br) = i0" by (simp add: p_def dirtyID_def newBlockPointer_def)
  then have "k \<in> fkeys ?br t f \<or> dbi_id k \<in> tempIDs N e s" if "k \<in> fkeys ?br t g" for k
    using that i0(1) unfolding fk by auto
  moreover have "ipPtr (?ips ! i) = ipPtr (fb_IPtrs f ! i)" using len by (simp add: gs nth_append)
  ultimately show thesis using that[OF run wm _ fr rest] by blast
qed

text \<open>A file of one block, in the middle of a round.\<close>

definition wOne :: "nat \<Rightarrow> fboEnv \<Rightarrow> fboState \<Rightarrow> path \<Rightarrow> BlockPointer \<Rightarrow> nat \<Rightarrow> FileBlock \<Rightarrow> bool" where
  "wOne N e s file t T f \<longleftrightarrow>
     env_ok e file \<and> store_ok e s \<and> dirty_ok s \<and> tailPointer file = Some t \<and> held s (branchOf file) t T \<and>
     fs_heap s ! T = FileB f \<and> \<not> fb_IsInd f \<and> temp_ok N e s (fkeys (branchOf file) t f)"

lemma wOne_wInv: "wInv N e s file t T f cs m \<Longrightarrow> \<not> fb_IsInd f \<Longrightarrow> wOne N e s file t T f \<and> cs = [fb_Contents f]"
  by (simp add: wOne_def wInv_def fileShape_def)

lemma wOne_setFile:
  assumes w: "wOne N e s file t T f" and g: "\<not> fb_IsInd g"
  shows "wOne N e (setFile T g s) file t T g" and "frame N e (fkeys (branchOf file) t f) s (setFile T g s)"
proof -
  have d: "dirty_ok s" and h: "held s (branchOf file) t T" using w by (simp_all add: wOne_def)
  have "T < length (fs_heap s)" using h by (simp add: held_def)
  moreover have "fkeys (branchOf file) t g = fkeys (branchOf file) t f" using w g by (simp add: wOne_def fkeys_def)
  ultimately show "wOne N e (setFile T g s) file t T g" using w g by (simp add: wOne_def)
  have "blockView e (setFile T g s) br' q nb = blockView e s br' q nb" if "dirtyID q br' \<noteq> dirtyID t (branchOf file)" for q br' nb
    using held_not_addr[OF d h that] by simp
  from frame_one[OF this fkeys_tail] show "frame N e (fkeys (branchOf file) t f) s (setFile T g s)" by simp
qed

lemma wOne_bookkeeping [simp]: "wOne N e (s\<lparr>fs_deCache := x\<rparr>) file t T f = wOne N e s file t T f"
  by (simp add: wOne_def)

lemma wOne_cache:
  assumes w: "wOne N e s file t T f" and ok: "chunks_ok m [fb_Contents f]"
  defines "s' \<equiv> cacheBlockIfNotYetDirtyLocked t (branchOf file) T s"
  shows "wInv N e s' file t T f [fb_Contents f] m" and "frame N e (fkeys (branchOf file) t f) s s'"
    and "dirtyAddr s' t (branchOf file) = Some T"
proof -
  let ?br = "branchOf file"
  have d: "dirty_ok s" and h: "held s ?br t T" and tmp: "temp_ok N e s (fkeys ?br t f)" using w by (simp_all add: wOne_def)
  have "temp_ok N e s' (fkeys ?br t f)" unfolding s'_def by (rule cacheBlock_temp_ok[OF tmp fkeys_tail])
  then show "wInv N e s' file t T f [fb_Contents f] m"
    using w ok cacheBlock_dirty_ok[OF d h] cacheBlock_held_same[OF h] by (simp add: wInv_def wOne_def fileShape_def s'_def)
  have "blockView e s' br' q nb = blockView e s br' q nb" if "dirtyID q br' \<noteq> dirtyID t ?br" for q br' nb
    using that by (simp add: s'_def view_cacheBlock[OF h])
  from frame_one[OF this fkeys_tail] show "frame N e (fkeys ?br t f) s s'" by (simp add: s'_def)
  show "dirtyAddr s' t ?br = Some T" using cacheBlock_addr[OF h] by (simp add: s'_def)
qed

lemma snd_update_other:
  "distinct (map snd al) \<Longrightarrow> map_of al k = Some a \<Longrightarrow> v \<noteq> a \<Longrightarrow> a \<notin> snd ` set (AList.update k v al)"
proof (induction al)
  case (Cons p al)
  then show ?case using map_of_SomeD[of al k a] by (cases p) (auto simp: image_iff split: if_splits)
qed simp

lemma wOne_parent:
  assumes w: "wOne N e s file t T f" and uid: "fe_user e = Inr uid" and N: "fs_tempCount s < N"
  obtains s' P g where "makeParentBlock e file t uid s = (Inr (P, ipPtr (fb_IPtrs g ! 0)), s')"
    and "wMid N e s' file t P g [fb_Contents f] m 0 T" and "frame N e (fkeys (branchOf file) t f) s s'"
    and "fs_deCache s' = fs_deCache s" and "fs_unrefCache s' = fs_unrefCache s" and "fs_tempCount s' = Suc (fs_tempCount s)"
    and "\<And>k. k \<in> fkeys (branchOf file) t g \<Longrightarrow> k \<in> fkeys (branchOf file) t f \<or> dbi_id k \<in> tempIDs N e s"
proof -
  let ?br = "branchOf file"
  have d: "dirty_ok s" and h: "held s ?br t T" and tmp: "temp_ok N e s (fkeys ?br t f)" and T: "fs_heap s ! T = FileB f" "\<not> fb_IsInd f"
    using w by (simp_all add: wOne_def)
  from temp_ok_next[OF tmp N] obtain i0 where
    mk: "MakeTemporaryBlockID e s = (Inr i0, s\<lparr>fs_tempCount := Suc (fs_tempCount s)\<rparr>)" and v0: "BlockID_IsValid i0"
    and i0: "i0 \<in> tempIDs N e s" "i0 \<notin> dbi_id ` (fkeys ?br t f \<union> fst ` set (fs_dirty s))"
    and left: "tempIDs N e (s\<lparr>fs_tempCount := Suc (fs_tempCount s)\<rparr>) = tempIDs N e s - {i0}"
    and tmp1: "temp_ok N e (s\<lparr>fs_tempCount := Suc (fs_tempCount s)\<rparr>) (fkeys ?br t f)" by blast
  define P where "P = length (fs_heap s)"
  define p where "p = newBlockPointer e i0 uid"
  define g where "g = NewFileBlock\<lparr>fb_IsInd := True, fb_IPtrs := [newIndirectPtr e i0 uid 0]\<rparr>"
  define s1 where "s1 = s\<lparr>fs_tempCount := Suc (fs_tempCount s), fs_heap := fs_heap s @ [FileB g]\<rparr>"
  define s' where "s' = putDirtyPtr t ?br P s1"
  have run: "makeParentBlock e file t uid s = (Inr (P, p), s')"
    using mk by (simp add: makeParentBlock_def newBlock_def s'_def s1_def g_def P_def p_def)
  have k: "dbi_id (dirtyID p ?br) = i0" by (simp add: p_def dirtyID_def newBlockPointer_def)
  have kn: "dirtyID p ?br \<notin> fkeys ?br t f \<union> fst ` set (fs_dirty s)"
    using i0(2) imageI[of "dirtyID p ?br" "fkeys ?br t f \<union> fst ` set (fs_dirty s)" dbi_id] unfolding k by blast
  have pt: "dirtyID p ?br \<noteq> dirtyID t ?br" using kn fkeys_tail[of t ?br f] by auto
  have gs: "fb_IsInd g" "map (ipKey ?br) (fb_IPtrs g) = [dirtyID p ?br]" "ipPtr (fb_IPtrs g ! 0) = p" "length (fb_IPtrs g) = 1"
      "ifp_Off (fb_IPtrs g ! 0) = 0"
    by (simp_all add: g_def p_def ipKey_def ipPtr_def newIndirectPtr_def)
  have gk: "ipKey ?br ` set (fb_IPtrs g) = {dirtyID p ?br}" using gs(2) by (metis list.set_map list.simps(15) empty_set)
  have fk: "fkeys ?br t g = insert (dirtyID p ?br) (fkeys ?br t f)" using T(2) gk by (auto simp: fkeys_def gs(1))
  have Tl: "T < length (fs_heap s)" using h by (simp add: held_def)
  have Pn: "P \<notin> snd ` set (fs_dirty s)" using d by (auto simp: dirty_ok_def P_def)
  have d1: "dirty_ok s1" using dirty_ok_heap[OF d, of "FileB g"] by (simp add: s1_def dirty_ok_def)
  have d': "dirty_ok s'" unfolding s'_def by (rule dirty_ok_putDirty) (use d1 Pn in \<open>simp_all add: s1_def P_def\<close>)
  have dl: "fs_dirty s' = AList.update (dirtyID t ?br) P (fs_dirty s)" by (simp add: s'_def s1_def putDirtyPtr_def)
  have heap': "fs_heap s' = fs_heap s @ [FileB g]" and count': "fs_tempCount s' = Suc (fs_tempCount s)"
    and cache': "fs_cache s' = fs_cache s"
    by (simp_all add: s'_def s1_def)
  have addr': "dirtyAddr s' q br' = (if dirtyID q br' = dirtyID t ?br then Some P else dirtyAddr s q br')" for q br'
    unfolding s'_def s1_def dirtyAddr_putDirty by (simp add: dirtyAddr_def)
  have "T \<notin> snd ` set (fs_dirty s')"
  proof (cases "dirtyAddr s t ?br = Some T")
    case True
    then show ?thesis
      unfolding dl using d Tl by (intro snd_update_other) (simp_all add: dirty_ok_def dirtyAddr_def P_def)
  next
    case False
    then show ?thesis
      using held_unused[OF d h] Tl subsetD[OF snd_update, of T "dirtyID t ?br" P "fs_dirty s"] by (auto simp: dl P_def)
  qed
  moreover have "dirtyAddr s p ?br = None" using kn by (simp add: dirtyAddr_def map_of_eq_None_iff)
  then have "dirtyAddr s' p ?br = None" using pt by (simp add: addr')
  ultimately have hT: "held s' ?br p T" using Tl by (simp add: held_def heap')
  have tmp': "temp_ok N e s' (fkeys ?br t g)"
  proof (rule temp_ok_mono[OF tmp1])
    have keys': "fkeys ?br t g \<union> fst ` set (fs_dirty s') \<subseteq> insert (dirtyID p ?br) (fkeys ?br t f \<union> fst ` set (fs_dirty s))"
      using fkeys_tail[of t ?br f] unfolding fk dl fst_update by auto
    have "tempIDs N e s \<inter> dbi_id ` (fkeys ?br t f \<union> fst ` set (fs_dirty s)) = {}" using tmp by (simp add: temp_ok_def)
    then have "(tempIDs N e s - {i0}) \<inter> dbi_id ` insert (dirtyID p ?br) (fkeys ?br t f \<union> fst ` set (fs_dirty s)) = {}"
      unfolding image_insert k by (rule disjoint_insert_sub)
    from disjoint_sub[OF this image_mono[OF keys']]
    show "dbi_id ` (fkeys ?br t g \<union> fst ` set (fs_dirty s')) \<inter> tempIDs N e (s\<lparr>fs_tempCount := Suc (fs_tempCount s)\<rparr>) = {}"
      unfolding left .
  qed (simp add: count')
  have hP: "held s' ?br t P" by (simp add: held_def addr' heap' P_def)
  have pv: "BlockPointer_IsValid p" using v0 by (simp add: p_def BlockPointer_IsValid_def newBlockPointer_def)
  have st: "store_ok e s'" using w by (simp add: wOne_def s'_def s1_def)
  have wm: "wMid N e s' file t P g [fb_Contents f] m 0 T"
    using w T d' st hP hT pv pt tmp' Tl gs gk unfolding wMid_def Let_def wOne_def
    by (simp add: heap' nth_append P_def)
  have fr: "frame N e (fkeys ?br t f) s s'"
  proof (rule frameI)
    fix q br' nb assume "dirtyID q br' \<notin> fkeys ?br t f"
    then have "dirtyID q br' \<noteq> dirtyID t ?br" using fkeys_tail[of t ?br f] by auto
    then show "blockView e s' br' q nb = blockView e s br' q nb"
      using dirtyAddr_bound[OF d, of q br'] cache'
      by (auto simp: blockView_def addr' heap' nth_append split: option.split)
  next
    show "tempIDs N e s' \<subseteq> tempIDs N e s"
      using left tempIDs_count[of s' "s\<lparr>fs_tempCount := Suc (fs_tempCount s)\<rparr>" N e] count' by auto
  qed
  have "k \<in> fkeys ?br t f \<or> dbi_id k \<in> tempIDs N e s" if "k \<in> fkeys ?br t g" for k
    using that i0(1) k unfolding fk by auto
  moreover have "fs_deCache s' = fs_deCache s" "fs_unrefCache s' = fs_unrefCache s" by (simp_all add: s'_def s1_def)
  ultimately show thesis using that[OF run[folded gs(3)] wm fr] count' by blast
qed

section \<open>One round\<close>

text \<open>Changes of the bookkeeping that keep the recorded operations.\<close>

definition sameOps :: "fboState \<Rightarrow> fboState \<Rightarrow> bool" where
  "sameOps s s' \<longleftrightarrow> (\<forall>ref. map_option si_op (fs_unrefCache s' ref) = map_option si_op (fs_unrefCache s ref))"

lemma sameOps_eq: "fs_unrefCache s' = fs_unrefCache s \<Longrightarrow> sameOps s s'"
  by (simp add: sameOps_def)

lemma sameOps_trans: "sameOps s s' \<Longrightarrow> sameOps s' s'' \<Longrightarrow> sameOps s s''"
  by (simp add: sameOps_def)

lemma sameOps_mark: "sameOps s (markChild r p i s)"
  by (simp add: sameOps_def markChild_def updSyncInfo_def addUnref_def Let_def option.map_comp comp_def)

lemma markChild_fields [simp]:
  "fs_deCache (markChild r p i s) = fs_deCache s" "fs_tempCount (markChild r p i s) = fs_tempCount s"
  by (simp_all add: markChild_def updSyncInfo_def Let_def)

lemma endRound_count [simp]: "fs_tempCount (endRound file t ref r ol nl de ptr s) = fs_tempCount s"
  by (simp add: endRound_def cacheEntry_def split: option.split)

definition entryStep :: "BlockPointer \<Rightarrow> nat \<Rightarrow> nat \<Rightarrow> DirEntry \<Rightarrow> fboState \<Rightarrow> (blockRef \<times> DirEntry) list" where
  "entryStep t oldLen newLen de s = (if oldLen \<noteq> newLen then AList.update (BlockPointer_ref t) de (fs_deCache s) else fs_deCache s)"

lemma entryStep_cacheEntry:
  "(if ol \<noteq> nl then cacheEntry (BlockPointer_ref t) de else id) s = s\<lparr>fs_deCache := entryStep t ol nl de s\<rparr>"
  by (simp add: entryStep_def cacheEntry_def)

lemma wMid_end:
  assumes w: "wMid N e s file t T f cs m i B" and ok: "chunks_ok m cs" and r: "bo_block r = B" "bo_parentBlock r = Some T \<and> bo_indexInParent r = i \<or> bo_parentBlock r = None"
    and p: "ipPtr (fb_IPtrs f ! i) = ptr"
    and s'_def: "s' = endRound file t siRef r ol nl de ptr s"
  shows "\<exists>g. wInv N e s' file t T g cs m \<and> fb_IsInd g \<and> fkeys (branchOf file) t g = fkeys (branchOf file) t f"
    and "frame N e (fkeys (branchOf file) t f) s s'" and "sameOps s s'" and "fs_deCache s' = entryStep t ol nl de s"
proof -
  let ?K = "fkeys (branchOf file) t f"
  define s1 where "s1 = s\<lparr>fs_deCache := entryStep t ol nl de s\<rparr>"
  define s2 where "s2 = (case bo_parentBlock r of None \<Rightarrow> id | Some p \<Rightarrow> markChild siRef p (bo_indexInParent r)) s1"
  have w1: "wMid N e s1 file t T f cs m i B" using w by (simp add: s1_def)
  have s2: "s2 = markChild siRef T i s1 \<or> s2 = s1" using r(2) by (auto simp: s2_def)
  obtain g where g: "wMid N e s2 file t T g cs m i B" "fkeys (branchOf file) t g = ?K" "fb_IsInd g"
      "ipPtr (fb_IPtrs g ! i) = ptr" and fr: "frame N e ?K s1 s2"
  proof (cases "s2 = s1")
    case True
    moreover have "fb_IsInd f" using w by (simp add: wMid_def Let_def)
    ultimately show thesis using that[of f] w1 p by simp
  next
    case False
    then have "s2 = markChild siRef T i s1" using s2 by blast
    then show thesis using wMid_mark[OF w1, of siRef] that p by auto
  qed
  have s': "s' = cacheBlockIfNotYetDirtyLocked ptr (branchOf file) B s2"
    by (simp add: s'_def endRound_def entryStep_cacheEntry s2_def s1_def r(1))
  note c = wMid_cache[OF g(1) ok, unfolded g(2,4), folded s']
  show "\<exists>g. wInv N e s' file t T g cs m \<and> fb_IsInd g \<and> fkeys (branchOf file) t g = ?K" using c(1) g(2,3) by blast
  have "frame N e ?K s s1" by (simp add: s1_def)
  from frame_trans[OF frame_trans[OF this fr] c(2)] show "frame N e ?K s s'" by simp
  have "sameOps s1 s2" using s2 sameOps_mark sameOps_eq by (auto simp: s1_def)
  moreover have "sameOps s s1" "sameOps s2 s'" by (rule sameOps_eq, simp add: s1_def s')+
  ultimately show "sameOps s s'" using sameOps_trans by blast
  have "fs_deCache s2 = fs_deCache s1" using s2 by auto
  then show "fs_deCache s' = entryStep t ol nl de s" by (simp add: s' s1_def)
qed

lemma wOne_end:
  assumes w: "wOne N e s file t T f" and ok: "chunks_ok m [fb_Contents f]" and r: "bo_block r = T" "bo_parentBlock r = None"
    and s'_def: "s' = endRound file t siRef r ol nl de t s"
  shows "wInv N e s' file t T f [fb_Contents f] m" and "frame N e (fkeys (branchOf file) t f) s s'" and "sameOps s s'"
    and "fs_deCache s' = entryStep t ol nl de s" and "dirtyAddr s' t (branchOf file) = Some T"
proof -
  let ?K = "fkeys (branchOf file) t f"
  define s1 where "s1 = s\<lparr>fs_deCache := entryStep t ol nl de s\<rparr>"
  have w1: "wOne N e s1 file t T f" using w by (simp add: s1_def)
  have s': "s' = cacheBlockIfNotYetDirtyLocked t (branchOf file) T s1"
    by (simp add: s'_def endRound_def entryStep_cacheEntry s1_def r)
  note c = wOne_cache[OF w1 ok, folded s']
  show "wInv N e s' file t T f [fb_Contents f] m" "dirtyAddr s' t (branchOf file) = Some T" by (rule c)+
  have "frame N e ?K s s1" by (simp add: s1_def)
  from frame_trans[OF this c(2)] show "frame N e ?K s s'" by simp
  show "sameOps s s'" by (rule sameOps_eq) (simp add: s' s1_def)
  show "fs_deCache s' = entryStep t ol nl de s" by (simp add: s' s1_def)
qed

definition roundTo ::
  "nat \<Rightarrow> fboEnv \<Rightarrow> fboState \<Rightarrow> path \<Rightarrow> BlockPointer \<Rightarrow> FileBlock \<Rightarrow> nat \<Rightarrow> nat \<Rightarrow> byte list list \<Rightarrow> fboState \<Rightarrow> bool" where
  "roundTo N e s file t f m T' cs' s' \<longleftrightarrow>
     (\<exists>f'. wInv N e s' file t T' f' cs' m \<and>
        (\<forall>k. k \<in> fkeys (branchOf file) t f' \<longrightarrow> k \<in> fkeys (branchOf file) t f \<or> dbi_id k \<in> tempIDs N e s) \<and>
        (fb_IsInd f' \<or> dirtyAddr s' t (branchOf file) = Some T')) \<and>
     frame N e (fkeys (branchOf file) t f) s s' \<and> sameOps s s'"

lemma roundTo_trans:
  assumes fr: "frame N e (fkeys (branchOf file) t f) s s1" "sameOps s s1"
    and k: "\<And>k. k \<in> fkeys (branchOf file) t f1 \<Longrightarrow> k \<in> fkeys (branchOf file) t f \<or> dbi_id k \<in> tempIDs N e s"
    and r: "roundTo N e s1 file t f1 m T' cs' s'"
  shows "roundTo N e s file t f m T' cs' s'"
proof -
  have sub: "tempIDs N e s1 \<subseteq> tempIDs N e s" using fr(1) by (simp add: frame_def)
  from r obtain f' where f': "wInv N e s' file t T' f' cs' m" "fb_IsInd f' \<or> dirtyAddr s' t (branchOf file) = Some T'"
      "\<And>k. k \<in> fkeys (branchOf file) t f' \<Longrightarrow> k \<in> fkeys (branchOf file) t f1 \<or> dbi_id k \<in> tempIDs N e s1"
      and fr': "frame N e (fkeys (branchOf file) t f1) s1 s'" "sameOps s1 s'"
    by (auto simp: roundTo_def)
  have "k' \<in> fkeys (branchOf file) t f \<or> dbi_id k' \<in> tempIDs N e s" if "k' \<in> fkeys (branchOf file) t f'" for k'
    using f'(3)[OF that] k subsetD[OF sub] by blast
  moreover have "frame N e (fkeys (branchOf file) t f) s s'" by (rule frame_trans[OF fr(1) fr'(1) k])
  ultimately show ?thesis using f' sameOps_trans[OF fr(2) fr'(2)] unfolding roundTo_def by blast
qed

lemma wMid_endRound:
  assumes w: "wMid N e s file t T f cs m i B" and ok: "chunks_ok m cs"
    and r: "bo_block r = B" "bo_parentBlock r = Some T \<and> bo_indexInParent r = i \<or> bo_parentBlock r = None"
  shows "roundTo N e s file t f m T cs (endRound file t siRef r ol nl de (ipPtr (fb_IPtrs f ! i)) s)"
    and "fs_deCache (endRound file t siRef r ol nl de (ipPtr (fb_IPtrs f ! i)) s) = entryStep t ol nl de s"
  using wMid_end[OF w ok r refl refl, of siRef ol nl de] unfolding roundTo_def by blast+

lemma grow_indirect:
  assumes w: "wMid N e s file t T f cs m i B" and i: "Suc i = length cs" and ok: "chunks_ok m (cs @ [[]])"
    and r: "bo_block r = B" "bo_parentBlock r = Some T" "bo_indexInParent r = i" "bo_ptr r = ipPtr (fb_IPtrs f ! i)"
      "bo_startOff r = int (i * m)"
    and uid: "fe_user e = Inr uid" and fits: "in64 (int (length cs * m))" and N: "fs_tempCount s < N"
  shows "\<exists>s1. growRight e file t uid T r m s = (Inr (T, bo_ptr r), s1) \<and>
    roundTo N e s file t f m T (cs @ [[]]) (endRound file t siRef r ol nl de (bo_ptr r) s1) \<and>
    fs_deCache (endRound file t siRef r ol nl de (bo_ptr r) s1) = entryStep t ol nl de s \<and>
    fs_tempCount s1 = Suc (fs_tempCount s)"
proof -
  obtain g s1 where run: "newRightBlockLocked e t (branchOf file) T (int (length cs * m)) s = (Inr (), s1)"
    and w1: "wMid N e s1 file t T g (cs @ [[]]) m i B" and p: "ipPtr (fb_IPtrs g ! i) = ipPtr (fb_IPtrs f ! i)"
    and fr: "frame N e (fkeys (branchOf file) t f) s s1" and same: "fs_deCache s1 = fs_deCache s" "fs_unrefCache s1 = fs_unrefCache s"
    and count: "fs_tempCount s1 = Suc (fs_tempCount s)"
    and k: "\<And>k. k \<in> fkeys (branchOf file) t g \<Longrightarrow> k \<in> fkeys (branchOf file) t f \<or> dbi_id k \<in> tempIDs N e s"
    by (rule wMid_newRight[OF w uid N]) (rule that)
  have sum: "length cs * m = i * m + m" unfolding i[symmetric] by simp
  have off: "wrap64 (bo_startOff r + int m) = int (length cs * m)"
    unfolding r(5) sum using wrap64_nat_sum[OF fits, of "i * m" m] sum by simp
  have "dirtyID (ipPtr (fb_IPtrs f ! i)) (branchOf file) \<noteq> dirtyID t (branchOf file)"
    using w i by (intro tail_key_ne) (auto simp: wMid_def Let_def)
  then have "bo_ptr r \<noteq> t" using r(4) by auto
  then have "growRight e file t uid T r m s = (Inr (T, bo_ptr r), s1)"
    using run off by (simp add: growRight_def)
  moreover note e = wMid_endRound[OF w1 ok r(1), of siRef ol nl de]
  have "roundTo N e s file t f m T (cs @ [[]]) (endRound file t siRef r ol nl de (bo_ptr r) s1)"
    using roundTo_trans[OF fr sameOps_eq[OF same(2)] k e(1)] r p by simp
  moreover have "fs_deCache (endRound file t siRef r ol nl de (bo_ptr r) s1) = entryStep t ol nl de s"
    using e(2) r p same(1) by (simp add: entryStep_def)
  ultimately show ?thesis using count by blast
qed

lemma grow_direct:
  assumes w: "wOne N e s file t T f" and ok: "chunks_ok m ([fb_Contents f] @ [[]])" and len: "length (fb_Contents f) = m"
    and r: "bo_block r = T" "bo_parentBlock r = None" "bo_ptr r = t" "bo_startOff r = 0"
    and uid: "fe_user e = Inr uid" and fits: "in64 (int m)" and N: "fs_tempCount s + 2 \<le> N"
  shows "\<exists>P ptr s1. growRight e file t uid T r m s = (Inr (P, ptr), s1) \<and>
    roundTo N e s file t f m P ([fb_Contents f] @ [[]]) (endRound file t siRef r ol nl de ptr s1) \<and>
    fs_deCache (endRound file t siRef r ol nl de ptr s1) = entryStep t ol nl de s \<and>
    fs_tempCount s1 = fs_tempCount s + 2"
proof -
  have N0: "fs_tempCount s < N" using N by simp
  obtain s0 P g0 where run0: "makeParentBlock e file t uid s = (Inr (P, ipPtr (fb_IPtrs g0 ! 0)), s0)"
    and w0: "wMid N e s0 file t P g0 [fb_Contents f] m 0 T" and fr0: "frame N e (fkeys (branchOf file) t f) s s0"
    and same0: "fs_deCache s0 = fs_deCache s" "fs_unrefCache s0 = fs_unrefCache s"
    and count0: "fs_tempCount s0 = Suc (fs_tempCount s)"
    and k0: "\<And>k. k \<in> fkeys (branchOf file) t g0 \<Longrightarrow> k \<in> fkeys (branchOf file) t f \<or> dbi_id k \<in> tempIDs N e s"
    by (rule wOne_parent[OF w uid N0, of m]) (rule that)
  have N1: "fs_tempCount s0 < N" using N count0 by simp
  obtain g s1 where run: "newRightBlockLocked e t (branchOf file) P (int (length [fb_Contents f] * m)) s0 = (Inr (), s1)"
    and w1: "wMid N e s1 file t P g ([fb_Contents f] @ [[]]) m 0 T" and p: "ipPtr (fb_IPtrs g ! 0) = ipPtr (fb_IPtrs g0 ! 0)"
    and fr: "frame N e (fkeys (branchOf file) t g0) s0 s1" and same: "fs_deCache s1 = fs_deCache s0" "fs_unrefCache s1 = fs_unrefCache s0"
    and count: "fs_tempCount s1 = Suc (fs_tempCount s0)"
    and k: "\<And>k. k \<in> fkeys (branchOf file) t g \<Longrightarrow> k \<in> fkeys (branchOf file) t g0 \<or> dbi_id k \<in> tempIDs N e s0"
    by (rule wMid_newRight[OF w0 uid N1]) (rule that)
  have "growRight e file t uid T r m s = (Inr (P, ipPtr (fb_IPtrs g ! 0)), s1)"
    using run0 run r fits by (simp add: growRight_def p)
  moreover note e = wMid_endRound[OF w1 ok r(1), of siRef ol nl de]
  have "roundTo N e s0 file t g0 m P ([fb_Contents f] @ [[]]) (endRound file t siRef r ol nl de (ipPtr (fb_IPtrs g ! 0)) s1)"
    using roundTo_trans[OF fr sameOps_eq[OF same(2)] k e(1)] r(2) by simp
  from roundTo_trans[OF fr0 sameOps_eq[OF same0(2)] k0 this]
  have "roundTo N e s file t f m P ([fb_Contents f] @ [[]]) (endRound file t siRef r ol nl de (ipPtr (fb_IPtrs g ! 0)) s1)" .
  moreover have "fs_deCache (endRound file t siRef r ol nl de (ipPtr (fb_IPtrs g ! 0)) s1) = entryStep t ol nl de s"
    using e(2) r(2) same(1) same0(1) by (simp add: entryStep_def)
  moreover have "fs_tempCount s1 = fs_tempCount s + 2" using count count0 by simp
  ultimately show ?thesis by blast
qed

text \<open>The entry after a round.\<close>

definition roundEntry :: "DirEntry \<Rightarrow> nat \<Rightarrow> nat \<Rightarrow> DirEntry" where
  "roundEntry de ol nl = (if ol \<noteq> nl then grownEntry de (int nl - int ol) else de)"

lemma in64_le: "a \<le> b \<Longrightarrow> in64 (int b) \<Longrightarrow> in64 (int a)"
  by (simp add: in64_def)

lemma writeRound_run:
  assumes get: "getFileBlockAtOffsetLocked e file T (wrap64 (off + nc)) blockWrite s = (Inr r, s1)"
    and b: "fileAt s1 (bo_block r) = b"
    and cp: "CopyUntilSplit (fe_splitter e) b (\<not> bo_more r) (drop (nat nc) d) (wrap64 (wrap64 (off + nc) - bo_startOff r)) =
        Some (b\<lparr>fb_Contents := c'\<rparr>, k)"
    and ok: "bo_more r \<longrightarrow> length c' \<le> length (fb_Contents b)"
    and grow: "(if wrap64 (nc + k) < int (length d) \<and> \<not> bo_more r then growRight e file t uid T r (length c') else retA (T, bo_ptr r))
        (setFile (bo_block r) (b\<lparr>fb_Contents := c'\<rparr>) s1) = (Inr (T', ptr), s2)"
  shows "writeRound e file t uid siRef d off T de nc s =
    (Inr (T', roundEntry de (length (fb_Contents b)) (length c'), wrap64 (nc + k), ptr),
     endRound file t siRef r (length (fb_Contents b)) (length c') (roundEntry de (length (fb_Contents b)) (length c')) ptr s2)"
proof -
  have g: "(if bo_more r \<and> length (fb_Contents b) < length c' then x else y) = y" for x y :: "(nat \<times> DirEntry \<times> int \<times> BlockPointer) fbo"
    using ok by auto
  show ?thesis
    unfolding writeRound_def using get b cp grow
    by (simp add: Let_def roundEntry_def bindA_def g split del: if_split cong: if_cong)
qed

text \<open>What \<open>growRight\<close> and \<open>endRound\<close> do in a round, after the bytes have been copied.\<close>

definition roundGoal ::
  "nat \<Rightarrow> fboEnv \<Rightarrow> path \<Rightarrow> BlockPointer \<Rightarrow> UID \<Rightarrow> blockRef \<Rightarrow> nat \<Rightarrow> FileBlock \<Rightarrow> nat \<Rightarrow> blockAtOffset \<Rightarrow> bool \<Rightarrow> nat \<Rightarrow> nat \<Rightarrow> DirEntry \<Rightarrow>
   byte list list \<Rightarrow> fboState \<Rightarrow> bool" where
  "roundGoal N e file t uid siRef T f m r grows ol nl de cs' s \<longleftrightarrow>
     (\<exists>T' ptr s2. (if grows then growRight e file t uid T r nl else retA (T, bo_ptr r)) s = (Inr (T', ptr), s2) \<and>
        roundTo N e s file t f m T' cs' (endRound file t siRef r ol nl de ptr s2) \<and>
        fs_deCache (endRound file t siRef r ol nl de ptr s2) = entryStep t ol nl de s \<and> fs_tempCount s2 \<le> fs_tempCount s + 2)"

lemma roundGoal_direct:
  assumes w: "wOne N e s file t T f" and uid: "fe_user e = Inr uid" and fits: "in64 (int m)" and N: "fs_tempCount s + 2 \<le> N"
    and r: "bo_block r = T" "bo_parentBlock r = None" "bo_ptr r = t" "bo_startOff r = 0"
    and ok: "chunks_ok m (if grows then [fb_Contents f] @ [[]] else [fb_Contents f])" and full: "grows \<longrightarrow> length (fb_Contents f) = m"
  shows "roundGoal N e file t uid siRef T f m r grows ol (length (fb_Contents f)) de
    (if grows then [fb_Contents f] @ [[]] else [fb_Contents f]) s"
proof (cases grows)
  case True
  then show ?thesis
    using grow_direct[OF w _ _ r uid fits N, of siRef ol m de] ok full by (auto simp: roundGoal_def)
next
  case False
  with ok have "chunks_ok m [fb_Contents f]" by simp
  note end' = wOne_end[OF w this r(1,2) refl, of siRef ol "length (fb_Contents f)" de]
  show ?thesis using False end' r(3) by (auto simp: roundGoal_def roundTo_def)
qed

lemma roundGoal_indirect:
  assumes w: "wMid N e s file t T f cs m i B" and uid: "fe_user e = Inr uid" and N: "fs_tempCount s < N"
    and r: "bo_block r = B" "bo_parentBlock r = Some T" "bo_indexInParent r = i" "bo_ptr r = ipPtr (fb_IPtrs f ! i)"
      "bo_startOff r = int (i * m)"
    and ok: "chunks_ok m (if grows then cs @ [[]] else cs)" and grows: "grows \<longrightarrow> Suc i = length cs \<and> nl = m \<and> in64 (int (length cs * m))"
  shows "roundGoal N e file t uid siRef T f m r grows ol nl de (if grows then cs @ [[]] else cs) s"
proof (cases grows)
  case True
  then show ?thesis
    using grow_indirect[OF w _ _ r uid _ N, of siRef ol m de] ok grows by (auto simp: roundGoal_def)
next
  case False
  with ok have "chunks_ok m cs" by simp
  note end' = wMid_endRound[OF w this r(1), of siRef ol nl de]
  show ?thesis using False end' r by (simp add: roundGoal_def)
qed

lemma located_ne:
  assumes w: "wInv N e s file t T f cs m" and loc: "locates s (branchOf file) t T f cs m i r b" and i: "i < length cs" and T: "T < n"
    and ind: "fb_IsInd f" and B: "held s (branchOf file) (bo_ptr r) (bo_block r) \<and>
       (dirtyAddr s (bo_ptr r) (branchOf file) = Some (bo_block r) \<or> n \<le> bo_block r)"
  shows "bo_block r \<noteq> T"
proof -
  have "dirtyID (bo_ptr r) (branchOf file) \<noteq> dirtyID t (branchOf file)"
    using w loc ind i tail_key_ne[of t "branchOf file" "fb_IPtrs f" i] by (simp add: wInv_def fileShape_def locates_def)
  then show ?thesis
    using w B T held_ne[of s "branchOf file" "bo_ptr r" "bo_block r" t T] by (auto simp: wInv_def)
qed

lemma writeRound_step:
  assumes w: "wInv N e s file t T f cs m" and m: "m = nat (bs_maxSize (fe_splitter e))" "in64 (bs_maxSize (fe_splitter e))"
    and n: "n < length d" and fits: "in64 (int (max (length (concat cs)) (off + length d)))" and uid: "fe_user e = Inr uid"
    and N: "fs_tempCount s + 2 \<le> N" and i_def: "i = chunk_index m cs (off + n)"
  shows "\<exists>c' k T' ptr s'. split_round m cs (off + n) (drop n d) k c' \<and>
    writeRound e file t uid siRef d (int off) T de (int n) s =
      (Inr (T', roundEntry de (length (cs ! i)) (length c'), int (n + k), ptr), s') \<and>
    roundTo N e s file t f m T' (chunk_round cs i c' k (drop n d)) s' \<and>
    fs_deCache s' = entryStep t (length (cs ! i)) (length c') (roundEntry de (length (cs ! i)) (length c')) s \<and>
    fs_tempCount s' \<le> fs_tempCount s + 2"
proof -
  let ?pos = "off + n" and ?br = "branchOf file"
  have env: "codec_ok e" "path_isValid file" "0 < fe_levels e" "tailPointer file = Some t" "store_ok e s" "dirty_ok s"
    and hT: "held s ?br t T" and T: "fs_heap s ! T = FileB f" and sh: "fileShape e s ?br t m f cs"
    using w by (simp_all add: wInv_def env_ok_def)
  have cs: "chunks_ok m cs" using sh by (simp add: fileShape_def)
  have Tl: "T < length (fs_heap s)" using hT by (simp add: held_def)
  have il: "i < length cs" and ip: "i * m \<le> ?pos" using chunk_index_less[OF cs] chunk_index_le by (simp_all add: i_def)
  from locate[OF env(5,6,1,2,4,3) Tl T sh i_def, of blockWrite] obtain r s1 b where
    run: "getFileBlockAtOffsetLocked e file T (int ?pos) blockWrite s = (Inr r, s1)" and gr: "grew e s s1"
    and loc: "locates s1 ?br t T f cs m i r b"
    and hB: "fb_IsInd f \<longrightarrow> held s1 ?br (bo_ptr r) (bo_block r) \<and>
       (dirtyAddr s1 (bo_ptr r) ?br = Some (bo_block r) \<or> length (fs_heap s) \<le> bo_block r)" by blast
  have w1: "wInv N e s1 file t T f cs m" by (rule grew_wInv[OF gr w])
  have b: "fileAt s1 (bo_block r) = b" "fb_Contents b = cs ! i" "\<not> fb_IsInd b" and so: "bo_startOff r = int (i * m)"
    and grows: "bo_more r \<longleftrightarrow> Suc i < length cs"
    using loc by (auto simp: locates_def fileAt_def)
  have in1: "in64 (int ?pos + int (length (drop n d)))" using fits n by (simp add: in64_def)
  have w64: "wrap64 (int off + int n) = int ?pos"
    by (rule wrap64_nat_sum[OF fits]) (use n in simp)
  have rel: "wrap64 (int ?pos - int (i * m)) = int ?pos - int (i * m)"
    using wrap64_nat_diff[OF fits, of ?pos "i * m"] n ip by (simp add: of_nat_diff)
  from CopyUntilSplit_round[OF cs[unfolded m(1)] _ m(2) in1, of b "int ?pos - int (i * m)" "\<not> bo_more r"] n b(2)
  obtain c' k where cp: "CopyUntilSplit (fe_splitter e) b (\<not> bo_more r) (drop n d) (int ?pos - int (i * m)) = Some (b\<lparr>fb_Contents := c'\<rparr>, int k)"
    and sp: "split_round m cs ?pos (drop n d) k c'" by (auto simp: i_def m(1))
  define b' where "b' = b\<lparr>fb_Contents := c'\<rparr>"
  define s2 where "s2 = setFile (bo_block r) b' s1"
  define grows where "grows \<longleftrightarrow> k < length (drop n d) \<and> Suc i = length cs"
  define cs' where "cs' = chunk_round cs i c' k (drop n d)"
  have cs': "cs' = (if grows then cs[i := c'] @ [[]] else cs[i := c'])" by (simp add: cs'_def grows_def chunk_round_def)
  have okc: "chunks_ok m cs'" using split_round_ok[OF sp] by (simp add: cs'_def i_def)
  have full: "grows \<longrightarrow> length c' = m" using sp by (simp add: split_round_def Let_def grows_def)
  have k: "k \<le> length (drop n d)" using split_round_length(3)[OF sp] .
  have nk: "wrap64 (int n + int k) = int (n + k)" by (rule wrap64_nat_sum[OF fits]) (use k n in auto)
  have cond: "wrap64 (int n + int k) < int (length d) \<and> \<not> bo_more r \<longleftrightarrow> grows"
    using il n by (auto simp: nk grows_def grows)
  have small: "bo_more r \<longrightarrow> length c' \<le> length (fb_Contents b)"
    using split_round_more[OF sp] cs by (simp add: grows i_def b(2) chunks_ok_def)
  have fits': "in64 (int (length cs * m))" if grows
  proof -
    have "length cs * m = length (concat cs')"
      using length_concat_chunks[OF okc] that by (simp add: cs')
    also have "\<dots> \<le> max (length (concat cs)) (off + length d)"
      using split_round_length(2)[OF sp] n by (simp add: cs'_def i_def)
    finally show ?thesis using in64_le fits by blast
  qed
  have fr1: "frame N e (fkeys ?br t f) s s1" "sameOps s s1" using grew_frame[OF gr env(6)] sameOps_eq grewD(3)[OF gr] by simp_all
  have count: "fs_tempCount s2 = fs_tempCount s" using grewD(8)[OF gr] by (simp add: s2_def)
  then have N1: "fs_tempCount s2 < N" and N2: "fs_tempCount s2 + 2 \<le> N" using N by simp_all
  have nind: "\<not> fb_IsInd b'" and c'_def: "fb_Contents b' = c'" using b(3) by (simp_all add: b'_def)
  let ?de = "roundEntry de (length (cs ! i)) (length c')"
  have "\<exists>f1. frame N e (fkeys ?br t f) s1 s2 \<and> fkeys ?br t f1 = fkeys ?br t f \<and>
      roundGoal N e file t uid siRef T f1 m r grows (length (cs ! i)) (length c') ?de cs' s2"
  proof (cases "fb_IsInd f")
    case True
    have B: "held s1 ?br (bo_ptr r) (bo_block r)" and r: "bo_ptr r = ipPtr (fb_IPtrs f ! i)" "bo_parentBlock r = Some T" "bo_indexInParent r = i"
      using hB loc True by (simp_all add: locates_def)
    have "bo_block r \<noteq> T" using located_ne[OF w1 loc il Tl True] hB True by blast
    from wMid_setFile[OF wMid_locate[OF w1 True loc il B this] nind] c'_def
    have w2: "wMid N e s2 file t T f (cs[i := c']) m i (bo_block r)" and fr: "frame N e (fkeys ?br t f) s1 s2"
      by (simp_all add: s2_def)
    have "roundGoal N e file t uid siRef T f m r grows (length (cs ! i)) (length c') ?de cs' s2"
      unfolding cs' by (rule roundGoal_indirect[OF w2 uid N1 refl r(2,3,1) so]) (use okc cs' full fits' grows_def in auto)
    then show ?thesis using fr by blast
  next
    case False
    have r: "bo_ptr r = t" "bo_parentBlock r = None" "bo_block r = T" using loc False by (simp_all add: locates_def)
    note one = wOne_wInv[OF w1 False]
    have i0: "cs[i := c'] = [c']" "i = 0" using one il by simp_all
    have w2: "wOne N e s2 file t T b'" and fr: "frame N e (fkeys ?br t f) s1 s2"
      using wOne_setFile[OF conjunct1[OF one] nind] by (simp_all add: s2_def r)
    have "in64 (int m)" using m cs by (simp add: chunks_ok_def)
    moreover have "cs' = (if grows then [fb_Contents b'] @ [[]] else [fb_Contents b'])" unfolding cs' i0(1) c'_def ..
    ultimately have "roundGoal N e file t uid siRef T b' m r grows (length (cs ! i)) (length c') ?de cs' s2"
      using roundGoal_direct[OF w2 uid _ N2 r(3,2,1), of m grows siRef "length (cs ! i)" ?de] okc full so i0(2) c'_def by simp
    moreover have "fkeys ?br t b' = fkeys ?br t f" using nind False by (simp add: fkeys_def)
    ultimately show ?thesis using fr by blast
  qed
  then obtain f1 T' ptr s3 where fr2: "frame N e (fkeys ?br t f) s1 s2" and fk: "fkeys ?br t f1 = fkeys ?br t f"
    and grow: "(if grows then growRight e file t uid T r (length c') else retA (T, bo_ptr r)) s2 = (Inr (T', ptr), s3)"
    and rt: "roundTo N e s2 file t f1 m T' cs' (endRound file t siRef r (length (cs ! i)) (length c') ?de ptr s3)"
    and de: "fs_deCache (endRound file t siRef r (length (cs ! i)) (length c') ?de ptr s3) = entryStep t (length (cs ! i)) (length c') ?de s2"
    and cnt: "fs_tempCount s3 \<le> fs_tempCount s2 + 2"
    unfolding roundGoal_def by blast
  have "writeRound e file t uid siRef d (int off) T de (int n) s =
      (Inr (T', ?de, int (n + k), ptr), endRound file t siRef r (length (cs ! i)) (length c') ?de ptr s3)"
    using writeRound_run[where off = "int off" and nc = "int n" and d = d and k = "int k" and siRef = siRef and de = de,
        OF run[folded w64] b(1) _ small, of t uid T' ptr s3] cp grow w64 rel so nk b(2)
    unfolding cond s2_def b'_def by simp
  moreover have "frame N e (fkeys ?br t f) s s2" by (rule frame_trans[OF fr1(1) fr2]) simp
  then have "roundTo N e s file t f m T' cs' (endRound file t siRef r (length (cs ! i)) (length c') ?de ptr s3)"
    using fk fr1(2) by (intro roundTo_trans[OF _ _ _ rt]) (simp_all add: s2_def sameOps_def)
  moreover have "fs_deCache s2 = fs_deCache s" using grewD(4)[OF gr] by (simp add: s2_def)
  moreover have "fs_tempCount (endRound file t siRef r (length (cs ! i)) (length c') ?de ptr s3) \<le> fs_tempCount s + 2"
    using cnt count by simp
  ultimately show ?thesis using sp de unfolding cs'_def entryStep_def by metis
qed

end
