(* ===== verification/Kbfs_File_Ops.thy ===== *)
theory Kbfs_File_Ops
  imports Kbfs_File_Write
begin

text \<open>
  The loop of \<open>writeDataLocked\<close>, and what writing and truncating a file do: the file becomes what the
  operations on flat files of \<open>Kbfs_File_Chunks\<close> say, its entry gets the new size, the operation is recorded for
  the next sync, and all other blocks stay as they are.
\<close>

section \<open>The entry\<close>

definition resizedEntry :: "DirEntry \<Rightarrow> uint64 \<Rightarrow> DirEntry" where
  "resizedEntry de n =
     de\<lparr>de_BlockInfo := (de_BlockInfo de)\<lparr>bi_EncodedSize := 0\<rparr>, de_EntryInfo := (de_EntryInfo de)\<lparr>ei_Size := n\<rparr>\<rparr>"

definition entrySize :: "DirEntry \<Rightarrow> uint64" where
  "entrySize de = ei_Size (de_EntryInfo de)"

lemma resizedEntry_simps [simp]:
  "resizedEntry (resizedEntry de a) b = resizedEntry de b" "entrySize (resizedEntry de a) = a"
  "entryRef (resizedEntry de a) = entryRef de" "grownEntry de k = resizedEntry de (entrySize de + of_int k)"
  by (simp_all add: resizedEntry_def entrySize_def entryRef_def grownEntry_def)

text \<open>The entry of the file with pointer \<open>t\<close> goes from \<open>de\<close> to \<open>de'\<close>, and the cached entries follow.\<close>

definition entryTo :: "BlockPointer \<Rightarrow> DirEntry \<Rightarrow> fboState \<Rightarrow> DirEntry \<Rightarrow> fboState \<Rightarrow> bool" where
  "entryTo t de s de' s' \<longleftrightarrow>
     de' = de \<and> map_of (fs_deCache s') = map_of (fs_deCache s) \<or>
     de' = resizedEntry de (entrySize de') \<and> map_of (fs_deCache s') = (map_of (fs_deCache s))(BlockPointer_ref t \<mapsto> de')"

lemma entryTo_refl: "map_of (fs_deCache s') = map_of (fs_deCache s) \<Longrightarrow> entryTo t de s de s'"
  by (simp add: entryTo_def)

lemma entryTo_trans:
  assumes "entryTo t de s de1 s1" and "entryTo t de1 s1 de2 s2"
  shows "entryTo t de s de2 s2"
proof -
  have "resizedEntry de1 x = resizedEntry de x" if "de1 = resizedEntry de y" for x y using that by simp
  then show ?thesis using assms unfolding entryTo_def by (metis fun_upd_upd)
qed

lemma entryTo_round:
  "fs_deCache s' = entryStep t ol nl (roundEntry de ol nl) s \<Longrightarrow> entryTo t de s (roundEntry de ol nl) s'"
  by (auto simp: entryTo_def entryStep_def roundEntry_def update_conv')

lemma length_concat_update:
  "i < length cs \<Longrightarrow> length (concat (cs[i := c])) + length (cs ! i) = length (concat cs) + length c"
proof (induction cs arbitrary: i)
  case (Cons x cs)
  then show ?case by (cases i) auto
qed simp

lemma roundEntry_size:
  assumes "i < length cs" and "entrySize de = of_nat (length (concat cs))"
  shows "entrySize (roundEntry de (length (cs ! i)) (length c)) = of_nat (length (concat (cs[i := c])))"
proof -
  have "int (length (concat (cs[i := c]))) = int (length (concat cs)) + (int (length c) - int (length (cs ! i)))"
    using length_concat_update[OF assms(1), of c] by linarith
  then have "(of_int (int (length (concat (cs[i := c])))) :: uint64) =
      of_nat (length (concat cs)) + of_int (int (length c) - int (length (cs ! i)))" by simp
  then show ?thesis using assms(2) by (auto simp: roundEntry_def)
qed

section \<open>The loop\<close>

lemma writeLoop_correct:
  assumes m: "m = nat (bs_maxSize (fe_splitter e))" "in64 (bs_maxSize (fe_splitter e))"
    and fits: "in64 (int (max (length F) (off + length d)))" and uid: "fe_user e = Inr uid"
  shows "\<lbrakk>wInv N e s file t T f cs m; fb_IsInd f \<or> dirtyAddr s t (branchOf file) = Some T \<or> n < length d; partly_written F off d n cs;
      write_rounds m cs (off + n) (drop n d) \<le> fuel; fs_tempCount s + 2 * write_rounds m cs (off + n) (drop n d) \<le> N; entrySize de = of_nat (length (concat cs))\<rbrakk> \<Longrightarrow>
    \<exists>T' ptrs' s' cs' de'. writeLoop fuel e file t uid siRef d (int off) T de (int n) ptrs s = (Inr (T', ptrs'), s') \<and>
      roundTo N e s file t f m T' cs' s' \<and> partly_written F off d (length d) cs' \<and>
      entryTo t de s de' s' \<and> entrySize de' = of_nat (length (concat cs')) \<and>
      fs_tempCount s' \<le> fs_tempCount s + 2 * write_rounds m cs (off + n) (drop n d)"
proof (induction fuel arbitrary: s T f cs n de ptrs)
  case 0
  have "n = length d" using 0(3,4) by (auto simp: write_rounds_def partly_written_def split: if_splits)
  then show ?case
    using 0 entryTo_refl[of s s t de] by (auto simp: roundTo_def sameOps_def)
next
  case (Suc fuel)
  show ?case
  proof (cases "n < length d")
    case False
    then have "n = length d" using Suc.prems(3) by (simp add: partly_written_def)
    then show ?thesis
      using Suc.prems entryTo_refl[of s s t de] by (auto simp: roundTo_def sameOps_def)
  next
    case True
    define i where "i = chunk_index m cs (off + n)"
    have "length (concat cs) \<le> max (length F) (off + length d)" using Suc.prems(3) by (simp add: partly_written_def)
    then have fits1: "in64 (int (max (length (concat cs)) (off + length d)))" using in64_le fits by (meson max.boundedI max.cobounded2)
    have "0 < write_rounds m cs (off + n) (drop n d)" using True by (simp add: write_rounds_def)
    then have N2: "fs_tempCount s + 2 \<le> N" using Suc.prems(5) by simp
    from writeRound_step[OF Suc.prems(1) m True fits1 uid N2 i_def, of siRef de] obtain c' k T1 ptr s1 where
      sp: "split_round m cs (off + n) (drop n d) k c'"
      and run: "writeRound e file t uid siRef d (int off) T de (int n) s =
        (Inr (T1, roundEntry de (length (cs ! i)) (length c'), int (n + k), ptr), s1)"
      and rt: "roundTo N e s file t f m T1 (chunk_round cs i c' k (drop n d)) s1"
      and dc: "fs_deCache s1 = entryStep t (length (cs ! i)) (length c') (roundEntry de (length (cs ! i)) (length c')) s"
      and cnt: "fs_tempCount s1 \<le> fs_tempCount s + 2"
      by blast
    define cs1 where "cs1 = chunk_round cs i c' k (drop n d)"
    define de1 where "de1 = roundEntry de (length (cs ! i)) (length c')"
    from rt obtain f1 where f1: "wInv N e s1 file t T1 f1 cs1 m" "fb_IsInd f1 \<or> dirtyAddr s1 t (branchOf file) = Some T1"
      "\<And>k. k \<in> fkeys (branchOf file) t f1 \<Longrightarrow> k \<in> fkeys (branchOf file) t f \<or> dbi_id k \<in> tempIDs N e s"
      and fr: "frame N e (fkeys (branchOf file) t f) s s1" "sameOps s s1" by (auto simp: roundTo_def cs1_def)
    have pw: "partly_written F off d (n + k) cs1"
      using partly_written_round[OF Suc.prems(3) sp] by (simp add: cs1_def i_def)
    have "drop (n + k) d = drop k (drop n d)" "off + (n + k) = off + n + k" by (simp_all add: add.commute)
    then have less: "write_rounds m cs1 (off + (n + k)) (drop (n + k) d) < write_rounds m cs (off + n) (drop n d)"
      using split_round_decreases[OF sp] by (simp add: cs1_def i_def add.assoc)
    then have rounds: "write_rounds m cs1 (off + (n + k)) (drop (n + k) d) \<le> fuel"
      and left: "fs_tempCount s1 + 2 * write_rounds m cs1 (off + (n + k)) (drop (n + k) d) \<le> N"
      using Suc.prems(4,5) cnt by simp_all
    have il: "i < length cs" using sp chunk_index_less by (simp add: split_round_def Let_def i_def)
    have sz: "entrySize de1 = of_nat (length (concat cs1))"
      using roundEntry_size[OF il Suc.prems(6)] by (simp add: de1_def cs1_def concat_round)
    from Suc.IH[OF f1(1) _ pw rounds left sz, of "ptrs @ [ptr]"] f1(2) obtain T' ptrs' s' cs' de' where
      run': "writeLoop fuel e file t uid siRef d (int off) T1 de1 (int (n + k)) (ptrs @ [ptr]) s1 = (Inr (T', ptrs'), s')"
      and rt': "roundTo N e s1 file t f1 m T' cs' s'" and pw': "partly_written F off d (length d) cs'"
      and et: "entryTo t de1 s1 de' s'" "entrySize de' = of_nat (length (concat cs'))"
      and cnt': "fs_tempCount s' \<le> fs_tempCount s1 + 2 * write_rounds m cs1 (off + (n + k)) (drop (n + k) d)" by blast
    have "writeLoop (Suc fuel) e file t uid siRef d (int off) T de (int n) ptrs s = (Inr (T', ptrs'), s')"
      using run run' True by (simp add: de1_def)
    moreover have "roundTo N e s file t f m T' cs' s'" by (rule roundTo_trans[OF fr f1(3) rt'])
    moreover have "entryTo t de s de' s'" using entryTo_trans[OF entryTo_round[OF dc]] et(1) by (simp add: de1_def)
    moreover have "fs_tempCount s' \<le> fs_tempCount s + 2 * write_rounds m cs (off + n) (drop n d)"
      using cnt cnt' less by simp
    ultimately show ?thesis using pw' et(2) by blast
  qed
qed

section \<open>Looking up the entry\<close>

text \<open>
  The entry of a file: the one in its directory, or the cached one. \<open>entry_ok\<close> says that there is one for the
  file, with the size of the file, in a directory that is no block of the file.
\<close>

definition dirtyEntry :: "fboState \<Rightarrow> DirEntry \<Rightarrow> DirEntry" where
  "dirtyEntry s v = (case map_of (fs_deCache s) (entryRef v) of Some de \<Rightarrow> de | None \<Rightarrow> v)"

definition parentEntry :: "fboEnv \<Rightarrow> fboState \<Rightarrow> path \<Rightarrow> DirEntry option" where
  "parentEntry e s file =
     Option.bind (parentPath file) (\<lambda>parent. Option.bind (tailPointer parent) (\<lambda>pt. Option.bind (tailName file) (\<lambda>name.
       case blockView e s (branchOf parent) pt emptyDir of Inr (DirB b) \<Rightarrow> db_Children b name | _ \<Rightarrow> None)))"

definition fileEntry :: "fboEnv \<Rightarrow> fboState \<Rightarrow> path \<Rightarrow> DirEntry option" where
  "fileEntry e s file = map_option (dirtyEntry s) (parentEntry e s file)"

definition fileKeys :: "fboEnv \<Rightarrow> fboState \<Rightarrow> path \<Rightarrow> dirtyBlockID set" where
  "fileKeys e s file =
     (case tailPointer file of
        None \<Rightarrow> {}
      | Some t \<Rightarrow> (case blockView e s (branchOf file) t emptyFile of Inr (FileB f) \<Rightarrow> fkeys (branchOf file) t f | _ \<Rightarrow> {}))"

definition parentKey :: "path \<Rightarrow> dirtyBlockID option" where
  "parentKey file =
     Option.bind (parentPath file) (\<lambda>parent. map_option (\<lambda>pt. dirtyID pt (branchOf parent)) (tailPointer parent))"

definition entry_ok :: "nat \<Rightarrow> fboEnv \<Rightarrow> fboState \<Rightarrow> path \<Rightarrow> uint64 \<Rightarrow> bool" where
  "entry_ok N e s file n \<longleftrightarrow> hasValidParent file \<and>
     (\<exists>v. parentEntry e s file = Some v \<and> Some (entryRef v) = map_option BlockPointer_ref (tailPointer file) \<and>
        entryRef (dirtyEntry s v) = entryRef v \<and> entrySize (dirtyEntry s v) = n) \<and>
     (\<forall>k. parentKey file = Some k \<longrightarrow> k \<notin> fileKeys e s file \<and> dbi_id k \<notin> tempIDs N e s)"

lemma updateWithDirty_entry:
  assumes ok: "store_ok e s" "codec_ok e" and a: "a < length (fs_heap s)" "fs_heap s ! a = DirB b"
  shows "\<exists>a' s' b'. updateWithDirtyEntriesLocked e a s = (Inr a', s') \<and> grew e s s' \<and> fs_heap s' ! a' = DirB b' \<and>
    (\<forall>name. db_Children b' name = map_option (dirtyEntry s) (db_Children b name))"
proof (cases "\<exists>k v. db_Children b k = Some v \<and> map_of (fs_deCache s) (entryRef v) \<noteq> None")
  case False
  then have "\<forall>name. db_Children b name = map_option (dirtyEntry s) (db_Children b name)"
    by (auto simp: dirtyEntry_def map_option_case split: option.split)
  moreover have "updateWithDirtyEntriesLocked e a s = (Inr a, s)"
    using False a(2) by (simp add: updateWithDirtyEntriesLocked_def dirAt_def)
  ultimately show ?thesis using ok a by (intro exI[of _ a] exI[of _ s] exI[of _ b]) simp
next
  case True
  let ?b = "b\<lparr>db_cachedEncodedSize := 0, db_Children := dirtyChildren (map_of (fs_deCache s)) (db_Children b)\<rparr>"
  let ?s = "s\<lparr>fs_heap := fs_heap s @ [DirB ?b]\<rparr>"
  have "fs_deCache s \<noteq> []" using True by auto
  then have "updateWithDirtyEntriesLocked e a s = (Inr (length (fs_heap s)), ?s)"
    using True a ok(2)
    by (simp add: updateWithDirtyEntriesLocked_def dirAt_def DirBlock_DeepCopy_def codec_ok_def newBlock_def)
  moreover have "\<forall>name. db_Children ?b name = map_option (dirtyEntry s) (db_Children b name)"
    by (auto simp: dirtyChildren_def dirtyEntry_def split: option.split)
  ultimately show ?thesis using grew_newBlock[OF ok(1), of "DirB ?b"]
    by (intro exI[of _ "length (fs_heap s)"] exI[of _ ?s] exI[of _ ?b]) simp
qed

lemma parentEntry_Some:
  "parentEntry e s file = Some v \<longleftrightarrow>
     (\<exists>parent pt name b. parentPath file = Some parent \<and> tailPointer parent = Some pt \<and> tailName file = Some name \<and>
        blockView e s (branchOf parent) pt emptyDir = Inr (DirB b) \<and> db_Children b name = Some v)"
proof -
  have "(case x of Inr (DirB b) \<Rightarrow> db_Children b name | _ \<Rightarrow> None) = Some v \<longleftrightarrow> (\<exists>b. x = Inr (DirB b) \<and> db_Children b name = Some v)"
    for x :: "string + Block" and name
  proof (cases x)
    case (Inr b)
    then show ?thesis by (cases b) simp_all
  qed simp
  then show ?thesis by (auto simp: parentEntry_def bind_eq_Some_conv)
qed

lemma getDirtyEntry_correct:
  assumes ok: "store_ok e s" "dirty_ok s" "codec_ok e" and en: "entry_ok N e s file n"
  shows "\<exists>s' de. getDirtyEntryLocked e file s = (Inr de, s') \<and> grew e s s' \<and> fileEntry e s file = Some de \<and> entrySize de = n \<and>
    Some (entryRef de) = map_option BlockPointer_ref (tailPointer file)"
proof -
  from en obtain v where v: "parentEntry e s file = Some v" "Some (entryRef v) = map_option BlockPointer_ref (tailPointer file)"
    "entryRef (dirtyEntry s v) = entryRef v" "entrySize (dirtyEntry s v) = n" and par: "hasValidParent file"
    by (auto simp: entry_ok_def)
  from v(1) obtain parent pt name b where p: "parentPath file = Some parent" "tailPointer parent = Some pt" "tailName file = Some name"
    "blockView e s (branchOf parent) pt emptyDir = Inr (DirB b)" "db_Children b name = Some v"
    using parentEntry_Some by blast
  have pv: "path_isValid parent" using par p(1) by (simp add: hasValidParent_def)
  have valid: "BlockPointer_IsValid pt" using valid_path_tail[OF pv] p(2) by auto
  from getBlockHelper_view[OF ok(1,2) p(4) _ valid] obtain a s1 where
    get: "getBlockHelperLocked e pt (branchOf parent) emptyDir True s = (Inr a, s1)" and gr: "grew e s s1"
    and a: "a < length (fs_heap s1)" "fs_heap s1 ! a = DirB b" by auto
  have dir: "getDirLocked e parent blockRead s = (Inr a, s1)"
    using get a pv p(2) by (simp add: getDirLocked_def getDirBlockHelperLocked_def tailA_def)
  from updateWithDirty_entry[OF grew_store[OF ok(1) gr] ok(3) a] obtain a' s2 b' where
    u: "updateWithDirtyEntriesLocked e a s1 = (Inr a', s2)" "grew e s1 s2" "fs_heap s2 ! a' = DirB b'"
    "\<forall>name. db_Children b' name = map_option (dirtyEntry s1) (db_Children b name)" by blast
  have same: "dirtyEntry s1 = dirtyEntry s" using grewD(4)[OF gr] by (simp add: dirtyEntry_def fun_eq_iff)
  have "getDirtyEntryLocked e file s = (Inr (dirtyEntry s v), s2)"
    using dir u par p same
    by (simp add: getDirtyEntryLocked_def getDirtyParentAndEntryLocked_def getDirtyDirLocked_def dirAt_def)
  then show ?thesis using grew_trans[OF gr u(2)] v by (simp add: fileEntry_def)
qed

section \<open>A file that can be written\<close>

definition writable :: "nat \<Rightarrow> fboEnv \<Rightarrow> fboState \<Rightarrow> path \<Rightarrow> nat \<Rightarrow> byte list \<Rightarrow> bool" where
  "writable N e s file m F \<longleftrightarrow> file_ok e s file m \<and> fileBytes e s file = Some F \<and> temp_ok N e s (fileKeys e s file) \<and>
     entry_ok N e s file (of_nat (length F))"

text \<open>The conditions under which a write is accepted, and the sizes that the offsets can hold.\<close>

definition write_ok :: "fboEnv \<Rightarrow> nat \<Rightarrow> nat \<Rightarrow> byte list \<Rightarrow> bool" where
  "write_ok e m off d \<longleftrightarrow> m = nat (bs_maxSize (fe_splitter e)) \<and> in64 (bs_maxSize (fe_splitter e)) \<and>
     (\<exists>uid. fe_user e = Inr uid \<and> List.member (fe_writers e) uid) \<and> in64 (int off + int (length d)) \<and>
     (of_nat (off + length d) :: uint64) \<le> fe_maxFileBytes e"

definition pendingOf :: "fboState \<Rightarrow> blockRef \<Rightarrow> WriteRange list" where
  "pendingOf s ref = (case fs_unrefCache s ref of None \<Rightarrow> [] | Some si \<Rightarrow> so_Writes (si_op si))"

definition pendingWrites :: "fboState \<Rightarrow> path \<Rightarrow> WriteRange list" where
  "pendingWrites s file = (case tailPointer file of None \<Rightarrow> [] | Some t \<Rightarrow> pendingOf s (BlockPointer_ref t))"

lemma getOrCreateSyncInfo_cases:
  "\<exists>u si. getOrCreateSyncInfoLocked de s = s\<lparr>fs_unrefCache := u\<rparr> \<and> u (entryRef de) = Some si \<and>
     so_Writes (si_op si) = pendingOf s (entryRef de)"
proof (cases "fs_unrefCache s (entryRef de)")
  case None
  let ?si = "\<lparr>si_oldInfo = de_BlockInfo de, si_op = newSyncOp (bi_BlockPointer (de_BlockInfo de)), si_unrefs = [],
    si_bps = None, si_refBytes = 0, si_unrefBytes = 0\<rparr>"
  show ?thesis
    by (intro exI[of _ "(fs_unrefCache s)(entryRef de \<mapsto> ?si)"] exI[of _ ?si])
      (use None in \<open>simp add: getOrCreateSyncInfoLocked_def pendingOf_def newSyncOp_def resetUpdateState_def\<close>)
next
  case (Some si)
  then show ?thesis
    by (intro exI[of _ "fs_unrefCache s"] exI[of _ si]) (simp add: getOrCreateSyncInfoLocked_def pendingOf_def)
qed

lemma pendingOf_record:
  assumes "fs_unrefCache s ref = Some si" and "sameOps s s'" and "\<And>op. so_Writes (f op) = so_Writes op @ [w]"
  shows "pendingOf (updSyncInfo ref (\<lambda>si. si\<lparr>si_op := f (si_op si)\<rparr>) s') ref = so_Writes (si_op si) @ [w]"
proof -
  have "map_option si_op (fs_unrefCache s' ref) = Some (si_op si)" using assms(1,2) by (simp add: sameOps_def)
  then show ?thesis using assms(3) by (auto simp: pendingOf_def updSyncInfo_def)
qed

lemma grew_entry_ok:
  assumes gr: "grew e s s'" and ok: "file_ok e s file m" and en: "entry_ok N e s file n"
  shows "entry_ok N e s' file n" and "fileKeys e s' file = fileKeys e s file"
proof -
  from ok obtain t f where h: "tailPointer file = Some t" "blockView e s (branchOf file) t emptyFile = Inr (FileB f)" "dirty_ok s"
    by (auto simp: file_ok_def)
  have "blockView e s' (branchOf file) t emptyFile = Inr (FileB f)" using grew_view[OF gr h(3,2)] by simp
  then show fk: "fileKeys e s' file = fileKeys e s file" using h by (simp add: fileKeys_def)
  have "parentEntry e s' file = Some v" if "parentEntry e s file = Some v" for v
    using that grew_view[OF gr h(3)] unfolding parentEntry_Some by fastforce
  moreover have "dirtyEntry s' v = dirtyEntry s v" for v using grewD(4)[OF gr] by (simp add: dirtyEntry_def)
  moreover have "tempIDs N e s' = tempIDs N e s" using grewD(8)[OF gr] by (simp add: tempIDs_def)
  ultimately show "entry_ok N e s' file n" using en unfolding entry_ok_def fk by auto
qed

lemma file_at_rest:
  assumes w: "wInv N e s file t T f cs m" and v: "blockView e s (branchOf file) t emptyFile = Inr (FileB g)" and same: "sameFile g f"
    and fits: "in64 (int (length (concat cs)))"
  shows "file_ok e s file m" "fileBytes e s file = Some (concat cs)" "fileKeys e s file = fkeys (branchOf file) t f"
    "temp_ok N e s (fileKeys e s file)"
proof -
  have t: "tailPointer file = Some t" and sh: "fileShape e s (branchOf file) t m g cs"
    using w same by (simp_all add: wInv_def fileShape_sameFile)
  show "file_ok e s file m" using w t v sh fits unfolding file_ok_def wInv_def by blast
  show "fileBytes e s file = Some (concat cs)" by (rule fileBytes_shape[OF t v sh])
  show k: "fileKeys e s file = fkeys (branchOf file) t f" using t v same by (simp add: fileKeys_def fkeys_def sameFile_def)
  show "temp_ok N e s (fileKeys e s file)" using w by (simp add: wInv_def k)
qed

text \<open>Getting the top block of a file for writing.\<close>

lemma openForWrite:
  assumes ok: "file_ok e s file m" "fileBytes e s file = Some F" and tmp: "temp_ok N e s (fileKeys e s file)"
  shows "\<exists>t T g cs s1. tailPointer file = Some t \<and> getFileLocked e file blockWrite s = (Inr T, s1) \<and> grew e s s1 \<and>
    wInv N e s1 file t T g cs m \<and> concat cs = F \<and> in64 (int (length F)) \<and> fileKeys e s file = fkeys (branchOf file) t g \<and>
    (\<exists>f. blockView e s1 (branchOf file) t emptyFile = Inr (FileB f) \<and> sameFile f g)"
proof -
  from ok(1) obtain t f cs where h: "tailPointer file = Some t" "blockView e s (branchOf file) t emptyFile = Inr (FileB f)"
    "fileShape e s (branchOf file) t m f cs" "in64 (int (length (concat cs)))" "store_ok e s" "dirty_ok s"
    and env: "env_ok e file" by (auto simp: file_ok_def)
  have codec: "codec_ok e" "path_isValid file" using env by (simp_all add: env_ok_def)
  have valid: "BlockPointer_IsValid t" using valid_path_tail[OF codec(2)] h(1) by auto
  from getFileBlock_write[OF h(5,6) codec(1) h(2) valid codec(2)] obtain T s1 g where
    get: "getFileBlockLocked e t file blockWrite s = (Inr T, s1)" and gr: "grew e s s1"
    and T: "held s1 (branchOf file) t T" "fs_heap s1 ! T = FileB g" and same: "sameFile g f" by blast
  have keys: "fileKeys e s file = fkeys (branchOf file) t g" using h(1,2) same by (simp add: fileKeys_def fkeys_def sameFile_def)
  have "fileShape e s1 (branchOf file) t m g cs"
    using grew_fileShape[OF gr h(6,3)] fileShape_sameFile[OF same] by simp
  then have "wInv N e s1 file t T g cs m"
    using env T h(1) grew_store[OF h(5) gr] grew_dirty_ok[OF h(6) gr] tmp grew_temp_ok[OF gr] unfolding wInv_def keys by simp
  moreover have "blockView e s1 (branchOf file) t emptyFile = Inr (FileB f)" using grew_view[OF gr h(6,2)] by simp
  moreover have "sameFile f g" using same by (simp add: sameFile_def)
  moreover have "concat cs = F" using fileBytes_shape[OF h(1-3)] ok(2) by simp
  moreover have "getFileLocked e file blockWrite s = (Inr T, s1)" using get h(1) by (simp add: getFileLocked_def tailA_def)
  ultimately show ?thesis using h(1,4) gr keys by blast
qed

lemma wInv_top:
  assumes w: "wInv N e s file t T f cs m"
  defines "s' \<equiv> cacheBlockIfNotYetDirtyLocked t (branchOf file) T s"
  shows "wInv N e s' file t T f cs m" and "frame N e (fkeys (branchOf file) t f) s s'" and "dirtyAddr s' t (branchOf file) = Some T"
proof -
  let ?br = "branchOf file"
  have d: "dirty_ok s" and h: "held s ?br t T" and tmp: "temp_ok N e s (fkeys ?br t f)" and sh: "fileShape e s ?br t m f cs"
    using w by (simp_all add: wInv_def)
  have tmp': "temp_ok N e s' (fkeys ?br t f)" unfolding s'_def by (rule cacheBlock_temp_ok[OF tmp fkeys_tail])
  have view: "blockView e s' br' q nb = blockView e s br' q nb" if "dirtyID q br' \<noteq> dirtyID t ?br" for q br' nb
    using that by (simp add: s'_def view_cacheBlock[OF h])
  have "childHas e s' ?br (fb_IPtrs f ! j) c = childHas e s ?br (fb_IPtrs f ! j) c"
    if "dirtyID t ?br \<notin> ipKey ?br ` set (fb_IPtrs f)" "j < length (fb_IPtrs f)" for j c
    by (rule childHas_cong[OF view[OF tail_key_ne[OF that]]])
  then have "fileShape e s' ?br t m f cs" using sh by (simp add: fileShape_def)
  then show "wInv N e s' file t T f cs m"
    using w tmp' cacheBlock_dirty_ok[OF d h] cacheBlock_held_same[OF h] by (simp add: wInv_def s'_def)
  from frame_one[OF view fkeys_tail] show "frame N e (fkeys ?br t f) s s'" by (simp add: s'_def)
  show "dirtyAddr s' t ?br = Some T" using cacheBlock_addr[OF h] by (simp add: s'_def)
qed

section \<open>Writing\<close>

lemma grew_held_top: "wInv N e s file t T f cs m \<Longrightarrow> grew e s s' \<Longrightarrow> fileAt s' T = f"
  by (auto simp: wInv_def held_def fileAt_def grew_heap)

text \<open>The loop and the caching of the top block.\<close>

lemma writeBody:
  assumes m: "m = nat (bs_maxSize (fe_splitter e))" "in64 (bs_maxSize (fe_splitter e))"
    and fits: "in64 (int (max (length F) (off + length d)))" and uid: "fe_user e = Inr uid"
    and w: "wInv N e s file t T f cs m" and cs: "concat cs = F" and sz: "entrySize de = of_nat (length F)"
    and v: "blockView e s (branchOf file) t emptyFile = Inr (FileB g)" "sameFile g f" and fuel: "length d + off div m \<le> fuel"
    and N: "fs_tempCount s + 2 * (length d + off div m) \<le> N"
  shows "\<exists>T' ptrs s1 s' f' cs' de'. writeLoop fuel e file t uid siRef d (int off) T de 0 [] s = (Inr (T', ptrs), s1) \<and>
    s' = (if fb_IsInd (fileAt s1 T') then cacheBlockIfNotYetDirtyLocked t (branchOf file) T' s1 else s1) \<and>
    wInv N e s' file t T' f' cs' m \<and> concat cs' = flat_write F off d \<and>
    (\<exists>g'. blockView e s' (branchOf file) t emptyFile = Inr (FileB g') \<and> sameFile g' f') \<and>
    (\<forall>k. k \<in> fkeys (branchOf file) t f' \<longrightarrow> k \<in> fkeys (branchOf file) t f \<or> dbi_id k \<in> tempIDs N e s) \<and>
    frame N e (fkeys (branchOf file) t f) s s' \<and> sameOps s s' \<and>
    entryTo t de s de' s' \<and> entrySize de' = of_nat (length (flat_write F off d)) \<and>
    fs_tempCount s' \<le> fs_tempCount s + 2 * (length d + off div m)"
proof -
  let ?br = "branchOf file"
  obtain T' ptrs s1 f' cs' de' where run: "writeLoop fuel e file t uid siRef d (int off) T de 0 [] s = (Inr (T', ptrs), s1)"
    and w1: "wInv N e s1 file t T' f' cs' m" and cs': "concat cs' = flat_write F off d"
    and dirty: "fb_IsInd f' \<or> (\<exists>g'. blockView e s1 ?br t emptyFile = Inr (FileB g') \<and> sameFile g' f')"
    and k: "\<And>k. k \<in> fkeys ?br t f' \<Longrightarrow> k \<in> fkeys ?br t f \<or> dbi_id k \<in> tempIDs N e s"
    and fr: "frame N e (fkeys ?br t f) s s1" "sameOps s s1"
    and de': "entryTo t de s de' s1" "entrySize de' = of_nat (length (flat_write F off d))"
    and cnt: "fs_tempCount s1 \<le> fs_tempCount s + 2 * (length d + off div m)"
  proof (cases "d = []")
    case True
    have "writeLoop fuel e file t uid siRef d (int off) T de 0 [] s = (Inr (T, []), s)" using True by (cases fuel) simp_all
    moreover have "flat_write F off d = F" using True by (simp add: flat_write_def)
    moreover have "entryTo t de s de s" "sameOps s s" by (simp_all add: entryTo_refl sameOps_def)
    ultimately show thesis using that[of T "[]" s f cs de] w cs sz v by auto
  next
    case False
    have ok: "chunks_ok m cs" using w by (simp add: wInv_def fileShape_def)
    then have "Suc (off div m) - length cs \<le> off div m" by (cases cs) (simp_all add: chunks_ok_def)
    then have rounds: "write_rounds m cs (off + 0) (drop 0 d) \<le> length d + off div m" by (simp add: write_rounds_def)
    then have fuel0: "write_rounds m cs (off + 0) (drop 0 d) \<le> fuel"
      and N0: "fs_tempCount s + 2 * write_rounds m cs (off + 0) (drop 0 d) \<le> N" using fuel N by simp_all
    from writeLoop_correct[OF m fits uid w _ partly_written_start[of cs off d, unfolded cs] fuel0 N0, of de siRef "[]"] False sz cs
    obtain T' ptrs s1 cs' de' where
      run: "writeLoop fuel e file t uid siRef d (int off) T de 0 [] s = (Inr (T', ptrs), s1)"
      and rt: "roundTo N e s file t f m T' cs' s1" and pw: "partly_written F off d (length d) cs'"
      and de': "entryTo t de s de' s1" "entrySize de' = of_nat (length (concat cs'))"
      and cnt: "fs_tempCount s1 \<le> fs_tempCount s + 2 * write_rounds m cs (off + 0) (drop 0 d)" by auto
    from rt obtain f' where f': "wInv N e s1 file t T' f' cs' m" "fb_IsInd f' \<or> dirtyAddr s1 t ?br = Some T'"
      "\<And>k. k \<in> fkeys ?br t f' \<Longrightarrow> k \<in> fkeys ?br t f \<or> dbi_id k \<in> tempIDs N e s"
      and fr: "frame N e (fkeys ?br t f) s s1" "sameOps s s1" by (auto simp: roundTo_def)
    have c: "concat cs' = flat_write F off d" by (rule partly_written_done[OF pw False])
    have "blockView e s1 ?br t emptyFile = Inr (FileB f')" if "dirtyAddr s1 t ?br = Some T'"
      using that f'(1) by (simp add: blockView_def wInv_def)
    then show thesis using that[OF run f'(1) c _ f'(3) fr] f'(2) de' c cnt rounds by auto
  qed
  define s' where "s' = (if fb_IsInd (fileAt s1 T') then cacheBlockIfNotYetDirtyLocked t ?br T' s1 else s1)"
  have T': "fileAt s1 T' = f'" using w1 by (simp add: wInv_def fileAt_def)
  note top = wInv_top[OF w1]
  have w': "wInv N e s' file t T' f' cs' m" using w1 top(1) by (simp add: s'_def)
  have v': "\<exists>g'. blockView e s' ?br t emptyFile = Inr (FileB g') \<and> sameFile g' f'"
  proof (cases "fb_IsInd f'")
    case True
    then have "dirtyAddr s' t ?br = Some T'" using top(3) by (simp add: s'_def T')
    then show ?thesis using w' by (simp add: blockView_def wInv_def)
  qed (use dirty in \<open>simp add: s'_def T'\<close>)
  have "frame N e (fkeys ?br t f') s1 s'" using top(2) by (simp add: s'_def)
  from frame_trans[OF fr(1) this k] have fr': "frame N e (fkeys ?br t f) s s'" .
  have "fs_unrefCache s' = fs_unrefCache s1" "fs_deCache s' = fs_deCache s1" by (simp_all add: s'_def)
  then have "sameOps s s'" "entryTo t de s de' s'" using fr(2) de'(1) by (simp_all add: sameOps_def entryTo_def)
  moreover have "fs_tempCount s' \<le> fs_tempCount s + 2 * (length d + off div m)" using cnt by (simp add: s'_def)
  ultimately show ?thesis using run w' v' cs' k fr' de'(2) s'_def by blast
qed

lemma dbi_id_dirtyID [simp]: "dbi_id (dirtyID p br) = bp_ID p"
  by (simp add: dirtyID_def)

lemma frame_parentEntry:
  assumes fr: "frame N e K s s'" and v: "parentEntry e s file = Some v"
    and k: "\<forall>k. parentKey file = Some k \<longrightarrow> k \<notin> K \<and> dbi_id k \<notin> tempIDs N e s"
  shows "parentEntry e s' file = Some v"
proof -
  from v obtain parent pt name b where p: "parentPath file = Some parent" "tailPointer parent = Some pt" "tailName file = Some name"
    "blockView e s (branchOf parent) pt emptyDir = Inr (DirB b)" "db_Children b name = Some v"
    using parentEntry_Some by blast
  have "dirtyID pt (branchOf parent) \<notin> K" "bp_ID pt \<notin> tempIDs N e s" using k p(1,2) by (simp_all add: parentKey_def)
  then have "blockView e s' (branchOf parent) pt emptyDir = Inr (DirB b)"
    using fr p(4) unfolding frame_def by (metis insert_iff sameKind.simps(2))
  then show ?thesis using p parentEntry_Some by blast
qed

lemma entry_ok_after:
  assumes en: "entry_ok N e s file n" and de: "fileEntry e s file = Some de" and t: "tailPointer file = Some t"
    and fr: "frame N e (fileKeys e s file) s s'" and et: "entryTo t de s de' s'" and sz: "entrySize de' = n'"
    and k: "\<And>k. k \<in> fileKeys e s' file \<Longrightarrow> k \<in> fileKeys e s file \<or> dbi_id k \<in> tempIDs N e s"
  shows "entry_ok N e s' file n'" and "fileEntry e s' file = Some de'"
proof -
  from en obtain v where v: "parentEntry e s file = Some v" "entryRef v = BlockPointer_ref t" "entryRef (dirtyEntry s v) = entryRef v"
    and par: "hasValidParent file" and pk: "\<forall>k. parentKey file = Some k \<longrightarrow> k \<notin> fileKeys e s file \<and> dbi_id k \<notin> tempIDs N e s"
    using t by (auto simp: entry_ok_def)
  have v': "parentEntry e s' file = Some v" by (rule frame_parentEntry[OF fr v(1) pk])
  have ds: "dirtyEntry s v = de" using de v(1) by (simp add: fileEntry_def)
  have d': "dirtyEntry s' v = de' \<and> entryRef de' = entryRef v"
    using et unfolding entryTo_def
  proof
    assume "de' = de \<and> map_of (fs_deCache s') = map_of (fs_deCache s)"
    then show ?thesis using ds v(3) by (simp add: dirtyEntry_def)
  next
    assume h: "de' = resizedEntry de (entrySize de') \<and> map_of (fs_deCache s') = (map_of (fs_deCache s))(BlockPointer_ref t \<mapsto> de')"
    then have "entryRef de' = entryRef de" by (metis resizedEntry_simps(3))
    then show ?thesis using h ds v(2,3) by (simp add: dirtyEntry_def)
  qed
  have "tempIDs N e s' \<subseteq> tempIDs N e s" using fr by (simp add: frame_def)
  then have "\<forall>k. parentKey file = Some k \<longrightarrow> k \<notin> fileKeys e s' file \<and> dbi_id k \<notin> tempIDs N e s'"
    using pk k by blast
  then show "entry_ok N e s' file n'" using par v' v d' sz t unfolding entry_ok_def by auto
  show "fileEntry e s' file = Some de'" using v' d' by (simp add: fileEntry_def)
qed

text \<open>What a change of a file promises, besides what it does to the file: \<open>K\<close> are the blocks of the file before.\<close>

definition onlyFile :: "nat \<Rightarrow> fboEnv \<Rightarrow> path \<Rightarrow> fboState \<Rightarrow> fboState \<Rightarrow> bool" where
  "onlyFile N e file s s' \<longleftrightarrow> frame N e (fileKeys e s file) s s' \<and>
     (\<forall>k. k \<in> fileKeys e s' file \<longrightarrow> k \<in> fileKeys e s file \<or> dbi_id k \<in> tempIDs N e s)"

lemma writeData_correct:
  assumes ok: "writable N e s file m F" and wok: "write_ok e m off d" and fuel: "length d + off div m \<le> fuel"
    and N: "fs_tempCount s + 2 * (length d + off div m) \<le> N"
  shows "\<exists>ptrs s'. writeDataLocked fuel e file d (int off) s = (Inr (\<lparr>wr_Off = of_nat off, wr_Len = of_nat (length d)\<rparr>, ptrs), s') \<and>
    writable N e s' file m (flat_write F off d) \<and> onlyFile N e file s s' \<and>
    pendingWrites s' file = pendingWrites s file @ [\<lparr>wr_Off = of_nat off, wr_Len = of_nat (length d)\<rparr>] \<and>
    fs_tempCount s' \<le> fs_tempCount s + 2 * (length d + off div m)"
proof -
  let ?br = "branchOf file"
  from ok have fok: "file_ok e s file m" and F: "fileBytes e s file = Some F" and tmp: "temp_ok N e s (fileKeys e s file)"
    and en: "entry_ok N e s file (of_nat (length F))" by (simp_all add: writable_def)
  from wok obtain uid where uid: "fe_user e = Inr uid" "List.member (fe_writers e) uid"
    and m: "m = nat (bs_maxSize (fe_splitter e))" "in64 (bs_maxSize (fe_splitter e))"
    and in1: "in64 (int off + int (length d))" and max: "(of_nat (off + length d) :: uint64) \<le> fe_maxFileBytes e"
    by (auto simp: write_ok_def)
  from openForWrite[OF fok F tmp] obtain t T g cs s1 f where t: "tailPointer file = Some t"
    and get: "getFileLocked e file blockWrite s = (Inr T, s1)" and gr: "grew e s s1" and w: "wInv N e s1 file t T g cs m"
    and cs: "concat cs = F" and in2: "in64 (int (length F))" and keys: "fileKeys e s file = fkeys ?br t g"
    and v: "blockView e s1 ?br t emptyFile = Inr (FileB f)" "sameFile f g" by blast
  have st: "store_ok e s1" "dirty_ok s1" "codec_ok e" using w by (simp_all add: wInv_def env_ok_def)
  from getDirtyEntry_correct[OF st grew_entry_ok(1)[OF gr fok en]] t obtain de s2 where
    ent: "getDirtyEntryLocked e file s1 = (Inr de, s2)" and gr2: "grew e s1 s2" and fe: "fileEntry e s1 file = Some de"
    and de: "entrySize de = of_nat (length F)" "entryRef de = BlockPointer_ref t" by auto
  define s3 where "s3 = getOrCreateSyncInfoLocked de s2"
  from getOrCreateSyncInfo_cases[of de s2] obtain u si where s3: "s3 = s2\<lparr>fs_unrefCache := u\<rparr>" "fs_unrefCache s3 (entryRef de) = Some si"
    "so_Writes (si_op si) = pendingOf s2 (entryRef de)" by (auto simp: s3_def)
  have w3: "wInv N e s3 file t T g cs m" using grew_wInv[OF gr2 w] by (simp add: s3(1))
  have v3: "blockView e s3 ?br t emptyFile = Inr (FileB f)" using grew_view[OF gr2 st(2) v(1)] by (simp add: s3(1))
  have fits: "in64 (int (max (length F) (off + length d)))" using in1 in2 by (simp add: max_def)
  have cnt3: "fs_tempCount s3 = fs_tempCount s" using grewD(8)[OF gr] grewD(8)[OF gr2] by (simp add: s3(1))
  from writeBody[OF m fits uid(1) w3 cs de(1) v3 v(2) fuel N[folded cnt3], of "entryRef de"] obtain T' ptrs s4 s5 f' cs' de' g' where
    run: "writeLoop fuel e file t uid (entryRef de) d (int off) T de 0 [] s3 = (Inr (T', ptrs), s4)"
    and s5: "s5 = (if fb_IsInd (fileAt s4 T') then cacheBlockIfNotYetDirtyLocked t ?br T' s4 else s4)"
    and w5: "wInv N e s5 file t T' f' cs' m" and cs': "concat cs' = flat_write F off d"
    and v5: "blockView e s5 ?br t emptyFile = Inr (FileB g')" "sameFile g' f'"
    and k5: "\<And>k. k \<in> fkeys ?br t f' \<Longrightarrow> k \<in> fkeys ?br t g \<or> dbi_id k \<in> tempIDs N e s3"
    and fr5: "frame N e (fkeys ?br t g) s3 s5" "sameOps s3 s5"
    and de': "entryTo t de s3 de' s5" "entrySize de' = of_nat (length (flat_write F off d))"
    and cnt: "fs_tempCount s5 \<le> fs_tempCount s3 + 2 * (length d + off div m)" by blast
  let ?wr = "\<lparr>wr_Off = of_nat off, wr_Len = of_nat (length d)\<rparr>"
  define s6 where "s6 = updSyncInfo (entryRef de) (\<lambda>si. si\<lparr>si_op := fst (addWrite (si_op si) (of_nat off) (of_nat (length d)))\<rparr>) s5"
  have w6: "wInv N e s6 file t T' f' cs' m" and v6: "blockView e s6 ?br t emptyFile = Inr (FileB g')"
    using w5 v5 by (simp_all add: s6_def updSyncInfo_def)
  have "\<exists>ptrs. writeDataLocked fuel e file d (int off) s = (Inr (?wr, ptrs), s6)"
    using get ent run t uid max in1 s5
    by (auto simp: writeDataLocked_def GetCurrentUID_def Let_def tailA_def s6_def s3_def)
  moreover have "in64 (int (length (concat cs')))"
    unfolding cs' length_flat_write using fits in2 by (auto intro: in64_le[rotated])
  note rest = file_at_rest[OF w6 v6 v5(2) this]
  have keys1: "fileKeys e s1 file = fileKeys e s file" and en1: "entry_ok N e s1 file (of_nat (length F))"
    using grew_entry_ok[OF gr fok en] by simp_all
  have temps: "tempIDs N e s3 = tempIDs N e s" "tempIDs N e s1 = tempIDs N e s" using grewD(8)[OF gr] grewD(8)[OF gr2] by (simp_all add: tempIDs_def s3(1))
  have "frame N e (fkeys ?br t g) s1 s3" using grew_frame[OF gr2 st(2)] by (simp add: s3(1))
  from frame_trans[OF this fr5(1)] have fr1: "frame N e (fileKeys e s1 file) s1 s6" by (simp add: keys1 keys s6_def updSyncInfo_def)
  have "entryTo t de s1 de' s6" using de'(1) grewD(4)[OF gr2] by (simp add: entryTo_def s3(1) s6_def updSyncInfo_def)
  from entry_ok_after(1)[OF en1 fe t fr1 this de'(2)] k5 rest(3) have "entry_ok N e s6 file (of_nat (length (flat_write F off d)))"
    by (simp add: keys1 keys temps)
  then have "writable N e s6 file m (flat_write F off d)" using rest cs' by (simp add: writable_def)
  moreover have "frame N e (fileKeys e s file) s s6"
    by (rule frame_trans[OF grew_frame[OF gr] fr1]) (use fok keys1 in \<open>auto simp: file_ok_def\<close>)
  then have "onlyFile N e file s s6" using k5 by (simp add: onlyFile_def rest(3) keys temps)
  moreover have "pendingOf s6 (entryRef de) = so_Writes (si_op si) @ [?wr]"
    unfolding s6_def by (rule pendingOf_record[OF s3(2) fr5(2)]) (simp add: addWrite_def Let_def)
  then have "pendingWrites s6 file = pendingWrites s file @ [?wr]"
    using t de(2) s3(3) grewD(3)[OF gr] grewD(3)[OF gr2] by (simp add: pendingWrites_def pendingOf_def)
  moreover have "fs_tempCount s6 \<le> fs_tempCount s + 2 * (length d + off div m)"
    using cnt cnt3 by (simp add: s6_def updSyncInfo_def)
  ultimately show ?thesis by blast
qed

section \<open>Truncating\<close>

lemma grew_wMid:
  assumes gr: "grew e s s'" and w: "wMid N e s file t T f cs m i B"
  shows "wMid N e s' file t T f cs m i B"
proof -
  let ?br = "branchOf file"
  from w have d: "dirty_ok s" and st: "store_ok e s" and h: "held s ?br t T" "held s ?br (ipPtr (fb_IPtrs f ! i)) B"
    by (simp_all add: wMid_def Let_def)
  have "T < length (fs_heap s)" "B < length (fs_heap s)" using h by (simp_all add: held_def)
  then show ?thesis
    using w grew_store[OF st gr] grew_dirty_ok[OF d gr] grew_held[OF gr h(1)] grew_held[OF gr h(2)] grew_heap[OF gr]
      grew_childHas[OF gr d] grew_temp_ok[OF gr] unfolding wMid_def Let_def by simp
qed

lemma addUnrefs_fold:
  "\<exists>u. foldl (\<lambda>s ip. updSyncInfo r (addUnref (ifp_BlockInfo ip)) s) s ips = s\<lparr>fs_unrefCache := u\<rparr> \<and>
     (\<forall>ref. map_option si_op (u ref) = map_option si_op (fs_unrefCache s ref))"
proof (induction ips arbitrary: s)
  case Nil
  show ?case by (rule exI[of _ "fs_unrefCache s"]) simp
next
  case (Cons ip ips)
  let ?u = "(fs_unrefCache s)(r := map_option (addUnref (ifp_BlockInfo ip)) (fs_unrefCache s r))"
  have "updSyncInfo r (addUnref (ifp_BlockInfo ip)) s = s\<lparr>fs_unrefCache := ?u\<rparr>" by (simp add: updSyncInfo_def)
  moreover have "map_option si_op (?u ref) = map_option si_op (fs_unrefCache s ref)" for ref
    by (simp add: addUnref_def option.map_comp comp_def)
  ultimately show ?case using Cons.IH[of "s\<lparr>fs_unrefCache := ?u\<rparr>"] by auto
qed

lemma wMid_drop:
  assumes w: "wMid N e s file t T f cs m i B"
  obtains g where "wMid N e (dropChildren r T i s) file t T g (take (Suc i) cs) m i B"
    and "ipPtr (fb_IPtrs g ! i) = ipPtr (fb_IPtrs f ! i)" and "fkeys (branchOf file) t g \<subseteq> fkeys (branchOf file) t f"
    and "frame N e (fkeys (branchOf file) t f) s (dropChildren r T i s)" and "sameOps s (dropChildren r T i s)"
    and "fs_deCache (dropChildren r T i s) = fs_deCache s"
proof -
  let ?br = "branchOf file"
  define g where "g = f\<lparr>fb_IPtrs := take (i + 1) (fb_IPtrs f)\<rparr>"
  have f: "fileAt s T = f" and ind: "fb_IsInd f" and len: "length (fb_IPtrs f) = length cs" "i < length cs"
    and d: "dirty_ok s" and hT: "held s ?br t T" and tk: "dirtyID t ?br \<notin> ipKey ?br ` set (fb_IPtrs f)"
    and tmp: "temp_ok N e s (fkeys ?br t f)"
    using w by (simp_all add: wMid_def Let_def fileAt_def)
  from addUnrefs_fold[of r s "drop (i + 1) (fb_IPtrs f)"] obtain u where
    u: "dropChildren r T i s = setFile T g (s\<lparr>fs_unrefCache := u\<rparr>)"
      "\<forall>ref. map_option si_op (u ref) = map_option si_op (fs_unrefCache s ref)"
    by (auto simp: dropChildren_def Let_def f g_def)
  define s' where "s' = dropChildren r T i s"
  have other: "blockView e s' br' q nb = blockView e s br' q nb" if "dirtyID q br' \<noteq> dirtyID t ?br" for q br' nb
    using held_not_addr[OF d hT that] by (simp add: s'_def u(1))
  have child: "childHas e s' ?br (fb_IPtrs f ! j) c = childHas e s ?br (fb_IPtrs f ! j) c" if "j < length cs" for j c
    by (rule childHas_cong[OF other[OF tail_key_ne[OF tk]]]) (use that len in simp)
  have gs: "fb_IsInd g" "fb_IPtrs g = take (Suc i) (fb_IPtrs f)" using ind by (simp_all add: g_def)
  have fk: "fkeys ?br t g \<subseteq> fkeys ?br t f" using ind by (auto simp: fkeys_def gs dest: in_set_takeD)
  have tmp': "temp_ok N e s (fkeys ?br t g)" using fk by (intro temp_ok_sub[OF tmp]) auto
  have tk': "dirtyID t ?br \<notin> ipKey ?br ` set (fb_IPtrs g)" using tk by (auto simp: gs dest: in_set_takeD)
  have "distinct (map (ipKey ?br) (fb_IPtrs g))" using w by (simp add: wMid_def Let_def gs flip: take_map)
  moreover have "T < length (fs_heap s)" using hT by (simp add: held_def)
  ultimately have wm: "wMid N e s' file t T g (take (Suc i) cs) m i B"
    using w child len tmp' tk' gs unfolding wMid_def Let_def by (auto simp: s'_def u(1))
  have fr: "frame N e (fkeys ?br t f) s s'" by (rule frame_one[OF other fkeys_tail]) (simp add: s'_def u(1))+
  show thesis
    by (rule that[OF wm[unfolded s'_def] _ fk fr[unfolded s'_def]]) (use u len in \<open>simp_all add: sameOps_def gs\<close>)
qed

lemma wMid_top:
  assumes w: "wMid N e s file t T f cs m i B"
  defines "s' \<equiv> cacheBlockIfNotYetDirtyLocked t (branchOf file) T s"
  shows "wMid N e s' file t T f cs m i B" and "frame N e (fkeys (branchOf file) t f) s s'" and "dirtyAddr s' t (branchOf file) = Some T"
proof -
  let ?br = "branchOf file"
  have d: "dirty_ok s" and h: "held s ?br t T" and tmp: "temp_ok N e s (fkeys ?br t f)" and len: "length (fb_IPtrs f) = length cs" "i < length cs"
    and tk: "dirtyID t ?br \<notin> ipKey ?br ` set (fb_IPtrs f)" and hB: "held s ?br (ipPtr (fb_IPtrs f ! i)) B" "B \<noteq> T"
    using w by (simp_all add: wMid_def Let_def)
  have tmp': "temp_ok N e s' (fkeys ?br t f)" unfolding s'_def by (rule cacheBlock_temp_ok[OF tmp fkeys_tail])
  have view: "blockView e s' br' q nb = blockView e s br' q nb" if "dirtyID q br' \<noteq> dirtyID t ?br" for q br' nb
    using that by (simp add: s'_def view_cacheBlock[OF h])
  have child: "childHas e s' ?br (fb_IPtrs f ! j) c = childHas e s ?br (fb_IPtrs f ! j) c" if "j < length cs" for j c
    by (rule childHas_cong[OF view[OF tail_key_ne[OF tk]]]) (use that len in simp)
  have "dirtyID (ipPtr (fb_IPtrs f ! i)) ?br \<noteq> dirtyID t ?br" using tail_key_ne[OF tk] len by simp
  from cacheBlock_held_other[OF h hB(1) this hB(2)] show "wMid N e s' file t T f cs m i B"
    using w tmp' child cacheBlock_dirty_ok[OF d h] cacheBlock_held_same[OF h] unfolding wMid_def Let_def by (simp add: s'_def)
  from frame_one[OF view fkeys_tail] show "frame N e (fkeys ?br t f) s s'" by (simp add: s'_def)
  show "dirtyAddr s' t ?br = Some T" using cacheBlock_addr[OF h] by (simp add: s'_def)
qed

lemma dropChildren_count [simp]: "fs_tempCount (dropChildren r T i s) = fs_tempCount s"
proof -
  obtain u where "foldl (\<lambda>s ip. updSyncInfo r (addUnref (ifp_BlockInfo ip)) s) s (drop (i + 1) (fb_IPtrs (fileAt s T))) = s\<lparr>fs_unrefCache := u\<rparr>"
    using addUnrefs_fold by blast
  then show ?thesis by (simp add: dropChildren_def Let_def)
qed

lemma dirtyAddr_mark [simp]: "dirtyAddr (markChild r p i s) q br = dirtyAddr s q br"
  by (simp add: markChild_def updSyncInfo_def Let_def dirtyAddr_def)

lemma cacheBlock_bookkeeping [simp]:
  "sameOps s (cacheBlockIfNotYetDirtyLocked p br a s') = sameOps s s'"
  by (simp add: sameOps_def)

lemma shrink_parent:
  fixes ref :: blockRef
  assumes w: "wMid N e s file t T f cs m i B" and more: "mr \<longleftrightarrow> Suc i < length cs"
  defines "s4 \<equiv> (if mr then cacheBlockIfNotYetDirtyLocked t (branchOf file) T (dropChildren ref T i s) else s)"
  defines "s6 \<equiv> markChild ref T i (cacheBlockIfNotYetDirtyLocked t (branchOf file) T s4)"
  shows "fb_IsInd (fileAt s4 T)" and "\<exists>g. wMid N e s6 file t T g (take (Suc i) cs) m i B \<and> fb_IsInd g \<and>
      ipPtr (fb_IPtrs g ! i) = ipPtr (fb_IPtrs f ! i) \<and> fkeys (branchOf file) t g \<subseteq> fkeys (branchOf file) t f"
    and "frame N e (fkeys (branchOf file) t f) s s6" and "sameOps s s6" and "fs_deCache s6 = fs_deCache s"
    and "dirtyAddr s6 t (branchOf file) = Some T"
proof -
  let ?br = "branchOf file"
  have "\<exists>f4. wMid N e s4 file t T f4 (take (Suc i) cs) m i B \<and> ipPtr (fb_IPtrs f4 ! i) = ipPtr (fb_IPtrs f ! i) \<and>
      fkeys ?br t f4 \<subseteq> fkeys ?br t f \<and> frame N e (fkeys ?br t f) s s4 \<and> sameOps s s4 \<and> fs_deCache s4 = fs_deCache s"
  proof (cases mr)
    case True
    obtain g where g: "wMid N e (dropChildren ref T i s) file t T g (take (Suc i) cs) m i B"
      "ipPtr (fb_IPtrs g ! i) = ipPtr (fb_IPtrs f ! i)" "fkeys ?br t g \<subseteq> fkeys ?br t f"
      "frame N e (fkeys ?br t f) s (dropChildren ref T i s)" "sameOps s (dropChildren ref T i s)"
      "fs_deCache (dropChildren ref T i s) = fs_deCache s" by (rule wMid_drop[OF w]) (rule that)
    have "frame N e (fkeys ?br t f) s s4" unfolding s4_def if_P[OF True]
      by (rule frame_trans[OF g(4) wMid_top(2)[OF g(1)]]) (use g(3) in auto)
    then show ?thesis using True g wMid_top(1)[OF g(1)] by (intro exI[of _ g]) (simp add: s4_def)
  next
    case False
    then have "take (Suc i) cs = cs" using more by simp
    then show ?thesis using False w by (intro exI[of _ f]) (simp add: s4_def sameOps_def)
  qed
  then obtain f4 where w4: "wMid N e s4 file t T f4 (take (Suc i) cs) m i B" and p4: "ipPtr (fb_IPtrs f4 ! i) = ipPtr (fb_IPtrs f ! i)"
    and k4: "fkeys ?br t f4 \<subseteq> fkeys ?br t f" and fr4: "frame N e (fkeys ?br t f) s s4" and same4: "sameOps s s4" "fs_deCache s4 = fs_deCache s"
    by blast
  then show "fb_IsInd (fileAt s4 T)" by (simp add: wMid_def Let_def fileAt_def)
  note top = wMid_top[OF w4]
  from wMid_mark[OF top(1), of ref] obtain g where g: "wMid N e s6 file t T g (take (Suc i) cs) m i B" "fb_IsInd g"
    "fkeys ?br t g = fkeys ?br t f4" "ipPtr (fb_IPtrs g ! i) = ipPtr (fb_IPtrs f4 ! i)"
    and fr6: "frame N e (fkeys ?br t f4) (cacheBlockIfNotYetDirtyLocked t ?br T s4) s6" by (auto simp: s6_def)
  then show "\<exists>g. wMid N e s6 file t T g (take (Suc i) cs) m i B \<and> fb_IsInd g \<and>
      ipPtr (fb_IPtrs g ! i) = ipPtr (fb_IPtrs f ! i) \<and> fkeys ?br t g \<subseteq> fkeys ?br t f" using p4 k4 by auto
  have "frame N e (fkeys ?br t f) s (cacheBlockIfNotYetDirtyLocked t ?br T s4)"
    by (rule frame_trans[OF fr4 top(2)]) (use k4 in auto)
  from frame_trans[OF this fr6] k4 show "frame N e (fkeys ?br t f) s s6" by auto
  show "sameOps s s6" using sameOps_trans[OF _ sameOps_mark] same4(1) by (simp add: s6_def)
  show "fs_deCache s6 = fs_deCache s" using same4(2) by (simp add: s6_def)
  show "dirtyAddr s6 t ?br = Some T" using top(3) by (simp add: s6_def)
qed

lemma length_concat_const: "(\<And>c. c \<in> set cs \<Longrightarrow> length c = m) \<Longrightarrow> length (concat cs) = length cs * m"
  by (induction cs) auto

lemma chunks_ok_shrink:
  assumes "chunks_ok m cs" and "i < length cs" and "k \<le> length (cs ! i)"
  shows "chunks_ok m (take (Suc i) (cs[i := take k (cs ! i)]))"
    and "concat (take (Suc i) (cs[i := take k (cs ! i)])) = take (i * m + k) (concat cs)"
proof -
  have sh: "take (Suc i) (cs[i := take k (cs ! i)]) = take i cs @ [take k (cs ! i)]"
    using assms(2) by (simp add: take_Suc_conv_app_nth)
  have len: "length (take k (cs ! i)) \<le> m" using chunks_ok_nth[OF assms(1,2)] by simp
  have full: "length (cs ! j) = m" if "j < i" for j using assms(1,2) that by (simp add: chunks_ok_def)
  show "chunks_ok m (take (Suc i) (cs[i := take k (cs ! i)]))"
    using full unfolding sh chunks_ok_def using assms(1,2) len by (auto simp: nth_append chunks_ok_def)
  have "concat cs = concat (take i cs) @ cs ! i @ concat (drop (Suc i) cs)"
    using id_take_nth_drop[OF assms(2)] by (metis concat.simps(2) concat_append)
  moreover have "length (concat (take i cs)) = i * m"
  proof -
    have "length c = m" if "c \<in> set (take i cs)" for c using that full assms(2) by (auto simp: in_set_conv_nth)
    then show ?thesis using length_concat_const[of "take i cs" m] assms(2) by simp
  qed
  ultimately show "concat (take (Suc i) (cs[i := take k (cs ! i)])) = take (i * m + k) (concat cs)"
    unfolding sh using assms(3) by simp
qed

lemma shrinkBody:
  fixes ref :: blockRef and u :: "blockRef \<rightharpoonup> syncInfo"
  assumes w: "wInv N e s file t T f cs m" and loc: "locates s (branchOf file) t T f cs m i r b" and i: "i < length cs"
    and hB: "fb_IsInd f \<longrightarrow> held s (branchOf file) (bo_ptr r) (bo_block r) \<and> bo_block r \<noteq> T"
    and k: "k \<le> length (cs ! i)"
    and s3_def: "s3 = (setFile (bo_block r) (b\<lparr>fb_Contents := take k (cs ! i)\<rparr>) s)\<lparr>fs_unrefCache := u\<rparr>"
    and s4_def: "s4 = (if bo_more r then cacheBlockIfNotYetDirtyLocked t (branchOf file) T (dropChildren ref T (bo_indexInParent r) s3) else s3)"
    and s5_def: "s5 = (if fb_IsInd (fileAt s4 T) then cacheBlockIfNotYetDirtyLocked t (branchOf file) T s4 else s4)"
    and s6_def: "s6 = (case bo_parentBlock r of None \<Rightarrow> id | Some p \<Rightarrow> markChild ref p (bo_indexInParent r)) s5"
    and s9_def: "s9 = (\<lambda>u' x. cacheBlockIfNotYetDirtyLocked (bo_ptr r) (branchOf file) (bo_block r) (s6\<lparr>fs_unrefCache := u', fs_deCache := x\<rparr>))"
  shows "\<exists>f'. wInv N e (s9 u' x) file t T f' (take (Suc i) (cs[i := take k (cs ! i)])) m \<and>
      blockView e (s9 u' x) (branchOf file) t emptyFile = Inr (FileB f') \<and> fkeys (branchOf file) t f' \<subseteq> fkeys (branchOf file) t f"
    and "frame N e (fkeys (branchOf file) t f) s (s9 u' x)" and "sameOps s3 s6" and "fs_deCache s6 = fs_deCache s"
    and "fs_tempCount s6 = fs_tempCount s"
proof -
  let ?br = "branchOf file" and ?b = "b\<lparr>fb_Contents := take k (cs ! i)\<rparr>" and ?cs = "take (Suc i) (cs[i := take k (cs ! i)])"
  have ok: "chunks_ok m cs" using w by (simp add: wInv_def fileShape_def)
  note ok' = chunks_ok_shrink(1)[OF ok i k]
  have nind: "\<not> fb_IsInd ?b" and more: "bo_more r \<longleftrightarrow> Suc i < length cs" using loc by (simp_all add: locates_def)
  have "(\<exists>f'. wInv N e (s9 u' x) file t T f' ?cs m \<and> dirtyAddr (s9 u' x) t ?br = Some T \<and> fkeys ?br t f' \<subseteq> fkeys ?br t f) \<and>
      frame N e (fkeys ?br t f) s (s9 u' x) \<and> sameOps s3 s6 \<and> fs_deCache s6 = fs_deCache s"
  proof (cases "fb_IsInd f")
    case True
    have r: "bo_ptr r = ipPtr (fb_IPtrs f ! i)" "bo_parentBlock r = Some T" "bo_indexInParent r = i" using loc True by (simp_all add: locates_def)
    note set = wMid_setFile[OF wMid_locate[OF w True loc i] nind]
    have w3: "wMid N e s3 file t T f (cs[i := take k (cs ! i)]) m i (bo_block r)" and fr3: "frame N e (fkeys ?br t f) s s3"
      using set hB True by (simp_all add: s3_def)
    note sp = shrink_parent[OF w3, of "bo_more r" ref, folded s4_def[unfolded r(3)]]
    have more': "bo_more r \<longleftrightarrow> Suc i < length (cs[i := take k (cs ! i)])" using more by simp
    have s6: "s6 = markChild ref T i (cacheBlockIfNotYetDirtyLocked t ?br T s4)"
      using sp(1)[OF more'] by (simp add: s6_def s5_def r)
    note sp' = sp(2-6)[OF more', folded s6]
    from sp'(1) obtain g where g: "wMid N e s6 file t T g ?cs m i (bo_block r)" "ipPtr (fb_IPtrs g ! i) = bo_ptr r"
      "fkeys ?br t g \<subseteq> fkeys ?br t f" by (auto simp: r(1))
    have w8: "wMid N e (s6\<lparr>fs_unrefCache := u', fs_deCache := x\<rparr>) file t T g ?cs m i (bo_block r)" using g(1) by simp
    note c = wMid_cache[OF w8 ok', unfolded g(2)]
    have "dirtyID (bo_ptr r) ?br \<noteq> dirtyID t ?br"
      using w True i unfolding r(1) by (intro tail_key_ne) (simp_all add: wInv_def fileShape_def)
    moreover have "held (s6\<lparr>fs_unrefCache := u', fs_deCache := x\<rparr>) ?br (bo_ptr r) (bo_block r)"
      using w8 g(2) by (simp add: wMid_def Let_def)
    ultimately have "dirtyAddr (s9 u' x) t ?br = Some T" using sp'(5) by (simp add: s9_def cacheBlock_addr)
    moreover have "wInv N e (s9 u' x) file t T g ?cs m" using c(1) by (simp add: s9_def)
    moreover have "frame N e (fkeys ?br t f) s (s6\<lparr>fs_unrefCache := u', fs_deCache := x\<rparr>)"
      using frame_trans[OF fr3 sp'(2)] by simp
    then have "frame N e (fkeys ?br t f) s (s9 u' x)" unfolding s9_def by (rule frame_trans[OF _ c(2)]) (use g(3) in auto)
    ultimately show ?thesis using g(3) sp'(3,4) by (auto simp: s3_def)
  next
    case False
    have r: "bo_ptr r = t" "bo_parentBlock r = None" "bo_block r = T" using loc False by (simp_all add: locates_def)
    note one = wOne_wInv[OF w False]
    have i0: "i = 0" and cs: "cs = [fb_Contents f]" using one i by simp_all
    note set = wOne_setFile[OF conjunct1[OF one] nind]
    have Tl: "fileAt s3 T = ?b" using w by (simp add: s3_def r wInv_def held_def fileAt_def)
    have "\<not> bo_more r" using more cs i0 by simp
    then have s6: "s6 = s3" using Tl nind by (simp add: s6_def r s5_def s4_def)
    have w8: "wOne N e (s6\<lparr>fs_unrefCache := u', fs_deCache := x\<rparr>) file t T ?b" using set(1) by (simp add: s6 s3_def r wOne_def)
    have cs': "?cs = [fb_Contents ?b]" using cs i0 by simp
    note c = wOne_cache[OF w8 ok'[unfolded cs']]
    have fk: "fkeys ?br t ?b = fkeys ?br t f" using nind False by (simp add: fkeys_def)
    have "frame N e (fkeys ?br t f) s (s6\<lparr>fs_unrefCache := u', fs_deCache := x\<rparr>)" using set(2) by (simp add: s6 s3_def r)
    then have "frame N e (fkeys ?br t f) s (s9 u' x)" unfolding s9_def r by (rule frame_trans[OF _ c(2)]) (simp add: fk)
    then show ?thesis using c(1,3) fk cs' by (auto simp: s9_def r s6 s3_def sameOps_def)
  qed
  then show "\<exists>f'. wInv N e (s9 u' x) file t T f' ?cs m \<and> blockView e (s9 u' x) ?br t emptyFile = Inr (FileB f') \<and> fkeys ?br t f' \<subseteq> fkeys ?br t f"
    "frame N e (fkeys ?br t f) s (s9 u' x)" "sameOps s3 s6" "fs_deCache s6 = fs_deCache s"
    by (auto simp: blockView_def wInv_def)
  show "fs_tempCount s6 = fs_tempCount s"
    by (simp add: s6_def s5_def s4_def s3_def split: option.split)
qed

lemma shrinkFile_correct:
  assumes w: "wInv N e s file t T f cs m" and loc: "locates s (branchOf file) t T f cs m i r b" and i: "i < length cs"
    and hB: "fb_IsInd f \<longrightarrow> held s (branchOf file) (bo_ptr r) (bo_block r) \<and> bo_block r \<noteq> T"
    and n: "sint sz = int n" "i * m \<le> n" "n \<le> i * m + length (cs ! i)"
    and fok: "file_ok e s file m" and keys: "fileKeys e s file = fkeys (branchOf file) t f" and in64: "in64 (int (length (concat cs)))"
    and en: "entry_ok N e s file (of_nat (length (concat cs)))"
  shows "\<exists>s'. shrinkFile e file t T r sz s = (Inr (Some \<lparr>wr_Off = sz, wr_Len = 0\<rparr>, []), s') \<and>
    writable N e s' file m (take n (concat cs)) \<and> onlyFile N e file s s' \<and>
    pendingWrites s' file = pendingWrites s file @ [\<lparr>wr_Off = sz, wr_Len = 0\<rparr>] \<and> fs_tempCount s' = fs_tempCount s"
proof -
  let ?br = "branchOf file" and ?k = "n - i * m"
  have st: "store_ok e s" "dirty_ok s" "codec_ok e" and t: "tailPointer file = Some t" and ok: "chunks_ok m cs"
    using w by (simp_all add: wInv_def env_ok_def fileShape_def)
  from getDirtyEntry_correct[OF st en] t obtain de s1 where
    ent: "getDirtyEntryLocked e file s = (Inr de, s1)" and gr: "grew e s s1" and fe: "fileEntry e s file = Some de"
    and de: "entryRef de = BlockPointer_ref t" by auto
  have w1: "wInv N e s1 file t T f cs m" by (rule grew_wInv[OF gr w])
  have bl: "bo_block r < length (fs_heap s)" and loc1: "locates s1 ?br t T f cs m i r b"
    using loc grewD(9)[OF gr] grew_heap[OF gr] by (auto simp: locates_def)
  have hB1: "fb_IsInd f \<longrightarrow> held s1 ?br (bo_ptr r) (bo_block r) \<and> bo_block r \<noteq> T" using hB grew_held[OF gr] by blast
  have k: "?k \<le> length (cs ! i)" using n by simp
  have nn: "n \<le> length (concat cs)" using chunk_end[OF ok i] n(3) by simp
  have b: "fileAt s1 (bo_block r) = b" "fb_Contents b = cs ! i" and so: "bo_startOff r = int (i * m)"
    and idx: "bo_more r \<longrightarrow> bo_parentBlock r = Some T"
    using loc1 ok i by (auto simp: locates_def fileAt_def fileShape_def) (use w in \<open>auto simp: wInv_def fileShape_def locates_def split: if_splits\<close>)
  have rel: "wrap64 (sint sz - bo_startOff r) = int ?k"
    using wrap64_nat_diff[OF in64 nn n(2)] by (simp add: n(1) so)
  define s2 where "s2 = setFile (bo_block r) (b\<lparr>fb_Contents := take ?k (cs ! i)\<rparr>) s1"
  from getOrCreateSyncInfo_cases[of de s2] obtain u si where s3: "getOrCreateSyncInfoLocked de s2 = s2\<lparr>fs_unrefCache := u\<rparr>"
    "u (entryRef de) = Some si" "so_Writes (si_op si) = pendingOf s2 (entryRef de)" by blast
  let ?ref = "entryRef de" and ?wr = "\<lparr>wr_Off = sz, wr_Len = 0\<rparr>" and ?F = "take n (concat cs)"
  define s3 where "s3 = s2\<lparr>fs_unrefCache := u\<rparr>"
  define s4 where "s4 = (if bo_more r then cacheBlockIfNotYetDirtyLocked t ?br T (dropChildren ?ref T (bo_indexInParent r) s3) else s3)"
  define s5 where "s5 = (if fb_IsInd (fileAt s4 T) then cacheBlockIfNotYetDirtyLocked t ?br T s4 else s4)"
  define s6 where "s6 = (case bo_parentBlock r of None \<Rightarrow> id | Some p \<Rightarrow> markChild ?ref p (bo_indexInParent r)) s5"
  define s7 where "s7 = updSyncInfo ?ref (\<lambda>si. si\<lparr>si_op := fst (addTruncate (si_op si) sz)\<rparr>) s6"
  define s9 where "s9 = cacheBlockIfNotYetDirtyLocked (bo_ptr r) ?br (bo_block r) (cacheEntry (BlockPointer_ref t) (resizedEntry de sz) s7)"
  let ?x = "AList.update (BlockPointer_ref t) (resizedEntry de sz) (fs_deCache s6)"
  have s9: "s9 = (\<lambda>u' x. cacheBlockIfNotYetDirtyLocked (bo_ptr r) ?br (bo_block r) (s6\<lparr>fs_unrefCache := u', fs_deCache := x\<rparr>)) (fs_unrefCache s7) ?x"
    by (simp add: s9_def s7_def updSyncInfo_def cacheEntry_def)
  note body = shrinkBody(1,2)[OF w1 loc1 i hB1 k s3_def[unfolded s2_def] s4_def s5_def s6_def refl, where u' = "fs_unrefCache s7" and x = ?x, folded s9]
    and same = shrinkBody(3-5)[OF w1 loc1 i hB1 k s3_def[unfolded s2_def] s4_def s5_def s6_def refl]
  from body(1) obtain f' where f': "wInv N e s9 file t T f' (take (Suc i) (cs[i := take ?k (cs ! i)])) m"
    "blockView e s9 ?br t emptyFile = Inr (FileB f')" "fkeys ?br t f' \<subseteq> fkeys ?br t f" by blast
  have cs': "concat (take (Suc i) (cs[i := take ?k (cs ! i)])) = ?F"
    using chunks_ok_shrink(2)[OF ok i k] n(2) by simp
  have run: "shrinkFile e file t T r sz s = (Inr (Some ?wr, []), s9)"
  proof -
    have "(if bo_more r then bindA (theA (Panic NilDereference) (bo_parentBlock r))
            (\<lambda>p. updA (\<lambda>s. cacheBlockIfNotYetDirtyLocked t ?br p (dropChildren ?ref p (bo_indexInParent r) s)))
           else retA ()) s3 = (Inr (), s4)"
      using idx by (cases "bo_more r") (simp_all add: s4_def)
    moreover have "(if fb_IsInd (fileAt s4 T) then cacheBlockIfNotYetDirtyLocked t ?br T else id) s4 = s5" by (simp add: s5_def)
    ultimately show ?thesis
      using ent b k rel s3(1)[folded s3_def]
      by (simp add: shrinkFile_def Let_def s9_def s7_def s6_def s2_def resizedEntry_def split del: if_split)
  qed
  have in64': "in64 (int (length (concat (take (Suc i) (cs[i := take ?k (cs ! i)])))))" unfolding cs' by (rule in64_le[OF _ in64]) simp
  note rest = file_at_rest[OF f'(1,2) sameFile_refl in64']
  have keys1: "fileKeys e s1 file = fileKeys e s file" and en1: "entry_ok N e s1 file (of_nat (length (concat cs)))"
    using grew_entry_ok[OF gr fok en] by simp_all
  have "entryTo t de s (resizedEntry de sz) s9"
    using same(2) grewD(4)[OF gr] by (simp add: entryTo_def s9_def s7_def updSyncInfo_def cacheEntry_def update_conv')
  moreover have fr: "frame N e (fileKeys e s file) s s9" unfolding keys
    by (rule frame_trans[OF grew_frame[OF gr st(2)] body(2)]) simp
  moreover have szn: "sz = of_nat (length ?F)"
  proof -
    have "(of_int (sint sz) :: uint64) = of_nat n" by (simp add: n(1))
    then show ?thesis using nn by simp
  qed
  ultimately have "entry_ok N e s9 file (of_nat (length ?F))"
    using entry_ok_after(1)[OF en fe t fr, of "resizedEntry de sz"] f'(3) by (auto simp: rest(3) keys)
  then have "writable N e s9 file m ?F" using rest cs' by (simp add: writable_def)
  moreover have "onlyFile N e file s s9" using fr f'(3) by (auto simp: onlyFile_def rest(3) keys)
  moreover have "pendingOf s7 ?ref = so_Writes (si_op si) @ [?wr]"
    unfolding s7_def by (rule pendingOf_record[OF _ same(1)]) (use s3(2) in \<open>simp_all add: addTruncate_def Let_def s3_def\<close>)
  then have "pendingWrites s9 file = pendingWrites s file @ [?wr]"
    using t de s3(3) grewD(3)[OF gr] by (simp add: pendingWrites_def pendingOf_def s9_def cacheEntry_def s2_def)
  moreover have "fs_tempCount s9 = fs_tempCount s"
    using same(3) grewD(8)[OF gr] by (simp add: s9_def s7_def updSyncInfo_def cacheEntry_def)
  ultimately show ?thesis using run by blast
qed

lemma grew_writable:
  assumes "grew e s s'" and "writable N e s file m F"
  shows "writable N e s' file m F" and "onlyFile N e file s s'" and "pendingWrites s' file = pendingWrites s file"
proof -
  from assms(2) have ok: "file_ok e s file m" and en: "entry_ok N e s file (of_nat (length F))" by (simp_all add: writable_def)
  note g = grew_file_ok[OF assms(1) ok] grew_entry_ok[OF assms(1) ok en]
  show "writable N e s' file m F" using assms(2) g grew_temp_ok[OF assms(1)] by (simp add: writable_def)
  show "onlyFile N e file s s'" using g(4) grew_frame[OF assms(1)] ok by (simp add: onlyFile_def file_ok_def)
  show "pendingWrites s' file = pendingWrites s file"
    using grewD(3)[OF assms(1)] by (simp add: pendingWrites_def pendingOf_def split: option.split)
qed

lemma onlyFile_trans:
  assumes "onlyFile N e file s s1" and "onlyFile N e file s1 s2"
  shows "onlyFile N e file s s2"
proof -
  have k: "k \<in> fileKeys e s file \<or> dbi_id k \<in> tempIDs N e s" if "k \<in> fileKeys e s1 file" for k using assms(1) that by (simp add: onlyFile_def)
  have sub: "tempIDs N e s1 \<subseteq> tempIDs N e s" using assms(1) by (simp add: onlyFile_def frame_def)
  have "frame N e (fileKeys e s file) s s2"
    using assms k by (intro frame_trans[of N e "fileKeys e s file" s s1 "fileKeys e s1 file" s2]) (simp_all add: onlyFile_def)
  moreover have "k' \<in> fileKeys e s file \<or> dbi_id k' \<in> tempIDs N e s" if "k' \<in> fileKeys e s2 file" for k'
    using assms(2) that k subsetD[OF sub] unfolding onlyFile_def by blast
  ultimately show ?thesis by (simp add: onlyFile_def)
qed

text \<open>A position at or after the end of the block it is looked up in is at or after the end of the file.\<close>

lemma last_chunk_end:
  assumes ok: "chunks_ok m cs" and i: "i = chunk_index m cs n" and le: "i * m + length (cs ! i) \<le> n"
  shows "length (concat cs) = i * m + length (cs ! i)"
proof -
  have il: "i < length cs" using chunk_index_less[OF ok] by (simp add: i)
  have "Suc i = length cs"
  proof (rule ccontr)
    assume "Suc i \<noteq> length cs"
    then have "Suc i < length cs" using il by simp
    then have "length (cs ! i) = m" "i = n div m" "0 < m" using ok i by (auto simp: chunks_ok_def chunk_index_def)
    then show False using le dividend_less_div_times[of m n] by simp
  qed
  then have "length cs - 1 = i" "cs \<noteq> []" by auto
  then show ?thesis using length_concat_chunks[OF ok] by (simp add: last_conv_nth)
qed

lemma truncate_correct:
  assumes ok: "writable N e s file m F" and wok: "write_ok e m n []" and sz: "sint sz = int n" and fuel: "n + n div m \<le> fuel"
    and N: "fs_tempCount s + 2 * (n + n div m) \<le> N"
  shows "\<exists>wr ptrs s'. truncateLocked fuel e file sz s = (Inr (wr, ptrs), s') \<and>
    writable N e s' file m (flat_truncate F n) \<and> onlyFile N e file s s' \<and>
    wr = (if n < length F then Some \<lparr>wr_Off = sz, wr_Len = 0\<rparr>
          else if n = length F then None else Some \<lparr>wr_Off = of_nat (length F), wr_Len = of_nat (n - length F)\<rparr>) \<and>
    pendingWrites s' file = pendingWrites s file @ (case wr of None \<Rightarrow> [] | Some w \<Rightarrow> [w]) \<and>
    fs_tempCount s' \<le> fs_tempCount s + 2 * (n + n div m)"
proof -
  let ?br = "branchOf file"
  from ok have fok: "file_ok e s file m" and F: "fileBytes e s file = Some F" and tmp: "temp_ok N e s (fileKeys e s file)"
    by (simp_all add: writable_def)
  from wok obtain uid where uid: "fe_user e = Inr uid" "List.member (fe_writers e) uid" by (auto simp: write_ok_def)
  from openForWrite[OF fok F tmp] obtain t T g cs s1 where t: "tailPointer file = Some t"
    and get: "getFileLocked e file blockWrite s = (Inr T, s1)" and gr: "grew e s s1" and w: "wInv N e s1 file t T g cs m"
    and cs: "concat cs = F" and in2: "in64 (int (length F))" and keys: "fileKeys e s file = fkeys ?br t g" by blast
  define i where "i = chunk_index m cs n"
  have env: "store_ok e s1" "dirty_ok s1" "codec_ok e" "path_isValid file" "0 < fe_levels e" "fs_heap s1 ! T = FileB g"
    "fileShape e s1 ?br t m g cs" "chunks_ok m cs" "held s1 ?br t T" using w by (simp_all add: wInv_def env_ok_def fileShape_def)
  have Tl: "T < length (fs_heap s1)" using env(9) by (simp add: held_def)
  have il: "i < length cs" "i * m \<le> n" using chunk_index_less[OF env(8)] chunk_index_le by (simp_all add: i_def)
  from locate[OF env(1-4) t env(5) Tl env(6,7) i_def, of blockWrite] obtain r s2 b where
    run: "getFileBlockAtOffsetLocked e file T (int n) blockWrite s1 = (Inr r, s2)" and gr2: "grew e s1 s2"
    and loc: "locates s2 ?br t T g cs m i r b"
    and hB: "fb_IsInd g \<longrightarrow> held s2 ?br (bo_ptr r) (bo_block r) \<and>
       (dirtyAddr s2 (bo_ptr r) ?br = Some (bo_block r) \<or> length (fs_heap s1) \<le> bo_block r)" by blast
  have gr': "grew e s s2" by (rule grew_trans[OF gr gr2])
  note ws = grew_writable[OF gr' ok]
  have cnt: "fs_tempCount s2 = fs_tempCount s" by (rule grewD(8)[OF gr'])
  have w2: "wInv N e s2 file t T g cs m" by (rule grew_wInv[OF gr2 w])
  have so: "bo_startOff r = int (i * m)" "fb_Contents (fileAt s2 (bo_block r)) = cs ! i" using loc by (auto simp: locates_def fileAt_def)
  define len where "len = i * m + length (cs ! i)"
  have lenF: "len \<le> length F" using chunk_end[OF env(8) il(1)] cs by (simp add: len_def)
  have cur: "wrap64 (int (i * m) + int (length (cs ! i))) = int len" unfolding len_def by (rule wrap64_nat_sum[OF in2]) (use lenF len_def in simp)
  have n64: "in64 (int n)" and m: "(of_nat n :: uint64) \<le> fe_maxFileBytes e" using wok by (simp_all add: write_ok_def)
  have pre: "truncateLocked fuel e file sz s =
    (if len < n then bindA (writeDataLocked fuel e file (replicate (nat (wrap64 (int n - int len))) 0) (int len))
                      (\<lambda>(latestWrite, dirtyPtrs). retA (Some latestWrite, dirtyPtrs)) s2
     else if len = n then (Inr (None, []), s2) else shrinkFile e file t T r sz s2)"
    using get uid t run so cur sz
    by (simp add: truncateLocked_def GetCurrentUID_def tailA_def nilOnError_def Let_def del: of_nat_mult of_nat_add)
  consider "len < n" | "len = n" | "n < len" by linarith
  then show ?thesis
  proof cases
    case 1
    have lF: "length F = len" using last_chunk_end[OF env(8) i_def] 1 cs by (simp add: len_def)
    let ?z = "replicate (n - len) 0"
    have "wrap64 (int n - int len) = int (n - len)" by (rule wrap64_nat_diff[OF n64]) (use 1 in simp_all)
    then have z: "nat (wrap64 (int n - int len)) = n - len" by simp
    have wok': "write_ok e m len ?z" using wok n64 m 1 by (simp add: write_ok_def in64_def)
    have rounds: "length ?z + len div m \<le> n + n div m" using 1 div_le_mono[of len n m] by simp
    then have fuel0: "length ?z + len div m \<le> fuel" and N0: "fs_tempCount s2 + 2 * (length ?z + len div m) \<le> N"
      using fuel N cnt by simp_all
    from writeData_correct[OF ws(1) wok' fuel0 N0] obtain ptrs s' where
      "writeDataLocked fuel e file ?z (int len) s2 = (Inr (\<lparr>wr_Off = of_nat len, wr_Len = of_nat (n - len)\<rparr>, ptrs), s')"
      "writable N e s' file m (flat_write F len ?z)" "onlyFile N e file s2 s'"
      "pendingWrites s' file = pendingWrites s2 file @ [\<lparr>wr_Off = of_nat len, wr_Len = of_nat (n - len)\<rparr>]"
      "fs_tempCount s' \<le> fs_tempCount s2 + 2 * (length ?z + len div m)" by auto
    then show ?thesis
      using pre 1 cnt rounds z lF onlyFile_trans[OF ws(2)] ws(3) flat_write_append[of F ?z]
      by (simp add: flat_truncate_extend)
  next
    case 2
    then have "length F = n" using last_chunk_end[OF env(8) i_def] cs by (simp add: len_def)
    then show ?thesis using pre 2 ws cnt by (simp add: flat_truncate_extend)
  next
    case 3
    have hB': "fb_IsInd g \<longrightarrow> held s2 ?br (bo_ptr r) (bo_block r) \<and> bo_block r \<noteq> T" using located_ne[OF w2 loc il(1) Tl] hB by blast
    have keys2: "fileKeys e s2 file = fkeys ?br t g"
      using grew_entry_ok(2)[OF gr' fok] ok keys by (auto simp: writable_def)
    from shrinkFile_correct[OF w2 loc il(1) hB' sz il(2) _ _ keys2] 3 ws(1) in2 cs obtain s' where
      "shrinkFile e file t T r sz s2 = (Inr (Some \<lparr>wr_Off = sz, wr_Len = 0\<rparr>, []), s')" "writable N e s' file m (take n F)"
      "onlyFile N e file s2 s'" "pendingWrites s' file = pendingWrites s2 file @ [\<lparr>wr_Off = sz, wr_Len = 0\<rparr>]"
      "fs_tempCount s' = fs_tempCount s2"
      by (auto simp: writable_def len_def)
    moreover have "flat_truncate F n = take n F" "n < length F" using 3 lenF by (simp_all add: flat_truncate_def)
    ultimately show ?thesis using pre 3 onlyFile_trans[OF ws(2)] ws(3) cnt by simp
  qed
qed

section \<open>The operations\<close>

text \<open>The fields for deferred writes play no part in what a file holds.\<close>

lemma blockView_fields:
  "fs_heap s' = fs_heap s \<Longrightarrow> fs_cache s' = fs_cache s \<Longrightarrow> fs_dirty s' = fs_dirty s \<Longrightarrow> blockView e s' = blockView e s"
  by (simp add: blockView_def dirtyAddr_def fun_eq_iff split: option.split)

lemma same_fields:
  assumes "fs_heap s' = fs_heap s" "fs_cache s' = fs_cache s" "fs_dirty s' = fs_dirty s" "fs_deCache s' = fs_deCache s"
    "fs_tempCount s' = fs_tempCount s" "fs_unrefCache s' = fs_unrefCache s"
  shows "writable N e s' file m F = writable N e s file m F" and "onlyFile N e file s0 s' = onlyFile N e file s0 s"
    and "pendingWrites s' file = pendingWrites s file"
proof -
  note v = blockView_fields[OF assms(1-3), of e]
  have k: "fileKeys e s' file = fileKeys e s file" unfolding fileKeys_def v ..
  have c: "childBytes e s' = childBytes e s" and h: "childHas e s' = childHas e s"
    unfolding childBytes_def[abs_def] childHas_def[abs_def] v by (rule refl)+
  have b: "fileBytes e s' file = fileBytes e s file" unfolding fileBytes_def v c ..
  have p: "parentEntry e s' file = parentEntry e s file" unfolding parentEntry_def v ..
  have d: "dirtyEntry s' = dirtyEntry s" and i: "tempIDs N e s' = tempIDs N e s"
    by (simp_all add: dirtyEntry_def fun_eq_iff tempIDs_def assms)
  have "file_ok e s' file m = file_ok e s file m" "temp_ok N e s' K = temp_ok N e s K" for K
    by (simp_all add: file_ok_def store_ok_def dirty_ok_def fileShape_def temp_ok_def assms v h i)
  then show "writable N e s' file m F = writable N e s file m F" by (simp add: writable_def entry_ok_def b k p d i)
  show "onlyFile N e file s0 s' = onlyFile N e file s0 s" by (simp add: onlyFile_def frame_def v k i)
  show "pendingWrites s' file = pendingWrites s file" unfolding pendingWrites_def pendingOf_def assms ..
qed

lemma end_fields:
  "endWrite (updA (deferIfNeeded ptrs dw) s) = (Inr (), s') \<Longrightarrow>
     fs_heap s' = fs_heap s \<and> fs_cache s' = fs_cache s \<and> fs_dirty s' = fs_dirty s \<and> fs_deCache s' = fs_deCache s \<and>
     fs_tempCount s' = fs_tempCount s \<and> fs_unrefCache s' = fs_unrefCache s"
  by (auto simp: endWrite_def deferIfNeeded_def split: if_splits)

lemma endWrite_updA: "\<exists>s'. endWrite (updA h s) = (Inr (), s')"
  by (simp add: endWrite_def)

lemma Write_correct:
  assumes ok: "writable N e s file m F" and wok: "write_ok e m off d" and fuel: "length d + off div m \<le> fuel"
    and N: "fs_tempCount s + 2 * (length d + off div m) \<le> N"
  shows "\<exists>s'. fbo_Write fuel e file d (int off) s = (Inr (), s') \<and> writable N e s' file m (flat_write F off d) \<and> onlyFile N e file s s' \<and>
    pendingWrites s' file = pendingWrites s file @ [\<lparr>wr_Off = of_nat off, wr_Len = of_nat (length d)\<rparr>] \<and>
    fs_tempCount s' \<le> fs_tempCount s + 2 * (length d + off div m)"
proof -
  from writeData_correct[OF assms] obtain ptrs s1 where
    run: "writeDataLocked fuel e file d (int off) s = (Inr (\<lparr>wr_Off = of_nat off, wr_Len = of_nat (length d)\<rparr>, ptrs), s1)"
    and r: "writable N e s1 file m (flat_write F off d)" "onlyFile N e file s s1"
      "pendingWrites s1 file = pendingWrites s file @ [\<lparr>wr_Off = of_nat off, wr_Len = of_nat (length d)\<rparr>]"
      "fs_tempCount s1 \<le> fs_tempCount s + 2 * (length d + off div m)" by blast
  have "path_isValid file" using ok by (simp add: writable_def file_ok_def env_ok_def)
  obtain s' where s': "endWrite (updA (deferIfNeeded ptrs (DeferredWrite d (int off))) s1) = (Inr (), s')" using endWrite_updA by blast
  have "fbo_Write fuel e file d (int off) s = (Inr (), s')"
    using run s' \<open>path_isValid file\<close> by (simp add: fbo_Write_def pathFromNodeForBlockWriteLocked_def)
  then show ?thesis using r same_fields[of s' s1] end_fields[OF s'] by auto
qed

lemma Truncate_correct:
  assumes ok: "writable N e s file m F" and wok: "write_ok e m n []" and sz: "sint sz = int n" and fuel: "n + n div m \<le> fuel"
    and N: "fs_tempCount s + 2 * (n + n div m) \<le> N"
  shows "\<exists>s'. fbo_Truncate fuel e file sz s = (Inr (), s') \<and> writable N e s' file m (flat_truncate F n) \<and> onlyFile N e file s s' \<and>
    fs_tempCount s' \<le> fs_tempCount s + 2 * (n + n div m)"
proof -
  from truncate_correct[OF assms] obtain wr ptrs s1 where run: "truncateLocked fuel e file sz s = (Inr (wr, ptrs), s1)"
    and r: "writable N e s1 file m (flat_truncate F n)" "onlyFile N e file s s1"
      "fs_tempCount s1 \<le> fs_tempCount s + 2 * (n + n div m)" by blast
  have "path_isValid file" using ok by (simp add: writable_def file_ok_def env_ok_def)
  obtain s' where s': "endWrite (updA (deferIfNeeded ptrs (DeferredTruncate sz)) s1) = (Inr (), s')" using endWrite_updA by blast
  have "fbo_Truncate fuel e file sz s = (Inr (), s')"
    using run s' \<open>path_isValid file\<close> by (simp add: fbo_Truncate_def pathFromNodeForBlockWriteLocked_def)
  then show ?thesis using r same_fields[of s' s1] end_fields[OF s'] by auto
qed

text \<open>Files with other blocks.\<close>

lemma frame_file:
  assumes fr: "frame N e K s s'" and ok: "file_ok e s other m" and k: "fileKeys e s other \<inter> K = {}" "dbi_id ` fileKeys e s other \<inter> tempIDs N e s = {}"
  shows "fileBytes e s' other = fileBytes e s other"
proof -
  let ?br = "branchOf other"
  from ok obtain t f cs where h: "tailPointer other = Some t" "blockView e s ?br t emptyFile = Inr (FileB f)" "fileShape e s ?br t m f cs"
    by (auto simp: file_ok_def)
  have keys: "fileKeys e s other = fkeys ?br t f" using h by (simp add: fileKeys_def)
  have view: "blockView e s' ?br q emptyFile = Inr (FileB b)" if "blockView e s ?br q emptyFile = Inr (FileB b)" "dirtyID q ?br \<in> fkeys ?br t f" for q b
  proof -
    have "dirtyID q ?br \<notin> K" "bp_ID q \<notin> tempIDs N e s" using k that(2) by (auto simp: keys image_iff)
    then show ?thesis using fr that(1) unfolding frame_def by (metis insert_iff sameKind.simps(1))
  qed
  have v: "blockView e s' ?br t emptyFile = Inr (FileB f)" by (rule view[OF h(2) fkeys_tail])
  have "childHas e s' ?br ip c" if "childHas e s ?br ip c" "ip \<in> set (fb_IPtrs f)" "fb_IsInd f" for ip c
    using that view[of "ipPtr ip"] by (auto simp: childHas_def fkeys_def ipKey_def)
  then have sh: "fileShape e s' ?br t m f cs" using h(3) by (auto simp: fileShape_def)
  show ?thesis using fileBytes_shape[OF h(1) v sh] fileBytes_shape[OF h] by simp
qed

subsection \<open>A file as a list of bytes\<close>

text \<open>
  What the users of a file rely on: the operations do to it what they do to a flat file, whatever its blocks
  are. \<open>holds s F\<close> says that the file has the bytes \<open>F\<close>. An operation uses up to \<open>cost op\<close> of a resource of
  which there is \<open>room s\<close>; here, new block IDs.
\<close>

datatype fileOp = WriteOp nat "byte list" | TruncateOp nat

fun flatOp :: "byte list \<Rightarrow> fileOp \<Rightarrow> byte list" where
  "flatOp F (WriteOp off d) = flat_write F off d"
| "flatOp F (TruncateOp n) = flat_truncate F n"

primrec runOps :: "(fileOp \<Rightarrow> 's \<Rightarrow> 's option) \<Rightarrow> fileOp list \<Rightarrow> 's \<Rightarrow> 's option" where
  "runOps step [] s = Some s"
| "runOps step (op # ops) s = Option.bind (step op s) (runOps step ops)"

locale flat_file =
  fixes holds :: "'s \<Rightarrow> byte list \<Rightarrow> bool" and allowed :: "fileOp \<Rightarrow> bool" and cost :: "fileOp \<Rightarrow> nat" and room :: "'s \<Rightarrow> nat"
    and step :: "fileOp \<Rightarrow> 's \<Rightarrow> 's option" and readAt :: "nat \<Rightarrow> nat \<Rightarrow> 's \<Rightarrow> byte list option"
  assumes step_flat: "holds s F \<Longrightarrow> allowed op \<Longrightarrow> cost op \<le> room s \<Longrightarrow>
      \<exists>s'. step op s = Some s' \<and> holds s' (flatOp F op) \<and> room s \<le> room s' + cost op"
    and read_flat: "holds s F \<Longrightarrow> in64 (int off + int n) \<Longrightarrow> readAt off n s = Some (flat_read F off n)"
begin

lemma run_flat:
  "holds s F \<Longrightarrow> list_all allowed ops \<Longrightarrow> sum_list (map cost ops) \<le> room s \<Longrightarrow>
   \<exists>s'. runOps step ops s = Some s' \<and> holds s' (foldl flatOp F ops)"
proof (induction ops arbitrary: s F)
  case (Cons op ops)
  then obtain s1 where s1: "step op s = Some s1" "holds s1 (flatOp F op)" "room s \<le> room s1 + cost op"
    using step_flat[of s F op] by auto
  then have "sum_list (map cost ops) \<le> room s1" using Cons.prems(3) by simp
  then show ?case using Cons.IH[OF s1(2)] Cons.prems(2) s1(1) by simp
qed simp

lemma read_after_run:
  assumes "holds s F" and "list_all allowed ops" and "sum_list (map cost ops) \<le> room s" and "in64 (int off + int n)"
  shows "Option.bind (runOps step ops s) (readAt off n) = Some (flat_read (foldl flatOp F ops) off n)"
proof -
  obtain s' where "runOps step ops s = Some s'" "holds s' (foldl flatOp F ops)" using run_flat[OF assms(1-3)] by blast
  then show ?thesis using read_flat assms(4) by simp
qed

lemma read_own_write:
  assumes "holds s F" and "allowed (WriteOp off d)" and "cost (WriteOp off d) \<le> room s" and "in64 (int off + int (length d))"
  shows "Option.bind (step (WriteOp off d) s) (readAt off (length d)) = Some d"
proof -
  have "flat_read (flat_write F off d) off (length d) = d" by (simp add: flat_read_def flat_write_def)
  moreover obtain s' where "step (WriteOp off d) s = Some s'" "holds s' (flat_write F off d)"
    using step_flat[OF assms(1-3)] by auto
  ultimately show ?thesis using read_flat[OF _ assms(4)] by simp
qed

end

text \<open>The operations of folder\_block\_ops.go as such steps.\<close>

definition stateOf :: "(fbo_error, 'a) result \<times> fboState \<Rightarrow> fboState option" where
  "stateOf rs = (case rs of (Inr _, s) \<Rightarrow> Some s | (Inl _, s) \<Rightarrow> None)"

definition doOp :: "nat \<Rightarrow> fboEnv \<Rightarrow> path \<Rightarrow> fileOp \<Rightarrow> fboState \<Rightarrow> fboState option" where
  "doOp fuel e file op s =
     (case op of
        WriteOp off d \<Rightarrow> stateOf (fbo_Write fuel e file d (int off) s)
      | TruncateOp n \<Rightarrow> stateOf (fbo_Truncate fuel e file (of_nat n) s))"

definition doRead :: "fboEnv \<Rightarrow> path \<Rightarrow> nat \<Rightarrow> nat \<Rightarrow> fboState \<Rightarrow> byte list option" where
  "doRead e file off n s =
     (case fbo_Read e file (replicate n 0) (int off) s of
        (Inr (k, dest), _) \<Rightarrow> Some (take (nat k) dest)
      | (Inl _, _) \<Rightarrow> None)"

definition op_ok :: "nat \<Rightarrow> fboEnv \<Rightarrow> nat \<Rightarrow> fileOp \<Rightarrow> bool" where
  "op_ok fuel e m op \<longleftrightarrow>
     (case op of
        WriteOp off d \<Rightarrow> write_ok e m off d \<and> length d + off div m \<le> fuel
      | TruncateOp n \<Rightarrow> write_ok e m n [] \<and> n + n div m \<le> fuel)"

text \<open>A round of the loop adds up to two blocks, and there is a round per byte and per block of a gap.\<close>

definition opIDs :: "nat \<Rightarrow> fileOp \<Rightarrow> nat" where
  "opIDs m op = (case op of WriteOp off d \<Rightarrow> 2 * (length d + off div m) | TruncateOp n \<Rightarrow> 2 * (n + n div m))"

lemma sint_of_nat64: "in64 (int n) \<Longrightarrow> sint (of_nat n :: uint64) = int n"
  by (simp add: in64_def signed_of_nat signed_take_bit_int_eq_self)

interpretation kbfs_file: flat_file "\<lambda>s F. writable N e s fp m F \<and> fs_tempCount s \<le> N" "op_ok fuel e m" "opIDs m"
  "\<lambda>s. N - fs_tempCount s" "doOp fuel e fp" "doRead e fp"
  for N e fp m fuel
proof
  fix s F op
  assume ok: "writable N e s fp m F \<and> fs_tempCount s \<le> N" and op: "op_ok fuel e m op" and left: "opIDs m op \<le> N - fs_tempCount s"
  show "\<exists>s'. doOp fuel e fp op s = Some s' \<and> (writable N e s' fp m (flatOp F op) \<and> fs_tempCount s' \<le> N) \<and>
      N - fs_tempCount s \<le> N - fs_tempCount s' + opIDs m op"
  proof (cases op)
    case (WriteOp off d)
    then have h: "write_ok e m off d" "length d + off div m \<le> fuel" "fs_tempCount s + 2 * (length d + off div m) \<le> N"
      using op left conjunct2[OF ok] by (simp_all add: op_ok_def opIDs_def)
    obtain s' where "fbo_Write fuel e fp d (int off) s = (Inr (), s')" "writable N e s' fp m (flat_write F off d)"
      "fs_tempCount s' \<le> fs_tempCount s + 2 * (length d + off div m)" using Write_correct[OF conjunct1[OF ok] h] by blast
    then show ?thesis using h(3) WriteOp by (simp add: doOp_def stateOf_def opIDs_def)
  next
    case (TruncateOp n)
    then have h: "write_ok e m n []" "n + n div m \<le> fuel" "fs_tempCount s + 2 * (n + n div m) \<le> N"
      using op left conjunct2[OF ok] by (simp_all add: op_ok_def opIDs_def)
    then have "sint (of_nat n :: uint64) = int n" by (intro sint_of_nat64) (simp add: write_ok_def)
    then obtain s' where "fbo_Truncate fuel e fp (of_nat n) s = (Inr (), s')" "writable N e s' fp m (flat_truncate F n)"
      "fs_tempCount s' \<le> fs_tempCount s + 2 * (n + n div m)" using Truncate_correct[OF conjunct1[OF ok] h(1) _ h(2,3)] by blast
    then show ?thesis using h(3) TruncateOp by (simp add: doOp_def stateOf_def opIDs_def)
  qed
next
  fix s F off n assume "writable N e s fp m F \<and> fs_tempCount s \<le> N" "in64 (int off + int n)"
  then show "doRead e fp off n s = Some (flat_read F off n)"
    using Read_correct[of e s fp m F off "replicate n 0"] by (auto simp: doRead_def writable_def)
qed

end
