(* ===== verification/Kbfs_File_Props.thy ===== *)
theory Kbfs_File_Props
  imports Kbfs_File_Ops
begin

text \<open>
  What reading, writing and truncating the files of a folder promise, and where folder\_block\_ops.go breaks
  that promise. The examples are about a file of three bytes in a folder with blocks of at most four.
\<close>

section \<open>An example\<close>

definition fx_id :: "byte \<Rightarrow> BlockID" where
  "fx_id n = BlockID (Hash (SHA256Hash # n # replicate 31 0))"

definition fx_ptr :: "byte \<Rightarrow> BlockPointer" where
  "fx_ptr n = zeroPtr\<lparr>bp_ID := fx_id n\<rparr>"

definition fx_entry :: "byte \<Rightarrow> nat \<Rightarrow> DirEntry" where
  "fx_entry n sz =
     \<lparr>de_BlockInfo = \<lparr>bi_BlockPointer = fx_ptr n, bi_EncodedSize = 9\<rparr>,
      de_EntryInfo = \<lparr>ei_Type = File, ei_Size = of_nat sz, ei_SymPath = [], ei_Mtime = 0, ei_Ctime = 0\<rparr>\<rparr>"

text \<open>A server that has a directory with the ID 0, and files under the other IDs.\<close>

definition fx_get :: "DirBlock \<Rightarrow> (byte \<rightharpoonup> FileBlock) \<Rightarrow> BlockPointer \<Rightarrow> Block \<Rightarrow> string + Block" where
  "fx_get dir files p nb =
     (case hash_h (bid_h (bp_ID p)) of
        _ # n # _ \<Rightarrow>
          (case nb of
             DirB _ \<Rightarrow> if n = 0 then Inr (DirB dir) else Inl ''not there''
           | FileB _ \<Rightarrow> if n = 0 then Inl ''not there'' else (case files n of Some b \<Rightarrow> Inr (FileB b) | None \<Rightarrow> Inl ''not there'')
           | CommonB _ _ \<Rightarrow> Inl ''not there'')
      | _ \<Rightarrow> Inl ''not there'')"

definition fx_env :: "nat \<Rightarrow> (byte \<rightharpoonup> FileBlock) \<Rightarrow> int \<Rightarrow> fboEnv" where
  "fx_env sz files maxSize =
     \<lparr>fe_folderBranch = \<lparr>fbr_Tlf = NullTlfID, fbr_Branch = MasterBranch\<rparr>,
      fe_bopsGet = fx_get (NewDirBlock\<lparr>db_Children := [''f'' \<mapsto> fx_entry 1 sz]\<rparr>) files,
      fe_copyFile = (\<lambda>b. Inr (b\<lparr>fb_cachedEncodedSize := 0\<rparr>)), fe_copyDir = (\<lambda>b. Inr (b\<lparr>db_cachedEncodedSize := 0\<rparr>)),
      fe_tempID = (\<lambda>k. Inr (fx_id (of_nat (k + 100)))), fe_user = Inr ''alice'', fe_writers = [''alice''], fe_keyGen = 1,
      fe_dataVer = 1, fe_maxFileBytes = 1000, fe_splitter = \<lparr>bs_maxSize = maxSize, bs_blockChangeEmbedMaxSize = 0\<rparr>,
      fe_levels = 1, fe_known = (\<lambda>p nb. nb = (if bp_ID p = fx_id 0 then emptyDir else emptyFile))\<rparr>"

definition fx_state :: fboState where
  "fx_state =
     \<lparr>fs_heap = [],
      fs_cache = \<lparr>bc_cleanBytesCapacity = 0, bc_ids = None, bc_cleanTransient = None, bc_cleanPermanent = Map.empty,
                  bc_cleanTotalBytes = 0, bc_dirty = [], bc_dirtyBytesEstimate = 0\<rparr>,
      fs_dirty = [], fs_fileBlockStates = (\<lambda>_. blockNotBeingSynced), fs_unrefCache = Map.empty, fs_deCache = [],
      fs_deferredWrites = [], fs_deferredDirtyDeletes = [], fs_doDeferWrite = False, fs_tempCount = 0\<rparr>"

definition fx_path :: path where
  "fx_path =
     \<lparr>p_FolderBranch = \<lparr>fbr_Tlf = NullTlfID, fbr_Branch = MasterBranch\<rparr>,
      p_path = [\<lparr>pn_BlockPointer = fx_ptr 0, pn_Name = ''d''\<rparr>, \<lparr>pn_BlockPointer = fx_ptr 1, pn_Name = ''f''\<rparr>]\<rparr>"

lemma fx_id_eq [simp]: "fx_id a = fx_id b \<longleftrightarrow> a = b"
  by (simp add: fx_id_def)

lemma fx_valid [simp]: "BlockID_IsValid (fx_id n)" "BlockPointer_IsValid (fx_ptr n)" "bp_ID (fx_ptr n) = fx_id n"
  by (simp_all add: BlockID_IsValid_def BlockPointer_IsValid_def Hash_IsValid_def fx_id_def fx_ptr_def hashType_def hash_consts)

lemma fx_path_simps [simp]:
  "path_isValid fx_path" "tailPointer fx_path = Some (fx_ptr 1)" "tailName fx_path = Some ''f''" "hasValidParent fx_path"
  "parentPath fx_path = Some (fx_path\<lparr>p_path := [\<lparr>pn_BlockPointer = fx_ptr 0, pn_Name = ''d''\<rparr>]\<rparr>)" "branchOf fx_path = MasterBranch"
  by (simp_all add: fx_path_def path_isValid_def tailPointer_def tailName_def hasValidParent_def parentPath_def
      pathNode_isValid_def branchOf_def)

lemma fx_server: "server_ok (fx_env sz files k)"
proof -
  define dir where "dir = NewDirBlock\<lparr>db_Children := [''f'' \<mapsto> fx_entry 1 sz]\<rparr>"
  have get: "fe_bopsGet (fx_env sz files k) = fx_get dir files" by (simp add: fx_env_def dir_def)
  show ?thesis
    unfolding server_ok_def get
  proof (intro conjI allI impI)
    fix p q nb nb' assume h: "fe_known (fx_env sz files k) p nb \<and> fe_known (fx_env sz files k) q nb' \<and> bp_ID p = bp_ID q"
    then show "nb = nb'" by (simp add: fx_env_def)
    show "fx_get dir files p nb = fx_get dir files q nb" using h by (simp add: fx_get_def)
  next
    fix p nb b assume "fe_known (fx_env sz files k) p nb \<and> fx_get dir files p nb = Inr b"
    then show "sameKind nb b" by (cases nb) (auto simp: fx_get_def split: list.splits if_splits option.splits)
  qed
qed

lemma fx_known [simp]: "fe_known (fx_env sz files k) (fx_ptr n) nb = (nb = (if n = 0 then emptyDir else emptyFile))"
  by (simp add: fx_env_def)

lemma fx_view:
  "fe_known (fx_env sz files k) p nb \<Longrightarrow>
   blockView (fx_env sz files k) fx_state br p nb = fx_get (NewDirBlock\<lparr>db_Children := [''f'' \<mapsto> fx_entry 1 sz]\<rparr>) files p nb"
  by (simp add: blockView_def dirtyAddr_def knownBlock_def cleanBlock_def cachedClean_def transientEntries_def fx_state_def fx_env_def)

lemma fx_get_file: "n \<noteq> 0 \<Longrightarrow> fx_get dir files (fx_ptr n) emptyFile = (case files n of Some b \<Rightarrow> Inr (FileB b) | None \<Rightarrow> Inl ''not there'')"
  by (simp add: fx_get_def fx_ptr_def fx_id_def)

lemma fx_get_dir: "fx_get dir files (fx_ptr 0) emptyDir = Inr (DirB dir)"
  by (simp add: fx_get_def fx_ptr_def fx_id_def)

lemma fx_rest [simp]:
  "store_ok (fx_env sz files k) fx_state" "dirty_ok fx_state" "env_ok (fx_env sz files k) fx_path" "fs_tempCount fx_state = 0"
  "fs_deCache fx_state = []" "fs_dirty fx_state = []"
  by (simp_all add: store_ok_def fx_server lru_ok_def cache_true_def transientEntries_def fx_state_def dirty_ok_def env_ok_def codec_ok_def)
    (simp_all add: fx_env_def)

lemma unat_byte_of_nat: "n < 256 \<Longrightarrow> unat (of_nat n :: byte) = n"
  by (simp add: unsigned_of_nat take_bit_nat_eq_self)

lemma unat64_of_nat: "n < 2 ^ 64 \<Longrightarrow> unat (of_nat n :: uint64) = n"
  by (simp add: unsigned_of_nat take_bit_nat_eq_self)

lemma fx_temps:
  assumes "i \<in> tempIDs 100 (fx_env sz files k) fx_state"
  shows "\<exists>n. i = fx_id n \<and> 100 \<le> n"
proof -
  from assms obtain j :: nat where j: "j < 100" "i = fx_id (of_nat (j + 100))" by (auto simp: tempIDs_def fx_env_def)
  have "unat (of_nat (j + 100) :: byte) = j + 100" by (rule unat_byte_of_nat) (use j(1) in simp)
  then have "(100 :: byte) \<le> of_nat (j + 100)" unfolding word_le_nat_alt by simp
  then show ?thesis using j(2) by blast
qed

text \<open>A file whose top block is \<open>f\<close>.\<close>

lemma fx_writable:
  assumes f: "files 1 = Some f" and sh: "fileShape (fx_env sz files k) fx_state MasterBranch (fx_ptr 1) m f cs"
    and sz: "length (concat cs) = sz" "sz < 1000"
    and keys: "\<And>ip. fb_IsInd f \<Longrightarrow> ip \<in> set (fb_IPtrs f) \<Longrightarrow> \<exists>n. ipPtr ip = fx_ptr n \<and> 0 < n \<and> n < 100"
  shows "writable 100 (fx_env sz files k) fx_state fx_path m (concat cs)"
proof -
  let ?e = "fx_env sz files k"
  have v: "blockView ?e fx_state MasterBranch (fx_ptr 1) emptyFile = Inr (FileB f)" using f by (simp add: fx_view fx_get_file)
  have ok: "file_ok ?e fx_state fx_path m" using v sh sz by (auto simp: file_ok_def in64_def)
  have bytes: "fileBytes ?e fx_state fx_path = Some (concat cs)" using fileBytes_shape[of fx_path "fx_ptr 1"] v sh by simp
  have fk: "fileKeys ?e fx_state fx_path = fkeys MasterBranch (fx_ptr 1) f" using v by (simp add: fileKeys_def)
  have ids: "\<exists>n. i = fx_id n \<and> 0 < n \<and> n < 100" if "i \<in> dbi_id ` fkeys MasterBranch (fx_ptr 1) f" for i
  proof -
    from that consider "i = fx_id 1" | ip where "fb_IsInd f" "ip \<in> set (fb_IPtrs f)" "i = bp_ID (ipPtr ip)"
      by (auto simp: fkeys_def ipKey_def split: if_splits)
    then show ?thesis
    proof cases
      case 1
      then show ?thesis by (intro exI[of _ 1]) simp
    next
      case 2
      then show ?thesis using keys[OF 2(1,2)] by auto
    qed
  qed
  note tmp = fx_temps[of _ sz files k]
  have "inj_on (fe_tempID ?e) {0..<100}"
  proof (rule inj_onI)
    fix a b assume h: "a \<in> {0..<100 :: nat}" "b \<in> {0..<100}" "fe_tempID ?e a = fe_tempID ?e b"
    then have "unat (of_nat (a + 100) :: byte) = unat (of_nat (b + 100) :: byte)" by (simp add: fx_env_def)
    then show "a = b" using h unat_byte_of_nat[of "a + 100"] unat_byte_of_nat[of "b + 100"] by simp
  qed
  moreover have "tempIDs 100 ?e fx_state \<inter> dbi_id ` fkeys MasterBranch (fx_ptr 1) f = {}"
  proof (rule equals0I)
    fix i assume "i \<in> tempIDs 100 ?e fx_state \<inter> dbi_id ` fkeys MasterBranch (fx_ptr 1) f"
    then obtain a b where "i = fx_id a" "100 \<le> a" "i = fx_id b" "b < 100" using ids[of i] tmp[of i] by blast
    then show False by simp
  qed
  moreover have "\<exists>i. fe_tempID ?e j = Inr i \<and> BlockID_IsValid i" for j by (simp add: fx_env_def)
  ultimately have "temp_ok 100 ?e fx_state (fileKeys ?e fx_state fx_path)" by (simp add: temp_ok_def fk)
  moreover have "entry_ok 100 ?e fx_state fx_path (of_nat (length (concat cs)))"
  proof -
    have pk: "parentKey fx_path = Some (dirtyID (fx_ptr 0) MasterBranch)"
      by (simp add: parentKey_def parentPath_def tailPointer_def branchOf_def fx_path_def)
    have "dirtyID (fx_ptr 0) MasterBranch \<notin> fkeys MasterBranch (fx_ptr 1) f"
      using ids[of "fx_id 0"] imageI[of "dirtyID (fx_ptr 0) MasterBranch" _ dbi_id] by force
    moreover have "fx_id 0 \<notin> tempIDs 100 ?e fx_state" using tmp[of "fx_id 0"] by auto
    moreover have "parentEntry ?e fx_state fx_path = Some (fx_entry 1 sz)"
      unfolding parentEntry_Some by (auto simp: fx_view fx_get_dir tailPointer_def)
    moreover have "entryRef (fx_entry 1 sz) = BlockPointer_ref (fx_ptr 1)" "entrySize (fx_entry 1 sz) = of_nat sz"
      by (simp_all add: entryRef_def fx_entry_def entrySize_def)
    ultimately show ?thesis using sz(1) pk by (simp add: entry_ok_def dirtyEntry_def fk)
  qed
  ultimately show ?thesis using ok bytes by (simp add: writable_def)
qed

text \<open>The file of three bytes.\<close>

definition fx_file :: FileBlock where
  "fx_file = NewFileBlock\<lparr>fb_Contents := [1, 2, 3]\<rparr>"

abbreviation fx_small :: fboEnv where
  "fx_small \<equiv> fx_env 3 [1 \<mapsto> fx_file] 4"

lemma fx_small_writable: "writable 100 fx_small fx_state fx_path 4 [1, 2, 3]"
proof -
  have "fileShape fx_small fx_state MasterBranch (fx_ptr 1) 4 fx_file [[1, 2, 3]]"
    by (simp add: fileShape_def fx_file_def NewFileBlock_def chunks_ok_def)
  from fx_writable[OF _ this] show ?thesis by (simp add: fx_file_def NewFileBlock_def)
qed

lemma fx_write_ok: "off + length d \<le> 1000 \<Longrightarrow> write_ok (fx_env sz files 4) 4 off d"
proof -
  assume h: "off + length d \<le> 1000"
  then have "unat (of_nat (off + length d) :: uint64) = off + length d"
    by (intro unat64_of_nat) simp
  then have "(of_nat (off + length d) :: uint64) \<le> 1000" using h unfolding word_le_nat_alt by simp
  then show ?thesis using h by (simp add: write_ok_def fx_env_def in64_def)
qed

section \<open>Properties\<close>



text \<open>
  C3: Writing a file. An accepted write at any offset, over and past the end included, succeeds after at most one
  round per byte and per block of the gap. The file then has the bytes of a flat file after the same write, is
  well-formed, and its directory entry has the new size. The write is recorded for the next sync.
\<close>

theorem fbo_Write_correct:
  assumes "writable N e s file m F" and "write_ok e m off d" and "length d + off div m \<le> fuel"
    and "fs_tempCount s + 2 * (length d + off div m) \<le> N"
  shows "\<exists>s'. fbo_Write fuel e file d (int off) s = (Inr (), s') \<and> writable N e s' file m (flat_write F off d) \<and>
    pendingWrites s' file = pendingWrites s file @ [\<lparr>wr_Off = of_nat off, wr_Len = of_nat (length d)\<rparr>]"
  using Write_correct[OF assms] by blast

theorem fbo_Write_correct_witness:
  "\<exists>s'. fbo_Write 3 fx_small fx_path [7, 8, 9] 2 fx_state = (Inr (), s') \<and> writable 100 fx_small s' fx_path 4 [1, 2, 7, 8, 9]"
  using fbo_Write_correct[OF fx_small_writable fx_write_ok[of 2 "[7, 8, 9]"], of 3] by (auto simp: flat_write_def)

text \<open>
  C19: Truncating a file. \<open>Truncate\<close> to any size below the limits cuts the file or fills it with zeros, and keeps it
  well-formed, its entry included.
\<close>

theorem fbo_Truncate_correct:
  assumes "writable N e s file m F" and "write_ok e m n []" and "sint sz = int n" and "n + n div m \<le> fuel"
    and "fs_tempCount s + 2 * (n + n div m) \<le> N"
  shows "\<exists>s'. fbo_Truncate fuel e file sz s = (Inr (), s') \<and> writable N e s' file m (flat_truncate F n)"
  using Truncate_correct[OF assms] by blast

theorem fbo_Truncate_correct_witness:
  "(\<exists>s'. fbo_Truncate 7 fx_small fx_path 2 fx_state = (Inr (), s') \<and> writable 100 fx_small s' fx_path 4 [1, 2]) \<and>
   (\<exists>s'. fbo_Truncate 7 fx_small fx_path 6 fx_state = (Inr (), s') \<and> writable 100 fx_small s' fx_path 4 [1, 2, 3, 0, 0, 0])"
proof -
  have flat: "flat_truncate [1, 2, 3] 2 = [1, 2 :: byte]" "flat_truncate [1, 2, 3] 6 = [1, 2, 3, 0, 0, 0 :: byte]" by code_simp+
  show ?thesis
    using fbo_Truncate_correct[OF fx_small_writable fx_write_ok, of 2 2 7] fbo_Truncate_correct[OF fx_small_writable fx_write_ok, of 6 6 7]
    by (simp add: flat)
qed

text \<open>
  C2: Any sequence of writes and truncates of a file followed by a read gives what the same operations give on a
  flat file: the blocks cannot be seen.
\<close>

theorem fbo_ops_flat:
  assumes "writable N e s file m F" and "list_all (op_ok fuel e m) ops" and "fs_tempCount s + sum_list (map (opIDs m) ops) \<le> N"
    and "in64 (int off + int n)"
  shows "Option.bind (runOps (doOp fuel e file) ops s) (doRead e file off n) = Some (flat_read (foldl flatOp F ops) off n)"
proof (rule kbfs_file.read_after_run[where N = N and s = s and F = F, OF _ assms(2) _ assms(4)])
  show "writable N e s file m F \<and> fs_tempCount s \<le> N" using assms(1,3) by linarith
  show "sum_list (map (opIDs m) ops) \<le> N - fs_tempCount s" using assms(3) by linarith
qed

theorem fbo_ops_flat_witness:
  "Option.bind (runOps (doOp 9 fx_small fx_path) [WriteOp 2 [7, 8, 9], TruncateOp 4, WriteOp 5 [6]] fx_state) (doRead fx_small fx_path 1 9) =
   Some [2, 7, 8, 0, 6]"
proof -
  have "foldl flatOp [1, 2, 3] [WriteOp 2 [7, 8, 9], TruncateOp 4, WriteOp 5 [6]] = [1, 2, 7, 8, 0, 6 :: byte]" by code_simp
  then show ?thesis
    using fbo_ops_flat[OF fx_small_writable, of 9 "[WriteOp 2 [7, 8, 9], TruncateOp 4, WriteOp 5 [6]]" 1 9] fx_write_ok
    by (simp add: op_ok_def opIDs_def in64_def flat_read_def)
qed

text \<open>
  C23: Writing or truncating one file changes no other: a file none of whose blocks belongs to it, and whose blocks
  do not have an ID that is given out as a new one, has the same bytes afterwards.
\<close>

theorem fbo_ops_other_files:
  assumes "writable N e s file m F" and "op_ok fuel e m op" and "fs_tempCount s + opIDs m op \<le> N"
    and "file_ok e s other m'" and "fileKeys e s other \<inter> fileKeys e s file = {}" and "dbi_id ` fileKeys e s other \<inter> tempIDs N e s = {}"
  shows "\<exists>s'. doOp fuel e file op s = Some s' \<and> fileBytes e s' other = fileBytes e s other"
proof -
  have "\<exists>s'. doOp fuel e file op s = Some s' \<and> onlyFile N e file s s'"
  proof (cases op)
    case (WriteOp off d)
    then show ?thesis using Write_correct[OF assms(1), of off d fuel] assms(2,3) by (auto simp: op_ok_def opIDs_def doOp_def stateOf_def)
  next
    case (TruncateOp n)
    then have "write_ok e m n []" using assms(2) by (simp add: op_ok_def)
    then have "sint (of_nat n :: uint64) = int n" by (intro sint_of_nat64) (simp add: write_ok_def)
    then show ?thesis using Truncate_correct[OF assms(1), of n "of_nat n" fuel] assms(2,3) TruncateOp
      by (auto simp: op_ok_def opIDs_def doOp_def stateOf_def)
  qed
  then show ?thesis using frame_file[OF _ assms(4-6)] unfolding onlyFile_def by blast
qed

definition fx_other :: path where
  "fx_other = fx_path\<lparr>p_path := [\<lparr>pn_BlockPointer = fx_ptr 0, pn_Name = ''d''\<rparr>, \<lparr>pn_BlockPointer = fx_ptr 2, pn_Name = ''g''\<rparr>]\<rparr>"

theorem fbo_ops_other_files_witness:
  "\<exists>s'. doOp 9 (fx_env 3 [1 \<mapsto> fx_file, 2 \<mapsto> fx_file] 4) fx_path (WriteOp 2 [7, 8, 9]) fx_state = Some s' \<and>
     fileBytes (fx_env 3 [1 \<mapsto> fx_file, 2 \<mapsto> fx_file] 4) s' fx_other = Some [1, 2, 3]"
proof -
  let ?e = "fx_env 3 [1 \<mapsto> fx_file, 2 \<mapsto> fx_file] 4"
  have "fileShape ?e fx_state MasterBranch (fx_ptr n) 4 fx_file [[1, 2, 3]]" for n
    by (simp add: fileShape_def fx_file_def NewFileBlock_def chunks_ok_def)
  note sh = this
  have w: "writable 100 ?e fx_state fx_path 4 [1, 2, 3]"
    using fx_writable[OF _ sh] by (simp add: fx_file_def NewFileBlock_def)
  have p: "tailPointer fx_other = Some (fx_ptr 2)" "branchOf fx_other = MasterBranch" "path_isValid fx_other"
    by (simp_all add: fx_other_def fx_path_def tailPointer_def branchOf_def path_isValid_def pathNode_isValid_def)
  have v: "blockView ?e fx_state MasterBranch (fx_ptr n) emptyFile = Inr (FileB fx_file)" if "n = 1 \<or> n = 2" for n
    using that by (auto simp: fx_view fx_get_file)
  have env: "env_ok ?e fx_other" using fx_rest(3)[of 3 "[1 \<mapsto> fx_file, 2 \<mapsto> fx_file]" 4] p(3) by (simp add: env_ok_def)
  have ok: "file_ok ?e fx_state fx_other 4"
    unfolding file_ok_def using env p v[of 2] sh[of 2] by (auto simp: in64_def intro!: exI[of _ "[[1, 2, 3]]"])
  have bytes: "fileBytes ?e fx_state fx_other = Some [1, 2, 3]"
    using fileBytes_shape[OF p(1), of ?e fx_state fx_file 4 "[[1, 2, 3]]"] v[of 2] sh p(2) by simp
  have keys: "fileKeys ?e fx_state fx_other = {dirtyID (fx_ptr 2) MasterBranch}" "fileKeys ?e fx_state fx_path = {dirtyID (fx_ptr 1) MasterBranch}"
    using v[of 1] v[of 2] p by (simp_all add: fileKeys_def fkeys_def fx_file_def NewFileBlock_def)
  have ne: "dirtyID (fx_ptr 2) MasterBranch \<noteq> dirtyID (fx_ptr 1) MasterBranch"
    by (simp add: dirtyID_def)
  have "fx_id 2 \<notin> tempIDs 100 ?e fx_state" using fx_temps[of "fx_id 2" 3 "[1 \<mapsto> fx_file, 2 \<mapsto> fx_file]" 4] by auto
  then show ?thesis
    using fbo_ops_other_files[OF w _ _ ok, of 9 "WriteOp 2 [7, 8, 9]"] fx_write_ok[of 2 "[7, 8, 9]"] keys ne bytes
    by (simp add: op_ok_def opIDs_def)
qed

section \<open>Where the promise is broken\<close>

text \<open>A round that does nothing: the block is larger than the splitter allows, and the write goes past its end.\<close>

lemma writeRound_stuck:
  assumes w: "wInv N e s file t T f cs m" and big: "0 \<le> bs_maxSize (fe_splitter e)" "bs_maxSize (fe_splitter e) < int m"
    and i_def: "i = chunk_index m cs off" and i: "Suc i < length cs" and past: "Suc i * m < off + length d"
    and fits: "in64 (int (max (length (concat cs)) (off + length d)))"
  shows "\<exists>ptr s' f'. writeRound e file t uid siRef d (int off) T de 0 s = (Inr (T, de, 0, ptr), s') \<and> wInv N e s' file t T f' cs m"
proof -
  let ?br = "branchOf file"
  have env: "codec_ok e" "path_isValid file" "0 < fe_levels e" "tailPointer file = Some t" "store_ok e s" "dirty_ok s"
    and hT: "held s ?br t T" and T: "fs_heap s ! T = FileB f" and sh: "fileShape e s ?br t m f cs"
    using w by (simp_all add: wInv_def env_ok_def)
  have cs: "chunks_ok m cs" using sh by (simp add: fileShape_def)
  have ind: "fb_IsInd f" using sh i by (auto simp: fileShape_def split: if_splits)
  have Tl: "T < length (fs_heap s)" using hT by (simp add: held_def)
  have il: "i < length cs" "i * m \<le> off" using i chunk_index_le by (simp_all add: i_def)
  have full: "length (cs ! i) = m" using cs i by (simp add: chunks_ok_def)
  from locate[OF env(5,6,1,2,4,3) Tl T sh i_def, of blockWrite] obtain r s1 b where
    run: "getFileBlockAtOffsetLocked e file T (int off) blockWrite s = (Inr r, s1)" and gr: "grew e s s1"
    and loc: "locates s1 ?br t T f cs m i r b"
    and hB: "fb_IsInd f \<longrightarrow> held s1 ?br (bo_ptr r) (bo_block r) \<and>
       (dirtyAddr s1 (bo_ptr r) ?br = Some (bo_block r) \<or> length (fs_heap s) \<le> bo_block r)" by blast
  have w1: "wInv N e s1 file t T f cs m" by (rule grew_wInv[OF gr w])
  have b: "fileAt s1 (bo_block r) = b" "fb_Contents b = cs ! i" "fs_heap s1 ! bo_block r = FileB b" "bo_startOff r = int (i * m)" "bo_more r"
    and r: "bo_ptr r = ipPtr (fb_IPtrs f ! i)" "bo_parentBlock r = Some T" "bo_indexInParent r = i"
    using loc i ind by (auto simp: locates_def fileAt_def)
  define rel where "rel = int off - int (i * m)"
  have w64: "wrap64 (int off) = int off" by (rule wrap64_nat[OF fits]) simp
  have rel0: "0 \<le> rel" "rel \<le> int off" using il(2) by (simp_all add: rel_def del: of_nat_mult)
  have relw: "wrap64 rel = rel" using wrap64_nat_diff[OF fits, of off "i * m"] il(2) by (simp add: rel_def of_nat_diff)
  have sum: "in64 (rel + int (length d))" using in64_le[OF _ fits, of "off + length d"] rel0 by (simp add: in64_def)
  have over: "int m < rel + int (length d)" using past unfolding rel_def by (simp flip: of_nat_add of_nat_mult)
  have m64: "in64 (int m)" using in64_le[OF _ fits, of m] past by simp
  then have k64: "in64 (bs_maxSize (fe_splitter e))" using big by (simp add: in64_def)
  have "CopyUntilSplit (fe_splitter e) b (\<not> bo_more r) d rel = Some (b, 0)"
    unfolding CopyUntilSplit_cases[OF refl refl refl rel0(1) sum k64 big(1), of b, unfolded b(2) full, OF m64]
    using over big(2) by simp
  then have cp: "CopyUntilSplit (fe_splitter e) b (\<not> bo_more r) (drop (nat 0) d) (wrap64 (wrap64 (int off + 0) - bo_startOff r)) =
      Some (b\<lparr>fb_Contents := cs ! i\<rparr>, 0)"
    using relw w64 b(2,4) by (simp add: rel_def)
  have same: "setFile (bo_block r) (b\<lparr>fb_Contents := cs ! i\<rparr>) s1 = s1"
  proof -
    have "b\<lparr>fb_Contents := cs ! i\<rparr> = b" unfolding b(2)[symmetric] by simp
    then show ?thesis using b(3) list_update_id[of "fs_heap s1" "bo_block r"] by (simp add: setFile_def)
  qed
  have "writeRound e file t uid siRef d (int off) T de 0 s =
      (Inr (T, roundEntry de m m, wrap64 (0 + 0), bo_ptr r), endRound file t siRef r m m (roundEntry de m m) (bo_ptr r) s1)"
  proof -
    have "getFileBlockAtOffsetLocked e file T (wrap64 (int off + 0)) blockWrite s = (Inr r, s1)" using run w64 by simp
    from writeRound_run[OF this b(1) cp, of t uid T "bo_ptr r" s1 siRef de] show ?thesis using full b(2,5) same by simp
  qed
  moreover have wm: "wMid N e s1 file t T f cs m i (bo_block r)"
    by (rule wMid_locate[OF w1 ind loc il(1)]) (use hB ind located_ne[OF w1 loc il(1) Tl ind] in auto)
  have "roundTo N e s1 file t f m T cs (endRound file t siRef r m m (roundEntry de m m) (bo_ptr r) s1)"
    unfolding r(1) by (rule wMid_endRound(1)[OF wm cs refl]) (simp add: r)
  ultimately show ?thesis by (auto simp: roundTo_def roundEntry_def)
qed

lemma writeLoop_stuck:
  assumes big: "0 \<le> bs_maxSize (fe_splitter e)" "bs_maxSize (fe_splitter e) < int m"
    and i: "Suc (chunk_index m cs off) < length cs" and past: "Suc (chunk_index m cs off) * m < off + length d"
    and fits: "in64 (int (max (length (concat cs)) (off + length d)))" and d: "d \<noteq> []"
  shows "wInv N e s file t T f cs m \<Longrightarrow> \<exists>s'. writeLoop fuel e file t uid siRef d (int off) T de 0 ptrs s = (Inl (Panic OutOfFuel), s')"
proof (induction fuel arbitrary: s f ptrs)
  case 0
  then show ?case using d by simp
next
  case (Suc fuel)
  from writeRound_stuck[OF Suc.prems big refl i past fits, of uid siRef de] obtain ptr s' f' where
    "writeRound e file t uid siRef d (int off) T de 0 s = (Inr (T, de, 0, ptr), s')" "wInv N e s' file t T f' cs m" by blast
  then show ?case using Suc.IH[of s' f' "ptrs @ [ptr]"] d by simp
qed

text \<open>
  C32: A write can hang. When the blocks of a file are larger than the splitter would make them now, as after the
  maximum block size has been lowered, a write across the end of a block that is not the last copies nothing in
  every round: the loop of \<open>writeDataLocked\<close> runs out of any amount of fuel.
\<close>

theorem fbo_Write_hangs:
  assumes ok: "writable N e s file m F" and big: "0 \<le> bs_maxSize (fe_splitter e)" "bs_maxSize (fe_splitter e) < int m"
    and uid: "fe_user e = Inr uid" "List.member (fe_writers e) uid"
    and off: "in64 (int off + int (length d))" "(of_nat (off + length d) :: uint64) \<le> fe_maxFileBytes e"
    and cross: "Suc (off div m) * m < length F" "Suc (off div m) * m < off + length d"
  shows "\<exists>s'. fbo_Write fuel e file d (int off) s = (Inl (Panic OutOfFuel), s')"
proof -
  let ?br = "branchOf file"
  from ok have fok: "file_ok e s file m" and F: "fileBytes e s file = Some F" and tmp: "temp_ok N e s (fileKeys e s file)"
    and en: "entry_ok N e s file (of_nat (length F))" and valid: "path_isValid file"
    by (simp_all add: writable_def file_ok_def env_ok_def)
  from openForWrite[OF fok F tmp] obtain t T g cs s1 where t: "tailPointer file = Some t"
    and get: "getFileLocked e file blockWrite s = (Inr T, s1)" and gr: "grew e s s1" and w: "wInv N e s1 file t T g cs m"
    and cs: "concat cs = F" and in2: "in64 (int (length F))" by blast
  have st: "store_ok e s1" "dirty_ok s1" "codec_ok e" "chunks_ok m cs" using w by (simp_all add: wInv_def env_ok_def fileShape_def)
  from getDirtyEntry_correct[OF st(1-3) grew_entry_ok(1)[OF gr fok en]] obtain de s2 where
    ent: "getDirtyEntryLocked e file s1 = (Inr de, s2)" and gr2: "grew e s1 s2" by blast
  from getOrCreateSyncInfo_cases[of de s2] obtain u where s3: "getOrCreateSyncInfoLocked de s2 = s2\<lparr>fs_unrefCache := u\<rparr>" by blast
  have w3: "wInv N e (s2\<lparr>fs_unrefCache := u\<rparr>) file t T g cs m" using grew_wInv[OF gr2 w] by simp
  have "length F \<le> length cs * m"
    using length_concat_chunks[OF st(4)] st(4) cs by (cases cs) (auto simp: chunks_ok_def)
  then have "Suc (off div m) * m < length cs * m" using cross(1) by simp
  then have i: "Suc (off div m) < length cs" using mult_less_cancel2 by blast
  then have idx: "chunk_index m cs off = off div m" by (simp add: chunk_index_def)
  have fits: "in64 (int (max (length (concat cs)) (off + length d)))" using off(1) in2 cs by (simp add: max_def)
  have "off < Suc (off div m) * m" using st(4) dividend_less_div_times[of m off] by (simp add: chunks_ok_def)
  then have "d \<noteq> []" using cross(2) by auto
  from writeLoop_stuck[OF big i[folded idx] cross(2)[folded idx] fits this w3, of fuel uid "entryRef de" de "[]"] obtain s' where
    "writeLoop fuel e file t uid (entryRef de) d (int off) T de 0 [] (s2\<lparr>fs_unrefCache := u\<rparr>) = (Inl (Panic OutOfFuel), s')" by blast
  then have "writeDataLocked fuel e file d (int off) s = (Inl (Panic OutOfFuel), s')"
    using get ent t uid off s3 by (simp add: writeDataLocked_def GetCurrentUID_def Let_def tailA_def)
  then show ?thesis using valid by (simp add: fbo_Write_def pathFromNodeForBlockWriteLocked_def endWrite_def)
qed

definition fx_child :: "byte list \<Rightarrow> FileBlock" where
  "fx_child c = NewFileBlock\<lparr>fb_Contents := c\<rparr>"

definition fx_top :: FileBlock where
  "fx_top = NewFileBlock\<lparr>fb_IsInd := True,
     fb_IPtrs := [\<lparr>ifp_BlockInfo = \<lparr>bi_BlockPointer = fx_ptr 2, bi_EncodedSize = 9\<rparr>, ifp_Off = 0\<rparr>,
                  \<lparr>ifp_BlockInfo = \<lparr>bi_BlockPointer = fx_ptr 3, bi_EncodedSize = 9\<rparr>, ifp_Off = 4\<rparr>]\<rparr>"

abbreviation fx_two :: "int \<Rightarrow> fboEnv" where
  "fx_two k \<equiv> fx_env 6 [1 \<mapsto> fx_top, 2 \<mapsto> fx_child [1, 2, 3, 4], 3 \<mapsto> fx_child [5, 6]] k"

lemma fx_two_writable: "writable 100 (fx_two k) fx_state fx_path 4 [1, 2, 3, 4, 5, 6]"
proof -
  let ?files = "[1 \<mapsto> fx_top, 2 \<mapsto> fx_child [1, 2, 3, 4], 3 \<mapsto> fx_child [5, 6]]" and ?cs = "[[1, 2, 3, 4], [5, 6 :: byte]]"
  have ips: "fb_IsInd fx_top" "map ipPtr (fb_IPtrs fx_top) = [fx_ptr 2, fx_ptr 3]" "map ifp_Off (fb_IPtrs fx_top) = [0, 4]" "length (fb_IPtrs fx_top) = 2"
    by (simp_all add: fx_top_def ipPtr_def)
  have nth: "ipPtr (fb_IPtrs fx_top ! i) = [fx_ptr 2, fx_ptr 3] ! i" "ifp_Off (fb_IPtrs fx_top ! i) = [0, 4] ! i" if "i < 2" for i
    using that ips by (metis length_map nth_map)+
  have v: "blockView (fx_two k) fx_state MasterBranch (fx_ptr 2) emptyFile = Inr (FileB (fx_child [1, 2, 3, 4]))"
    "blockView (fx_two k) fx_state MasterBranch (fx_ptr 3) emptyFile = Inr (FileB (fx_child [5, 6]))"
    by (simp_all add: fx_view fx_get_file)
  have child: "ifp_Off (fb_IPtrs fx_top ! i) = int (i * 4) \<and> childHas (fx_two k) fx_state MasterBranch (fb_IPtrs fx_top ! i) (?cs ! i)" if "i < length ?cs" for i
  proof -
    from that consider "i = 0" | "i = 1" by fastforce
    then show ?thesis using v by cases (simp_all add: nth childHas_def fx_child_def NewFileBlock_def)
  qed
  have keys: "map (ipKey MasterBranch) (fb_IPtrs fx_top) = [dirtyID (fx_ptr 2) MasterBranch, dirtyID (fx_ptr 3) MasterBranch]"
    using ips(2) by (simp add: fx_top_def ipKey_def)
  then have "ipKey MasterBranch ` set (fb_IPtrs fx_top) = {dirtyID (fx_ptr 2) MasterBranch, dirtyID (fx_ptr 3) MasterBranch}"
    by (metis empty_set list.set_map list.simps(15))
  then have sh: "fileShape (fx_two k) fx_state MasterBranch (fx_ptr 1) 4 fx_top ?cs"
    using child keys ips by (simp add: fileShape_def chunks_ok_def dirtyID_def less_Suc_eq numeral_2_eq_2)
  have "\<exists>n. ipPtr ip = fx_ptr n \<and> 0 < n \<and> n < 100" if "ip \<in> set (fb_IPtrs fx_top)" for ip
    using that by (auto simp: fx_top_def ipPtr_def intro: exI[of _ 2] exI[of _ 3])
  from fx_writable[OF _ sh _ _ this] show ?thesis by simp
qed

theorem fbo_Write_hangs_witness:
  "\<exists>s'. fbo_Write 1000 (fx_two 3) fx_path [7, 8, 9] 2 fx_state = (Inl (Panic OutOfFuel), s')"
  using fbo_Write_hangs[OF fx_two_writable, of 3 "''alice''" 2 "[7, 8, 9]" 1000]
  by (simp add: fx_env_def in64_def)

text \<open>
  C33: A truncate to a size of \<open>2^63\<close> or more panics, as the size turns negative when it becomes an offset: the
  index into the block pointers of the file, or the slice of its only block, is out of range.
\<close>

theorem fbo_Truncate_huge_panics:
  assumes ok: "writable N e s file m F" and uid: "fe_user e = Inr uid" "List.member (fe_writers e) uid" and sz: "sint sz < 0"
  shows "\<exists>p s'. fbo_Truncate fuel e file sz s = (Inl (Panic p), s')"
proof -
  let ?br = "branchOf file"
  from ok have fok: "file_ok e s file m" and F: "fileBytes e s file = Some F" and tmp: "temp_ok N e s (fileKeys e s file)"
    and en: "entry_ok N e s file (of_nat (length F))" and valid: "path_isValid file"
    by (simp_all add: writable_def file_ok_def env_ok_def)
  from openForWrite[OF fok F tmp] obtain t T g cs s1 where t: "tailPointer file = Some t"
    and get: "getFileLocked e file blockWrite s = (Inr T, s1)" and gr: "grew e s s1" and w: "wInv N e s1 file t T g cs m"
    and cs: "concat cs = F" and in2: "in64 (int (length F))" by blast
  have g: "fileAt s1 T = g" and sh: "fileShape e s1 ?br t m g cs" and lv: "0 < fe_levels e" and st: "store_ok e s1" "dirty_ok s1" "codec_ok e"
    using w by (simp_all add: wInv_def fileAt_def env_ok_def)
  obtain n where n: "fe_levels e = Suc n" using lv gr0_implies_Suc by blast
  have "\<exists>p s'. truncateLocked fuel e file sz s = (Inl (Panic p), s')"
  proof (cases "fb_IsInd g")
    case True
    then have len: "length (fb_IPtrs g) = length cs" "0 < length cs" and off: "ifp_Off (fb_IPtrs g ! 0) = 0"
      using sh by (auto simp: fileShape_def chunks_ok_def)
    then obtain ip ips where "fb_IPtrs g = ip # ips" "ifp_Off ip = 0" by (cases "fb_IPtrs g") auto
    then have "nextIndex (fb_IPtrs g) (sint sz) 0 l < 0" for l using sz by simp
    then have "getFileBlockAtOffsetLocked e file T (sint sz) blockWrite s1 = (Inl (Panic IndexPanic), s1)"
      using True g n t by (simp add: getFileBlockAtOffsetLocked_def tailA_def Let_def)
    then show ?thesis using get uid t by (simp add: truncateLocked_def GetCurrentUID_def tailA_def nilOnError_def Let_def)
  next
    case False
    define r where "r = \<lparr>bo_ptr = t, bo_parentBlock = None, bo_indexInParent = 0, bo_block = T, bo_more = False, bo_startOff = 0\<rparr>"
    have loc: "getFileBlockAtOffsetLocked e file T (sint sz) blockWrite s1 = (Inr r, s1)"
      using False g n t by (simp add: getFileBlockAtOffsetLocked_def tailA_def Let_def r_def)
    have c: "fb_Contents g = F" using False sh cs by (simp add: fileShape_def)
    from getDirtyEntry_correct[OF st grew_entry_ok(1)[OF gr fok en]] obtain de s2 where
      ent: "getDirtyEntryLocked e file s1 = (Inr de, s2)" by blast
    have "wrap64 (sint sz) = sint sz" using sint_ge[of sz] sint_lt[of sz] by (intro wrap64_id) (simp add: in64_def)
    then have "shrinkFile e file t T r sz s1 = (Inl (Panic SlicePanic), s2)" using ent sz by (simp add: shrinkFile_def r_def Let_def)
    then show ?thesis using get uid t loc c in2 g sz
      by (simp add: truncateLocked_def GetCurrentUID_def tailA_def nilOnError_def r_def Let_def)
  qed
  then show ?thesis using valid by (auto simp: fbo_Truncate_def pathFromNodeForBlockWriteLocked_def endWrite_def)
qed

theorem fbo_Truncate_huge_panics_witness:
  "\<exists>p s'. fbo_Truncate 9 fx_small fx_path 0xFFFFFFFFFFFFFFFF fx_state = (Inl (Panic p), s')"
proof -
  have neg: "sint (0xFFFFFFFFFFFFFFFF :: uint64) < 0" by code_simp
  show ?thesis by (rule fbo_Truncate_huge_panics[OF fx_small_writable _ _ neg, of "''alice''"]) (simp_all add: fx_env_def)
qed

text \<open>
  A write that the user is not allowed to make, or that would make the file too large, is refused with an
  error and changes nothing. The size is checked after it has wrapped around.
\<close>

theorem fbo_Write_refused:
  assumes "path_isValid file" and "fe_user e = Inr uid"
    and "\<not> List.member (fe_writers e) uid \<or> fe_maxFileBytes e < of_int (wrap64 (off + int (length d)))"
  shows "\<exists>er. fbo_Write fuel e file d off s = (Inl (Error er), s\<lparr>fs_doDeferWrite := False\<rparr>)"
  using assms
  by (auto simp: fbo_Write_def pathFromNodeForBlockWriteLocked_def writeDataLocked_def GetCurrentUID_def endWrite_def Let_def)

theorem fbo_Write_refused_witness:
  "\<exists>er. fbo_Write 9 (fx_small\<lparr>fe_writers := [''bob'']\<rparr>) fx_path [7] 0 fx_state = (Inl (Error er), fx_state\<lparr>fs_doDeferWrite := False\<rparr>)"
  using fbo_Write_refused[of fx_path "fx_small\<lparr>fe_writers := [''bob'']\<rparr>" "''alice''" 0 "[7]" 9 fx_state]
  by (simp add: fx_env_def)

text \<open>
  Writing no bytes leaves the file as it is, but what is recorded for the next sync is a truncate of the file
  at the offset, since a range of length 0 stands for a truncate.
\<close>

theorem fbo_Write_empty_truncates:
  assumes "writable N e s file m F" and "write_ok e m off []" and "off div m \<le> fuel" and "fs_tempCount s + 2 * (off div m) \<le> N"
  shows "\<exists>s' w. fbo_Write fuel e file [] (int off) s = (Inr (), s') \<and> fileBytes e s' file = Some F \<and>
    pendingWrites s' file = pendingWrites s file @ [w] \<and> isTruncate w \<and> wr_Off w = of_nat off"
  using Write_correct[OF assms(1,2), of fuel] assms(3,4) by (auto simp: writable_def flat_write_def isTruncate_def)

theorem fbo_Write_empty_truncates_witness:
  "\<exists>s' w. fbo_Write 0 fx_small fx_path [] 1 fx_state = (Inr (), s') \<and> fileBytes fx_small s' fx_path = Some [1, 2, 3] \<and>
    pendingWrites s' fx_path = pendingWrites fx_state fx_path @ [w] \<and> isTruncate w \<and> wr_Off w = 1"
  using fbo_Write_empty_truncates[OF fx_small_writable fx_write_ok[of 1 "[]"], of 0] by simp

end
