(* ===== verification/Kbfs_Strings.thy ===== *)
theory Kbfs_Strings
  imports Kbfs_Data_Types "HOL-Library.Char_ord" "HOL-Library.List_Lexorder"
begin

text \<open>
  What the components use of the Go packages \<open>strings\<close> and \<open>path/filepath\<close> (on Unix). A string is the list of its
  bytes as characters, and strings are ordered byte by byte.
\<close>

section \<open>Splitting and joining\<close>

text \<open>\<open>strings.Split\<close> with a separator of one character.\<close>

fun strings_Split :: "string \<Rightarrow> char \<Rightarrow> string list" where
  "strings_Split [] c = [[]]"
| "strings_Split (x # xs) c =
     (if x = c then [] # strings_Split xs c
      else (case strings_Split xs c of y # ys \<Rightarrow> (x # y) # ys))"

lemma strings_Split_not_Nil [simp]: "strings_Split s c \<noteq> []"
  by (induction s) (auto split: list.splits)

lemma strings_Split_append: "strings_Split (s @ c # t) c = strings_Split s c @ strings_Split t c"
proof (induction s)
  case (Cons x s)
  show ?case
  proof (cases "strings_Split s c")
    case Nil
    then show ?thesis by simp
  next
    case (Cons y ys)
    then show ?thesis using Cons.IH by simp
  qed
qed simp

lemma strings_Split_single: "c \<notin> set s \<Longrightarrow> strings_Split s c = [s]"
  by (induction s) auto

lemma strings_Split_free: "t \<in> set (strings_Split s c) \<Longrightarrow> c \<notin> set t"
  by (induction s arbitrary: t) (auto split: list.splits if_splits)

lemma strings_Join_Split [simp]: "strings_Join (strings_Split s c) [c] = s"
proof (induction s)
  case (Cons x s)
  obtain y ys where e: "strings_Split s c = y # ys" by (cases "strings_Split s c") auto
  show ?case
  proof (cases ys)
    case Nil
    then show ?thesis using Cons e by auto
  next
    case (Cons z zs)
    then show ?thesis using Cons.IH e by auto
  qed
qed simp

lemma strings_Split_Join:
  assumes "ss \<noteq> []" and "\<forall>s \<in> set ss. c \<notin> set s"
  shows "strings_Split (strings_Join ss [c]) c = ss"
  using assms
proof (induction ss "[c]" rule: strings_Join.induct)
  case (3 s t ss)
  then show ?case using strings_Split_append[of s c "strings_Join (t # ss) [c]"] by (simp add: strings_Split_single)
qed (auto simp: strings_Split_single)

lemma strings_Join_inj:
  assumes "\<forall>s \<in> set ss. c \<notin> set s" and "\<forall>s \<in> set ts. c \<notin> set s" and "ss \<noteq> []" and "ts \<noteq> []"
    and "strings_Join ss [c] = strings_Join ts [c]"
  shows "ss = ts"
proof -
  have "ss = strings_Split (strings_Join ts [c]) c"
    using strings_Split_Join[OF assms(3,1)] unfolding assms(5) by (rule sym)
  also have "\<dots> = ts" by (rule strings_Split_Join[OF assms(4,2)])
  finally show ?thesis .
qed

section \<open>File paths\<close>

text \<open>\<open>filepath.Clean\<close>: one component after the other, and then the parts are joined again.\<close>

definition cleanStep :: "bool \<Rightarrow> string list \<Rightarrow> string \<Rightarrow> string list" where
  "cleanStep rooted out cmp =
     (if cmp = [] \<or> cmp = ''.'' then out
      else if cmp = ''..'' then
        (if out \<noteq> [] \<and> last out \<noteq> ''..'' then butlast out
         else if rooted then out else out @ [cmp])
      else out @ [cmp])"

definition filepath_Clean :: "string \<Rightarrow> string" where
  "filepath_Clean p =
     (if p = [] then ''.''
      else let rooted = (hd p = CHR ''/'');
               out = foldl (cleanStep rooted) [] (strings_Split p CHR ''/'')
           in if rooted then CHR ''/'' # strings_Join out ''/''
              else if out = [] then ''.'' else strings_Join out ''/'')"

definition filepath_Join :: "string list \<Rightarrow> string" where
  "filepath_Join elems =
     (case dropWhile (\<lambda>e. e = []) elems of [] \<Rightarrow> [] | es \<Rightarrow> filepath_Clean (strings_Join es ''/''))"

definition plainName :: "string \<Rightarrow> bool" where
  "plainName n \<longleftrightarrow> n \<noteq> [] \<and> n \<noteq> ''.'' \<and> n \<noteq> ''..'' \<and> CHR ''/'' \<notin> set n"

lemma cleanStep_plain [simp]: "plainName n \<Longrightarrow> cleanStep rooted out n = out @ [n]"
  by (simp add: cleanStep_def plainName_def)

lemma cleanStep_set: "set (cleanStep rooted out cmp) \<subseteq> set out \<union> {cmp}"
  by (auto simp: cleanStep_def dest: in_set_butlastD)

lemma clean_set: "set (foldl (cleanStep rooted) out comps) \<subseteq> set out \<union> set comps"
proof (induction comps arbitrary: out)
  case (Cons c comps)
  then show ?case using cleanStep_set[of rooted out c] by fastforce
qed simp

text \<open>A directory followed by two plain names: the names are the end of the path.\<close>

lemma filepath_Join_names:
  "\<exists>out. (\<forall>s \<in> set out. CHR ''/'' \<notin> set s) \<and>
    (\<forall>a b. plainName a \<longrightarrow> plainName b \<longrightarrow>
       filepath_Join [dir, a, b] = (if dir \<noteq> [] \<and> hd dir = CHR ''/'' then ''/'' else []) @ strings_Join (out @ [a, b]) ''/'')"
proof (cases "dir = []")
  case True
  then show ?thesis
    by (intro exI[of _ "[]"]) (auto simp: filepath_Join_def filepath_Clean_def plainName_def strings_Split_append strings_Split_single
        cleanStep_def hd_append Let_def dest: hd_in_set)
next
  case False
  let ?r = "hd dir = CHR ''/''"
  let ?out = "foldl (cleanStep ?r) [] (strings_Split dir CHR ''/'')"
  have "CHR ''/'' \<notin> set s" if "s \<in> set ?out" for s
    using clean_set[of ?r "[]" "strings_Split dir CHR ''/''"] that strings_Split_free by fastforce
  moreover have "filepath_Join [dir, a, b] = (if dir \<noteq> [] \<and> ?r then ''/'' else []) @ strings_Join (?out @ [a, b]) ''/''"
    if p: "plainName a" "plainName b" for a b
  proof -
    from p have ab: "CHR ''/'' \<notin> set a" "CHR ''/'' \<notin> set b" by (auto simp: plainName_def)
    have "strings_Split (dir @ CHR ''/'' # a @ CHR ''/'' # b) CHR ''/'' = strings_Split dir CHR ''/'' @ [a, b]"
      using ab by (simp add: strings_Split_append strings_Split_single)
    then show ?thesis using False p by (simp add: filepath_Join_def filepath_Clean_def Let_def)
  qed
  ultimately show ?thesis by (intro exI[of _ ?out]) blast
qed

lemma filepath_Join_inj:
  assumes "plainName a" "plainName b" "plainName a'" "plainName b'"
    and "filepath_Join [dir, a, b] = filepath_Join [dir, a', b']"
  shows "a = a' \<and> b = b'"
proof -
  from filepath_Join_names[of dir] obtain out where out: "\<forall>s \<in> set out. CHR ''/'' \<notin> set s"
    and j: "\<And>a b. plainName a \<Longrightarrow> plainName b \<Longrightarrow>
       filepath_Join [dir, a, b] = (if dir \<noteq> [] \<and> hd dir = CHR ''/'' then ''/'' else []) @ strings_Join (out @ [a, b]) ''/''"
    by blast
  have "strings_Join (out @ [a, b]) ''/'' = strings_Join (out @ [a', b']) ''/''"
    using assms(5) j[OF assms(1,2)] j[OF assms(3,4)] by simp
  then have "out @ [a, b] = out @ [a', b']"
    by (rule strings_Join_inj[rotated 4]) (use out assms in \<open>auto simp: plainName_def\<close>)
  then show ?thesis by simp
qed

end
