(* ===== verification/Kbfs_Storage.thy ===== *)
theory Kbfs_Storage
  imports Kbfs_Strings "HOL-Library.AList"
begin

text \<open>
  What the local servers use of files (Go's \<open>os\<close> and \<open>ioutil\<close>) and of LevelDB databases
  (vendor/github.com/syndtr/goleveldb): stores of values under keys. Any call may fail; a failed write leaves the
  old value or something else behind.
\<close>

datatype kv_error = NotFound | IOError string

record ('k, 'v) kvStore =
  kv_entries :: "('k \<times> 'v) list"
  kv_calls :: nat

record 'v kvEnv =
  kv_fault :: "nat \<Rightarrow> string option"
  kv_torn :: "nat \<Rightarrow> 'v option"

definition kvTick :: "('k, 'v) kvStore \<Rightarrow> ('k, 'v) kvStore" where
  "kvTick s = s\<lparr>kv_calls := Suc (kv_calls s)\<rparr>"

definition kvGet :: "'v kvEnv \<Rightarrow> 'k \<Rightarrow> (('k, 'v) kvStore, kv_error, 'v) act" where
  "kvGet e k s =
     (case kv_fault e (kv_calls s) of
        Some er \<Rightarrow> failA (Error (IOError er)) (kvTick s)
      | None \<Rightarrow> (case map_of (kv_entries s) k of
                   None \<Rightarrow> failA (Error NotFound) (kvTick s) | Some v \<Rightarrow> retA v (kvTick s)))"

definition kvPut :: "'v kvEnv \<Rightarrow> 'k \<Rightarrow> 'v \<Rightarrow> (('k, 'v) kvStore, kv_error, unit) act" where
  "kvPut e k v s =
     (case kv_fault e (kv_calls s) of
        Some er \<Rightarrow>
          failA (Error (IOError er))
            (case kv_torn e (kv_calls s) of
               None \<Rightarrow> kvTick s | Some v' \<Rightarrow> (kvTick s)\<lparr>kv_entries := AList.update k v' (kv_entries s)\<rparr>)
      | None \<Rightarrow> retA () ((kvTick s)\<lparr>kv_entries := AList.update k v (kv_entries s)\<rparr>))"

definition kvDelete :: "'v kvEnv \<Rightarrow> 'k \<Rightarrow> (('k, 'v) kvStore, kv_error, unit) act" where
  "kvDelete e k s =
     (case kv_fault e (kv_calls s) of
        Some er \<Rightarrow> failA (Error (IOError er)) (kvTick s)
      | None \<Rightarrow> retA () ((kvTick s)\<lparr>kv_entries := AList.delete k (kv_entries s)\<rparr>))"

text \<open>A call that only may fail: here \<open>os.MkdirAll\<close>, as directories are not part of the model.\<close>

definition kvNop :: "'v kvEnv \<Rightarrow> (('k, 'v) kvStore, kv_error, unit) act" where
  "kvNop e s =
     (case kv_fault e (kv_calls s) of
        Some er \<Rightarrow> failA (Error (IOError er)) (kvTick s) | None \<Rightarrow> retA () (kvTick s))"

text \<open>The writes of a batch, all or none.\<close>

definition kvWrite :: "'v kvEnv \<Rightarrow> ('k \<times> 'v) list \<Rightarrow> (('k, 'v) kvStore, kv_error, unit) act" where
  "kvWrite e batch s =
     (case kv_fault e (kv_calls s) of
        Some er \<Rightarrow> failA (Error (IOError er)) (kvTick s)
      | None \<Rightarrow> retA () ((kvTick s)\<lparr>kv_entries := foldl (\<lambda>es (k, v). AList.update k v es) (kv_entries s) batch\<rparr>))"

text \<open>What an iterator over the keys from \<open>start\<close> up to and without \<open>limit\<close> yields: the entries in the order of their keys.\<close>

definition kvRange ::
  "'v kvEnv \<Rightarrow> ('k::linorder) \<Rightarrow> 'k \<Rightarrow> (('k, 'v) kvStore, kv_error, ('k \<times> 'v) list) act" where
  "kvRange e start limit s =
     (case kv_fault e (kv_calls s) of
        Some er \<Rightarrow> failA (Error (IOError er)) (kvTick s)
      | None \<Rightarrow> retA (sort_key fst (filter (\<lambda>(k, v). start \<le> k \<and> k < limit) (kv_entries s))) (kvTick s))"

definition kvAll :: "'v kvEnv \<Rightarrow> (('k::linorder, 'v) kvStore, kv_error, ('k \<times> 'v) list) act" where
  "kvAll e s =
     (case kv_fault e (kv_calls s) of
        Some er \<Rightarrow> failA (Error (IOError er)) (kvTick s)
      | None \<Rightarrow> retA (sort_key fst (kv_entries s)) (kvTick s))"

section \<open>Handling errors\<close>

text \<open>The Go pattern \<open>x, err := m; if err != nil ...\<close>: \<open>h\<close> is what happens with an error, \<open>k\<close> is the rest.\<close>

definition handleA ::
  "('s, 'e, 'a) act \<Rightarrow> ('e \<Rightarrow> ('s, 'f, 'b) act) \<Rightarrow> ('a \<Rightarrow> ('s, 'f, 'b) act) \<Rightarrow> ('s, 'f, 'b) act" where
  "handleA m h k s =
     (case m s of
        (Inr x, s') \<Rightarrow> k x s' | (Inl (Error er), s') \<Rightarrow> h er s' | (Inl (Panic er), s') \<Rightarrow> h er s')"

text \<open>A call on a part of the state.\<close>

definition onA :: "('s \<Rightarrow> 'p) \<Rightarrow> ('p \<Rightarrow> 's \<Rightarrow> 's) \<Rightarrow> ('p, 'e, 'a) act \<Rightarrow> ('s, 'e, 'a) act" where
  "onA get put m s = (case m (get s) of (r, p) \<Rightarrow> (r, put p s))"

section \<open>Stores that do not fail\<close>

definition kvReliable :: "'v kvEnv \<Rightarrow> bool" where
  "kvReliable e \<longleftrightarrow> (\<forall>n. kv_fault e n = None)"

definition kvLookup :: "('k, 'v) kvStore \<Rightarrow> 'k \<rightharpoonup> 'v" where
  "kvLookup s = map_of (kv_entries s)"

definition kvDistinct :: "('k, 'v) kvStore \<Rightarrow> bool" where
  "kvDistinct s \<longleftrightarrow> distinct (map fst (kv_entries s))"

lemma kvTick_simps [simp]:
  "kvLookup (kvTick s) = kvLookup s" "kvDistinct (kvTick s) = kvDistinct s" "kv_entries (kvTick s) = kv_entries s"
  "kvLookup (s\<lparr>kv_entries := es\<rparr>) = map_of es" "kvDistinct (s\<lparr>kv_entries := es\<rparr>) = distinct (map fst es)"
  by (simp_all add: kvTick_def kvLookup_def kvDistinct_def)

lemma kv_reliable_run:
  assumes "kvReliable e"
  shows "kvGet e k s = (case kvLookup s k of None \<Rightarrow> (Inl (Error NotFound), kvTick s) | Some v \<Rightarrow> (Inr v, kvTick s))"
    and "kvPut e k v s = (Inr (), (kvTick s)\<lparr>kv_entries := AList.update k v (kv_entries s)\<rparr>)"
    and "kvDelete e k s = (Inr (), (kvTick s)\<lparr>kv_entries := AList.delete k (kv_entries s)\<rparr>)"
    and "kvNop e s = (Inr (), kvTick s)"
    and "kvWrite e batch s = (Inr (), (kvTick s)\<lparr>kv_entries := foldl (\<lambda>es (k, v). AList.update k v es) (kv_entries s) batch\<rparr>)"
  using assms
  by (auto simp: kvReliable_def kvGet_def kvPut_def kvDelete_def kvNop_def kvWrite_def kvLookup_def split: option.split)

lemma handleA_run [simp]:
  "m s = (Inr x, s') \<Longrightarrow> handleA m h k s = k x s'"
  "m s = (Inl (Error er), s') \<Longrightarrow> handleA m h k s = h er s'"
  by (simp_all add: handleA_def)

section \<open>What a call keeps\<close>

definition keepsA :: "('s \<Rightarrow> bool) \<Rightarrow> ('s, 'e, 'a) act \<Rightarrow> bool" where
  "keepsA P a \<longleftrightarrow> (\<forall>s. P s \<longrightarrow> P (snd (a s)))"

lemma keepsA_basic [intro, simp]: "keepsA P (retA x)" "keepsA P (failA f)" "keepsA P (readA g)" "keepsA P (theA f y)"
  by (auto simp: keepsA_def theA_def split: option.split)

lemma keepsA_bind: "keepsA P a \<Longrightarrow> (\<And>x. keepsA P (k x)) \<Longrightarrow> keepsA P (bindA a k)"
  by (auto simp: keepsA_def bindA_def split: prod.split sum.split)

lemma keepsA_fold: "(\<And>x y. y \<in> set ys \<Longrightarrow> keepsA P (f x y)) \<Longrightarrow> keepsA P (foldA f x ys)"
  by (induction ys arbitrary: x) (auto intro!: keepsA_bind)

end
