(* ===== verification/Kbfs_Block_Server.thy ===== *)
theory Kbfs_Block_Server
  imports Kbfs_Storage
begin

text \<open>
  libkbfs/bserver\_local\_storage.go and bserver\_local.go: the local block server on its three storages, in memory,
  in files and in a LevelDB database. A block is kept with its references, each live or archived, until the last
  one is removed.
\<close>

section \<open>Entries and errors\<close>

datatype blockRefLocalStatus = noBlockRef | liveBlockRef | archivedBlockRef

record blockEntry =
  be_BlockData :: "byte list"
  be_Refs :: "(BlockRefNonce \<times> blockRefLocalStatus) list"
  be_KeyServerHalf :: "byte list"
  be_Tlf :: TlfID

definition zeroBlockEntry :: blockEntry where
  "zeroBlockEntry = \<lparr>be_BlockData = [], be_Refs = [], be_KeyServerHalf = [], be_Tlf = NullTlfID\<rparr>"

datatype bserver_error =
    BServerErrorBlockNonExistent string
  | BServerErrorBlockArchived string
  | NonZeroRefNonceError
  | GetAllNotImplemented
  | StorageIOError string
  | StorageCodecError string
  | SliceBoundsPanic

definition BlockRefNonce_String :: "BlockRefNonce \<Rightarrow> string" where
  "BlockRefNonce_String nonce =
     EncodeToString (map (\<lambda>i. ucast (drop_bit (8 * i) nonce)) [7, 6, 5, 4, 3, 2, 1, 0])"

definition cannotBe :: "string \<Rightarrow> string \<Rightarrow> bserver_error" where
  "cannotBe what done = BServerErrorBlockNonExistent (''Block ID '' @ what @ '' doesn't exist and cannot be '' @ done)"

definition noReference :: "BlockID \<Rightarrow> bserver_error" where
  "noReference i = cannotBe (BlockID_String i) ''referenced.''"

definition noArchive :: "BlockID \<Rightarrow> bserver_error" where
  "noArchive i = cannotBe (BlockID_String i) ''archived.''"

definition noArchiveRef :: "BlockID \<Rightarrow> BlockRefNonce \<Rightarrow> bserver_error" where
  "noArchiveRef i nonce = cannotBe (BlockID_String i @ '' (ref '' @ BlockRefNonce_String nonce @ '')'') ''archived.''"

definition alreadyArchived :: "BlockID \<Rightarrow> bserver_error" where
  "alreadyArchived i =
     BServerErrorBlockArchived (''Block ID '' @ BlockID_String i @ '' has been archived and cannot be referenced.'')"

text \<open>The changes to the references of an entry, which the three storages share.\<close>

definition hasLiveRef :: "blockEntry \<Rightarrow> bool" where
  "hasLiveRef entry = list_ex (\<lambda>(_, status). status = liveBlockRef) (be_Refs entry)"

definition setRef :: "BlockRefNonce \<Rightarrow> blockRefLocalStatus \<Rightarrow> blockEntry \<Rightarrow> blockEntry" where
  "setRef nonce status entry = entry\<lparr>be_Refs := AList.update nonce status (be_Refs entry)\<rparr>"

definition deleteRef :: "BlockRefNonce \<Rightarrow> blockEntry \<Rightarrow> blockEntry" where
  "deleteRef nonce entry = entry\<lparr>be_Refs := AList.delete nonce (be_Refs entry)\<rparr>"

section \<open>The storage interface\<close>

type_synonym refStatuses = "(BlockID \<times> (BlockRefNonce \<times> blockRefLocalStatus) list) list"

record 's bserverLocalStorage =
  st_get :: "BlockID \<Rightarrow> ('s, bserver_error, blockEntry) act"
  st_getAll :: "TlfID \<Rightarrow> ('s, bserver_error, refStatuses) act"
  st_put :: "BlockID \<Rightarrow> blockEntry \<Rightarrow> ('s, bserver_error, unit) act"
  st_addReference :: "BlockID \<Rightarrow> BlockRefNonce \<Rightarrow> ('s, bserver_error, unit) act"
  st_removeReference :: "BlockID \<Rightarrow> BlockRefNonce \<Rightarrow> ('s, bserver_error, int) act"
  st_archiveReference :: "BlockID \<Rightarrow> BlockRefNonce \<Rightarrow> ('s, bserver_error, unit) act"

section \<open>In memory\<close>

type_synonym bserverMemStorage = "(BlockID \<times> blockEntry) list"

definition makeBserverMemStorage :: bserverMemStorage where
  "makeBserverMemStorage = []"

definition mem_get :: "BlockID \<Rightarrow> (bserverMemStorage, bserver_error, blockEntry) act" where
  "mem_get i s =
     (case map_of s i of
        None \<Rightarrow> failA (Error (BServerErrorBlockNonExistent [])) s
      | Some entry \<Rightarrow> retA entry s)"

definition mem_getAll :: "TlfID \<Rightarrow> (bserverMemStorage, bserver_error, refStatuses) act" where
  "mem_getAll tlf s = retA (map (\<lambda>(i, entry). (i, be_Refs entry)) (filter (\<lambda>(_, entry). be_Tlf entry = tlf) s)) s"

definition mem_put :: "BlockID \<Rightarrow> blockEntry \<Rightarrow> (bserverMemStorage, bserver_error, unit) act" where
  "mem_put i entry s = retA () (AList.update i entry s)"

definition mem_addReference :: "BlockID \<Rightarrow> BlockRefNonce \<Rightarrow> (bserverMemStorage, bserver_error, unit) act" where
  "mem_addReference i nonce s =
     (case map_of s i of
        None \<Rightarrow> failA (Error (noReference i)) s
      | Some entry \<Rightarrow>
          if hasLiveRef entry then retA () (AList.update i (setRef nonce liveBlockRef entry) s)
          else failA (Error (alreadyArchived i)) s)"

definition mem_removeReference :: "BlockID \<Rightarrow> BlockRefNonce \<Rightarrow> (bserverMemStorage, bserver_error, int) act" where
  "mem_removeReference i nonce s =
     (case map_of s i of
        None \<Rightarrow> retA 0 s
      | Some entry \<Rightarrow>
          (let entry = deleteRef nonce entry
           in retA (int (length (be_Refs entry)))
                (if be_Refs entry = [] then AList.delete i s else AList.update i entry s)))"

definition mem_archiveReference :: "BlockID \<Rightarrow> BlockRefNonce \<Rightarrow> (bserverMemStorage, bserver_error, unit) act" where
  "mem_archiveReference i nonce s =
     (case map_of s i of
        None \<Rightarrow> failA (Error (noArchive i)) s
      | Some entry \<Rightarrow>
          (case map_of (be_Refs entry) nonce of
             None \<Rightarrow> failA (Error (noArchiveRef i nonce)) s
           | Some _ \<Rightarrow> retA () (AList.update i (setRef nonce archivedBlockRef entry) s)))"

definition memStorage :: "bserverMemStorage bserverLocalStorage" where
  "memStorage =
     \<lparr>st_get = mem_get, st_getAll = mem_getAll, st_put = mem_put, st_addReference = mem_addReference,
      st_removeReference = mem_removeReference, st_archiveReference = mem_archiveReference\<rparr>"

section \<open>In files\<close>

text \<open>The codec is a parameter; \<open>'b\<close> are the encoded forms.\<close>

record 'b entryCodec =
  ec_Encode :: "blockEntry \<Rightarrow> string + 'b"
  ec_Decode :: "'b \<Rightarrow> string + blockEntry"

record 'b bserverFileStorage =
  bf_codec :: "'b entryCodec"
  bf_dir :: string
  bf_os :: "'b kvEnv"

type_synonym 'b files = "(string, 'b) kvStore"

definition buildPath :: "'b bserverFileStorage \<Rightarrow> BlockID \<Rightarrow> string option" where
  "buildPath c i =
     (let idStr = BlockID_String i
      in if length idStr < 4 then None else Some (filepath_Join [bf_dir c, take 4 idStr, drop 4 idStr]))"

definition pathA :: "'b bserverFileStorage \<Rightarrow> BlockID \<Rightarrow> ('s, bserver_error, string) act" where
  "pathA c i = theA (Panic SliceBoundsPanic) (buildPath c i)"

definition ioError :: "kv_error \<Rightarrow> bserver_error" where
  "ioError er = (case er of NotFound \<Rightarrow> StorageIOError ''not found'' | IOError m \<Rightarrow> StorageIOError m)"

text \<open>An entry that is not there is an error of its own, which the callers look for.\<close>

definition decodeEntry :: "'b entryCodec \<Rightarrow> 'b \<Rightarrow> ('s, bserver_error, blockEntry) act" where
  "decodeEntry codec buf =
     (case ec_Decode codec buf of Inl er \<Rightarrow> failA (Error (StorageCodecError er)) | Inr entry \<Rightarrow> retA entry)"

definition file_getLocked ::
  "'b bserverFileStorage \<Rightarrow> string \<Rightarrow> ('b files, bserver_error, 'a) act \<Rightarrow>
   (blockEntry \<Rightarrow> ('b files, bserver_error, 'a) act) \<Rightarrow> ('b files, bserver_error, 'a) act" where
  "file_getLocked c p missing k =
     handleA (kvGet (bf_os c) p)
       (\<lambda>er. if er = NotFound then missing else failA (Error (ioError er)))
       (\<lambda>buf. bindA (decodeEntry (bf_codec c) buf) k)"

definition file_get :: "'b bserverFileStorage \<Rightarrow> BlockID \<Rightarrow> ('b files, bserver_error, blockEntry) act" where
  "file_get c i =
     bindA (pathA c i) (\<lambda>p. file_getLocked c p (failA (Error (BServerErrorBlockNonExistent []))) retA)"

definition file_getAll :: "'b bserverFileStorage \<Rightarrow> TlfID \<Rightarrow> ('b files, bserver_error, refStatuses) act" where
  "file_getAll c tlf = failA (Error GetAllNotImplemented)"

definition file_putLocked ::
  "'b bserverFileStorage \<Rightarrow> string \<Rightarrow> blockEntry \<Rightarrow> ('b files, bserver_error, unit) act" where
  "file_putLocked c p entry =
     (case ec_Encode (bf_codec c) entry of
        Inl er \<Rightarrow> failA (Error (StorageCodecError er))
      | Inr entryBuf \<Rightarrow>
          handleA (kvNop (bf_os c)) (\<lambda>er. failA (Error (ioError er))) (\<lambda>_.
          handleA (kvPut (bf_os c) p entryBuf) (\<lambda>er. failA (Error (ioError er))) retA))"

definition file_put :: "'b bserverFileStorage \<Rightarrow> BlockID \<Rightarrow> blockEntry \<Rightarrow> ('b files, bserver_error, unit) act" where
  "file_put c i entry = bindA (pathA c i) (\<lambda>p. file_putLocked c p entry)"

definition file_addReference ::
  "'b bserverFileStorage \<Rightarrow> BlockID \<Rightarrow> BlockRefNonce \<Rightarrow> ('b files, bserver_error, unit) act" where
  "file_addReference c i nonce =
     bindA (pathA c i) (\<lambda>p.
       file_getLocked c p (failA (Error (noReference i))) (\<lambda>entry.
         if hasLiveRef entry then file_putLocked c p (setRef nonce liveBlockRef entry)
         else failA (Error (alreadyArchived i))))"

definition file_removeReference ::
  "'b bserverFileStorage \<Rightarrow> BlockID \<Rightarrow> BlockRefNonce \<Rightarrow> ('b files, bserver_error, int) act" where
  "file_removeReference c i nonce =
     bindA (pathA c i) (\<lambda>p.
       file_getLocked c p (retA 0) (\<lambda>entry.
         let entry = deleteRef nonce entry
         in if be_Refs entry = []
            then handleA (kvDelete (bf_os c) p) (\<lambda>er. failA (Error (ioError er))) (\<lambda>_. retA 0)
            else bindA (file_putLocked c p entry) (\<lambda>_. retA (int (length (be_Refs entry))))))"

definition file_archiveReference ::
  "'b bserverFileStorage \<Rightarrow> BlockID \<Rightarrow> BlockRefNonce \<Rightarrow> ('b files, bserver_error, unit) act" where
  "file_archiveReference c i nonce =
     bindA (pathA c i) (\<lambda>p.
       file_getLocked c p (failA (Error (noArchive i))) (\<lambda>entry.
         case map_of (be_Refs entry) nonce of
           None \<Rightarrow> failA (Error (noArchiveRef i nonce))
         | Some _ \<Rightarrow> file_putLocked c p (setRef nonce archivedBlockRef entry)))"

definition fileStorage :: "'b bserverFileStorage \<Rightarrow> 'b files bserverLocalStorage" where
  "fileStorage c =
     \<lparr>st_get = file_get c, st_getAll = file_getAll c, st_put = file_put c, st_addReference = file_addReference c,
      st_removeReference = file_removeReference c, st_archiveReference = file_archiveReference c\<rparr>"

section \<open>In a database\<close>

record 'b bserverLeveldbStorage =
  bl_codec :: "'b entryCodec"
  bl_db :: "'b kvEnv"

type_synonym 'b entryDb = "(byte list, 'b) kvStore"

definition BlockID_Bytes :: "BlockID \<Rightarrow> byte list" where
  "BlockID_Bytes i = hash_h (bid_h i)"

definition db_getLocked ::
  "'b bserverLeveldbStorage \<Rightarrow> BlockID \<Rightarrow> ('b entryDb, bserver_error, 'a) act \<Rightarrow>
   (blockEntry \<Rightarrow> ('b entryDb, bserver_error, 'a) act) \<Rightarrow> ('b entryDb, bserver_error, 'a) act" where
  "db_getLocked c i missing k =
     handleA (kvGet (bl_db c) (BlockID_Bytes i))
       (\<lambda>er. if er = NotFound then missing else failA (Error (ioError er)))
       (\<lambda>buf. bindA (decodeEntry (bl_codec c) buf) k)"

definition db_get :: "'b bserverLeveldbStorage \<Rightarrow> BlockID \<Rightarrow> ('b entryDb, bserver_error, blockEntry) act" where
  "db_get c i = db_getLocked c i (failA (Error (BServerErrorBlockNonExistent []))) retA"

definition db_getAll :: "'b bserverLeveldbStorage \<Rightarrow> TlfID \<Rightarrow> ('b entryDb, bserver_error, refStatuses) act" where
  "db_getAll c tlf = failA (Error GetAllNotImplemented)"

definition db_putLocked ::
  "'b bserverLeveldbStorage \<Rightarrow> BlockID \<Rightarrow> blockEntry \<Rightarrow> ('b entryDb, bserver_error, unit) act" where
  "db_putLocked c i entry =
     (case ec_Encode (bl_codec c) entry of
        Inl er \<Rightarrow> failA (Error (StorageCodecError er))
      | Inr entryBuf \<Rightarrow>
          handleA (kvPut (bl_db c) (BlockID_Bytes i) entryBuf) (\<lambda>er. failA (Error (ioError er))) retA)"

definition db_addReference ::
  "'b bserverLeveldbStorage \<Rightarrow> BlockID \<Rightarrow> BlockRefNonce \<Rightarrow> ('b entryDb, bserver_error, unit) act" where
  "db_addReference c i nonce =
     db_getLocked c i (failA (Error (noReference i))) (\<lambda>entry.
       if hasLiveRef entry then db_putLocked c i (setRef nonce liveBlockRef entry)
       else failA (Error (alreadyArchived i)))"

definition db_removeReference ::
  "'b bserverLeveldbStorage \<Rightarrow> BlockID \<Rightarrow> BlockRefNonce \<Rightarrow> ('b entryDb, bserver_error, int) act" where
  "db_removeReference c i nonce =
     db_getLocked c i (retA 0) (\<lambda>entry.
       let entry = deleteRef nonce entry
       in if be_Refs entry = []
          then handleA (kvDelete (bl_db c) (BlockID_Bytes i)) (\<lambda>er. failA (Error (ioError er))) (\<lambda>_. retA 0)
          else bindA (db_putLocked c i entry) (\<lambda>_. retA (int (length (be_Refs entry)))))"

definition db_archiveReference ::
  "'b bserverLeveldbStorage \<Rightarrow> BlockID \<Rightarrow> BlockRefNonce \<Rightarrow> ('b entryDb, bserver_error, unit) act" where
  "db_archiveReference c i nonce =
     db_getLocked c i (failA (Error (noArchive i))) (\<lambda>entry.
       case map_of (be_Refs entry) nonce of
         None \<Rightarrow> failA (Error (noArchiveRef i nonce))
       | Some _ \<Rightarrow> db_putLocked c i (setRef nonce archivedBlockRef entry))"

definition leveldbStorage :: "'b bserverLeveldbStorage \<Rightarrow> 'b entryDb bserverLocalStorage" where
  "leveldbStorage c =
     \<lparr>st_get = db_get c, st_getAll = db_getAll c, st_put = db_putLocked c, st_addReference = db_addReference c,
      st_removeReference = db_removeReference c, st_archiveReference = db_archiveReference c\<rparr>"

section \<open>The server\<close>

text \<open>
  A \<open>BlockContext\<close> is used for its reference nonce. The maps from IDs to contexts are walked in some order: the
  order of the list.
\<close>

type_synonym refContexts = "(BlockID \<times> BlockPointer list) list"

definition bserver_Get :: "'s bserverLocalStorage \<Rightarrow> BlockID \<Rightarrow> ('s, bserver_error, byte list \<times> byte list) act" where
  "bserver_Get S i = bindA (st_get S i) (\<lambda>entry. retA (be_BlockData entry, be_KeyServerHalf entry))"

definition bserver_Put ::
  "'s bserverLocalStorage \<Rightarrow> BlockID \<Rightarrow> TlfID \<Rightarrow> BlockPointer \<Rightarrow> byte list \<Rightarrow> byte list \<Rightarrow> ('s, bserver_error, unit) act" where
  "bserver_Put S i tlfID ctx buf serverHalf =
     (if GetRefNonce ctx \<noteq> zeroBlockRefNonce then failA (Error NonZeroRefNonceError)
      else st_put S i \<lparr>be_BlockData = buf, be_Refs = [(zeroBlockRefNonce, liveBlockRef)],
                       be_KeyServerHalf = serverHalf, be_Tlf = tlfID\<rparr>)"

definition AddBlockReference :: "'s bserverLocalStorage \<Rightarrow> BlockID \<Rightarrow> BlockPointer \<Rightarrow> ('s, bserver_error, unit) act" where
  "AddBlockReference S i ctx = st_addReference S i (GetRefNonce ctx)"

definition countDown :: "BlockID \<Rightarrow> int \<Rightarrow> (BlockID \<times> int) list \<Rightarrow> (BlockID \<times> int) list" where
  "countDown i count liveCounts =
     (case map_of liveCounts i of
        None \<Rightarrow> AList.update i count liveCounts
      | Some existing \<Rightarrow> if existing > count then AList.update i count liveCounts else liveCounts)"

definition RemoveBlockReference ::
  "'s bserverLocalStorage \<Rightarrow> refContexts \<Rightarrow> ('s, bserver_error, (BlockID \<times> int) list) act" where
  "RemoveBlockReference S contexts =
     foldA (\<lambda>liveCounts (i, refs).
       foldA (\<lambda>liveCounts ref.
         bindA (st_removeReference S i (GetRefNonce ref)) (\<lambda>count. retA (countDown i count liveCounts))) liveCounts refs)
       [] contexts"

definition ArchiveBlockReferences :: "'s bserverLocalStorage \<Rightarrow> refContexts \<Rightarrow> ('s, bserver_error, unit) act" where
  "ArchiveBlockReferences S contexts =
     foldA (\<lambda>_ (i, refs). foldA (\<lambda>_ ref. st_archiveReference S i (GetRefNonce ref)) () refs) () contexts"


section \<open>Requests\<close>

datatype bserverReq =
    ReqGet BlockID
  | ReqPut BlockID TlfID BlockPointer "byte list" "byte list"
  | ReqAdd BlockID BlockPointer
  | ReqRemove refContexts
  | ReqArchive refContexts

datatype bserverResp = RespBlock "byte list" "byte list" | RespDone | RespCounts "(BlockID \<times> int) list"

fun serve :: "'s bserverLocalStorage \<Rightarrow> bserverReq \<Rightarrow> ('s, bserver_error, bserverResp) act" where
  "serve S (ReqGet i) = bindA (bserver_Get S i) (\<lambda>(buf, half). retA (RespBlock buf half))"
| "serve S (ReqPut i tlf ctx buf half) = bindA (bserver_Put S i tlf ctx buf half) (\<lambda>_. retA RespDone)"
| "serve S (ReqAdd i ctx) = bindA (AddBlockReference S i ctx) (\<lambda>_. retA RespDone)"
| "serve S (ReqRemove contexts) = bindA (RemoveBlockReference S contexts) (\<lambda>counts. retA (RespCounts counts))"
| "serve S (ReqArchive contexts) = bindA (ArchiveBlockReferences S contexts) (\<lambda>_. retA RespDone)"

primrec serveAll :: "'s bserverLocalStorage \<Rightarrow> bserverReq list \<Rightarrow> 's \<Rightarrow> (bserver_error, bserverResp) result list \<times> 's" where
  "serveAll S [] s = ([], s)"
| "serveAll S (r # rs) s =
     (case serve S r s of (x, s') \<Rightarrow> (case serveAll S rs s' of (xs, s'') \<Rightarrow> (x # xs, s'')))"

fun reqIDs :: "bserverReq \<Rightarrow> BlockID set" where
  "reqIDs (ReqGet i) = {i}"
| "reqIDs (ReqPut i tlf ctx buf half) = {i}"
| "reqIDs (ReqAdd i ctx) = {i}"
| "reqIDs (ReqRemove contexts) = fst ` set contexts"
| "reqIDs (ReqArchive contexts) = fst ` set contexts"

section \<open>What a storage promises\<close>

text \<open>
  Of an entry, if there is one: what an operation answers and what is there afterwards. A storage whose state is
  the map of the entries is the reference.
\<close>

definition entryGet :: "blockEntry option \<Rightarrow> (bserver_error, blockEntry) result" where
  "entryGet x = (case x of None \<Rightarrow> Inl (Error (BServerErrorBlockNonExistent [])) | Some entry \<Rightarrow> Inr entry)"

definition entryAdd ::
  "BlockID \<Rightarrow> BlockRefNonce \<Rightarrow> blockEntry option \<Rightarrow> (bserver_error, unit) result \<times> blockEntry option" where
  "entryAdd i nonce x =
     (case x of
        None \<Rightarrow> (Inl (Error (noReference i)), None)
      | Some entry \<Rightarrow> if hasLiveRef entry then (Inr (), Some (setRef nonce liveBlockRef entry))
                      else (Inl (Error (alreadyArchived i)), Some entry))"

definition entryRemove :: "BlockRefNonce \<Rightarrow> blockEntry option \<Rightarrow> (bserver_error, int) result \<times> blockEntry option" where
  "entryRemove nonce x =
     (case x of
        None \<Rightarrow> (Inr 0, None)
      | Some entry \<Rightarrow> (Inr (int (length (be_Refs (deleteRef nonce entry)))),
                       if be_Refs (deleteRef nonce entry) = [] then None else Some (deleteRef nonce entry)))"

definition entryArchive ::
  "BlockID \<Rightarrow> BlockRefNonce \<Rightarrow> blockEntry option \<Rightarrow> (bserver_error, unit) result \<times> blockEntry option" where
  "entryArchive i nonce x =
     (case x of
        None \<Rightarrow> (Inl (Error (noArchive i)), None)
      | Some entry \<Rightarrow> if map_of (be_Refs entry) nonce = None then (Inl (Error (noArchiveRef i nonce)), Some entry)
                      else (Inr (), Some (setRef nonce archivedBlockRef entry)))"

definition onEntry ::
  "BlockID \<Rightarrow> (blockEntry option \<Rightarrow> (bserver_error, 'a) result \<times> blockEntry option) \<Rightarrow>
   (BlockID \<rightharpoonup> blockEntry, bserver_error, 'a) act" where
  "onEntry i f m = (case f (m i) of (r, x) \<Rightarrow> (r, m(i := x)))"

definition refStorage :: "(BlockID \<rightharpoonup> blockEntry) bserverLocalStorage" where
  "refStorage =
     \<lparr>st_get = (\<lambda>i. onEntry i (\<lambda>x. (entryGet x, x))), st_getAll = (\<lambda>tlf. failA (Error GetAllNotImplemented)),
      st_put = (\<lambda>i entry. onEntry i (\<lambda>x. (Inr (), Some entry))),
      st_addReference = (\<lambda>i nonce. onEntry i (entryAdd i nonce)),
      st_removeReference = (\<lambda>i nonce. onEntry i (entryRemove nonce)),
      st_archiveReference = (\<lambda>i nonce. onEntry i (entryArchive i nonce))\<rparr>"

text \<open>One call on a storage answers as on the map of its entries, and changes this map in the same way.\<close>

definition simulates ::
  "('s \<Rightarrow> bool) \<Rightarrow> ('s \<Rightarrow> 'm) \<Rightarrow> ('s, 'e, 'a) act \<Rightarrow> ('m, 'e, 'a) act \<Rightarrow> bool" where
  "simulates ok view a b \<longleftrightarrow>
     (\<forall>s. ok s \<longrightarrow> (case a s of (r, s') \<Rightarrow> ok s' \<and> b (view s) = (r, view s')))"

lemma simulates_ret [intro]: "simulates ok view (retA x) (retA x)"
  by (simp add: simulates_def)

lemma simulates_fail [intro]: "simulates ok view (failA f) (failA f)"
  by (simp add: simulates_def)

lemma simulates_bind [intro]:
  assumes a: "simulates ok view a b" and k: "\<And>x. simulates ok view (k x) (h x)"
  shows "simulates ok view (bindA a k) (bindA b h)"
  unfolding simulates_def
proof (intro allI impI)
  fix s assume "ok s"
  obtain r s' where as: "a s = (r, s')" by (cases "a s")
  with a \<open>ok s\<close> have s': "ok s'" and b: "b (view s) = (r, view s')" by (auto simp: simulates_def)
  show "case bindA a k s of (r, s') \<Rightarrow> ok s' \<and> bindA b h (view s) = (r, view s')"
  proof (cases r)
    case (Inl f)
    then show ?thesis using as b s' by simp
  next
    case (Inr x)
    have "case k x s' of (r, t) \<Rightarrow> ok t \<and> h x (view s') = (r, view t)"
      using k[of x] s' by (simp add: simulates_def)
    then show ?thesis using as b Inr by simp
  qed
qed

lemma simulates_fold [intro]:
  "(\<And>x y. y \<in> set ys \<Longrightarrow> simulates ok view (f x y) (g x y)) \<Longrightarrow> simulates ok view (foldA f x ys) (foldA g x ys)"
  by (induction ys arbitrary: x) (auto intro!: simulates_bind)

locale block_storage =
  fixes S :: "'s bserverLocalStorage" and ok :: "'s \<Rightarrow> bool" and valid :: "BlockID \<Rightarrow> bool"
    and view :: "'s \<Rightarrow> BlockID \<rightharpoonup> blockEntry"
  assumes get_sim: "valid i \<Longrightarrow> simulates ok view (st_get S i) (st_get refStorage i)"
    and put_sim: "valid i \<Longrightarrow> simulates ok view (st_put S i entry) (st_put refStorage i entry)"
    and add_sim: "valid i \<Longrightarrow> simulates ok view (st_addReference S i nonce) (st_addReference refStorage i nonce)"
    and remove_sim: "valid i \<Longrightarrow> simulates ok view (st_removeReference S i nonce) (st_removeReference refStorage i nonce)"
    and archive_sim: "valid i \<Longrightarrow> simulates ok view (st_archiveReference S i nonce) (st_archiveReference refStorage i nonce)"
begin

lemma serve_sim:
  assumes "\<forall>i \<in> reqIDs req. valid i"
  shows "simulates ok view (serve S req) (serve refStorage req)"
  using assms
  by (cases req)
    (auto simp: bserver_Get_def bserver_Put_def AddBlockReference_def RemoveBlockReference_def ArchiveBlockReferences_def
      intro!: simulates_bind simulates_fold get_sim put_sim add_sim remove_sim archive_sim)

lemma serveAll_sim:
  assumes "\<forall>req \<in> set reqs. \<forall>i \<in> reqIDs req. valid i" and "ok s"
  shows "\<exists>rs s'. serveAll S reqs s = (rs, s') \<and> ok s' \<and> serveAll refStorage reqs (view s) = (rs, view s')"
  using assms
proof (induction reqs arbitrary: s)
  case (Cons req reqs)
  obtain r s1 where r: "serve S req s = (r, s1)" by (cases "serve S req s")
  with serve_sim[of req] Cons.prems have s1: "ok s1" "serve refStorage req (view s) = (r, view s1)"
    by (auto simp: simulates_def)
  from Cons.IH[OF _ s1(1)] Cons.prems(1) obtain rs s2 where
    "serveAll S reqs s1 = (rs, s2)" "ok s2" "serveAll refStorage reqs (view s1) = (rs, view s2)" by auto
  with r s1(2) show ?case by simp
qed simp

end

subsection \<open>Memory\<close>

lemma map_of_update_delete [simp]:
  "map_of (AList.update k v es) = (map_of es)(k \<mapsto> v)" "map_of (AList.delete k es) = (map_of es)(k := None)"
  by (simp_all add: update_conv' delete_conv')

interpretation mem_store: block_storage memStorage "\<lambda>s. True" "\<lambda>i. True" map_of
proof
  fix i nonce and entry :: blockEntry
  show "simulates (\<lambda>s. True) map_of (st_get memStorage i) (st_get refStorage i)"
    by (auto simp: simulates_def memStorage_def refStorage_def onEntry_def mem_get_def entryGet_def split: option.split)
  show "simulates (\<lambda>s. True) map_of (st_put memStorage i entry) (st_put refStorage i entry)"
    by (auto simp: simulates_def memStorage_def refStorage_def onEntry_def mem_put_def)
  show "simulates (\<lambda>s. True) map_of (st_addReference memStorage i nonce) (st_addReference refStorage i nonce)"
    by (auto simp: simulates_def memStorage_def refStorage_def onEntry_def mem_addReference_def entryAdd_def split: option.split)
  show "simulates (\<lambda>s. True) map_of (st_removeReference memStorage i nonce) (st_removeReference refStorage i nonce)"
    by (auto simp: simulates_def memStorage_def refStorage_def onEntry_def mem_removeReference_def entryRemove_def Let_def
        split: option.split)
  show "simulates (\<lambda>s. True) map_of (st_archiveReference memStorage i nonce) (st_archiveReference refStorage i nonce)"
    by (auto simp: simulates_def memStorage_def refStorage_def onEntry_def mem_archiveReference_def entryArchive_def
        split: option.split)
qed

subsection \<open>Encoded entries\<close>

text \<open>What the code relies on: decoding gives back what was encoded, and the calls of the store do not fail.\<close>

definition entryCodec_ok :: "'b entryCodec \<Rightarrow> bool" where
  "entryCodec_ok codec \<longleftrightarrow> (\<forall>entry. \<exists>buf. ec_Encode codec entry = Inr buf \<and> ec_Decode codec buf = Inr entry)"

definition entryStore_ok :: "'b entryCodec \<Rightarrow> 'b kvEnv \<Rightarrow> ('k, 'b) kvStore \<Rightarrow> bool" where
  "entryStore_ok codec e s \<longleftrightarrow>
     entryCodec_ok codec \<and> kvReliable e \<and> (\<forall>k buf. kvLookup s k = Some buf \<longrightarrow> (\<exists>entry. ec_Decode codec buf = Inr entry))"

definition entryAt :: "'b entryCodec \<Rightarrow> ('k, 'b) kvStore \<Rightarrow> 'k \<rightharpoonup> blockEntry" where
  "entryAt codec s k =
     (case kvLookup s k of None \<Rightarrow> None | Some buf \<Rightarrow> (case ec_Decode codec buf of Inl _ \<Rightarrow> None | Inr entry \<Rightarrow> Some entry))"

lemma entryAt_tick [simp]:
  "entryAt codec (kvTick s) = entryAt codec s" "entryStore_ok codec e (kvTick s) = entryStore_ok codec e s"
  by (auto simp: entryAt_def entryStore_ok_def fun_eq_iff)

lemma entry_read:
  assumes "entryStore_ok codec e s"
  shows "handleA (kvGet e k) (\<lambda>er. if er = NotFound then missing else failA (Error (ioError er)))
       (\<lambda>buf. bindA (decodeEntry codec buf) f) s =
     (case entryAt codec s k of None \<Rightarrow> missing (kvTick s) | Some entry \<Rightarrow> f entry (kvTick s))"
proof (cases "kvLookup s k")
  case None
  then show ?thesis using assms by (simp add: entryAt_def entryStore_ok_def kv_reliable_run(1))
next
  case (Some buf)
  with assms obtain entry where "ec_Decode codec buf = Inr entry" by (auto simp: entryStore_ok_def)
  then show ?thesis using assms Some by (simp add: entryAt_def entryStore_ok_def kv_reliable_run(1) decodeEntry_def)
qed

lemma entry_write:
  assumes "entryStore_ok codec e s" and "ec_Encode codec entry = Inr buf"
  shows "\<exists>s'. handleA (kvPut e k buf) (\<lambda>er. failA (Error (ioError er))) retA s = (Inr (), s') \<and>
    entryStore_ok codec e s' \<and> entryAt codec s' = (entryAt codec s)(k \<mapsto> entry)"
proof -
  from assms have "ec_Decode codec buf = Inr entry" by (metis Inr_inject entryCodec_ok_def entryStore_ok_def)
  then show ?thesis using assms by (auto simp: entryStore_ok_def kv_reliable_run(2) entryAt_def kvLookup_def fun_eq_iff)
qed

lemma entry_delete:
  assumes "entryStore_ok codec e s"
  shows "\<exists>s'. handleA (kvDelete e k) (\<lambda>er. failA (Error (ioError er))) (\<lambda>_. retA x) s = (Inr x, s') \<and>
    entryStore_ok codec e s' \<and> entryAt codec s' = (entryAt codec s)(k := None)"
  using assms by (auto simp: entryStore_ok_def kv_reliable_run(3) entryAt_def kvLookup_def fun_eq_iff)

lemma entryStore_encodes: "entryStore_ok codec e s \<Longrightarrow> \<exists>buf. ec_Encode codec entry = Inr buf"
  by (auto simp: entryStore_ok_def entryCodec_ok_def)

subsection \<open>Files\<close>

definition fileView :: "'b bserverFileStorage \<Rightarrow> 'b files \<Rightarrow> BlockID \<rightharpoonup> blockEntry" where
  "fileView c s i = (if BlockID_IsValid i then Option.bind (buildPath c i) (entryAt (bf_codec c) s) else None)"

definition fileStore_ok :: "'b bserverFileStorage \<Rightarrow> 'b files \<Rightarrow> bool" where
  "fileStore_ok c s = entryStore_ok (bf_codec c) (bf_os c) s"

lemma hex_plain: "x \<in> set (EncodeToString bs) \<Longrightarrow> x \<noteq> CHR ''/'' \<and> x \<noteq> CHR ''.''"
proof -
  assume "x \<in> set (EncodeToString bs)"
  then obtain b where "x \<in> set (EncodeByte b)" by (auto simp: EncodeToString_def)
  then obtain n where "fromHexChar x = Some n" using EncodeByte_digits[of b] by (auto simp: EncodeByte_def)
  moreover have "fromHexChar CHR ''/'' = None" "fromHexChar CHR ''.'' = None" by code_simp+
  ultimately show ?thesis by auto
qed

lemma idString_plain:
  assumes "BlockID_IsValid i"
  shows "plainName (take 4 (BlockID_String i))" and "plainName (drop 4 (BlockID_String i))" and "\<not> length (BlockID_String i) < 4"
proof -
  let ?s = "BlockID_String i"
  have len: "length ?s \<ge> 66" using assms
    by (auto simp: BlockID_IsValid_def Hash_IsValid_def MinHashByteLength_def BlockID_String_def Hash_String_def split: if_splits)
  have plain: "plainName t" if "t \<noteq> []" "set t \<subseteq> set ?s" for t
    using that hex_plain[of _ "hash_h (bid_h i)"] by (fastforce simp: plainName_def BlockID_String_def Hash_String_def)
  show "plainName (take 4 ?s)" by (rule plain) (use len set_take_subset[of 4 ?s] in auto)
  show "plainName (drop 4 ?s)" by (rule plain) (use len set_drop_subset[of 4 ?s] in auto)
  show "\<not> length ?s < 4" using len by simp
qed

lemma BlockID_String_inj: "BlockID_String i = BlockID_String j \<Longrightarrow> i = j"
proof -
  assume "BlockID_String i = BlockID_String j"
  then have "Some (hash_h (bid_h i)) = Some (hash_h (bid_h j))"
    unfolding BlockID_String_def Hash_String_def DecodeString_Encode[symmetric] by simp
  then show ?thesis by (cases i; cases j) (auto intro: Hash.expand BlockID.expand)
qed

lemma buildPath_valid: "BlockID_IsValid i \<Longrightarrow> \<exists>p. buildPath c i = Some p"
  using idString_plain(3)[of i] by (simp add: buildPath_def Let_def)

lemma buildPath_inj:
  assumes "BlockID_IsValid i" and "BlockID_IsValid j" and "buildPath c i = Some p" and "buildPath c j = Some p"
  shows "i = j"
proof -
  have "filepath_Join [bf_dir c, take 4 (BlockID_String i), drop 4 (BlockID_String i)] =
      filepath_Join [bf_dir c, take 4 (BlockID_String j), drop 4 (BlockID_String j)]"
    using assms by (simp add: buildPath_def Let_def split: if_splits)
  from filepath_Join_inj[OF idString_plain(1,2)[OF assms(1)] idString_plain(1,2)[OF assms(2)] this]
  have "BlockID_String i = BlockID_String j" by (metis append_take_drop_id)
  then show ?thesis by (rule BlockID_String_inj)
qed

lemma fileView_upd:
  assumes "BlockID_IsValid i" and "buildPath c i = Some p" and "entryAt (bf_codec c) s' = (entryAt (bf_codec c) s)(p := x)"
  shows "fileView c s' = (fileView c s)(i := x)"
proof
  fix j
  show "fileView c s' j = ((fileView c s)(i := x)) j"
    using assms buildPath_inj[OF assms(1), of j c p] by (cases "buildPath c j") (auto simp: fileView_def)
qed

lemma fileView_tick [simp]: "fileView c (kvTick s) = fileView c s" "fileStore_ok c (kvTick s) = fileStore_ok c s"
  by (auto simp: fileView_def fileStore_ok_def fun_eq_iff)

lemma file_read:
  assumes "fileStore_ok c s" and "BlockID_IsValid i" and "buildPath c i = Some p"
  shows "file_getLocked c p missing k s =
    (case fileView c s i of None \<Rightarrow> missing (kvTick s) | Some entry \<Rightarrow> k entry (kvTick s))"
  using assms entry_read[of "bf_codec c" "bf_os c" s p missing k]
  by (simp add: file_getLocked_def fileStore_ok_def fileView_def)

lemma file_write:
  assumes ok: "fileStore_ok c s" and i: "BlockID_IsValid i" "buildPath c i = Some p"
  shows "\<exists>s'. file_putLocked c p entry s = (Inr (), s') \<and> fileStore_ok c s' \<and> fileView c s' = (fileView c s)(i \<mapsto> entry)"
proof -
  from ok have ok': "entryStore_ok (bf_codec c) (bf_os c) (kvTick s)" by (simp add: fileStore_ok_def)
  from entryStore_encodes[OF ok'] obtain buf where buf: "ec_Encode (bf_codec c) entry = Inr buf" by blast
  from entry_write[OF ok' buf, of p] obtain s' where
    s': "handleA (kvPut (bf_os c) p buf) (\<lambda>er. failA (Error (ioError er))) retA (kvTick s) = (Inr (), s')"
      "entryStore_ok (bf_codec c) (bf_os c) s'" "entryAt (bf_codec c) s' = (entryAt (bf_codec c) s)(p \<mapsto> entry)" by auto
  have nop: "kvNop (bf_os c) s = (Inr (), kvTick s)" using ok by (simp add: fileStore_ok_def entryStore_ok_def kv_reliable_run(4))
  show ?thesis using s' fileView_upd[OF i s'(3)] nop buf by (auto simp: file_putLocked_def fileStore_ok_def)
qed

lemma file_remove:
  assumes ok: "fileStore_ok c s" and i: "BlockID_IsValid i" "buildPath c i = Some p"
  shows "\<exists>s'. handleA (kvDelete (bf_os c) p) (\<lambda>er. failA (Error (ioError er))) (\<lambda>_. retA x) s = (Inr x, s') \<and>
    fileStore_ok c s' \<and> fileView c s' = (fileView c s)(i := None)"
proof -
  from ok have ok': "entryStore_ok (bf_codec c) (bf_os c) s" by (simp add: fileStore_ok_def)
  from entry_delete[OF ok', of p x] show ?thesis using fileView_upd[OF i] unfolding fileStore_ok_def by metis
qed

lemma simulatesI:
  assumes "\<And>s. ok s \<Longrightarrow> \<exists>r s'. a s = (r, s') \<and> ok s' \<and> b (view s) = (r, view s')"
  shows "simulates ok view a b"
  using assms by (fastforce simp: simulates_def)

lemma onEntry_same: "f (m i) = (r, m i) \<Longrightarrow> onEntry i f m = (r, m)"
  by (auto simp: onEntry_def)

lemmas file_op_defs = file_get_def file_put_def file_addReference_def file_removeReference_def file_archiveReference_def pathA_def
lemmas entry_op_defs = entryGet_def entryAdd_def entryRemove_def entryArchive_def onEntry_def

interpretation file_store: block_storage "fileStorage c" "fileStore_ok c" BlockID_IsValid "fileView c" for c :: "'b bserverFileStorage"
proof
  fix i :: BlockID and nonce and entry :: blockEntry
  assume i: "BlockID_IsValid i"
  then obtain p where p: "buildPath c i = Some p" using buildPath_valid by blast
  note rd = file_read[OF _ i p] and wr = file_write[OF _ i p] and rm = file_remove[OF _ i p]
  show "simulates (fileStore_ok c) (fileView c) (st_get (fileStorage c) i) (st_get refStorage i)"
    by (rule simulatesI) (auto simp: fileStorage_def refStorage_def file_op_defs entry_op_defs p rd split: option.split)
  show "simulates (fileStore_ok c) (fileView c) (st_put (fileStorage c) i entry) (st_put refStorage i entry)"
    by (rule simulatesI) (use wr in \<open>fastforce simp: fileStorage_def refStorage_def file_op_defs entry_op_defs p\<close>)
  show "simulates (fileStore_ok c) (fileView c) (st_addReference (fileStorage c) i nonce) (st_addReference refStorage i nonce)"
  proof (rule simulatesI)
    fix s assume ok: "fileStore_ok c s"
    show "\<exists>r s'. st_addReference (fileStorage c) i nonce s = (r, s') \<and> fileStore_ok c s' \<and>
        st_addReference refStorage i nonce (fileView c s) = (r, fileView c s')"
      using ok wr[of "kvTick s"] by (cases "fileView c s i")
        (fastforce simp: fileStorage_def refStorage_def file_op_defs entry_op_defs p rd)+
  qed
  show "simulates (fileStore_ok c) (fileView c) (st_removeReference (fileStorage c) i nonce) (st_removeReference refStorage i nonce)"
  proof (rule simulatesI)
    fix s assume ok: "fileStore_ok c s"
    show "\<exists>r s'. st_removeReference (fileStorage c) i nonce s = (r, s') \<and> fileStore_ok c s' \<and>
        st_removeReference refStorage i nonce (fileView c s) = (r, fileView c s')"
    proof (cases "fileView c s i")
      case None
      then show ?thesis using ok by (auto simp: fileStorage_def refStorage_def file_op_defs entry_op_defs p rd fun_upd_idem)
    next
      case (Some en)
      let ?en = "deleteRef nonce en"
      obtain s1 where s1: "file_putLocked c p ?en (kvTick s) = (Inr (), s1)" "fileStore_ok c s1"
        "fileView c s1 = (fileView c s)(i \<mapsto> ?en)" using wr[of "kvTick s" ?en] ok by auto
      obtain s2 where s2: "handleA (kvDelete (bf_os c) p) (\<lambda>er. failA (Error (ioError er))) (\<lambda>_. retA 0) (kvTick s) =
          (Inr (0 :: int), s2)" "fileStore_ok c s2" "fileView c s2 = (fileView c s)(i := None)"
        using rm[of "kvTick s" 0] ok by auto
      show ?thesis using Some ok s1 s2 by (cases "be_Refs ?en = []")
        (simp_all add: fileStorage_def refStorage_def file_op_defs entry_op_defs p rd Let_def)
    qed
  qed
  show "simulates (fileStore_ok c) (fileView c) (st_archiveReference (fileStorage c) i nonce) (st_archiveReference refStorage i nonce)"
  proof (rule simulatesI)
    fix s assume ok: "fileStore_ok c s"
    show "\<exists>r s'. st_archiveReference (fileStorage c) i nonce s = (r, s') \<and> fileStore_ok c s' \<and>
        st_archiveReference refStorage i nonce (fileView c s) = (r, fileView c s')"
      using ok wr[of "kvTick s"] by (cases "fileView c s i")
        (fastforce simp: fileStorage_def refStorage_def file_op_defs entry_op_defs p rd split: option.split)+
  qed
qed

subsection \<open>Database\<close>

definition dbView :: "'b bserverLeveldbStorage \<Rightarrow> 'b entryDb \<Rightarrow> BlockID \<rightharpoonup> blockEntry" where
  "dbView c s i = entryAt (bl_codec c) s (BlockID_Bytes i)"

definition dbStore_ok :: "'b bserverLeveldbStorage \<Rightarrow> 'b entryDb \<Rightarrow> bool" where
  "dbStore_ok c s = entryStore_ok (bl_codec c) (bl_db c) s"

lemma BlockID_Bytes_inj: "BlockID_Bytes i = BlockID_Bytes j \<Longrightarrow> i = j"
  by (cases i; cases j) (auto simp: BlockID_Bytes_def intro: Hash.expand BlockID.expand)

lemma dbView_upd:
  "entryAt (bl_codec c) s' = (entryAt (bl_codec c) s)(BlockID_Bytes i := x) \<Longrightarrow> dbView c s' = (dbView c s)(i := x)"
  using BlockID_Bytes_inj by (auto simp: dbView_def fun_eq_iff)

lemma dbView_tick [simp]: "dbView c (kvTick s) = dbView c s" "dbStore_ok c (kvTick s) = dbStore_ok c s"
  by (auto simp: dbView_def dbStore_ok_def fun_eq_iff)

lemma db_read:
  assumes "dbStore_ok c s"
  shows "db_getLocked c i missing k s =
    (case dbView c s i of None \<Rightarrow> missing (kvTick s) | Some entry \<Rightarrow> k entry (kvTick s))"
  using assms entry_read[of "bl_codec c" "bl_db c" s "BlockID_Bytes i" missing k]
  by (simp add: db_getLocked_def dbStore_ok_def dbView_def)

lemma db_write:
  assumes "dbStore_ok c s"
  shows "\<exists>s'. db_putLocked c i entry s = (Inr (), s') \<and> dbStore_ok c s' \<and> dbView c s' = (dbView c s)(i \<mapsto> entry)"
proof -
  from assms have ok: "entryStore_ok (bl_codec c) (bl_db c) s" by (simp add: dbStore_ok_def)
  from entryStore_encodes[OF ok] obtain buf where buf: "ec_Encode (bl_codec c) entry = Inr buf" by blast
  from entry_write[OF ok buf, of "BlockID_Bytes i"] buf dbView_upd[of c _ s i "Some entry"]
  show ?thesis by (auto simp: db_putLocked_def dbStore_ok_def)
qed

lemma db_remove:
  assumes "dbStore_ok c s"
  shows "\<exists>s'. handleA (kvDelete (bl_db c) (BlockID_Bytes i)) (\<lambda>er. failA (Error (ioError er))) (\<lambda>_. retA x) s = (Inr x, s') \<and>
    dbStore_ok c s' \<and> dbView c s' = (dbView c s)(i := None)"
  using entry_delete[of "bl_codec c" "bl_db c" s "BlockID_Bytes i" x] assms dbView_upd[of c _ s i None]
  by (auto simp: dbStore_ok_def)

lemmas db_op_defs = db_get_def db_addReference_def db_removeReference_def db_archiveReference_def

interpretation db_store: block_storage "leveldbStorage c" "dbStore_ok c" "\<lambda>i. True" "dbView c" for c :: "'b bserverLeveldbStorage"
proof
  fix i :: BlockID and nonce and entry :: blockEntry
  show "simulates (dbStore_ok c) (dbView c) (st_get (leveldbStorage c) i) (st_get refStorage i)"
    by (rule simulatesI) (auto simp: leveldbStorage_def refStorage_def db_op_defs entry_op_defs db_read split: option.split)
  show "simulates (dbStore_ok c) (dbView c) (st_put (leveldbStorage c) i entry) (st_put refStorage i entry)"
    by (rule simulatesI) (use db_write in \<open>fastforce simp: leveldbStorage_def refStorage_def entry_op_defs\<close>)
  show "simulates (dbStore_ok c) (dbView c) (st_addReference (leveldbStorage c) i nonce) (st_addReference refStorage i nonce)"
  proof (rule simulatesI)
    fix s assume ok: "dbStore_ok c s"
    show "\<exists>r s'. st_addReference (leveldbStorage c) i nonce s = (r, s') \<and> dbStore_ok c s' \<and>
        st_addReference refStorage i nonce (dbView c s) = (r, dbView c s')"
      using ok db_write[of c "kvTick s" i] by (cases "dbView c s i")
        (fastforce simp: leveldbStorage_def refStorage_def db_op_defs entry_op_defs db_read)+
  qed
  show "simulates (dbStore_ok c) (dbView c) (st_removeReference (leveldbStorage c) i nonce) (st_removeReference refStorage i nonce)"
  proof (rule simulatesI)
    fix s assume ok: "dbStore_ok c s"
    show "\<exists>r s'. st_removeReference (leveldbStorage c) i nonce s = (r, s') \<and> dbStore_ok c s' \<and>
        st_removeReference refStorage i nonce (dbView c s) = (r, dbView c s')"
    proof (cases "dbView c s i")
      case None
      then show ?thesis using ok by (auto simp: leveldbStorage_def refStorage_def db_op_defs entry_op_defs db_read fun_upd_idem)
    next
      case (Some en)
      let ?en = "deleteRef nonce en"
      obtain s1 where s1: "db_putLocked c i ?en (kvTick s) = (Inr (), s1)" "dbStore_ok c s1"
        "dbView c s1 = (dbView c s)(i \<mapsto> ?en)" using db_write[of c "kvTick s" i ?en] ok by auto
      obtain s2 where s2: "handleA (kvDelete (bl_db c) (BlockID_Bytes i)) (\<lambda>er. failA (Error (ioError er))) (\<lambda>_. retA 0) (kvTick s) =
          (Inr (0 :: int), s2)" "dbStore_ok c s2" "dbView c s2 = (dbView c s)(i := None)"
        using db_remove[of c "kvTick s" i 0] ok by auto
      show ?thesis using Some ok s1 s2 by (cases "be_Refs ?en = []")
        (simp_all add: leveldbStorage_def refStorage_def db_op_defs entry_op_defs db_read Let_def)
    qed
  qed
  show "simulates (dbStore_ok c) (dbView c) (st_archiveReference (leveldbStorage c) i nonce) (st_archiveReference refStorage i nonce)"
  proof (rule simulatesI)
    fix s assume ok: "dbStore_ok c s"
    show "\<exists>r s'. st_archiveReference (leveldbStorage c) i nonce s = (r, s') \<and> dbStore_ok c s' \<and>
        st_archiveReference refStorage i nonce (dbView c s) = (r, dbView c s')"
      using ok db_write[of c "kvTick s" i] by (cases "dbView c s i")
        (fastforce simp: leveldbStorage_def refStorage_def db_op_defs entry_op_defs db_read split: option.split)+
  qed
qed

section \<open>The servers agree\<close>

lemma fileView_empty: "kv_entries s = [] \<Longrightarrow> fileView c s = Map.empty"
  by (auto simp: fileView_def entryAt_def kvLookup_def fun_eq_iff bind_eq_None_conv)

lemma dbView_empty: "kv_entries s = [] \<Longrightarrow> dbView c s = Map.empty"
  by (auto simp: dbView_def entryAt_def kvLookup_def fun_eq_iff)



definition bx_id :: BlockID where
  "bx_id = BlockID (Hash (1 # replicate 32 7))"

definition bx_ctx :: "BlockRefNonce \<Rightarrow> BlockPointer" where
  "bx_ctx nonce = zeroPtr\<lparr>bp_ID := bx_id, bp_RefNonce := nonce\<rparr>"

lemma bx_valid: "BlockID_IsValid bx_id"
  by code_simp

definition bx_codec :: "blockEntry entryCodec" where
  "bx_codec = \<lparr>ec_Encode = Inr, ec_Decode = Inr\<rparr>"

definition bx_reqs :: "bserverReq list" where
  "bx_reqs = [ReqPut bx_id NullTlfID (bx_ctx 0) [1, 2, 3] [9], ReqAdd bx_id (bx_ctx 5),
     ReqRemove [(bx_id, [bx_ctx 0])], ReqGet bx_id, ReqArchive [(bx_id, [bx_ctx 5])], ReqAdd bx_id (bx_ctx 6),
     ReqRemove [(bx_id, [bx_ctx 5])], ReqGet bx_id]"

lemma bx_mem:
  "fst (serveAll memStorage bx_reqs makeBserverMemStorage) =
    [Inr RespDone, Inr RespDone, Inr (RespCounts [(bx_id, 1)]), Inr (RespBlock [1, 2, 3] [9]), Inr RespDone,
     Inl (Error (alreadyArchived bx_id)), Inr (RespCounts [(bx_id, 0)]), Inl (Error (BServerErrorBlockNonExistent []))]"
  by code_simp


section \<open>Blocks and their references\<close>

text \<open>The entry of the last successful \<open>Put\<close> of an ID.\<close>

fun putEntry :: "BlockID \<Rightarrow> bserverReq \<Rightarrow> (byte list \<times> byte list) option \<Rightarrow> (byte list \<times> byte list) option" where
  "putEntry i (ReqPut j tlf ctx buf half) x = (if i = j \<and> GetRefNonce ctx = zeroBlockRefNonce then Some (buf, half) else x)"
| "putEntry i _ x = x"

definition lastPut :: "BlockID \<Rightarrow> bserverReq list \<Rightarrow> (byte list \<times> byte list) option" where
  "lastPut i reqs = fold (putEntry i) reqs None"

definition entry_wf :: "(byte list \<times> byte list) option \<Rightarrow> blockEntry \<Rightarrow> bool" where
  "entry_wf put entry \<longleftrightarrow>
     be_Refs entry \<noteq> [] \<and> distinct (map fst (be_Refs entry)) \<and> put = Some (be_BlockData entry, be_KeyServerHalf entry)"

lemma AList_delete_distinct: "distinct (map fst es) \<Longrightarrow> distinct (map fst (AList.delete k es))"
  by (rule distinct_delete)

lemma entry_wf_set [simp]: "entry_wf put entry \<Longrightarrow> entry_wf put (setRef nonce status entry)"
  by (simp add: entry_wf_def setRef_def distinct_update AList.update_nonempty)

lemma entry_wf_delete [simp]: "entry_wf put entry \<Longrightarrow> be_Refs (deleteRef nonce entry) \<noteq> [] \<Longrightarrow> entry_wf put (deleteRef nonce entry)"
  by (auto simp: entry_wf_def deleteRef_def AList_delete_distinct)

definition blocks_wf :: "(BlockID \<Rightarrow> (byte list \<times> byte list) option) \<Rightarrow> (BlockID \<rightharpoonup> blockEntry) \<Rightarrow> bool" where
  "blocks_wf put m \<longleftrightarrow> (\<forall>i entry. m i = Some entry \<longrightarrow> entry_wf (put i) entry)"

lemma onEntry_keeps:
  assumes "\<And>x. (\<forall>entry. x = Some entry \<longrightarrow> entry_wf (put i) entry) \<Longrightarrow> \<forall>entry. snd (f x) = Some entry \<longrightarrow> entry_wf (put i) entry"
  shows "keepsA (blocks_wf put) (onEntry i f)"
  using assms by (auto simp: keepsA_def blocks_wf_def onEntry_def split: prod.splits) (metis snd_conv)

lemma serve_wf:
  assumes "blocks_wf put m"
  shows "blocks_wf (\<lambda>i. putEntry i req (put i)) (snd (serve refStorage req m))"
proof (cases req)
  case (ReqPut i tlf ctx buf half)
  then show ?thesis using assms
    by (auto simp: bserver_Put_def refStorage_def onEntry_def bindA_def blocks_wf_def entry_wf_def)
next
  case (ReqGet i)
  then show ?thesis using assms by (auto simp: bserver_Get_def refStorage_def onEntry_def entryGet_def bindA_def split: option.split)
next
  case (ReqAdd i ctx)
  have "keepsA (blocks_wf put) (onEntry i (entryAdd i (GetRefNonce ctx)))"
    by (rule onEntry_keeps) (auto simp: entryAdd_def split: option.splits)
  then show ?thesis using assms ReqAdd
    by (auto simp: AddBlockReference_def refStorage_def keepsA_def bindA_def split: prod.split sum.split)
next
  case (ReqRemove contexts)
  have "keepsA (blocks_wf put) (onEntry i (entryRemove nonce))" for i nonce
    by (rule onEntry_keeps) (auto simp: entryRemove_def split: option.splits if_splits)
  then have "keepsA (blocks_wf put) (serve refStorage req)"
    by (auto simp: ReqRemove RemoveBlockReference_def refStorage_def intro!: keepsA_bind keepsA_fold split: prod.split)
  then show ?thesis using assms ReqRemove by (simp add: keepsA_def)
next
  case (ReqArchive contexts)
  have "keepsA (blocks_wf put) (onEntry i (entryArchive i nonce))" for i nonce
    by (rule onEntry_keeps) (auto simp: entryArchive_def split: option.splits if_splits)
  then have "keepsA (blocks_wf put) (serve refStorage req)"
    by (auto simp: ReqArchive ArchiveBlockReferences_def refStorage_def intro!: keepsA_bind keepsA_fold split: prod.split)
  then show ?thesis using assms ReqArchive by (simp add: keepsA_def)
qed

lemma serveAll_wf:
  "blocks_wf put m \<Longrightarrow> blocks_wf (\<lambda>i. fold (putEntry i) reqs (put i)) (snd (serveAll refStorage reqs m))"
proof (induction reqs arbitrary: m put)
  case (Cons req reqs)
  obtain r m1 where r: "serve refStorage req m = (r, m1)" by (cases "serve refStorage req m")
  then have "blocks_wf (\<lambda>i. putEntry i req (put i)) m1" using serve_wf[OF Cons.prems, of req] by simp
  from Cons.IH[OF this] r show ?case by (auto split: prod.split)
qed simp

text \<open>
  C26: Whatever the requests, a block that the server in memory has is the one that was put last under this ID, and it has
  at least one reference, none of them twice.
\<close>

theorem stored_blocks_referenced:
  assumes "map_of (snd (serveAll memStorage reqs makeBserverMemStorage)) i = Some entry"
  shows "lastPut i reqs = Some (be_BlockData entry, be_KeyServerHalf entry) \<and> be_Refs entry \<noteq> [] \<and>
    distinct (map fst (be_Refs entry))"
proof -
  have "blocks_wf (\<lambda>i. lastPut i reqs) (snd (serveAll refStorage reqs Map.empty))"
    using serveAll_wf[of "\<lambda>i. None" Map.empty reqs] by (simp add: blocks_wf_def lastPut_def)
  then show ?thesis using assms mem_store.serveAll_sim[of reqs makeBserverMemStorage]
    by (auto simp: makeBserverMemStorage_def blocks_wf_def entry_wf_def)
qed

theorem stored_blocks_referenced_witness:
  "lastPut bx_id (take 3 bx_reqs) = Some ([1, 2, 3], [9])"
proof -
  have "map_of (snd (serveAll memStorage (take 3 bx_reqs) makeBserverMemStorage)) bx_id =
      Some \<lparr>be_BlockData = [1, 2, 3], be_Refs = [(5, liveBlockRef)], be_KeyServerHalf = [9], be_Tlf = NullTlfID\<rparr>"
    by code_simp
  from stored_blocks_referenced[OF this] show ?thesis by simp
qed

text \<open>No live reference is left: the block is archived or gone.\<close>

definition noLive :: "BlockID \<Rightarrow> (BlockID \<rightharpoonup> blockEntry) \<Rightarrow> bool" where
  "noLive i m \<longleftrightarrow> (\<forall>entry. m i = Some entry \<longrightarrow> \<not> hasLiveRef entry)"

lemma set_update_subset: "set (AList.update k v es) \<subseteq> insert (k, v) (set es)"
  by (induction es) auto

lemma hasLive_archive: "\<not> hasLiveRef entry \<Longrightarrow> \<not> hasLiveRef (setRef nonce archivedBlockRef entry)"
  using set_update_subset[of nonce archivedBlockRef "be_Refs entry"]
  by (fastforce simp: hasLiveRef_def setRef_def list_ex_iff)

lemma hasLive_delete: "\<not> hasLiveRef entry \<Longrightarrow> \<not> hasLiveRef (deleteRef nonce entry)"
  by (auto simp: hasLiveRef_def deleteRef_def list_ex_iff AList.delete_eq)

lemma onEntry_noLive:
  assumes "\<And>entry. \<not> hasLiveRef entry \<Longrightarrow> \<forall>entry'. snd (f (Some entry)) = Some entry' \<longrightarrow> \<not> hasLiveRef entry'" and "snd (f None) = None"
  shows "keepsA (noLive i) (onEntry j f)"
  unfolding keepsA_def
proof (intro allI impI)
  fix m assume m: "noLive i m"
  show "noLive i (snd (onEntry j f m))"
    using m assms by (cases "m j"; cases "f (m j)") (auto simp: noLive_def onEntry_def)
qed

fun putsBlock :: "BlockID \<Rightarrow> bserverReq \<Rightarrow> bool" where
  "putsBlock i (ReqPut j tlf ctx buf half) = (i = j)"
| "putsBlock i _ = False"

lemma serve_noLive:
  assumes "\<not> putsBlock i req"
  shows "keepsA (noLive i) (serve refStorage req)"
proof -
  have "keepsA (noLive i) (onEntry j (entryAdd j nonce))" for j nonce
    by (rule onEntry_noLive) (auto simp: entryAdd_def)
  moreover have "keepsA (noLive i) (onEntry j (entryRemove nonce))" for j nonce
    by (rule onEntry_noLive) (auto simp: entryRemove_def hasLive_delete)
  moreover have "keepsA (noLive i) (onEntry j (entryArchive j nonce))" for j nonce
    by (rule onEntry_noLive) (auto simp: entryArchive_def hasLive_archive)
  moreover have "keepsA (noLive i) (onEntry j (\<lambda>x. (entryGet x, x)))" for j
    by (rule onEntry_noLive) auto
  moreover have "keepsA (noLive i) (onEntry j (\<lambda>x. (Inr (), Some entry)))" if "i \<noteq> j" for j entry
    using that by (auto simp: keepsA_def noLive_def onEntry_def)
  ultimately show ?thesis using assms
    by (cases req)
      (auto simp: refStorage_def bserver_Get_def bserver_Put_def AddBlockReference_def RemoveBlockReference_def
        ArchiveBlockReferences_def intro!: keepsA_bind keepsA_fold split: prod.split)
qed

lemma serveAll_noLive:
  "\<forall>req \<in> set reqs. \<not> putsBlock i req \<Longrightarrow> noLive i m \<Longrightarrow> noLive i (snd (serveAll refStorage reqs m))"
proof (induction reqs arbitrary: m)
  case (Cons req reqs)
  then have "noLive i (snd (serve refStorage req m))" using serve_noLive[of i req] by (simp add: keepsA_def)
  with Cons show ?case by (auto split: prod.split) (metis snd_conv)
qed simp

text \<open>
  C27: A block that has only archived references, or none, gets no new one. However many other requests the server in
  memory answers, unless the block is put again, adding a reference to it is an error.
\<close>

theorem archived_block_stays:
  assumes "noLive i (map_of s)" and "\<forall>req \<in> set reqs. \<not> putsBlock i req"
  shows "\<exists>er. fst (serve memStorage (ReqAdd i ctx) (snd (serveAll memStorage reqs s))) = Inl (Error er)"
proof -
  obtain rs s' where s': "serveAll memStorage reqs s = (rs, s')" "serveAll refStorage reqs (map_of s) = (rs, map_of s')"
    using mem_store.serveAll_sim[of reqs s] by auto
  then have "noLive i (map_of s')" using serveAll_noLive[OF assms(2,1)] by simp
  then show ?thesis using s'
    by (auto simp: AddBlockReference_def memStorage_def mem_addReference_def noLive_def bindA_def split: option.split)
qed

theorem archived_block_stays_witness:
  "\<exists>er. fst (serve memStorage (ReqAdd bx_id (bx_ctx 6)) (snd (serveAll memStorage [ReqGet bx_id, ReqAdd bx_id (bx_ctx 8)]
     [(bx_id, zeroBlockEntry\<lparr>be_Refs := [(5, archivedBlockRef)]\<rparr>)]))) = Inl (Error er)"
proof -
  have "noLive bx_id (map_of [(bx_id, zeroBlockEntry\<lparr>be_Refs := [(5, archivedBlockRef)]\<rparr>)])"
    by (simp add: noLive_def hasLiveRef_def)
  from archived_block_stays[OF this, of "[ReqGet bx_id, ReqAdd bx_id (bx_ctx 8)]" "bx_ctx 6"] show ?thesis by simp
qed

text \<open>
  Putting a block that is there already replaces its references by the initial one. A reference that was added before
  is lost, and removing the initial one then deletes the block.
\<close>

lemma Put_again_forgets_references:
  "fst (serveAll memStorage
     [ReqPut bx_id NullTlfID (bx_ctx 0) [1] [], ReqAdd bx_id (bx_ctx 5), ReqPut bx_id NullTlfID (bx_ctx 0) [1] [],
      ReqRemove [(bx_id, [bx_ctx 0])], ReqGet bx_id] makeBserverMemStorage) =
   [Inr RespDone, Inr RespDone, Inr RespDone, Inr (RespCounts [(bx_id, 0)]), Inl (Error (BServerErrorBlockNonExistent []))]"
  by code_simp

text \<open>The count that a removal returns is the number of references that are left, archived ones included.\<close>

lemma removed_count_includes_archived:
  "fst (serveAll memStorage
     [ReqPut bx_id NullTlfID (bx_ctx 0) [1] [], ReqAdd bx_id (bx_ctx 5), ReqArchive [(bx_id, [bx_ctx 5])],
      ReqRemove [(bx_id, [bx_ctx 0])]] makeBserverMemStorage) =
   [Inr RespDone, Inr RespDone, Inr RespDone, Inr (RespCounts [(bx_id, 1)])]"
  by code_simp

end
