(* ===== verification/Kbfs_Tlf_Handle.thy ===== *)
theory Kbfs_Tlf_Handle
  imports Kbfs_Strings "HOL-Library.AList"
begin

text \<open>
  libkbfs/tlf\_handle.go, the part about \<open>BareTlfHandle\<close>: the writers and readers of a folder. A slice that is nil is the empty
  list. \<open>UID\<close> and \<open>SocialAssertion\<close> are types of the Keybase protocol.
\<close>

section \<open>Handles\<close>

record SocialAssertion =
  sa_User :: string
  sa_Service :: string

definition SocialAssertion_String :: "SocialAssertion \<Rightarrow> string" where
  "SocialAssertion_String sa = sa_User sa @ ''@'' @ sa_Service sa"

definition PublicUID :: UID where
  "PublicUID = ''ffffffffffffffffffffffffffffff00''"

record ConflictInfo =
  ci_Date :: int
  ci_Number :: "16 word"

record BareTlfHandle =
  bh_Writers :: "UID list"
  bh_Readers :: "UID list"
  bh_UnresolvedWriters :: "SocialAssertion list"
  bh_UnresolvedReaders :: "SocialAssertion list"
  bh_ConflictInfo :: "ConflictInfo option"

datatype handle_error = ErrNoWriters | ErrInvalidWriter | ErrInvalidReader

definition sortUIDs :: "UID list \<Rightarrow> UID list" where
  "sortUIDs us = sort us"

definition sortAssertions :: "SocialAssertion list \<Rightarrow> SocialAssertion list" where
  "sortAssertions sas = sort_key SocialAssertion_String sas"

definition MakeBareTlfHandle ::
  "UID list \<Rightarrow> UID list \<Rightarrow> SocialAssertion list \<Rightarrow> SocialAssertion list \<Rightarrow> ConflictInfo option \<Rightarrow>
   handle_error + BareTlfHandle" where
  "MakeBareTlfHandle writers readers unresolvedWriters unresolvedReaders conflictInfo =
     (if writers = [] then Inl ErrNoWriters
      else if PublicUID \<in> set writers then Inl ErrInvalidWriter
      else if length readers + length unresolvedReaders > 1 \<and> PublicUID \<in> set readers then Inl ErrInvalidReader
      else Inr \<lparr>bh_Writers = sortUIDs writers, bh_Readers = sortUIDs readers,
                bh_UnresolvedWriters = sortAssertions unresolvedWriters,
                bh_UnresolvedReaders = sortAssertions unresolvedReaders, bh_ConflictInfo = conflictInfo\<rparr>)"

text \<open>A Go set (a map to \<open>true\<close>) is a list without duplicates; its order does not matter, as the code sorts it.\<close>

definition resolveStep :: "UID list \<times> SocialAssertion list \<Rightarrow> SocialAssertion \<times> UID \<Rightarrow> UID list \<times> SocialAssertion list" where
  "resolveStep st au =
     (case st of (resolved, unresolved) \<Rightarrow>
        if fst au \<in> set unresolved then (List.insert (snd au) resolved, removeAll (fst au) unresolved)
        else (resolved, unresolved))"

definition resolveAssertions ::
  "(SocialAssertion \<times> UID) list \<Rightarrow> SocialAssertion list \<Rightarrow> UID list \<Rightarrow> UID list \<times> SocialAssertion list" where
  "resolveAssertions assertions unresolved resolved =
     foldl resolveStep (remdups resolved, remdups unresolved) assertions"

definition ResolveAssertions :: "BareTlfHandle \<Rightarrow> (SocialAssertion \<times> UID) list \<Rightarrow> BareTlfHandle" where
  "ResolveAssertions h assertions =
     (if assertions = [] \<or> (bh_UnresolvedWriters h = [] \<and> bh_UnresolvedReaders h = []) then h
      else let (writers, unresolvedWriters) = resolveAssertions assertions (bh_UnresolvedWriters h) (bh_Writers h);
               (readers, unresolvedReaders) = resolveAssertions assertions (bh_UnresolvedReaders h) (bh_Readers h);
               readers = filter (\<lambda>u. u \<notin> set writers) readers
           in h\<lparr>bh_Writers := sortUIDs writers, bh_Readers := sortUIDs readers,
                bh_UnresolvedWriters := sortAssertions unresolvedWriters,
                bh_UnresolvedReaders := sortAssertions unresolvedReaders\<rparr>)"

definition handle_IsPublic :: "BareTlfHandle \<Rightarrow> bool" where
  "handle_IsPublic h \<longleftrightarrow> bh_Readers h = [PublicUID]"

definition findUserInList :: "UID \<Rightarrow> UID list \<Rightarrow> bool" where
  "findUserInList user users \<longleftrightarrow> user \<in> set users"

definition handle_IsWriter :: "BareTlfHandle \<Rightarrow> UID \<Rightarrow> bool" where
  "handle_IsWriter h user = findUserInList user (bh_Writers h)"

definition handle_IsReader :: "BareTlfHandle \<Rightarrow> UID \<Rightarrow> bool" where
  "handle_IsReader h user \<longleftrightarrow> handle_IsPublic h \<or> findUserInList user (bh_Readers h) \<or> handle_IsWriter h user"

definition handle_Users :: "BareTlfHandle \<Rightarrow> UID list \<times> SocialAssertion list" where
  "handle_Users h = (bh_Writers h @ bh_Readers h, bh_UnresolvedWriters h @ bh_UnresolvedReaders h)"

section \<open>Resolving assertions\<close>

lemma resolveStep_pair [simp]:
  "resolveStep (rs, us) (a, u) = (if a \<in> set us then (List.insert u rs, removeAll a us) else (rs, us))"
  by (simp add: resolveStep_def)

lemma resolve_fold:
  "foldl resolveStep (rs, us) assertions = (rs', us') \<Longrightarrow> distinct (map fst assertions) \<Longrightarrow>
    set rs' = set rs \<union> {u. \<exists>a. (a, u) \<in> set assertions \<and> a \<in> set us} \<and>
    set us' = set us - fst ` set assertions"
proof (induction assertions arbitrary: rs us)
  case (Cons au assertions)
  obtain a u where au: "au = (a, u)" by (cases au)
  have nin: "a \<notin> fst ` set assertions" using Cons.prems(2) au by simp
  show ?case
  proof (cases "a \<in> set us")
    case True
    with Cons.prems(1) have "foldl resolveStep (List.insert u rs, removeAll a us) assertions = (rs', us')"
      by (simp add: au)
    from Cons.IH[OF this] Cons.prems(2)
    have rs': "set rs' = insert u (set rs) \<union> {u. \<exists>b. (b, u) \<in> set assertions \<and> b \<in> set us - {a}}"
      and us': "set us' = set us - {a} - fst ` set assertions" by simp_all
    have "(b, v) \<in> set assertions \<Longrightarrow> b \<noteq> a" for b v using nin by force
    then have "set rs' = set rs \<union> {u'. \<exists>b. (b, u') \<in> set ((a, u) # assertions) \<and> b \<in> set us}"
      unfolding rs' using True by auto
    moreover have "set us' = set us - fst ` set ((a, u) # assertions)" unfolding us' by auto
    ultimately show ?thesis by (simp add: au)
  next
    case False
    with Cons.prems(1) have "foldl resolveStep (rs, us) assertions = (rs', us')" by (simp add: au)
    from Cons.IH[OF this] Cons.prems(2) False show ?thesis by (auto simp: au)
  qed
qed auto

lemma resolveAssertions_sets:
  assumes "resolveAssertions assertions us rs = (rs', us')" and "distinct (map fst assertions)"
  shows "set rs' = set rs \<union> {u. \<exists>a. (a, u) \<in> set assertions \<and> a \<in> set us}" and "set us' = set us - fst ` set assertions"
  using resolve_fold[of "remdups rs" "remdups us" assertions rs' us'] assms by (simp_all add: resolveAssertions_def)

text \<open>
  C28: Resolving assertions changes the permissions of a folder exactly as it should. A user is a writer afterwards if
  they were one before or one of the unresolved writers is resolved to them. The readers who are not writers come
  about in the same way. What stays unresolved are the assertions that are not resolved.
\<close>

theorem ResolveAssertions_permissions:
  assumes "distinct (map fst assertions)" and "h' = ResolveAssertions h assertions"
  shows "(handle_IsWriter h' u \<longleftrightarrow>
      handle_IsWriter h u \<or> (\<exists>a \<in> set (bh_UnresolvedWriters h). map_of assertions a = Some u)) \<and>
    (handle_IsWriter h' u \<or> u \<in> set (bh_Readers h') \<longleftrightarrow>
      handle_IsWriter h u \<or> u \<in> set (bh_Readers h) \<or>
      (\<exists>a \<in> set (bh_UnresolvedWriters h) \<union> set (bh_UnresolvedReaders h). map_of assertions a = Some u)) \<and>
    set (bh_UnresolvedWriters h') = set (bh_UnresolvedWriters h) - dom (map_of assertions) \<and>
    set (bh_UnresolvedReaders h') = set (bh_UnresolvedReaders h) - dom (map_of assertions)"
proof (cases "assertions = [] \<or> (bh_UnresolvedWriters h = [] \<and> bh_UnresolvedReaders h = [])")
  case True
  then show ?thesis using assms(2) by (auto simp: ResolveAssertions_def)
next
  case False
  obtain ws uws where w: "resolveAssertions assertions (bh_UnresolvedWriters h) (bh_Writers h) = (ws, uws)" by fastforce
  obtain rs urs where r: "resolveAssertions assertions (bh_UnresolvedReaders h) (bh_Readers h) = (rs, urs)" by fastforce
  have h': "h' = h\<lparr>bh_Writers := sortUIDs ws, bh_Readers := sortUIDs (filter (\<lambda>u. u \<notin> set ws) rs),
      bh_UnresolvedWriters := sortAssertions uws, bh_UnresolvedReaders := sortAssertions urs\<rparr>"
    using assms(2) False w r by (simp add: ResolveAssertions_def)
  have "map_of assertions a = Some v \<longleftrightarrow> (a, v) \<in> set assertions" for a v using assms(1) by (rule map_of_eq_Some_iff)
  then show ?thesis
    using resolveAssertions_sets[OF w assms(1)] resolveAssertions_sets[OF r assms(1)]
    by (auto simp: h' handle_IsWriter_def findUserInList_def sortUIDs_def sortAssertions_def dom_map_of_conv_image_fst)
qed

theorem ResolveAssertions_permissions_witness:
  "handle_IsWriter (ResolveAssertions \<lparr>bh_Writers = [''u1''], bh_Readers = [], bh_UnresolvedWriters = [\<lparr>sa_User = ''bob'', sa_Service = ''twitter''\<rparr>],
      bh_UnresolvedReaders = [], bh_ConflictInfo = None\<rparr> [(\<lparr>sa_User = ''bob'', sa_Service = ''twitter''\<rparr>, ''u2'')]) ''u2''"
  using ResolveAssertions_permissions[of "[(\<lparr>sa_User = ''bob'', sa_Service = ''twitter''\<rparr>, ''u2'')]" _
    "\<lparr>bh_Writers = [''u1''], bh_Readers = [], bh_UnresolvedWriters = [\<lparr>sa_User = ''bob'', sa_Service = ''twitter''\<rparr>],
      bh_UnresolvedReaders = [], bh_ConflictInfo = None\<rparr>" "''u2''"] by simp

end
