(* ===== verification/Kbfs_Conflict_Info.thy ===== *)
theory Kbfs_Conflict_Info
  imports Kbfs_Tlf_Handle
begin

text \<open>
  libkbfs/conflict\_info.go: the suffix that tells apart folders with the same users, with what it uses of the Go
  packages \<open>time\<close> (days of the Gregorian calendar) and \<open>strconv\<close>.
\<close>

section \<open>Dates\<close>

definition isLeap :: "int \<Rightarrow> bool" where
  "isLeap year \<longleftrightarrow> year mod 4 = 0 \<and> (year mod 100 \<noteq> 0 \<or> year mod 400 = 0)"

definition daysBefore :: "int list" where
  "daysBefore = [0, 31, 59, 90, 120, 151, 181, 212, 243, 273, 304, 334, 365]"

text \<open>Year and day of the year of a day, counted from January 1 of the year 1.\<close>

definition yearOf :: "int \<Rightarrow> int \<times> int" where
  "yearOf d =
     (let n400 = d div 146097; d = d mod 146097;
          n100 = d div 36524; n100 = n100 - n100 div 4; d = d - 36524 * n100;
          n4 = d div 1461; d = d - 1461 * n4;
          n1 = d div 365; n1 = n1 - n1 div 4; d = d - 365 * n1
      in (1 + 400 * n400 + 100 * n100 + 4 * n4 + n1, d))"

text \<open>Month and day of a day of the year.\<close>

definition monthOf :: "bool \<Rightarrow> int \<Rightarrow> int \<times> int" where
  "monthOf leap yday =
     (if leap \<and> yday = 31 + 29 - 1 then (2, 29)
      else let day = (if leap \<and> yday > 31 + 29 - 1 then yday - 1 else yday);
               month = day div 31;
               ende = daysBefore ! nat (month + 1);
               (month, beginn) = (if day \<ge> ende then (month + 1, ende) else (month, daysBefore ! nat month))
           in (month + 1, day - beginn + 1))"

definition dayOf :: "int \<Rightarrow> int \<Rightarrow> int \<Rightarrow> int" where
  "dayOf year month day =
     (let y = year - 1
      in 365 * y + y div 4 - y div 100 + y div 400 + daysBefore ! nat (month - 1) +
         (if isLeap year \<and> month > 2 then 1 else 0) + day - 1)"

definition daysIn :: "int \<Rightarrow> int \<Rightarrow> int" where
  "daysIn month year =
     (if month = 2 \<and> isLeap year then 29 else daysBefore ! nat month - daysBefore ! nat (month - 1))"

text \<open>The day of the Unix epoch, and seconds of a day.\<close>

definition epochDay :: int where
  "epochDay = 719162"

definition secondsPerDay :: int where
  "secondsPerDay = 86400"

subsection \<open>Digits\<close>

definition digit :: "nat \<Rightarrow> char" where
  "digit n = char_of (48 + n)"

definition digitValue :: "char \<Rightarrow> nat option" where
  "digitValue c = (if 48 \<le> (of_char c :: nat) \<and> (of_char c :: nat) \<le> 57 then Some (of_char c - 48) else None)"

text \<open>\<open>strconv.FormatUint\<close> in base 10, and a number padded with zeros to a width.\<close>

fun formatNat :: "nat \<Rightarrow> string" where
  "formatNat n = (if n < 10 then [digit n] else formatNat (n div 10) @ [digit (n mod 10)])"

declare formatNat.simps [simp del]

definition padNat :: "nat \<Rightarrow> nat \<Rightarrow> string" where
  "padNat w n = (let s = formatNat n in replicate (w - length s) CHR ''0'' @ s)"

definition readDigits :: "string \<Rightarrow> nat option" where
  "readDigits s =
     fold (\<lambda>c acc. case (acc, digitValue c) of (Some n, Some d) \<Rightarrow> Some (10 * n + d) | _ \<Rightarrow> None) s (Some 0)"

definition formatYear :: "int \<Rightarrow> string" where
  "formatYear y = (if y < 0 then ''-'' @ padNat 4 (nat (- y)) else padNat 4 (nat y))"

text \<open>\<open>Format\<close> and \<open>time.Parse\<close> with the layout 2006-01-02, in UTC.\<close>

definition formatDate :: "int \<Rightarrow> string" where
  "formatDate sec =
     (let (year, yday) = yearOf (sec div secondsPerDay + epochDay);
          (month, day) = monthOf (isLeap year) yday
      in formatYear year @ ''-'' @ padNat 2 (nat month) @ ''-'' @ padNat 2 (nat day))"

definition parseDate :: "string \<Rightarrow> int option" where
  "parseDate s =
     (if length s \<noteq> 10 \<or> s ! 4 \<noteq> CHR ''-'' \<or> s ! 7 \<noteq> CHR ''-'' then None
      else case (readDigits (take 4 s), readDigits (take 2 (drop 5 s)), readDigits (drop 8 s)) of
             (Some y, Some m, Some d) \<Rightarrow>
               (if m < 1 \<or> 12 < m \<or> d < 1 \<or> int d > daysIn (int m) (int y) then None
                else Some ((dayOf (int y) (int m) (int d) - epochDay) * secondsPerDay))
           | _ \<Rightarrow> None)"

section \<open>Conflict info\<close>

datatype conflict_error = ErrConflictInfoInvalidString | ErrConflictInfoInvalidNumber | DateParseError | NumberParseError

definition ConflictInfo_String :: "ConflictInfo \<Rightarrow> string" where
  "ConflictInfo_String ci =
     (let date = formatDate (ci_Date ci);
          num = (if ci_Number ci > 1 then '' #'' @ formatNat (unat (ci_Number ci)) else [])
      in ''(conflicted copy '' @ date @ num @ '')'')"

definition newConflictInfo :: "int \<Rightarrow> 16 word \<Rightarrow> conflict_error + ConflictInfo" where
  "newConflictInfo now num =
     (if num = 0 then Inl ErrConflictInfoInvalidNumber
      else case parseDate (formatDate now) of
             None \<Rightarrow> Inl DateParseError
           | Some date \<Rightarrow> Inr \<lparr>ci_Date = date, ci_Number = num\<rparr>)"

text \<open>The two groups that the regular expression \<open>ConflictInfoRegex\<close> finds in a string that matches it.\<close>

definition allDigits :: "string \<Rightarrow> bool" where
  "allDigits s = list_all (\<lambda>c. digitValue c \<noteq> None) s"

definition dateRegex :: "string \<Rightarrow> bool" where
  "dateRegex s \<longleftrightarrow> length s = 10 \<and> s ! 0 = CHR ''2'' \<and> allDigits (take 3 (drop 1 s)) \<and> s ! 4 = CHR ''-'' \<and>
     allDigits (take 2 (drop 5 s)) \<and> s ! 7 = CHR ''-'' \<and> allDigits (drop 8 s)"

definition conflictInfoMatch :: "string \<Rightarrow> (string \<times> string) option" where
  "conflictInfoMatch s =
     (let pre = ''(conflicted copy '';
          n = length pre;
          date = take 10 (drop n s);
          rest = drop (n + 10) s
      in if take n s \<noteq> pre \<or> \<not> dateRegex date then None
         else if rest = '')'' then Some (date, [])
         else if length rest \<ge> 4 \<and> take 2 rest = '' #'' \<and> last rest = CHR '')'' \<and> allDigits (butlast (drop 2 rest))
         then Some (date, butlast (drop 2 rest))
         else None)"

definition ParseConflictInfo :: "string \<Rightarrow> conflict_error + ConflictInfo" where
  "ParseConflictInfo s =
     (case conflictInfoMatch s of
        None \<Rightarrow> Inl ErrConflictInfoInvalidString
      | Some (d, n) \<Rightarrow>
          (case parseDate d of
             None \<Rightarrow> Inl DateParseError
           | Some date \<Rightarrow>
               if n = [] then Inr \<lparr>ci_Date = date, ci_Number = 1\<rparr>
               else (case readDigits n of
                       None \<Rightarrow> Inl NumberParseError
                     | Some num \<Rightarrow>
                         if num \<ge> 2 ^ 16 then Inl NumberParseError
                         else if num < 2 then Inl ErrConflictInfoInvalidNumber
                         else Inr \<lparr>ci_Date = date, ci_Number = of_nat num\<rparr>)))"

section \<open>Days and dates\<close>

lemma div4_small: "0 \<le> x \<Longrightarrow> x \<le> 4 \<Longrightarrow> x div 4 = (if x = 4 then 1 else (0 :: int))"
  by (auto simp: div_pos_pos_trivial)

lemma yearOf_parts:
  assumes "yearOf d = (year, yday)"
  shows "\<exists>a b c n. year = 1 + 400 * a + 100 * b + 4 * c + n \<and> d = 146097 * a + 36524 * b + 1461 * c + 365 * n + yday \<and>
    0 \<le> b \<and> b \<le> 3 \<and> 0 \<le> c \<and> c \<le> 24 \<and> 0 \<le> n \<and> n \<le> 3 \<and> 0 \<le> yday \<and> yday \<le> 365 \<and>
    (yday = 365 \<longrightarrow> n = 3 \<and> (c < 24 \<or> b = 3))"
proof -
  define a r where "a = d div 146097" and "r = d mod 146097"
  define b0 where "b0 = r div 36524"
  define b where "b = b0 - b0 div 4"
  define r2 where "r2 = r - 36524 * b"
  define c where "c = r2 div 1461"
  define r3 where "r3 = r2 - 1461 * c"
  define n0 where "n0 = r3 div 365"
  define n where "n = n0 - n0 div 4"
  have r: "0 \<le> r" "r < 146097" "d = 146097 * a + r" by (simp_all add: a_def r_def)
  have b0: "0 \<le> b0" "b0 \<le> 4" "36524 * b0 \<le> r" "r < 36524 * b0 + 36524" using r by (auto simp: b0_def)
  have b: "0 \<le> b" "b \<le> 3" "0 \<le> r2" "r2 \<le> 36524" "r2 = 36524 \<longrightarrow> b = 3"
    using b0 r div4_small[of b0] by (auto simp: b_def r2_def split: if_splits)
  have c: "0 \<le> c" "c \<le> 24" "1461 * c \<le> r2" "r2 < 1461 * c + 1461" using b by (auto simp: c_def)
  have r3: "0 \<le> r3" "r3 \<le> 1460" "r3 = 1460 \<longrightarrow> c < 24 \<or> b = 3" using b c by (auto simp: r3_def)
  have n0: "0 \<le> n0" "n0 \<le> 4" "365 * n0 \<le> r3" "r3 < 365 * n0 + 365" using r3 by (auto simp: n0_def)
  have yd: "yday = r3 - 365 * n" and y: "year = 1 + 400 * a + 100 * b + 4 * c + n"
    using assms unfolding yearOf_def Let_def n_def n0_def r3_def c_def r2_def b_def b0_def r_def a_def by (simp_all only: prod.inject)
  show ?thesis
  proof (intro exI conjI)
    show "year = 1 + 400 * a + 100 * b + 4 * c + n" by (rule y)
    show "d = 146097 * a + 36524 * b + 1461 * c + 365 * n + yday" using r(3) by (simp add: yd r3_def r2_def)
    show "0 \<le> n" "n \<le> 3" "0 \<le> yday" "yday \<le> 365" using n0 r3 div4_small[of n0] by (auto simp: n_def yd split: if_splits)
    show "yday = 365 \<longrightarrow> n = 3 \<and> (c < 24 \<or> b = 3)" using n0 r3 div4_small[of n0] by (auto simp: n_def yd split: if_splits)
  qed (use b c in auto)
qed

lemma div_mod_parts: "0 \<le> r \<Longrightarrow> r < k \<Longrightarrow> x = k * q + r \<Longrightarrow> x div k = q \<and> x mod k = (r :: int)"
  by auto

lemma year_divs:
  assumes "0 \<le> b" "b \<le> 3" "0 \<le> c" "c \<le> 24" "0 \<le> n" "n \<le> (3 :: int)" and y: "y = 400 * a + 100 * b + 4 * c + n"
  shows "y div 4 = 100 * a + 25 * b + c" and "y div 100 = 4 * a + b" and "y div 400 = a"
    and "isLeap (1 + y) \<longleftrightarrow> n = 3 \<and> (c < 24 \<or> b = 3)"
proof -
  show "y div 4 = 100 * a + 25 * b + c" "y div 100 = 4 * a + b" "y div 400 = a"
    using div_mod_parts[of n 4 y "100 * a + 25 * b + c"] div_mod_parts[of "4 * c + n" 100 y "4 * a + b"]
      div_mod_parts[of "100 * b + 4 * c + n" 400 y a] assms by auto
  have m4: "(1 + y) mod 4 = 0 \<longleftrightarrow> n = 3"
    using div_mod_parts[of "n + 1" 4 "1 + y" "100 * a + 25 * b + c"] div_mod_parts[of 0 4 "1 + y" "100 * a + 25 * b + c + 1"] assms
    by (cases "n = 3") auto
  have m100: "(1 + y) mod 100 = 0 \<longleftrightarrow> c = 24 \<and> n = 3"
    using div_mod_parts[of "4 * c + n + 1" 100 "1 + y" "4 * a + b"] div_mod_parts[of 0 100 "1 + y" "4 * a + b + 1"] assms
    by (cases "c = 24 \<and> n = 3") auto
  have m400: "(1 + y) mod 400 = 0 \<longleftrightarrow> b = 3 \<and> c = 24 \<and> n = 3"
    using div_mod_parts[of "100 * b + 4 * c + n + 1" 400 "1 + y" a] div_mod_parts[of 0 400 "1 + y" "a + 1"] assms
    by (cases "b = 3 \<and> c = 24 \<and> n = 3") auto
  show "isLeap (1 + y) \<longleftrightarrow> n = 3 \<and> (c < 24 \<or> b = 3)" using assms m4 m100 m400 by (auto simp: isLeap_def)
qed

definition monthDay_ok :: "bool \<Rightarrow> int \<Rightarrow> bool" where
  "monthDay_ok leap yday \<longleftrightarrow>
     (case monthOf leap yday of (m, d) \<Rightarrow>
        1 \<le> m \<and> m \<le> 12 \<and> 1 \<le> d \<and> d \<le> 31 \<and>
        d \<le> (if m = 2 \<and> leap then 29 else daysBefore ! nat m - daysBefore ! nat (m - 1)) \<and>
        daysBefore ! nat (m - 1) + (if leap \<and> m > 2 then 1 else 0) + d - 1 = yday)"

lemma daysBefore_nth:
  "daysBefore ! 0 = 0" "daysBefore ! Suc 0 = 31" "daysBefore ! 1 = 31" "daysBefore ! 2 = 59" "daysBefore ! 3 = 90"
  "daysBefore ! 4 = 120" "daysBefore ! 5 = 151" "daysBefore ! 6 = 181" "daysBefore ! 7 = 212" "daysBefore ! 8 = 243"
  "daysBefore ! 9 = 273" "daysBefore ! 10 = 304" "daysBefore ! 11 = 334" "daysBefore ! 12 = 365"
  by (simp_all add: daysBefore_def)

lemma below_12:
  "0 \<le> k \<and> k \<le> (11 :: int) \<Longrightarrow> k = 0 \<or> k = 1 \<or> k = 2 \<or> k = 3 \<or> k = 4 \<or> k = 5 \<or> k = 6 \<or> k = 7 \<or> k = 8 \<or> k = 9 \<or> k = 10 \<or> k = 11"
  by presburger

lemma monthDay: "0 \<le> yday \<Longrightarrow> yday \<le> 365 \<Longrightarrow> (yday = 365 \<Longrightarrow> leap) \<Longrightarrow> monthDay_ok leap yday"
proof (cases "leap \<and> yday = 59")
  case True
  then show ?thesis by (simp add: monthDay_ok_def monthOf_def daysBefore_nth)
next
  case False
  assume y: "0 \<le> yday" "yday \<le> 365" "yday = 365 \<Longrightarrow> leap"
  define day where "day = (if leap \<and> yday > 59 then yday - 1 else yday)"
  have "yday < 365" if "\<not> leap" using y that by (cases "yday = 365") auto
  then have day: "0 \<le> day" "day \<le> 364" using y by (auto simp: day_def)
  have m: "monthOf leap yday = (let month = day div 31; ende = daysBefore ! nat (month + 1);
      (month, beginn) = (if day \<ge> ende then (month + 1, ende) else (month, daysBefore ! nat month)) in (month + 1, day - beginn + 1))"
    using False by (cases leap) (simp_all add: monthOf_def day_def)
  have "0 \<le> day div 31 \<and> day div 31 \<le> 11" using day by auto
  then have "day div 31 = 0 \<or> day div 31 = 1 \<or> day div 31 = 2 \<or> day div 31 = 3 \<or> day div 31 = 4 \<or> day div 31 = 5 \<or>
      day div 31 = 6 \<or> day div 31 = 7 \<or> day div 31 = 8 \<or> day div 31 = 9 \<or> day div 31 = 10 \<or> day div 31 = 11"
    by (rule below_12)
  then show ?thesis using False y day_def unfolding monthDay_ok_def m Let_def
    by (elim disjE) (auto simp: daysBefore_nth split: if_splits)
qed

text \<open>A day is the day of its date.\<close>

lemma dayOf_date:
  assumes "yearOf d = (year, yday)" and "monthOf (isLeap year) yday = (month, day)"
  shows "dayOf year month day = d" and "1 \<le> month" "month \<le> 12" "1 \<le> day" "day \<le> 31" "day \<le> daysIn month year"
proof -
  from yearOf_parts[OF assms(1)] obtain a b c n where p: "year = 1 + (400 * a + 100 * b + 4 * c + n)"
    "d = 146097 * a + 36524 * b + 1461 * c + 365 * n + yday" "0 \<le> b" "b \<le> 3" "0 \<le> c" "c \<le> 24" "0 \<le> n" "n \<le> 3"
    "0 \<le> yday" "yday \<le> 365" "yday = 365 \<longrightarrow> n = 3 \<and> (c < 24 \<or> b = 3)" by (auto simp: algebra_simps)
  note yd = year_divs[OF p(3-8) refl, of a]
  have "monthDay_ok (isLeap year) yday" by (rule monthDay) (use p yd(4) in auto)
  then have m: "1 \<le> month" "month \<le> 12" "1 \<le> day" "day \<le> 31"
    "day \<le> (if month = 2 \<and> isLeap year then 29 else daysBefore ! nat month - daysBefore ! nat (month - 1))"
    "daysBefore ! nat (month - 1) + (if isLeap year \<and> month > 2 then 1 else 0) + day - 1 = yday"
    using assms(2) by (simp_all add: monthDay_ok_def)
  show "1 \<le> month" "month \<le> 12" "1 \<le> day" "day \<le> 31" by (rule m)+
  show "day \<le> daysIn month year" using m(5) by (simp add: daysIn_def)
  have "dayOf year month day = 365 * (year - 1) + (year - 1) div 4 - (year - 1) div 100 + (year - 1) div 400 + yday"
    using m(6) by (simp add: dayOf_def Let_def)
  also have "\<dots> = d" using yd(1-3) p(1,2) by simp
  finally show "dayOf year month day = d" .
qed

section \<open>Digits\<close>

lemma digitValue_digit [simp]: "n < 10 \<Longrightarrow> digitValue (digit n) = Some n"
  by (simp add: digitValue_def digit_def)

lemma readDigits_snoc: "readDigits (s @ [c]) = (case (readDigits s, digitValue c) of (Some n, Some d) \<Rightarrow> Some (10 * n + d) | _ \<Rightarrow> None)"
  by (simp add: readDigits_def)

lemma readDigits_formatNat [simp]: "readDigits (formatNat n) = Some n"
proof (induction n rule: formatNat.induct)
  case (1 n)
  then show ?case
    by (cases "n < 10") (simp_all add: formatNat.simps[of n] readDigits_snoc, simp add: readDigits_def)
qed

lemma readDigits_zeros: "readDigits (replicate k CHR ''0'' @ s) = readDigits s"
proof (induction k)
  case (Suc k)
  have "digitValue CHR ''0'' = Some 0" by code_simp
  then show ?case using Suc by (simp add: readDigits_def)
qed simp

lemma length_formatNat: "n < 10 ^ w \<Longrightarrow> w > 0 \<Longrightarrow> length (formatNat n) \<le> w \<and> length (formatNat n) > 0"
proof (induction n arbitrary: w rule: formatNat.induct)
  case (1 n)
  show ?case
  proof (cases "n < 10")
    case True
    then show ?thesis using 1 by (simp add: formatNat.simps[of n])
  next
    case False
    obtain v where v: "w = Suc v" using 1(3) by (cases w) auto
    with False 1(2) have "n div 10 < 10 ^ v" "v > 0" by (auto intro: ccontr)
    with 1(1)[OF False] False v show ?thesis by (simp add: formatNat.simps[of n])
  qed
qed

lemma padNat_props:
  assumes "n < 10 ^ w" and "w > 0"
  shows "length (padNat w n) = w" and "readDigits (padNat w n) = Some n"
  using length_formatNat[OF assms] by (simp_all add: padNat_def Let_def readDigits_zeros)

lemma allDigits_formatNat [simp]: "allDigits (formatNat n)"
proof (induction n rule: formatNat.induct)
  case (1 n)
  then show ?case by (cases "n < 10") (simp_all add: formatNat.simps[of n] allDigits_def)
qed

lemma allDigits_padNat [simp]: "allDigits (padNat w n)"
proof -
  have "digitValue CHR ''0'' = Some 0" by code_simp
  then show ?thesis using allDigits_formatNat[of n] by (auto simp: padNat_def Let_def allDigits_def list_all_iff)
qed

lemma padNat_4:
  assumes "2000 \<le> n" and "n < 3000"
  shows "\<exists>t. padNat 4 n = CHR ''2'' # t"
proof -
  have d: "digit 2 = CHR ''2''" by code_simp
  from assms have "n div 1000 = 2" by auto
  then have "n div 10 div 10 div 10 = 2" by (simp add: div_mult2_eq[symmetric])
  moreover have "200 \<le> n div 10" using div_le_mono[OF assms(1), of 10] by simp
  then have "\<not> n div 10 < 10" "\<not> n div 10 div 10 < 10" using div_le_mono[of 200 "n div 10" 10] by simp_all
  ultimately have "formatNat n = [CHR ''2'', digit (n div 10 div 10 mod 10), digit (n div 10 mod 10), digit (n mod 10)]"
    using assms d by (simp add: formatNat.simps[of n] formatNat.simps[of "n div 10"] formatNat.simps[of "n div 10 div 10"]
      formatNat.simps[of 2])
  then show ?thesis by (simp add: padNat_def Let_def)
qed

lemma formatDate_parts:
  assumes "yearOf (sec div secondsPerDay + epochDay) = (year, yday)" and "2000 \<le> year" and "year < 3000"
  shows "\<exists>ys ms ds. formatDate sec = ys @ ''-'' @ ms @ ''-'' @ ds \<and> length ys = 4 \<and> length ms = 2 \<and> length ds = 2 \<and>
    ys ! 0 = CHR ''2'' \<and> allDigits ys \<and> allDigits ms \<and> allDigits ds \<and>
    (\<exists>m d. readDigits ys = Some (nat year) \<and> readDigits ms = Some (nat m) \<and> readDigits ds = Some (nat d) \<and>
       1 \<le> m \<and> m \<le> 12 \<and> 1 \<le> d \<and> d \<le> daysIn m year \<and> dayOf year m d = sec div secondsPerDay + epochDay)"
proof -
  obtain m d where md: "monthOf (isLeap year) yday = (m, d)" by (cases "monthOf (isLeap year) yday")
  note dd = dayOf_date[OF assms(1) md]
  have y: "nat year < 10 ^ 4" "nat m < 10 ^ 2" "nat d < 10 ^ 2" using assms(2,3) dd by auto
  have "formatDate sec = padNat 4 (nat year) @ ''-'' @ padNat 2 (nat m) @ ''-'' @ padNat 2 (nat d)"
    using assms md by (simp add: formatDate_def formatYear_def)
  moreover obtain t where "padNat 4 (nat year) = CHR ''2'' # t" using padNat_4[of "nat year"] assms(2,3) by fastforce
  then have "padNat 4 (nat year) ! 0 = CHR ''2''" by simp
  ultimately show ?thesis
    using padNat_props[OF y(1)] padNat_props[OF y(2)] padNat_props[OF y(3)] dd
    by (intro exI[of _ "padNat 4 (nat year)"] exI[of _ "padNat 2 (nat m)"] exI[of _ "padNat 2 (nat d)"] exI[of _ m] exI[of _ d]) auto
qed

lemma formatDate_props:
  assumes "yearOf (sec div secondsPerDay + epochDay) = (year, yday)" and "2000 \<le> year" and "year < 3000"
  shows "dateRegex (formatDate sec)" and "length (formatDate sec) = 10"
    and "parseDate (formatDate sec) = Some (sec div secondsPerDay * secondsPerDay)"
proof -
  from formatDate_parts[OF assms] obtain ys ms ds m d where f: "formatDate sec = ys @ ''-'' @ ms @ ''-'' @ ds"
    and len: "length ys = 4" "length ms = 2" "length ds = 2" and c: "ys ! 0 = CHR ''2''" "allDigits ys" "allDigits ms" "allDigits ds"
    and r: "readDigits ys = Some (nat year)" "readDigits ms = Some (nat m)" "readDigits ds = Some (nat d)"
      "1 \<le> m" "m \<le> 12" "1 \<le> d" "d \<le> daysIn m year" "dayOf year m d = sec div secondsPerDay + epochDay" by blast
  have parts: "take 4 (formatDate sec) = ys" "take 2 (drop 5 (formatDate sec)) = ms" "drop 8 (formatDate sec) = ds"
    "formatDate sec ! 4 = CHR ''-''" "formatDate sec ! 7 = CHR ''-''" "formatDate sec ! 0 = CHR ''2''"
    "take 3 (drop 1 (formatDate sec)) = drop 1 ys"
    using len c(1) by (simp_all add: f nth_append numeral_eq_Suc)
  show len10: "length (formatDate sec) = 10" using len by (simp add: f)
  have "allDigits (drop 1 ys)" using c(2) by (auto simp: allDigits_def list_all_iff dest: in_set_dropD)
  then show "dateRegex (formatDate sec)" using len10 parts c by (simp add: dateRegex_def)
  show "parseDate (formatDate sec) = Some (sec div secondsPerDay * secondsPerDay)"
    unfolding parseDate_def parts using len10 r assms(2) by auto
qed

text \<open>
  C39: A conflict suffix survives printing and parsing: for a day of the years 2000 to 2999 and a number that is not 0,
  \<open>ParseConflictInfo\<close> gives back the conflict info that was printed.
\<close>

theorem ConflictInfo_roundtrip:
  assumes "ci_Date ci mod secondsPerDay = 0" and "fst (yearOf (ci_Date ci div secondsPerDay + epochDay)) \<in> {2000..2999}"
    and "ci_Number ci \<noteq> 0"
  shows "ParseConflictInfo (ConflictInfo_String ci) = Inr ci"
proof -
  let ?d = "formatDate (ci_Date ci)"
  obtain year yday where y: "yearOf (ci_Date ci div secondsPerDay + epochDay) = (year, yday)" by fastforce
  with assms(2) have "2000 \<le> year" "year < 3000" by auto
  note fd = formatDate_props[OF y this]
  have date: "parseDate ?d = Some (ci_Date ci)" using fd(3) assms(1) by (metis div_mult_mod_eq add.right_neutral)
  show ?thesis
  proof (cases "ci_Number ci > 1")
    case True
    let ?n = "formatNat (unat (ci_Number ci))"
    have "?n \<noteq> []" by (simp add: formatNat.simps[of "unat (ci_Number ci)"])
    moreover have "conflictInfoMatch (ConflictInfo_String ci) = Some (?d, ?n)"
      using True fd(1,2) \<open>?n \<noteq> []\<close> by (auto simp: conflictInfoMatch_def ConflictInfo_String_def Let_def Suc_le_eq)
    moreover have "unat (ci_Number ci) < 2 ^ 16" using unsigned_less[of "ci_Number ci"] by simp
    moreover have "2 \<le> unat (ci_Number ci)" using True by (simp add: word_less_nat_alt)
    ultimately show ?thesis using date by (simp add: ParseConflictInfo_def)
  next
    case False
    then have "ci_Number ci = 1" using assms(3) by (metis linorder_not_less word_le_less_eq word_less_1)
    moreover have "conflictInfoMatch (ConflictInfo_String ci) = Some (?d, [])"
      using False fd(1,2) by (simp add: conflictInfoMatch_def ConflictInfo_String_def Let_def)
    ultimately show ?thesis using date by (simp add: ParseConflictInfo_def)
  qed
qed

theorem ConflictInfo_roundtrip_witness:
  "ConflictInfo_String \<lparr>ci_Date = 1457913600, ci_Number = 2\<rparr> = ''(conflicted copy 2016-03-14 #2)'' \<and>
   ParseConflictInfo ''(conflicted copy 2016-03-14 #2)'' = Inr \<lparr>ci_Date = 1457913600, ci_Number = 2\<rparr>"
proof -
  have s: "ConflictInfo_String \<lparr>ci_Date = 1457913600, ci_Number = 2\<rparr> = ''(conflicted copy 2016-03-14 #2)''" by code_simp
  have "ParseConflictInfo (ConflictInfo_String \<lparr>ci_Date = 1457913600, ci_Number = 2\<rparr>) = Inr \<lparr>ci_Date = 1457913600, ci_Number = 2\<rparr>"
    by (rule ConflictInfo_roundtrip) (simp_all add: secondsPerDay_def epochDay_def yearOf_def)
  with s show ?thesis by simp
qed

end
