(* ===== verification/Kbfs_Tlf_Name.thy ===== *)
theory Kbfs_Tlf_Name
  imports Kbfs_Conflict_Info "HOL-Library.Multiset"
begin

text \<open>
  libkbfs/tlf\_handle.go, the part about \<open>TlfHandle\<close>: handles with the names of the users, and the canonical names
  of folders. Resolving names and assertions is work of the Keybase service and its library, which are parameters.
\<close>

section \<open>Handles with names\<close>

record nameUIDPair =
  np_name :: string
  np_uid :: UID

definition zeroNameUID :: nameUIDPair where
  "zeroNameUID = \<lparr>np_name = [], np_uid = []\<rparr>"

definition zeroAssertion :: SocialAssertion where
  "zeroAssertion = \<lparr>sa_User = [], sa_Service = []\<rparr>"

record TlfHandle =
  th_BareTlfHandle :: BareTlfHandle
  th_resolvedWriters :: "(UID \<times> string) list"
  th_resolvedReaders :: "(UID \<times> string) list"
  th_name :: string

datatype tlf_error =
    HandleError handle_error
  | PublicFolderWithReaders
  | EmptyResolution
  | InvalidNameError string
  | NoSuchUserError string
  | BadTLFNameError string
  | NoSuchTlfNameError string
  | TlfNameNotCanonical string string
  | ReadAccessError string string bool
  | ConflictSuffixError conflict_error
  | ServiceError string
  | HandleMismatch
  | HandleWithoutName

text \<open>
  What comes from the Keybase service and library: names of users, resolving an assertion, the forms that names and
  assertions have, the current user, identifying the users of a handle. \<open>te_assertion\<close> says of a string that is an
  assertion whether it is only a user name. The users of a handle are resolved at the same time; \<open>te_arrive\<close> is the
  order in which the results arrive.
\<close>

datatype resolveMsg = MsgError tlf_error | MsgUser nameUIDPair | MsgAssertion SocialAssertion

record tlfEnv =
  te_getNormalizedUsername :: "UID \<Rightarrow> tlf_error + string"
  te_resolve :: "string \<Rightarrow> tlf_error + (string \<times> UID)"
  te_normalizeSocialAssertion :: "string \<Rightarrow> SocialAssertion option"
  te_checkUsername :: "string \<Rightarrow> bool"
  te_normalizedUsername :: "string \<Rightarrow> string"
  te_assertion :: "string \<Rightarrow> bool option"
  te_currentUser :: "tlf_error + (string \<times> UID)"
  te_identify :: "TlfHandle \<Rightarrow> tlf_error option"
  te_arrive :: "(bool \<times> resolveMsg) list \<Rightarrow> (bool \<times> resolveMsg) list"

definition PublicUIDName :: string where
  "PublicUIDName = ''_public''"

definition ReaderSep :: char where
  "ReaderSep = CHR ''#''"

definition ConflictSuffixSep :: char where
  "ConflictSuffixSep = CHR '' ''"

section \<open>Resolving users\<close>

datatype resolvableUser =
    ResolvableUID UID
  | ResolvableSocialAssertion SocialAssertion
  | ResolvableNameUIDPair nameUIDPair
  | ResolvableAssertion bool string UID

definition unknownAssertion ::
  "tlfEnv \<Rightarrow> bool \<Rightarrow> string \<Rightarrow> tlf_error \<Rightarrow> tlf_error + (nameUIDPair \<times> SocialAssertion)" where
  "unknownAssertion e sharingBeforeSignupEnabled assertion err =
     (if \<not> sharingBeforeSignupEnabled then Inl err
      else case te_normalizeSocialAssertion e assertion of
             None \<Rightarrow> Inl err
           | Some sa \<Rightarrow> Inr (zeroNameUID, sa))"

fun resolve :: "tlfEnv \<Rightarrow> resolvableUser \<Rightarrow> tlf_error + (nameUIDPair \<times> SocialAssertion)" where
  "resolve e (ResolvableUID uid) =
     (case te_getNormalizedUsername e uid of
        Inl err \<Rightarrow> Inl err
      | Inr name \<Rightarrow> Inr (\<lparr>np_name = name, np_uid = uid\<rparr>, zeroAssertion))"
| "resolve e (ResolvableSocialAssertion sa) = Inr (zeroNameUID, sa)"
| "resolve e (ResolvableNameUIDPair p) = Inr (p, zeroAssertion)"
| "resolve e (ResolvableAssertion sharingBeforeSignupEnabled assertion mustBeUser) =
     (if assertion = PublicUIDName then Inl (InvalidNameError assertion)
      else case te_resolve e assertion of
             Inr (name, uid) \<Rightarrow>
               if mustBeUser \<noteq> [] \<and> mustBeUser \<noteq> uid
               then unknownAssertion e sharingBeforeSignupEnabled assertion (NoSuchUserError assertion)
               else Inr (\<lparr>np_name = name, np_uid = uid\<rparr>, zeroAssertion)
           | Inl (NoSuchUserError s) \<Rightarrow> unknownAssertion e sharingBeforeSignupEnabled assertion (NoSuchUserError s)
           | Inl err \<Rightarrow> Inl err)"

definition resolveOneUser :: "tlfEnv \<Rightarrow> resolvableUser \<Rightarrow> resolveMsg" where
  "resolveOneUser e user =
     (case resolve e user of
        Inl err \<Rightarrow> MsgError err
      | Inr (userInfo, sa) \<Rightarrow>
          if userInfo \<noteq> zeroNameUID then MsgUser userInfo
          else if sa \<noteq> zeroAssertion then MsgAssertion sa
          else MsgError EmptyResolution)"

text \<open>What the receiving loop has collected.\<close>

record collected =
  cl_wNames :: "(UID \<times> string) list"
  cl_rNames :: "(UID \<times> string) list"
  cl_unresolvedWriters :: "SocialAssertion list"
  cl_unresolvedReaders :: "SocialAssertion list"

definition noneCollected :: collected where
  "noneCollected = \<lparr>cl_wNames = [], cl_rNames = [], cl_unresolvedWriters = [], cl_unresolvedReaders = []\<rparr>"

fun collectMsg :: "bool \<times> resolveMsg \<Rightarrow> collected \<Rightarrow> collected" where
  "collectMsg (True, MsgUser p) c = c\<lparr>cl_wNames := AList.update (np_uid p) (np_name p) (cl_wNames c)\<rparr>"
| "collectMsg (False, MsgUser p) c = c\<lparr>cl_rNames := AList.update (np_uid p) (np_name p) (cl_rNames c)\<rparr>"
| "collectMsg (True, MsgAssertion sa) c = c\<lparr>cl_unresolvedWriters := List.insert sa (cl_unresolvedWriters c)\<rparr>"
| "collectMsg (False, MsgAssertion sa) c = c\<lparr>cl_unresolvedReaders := List.insert sa (cl_unresolvedReaders c)\<rparr>"
| "collectMsg (_, MsgError err) c = c"

fun collectMsgs :: "(bool \<times> resolveMsg) list \<Rightarrow> collected \<Rightarrow> tlf_error + collected" where
  "collectMsgs [] c = Inr c"
| "collectMsgs ((_, MsgError err) # msgs) c = Inl err"
| "collectMsgs (msg # msgs) c = collectMsgs msgs (collectMsg msg c)"

definition getSortedNames :: "(UID \<times> string) list \<Rightarrow> SocialAssertion list \<Rightarrow> string list" where
  "getSortedNames uidToName unresolved = sort (map snd uidToName @ map SocialAssertion_String unresolved)"

definition getSortedHandleLists ::
  "(UID \<times> string) list \<Rightarrow> SocialAssertion list \<Rightarrow> UID list \<times> SocialAssertion list" where
  "getSortedHandleLists uidToName unresolved = (sortUIDs (map fst uidToName), sortAssertions unresolved)"

definition tlfName :: "bool \<Rightarrow> string list \<Rightarrow> string list \<Rightarrow> ConflictInfo option \<Rightarrow> string" where
  "tlfName public writerNames readerNames conflictInfo =
     strings_Join writerNames '','' @
     (if \<not> public \<and> readerNames \<noteq> [] then ReaderSep # strings_Join readerNames '','' else []) @
     (case conflictInfo of None \<Rightarrow> [] | Some ci \<Rightarrow> ConflictSuffixSep # ConflictInfo_String ci)"

definition handleFrom :: "bool \<Rightarrow> collected \<Rightarrow> ConflictInfo option \<Rightarrow> tlf_error + TlfHandle" where
  "handleFrom public c conflictInfo =
     (let rNames = filter (\<lambda>(uid, _). uid \<notin> fst ` set (cl_wNames c)) (cl_rNames c);
          uReaders = filter (\<lambda>sa. sa \<notin> set (cl_unresolvedWriters c)) (cl_unresolvedReaders c);
          (writerUIDs, unresolvedWriters) = getSortedHandleLists (cl_wNames c) (cl_unresolvedWriters c);
          (readerUIDs, unresolvedReaders) =
            (if public then ([PublicUID], []) else getSortedHandleLists rNames uReaders)
      in case MakeBareTlfHandle writerUIDs readerUIDs unresolvedWriters unresolvedReaders conflictInfo of
           Inl err \<Rightarrow> Inl (HandleError err)
         | Inr bareHandle \<Rightarrow>
             Inr \<lparr>th_BareTlfHandle = bareHandle, th_resolvedWriters = cl_wNames c, th_resolvedReaders = rNames,
                  th_name = tlfName public (getSortedNames (cl_wNames c) unresolvedWriters)
                              (getSortedNames rNames unresolvedReaders) conflictInfo\<rparr>)"

definition makeTlfHandleHelper ::
  "tlfEnv \<Rightarrow> bool \<Rightarrow> resolvableUser list \<Rightarrow> resolvableUser list \<Rightarrow> ConflictInfo option \<Rightarrow> tlf_error + TlfHandle" where
  "makeTlfHandleHelper e public writers readers conflictInfo =
     (if public \<and> readers \<noteq> [] then Inl PublicFolderWithReaders
      else case collectMsgs
                  (te_arrive e (map (\<lambda>u. (True, resolveOneUser e u)) writers @ map (\<lambda>u. (False, resolveOneUser e u)) readers))
                  noneCollected of
             Inl err \<Rightarrow> Inl err
           | Inr c \<Rightarrow> handleFrom public c conflictInfo)"

text \<open>A panic where the handle that is made differs from the given one.\<close>

definition MakeTlfHandle :: "tlfEnv \<Rightarrow> BareTlfHandle \<Rightarrow> (tlf_error, TlfHandle) result" where
  "MakeTlfHandle e bareHandle =
     (let writers = map ResolvableUID (bh_Writers bareHandle) @ map ResolvableSocialAssertion (bh_UnresolvedWriters bareHandle);
          readers = (if handle_IsPublic bareHandle then []
                     else map ResolvableUID (bh_Readers bareHandle) @
                          map ResolvableSocialAssertion (bh_UnresolvedReaders bareHandle))
      in case makeTlfHandleHelper e (handle_IsPublic bareHandle) writers readers (bh_ConflictInfo bareHandle) of
           Inl err \<Rightarrow> Inl (Error err)
         | Inr h \<Rightarrow> if th_BareTlfHandle h \<noteq> bareHandle then Inl (Panic HandleMismatch) else Inr h)"

definition GetCanonicalName :: "TlfHandle \<Rightarrow> (tlf_error, string) result" where
  "GetCanonicalName h = (if th_name h = [] then Inl (Panic HandleWithoutName) else Inr (th_name h))"

definition buildCanonicalPath :: "bool \<Rightarrow> string \<Rightarrow> string" where
  "buildCanonicalPath public canonicalName =
     ''/keybase/'' @ (if public then ''public'' else ''private'') @ ''/'' @ canonicalName"

definition GetCanonicalPath :: "TlfHandle \<Rightarrow> (tlf_error, string) result" where
  "GetCanonicalPath h =
     bindR (GetCanonicalName h) (\<lambda>name. Inr (buildCanonicalPath (handle_IsPublic (th_BareTlfHandle h)) name))"

definition ToFavorite :: "TlfHandle \<Rightarrow> (tlf_error, Favorite) result" where
  "ToFavorite h =
     bindR (GetCanonicalName h) (\<lambda>name.
       Inr \<lparr>fav_Name = name, fav_Public = handle_IsPublic (th_BareTlfHandle h), fav_created = False\<rparr>)"

definition ResolveAgainForUser :: "tlfEnv \<Rightarrow> TlfHandle \<Rightarrow> UID \<Rightarrow> tlf_error + TlfHandle" where
  "ResolveAgainForUser e h uid =
     (let b = th_BareTlfHandle h;
          again = map (\<lambda>sa. ResolvableAssertion True (SocialAssertion_String sa) uid);
          known = map (\<lambda>(uid, name). ResolvableNameUIDPair \<lparr>np_name = name, np_uid = uid\<rparr>)
      in if bh_UnresolvedWriters b = [] \<and> bh_UnresolvedReaders b = [] then Inr h
         else makeTlfHandleHelper e (handle_IsPublic b)
                (known (th_resolvedWriters h) @ again (bh_UnresolvedWriters b))
                (if handle_IsPublic b then [] else known (th_resolvedReaders h) @ again (bh_UnresolvedReaders b))
                (bh_ConflictInfo b))"

definition ResolveAgain :: "tlfEnv \<Rightarrow> TlfHandle \<Rightarrow> tlf_error + TlfHandle" where
  "ResolveAgain e h = ResolveAgainForUser e h []"

section \<open>Parsing names\<close>

text \<open>\<open>strings.SplitN\<close> with a separator of one character, and \<open>strings.ToLower\<close> for ASCII strings.\<close>

fun strings_SplitN :: "string \<Rightarrow> char \<Rightarrow> nat \<Rightarrow> string list" where
  "strings_SplitN s c 0 = []"
| "strings_SplitN s c (Suc 0) = [s]"
| "strings_SplitN s c (Suc (Suc n)) =
     (if c \<in> set s then takeWhile (\<lambda>x. x \<noteq> c) s # strings_SplitN (tl (dropWhile (\<lambda>x. x \<noteq> c) s)) c (Suc n) else [s])"

definition char_ToLower :: "char \<Rightarrow> char" where
  "char_ToLower c = (let n = of_char c :: nat in if 65 \<le> n \<and> n \<le> 90 then char_of (n + 32) else c)"

definition strings_ToLower :: "string \<Rightarrow> string" where
  "strings_ToLower s = map char_ToLower s"

definition normalizeAssertionOrName :: "tlfEnv \<Rightarrow> string \<Rightarrow> tlf_error + string" where
  "normalizeAssertionOrName e s =
     (if te_checkUsername e s then Inr (te_normalizedUsername e s)
      else case te_normalizeSocialAssertion e s of
             Some sa \<Rightarrow> Inr (SocialAssertion_String sa)
           | None \<Rightarrow>
               (case te_assertion e s of
                  Some isUser \<Rightarrow> if isUser then Inl (NoSuchUserError s) else Inr (strings_ToLower s)
                | None \<Rightarrow> Inl (BadTLFNameError s)))"

fun normalizeAll :: "tlfEnv \<Rightarrow> string list \<Rightarrow> tlf_error + string list" where
  "normalizeAll e [] = Inr []"
| "normalizeAll e (n # ns) =
     (case normalizeAssertionOrName e n of
        Inl err \<Rightarrow> Inl err
      | Inr m \<Rightarrow> (case normalizeAll e ns of Inl err \<Rightarrow> Inl err | Inr ms \<Rightarrow> Inr (m # ms)))"

definition normalizeNamesInTLF :: "tlfEnv \<Rightarrow> string list \<Rightarrow> string list \<Rightarrow> string \<Rightarrow> tlf_error + string" where
  "normalizeNamesInTLF e writerNames readerNames conflictSuffix =
     (case normalizeAll e writerNames of
        Inl err \<Rightarrow> Inl err
      | Inr ws \<Rightarrow>
          (case (if readerNames = [] then Inr [] else map_sum id (\<lambda>rs. ReaderSep # strings_Join (sort rs) '','') (normalizeAll e readerNames)) of
             Inl err \<Rightarrow> Inl err
           | Inr readers \<Rightarrow>
               Inr (strings_Join (sort ws) '','' @ readers @
                    (if conflictSuffix \<noteq> [] then ConflictSuffixSep # strings_ToLower conflictSuffix else []))))"

definition splitAndNormalizeTLFName ::
  "tlfEnv \<Rightarrow> string \<Rightarrow> bool \<Rightarrow> tlf_error + (string list \<times> string list \<times> string)" where
  "splitAndNormalizeTLFName e name public =
     (let names = strings_SplitN name ConflictSuffixSep 2;
          conflictSuffix = (if length names > 1 then names ! 1 else []);
          splitNames = strings_SplitN (names ! 0) ReaderSep 3;
          writerNames = strings_Split (splitNames ! 0) CHR '','';
          readerNames = (if length splitNames > 1 then strings_Split (splitNames ! 1) CHR '','' else [])
      in if length names > 2 then Inl (BadTLFNameError name)
         else if length splitNames > 2 then Inl (BadTLFNameError name)
         else if public \<and> readerNames \<noteq> [] then Inl (NoSuchTlfNameError name)
         else case normalizeNamesInTLF e writerNames readerNames conflictSuffix of
                Inl err \<Rightarrow> Inl err
              | Inr normalizedName \<Rightarrow>
                  if normalizedName \<noteq> name then Inl (TlfNameNotCanonical name normalizedName)
                  else Inr (writerNames, readerNames, strings_ToLower conflictSuffix))"

definition parseSuffix :: "string \<Rightarrow> tlf_error + ConflictInfo option" where
  "parseSuffix conflictSuffix =
     (if conflictSuffix = [] then Inr None
      else case ParseConflictInfo conflictSuffix of
             Inl err \<Rightarrow> Inl (ConflictSuffixError err) | Inr ci \<Rightarrow> Inr (Some ci))"

text \<open>After the names are resolved: may the current user read the folder, and is the name the canonical one?\<close>

definition checkReader :: "tlfEnv \<Rightarrow> bool \<Rightarrow> TlfHandle \<Rightarrow> (tlf_error, unit) result" where
  "checkReader e public h =
     (if public then Inr ()
      else case te_currentUser e of
             Inl err \<Rightarrow> Inl (Error err)
           | Inr (currentUsername, currentUID) \<Rightarrow>
               if currentUID \<in> set (bh_Writers (th_BareTlfHandle h) @ bh_Readers (th_BareTlfHandle h)) then Inr ()
               else bindR (GetCanonicalName h) (\<lambda>name. Inl (Error (ReadAccessError currentUsername name public))))"

definition ParseTlfHandle :: "tlfEnv \<Rightarrow> string \<Rightarrow> bool \<Rightarrow> bool \<Rightarrow> (tlf_error, TlfHandle) result" where
  "ParseTlfHandle e name public sharingBeforeSignupEnabled =
     (case splitAndNormalizeTLFName e name public of
        Inl err \<Rightarrow> Inl (Error err)
      | Inr (writerNames, readerNames, conflictSuffix) \<Rightarrow>
          if public \<and> readerNames \<noteq> [] then Inl (Error (NoSuchTlfNameError name))
          else case normalizeNamesInTLF e writerNames readerNames conflictSuffix of
            Inl err \<Rightarrow> Inl (Error err)
          | Inr normalizedName \<Rightarrow>
              if normalizedName \<noteq> name then Inl (Error (TlfNameNotCanonical name normalizedName))
              else case parseSuffix conflictSuffix of
                Inl err \<Rightarrow> Inl (Error err)
              | Inr conflictInfo \<Rightarrow>
                  (let users = map (\<lambda>n. ResolvableAssertion sharingBeforeSignupEnabled n [])
                   in case makeTlfHandleHelper e public (users writerNames) (users readerNames) conflictInfo of
                        Inl err \<Rightarrow> Inl (Error err)
                      | Inr h \<Rightarrow>
                          bindR (checkReader e public h) (\<lambda>_.
                          bindR (GetCanonicalName h) (\<lambda>canonical.
                            if canonical = name then Inr h
                            else case te_identify e h of
                                   Some err \<Rightarrow> Inl (Error err)
                                 | None \<Rightarrow> Inl (Error (TlfNameNotCanonical name canonical))))))"

definition CheckTlfHandleOffline :: "tlfEnv \<Rightarrow> string \<Rightarrow> bool \<Rightarrow> tlf_error option" where
  "CheckTlfHandleOffline e name public =
     (case splitAndNormalizeTLFName e name public of Inl err \<Rightarrow> Some err | Inr _ \<Rightarrow> None)"

section \<open>What is collected\<close>

definition msgUsers :: "bool \<Rightarrow> (bool \<times> resolveMsg) set \<Rightarrow> (UID \<times> string) set" where
  "msgUsers w M = {(np_uid p, np_name p) | p. (w, MsgUser p) \<in> M}"

definition msgAssertions :: "bool \<Rightarrow> (bool \<times> resolveMsg) set \<Rightarrow> SocialAssertion set" where
  "msgAssertions w M = {sa. (w, MsgAssertion sa) \<in> M}"

text \<open>A user has one name.\<close>

definition oneName :: "(UID \<times> string) set \<Rightarrow> bool" where
  "oneName U \<longleftrightarrow> (\<forall>uid n m. (uid, n) \<in> U \<longrightarrow> (uid, m) \<in> U \<longrightarrow> n = m)"

lemma oneName_subset: "oneName U \<Longrightarrow> V \<subseteq> U \<Longrightarrow> oneName V"
  unfolding oneName_def by blast

lemma set_update_one:
  assumes "distinct (map fst es)" and "oneName (insert (k, v) (set es))"
  shows "set (AList.update k v es) = insert (k, v) (set es)"
  using assms
proof (induction es)
  case (Cons e es)
  obtain k' v' where e: "e = (k', v')" by (cases e)
  show ?case
  proof (cases "k' = k")
    case True
    have "(k, v') \<in> insert (k, v) (set (e # es))" "(k, v) \<in> insert (k, v) (set (e # es))" using True e by simp_all
    then have "v' = v" using Cons.prems(2) unfolding oneName_def by blast
    then show ?thesis using True e by simp
  next
    case False
    have "oneName (insert (k, v) (set es))" by (rule oneName_subset[OF Cons.prems(2)]) auto
    then show ?thesis using False Cons e by auto
  qed
qed simp

definition collectedFrom :: "collected \<Rightarrow> (bool \<times> resolveMsg) set \<Rightarrow> bool" where
  "collectedFrom c M \<longleftrightarrow>
     distinct (map fst (cl_wNames c)) \<and> set (cl_wNames c) = msgUsers True M \<and>
     distinct (map fst (cl_rNames c)) \<and> set (cl_rNames c) = msgUsers False M \<and>
     distinct (cl_unresolvedWriters c) \<and> set (cl_unresolvedWriters c) = msgAssertions True M \<and>
     distinct (cl_unresolvedReaders c) \<and> set (cl_unresolvedReaders c) = msgAssertions False M"

lemma msg_insert:
  "msgUsers w (insert (w', MsgUser p) M) = (if w = w' then insert (np_uid p, np_name p) (msgUsers w M) else msgUsers w M)"
  "msgUsers w (insert (w', MsgAssertion sa) M) = msgUsers w M"
  "msgAssertions w (insert (w', MsgUser p) M) = msgAssertions w M"
  "msgAssertions w (insert (w', MsgAssertion sa) M) = (if w = w' then insert sa (msgAssertions w M) else msgAssertions w M)"
  by (auto simp: msgUsers_def msgAssertions_def)

lemma collectMsg_from:
  assumes c: "collectedFrom c M" and "\<forall>err. m \<noteq> MsgError err" and one: "\<And>w. oneName (msgUsers w (insert (w', m) M))"
  shows "collectedFrom (collectMsg (w', m) c) (insert (w', m) M)"
proof (cases m)
  case (MsgUser p)
  then show ?thesis using c one[of w'] set_update_one[of "if w' then cl_wNames c else cl_rNames c" "np_uid p" "np_name p"]
    by (cases w') (simp_all add: collectedFrom_def msg_insert distinct_update)
next
  case (MsgAssertion sa)
  then show ?thesis using c by (cases w') (simp_all add: collectedFrom_def msg_insert)
qed (use assms in auto)

lemma collectMsgs_from:
  assumes "collectedFrom c M" and "\<forall>w err. (w, MsgError err) \<notin> set msgs" and "\<And>w. oneName (msgUsers w (M \<union> set msgs))"
  shows "\<exists>c'. collectMsgs msgs c = Inr c' \<and> collectedFrom c' (M \<union> set msgs)"
  using assms
proof (induction msgs arbitrary: c M)
  case (Cons wm msgs)
  obtain w' m where wm: "wm = (w', m)" by (cases wm)
  have ne: "\<forall>err. m \<noteq> MsgError err" using Cons.prems(2) wm by auto
  have "oneName (msgUsers w (insert (w', m) M))" for w
    by (rule oneName_subset[OF Cons.prems(3)[of w]]) (auto simp: msgUsers_def wm)
  from collectMsg_from[OF Cons.prems(1) ne this] have c': "collectedFrom (collectMsg (w', m) c) (insert (w', m) M)" .
  have "collectMsgs (wm # msgs) c = collectMsgs msgs (collectMsg (w', m) c)" using ne by (cases m) (auto simp: wm)
  with Cons.IH[OF c'] Cons.prems(2,3) show ?case by (simp add: wm)
qed auto

lemma collectedFrom_none: "collectedFrom noneCollected {}"
  by (simp add: collectedFrom_def noneCollected_def msgUsers_def msgAssertions_def)

text \<open>With an error among the results, an error is returned.\<close>

lemma collectMsgs_error: "(w, MsgError err) \<in> set msgs \<Longrightarrow> \<exists>err. collectMsgs msgs c = Inl err"
proof (induction msgs arbitrary: c)
  case (Cons wm msgs)
  then show ?case by (cases wm; cases "snd wm") auto
qed simp

section \<open>The order of the results\<close>

lemma sort_cong_mset: "mset xs = mset ys \<Longrightarrow> sort xs = sort (ys :: 'a :: linorder list)"
  by (simp add: properties_for_sort)

lemma distinct_mset_eq: "distinct xs \<Longrightarrow> distinct ys \<Longrightarrow> set xs = set ys \<Longrightarrow> mset xs = mset ys"
  by (simp add: set_eq_iff_mset_eq_distinct)

lemma alist_mset: "distinct (map fst ns) \<Longrightarrow> distinct (map fst ns') \<Longrightarrow> set ns = set ns' \<Longrightarrow> mset ns = mset ns'"
  by (intro distinct_mset_eq) (auto simp: distinct_map)

lemma alist_sort:
  "distinct (map fst ns) \<Longrightarrow> distinct (map fst ns') \<Longrightarrow> set ns = set ns' \<Longrightarrow>
    sort (map f ns @ as) = sort (map f ns' @ (as :: 'a :: linorder list))"
  by (intro sort_cong_mset) (auto dest: alist_mset)

lemma map_sort_key: "map f (sort_key f xs) = sort (map f xs)"
  by (rule properties_for_sort[symmetric]) simp_all

lemma sort_key_cong_set:
  assumes "distinct xs" and "distinct ys" and "set xs = set ys" and "inj_on f (set ys)"
  shows "sort_key f xs = sort_key f ys"
proof (rule map_inj_on)
  show "map f (sort_key f xs) = map f (sort_key f ys)"
    unfolding map_sort_key by (intro sort_cong_mset) (simp add: distinct_mset_eq[OF assms(1-3)])
  show "inj_on f (set (sort_key f xs) \<union> set (sort_key f ys))" using assms(3,4) by simp
qed

text \<open>A social assertion is known by its string, as services have no at sign.\<close>

definition plainService :: "SocialAssertion \<Rightarrow> bool" where
  "plainService sa \<longleftrightarrow> CHR ''@'' \<notin> set (sa_Service sa)"

lemma assertion_String_inj:
  assumes "\<forall>sa \<in> A. plainService sa"
  shows "inj_on SocialAssertion_String A"
proof (rule inj_onI)
  fix x y assume xy: "x \<in> A" "y \<in> A" "SocialAssertion_String x = SocialAssertion_String y"
  have tw: "takeWhile (\<lambda>c. c \<noteq> CHR ''@'') (rev (SocialAssertion_String sa)) = rev (sa_Service sa)" if "sa \<in> A" for sa
    using assms that by (subst SocialAssertion_String_def) (auto simp: plainService_def takeWhile_append)
  have "rev (sa_Service x) = rev (sa_Service y)" using tw[OF xy(1)] tw[OF xy(2)] xy(3) by simp
  then have "sa_Service x = sa_Service y" by simp
  then show "x = y" using xy(3) by (simp add: SocialAssertion_String_def)
qed

definition handleView :: "TlfHandle \<Rightarrow> BareTlfHandle \<times> string" where
  "handleView h = (th_BareTlfHandle h, th_name h)"

lemma handleFrom_cong:
  assumes c: "collectedFrom c M" and c': "collectedFrom c' M" and "\<forall>w. \<forall>sa \<in> msgAssertions w M. plainService sa"
  shows "map_sum id handleView (handleFrom public c ci) = map_sum id handleView (handleFrom public c' ci)"
proof -
  define rn where "rn c = filter (\<lambda>(uid, _). uid \<notin> fst ` set (cl_wNames c)) (cl_rNames c)" for c :: collected
  define ur where "ur c = filter (\<lambda>sa. sa \<notin> set (cl_unresolvedWriters c)) (cl_unresolvedReaders c)" for c :: collected
  note cf = c[unfolded collectedFrom_def] c'[unfolded collectedFrom_def]
  have dist: "distinct (map fst (rn c))" "distinct (map fst (rn c'))" using cf by (simp_all add: rn_def distinct_map_filter)
  have rset: "set (rn c) = set (rn c')" using cf by (simp add: rn_def)
  have inj: "inj_on SocialAssertion_String (msgAssertions w M)" for w using assms(3) by (intro assertion_String_inj) auto
  have uw: "sortAssertions (cl_unresolvedWriters c) = sortAssertions (cl_unresolvedWriters c')"
    unfolding sortAssertions_def by (rule sort_key_cong_set) (use cf inj[of True] in auto)
  have ur: "sortAssertions (ur c) = sortAssertions (ur c')" unfolding sortAssertions_def
    by (rule sort_key_cong_set) (use cf inj_on_subset[OF inj[of False]] in \<open>auto simp: ur_def\<close>)
  have wl: "getSortedHandleLists (cl_wNames c) (cl_unresolvedWriters c) = getSortedHandleLists (cl_wNames c') (cl_unresolvedWriters c')"
    and rl: "getSortedHandleLists (rn c) (ur c) = getSortedHandleLists (rn c') (ur c')"
    using cf dist rset uw ur alist_sort[of "cl_wNames c" "cl_wNames c'" fst "[]"] alist_sort[of "rn c" "rn c'" fst "[]"]
    by (simp_all add: getSortedHandleLists_def sortUIDs_def)
  have wn: "getSortedNames (cl_wNames c) as = getSortedNames (cl_wNames c') as" for as
    unfolding getSortedNames_def by (rule alist_sort) (use cf in auto)
  have rnn: "getSortedNames (rn c) as = getSortedNames (rn c') as" for as
    unfolding getSortedNames_def by (rule alist_sort) (use dist rset in auto)
  have eq: "handleFrom public c ci =
     (let (writerUIDs, unresolvedWriters) = getSortedHandleLists (cl_wNames c) (cl_unresolvedWriters c);
          (readerUIDs, unresolvedReaders) = (if public then ([PublicUID], []) else getSortedHandleLists (rn c) (ur c))
      in case MakeBareTlfHandle writerUIDs readerUIDs unresolvedWriters unresolvedReaders ci of
           Inl err \<Rightarrow> Inl (HandleError err)
         | Inr bareHandle \<Rightarrow>
             Inr \<lparr>th_BareTlfHandle = bareHandle, th_resolvedWriters = cl_wNames c, th_resolvedReaders = rn c,
                  th_name = tlfName public (getSortedNames (cl_wNames c) unresolvedWriters)
                              (getSortedNames (rn c) unresolvedReaders) ci\<rparr>)" for c :: collected
    unfolding handleFrom_def rn_def ur_def Let_def by (rule refl)
  show ?thesis unfolding eq wl rl wn rnn by (auto simp: handleView_def split: prod.split sum.split)
qed

lemma unknownAssertion_arrive: "unknownAssertion (e\<lparr>te_arrive := arrive\<rparr>) = unknownAssertion e"
  by (intro ext) (simp add: unknownAssertion_def)

lemma resolve_arrive [simp]: "resolve (e\<lparr>te_arrive := arrive\<rparr>) u = resolve e u"
proof (cases u)
  case (ResolvableAssertion a b c)
  show ?thesis unfolding ResolvableAssertion resolve.simps unknownAssertion_arrive by simp
qed simp_all

lemma resolveOneUser_arrive [simp]: "resolveOneUser (e\<lparr>te_arrive := arrive\<rparr>) u = resolveOneUser e u"
  by (simp add: resolveOneUser_def)

definition results :: "tlfEnv \<Rightarrow> resolvableUser list \<Rightarrow> resolvableUser list \<Rightarrow> (bool \<times> resolveMsg) list" where
  "results e writers readers =
     map (\<lambda>u. (True, resolveOneUser e u)) writers @ map (\<lambda>u. (False, resolveOneUser e u)) readers"

text \<open>Some order of the results, however many there are.\<close>

definition reorders :: "('a list \<Rightarrow> 'a list) \<Rightarrow> bool" where
  "reorders arrive \<longleftrightarrow> (\<forall>xs. mset (arrive xs) = mset xs)"

lemma reorders_set: "reorders arrive \<Longrightarrow> set (arrive xs) = set xs"
  by (metis reorders_def set_mset_mset)

definition consistentResults :: "(bool \<times> resolveMsg) set \<Rightarrow> bool" where
  "consistentResults M \<longleftrightarrow> (\<forall>w. oneName (msgUsers w M)) \<and> (\<forall>w. \<forall>sa \<in> msgAssertions w M. plainService sa)"

lemma helper_from:
  assumes "reorders (te_arrive e)" and "consistentResults (set (results e writers readers))"
    and "\<forall>w err. (w, MsgError err) \<notin> set (results e writers readers)" and "\<not> (public \<and> readers \<noteq> [])"
  shows "\<exists>c. collectedFrom c (set (results e writers readers)) \<and>
    makeTlfHandleHelper e public writers readers ci = handleFrom public c ci"
proof -
  let ?R = "results e writers readers"
  have set: "set (te_arrive e ?R) = set ?R" by (rule reorders_set[OF assms(1)])
  from collectMsgs_from[OF collectedFrom_none, of "te_arrive e ?R"] assms(2,3) set
  obtain c where "collectMsgs (te_arrive e ?R) noneCollected = Inr c" "collectedFrom c (set ?R)"
    by (auto simp: consistentResults_def)
  then show ?thesis using assms(4) by (auto simp: makeTlfHandleHelper_def results_def)
qed

lemma helper_error:
  assumes "reorders (te_arrive e)" and "public \<and> readers \<noteq> [] \<or> (\<exists>w err. (w, MsgError err) \<in> set (results e writers readers))"
  shows "\<exists>err. makeTlfHandleHelper e public writers readers ci = Inl err"
proof (cases "public \<and> readers \<noteq> []")
  case True
  then show ?thesis by (simp add: makeTlfHandleHelper_def)
next
  case False
  with assms(2) obtain w err where "(w, MsgError err) \<in> set (te_arrive e (results e writers readers))"
    using reorders_set[OF assms(1)] by blast
  from collectMsgs_error[OF this, of noneCollected] obtain err' where
    "collectMsgs (te_arrive e (results e writers readers)) noneCollected = Inl err'" by blast
  then show ?thesis by (simp add: makeTlfHandleHelper_def results_def)
qed

text \<open>
  C16: The users of a folder are looked up at the same time, and the results arrive in any order. The handle, with its
  canonical name, does not depend on the order; and whether there is an error does not depend on it either.
\<close>

theorem makeTlfHandleHelper_order:
  assumes "reorders (te_arrive e)" and "reorders arrive" and "consistentResults (set (results e writers readers))"
  shows "case (makeTlfHandleHelper e public writers readers ci, makeTlfHandleHelper (e\<lparr>te_arrive := arrive\<rparr>) public writers readers ci) of
      (Inr h, Inr h') \<Rightarrow> handleView h = handleView h'
    | (Inl _, Inl _) \<Rightarrow> True
    | _ \<Rightarrow> False"
proof -
  let ?e = "e\<lparr>te_arrive := arrive\<rparr>" and ?R = "results e writers readers"
  have R: "results ?e writers readers = ?R" by (simp add: results_def)
  show ?thesis
  proof (cases "public \<and> readers \<noteq> [] \<or> (\<exists>w err. (w, MsgError err) \<in> set ?R)")
    case True
    with helper_error[of e public readers writers ci] helper_error[of ?e public readers writers ci] assms(1,2) R
    show ?thesis by auto
  next
    case False
    then have ne: "\<forall>w err. (w, MsgError err) \<notin> set ?R" "\<not> (public \<and> readers \<noteq> [])" by auto
    from helper_from[OF assms(1,3) ne] obtain c where c: "collectedFrom c (set ?R)"
      "makeTlfHandleHelper e public writers readers ci = handleFrom public c ci" by blast
    from helper_from[of ?e writers readers public ci] assms(2,3) ne obtain c' where c': "collectedFrom c' (set ?R)"
      "makeTlfHandleHelper ?e public writers readers ci = handleFrom public c' ci" by (auto simp: R)
    have "map_sum id handleView (handleFrom public c ci) = map_sum id handleView (handleFrom public c' ci)"
      by (rule handleFrom_cong[OF c(1) c'(1)]) (use assms(3) in \<open>simp add: consistentResults_def\<close>)
    then show ?thesis unfolding c(2) c'(2)
      by (cases "handleFrom public c ci"; cases "handleFrom public c' ci") simp_all
  qed
qed


text \<open>Two users that the service knows, and one assertion that it does not.\<close>

definition tx_env :: tlfEnv where
  "tx_env =
     \<lparr>te_getNormalizedUsername = (\<lambda>uid. if uid = ''u1'' then Inr ''alice'' else if uid = ''u2'' then Inr ''bob'' else Inl (NoSuchUserError uid)),
      te_resolve = (\<lambda>s. if s = ''alice'' then Inr (''alice'', ''u1'') else if s = ''bob'' then Inr (''bob'', ''u2'') else Inl (NoSuchUserError s)),
      te_normalizeSocialAssertion = (\<lambda>s. if s = ''eve@twitter'' then Some \<lparr>sa_User = ''eve'', sa_Service = ''twitter''\<rparr> else None),
      te_checkUsername = (\<lambda>s. s = ''alice'' \<or> s = ''bob''), te_normalizedUsername = id, te_assertion = (\<lambda>s. None),
      te_currentUser = Inr (''alice'', ''u1''), te_identify = (\<lambda>h. None), te_arrive = id\<rparr>"

definition tx_writers :: "resolvableUser list" where
  "tx_writers = [ResolvableAssertion True ''bob'' [], ResolvableAssertion True ''alice'' []]"

definition tx_readers :: "resolvableUser list" where
  "tx_readers = [ResolvableAssertion True ''eve@twitter'' []]"

lemma tx_results:
  "results tx_env tx_writers tx_readers =
    [(True, MsgUser \<lparr>np_name = ''bob'', np_uid = ''u2''\<rparr>), (True, MsgUser \<lparr>np_name = ''alice'', np_uid = ''u1''\<rparr>),
     (False, MsgAssertion \<lparr>sa_User = ''eve'', sa_Service = ''twitter''\<rparr>)]"
  by code_simp

theorem makeTlfHandleHelper_order_witness:
  "\<exists>h. makeTlfHandleHelper (tx_env\<lparr>te_arrive := rev\<rparr>) False tx_writers tx_readers None = Inr h \<and> th_name h = ''alice,bob#eve@twitter''"
proof -
  have c: "consistentResults (set (results tx_env tx_writers tx_readers))"
    unfolding consistentResults_def oneName_def msgUsers_def msgAssertions_def tx_results by (auto simp: plainService_def)
  have "reorders (te_arrive tx_env)" "reorders rev" by (simp_all add: tx_env_def reorders_def)
  from makeTlfHandleHelper_order[OF this c, of False None]
  have "case (makeTlfHandleHelper tx_env False tx_writers tx_readers None, makeTlfHandleHelper (tx_env\<lparr>te_arrive := rev\<rparr>) False tx_writers tx_readers None) of
      (Inr h, Inr h') \<Rightarrow> handleView h = handleView h' | (Inl _, Inl _) \<Rightarrow> True | _ \<Rightarrow> False" .
  moreover have "map_sum id th_name (makeTlfHandleHelper tx_env False tx_writers tx_readers None) = Inr ''alice,bob#eve@twitter''" by code_simp
  ultimately show ?thesis
    by (cases "makeTlfHandleHelper tx_env False tx_writers tx_readers None") (auto simp: handleView_def split: sum.splits)
qed

section \<open>Names that are accepted\<close>

lemma handleFrom_public: "handleFrom True c ci = Inr h \<Longrightarrow> handle_IsPublic (th_BareTlfHandle h)"
  by (auto simp: handleFrom_def MakeBareTlfHandle_def handle_IsPublic_def sortUIDs_def Let_def getSortedHandleLists_def
      split: sum.splits if_splits)

text \<open>
  C17: A name that \<open>ParseTlfHandle\<close> accepts is the canonical name of the handle it returns. The handle of a private folder
  is returned only to its writers and readers; that of a public name is public.
\<close>

theorem ParseTlfHandle_sound:
  assumes "ParseTlfHandle e name public sharing = Inr h"
  shows "th_name h = name \<and> (if public then handle_IsPublic (th_BareTlfHandle h)
    else \<exists>username uid. te_currentUser e = Inr (username, uid) \<and> handle_IsReader (th_BareTlfHandle h) uid)"
proof -
  from assms obtain ws rs cs ci where
    h: "makeTlfHandleHelper e public (map (\<lambda>n. ResolvableAssertion sharing n []) ws) (map (\<lambda>n. ResolvableAssertion sharing n []) rs) ci = Inr h"
    and r: "checkReader e public h = Inr ()" and n: "GetCanonicalName h = Inr name"
    by (auto simp: ParseTlfHandle_def Let_def bindR_Inr_iff split: sum.splits if_splits option.splits)
  have "handle_IsPublic (th_BareTlfHandle h)" if public
    using h that by (auto simp: makeTlfHandleHelper_def split: sum.splits if_splits dest: handleFrom_public)
  moreover have "\<exists>username uid. te_currentUser e = Inr (username, uid) \<and> handle_IsReader (th_BareTlfHandle h) uid" if "\<not> public"
    using r that
    by (auto simp: checkReader_def handle_IsReader_def handle_IsWriter_def findUserInList_def GetCanonicalName_def split: sum.splits if_splits)
  ultimately show ?thesis using n by (auto simp: GetCanonicalName_def split: if_splits)
qed

lemma tx_parse: "map_sum id handleView (ParseTlfHandle tx_env ''alice,bob#eve@twitter'' False True) =
   Inr (\<lparr>bh_Writers = [''u1'', ''u2''], bh_Readers = [], bh_UnresolvedWriters = [],
         bh_UnresolvedReaders = [\<lparr>sa_User = ''eve'', sa_Service = ''twitter''\<rparr>], bh_ConflictInfo = None\<rparr>, ''alice,bob#eve@twitter'')"
  by code_simp

theorem ParseTlfHandle_sound_witness:
  "\<exists>h. ParseTlfHandle tx_env ''alice,bob#eve@twitter'' False True = Inr h \<and> handle_IsReader (th_BareTlfHandle h) ''u1''"
proof (cases "ParseTlfHandle tx_env ''alice,bob#eve@twitter'' False True")
  case (Inr h)
  from ParseTlfHandle_sound[OF Inr] show ?thesis using Inr by (auto simp: tx_env_def)
qed (use tx_parse in simp)

section \<open>Handles that get their names\<close>

definition sortedAssertions :: "SocialAssertion list \<Rightarrow> bool" where
  "sortedAssertions sas \<longleftrightarrow>
     distinct sas \<and> sorted (map SocialAssertion_String sas) \<and> zeroAssertion \<notin> set sas \<and> (\<forall>sa \<in> set sas. plainService sa)"

definition sortedUIDs :: "tlfEnv \<Rightarrow> UID list \<Rightarrow> bool" where
  "sortedUIDs e us \<longleftrightarrow> distinct us \<and> sorted us \<and> [] \<notin> set us \<and> (\<forall>u \<in> set us. \<exists>name. te_getNormalizedUsername e u = Inr name)"

text \<open>A handle in the form in which handles are made: the lists are sorted, nobody is in two of them, and the service knows the users.\<close>

definition bareHandle_ok :: "tlfEnv \<Rightarrow> BareTlfHandle \<Rightarrow> bool" where
  "bareHandle_ok e b \<longleftrightarrow>
     bh_Writers b \<noteq> [] \<and> sortedUIDs e (bh_Writers b) \<and> PublicUID \<notin> set (bh_Writers b) \<and>
     sortedAssertions (bh_UnresolvedWriters b) \<and> sortedAssertions (bh_UnresolvedReaders b) \<and>
     set (bh_UnresolvedWriters b) \<inter> set (bh_UnresolvedReaders b) = {} \<and>
     (if handle_IsPublic b then bh_UnresolvedReaders b = []
      else sortedUIDs e (bh_Readers b) \<and> PublicUID \<notin> set (bh_Readers b) \<and> set (bh_Writers b) \<inter> set (bh_Readers b) = {})"

lemma resolve_uids:
  assumes "sortedUIDs e us"
  shows "(\<lambda>u. (w, resolveOneUser e u)) ` ResolvableUID ` set us =
    (\<lambda>u. (w, MsgUser \<lparr>np_name = projr (te_getNormalizedUsername e u), np_uid = u\<rparr>)) ` set us"
proof -
  have "resolveOneUser e (ResolvableUID u) = MsgUser \<lparr>np_name = projr (te_getNormalizedUsername e u), np_uid = u\<rparr>" if "u \<in> set us" for u
  proof -
    from assms that obtain name where "te_getNormalizedUsername e u = Inr name" by (auto simp: sortedUIDs_def)
    moreover have "u \<noteq> []" using assms that by (auto simp: sortedUIDs_def)
    ultimately show ?thesis by (simp add: resolveOneUser_def zeroNameUID_def)
  qed
  then show ?thesis by (auto simp: image_image)
qed

lemma resolve_assertions:
  assumes "sortedAssertions sas"
  shows "(\<lambda>u. (w, resolveOneUser e u)) ` ResolvableSocialAssertion ` set sas = (\<lambda>sa. (w, MsgAssertion sa)) ` set sas"
proof -
  have "resolveOneUser e (ResolvableSocialAssertion sa) = MsgAssertion sa" if "sa \<in> set sas" for sa
    using assms that by (auto simp: resolveOneUser_def sortedAssertions_def)
  then show ?thesis by (auto simp: image_image)
qed

lemma sort_assertions_id:
  assumes "sortedAssertions ys" and "distinct xs" and "set xs = set ys"
  shows "sortAssertions xs = ys"
proof -
  have "sort_key SocialAssertion_String xs = sort_key SocialAssertion_String ys"
    using assms by (intro sort_key_cong_set assertion_String_inj) (auto simp: sortedAssertions_def)
  also have "\<dots> = ys" using assms(1) by (simp add: sortedAssertions_def sort_key_id_if_sorted)
  finally show ?thesis by (simp add: sortAssertions_def)
qed

lemma sort_uids_id: "sortedUIDs e ys \<Longrightarrow> distinct xs \<Longrightarrow> set xs = set ys \<Longrightarrow> sortUIDs xs = ys"
  by (simp add: sortUIDs_def sortedUIDs_def sorted_distinct_set_unique)

definition bareMsgs :: "tlfEnv \<Rightarrow> BareTlfHandle \<Rightarrow> UID list \<Rightarrow> (bool \<times> resolveMsg) set" where
  "bareMsgs e b readers =
     (\<lambda>u. (True, MsgUser \<lparr>np_name = projr (te_getNormalizedUsername e u), np_uid = u\<rparr>)) ` set (bh_Writers b) \<union>
     (\<lambda>sa. (True, MsgAssertion sa)) ` set (bh_UnresolvedWriters b) \<union>
     (\<lambda>u. (False, MsgUser \<lparr>np_name = projr (te_getNormalizedUsername e u), np_uid = u\<rparr>)) ` set readers \<union>
     (\<lambda>sa. (False, MsgAssertion sa)) ` set (bh_UnresolvedReaders b)"

lemma bareMsgs_parts:
  "msgUsers True (bareMsgs e b rs) = (\<lambda>u. (u, projr (te_getNormalizedUsername e u))) ` set (bh_Writers b)"
  "msgUsers False (bareMsgs e b rs) = (\<lambda>u. (u, projr (te_getNormalizedUsername e u))) ` set rs"
  "msgAssertions True (bareMsgs e b rs) = set (bh_UnresolvedWriters b)"
  "msgAssertions False (bareMsgs e b rs) = set (bh_UnresolvedReaders b)"
proof -
  have ex: "(\<exists>p. x = (np_uid p, np_name p) \<and> P p) \<longleftrightarrow> P \<lparr>np_name = snd x, np_uid = fst x\<rparr>" for x and P :: "nameUIDPair \<Rightarrow> bool"
    by (metis (full_types) nameUIDPair.select_convs(1,2) nameUIDPair.surjective old.unit.exhaust prod.collapse prod.sel(1,2))
  show "msgUsers True (bareMsgs e b rs) = (\<lambda>u. (u, projr (te_getNormalizedUsername e u))) ` set (bh_Writers b)"
    "msgUsers False (bareMsgs e b rs) = (\<lambda>u. (u, projr (te_getNormalizedUsername e u))) ` set rs"
    by (auto simp: msgUsers_def bareMsgs_def image_iff ex)
qed (auto simp: bareMsgs_def msgAssertions_def)

lemma bareMsgs_consistent: "bareHandle_ok e b \<Longrightarrow> consistentResults (bareMsgs e b rs)"
proof -
  assume ok: "bareHandle_ok e b"
  have "oneName (msgUsers w (bareMsgs e b rs))" for w by (cases w) (auto simp: bareMsgs_parts oneName_def)
  moreover have "plainService sa" if "sa \<in> msgAssertions w (bareMsgs e b rs)" for w sa
    using ok that by (cases w) (auto simp: bareMsgs_parts bareHandle_ok_def sortedAssertions_def)
  ultimately show ?thesis by (simp add: consistentResults_def)
qed

lemma MakeBare_self:
  assumes "bareHandle_ok e b"
  shows "MakeBareTlfHandle (bh_Writers b) (bh_Readers b) (bh_UnresolvedWriters b) (bh_UnresolvedReaders b) (bh_ConflictInfo b) = Inr b"
proof -
  have srt: "sortUIDs (bh_Writers b) = bh_Writers b" "sortAssertions (bh_UnresolvedWriters b) = bh_UnresolvedWriters b"
    "sortAssertions (bh_UnresolvedReaders b) = bh_UnresolvedReaders b"
    using assms unfolding bareHandle_ok_def
    by (simp_all add: sortedUIDs_def sortedAssertions_def sortUIDs_def sortAssertions_def sorted_sort_id sort_key_id_if_sorted)
  have "sortUIDs (bh_Readers b) = bh_Readers b \<and> (length (bh_Readers b) + length (bh_UnresolvedReaders b) > 1 \<longrightarrow> PublicUID \<notin> set (bh_Readers b))"
  proof (cases "handle_IsPublic b")
    case True
    then have "bh_Readers b = [PublicUID]" "bh_UnresolvedReaders b = []" using assms by (simp_all add: bareHandle_ok_def handle_IsPublic_def)
    then show ?thesis by (simp add: sortUIDs_def)
  next
    case False
    then show ?thesis using assms by (simp add: bareHandle_ok_def sortedUIDs_def sortUIDs_def sorted_sort_id)
  qed
  moreover have "bh_Writers b \<noteq> [] \<and> PublicUID \<notin> set (bh_Writers b)" using assms by (simp add: bareHandle_ok_def)
  ultimately show ?thesis by (simp add: MakeBareTlfHandle_def srt)
qed

lemma handleFrom_bare:
  assumes ok: "bareHandle_ok e b" and c: "collectedFrom c (bareMsgs e b (if handle_IsPublic b then [] else bh_Readers b))"
  shows "\<exists>h. handleFrom (handle_IsPublic b) c (bh_ConflictInfo b) = Inr h \<and> th_BareTlfHandle h = b"
proof -
  let ?rs = "if handle_IsPublic b then [] else bh_Readers b"
  let ?rn = "filter (\<lambda>(uid, _). uid \<notin> fst ` set (cl_wNames c)) (cl_rNames c)"
  let ?ur = "filter (\<lambda>sa. sa \<notin> set (cl_unresolvedWriters c)) (cl_unresolvedReaders c)"
  have dw: "distinct (map fst (cl_wNames c))" and drn: "distinct (map fst (cl_rNames c))"
    and duw: "distinct (cl_unresolvedWriters c)" and dur: "distinct (cl_unresolvedReaders c)"
    and sw: "set (cl_wNames c) = (\<lambda>u. (u, projr (te_getNormalizedUsername e u))) ` set (bh_Writers b)"
    and srn: "set (cl_rNames c) = (\<lambda>u. (u, projr (te_getNormalizedUsername e u))) ` set ?rs"
    and suw: "set (cl_unresolvedWriters c) = set (bh_UnresolvedWriters b)" and sur: "set (cl_unresolvedReaders c) = set (bh_UnresolvedReaders b)"
    using c unfolding collectedFrom_def bareMsgs_parts by blast+
  have ow: "bh_Writers b \<noteq> []" "sortedUIDs e (bh_Writers b)" "PublicUID \<notin> set (bh_Writers b)"
    and ou: "sortedAssertions (bh_UnresolvedWriters b)" "sortedAssertions (bh_UnresolvedReaders b)"
      "set (bh_UnresolvedWriters b) \<inter> set (bh_UnresolvedReaders b) = {}"
    and op: "handle_IsPublic b \<Longrightarrow> bh_UnresolvedReaders b = []"
    and orr: "\<not> handle_IsPublic b \<Longrightarrow> sortedUIDs e (bh_Readers b) \<and> PublicUID \<notin> set (bh_Readers b) \<and> set (bh_Writers b) \<inter> set (bh_Readers b) = {}"
    using ok unfolding bareHandle_ok_def by (simp_all split: if_splits)
  have w: "fst ` set (cl_wNames c) = set (bh_Writers b)" by (simp add: sw image_image)
  have dr: "distinct (map fst ?rn)" using drn by (rule distinct_map_filter)
  have W: "sortUIDs (map fst (cl_wNames c)) = bh_Writers b" by (rule sort_uids_id[OF ow(2) dw]) (simp add: w)
  have UW: "sortAssertions (cl_unresolvedWriters c) = bh_UnresolvedWriters b" by (rule sort_assertions_id[OF ou(1) duw suw])
  have UR: "sortAssertions ?ur = bh_UnresolvedReaders b"
    by (rule sort_assertions_id[OF ou(2)]) (use dur suw sur ou(3) in auto)
  have R: "sortUIDs (map fst ?rn) = bh_Readers b" if np: "\<not> handle_IsPublic b"
  proof (rule sort_uids_id[of e, OF _ dr])
    have "set ?rn = set (cl_rNames c)" unfolding w set_filter srn using orr[OF np] np by auto
    then show "set (map fst ?rn) = set (bh_Readers b)" using np by (simp add: srn image_image del: set_filter)
  qed (use orr[OF np] in simp)
  have P: "handle_IsPublic b \<Longrightarrow> bh_Readers b = [PublicUID]" by (simp add: handle_IsPublic_def)
  have "MakeBareTlfHandle (bh_Writers b) (if handle_IsPublic b then [PublicUID] else sortUIDs (map fst ?rn)) (bh_UnresolvedWriters b)
      (if handle_IsPublic b then [] else sortAssertions ?ur) (bh_ConflictInfo b) = Inr b"
    using MakeBare_self[OF ok] P op by (cases "handle_IsPublic b") (simp_all only: R UR if_True if_False not_False_eq_True)
  then show ?thesis unfolding handleFrom_def getSortedHandleLists_def Let_def W UW by (cases "handle_IsPublic b") simp_all
qed

text \<open>
  C18: \<open>MakeTlfHandle\<close> compares the handle that it makes with the given one and panics where they differ. For a handle in the
  form in which they are stored, whose users the service knows, it does not, in whatever order the service answers.
\<close>

theorem MakeTlfHandle_no_panic:
  assumes "reorders (te_arrive e)" and "bareHandle_ok e b"
  shows "\<exists>h. MakeTlfHandle e b = Inr h \<and> th_BareTlfHandle h = b"
proof -
  let ?ws = "map ResolvableUID (bh_Writers b) @ map ResolvableSocialAssertion (bh_UnresolvedWriters b)"
  let ?rs = "if handle_IsPublic b then [] else map ResolvableUID (bh_Readers b) @ map ResolvableSocialAssertion (bh_UnresolvedReaders b)"
  let ?M = "bareMsgs e b (if handle_IsPublic b then [] else bh_Readers b)"
  note okf = assms(2)[unfolded bareHandle_ok_def]
  have R: "set (results e ?ws ?rs) = ?M"
  proof (cases "handle_IsPublic b")
    case True
    then have "bh_UnresolvedReaders b = []" "sortedUIDs e (bh_Writers b)" "sortedAssertions (bh_UnresolvedWriters b)"
      using okf by simp_all
    then show ?thesis using True
      by (simp add: results_def bareMsgs_def image_Un resolve_uids[simplified image_image] resolve_assertions[simplified image_image] image_image)
  next
    case False
    then have "sortedUIDs e (bh_Writers b)" "sortedAssertions (bh_UnresolvedWriters b)"
      "sortedUIDs e (bh_Readers b)" "sortedAssertions (bh_UnresolvedReaders b)"
      using okf by simp_all
    then show ?thesis using False
      by (simp add: results_def bareMsgs_def image_Un resolve_uids[simplified image_image] resolve_assertions[simplified image_image] image_image Un_assoc)
  qed
  have ne: "\<forall>w err. (w, MsgError err) \<notin> set (results e ?ws ?rs)" unfolding R by (auto simp: bareMsgs_def)
  from helper_from[OF assms(1) _ ne, of "handle_IsPublic b" "bh_ConflictInfo b"] bareMsgs_consistent[OF assms(2)]
  obtain c where c: "collectedFrom c ?M"
    "makeTlfHandleHelper e (handle_IsPublic b) ?ws ?rs (bh_ConflictInfo b) = handleFrom (handle_IsPublic b) c (bh_ConflictInfo b)"
    unfolding R by auto
  from handleFrom_bare[OF assms(2) c(1)] obtain h where
    "handleFrom (handle_IsPublic b) c (bh_ConflictInfo b) = Inr h" "th_BareTlfHandle h = b" by blast
  then show ?thesis using c(2) by (simp add: MakeTlfHandle_def Let_def)
qed

theorem MakeTlfHandle_no_panic_witness:
  "\<exists>h. MakeTlfHandle (tx_env\<lparr>te_arrive := rev\<rparr>)
     \<lparr>bh_Writers = [''u1'', ''u2''], bh_Readers = [], bh_UnresolvedWriters = [],
      bh_UnresolvedReaders = [\<lparr>sa_User = ''eve'', sa_Service = ''twitter''\<rparr>], bh_ConflictInfo = None\<rparr> = Inr h"
proof -
  let ?b = "\<lparr>bh_Writers = [''u1'', ''u2''], bh_Readers = [], bh_UnresolvedWriters = [],
      bh_UnresolvedReaders = [\<lparr>sa_User = ''eve'', sa_Service = ''twitter''\<rparr>], bh_ConflictInfo = None\<rparr>"
  have "sorted [''u1'', ''u2'']" by code_simp
  then have "bareHandle_ok (tx_env\<lparr>te_arrive := rev\<rparr>) ?b"
    by (auto simp: bareHandle_ok_def sortedUIDs_def sortedAssertions_def handle_IsPublic_def PublicUID_def tx_env_def plainService_def
        zeroAssertion_def)
  from MakeTlfHandle_no_panic[OF _ this] show ?thesis by (auto simp: reorders_def)
qed

end
