(* ===== verification/Kbfs_Crypto.thy ===== *)
theory Kbfs_Crypto
  imports Kbfs_Data_Types
begin

text \<open>
  The cryptography of crypto\_common.go, crypto\_local.go and crypto\_key\_types.go: random identifiers and keys, masked
  key halves, padding and encryption of blocks, encrypted client halves of keys, signatures. The NaCl primitives
  (secretbox, box, Ed25519), the random source and the codec are parameters. Key identifiers have the format of the
  Keybase library.
\<close>

section \<open>Keys and their identifiers\<close>

type_synonym KID = string

record kidContainer =
  kc_kid :: KID

type_synonym VerifyingKey = kidContainer
type_synonym CryptPublicKey = kidContainer

text \<open>The keys of 32 bytes all have this representation.\<close>

record byte32Container =
  b32_data :: "byte list"

type_synonym TLFPrivateKey = byte32Container
type_synonym TLFPublicKey = byte32Container
type_synonym TLFEphemeralPrivateKey = byte32Container
type_synonym TLFEphemeralPublicKey = byte32Container
type_synonym TLFCryptKeyServerHalf = byte32Container
type_synonym TLFCryptKeyClientHalf = byte32Container
type_synonym TLFCryptKey = byte32Container
type_synonym BlockCryptKeyServerHalf = byte32Container
type_synonym BlockCryptKey = byte32Container

definition zeroKey :: byte32Container where
  "zeroKey = \<lparr>b32_data = replicate 32 0\<rparr>"

definition key_ok :: "byte32Container \<Rightarrow> bool" where
  "key_ok k \<longleftrightarrow> length (b32_data k) = 32"

text \<open>The bytes of a KID or of a user ID, which are hexadecimal strings; no bytes when the string is malformed.\<close>

definition ToBytes :: "string \<Rightarrow> byte list" where
  "ToBytes s = (case DecodeString s of None \<Rightarrow> [] | Some bs \<Rightarrow> bs)"

definition KIDFromRawKey :: "byte \<Rightarrow> byte list \<Rightarrow> KID" where
  "KIDFromRawKey keyType raw = EncodeToString ([0x01, keyType] @ raw @ [0x0a])"

definition KIDNaclEddsa :: byte where "KIDNaclEddsa = 0x20"
definition KIDNaclDH :: byte where "KIDNaclDH = 0x21"

datatype crypto_error =
    RandError string | UnexpectedShortCryptoRandRead | ReadEOF
  | UnknownEncryptionVer int | InvalidNonceError "byte list" | DecryptionError
  | BadKeyError | KeyCannotEncryptError | KeyCannotVerifyError | VerificationError | UnknownSigVer int
  | PaddedBlockReadError int int | CodecError string | HashError hash_error | NoKeysError
  | InvalidKIDError KID | InvalidByte32DataError "byte list"

datatype naclKey = NaclSigningKeyPair "byte list" | NaclDHKeyPair "byte list"

definition ImportKeypairFromKID :: "KID \<Rightarrow> crypto_error + naclKey" where
  "ImportKeypairFromKID k =
     (let kid = ToBytes k; l = length kid; raw = take (l - 3) (drop 2 kid) in
      if l < 3 then Inl BadKeyError
      else if kid ! 0 \<noteq> 0x01 \<or> kid ! (l - 1) \<noteq> 0x0a then Inl BadKeyError
      else if kid ! 1 = KIDNaclEddsa then if length raw \<noteq> 32 then Inl BadKeyError else Inr (NaclSigningKeyPair raw)
      else if kid ! 1 = KIDNaclDH then if length raw \<noteq> 32 then Inl BadKeyError else Inr (NaclDHKeyPair raw)
      else Inl BadKeyError)"

definition KIDToNaclSigningKeyPublic :: "byte list \<Rightarrow> byte list option" where
  "KIDToNaclSigningKeyPublic bk =
     (if length bk \<noteq> 3 + 32 then None
      else if bk ! 0 \<noteq> 0x01 \<or> bk ! 1 \<noteq> KIDNaclEddsa \<or> bk ! (length bk - 1) \<noteq> 0x0a then None
      else Some (take 32 (drop 2 bk)))"

definition KID_IsNil :: "KID \<Rightarrow> bool" where
  "KID_IsNil k \<longleftrightarrow> length k = 0"

definition KID_IsValid :: "KID \<Rightarrow> bool" where
  "KID_IsValid k \<longleftrightarrow> length k > 0"

definition kid_MarshalBinary :: "kidContainer \<Rightarrow> crypto_error + byte list" where
  "kid_MarshalBinary k =
     (if KID_IsNil (kc_kid k) then Inr []
      else if \<not> KID_IsValid (kc_kid k) then Inl (InvalidKIDError (kc_kid k))
      else Inr (ToBytes (kc_kid k)))"

definition kid_UnmarshalBinary :: "byte list \<Rightarrow> crypto_error + kidContainer" where
  "kid_UnmarshalBinary data =
     (if length data = 0 then Inr \<lparr>kc_kid = []\<rparr>
      else let kid = EncodeToString data
           in if \<not> KID_IsValid kid then Inl (InvalidKIDError kid) else Inr \<lparr>kc_kid = kid\<rparr>)"

definition byte32_UnmarshalBinary :: "byte list \<Rightarrow> crypto_error + byte32Container" where
  "byte32_UnmarshalBinary data = (if length data \<noteq> 32 then Inl (InvalidByte32DataError data) else Inr \<lparr>b32_data = data\<rparr>)"

section \<open>The primitives\<close>

text \<open>
  A read of the random source is numbered; it gives an error or bytes, as many as it likes. The state of the
  cryptography is the number of reads made. \<open>cr_genBox\<close> and \<open>cr_genDH\<close> make pairs of a public and a private key.
\<close>

record cryptoEnv =
  cr_rand :: "nat \<Rightarrow> nat \<Rightarrow> string + byte list"
  cr_secretSeal :: "byte list \<Rightarrow> byte list \<Rightarrow> byte list \<Rightarrow> byte list"
  cr_secretOpen :: "byte list \<Rightarrow> byte list \<Rightarrow> byte list \<Rightarrow> byte list option"
  cr_boxSeal :: "byte list \<Rightarrow> byte list \<Rightarrow> byte list \<Rightarrow> byte list \<Rightarrow> byte list"
  cr_boxOpen :: "byte list \<Rightarrow> byte list \<Rightarrow> byte list \<Rightarrow> byte list \<Rightarrow> byte list option"
  cr_genBox :: "nat \<Rightarrow> string + (byte list \<times> byte list)"
  cr_genDH :: "nat \<Rightarrow> string + (byte list \<times> byte list)"
  cr_sign :: "byte list \<Rightarrow> byte list \<Rightarrow> byte list"
  cr_sigVerify :: "byte list \<Rightarrow> byte list \<Rightarrow> byte list \<Rightarrow> bool"

type_synonym 'a crypto = "(nat, crypto_error, 'a) act"

definition sumA :: "('x \<Rightarrow> 'e) \<Rightarrow> 'x + 'a \<Rightarrow> ('s, 'e, 'a) act" where
  "sumA f r = (case r of Inl x \<Rightarrow> failA (Error (f x)) | Inr a \<Rightarrow> retA a)"

lemma sumA_simps [simp]: "sumA f (Inr a) = retA a" "sumA f (Inl x) = failA (Error (f x))"
  by (simp_all add: sumA_def)

definition cryptoRandRead :: "cryptoEnv \<Rightarrow> nat \<Rightarrow> byte list crypto" where
  "cryptoRandRead e len n =
     (case cr_rand e n len of
        Inl er \<Rightarrow> failA (Error (RandError er)) (Suc n)
      | Inr bs \<Rightarrow> if length bs \<noteq> len then failA (Error UnexpectedShortCryptoRandRead) (Suc n) else retA bs (Suc n))"

text \<open>\<open>io.CopyN\<close> from the random source: fewer bytes than asked for are an error.\<close>

definition copyRandom :: "cryptoEnv \<Rightarrow> nat \<Rightarrow> byte list crypto" where
  "copyRandom e len n =
     (case cr_rand e n len of
        Inl er \<Rightarrow> failA (Error (RandError er)) (Suc n)
      | Inr bs \<Rightarrow> if length bs < len then failA (Error ReadEOF) (Suc n) else retA (take len bs) (Suc n))"

definition makeKeyPair :: "(nat \<Rightarrow> string + (byte list \<times> byte list)) \<Rightarrow> (byte list \<times> byte list) crypto" where
  "makeKeyPair gen n = (case gen n of Inl er \<Rightarrow> failA (Error (RandError er)) (Suc n) | Inr kp \<Rightarrow> retA kp (Suc n))"

section \<open>Identifiers and keys\<close>

definition MakeRandomTlfID :: "cryptoEnv \<Rightarrow> bool \<Rightarrow> TlfID crypto" where
  "MakeRandomTlfID e isPublic =
     bindA (cryptoRandRead e TlfIDByteLen)
       (\<lambda>bs. retA (TlfID (bs[TlfIDByteLen - 1 := (if isPublic then PubTlfIDSuffix else TlfIDSuffix)])))"

definition MakeRandomBranchID :: "cryptoEnv \<Rightarrow> BranchID crypto" where
  "MakeRandomBranchID e = bindA (cryptoRandRead e BranchIDByteLen) (\<lambda>bs. retA (BranchID bs))"

definition MakeRandomTemporaryBlockID :: "cryptoEnv \<Rightarrow> BlockID crypto" where
  "MakeRandomTemporaryBlockID e =
     bindA (cryptoRandRead e 32) (\<lambda>dh. bindA (sumA HashError (HashFromRaw DefaultHashType dh)) (\<lambda>h. retA (BlockID h)))"

text \<open>An error of the hash function is dropped here, and the nil ID returned with no error.\<close>

definition MakePermanentBlockID :: "byte list \<Rightarrow> BlockID" where
  "MakePermanentBlockID encodedEncryptedData =
     (case DefaultHash encodedEncryptedData of Inl _ \<Rightarrow> zeroBlockID | Inr h \<Rightarrow> BlockID h)"

definition VerifyBlockID :: "byte list \<Rightarrow> BlockID \<Rightarrow> hash_error option" where
  "VerifyBlockID encodedEncryptedData i = Hash_Verify (bid_h i) encodedEncryptedData"

definition MakeBlockRefNonce :: "cryptoEnv \<Rightarrow> BlockRefNonce crypto" where
  "MakeBlockRefNonce e = bindA (cryptoRandRead e 8) (\<lambda>bs. retA (foldl (\<lambda>w b. push_bit 8 w OR ucast b) 0 bs))"

definition MakeRandomTLFKeys ::
  "cryptoEnv \<Rightarrow> (TLFPublicKey \<times> TLFPrivateKey \<times> TLFEphemeralPublicKey \<times> TLFEphemeralPrivateKey \<times> TLFCryptKey) crypto" where
  "MakeRandomTLFKeys e =
     bindA (makeKeyPair (cr_genBox e)) (\<lambda>(publicKey, privateKey).
     bindA (makeKeyPair (cr_genDH e)) (\<lambda>(ePublic, ePrivate).
     bindA (cryptoRandRead e 32) (\<lambda>cryptKey.
       retA (\<lparr>b32_data = publicKey\<rparr>, \<lparr>b32_data = privateKey\<rparr>, \<lparr>b32_data = ePublic\<rparr>, \<lparr>b32_data = ePrivate\<rparr>,
             \<lparr>b32_data = cryptKey\<rparr>))))"

definition MakeRandomTLFCryptKeyServerHalf :: "cryptoEnv \<Rightarrow> TLFCryptKeyServerHalf crypto" where
  "MakeRandomTLFCryptKeyServerHalf e = bindA (cryptoRandRead e 32) (\<lambda>bs. retA \<lparr>b32_data = bs\<rparr>)"

definition MakeRandomBlockCryptKeyServerHalf :: "cryptoEnv \<Rightarrow> BlockCryptKeyServerHalf crypto" where
  "MakeRandomBlockCryptKeyServerHalf e = bindA (cryptoRandRead e 32) (\<lambda>bs. retA \<lparr>b32_data = bs\<rparr>)"

definition xorKeys :: "byte list \<Rightarrow> byte list \<Rightarrow> byte list" where
  "xorKeys x y = map2 (XOR) x y"

definition MaskTLFCryptKey :: "TLFCryptKeyServerHalf \<Rightarrow> TLFCryptKey \<Rightarrow> TLFCryptKeyClientHalf" where
  "MaskTLFCryptKey serverHalf key = \<lparr>b32_data = xorKeys (b32_data serverHalf) (b32_data key)\<rparr>"

definition UnmaskTLFCryptKey :: "TLFCryptKeyServerHalf \<Rightarrow> TLFCryptKeyClientHalf \<Rightarrow> TLFCryptKey" where
  "UnmaskTLFCryptKey serverHalf clientHalf = \<lparr>b32_data = xorKeys (b32_data serverHalf) (b32_data clientHalf)\<rparr>"

definition UnmaskBlockCryptKey :: "BlockCryptKeyServerHalf \<Rightarrow> TLFCryptKey \<Rightarrow> BlockCryptKey" where
  "UnmaskBlockCryptKey serverHalf tlfCryptKey = \<lparr>b32_data = xorKeys (b32_data serverHalf) (b32_data tlfCryptKey)\<rparr>"

section \<open>Signatures\<close>

definition SigED25519 :: int where "SigED25519 = 1"

record SignatureInfo =
  si_Version :: int
  si_Signature :: "byte list"
  si_VerifyingKey :: VerifyingKey

definition SignatureInfo_IsNil :: "SignatureInfo \<Rightarrow> bool" where
  "SignatureInfo_IsNil s \<longleftrightarrow> si_Version s = 0 \<and> length (si_Signature s) = 0 \<and> KID_IsNil (kc_kid (si_VerifyingKey s))"

text \<open>\<open>None\<close> is a nil error.\<close>

definition crypto_Verify :: "cryptoEnv \<Rightarrow> byte list \<Rightarrow> SignatureInfo \<Rightarrow> crypto_error option" where
  "crypto_Verify e msg sigInfo =
     (if si_Version sigInfo \<noteq> SigED25519 then Some (UnknownSigVer (si_Version sigInfo))
      else case KIDToNaclSigningKeyPublic (ToBytes (kc_kid (si_VerifyingKey sigInfo))) of
             None \<Rightarrow> Some KeyCannotVerifyError
           | Some publicKey \<Rightarrow>
               if length (si_Signature sigInfo) \<noteq> 64 then Some VerificationError
               else if \<not> cr_sigVerify e publicKey msg (si_Signature sigInfo) then Some VerificationError
               else None)"

record CryptoLocal =
  cl_signingPublic :: "byte list"
  cl_signingPrivate :: "byte list"
  cl_cryptPublic :: "byte list"
  cl_cryptPrivate :: "byte list"

definition GetVerifyingKey :: "CryptoLocal \<Rightarrow> VerifyingKey" where
  "GetVerifyingKey c = \<lparr>kc_kid = KIDFromRawKey KIDNaclEddsa (cl_signingPublic c)\<rparr>"

definition getPublicKey :: "CryptoLocal \<Rightarrow> CryptPublicKey" where
  "getPublicKey c = \<lparr>kc_kid = KIDFromRawKey KIDNaclDH (cl_cryptPublic c)\<rparr>"

definition local_Sign :: "cryptoEnv \<Rightarrow> CryptoLocal \<Rightarrow> byte list \<Rightarrow> SignatureInfo" where
  "local_Sign e c msg =
     \<lparr>si_Version = SigED25519, si_Signature = cr_sign e (cl_signingPrivate c) msg, si_VerifyingKey = GetVerifyingKey c\<rparr>"

section \<open>Encryption\<close>

definition EncryptionSecretbox :: int where "EncryptionSecretbox = 1"

record encryptedData =
  ed_Version :: int
  ed_EncryptedData :: "byte list"
  ed_Nonce :: "byte list"

definition EncryptTLFCryptKeyClientHalf ::
  "cryptoEnv \<Rightarrow> TLFEphemeralPrivateKey \<Rightarrow> CryptPublicKey \<Rightarrow> TLFCryptKeyClientHalf \<Rightarrow> encryptedData crypto" where
  "EncryptTLFCryptKeyClientHalf e privateKey publicKey clientHalf =
     bindA (cryptoRandRead e 24) (\<lambda>nonce.
     bindA (sumA id (ImportKeypairFromKID (kc_kid publicKey))) (\<lambda>keypair.
       case keypair of
         NaclSigningKeyPair _ \<Rightarrow> failA (Error KeyCannotEncryptError)
       | NaclDHKeyPair public \<Rightarrow>
           retA \<lparr>ed_Version = EncryptionSecretbox,
                 ed_EncryptedData = cr_boxSeal e (b32_data clientHalf) nonce public (b32_data privateKey),
                 ed_Nonce = nonce\<rparr>))"

definition encryptData :: "cryptoEnv \<Rightarrow> byte list \<Rightarrow> byte list \<Rightarrow> encryptedData crypto" where
  "encryptData e data key =
     bindA (cryptoRandRead e 24) (\<lambda>nonce.
       retA \<lparr>ed_Version = EncryptionSecretbox, ed_EncryptedData = cr_secretSeal e data nonce key, ed_Nonce = nonce\<rparr>)"

definition decryptData :: "cryptoEnv \<Rightarrow> encryptedData \<Rightarrow> byte list \<Rightarrow> crypto_error + byte list" where
  "decryptData e ed key =
     (if ed_Version ed \<noteq> EncryptionSecretbox then Inl (UnknownEncryptionVer (ed_Version ed))
      else if length (ed_Nonce ed) \<noteq> 24 then Inl (InvalidNonceError (ed_Nonce ed))
      else case cr_secretOpen e (ed_EncryptedData ed) (ed_Nonce ed) key of
             None \<Rightarrow> Inl DecryptionError | Some data \<Rightarrow> Inr data)"

definition EncryptPrivateMetadata ::
  "cryptoEnv \<Rightarrow> ('p \<Rightarrow> string + byte list) \<Rightarrow> 'p \<Rightarrow> TLFCryptKey \<Rightarrow> encryptedData crypto" where
  "EncryptPrivateMetadata e encode pmd key =
     bindA (sumA CodecError (encode pmd)) (\<lambda>encodedPmd. encryptData e encodedPmd (b32_data key))"

definition DecryptPrivateMetadata ::
  "cryptoEnv \<Rightarrow> (byte list \<Rightarrow> string + 'p) \<Rightarrow> encryptedData \<Rightarrow> TLFCryptKey \<Rightarrow> crypto_error + 'p" where
  "DecryptPrivateMetadata e decode encryptedPmd key =
     (case decryptData e encryptedPmd (b32_data key) of
        Inl er \<Rightarrow> Inl er
      | Inr encodedPmd \<Rightarrow> (case decode encodedPmd of Inl er \<Rightarrow> Inl (CodecError er) | Inr pmd \<Rightarrow> Inr pmd))"

definition minBlockSize :: uint32 where "minBlockSize = 256"

definition nextPowerOfTwo :: "uint32 \<Rightarrow> uint32" where
  "nextPowerOfTwo n =
     (if n < minBlockSize then minBlockSize
      else let n = (if n AND (n - 1) = 0 then n + 1 else n);
               n = n - 1;
               n = n OR drop_bit 1 n;
               n = n OR drop_bit 2 n;
               n = n OR drop_bit 4 n;
               n = n OR drop_bit 8 n;
               n = n OR drop_bit 16 n
           in n + 1)"

definition padPrefixSize :: uint32 where "padPrefixSize = 4"

definition le32 :: "uint32 \<Rightarrow> byte list" where
  "le32 w = map (\<lambda>i. ucast (drop_bit (8 * i) w)) [0, 1, 2, 3]"

definition readLE32 :: "byte list \<Rightarrow> uint32" where
  "readLE32 bs = foldr (\<lambda>b w. push_bit 8 w OR ucast b) bs 0"

definition padBlock :: "cryptoEnv \<Rightarrow> byte list \<Rightarrow> byte list crypto" where
  "padBlock e block =
     (let blockLen = word_of_nat (length block);
          overallLen = nextPowerOfTwo blockLen;
          padLen = unat (overallLen - blockLen)
      in bindA (copyRandom e padLen) (\<lambda>pad. retA (le32 blockLen @ block @ pad)))"

definition depadBlock :: "byte list \<Rightarrow> crypto_error + byte list" where
  "depadBlock paddedBlock =
     (if length paddedBlock < 4 then Inl ReadEOF
      else let blockLen = readLE32 (take 4 paddedBlock);
               blockEndPos = uint (blockLen + padPrefixSize)
           in if int (length paddedBlock) < blockEndPos
              then Inl (PaddedBlockReadError (int (length paddedBlock)) blockEndPos)
              else Inr (take (unat blockLen) (drop 4 paddedBlock)))"

definition EncryptBlock ::
  "cryptoEnv \<Rightarrow> ('b \<Rightarrow> string + byte list) \<Rightarrow> 'b \<Rightarrow> BlockCryptKey \<Rightarrow> (nat \<times> encryptedData) crypto" where
  "EncryptBlock e encode block key =
     bindA (sumA CodecError (encode block)) (\<lambda>encodedBlock.
     bindA (padBlock e encodedBlock) (\<lambda>paddedBlock.
     bindA (encryptData e paddedBlock (b32_data key)) (\<lambda>ed. retA (length encodedBlock, ed))))"

definition DecryptBlock ::
  "cryptoEnv \<Rightarrow> (byte list \<Rightarrow> string + 'b) \<Rightarrow> encryptedData \<Rightarrow> BlockCryptKey \<Rightarrow> crypto_error + 'b" where
  "DecryptBlock e decode encryptedBlock key =
     (case decryptData e encryptedBlock (b32_data key) of
        Inl er \<Rightarrow> Inl er
      | Inr paddedBlock \<Rightarrow>
          (case depadBlock paddedBlock of
             Inl er \<Rightarrow> Inl er
           | Inr encodedBlock \<Rightarrow> (case decode encodedBlock of Inl er \<Rightarrow> Inl (CodecError er) | Inr block \<Rightarrow> Inr block)))"

section \<open>Key halves\<close>

datatype TLFCryptKeyServerHalfID = TLFCryptKeyServerHalfID (shid_ID: HMAC)

definition GetTLFCryptKeyServerHalfID ::
  "UID \<Rightarrow> KID \<Rightarrow> TLFCryptKeyServerHalf \<Rightarrow> hash_error + TLFCryptKeyServerHalfID" where
  "GetTLFCryptKeyServerHalfID user deviceKID serverHalf =
     (case DefaultHMAC (b32_data serverHalf) (ToBytes user @ ToBytes deviceKID) of
        Inl er \<Rightarrow> Inl er | Inr hmac \<Rightarrow> Inr (TLFCryptKeyServerHalfID hmac))"

definition VerifyTLFCryptKeyServerHalfID ::
  "TLFCryptKeyServerHalfID \<Rightarrow> UID \<Rightarrow> KID \<Rightarrow> TLFCryptKeyServerHalf \<Rightarrow> hash_error option" where
  "VerifyTLFCryptKeyServerHalfID serverHalfID user deviceKID serverHalf =
     HMAC_Verify (shid_ID serverHalfID) (b32_data serverHalf) (ToBytes user @ ToBytes deviceKID)"

definition prepareTLFCryptKeyClientHalf :: "encryptedData \<Rightarrow> crypto_error + byte list" where
  "prepareTLFCryptKeyClientHalf ed =
     (if ed_Version ed \<noteq> EncryptionSecretbox then Inl (UnknownEncryptionVer (ed_Version ed))
      else if length (ed_EncryptedData ed) \<noteq> 32 + 16 then Inl DecryptionError
      else if length (ed_Nonce ed) \<noteq> 24 then Inl (InvalidNonceError (ed_Nonce ed))
      else Inr (ed_Nonce ed))"

definition DecryptTLFCryptKeyClientHalf ::
  "cryptoEnv \<Rightarrow> CryptoLocal \<Rightarrow> TLFEphemeralPublicKey \<Rightarrow> encryptedData \<Rightarrow> crypto_error + TLFCryptKeyClientHalf" where
  "DecryptTLFCryptKeyClientHalf e c publicKey ed =
     (case prepareTLFCryptKeyClientHalf ed of
        Inl er \<Rightarrow> Inl er
      | Inr nonce \<Rightarrow>
          (case cr_boxOpen e (ed_EncryptedData ed) nonce (b32_data publicKey) (cl_cryptPrivate c) of
             None \<Rightarrow> Inl DecryptionError
           | Some data \<Rightarrow> if length data \<noteq> 32 then Inl DecryptionError else Inr \<lparr>b32_data = data\<rparr>))"

record EncryptedTLFCryptKeyClientAndEphemeral =
  ce_PubKey :: CryptPublicKey
  ce_ClientHalf :: encryptedData
  ce_EPubKey :: TLFEphemeralPublicKey

text \<open>Go's \<open>copy\<close> into an array of 32 zero bytes.\<close>

definition copy32 :: "byte list \<Rightarrow> byte32Container" where
  "copy32 bs = \<lparr>b32_data = take 32 bs @ replicate (32 - length bs) 0\<rparr>"

fun tryKeys :: "cryptoEnv \<Rightarrow> CryptoLocal \<Rightarrow> nat \<Rightarrow> EncryptedTLFCryptKeyClientAndEphemeral list \<Rightarrow> crypto_error + (TLFCryptKeyClientHalf \<times> nat)" where
  "tryKeys e c i [] = Inl DecryptionError"
| "tryKeys e c i (k # ks) =
     (case prepareTLFCryptKeyClientHalf (ce_ClientHalf k) of
        Inl _ \<Rightarrow> tryKeys e c (Suc i) ks
      | Inr nonce \<Rightarrow>
          (case cr_boxOpen e (ed_EncryptedData (ce_ClientHalf k)) nonce (b32_data (ce_EPubKey k)) (cl_cryptPrivate c) of
             None \<Rightarrow> tryKeys e c (Suc i) ks
           | Some data \<Rightarrow> Inr (copy32 data, i)))"

definition DecryptTLFCryptKeyClientHalfAny ::
  "cryptoEnv \<Rightarrow> CryptoLocal \<Rightarrow> EncryptedTLFCryptKeyClientAndEphemeral list \<Rightarrow> crypto_error + (TLFCryptKeyClientHalf \<times> nat)" where
  "DecryptTLFCryptKeyClientHalfAny e c keys = (if keys = [] then Inl NoKeysError else tryKeys e c 0 keys)"

section \<open>Merkle leaves\<close>

record EncryptedMerkleLeaf =
  el_Version :: int
  el_EncryptedData :: "byte list"

definition EncryptMerkleLeaf ::
  "cryptoEnv \<Rightarrow> ('l \<Rightarrow> string + byte list) \<Rightarrow> 'l \<Rightarrow> TLFPublicKey \<Rightarrow> byte list \<Rightarrow> TLFEphemeralPrivateKey \<Rightarrow>
   crypto_error + EncryptedMerkleLeaf" where
  "EncryptMerkleLeaf e encode leaf pubKey nonce ePrivKey =
     (case encode leaf of
        Inl er \<Rightarrow> Inl (CodecError er)
      | Inr leafBytes \<Rightarrow>
          Inr \<lparr>el_Version = EncryptionSecretbox,
               el_EncryptedData = cr_boxSeal e leafBytes nonce (b32_data pubKey) (b32_data ePrivKey)\<rparr>)"

definition DecryptMerkleLeaf ::
  "cryptoEnv \<Rightarrow> (byte list \<Rightarrow> string + 'l) \<Rightarrow> EncryptedMerkleLeaf \<Rightarrow> TLFPrivateKey \<Rightarrow> byte list \<Rightarrow> TLFEphemeralPublicKey \<Rightarrow>
   crypto_error + 'l" where
  "DecryptMerkleLeaf e decode encryptedLeaf privKey nonce ePubKey =
     (if el_Version encryptedLeaf \<noteq> EncryptionSecretbox then Inl (UnknownEncryptionVer (el_Version encryptedLeaf))
      else case cr_boxOpen e (el_EncryptedData encryptedLeaf) nonce (b32_data ePubKey) (b32_data privKey) of
             None \<Rightarrow> Inl DecryptionError
           | Some leafBytes \<Rightarrow> (case decode leafBytes of Inl er \<Rightarrow> Inl (CodecError er) | Inr leaf \<Rightarrow> Inr leaf))"

section \<open>What the primitives promise\<close>

text \<open>
  \<open>pub\<close> gives the public key of a private one. What a secret box or a box was sealed with opens it, sealing adds 16
  bytes, and what a key has signed verifies.
\<close>

definition nacl_ok :: "cryptoEnv \<Rightarrow> (byte list \<Rightarrow> byte list) \<Rightarrow> bool" where
  "nacl_ok e pub \<longleftrightarrow>
     (\<forall>m n k. cr_secretOpen e (cr_secretSeal e m n k) n k = Some m \<and> length (cr_secretSeal e m n k) = length m + 16) \<and>
     (\<forall>m n a b. cr_boxOpen e (cr_boxSeal e m n (pub b) a) n (pub a) b = Some m \<and>
        length (cr_boxSeal e m n (pub b) a) = length m + 16) \<and>
     (\<forall>m a. cr_sigVerify e (pub a) m (cr_sign e a m) \<and> length (cr_sign e a m) = 64) \<and>
     (\<forall>a. length (pub a) = 32) \<and>
     (\<forall>n p a. cr_genBox e n = Inr (p, a) \<or> cr_genDH e n = Inr (p, a) \<longrightarrow> p = pub a)"

definition local_ok :: "(byte list \<Rightarrow> byte list) \<Rightarrow> CryptoLocal \<Rightarrow> bool" where
  "local_ok pub c \<longleftrightarrow> cl_signingPublic c = pub (cl_signingPrivate c) \<and> cl_cryptPublic c = pub (cl_cryptPrivate c)"

section \<open>Lemmas\<close>

lemma ToBytes_KID [simp]: "ToBytes (KIDFromRawKey t raw) = [0x01, t] @ raw @ [0x0a]"
  by (simp add: ToBytes_def KIDFromRawKey_def)

lemma Import_DH [simp]: "length raw = 32 \<Longrightarrow> ImportKeypairFromKID (KIDFromRawKey KIDNaclDH raw) = Inr (NaclDHKeyPair raw)"
  by (simp add: ImportKeypairFromKID_def Let_def KIDNaclEddsa_def KIDNaclDH_def nth_append nth_Cons')

lemma KIDToNacl [simp]: "length raw = 32 \<Longrightarrow> KIDToNaclSigningKeyPublic ([0x01, KIDNaclEddsa] @ raw @ [0x0a]) = Some raw"
  by (simp add: KIDToNaclSigningKeyPublic_def nth_append nth_Cons')

lemma cryptoRandRead_Inr: "cryptoRandRead e len n = (Inr bs, n') \<Longrightarrow> length bs = len \<and> n' = Suc n"
  by (auto simp: cryptoRandRead_def split: sum.splits if_splits)

lemma xorKeys_cancel [simp]: "length x = length y \<Longrightarrow> xorKeys x (xorKeys x y) = y"
proof (induction x y rule: list_induct2)
  case (Cons x xs y ys)
  have "x XOR (x XOR y) = y" by (simp add: bit_eq_iff bit_xor_iff)
  then show ?case using Cons by (simp add: xorKeys_def)
qed (simp add: xorKeys_def)

lemma length_xorKeys [simp]: "length (xorKeys x y) = min (length x) (length y)"
  by (simp add: xorKeys_def)

section \<open>Padding\<close>

lemma le32_length [simp]: "length (le32 w) = 4"
  by (simp add: le32_def)

lemma bit_readLE32_Cons: "bit (readLE32 (b # bs)) n \<longleftrightarrow> n < 32 \<and> (if n < 8 then bit b n else bit (readLE32 bs) (n - 8))"
proof -
  have "readLE32 (b # bs) = push_bit 8 (readLE32 bs) OR ucast b" by (simp add: readLE32_def)
  then show ?thesis by (auto simp: bit_or_iff bit_push_bit_iff bit_ucast_iff bit_imp_le_length dest: bit_imp_le_length)
qed

lemma readLE32_le32 [simp]: "readLE32 (le32 w) = w"
proof (rule bit_word_eqI)
  fix n assume n: "n < LENGTH(32)"
  have "\<not> bit (readLE32 []) m" for m by (simp add: readLE32_def)
  then show "bit (readLE32 (le32 w)) n = bit w n" using n
    by (simp add: le32_def bit_readLE32_Cons bit_ucast_iff bit_drop_bit_eq) linarith
qed

text \<open>After the shifts by \<open>1\<close>, \<open>2\<close>, \<open>\<dots>\<close>, a bit is set when one of the next \<open>2 ^ k\<close> bits was.\<close>

definition smeared :: "uint32 \<Rightarrow> nat \<Rightarrow> uint32 \<Rightarrow> bool" where
  "smeared n k w \<longleftrightarrow> (\<forall>i. bit w i \<longleftrightarrow> (\<exists>d < k. bit n (i + d)))"

lemma smeared_step:
  assumes "smeared n k w"
  shows "smeared n (2 * k) (w OR drop_bit k w)"
  unfolding smeared_def
proof
  fix i
  have "bit (w OR drop_bit k w) i \<longleftrightarrow> (\<exists>d < k. bit n (i + d)) \<or> (\<exists>d < k. bit n (i + k + d))"
    using assms by (simp add: smeared_def bit_or_iff bit_drop_bit_eq add.commute)
  also have "\<dots> \<longleftrightarrow> (\<exists>d < 2 * k. bit n (i + d))"
  proof
    assume "(\<exists>d < k. bit n (i + d)) \<or> (\<exists>d < k. bit n (i + k + d))"
    then show "\<exists>d < 2 * k. bit n (i + d)"
    proof (elim disjE exE conjE)
      fix d assume "d < k" "bit n (i + k + d)"
      then show ?thesis by (intro exI[of _ "k + d"]) (simp add: add.assoc)
    qed (metis mult_2 trans_less_add1)
  next
    assume "\<exists>d < 2 * k. bit n (i + d)"
    then obtain d where d: "d < 2 * k" "bit n (i + d)" by blast
    show "(\<exists>d < k. bit n (i + d)) \<or> (\<exists>d < k. bit n (i + k + d))"
    proof (cases "d < k")
      case False
      then have "d - k < k \<and> bit n (i + k + (d - k))" using d by simp
      then show ?thesis by blast
    qed (use d in blast)
  qed
  finally show "bit (w OR drop_bit k w) i \<longleftrightarrow> (\<exists>d < 2 * k. bit n (i + d))" .
qed

lemma top_bit:
  fixes w :: uint32
  assumes "2 ^ h \<le> unat w" and "unat w < 2 ^ Suc h"
  shows "bit w i \<Longrightarrow> i \<le> h" and "bit w h"
proof -
  have b: "bit w j \<longleftrightarrow> odd (unat w div 2 ^ j)" for j by (simp flip: bit_iff_odd add: bit_unsigned_iff)
  show "i \<le> h" if "bit w i"
  proof (rule ccontr)
    assume "\<not> i \<le> h"
    then have "(2::nat) ^ Suc h \<le> 2 ^ i" by (intro power_increasing) auto
    then have "unat w div 2 ^ i = 0" using assms(2) by simp
    then show False using that b by simp
  qed
  have "unat w div 2 ^ h = 1" using assms by (intro div_nat_eqI) auto
  then show "bit w h" by (simp add: b)
qed

lemma smear_mask:
  fixes w :: uint32
  assumes "2 ^ h \<le> unat w" and "unat w < 2 ^ Suc h"
  shows "(let n = w; n = n OR drop_bit 1 n; n = n OR drop_bit 2 n; n = n OR drop_bit 4 n;
           n = n OR drop_bit 8 n; n = n OR drop_bit 16 n in n + 1) = 2 ^ Suc h"
proof -
  have s1: "smeared w 1 w" by (simp add: smeared_def)
  let ?r = "let n = w; n = n OR drop_bit 1 n; n = n OR drop_bit 2 n; n = n OR drop_bit 4 n; n = n OR drop_bit 8 n in n OR drop_bit 16 n"
  have s: "smeared w 32 ?r"
    using smeared_step[OF smeared_step[OF smeared_step[OF smeared_step[OF smeared_step[OF s1]]]]] by (simp add: Let_def)
  have h: "h < 32"
  proof (rule ccontr)
    assume "\<not> h < 32"
    then have "(2::nat) ^ 32 \<le> 2 ^ h" by (intro power_increasing) auto
    then show False using assms(1) unsigned_less[where ?'a = nat and ?w = w] by simp
  qed
  have "?r = mask (Suc h)"
  proof (rule bit_word_eqI)
    fix i assume "i < LENGTH(32)"
    have "(\<exists>d < 32. bit w (i + d)) \<longleftrightarrow> i \<le> h"
    proof
      assume "i \<le> h"
      then have "h - i < 32 \<and> bit w (i + (h - i))" using h top_bit(2)[OF assms] by simp
      then show "\<exists>d < 32. bit w (i + d)" by blast
    qed (use top_bit(1)[OF assms] add_leD1 in blast)
    then have "bit ?r i \<longleftrightarrow> i \<le> h" using s by (simp add: smeared_def)
    then show "bit ?r i = bit (mask (Suc h) :: uint32) i" using \<open>i < LENGTH(32)\<close> by (simp add: bit_mask_iff less_Suc_eq_le)
  qed
  moreover have "(mask (Suc h) :: uint32) + 1 = 2 ^ Suc h" by (simp add: mask_eq_exp_minus_1)
  ultimately show ?thesis by (simp add: Let_def)
qed

lemma nextPowerOfTwo_bits:
  assumes "2 ^ h \<le> unat n" and "unat n < 2 ^ Suc h" and "minBlockSize \<le> n"
  shows "nextPowerOfTwo n = 2 ^ Suc h"
proof -
  let ?m = "if n AND (n - 1) = 0 then n + 1 else n"
  have n0: "n \<noteq> 0" using assms(3) by (auto simp: minBlockSize_def)
  have "2 ^ h \<le> unat (?m - 1) \<and> unat (?m - 1) < 2 ^ Suc h"
  proof (cases "n AND (n - 1) = 0")
    case False
    have "unat n \<noteq> 2 ^ h"
    proof
      assume "unat n = 2 ^ h"
      then have "n = 2 ^ h" by (metis of_nat_numeral of_nat_power of_nat_unat ucast_id)
      moreover have "(2 ^ h :: uint32) AND mask h = 0" by (rule bit_word_eqI) (auto simp: bit_simps)
      ultimately show False using False by (simp flip: mask_eq_exp_minus_1)
    qed
    moreover have "unat (n - 1) = unat n - 1" using n0 by (simp add: unat_minus_one)
    ultimately have "2 ^ h \<le> unat (n - 1) \<and> unat (n - 1) < 2 ^ Suc h" using assms(1,2) by linarith
    then show ?thesis using False by simp
  qed (use assms in simp)
  then have "(let n = ?m - 1; n = n OR drop_bit 1 n; n = n OR drop_bit 2 n; n = n OR drop_bit 4 n;
      n = n OR drop_bit 8 n; n = n OR drop_bit 16 n in n + 1) = 2 ^ Suc h" by (intro smear_mask) auto
  moreover have "\<not> n < minBlockSize" using assms(3) by simp
  ultimately show ?thesis unfolding nextPowerOfTwo_def Let_def by (simp only: if_False)
qed

lemma nextPowerOfTwo_ex:
  "\<exists>k. 8 \<le> k \<and> k \<le> 32 \<and> nextPowerOfTwo n = 2 ^ k \<and> unat n < 2 ^ k \<and> (n < 256 \<or> 2 ^ (k - 1) \<le> unat n)"
proof (cases "n < minBlockSize")
  case True
  then have "unat n < 256" by (simp add: minBlockSize_def word_less_nat_alt)
  then show ?thesis using True by (intro exI[of _ 8]) (simp add: nextPowerOfTwo_def minBlockSize_def)
next
  case False
  then have ge: "256 \<le> unat n" by (simp add: minBlockSize_def word_less_nat_alt)
  then obtain h where h: "2 ^ h \<le> unat n" "unat n < 2 ^ (h + 1)" using ex_power_ivl1[of 2 "unat n"] by auto
  have "8 \<le> Suc h"
  proof (rule ccontr)
    assume "\<not> 8 \<le> Suc h"
    then have "(2::nat) ^ (h + 1) \<le> 2 ^ 7" by (intro power_increasing) auto
    then show False using h(2) ge by simp
  qed
  moreover have "Suc h \<le> 32"
  proof (rule ccontr)
    assume "\<not> Suc h \<le> 32"
    then have "(2::nat) ^ 32 \<le> 2 ^ h" by (intro power_increasing) auto
    then show False using h(1) unsigned_less[where ?'a = nat and ?w = n] by simp
  qed
  moreover have "nextPowerOfTwo n = 2 ^ Suc h" using nextPowerOfTwo_bits[of h n] h False by simp
  ultimately show ?thesis using h by (intro exI[of _ "Suc h"]) simp
qed

lemma padBlock_Inr:
  assumes "padBlock e block n = (Inr p, n')"
  shows "\<exists>pad. p = le32 (word_of_nat (length block)) @ block @ pad \<and>
    length pad = unat (nextPowerOfTwo (word_of_nat (length block)) - word_of_nat (length block))"
  using assms by (auto simp: padBlock_def copyRandom_def Let_def bindA_def split: sum.splits if_splits prod.splits)

lemma unat_small: "m < 2 ^ 32 \<Longrightarrow> unat (word_of_nat m :: uint32) = m"
  by (simp add: unat_of_nat)

lemma prefix_end: "uint (w + padPrefixSize) = (int (unat w) + 4) mod 2 ^ 32"
  by (simp add: padPrefixSize_def uint_word_ariths)

lemma depadBlock_pad:
  assumes "length block + 4 < 2 ^ 32"
  shows "depadBlock (le32 (word_of_nat (length block)) @ block @ pad) = Inr block"
proof -
  have "uint (word_of_nat (length block) + padPrefixSize) = (int (length block) + 4) mod 2 ^ 32"
    using assms by (simp add: prefix_end unat_small)
  also have "\<dots> = int (length block + 4)" using assms by simp
  finally have "uint (word_of_nat (length block) + padPrefixSize) = int (length block + 4)" .
  then show ?thesis using assms by (simp add: depadBlock_def Let_def unat_small)
qed

text \<open>The size of a padded block: a power of two, and the least one above the size of the block when that is at least 256.\<close>

lemma padded_size:
  assumes "length block < 2 ^ 31"
  shows "\<exists>k. length block + unat (nextPowerOfTwo (word_of_nat (length block)) - word_of_nat (length block)) = 2 ^ k \<and>
    length block < 2 ^ k \<and> 2 ^ k \<le> max 256 (2 * length block)"
proof -
  let ?n = "word_of_nat (length block) :: uint32"
  have n: "unat ?n = length block" using assms by (simp add: unat_small)
  obtain k where k: "8 \<le> k" "k \<le> 32" "nextPowerOfTwo ?n = 2 ^ k" "unat ?n < 2 ^ k" "?n < 256 \<or> 2 ^ (k - 1) \<le> unat ?n"
    using nextPowerOfTwo_ex by blast
  have k32: "k < 32"
  proof (rule ccontr)
    assume "\<not> k < 32"
    then have "k = 32" using k(2) by simp
    moreover have "\<not> ?n < 256" using k(3) \<open>k = 32\<close> by (auto simp: nextPowerOfTwo_def minBlockSize_def)
    ultimately show False using k(5) n assms by simp
  qed
  have "(2::nat) ^ k < 2 ^ 32" using k32 by (intro power_strict_increasing) auto
  then have "unat (2 ^ k :: uint32) = 2 ^ k" using unat_small[of "2 ^ k"] by simp
  then have "unat (nextPowerOfTwo ?n - ?n) = 2 ^ k - length block" using k(3,4) n by (simp add: unat_sub word_le_nat_alt)
  moreover have "2 ^ k \<le> max 256 (2 * length block)"
  proof (cases "?n < 256")
    case True
    then have "nextPowerOfTwo ?n = 256" by (simp add: nextPowerOfTwo_def minBlockSize_def)
    then show ?thesis using \<open>unat (2 ^ k) = 2 ^ k\<close> k(3) by simp
  next
    case False
    then have "2 * 2 ^ (k - 1) \<le> 2 * length block" using k(5) n by simp
    then show ?thesis using k(1) by (metis le_max_iff_disj not_numeral_le_zero power_eq_if)
  qed
  ultimately show ?thesis using k(4) n by (intro exI[of _ k]) simp
qed

section \<open>Theorems\<close>

text \<open>The random source delivers.\<close>

definition rand_ok :: "cryptoEnv \<Rightarrow> bool" where
  "rand_ok e \<longleftrightarrow> (\<forall>n len. \<exists>bs. cr_rand e n len = Inr bs \<and> length bs = len)"

lemma rand_reads:
  assumes "rand_ok e"
  shows "\<exists>bs. cryptoRandRead e len n = (Inr bs, Suc n) \<and> length bs = len"
    and "\<exists>bs. copyRandom e len n = (Inr bs, Suc n) \<and> length bs = len"
proof -
  obtain bs where "cr_rand e n len = Inr bs" "length bs = len" using assms unfolding rand_ok_def by blast
  then show "\<exists>bs. cryptoRandRead e len n = (Inr bs, Suc n) \<and> length bs = len"
    and "\<exists>bs. copyRandom e len n = (Inr bs, Suc n) \<and> length bs = len"
    by (simp_all add: cryptoRandRead_def copyRandom_def)
qed

text \<open>
  C20: Encrypting a block whose encoding is shorter than 2 GB succeeds when the random source delivers, and decrypting
  gives the block back. What is stored is 20 bytes longer than a power of two that is larger than the encoding and,
  from 256 bytes on, at most twice as large: the size tells nothing else about the block.
\<close>

theorem EncryptBlock_roundtrip:
  assumes "nacl_ok e pub" and "rand_ok e" and "encode block = Inr bs" and "decode bs = Inr block" and "length bs < 2 ^ 31"
  shows "\<exists>ed n' k. EncryptBlock e encode block key n = (Inr (length bs, ed), n') \<and> DecryptBlock e decode ed key = Inr block \<and>
    length (ed_EncryptedData ed) = 2 ^ k + 20 \<and> length bs < 2 ^ k \<and> 2 ^ k \<le> max 256 (2 * length bs)"
proof -
  let ?pl = "unat (nextPowerOfTwo (word_of_nat (length bs)) - word_of_nat (length bs))"
  obtain pad where pad: "copyRandom e ?pl n = (Inr pad, Suc n)" "length pad = ?pl" using rand_reads(2)[OF assms(2)] by blast
  obtain nonce where nonce: "cryptoRandRead e 24 (Suc n) = (Inr nonce, Suc (Suc n))" "length nonce = 24"
    using rand_reads(1)[OF assms(2)] by blast
  obtain k where k: "length bs + ?pl = 2 ^ k" "length bs < 2 ^ k" "2 ^ k \<le> max 256 (2 * length bs)"
    using padded_size[OF assms(5)] by blast
  define p where "p = le32 (word_of_nat (length bs)) @ bs @ pad"
  define ed where "ed = \<lparr>ed_Version = EncryptionSecretbox, ed_EncryptedData = cr_secretSeal e p nonce (b32_data key), ed_Nonce = nonce\<rparr>"
  have seal: "cr_secretOpen e (cr_secretSeal e p nonce (b32_data key)) nonce (b32_data key) = Some p"
    "length (cr_secretSeal e p nonce (b32_data key)) = length p + 16"
    using assms(1) by (simp_all add: nacl_ok_def)
  have "padBlock e bs n = (Inr p, Suc n)" by (simp add: padBlock_def Let_def pad(1) p_def)
  then have "EncryptBlock e encode block key n = (Inr (length bs, ed), Suc (Suc n))"
    by (simp add: EncryptBlock_def assms(3) encryptData_def nonce(1) ed_def)
  moreover have "depadBlock p = Inr bs" unfolding p_def by (rule depadBlock_pad) (use assms(5) in simp)
  then have "DecryptBlock e decode ed key = Inr block"
    by (simp add: DecryptBlock_def decryptData_def ed_def seal(1) nonce(2) assms(4))
  moreover have "length (ed_EncryptedData ed) = 2 ^ k + 20"
    using k(1) by (simp add: ed_def seal(2)) (simp add: p_def pad(2))
  ultimately show ?thesis using k(2,3) by blast
qed

text \<open>A check of the length in a padded block that wraps around: such a block is not refused, and all of its rest is returned.\<close>

lemma depad_overflow_accepted:
  assumes "2 ^ 32 - 4 \<le> unat w" and "length rest < 2 ^ 31"
  shows "depadBlock (le32 w @ rest) = Inr rest"
proof -
  have w: "unat w < 2 ^ 32" using unsigned_less[where ?'a = nat and ?w = w] by simp
  have wrap: "(int m + 4) mod 2 ^ 32 = int m + 4 - 2 ^ 32" if "2 ^ 32 - 4 \<le> m" "m < 2 ^ 32" for m
  proof -
    have "(int m + 4) mod 2 ^ 32 = (int m + 4 - 2 ^ 32) mod 2 ^ 32" by (rule minus_mod_self2[symmetric])
    also have "\<dots> = int m + 4 - 2 ^ 32" using that by (intro mod_pos_pos_trivial) auto
    finally show ?thesis .
  qed
  have "uint (w + padPrefixSize) = int (unat w) + 4 - 2 ^ 32" unfolding prefix_end by (rule wrap[OF assms(1) w])
  moreover have "uint w < 2 ^ 32" using w by (metis of_nat_less_iff of_nat_numeral of_nat_power of_nat_unat)
  ultimately show ?thesis using assms by (simp add: depadBlock_def Let_def)
qed

text \<open>An instance of the primitives: boxes that show their content behind 16 zero bytes.\<close>

definition cx_env :: cryptoEnv where
  "cx_env = \<lparr>cr_rand = (\<lambda>n len. Inr (replicate len 7)),
     cr_secretSeal = (\<lambda>m n k. replicate 16 0 @ m), cr_secretOpen = (\<lambda>b n k. Some (drop 16 b)),
     cr_boxSeal = (\<lambda>m n p a. replicate 16 0 @ m), cr_boxOpen = (\<lambda>b n p a. Some (drop 16 b)),
     cr_genBox = (\<lambda>n. Inr (replicate 32 0, replicate 32 1)), cr_genDH = (\<lambda>n. Inr (replicate 32 0, replicate 32 1)),
     cr_sign = (\<lambda>a m. replicate 64 0), cr_sigVerify = (\<lambda>p m s. s = replicate 64 0)\<rparr>"

lemma cx_env_ok: "nacl_ok cx_env (\<lambda>a. replicate 32 0)" "rand_ok cx_env"
  by (simp_all add: nacl_ok_def rand_ok_def cx_env_def)

theorem EncryptBlock_roundtrip_witness:
  "\<exists>ed n' k. EncryptBlock cx_env Inr [1, 2, 3] zeroKey 0 = (Inr (3, ed), n') \<and> DecryptBlock cx_env Inr ed zeroKey = Inr [1, 2, 3] \<and>
    length (ed_EncryptedData ed) = 2 ^ k + 20 \<and> (3::nat) < 2 ^ k \<and> (2::nat) ^ k \<le> 256"
  using EncryptBlock_roundtrip[OF cx_env_ok, of Inr "[1, 2, 3]" "[1, 2, 3]" Inr zeroKey 0] by (simp add: numeral_3_eq_3)

text \<open>The device that a client half was encrypted for can decrypt it.\<close>

lemma clientHalf_roundtrip:
  assumes "nacl_ok e pub" and "local_ok pub c" and "length (b32_data half) = 32"
    and "EncryptTLFCryptKeyClientHalf e ePriv (getPublicKey c) half n = (Inr ed, n')"
  shows "DecryptTLFCryptKeyClientHalf e c \<lparr>b32_data = pub (b32_data ePriv)\<rparr> ed = Inr half"
proof -
  have len: "length (cl_cryptPublic c) = 32" using assms(1,2) by (simp add: nacl_ok_def local_ok_def)
  obtain nonce where "cryptoRandRead e 24 n = (Inr nonce, n')" "length nonce = 24"
    "ed = \<lparr>ed_Version = EncryptionSecretbox, ed_EncryptedData = cr_boxSeal e (b32_data half) nonce (cl_cryptPublic c) (b32_data ePriv), ed_Nonce = nonce\<rparr>"
    using assms(4) len
    by (auto simp: EncryptTLFCryptKeyClientHalf_def bindA_def getPublicKey_def dest: cryptoRandRead_Inr split: sum.splits prod.splits)
  then show ?thesis using assms(1-3)
    by (simp add: DecryptTLFCryptKeyClientHalf_def prepareTLFCryptKeyClientHalf_def nacl_ok_def local_ok_def)
qed

lemma Sign_verifies:
  assumes "nacl_ok e pub" and "local_ok pub c"
  shows "crypto_Verify e msg (local_Sign e c msg) = None"
proof -
  have "length (cl_signingPublic c) = 32" using assms by (simp add: nacl_ok_def local_ok_def)
  then have "KIDToNaclSigningKeyPublic (ToBytes (kc_kid (GetVerifyingKey c))) = Some (cl_signingPublic c)"
    unfolding GetVerifyingKey_def kidContainer.simps ToBytes_KID by (rule KIDToNacl)
  then show ?thesis using assms by (simp add: crypto_Verify_def local_Sign_def nacl_ok_def local_ok_def)
qed

lemma serverHalfID_verifies:
  "GetTLFCryptKeyServerHalfID user kid half = Inr i \<longleftrightarrow> VerifyTLFCryptKeyServerHalfID i user kid half = None"
  by (cases i) (auto simp: GetTLFCryptKeyServerHalfID_def VerifyTLFCryptKeyServerHalfID_def HMAC_Verify_None_iff DefaultHMAC_eq)

lemma unmask_mask: "length (b32_data half) = length (b32_data key) \<Longrightarrow> UnmaskTLFCryptKey half (MaskTLFCryptKey half key) = key"
  by (simp add: UnmaskTLFCryptKey_def MaskTLFCryptKey_def)

lemma byte32_roundtrip: "key_ok k \<Longrightarrow> byte32_UnmarshalBinary (b32_data k) = Inr k"
  by (simp add: byte32_UnmarshalBinary_def key_ok_def)

lemma MakeRandomTlfID_public:
  assumes "MakeRandomTlfID e isPublic n = (Inr i, n')"
  shows "TlfID_ok i \<and> TlfID_IsPublic i = isPublic \<and> TlfID_suffix_ok (tlf_bytes i ! (TlfIDByteLen - 1))"
proof -
  obtain bs where "length bs = TlfIDByteLen" "i = TlfID (bs[TlfIDByteLen - 1 := (if isPublic then PubTlfIDSuffix else TlfIDSuffix)])"
    using assms by (auto simp: MakeRandomTlfID_def bindA_def dest: cryptoRandRead_Inr split: prod.splits sum.splits)
  then show ?thesis by (simp add: TlfID_ok_def TlfID_IsPublic_def TlfID_suffix_ok_def id_consts)
qed

end
