(* ===== verification/Kbfs_Key_Bundle.thy ===== *)
theory Kbfs_Key_Bundle
  imports Kbfs_Crypto "HOL-Library.AList"
begin

text \<open>
  key\_bundle.go: the keys of a private folder for each device of each user. A Go map is a list of pairs; a loop over
  it visits them in the order of the list, and the theorems are about every order. The state of the calls is the
  number of reads of the random source together with the bundles they change, which stay changed when a call fails.
\<close>

section \<open>Bundles\<close>

record TLFCryptKeyInfo =
  ki_ClientHalf :: encryptedData
  ki_ServerHalfID :: TLFCryptKeyServerHalfID
  ki_EPubKeyIndex :: int

type_synonym DeviceKeyInfoMap = "(KID \<times> TLFCryptKeyInfo) list"
type_synonym UserDeviceKeyInfoMap = "(UID \<times> DeviceKeyInfoMap) list"
type_synonym serverHalves = "(KID \<times> TLFCryptKeyServerHalf) list"
type_synonym serverKeyMap = "(UID \<times> serverHalves) list"
type_synonym cryptKeys = "(UID \<times> CryptPublicKey list) list"

record TLFWriterKeyBundle =
  wkb_WKeys :: UserDeviceKeyInfoMap
  wkb_TLFPublicKey :: TLFPublicKey
  wkb_TLFEphemeralPublicKeys :: "TLFEphemeralPublicKey list"

record TLFReaderKeyBundle =
  rkb_RKeys :: UserDeviceKeyInfoMap
  rkb_TLFReaderEphemeralPublicKeys :: "TLFEphemeralPublicKey list"

text \<open>Indexing a missing user gives a nil map, which has no devices.\<close>

definition deviceInfo :: "UserDeviceKeyInfoMap \<Rightarrow> UID \<Rightarrow> KID \<Rightarrow> TLFCryptKeyInfo option" where
  "deviceInfo m user kid = (case map_of m user of None \<Rightarrow> None | Some devices \<Rightarrow> map_of devices kid)"

definition wkb_IsWriter :: "TLFWriterKeyBundle \<Rightarrow> UID \<Rightarrow> KID \<Rightarrow> bool" where
  "wkb_IsWriter tkb user deviceKID \<longleftrightarrow> deviceInfo (wkb_WKeys tkb) user deviceKID \<noteq> None"

definition rkb_IsReader :: "TLFReaderKeyBundle \<Rightarrow> UID \<Rightarrow> KID \<Rightarrow> bool" where
  "rkb_IsReader trb user deviceKID \<longleftrightarrow> deviceInfo (rkb_RKeys trb) user deviceKID \<noteq> None"

definition wkg_LatestKeyGeneration :: "TLFWriterKeyBundle list \<Rightarrow> int" where
  "wkg_LatestKeyGeneration tkg = int (length tkg)"

definition rkg_LatestKeyGeneration :: "TLFReaderKeyBundle list \<Rightarrow> int" where
  "rkg_LatestKeyGeneration tkg = int (length tkg)"

definition wkg_IsWriter :: "TLFWriterKeyBundle list \<Rightarrow> UID \<Rightarrow> KID \<Rightarrow> bool" where
  "wkg_IsWriter tkg user deviceKID =
     (let keyGen = wkg_LatestKeyGeneration tkg
      in if keyGen < 1 then False else wkb_IsWriter (tkg ! nat (keyGen - 1)) user deviceKID)"

definition rkg_IsReader :: "TLFReaderKeyBundle list \<Rightarrow> UID \<Rightarrow> KID \<Rightarrow> bool" where
  "rkg_IsReader tkg user deviceKID =
     (let keyGen = rkg_LatestKeyGeneration tkg
      in if keyGen < 1 then False else rkb_IsReader (tkg ! nat (keyGen - 1)) user deviceKID)"

definition GetKIDs :: "DeviceKeyInfoMap \<Rightarrow> KID list" where
  "GetKIDs kim = map fst kim"

section \<open>Filling in devices\<close>

text \<open>The new entry of a device and its server half.\<close>

definition makeKeyInfo ::
  "cryptoEnv \<Rightarrow> UID \<Rightarrow> TLFCryptKey \<Rightarrow> TLFEphemeralPrivateKey \<Rightarrow> int \<Rightarrow> CryptPublicKey \<Rightarrow>
   (TLFCryptKeyInfo \<times> TLFCryptKeyServerHalf) crypto" where
  "makeKeyInfo e uid tlfCryptKey ePrivKey ePubIndex k =
     bindA (MakeRandomTLFCryptKeyServerHalf e) (\<lambda>serverHalf.
     let clientHalf = MaskTLFCryptKey serverHalf tlfCryptKey in
     bindA (EncryptTLFCryptKeyClientHalf e ePrivKey k clientHalf) (\<lambda>encryptedClientHalf.
     bindA (sumA HashError (GetTLFCryptKeyServerHalfID uid (kc_kid k) serverHalf)) (\<lambda>serverHalfID.
       retA (\<lparr>ki_ClientHalf = encryptedClientHalf, ki_ServerHalfID = serverHalfID, ki_EPubKeyIndex = ePubIndex\<rparr>, serverHalf))))"

definition fillInDevice ::
  "cryptoEnv \<Rightarrow> UID \<Rightarrow> TLFCryptKey \<Rightarrow> TLFEphemeralPrivateKey \<Rightarrow> int \<Rightarrow> serverHalves \<Rightarrow> CryptPublicKey \<Rightarrow>
   (nat \<times> DeviceKeyInfoMap, crypto_error, serverHalves) act" where
  "fillInDevice e uid tlfCryptKey ePrivKey ePubIndex serverMap k = (\<lambda>(n, kim).
     if map_of kim (kc_kid k) \<noteq> None then (Inr serverMap, (n, kim))
     else case makeKeyInfo e uid tlfCryptKey ePrivKey ePubIndex k n of
            (Inl f, n') \<Rightarrow> (Inl f, (n', kim))
          | (Inr (info, serverHalf), n') \<Rightarrow>
              (Inr (AList.update (kc_kid k) serverHalf serverMap), (n', AList.update (kc_kid k) info kim)))"

definition fillInDeviceInfo ::
  "cryptoEnv \<Rightarrow> UID \<Rightarrow> TLFCryptKey \<Rightarrow> TLFEphemeralPrivateKey \<Rightarrow> int \<Rightarrow> CryptPublicKey list \<Rightarrow>
   (nat \<times> DeviceKeyInfoMap, crypto_error, serverHalves) act" where
  "fillInDeviceInfo e uid tlfCryptKey ePrivKey ePubIndex publicKeys =
     foldA (fillInDevice e uid tlfCryptKey ePrivKey ePubIndex) [] publicKeys"

definition fillInUser ::
  "cryptoEnv \<Rightarrow> int \<Rightarrow> TLFEphemeralPrivateKey \<Rightarrow> TLFCryptKey \<Rightarrow> serverKeyMap \<Rightarrow> UID \<times> CryptPublicKey list \<Rightarrow>
   (nat \<times> UserDeviceKeyInfoMap, crypto_error, serverKeyMap) act" where
  "fillInUser e newIndex ePrivKey tlfCryptKey newServerKeys = (\<lambda>(u, keys) (n, keyInfoMap).
     let devices = (case map_of keyInfoMap u of None \<Rightarrow> [] | Some ds \<Rightarrow> ds)
     in case fillInDeviceInfo e u tlfCryptKey ePrivKey newIndex keys (n, devices) of
          (Inl f, (n', devices')) \<Rightarrow> (Inl f, (n', AList.update u devices' keyInfoMap))
        | (Inr serverMap, (n', devices')) \<Rightarrow>
            (Inr (if length serverMap > 0 then AList.update u serverMap newServerKeys else newServerKeys),
             (n', AList.update u devices' keyInfoMap)))"

definition fillInDevicesAndServerMap ::
  "cryptoEnv \<Rightarrow> int \<Rightarrow> cryptKeys \<Rightarrow> TLFEphemeralPrivateKey \<Rightarrow> TLFCryptKey \<Rightarrow> serverKeyMap \<Rightarrow>
   (nat \<times> UserDeviceKeyInfoMap, crypto_error, serverKeyMap) act" where
  "fillInDevicesAndServerMap e newIndex cryptKeys ePrivKey tlfCryptKey newServerKeys =
     foldA (fillInUser e newIndex ePrivKey tlfCryptKey) newServerKeys cryptKeys"

record bundleState =
  bs_reads :: nat
  bs_wkb :: TLFWriterKeyBundle
  bs_rkb :: TLFReaderKeyBundle

text \<open>The calls on the map of writers and on the map of readers.\<close>

definition onWKeys :: "(nat \<times> UserDeviceKeyInfoMap, crypto_error, 'a) act \<Rightarrow> (bundleState, crypto_error, 'a) act" where
  "onWKeys m s =
     (case m (bs_reads s, wkb_WKeys (bs_wkb s)) of
        (r, (n, keys)) \<Rightarrow> (r, s\<lparr>bs_reads := n, bs_wkb := (bs_wkb s)\<lparr>wkb_WKeys := keys\<rparr>\<rparr>))"

definition onRKeys :: "(nat \<times> UserDeviceKeyInfoMap, crypto_error, 'a) act \<Rightarrow> (bundleState, crypto_error, 'a) act" where
  "onRKeys m s =
     (case m (bs_reads s, rkb_RKeys (bs_rkb s)) of
        (r, (n, keys)) \<Rightarrow> (r, s\<lparr>bs_reads := n, bs_rkb := (bs_rkb s)\<lparr>rkb_RKeys := keys\<rparr>\<rparr>))"

definition addEphemeralKey :: "cryptKeys \<Rightarrow> TLFEphemeralPublicKey \<Rightarrow> (bundleState, crypto_error, int) act" where
  "addEphemeralKey wKeys ePubKey s =
     (if length wKeys = 0
      then let rkb = (bs_rkb s)\<lparr>rkb_TLFReaderEphemeralPublicKeys := rkb_TLFReaderEphemeralPublicKeys (bs_rkb s) @ [ePubKey]\<rparr>
           in (Inr (- int (length (rkb_TLFReaderEphemeralPublicKeys rkb))), s\<lparr>bs_rkb := rkb\<rparr>)
      else let wkb = (bs_wkb s)\<lparr>wkb_TLFEphemeralPublicKeys := wkb_TLFEphemeralPublicKeys (bs_wkb s) @ [ePubKey]\<rparr>
           in (Inr (int (length (wkb_TLFEphemeralPublicKeys wkb)) - 1), s\<lparr>bs_wkb := wkb\<rparr>))"

definition fillInDevices ::
  "cryptoEnv \<Rightarrow> cryptKeys \<Rightarrow> cryptKeys \<Rightarrow> TLFEphemeralPublicKey \<Rightarrow> TLFEphemeralPrivateKey \<Rightarrow> TLFCryptKey \<Rightarrow>
   (bundleState, crypto_error, serverKeyMap) act" where
  "fillInDevices e wKeys rKeys ePubKey ePrivKey tlfCryptKey =
     bindA (addEphemeralKey wKeys ePubKey) (\<lambda>newIndex.
     bindA (onWKeys (fillInDevicesAndServerMap e newIndex wKeys ePrivKey tlfCryptKey [])) (\<lambda>newServerKeys.
       onRKeys (fillInDevicesAndServerMap e newIndex rKeys ePrivKey tlfCryptKey newServerKeys)))"

section \<open>What one call adds\<close>

text \<open>\<open>kim'\<close> has the entries of \<open>kim\<close> and new ones, and the server halves of exactly the new ones are in \<open>sm\<close>.\<close>

definition made ::
  "cryptoEnv \<Rightarrow> UID \<Rightarrow> TLFCryptKey \<Rightarrow> TLFEphemeralPrivateKey \<Rightarrow> int \<Rightarrow> KID \<Rightarrow> TLFCryptKeyInfo \<Rightarrow> TLFCryptKeyServerHalf \<Rightarrow> bool" where
  "made e u key ePriv idx kid info half \<longleftrightarrow> (\<exists>n n'. makeKeyInfo e u key ePriv idx \<lparr>kc_kid = kid\<rparr> n = (Inr (info, half), n'))"

definition filledAt ::
  "(TLFCryptKeyInfo \<Rightarrow> TLFCryptKeyServerHalf \<Rightarrow> bool) \<Rightarrow> TLFCryptKeyInfo option \<Rightarrow> TLFCryptKeyInfo option \<Rightarrow>
   TLFCryptKeyServerHalf option \<Rightarrow> bool" where
  "filledAt new old now half \<longleftrightarrow>
     now = old \<and> half = None \<or> old = None \<and> (\<exists>info h. now = Some info \<and> half = Some h \<and> new info h)"

definition filled ::
  "(KID \<Rightarrow> TLFCryptKeyInfo \<Rightarrow> TLFCryptKeyServerHalf \<Rightarrow> bool) \<Rightarrow> DeviceKeyInfoMap \<Rightarrow> DeviceKeyInfoMap \<Rightarrow> serverHalves \<Rightarrow> bool" where
  "filled new kim kim' sm \<longleftrightarrow> (\<forall>kid. filledAt (new kid) (map_of kim kid) (map_of kim' kid) (map_of sm kid))"

lemma fillInDevice_filled:
  assumes f: "filled (made e u key ePriv idx) kim0 kim sm"
    and run: "fillInDevice e u key ePriv idx sm k (n, kim) = (Inr sm', (n', kim'))"
  shows "filled (made e u key ePriv idx) kim0 kim' sm'" and "map_of kim' (kc_kid k) \<noteq> None"
    and "map_of kim kid \<noteq> None \<Longrightarrow> map_of kim' kid \<noteq> None"
proof -
  have "filled (made e u key ePriv idx) kim0 kim' sm' \<and> map_of kim' (kc_kid k) \<noteq> None \<and>
    (\<forall>kid. map_of kim kid \<noteq> None \<longrightarrow> map_of kim' kid \<noteq> None)"
  proof (cases "map_of kim (kc_kid k)")
    case (Some info)
    then show ?thesis using f run by (auto simp: fillInDevice_def)
  next
    case None
    then obtain info half where m: "makeKeyInfo e u key ePriv idx k n = (Inr (info, half), n')"
      "sm' = AList.update (kc_kid k) half sm" "kim' = AList.update (kc_kid k) info kim"
      using run by (auto simp: fillInDevice_def split: sum.splits prod.splits)
    have "made e u key ePriv idx (kc_kid k) info half" unfolding made_def using m(1) by (metis kidContainer.surjective old.unit.exhaust)
    moreover have "map_of kim0 (kc_kid k) = None" using f None by (auto simp: filled_def filledAt_def dest!: spec[of _ "kc_kid k"])
    ultimately show ?thesis using f by (auto simp: filled_def m(2,3) update_conv) (auto simp: filledAt_def)
  qed
  then show "filled (made e u key ePriv idx) kim0 kim' sm'" and "map_of kim' (kc_kid k) \<noteq> None"
    and "map_of kim kid \<noteq> None \<Longrightarrow> map_of kim' kid \<noteq> None" by blast+
qed

lemma foldA_fillInDevice:
  assumes "foldA (fillInDevice e u key ePriv idx) sm ks (n, kim) = (Inr sm', (n', kim'))"
    and "filled (made e u key ePriv idx) kim0 kim sm"
  shows "filled (made e u key ePriv idx) kim0 kim' sm' \<and> (\<forall>kid. map_of kim kid \<noteq> None \<longrightarrow> map_of kim' kid \<noteq> None) \<and>
    (\<forall>k \<in> set ks. map_of kim' (kc_kid k) \<noteq> None)"
  using assms
proof (induction ks arbitrary: sm n kim)
  case Nil
  then show ?case by simp
next
  case (Cons k ks)
  obtain r n1 kim1 where k: "fillInDevice e u key ePriv idx sm k (n, kim) = (r, (n1, kim1))" by (metis surj_pair)
  then obtain sm1 where r: "r = Inr sm1" using Cons.prems(1) by (cases r) (auto simp: bindA_def)
  note k = k[unfolded r]
  have "foldA (fillInDevice e u key ePriv idx) sm1 ks (n1, kim1) = (Inr sm', (n', kim'))" using Cons.prems(1) k by simp
  from Cons.IH[OF this fillInDevice_filled(1)[OF Cons.prems(2) k]] fillInDevice_filled(2,3)[OF Cons.prems(2) k]
  show ?case by auto
qed

lemma fillInDeviceInfo_filled:
  assumes "fillInDeviceInfo e u key ePriv idx ks (n, kim) = (Inr sm, (n', kim'))"
  shows "filled (made e u key ePriv idx) kim kim' sm" and "k \<in> set ks \<Longrightarrow> map_of kim' (kc_kid k) \<noteq> None"
proof -
  have "filled (made e u key ePriv idx) kim kim []" by (simp add: filled_def filledAt_def)
  from foldA_fillInDevice[OF assms[unfolded fillInDeviceInfo_def] this]
  show "filled (made e u key ePriv idx) kim kim' sm" and "k \<in> set ks \<Longrightarrow> map_of kim' (kc_kid k) \<noteq> None" by blast+
qed

section \<open>What filling in the devices of all users adds\<close>

definition halfOf :: "serverKeyMap \<Rightarrow> UID \<Rightarrow> KID \<Rightarrow> TLFCryptKeyServerHalf option" where
  "halfOf sk u kid = (case map_of sk u of None \<Rightarrow> None | Some halves \<Rightarrow> map_of halves kid)"

definition filledUsers ::
  "(UID \<Rightarrow> KID \<Rightarrow> TLFCryptKeyInfo \<Rightarrow> TLFCryptKeyServerHalf \<Rightarrow> bool) \<Rightarrow> UID set \<Rightarrow> UserDeviceKeyInfoMap \<Rightarrow> UserDeviceKeyInfoMap \<Rightarrow>
   serverKeyMap \<Rightarrow> serverKeyMap \<Rightarrow> bool" where
  "filledUsers new us m m' sk sk' \<longleftrightarrow>
     (\<forall>u \<in> us. map_of m' u \<noteq> None \<and>
        (\<forall>kid. filledAt (new u kid) (deviceInfo m u kid) (deviceInfo m' u kid) (halfOf sk' u kid))) \<and>
     (\<forall>u. u \<notin> us \<longrightarrow> map_of m' u = map_of m u \<and> map_of sk' u = map_of sk u)"

lemma filledUsersD:
  "filledUsers new us m m' sk sk' \<Longrightarrow> u \<in> us \<Longrightarrow> filledAt (new u kid) (deviceInfo m u kid) (deviceInfo m' u kid) (halfOf sk' u kid)"
  unfolding filledUsers_def by blast

lemma fillInUser_filled:
  assumes "fillInUser e idx ePriv key sk (u, keys) (n, m) = (Inr sk', (n', m'))" and "map_of sk u = None"
  shows "filledUsers (\<lambda>u. made e u key ePriv idx) {u} m m' sk sk'" and "k \<in> set keys \<Longrightarrow> deviceInfo m' u (kc_kid k) \<noteq> None"
proof -
  let ?ds = "case map_of m u of None \<Rightarrow> [] | Some ds \<Rightarrow> ds"
  from assms(1) obtain sm ds' where f: "fillInDeviceInfo e u key ePriv idx keys (n, ?ds) = (Inr sm, (n', ds'))"
    "sk' = (if length sm > 0 then AList.update u sm sk else sk)" "m' = AList.update u ds' m"
    by (auto simp: fillInUser_def Let_def split: sum.splits prod.splits)
  have d: "map_of ?ds kid = deviceInfo m u kid" "map_of ds' kid = deviceInfo m' u kid" "map_of sm kid = halfOf sk' u kid" for kid
    using assms(2) f(2,3) by (auto simp: deviceInfo_def halfOf_def update_conv split: option.splits)
  show "filledUsers (\<lambda>u. made e u key ePriv idx) {u} m m' sk sk'"
    using fillInDeviceInfo_filled(1)[OF f(1)] f(2,3) by (auto simp: filledUsers_def filled_def d update_conv)
  show "k \<in> set keys \<Longrightarrow> deviceInfo m' u (kc_kid k) \<noteq> None" using fillInDeviceInfo_filled(2)[OF f(1)] by (simp add: d)
qed

lemma filledUsers_trans:
  assumes "filledUsers new {u} m m1 sk sk1" and "filledUsers new us m1 m2 sk1 sk2" and "u \<notin> us"
  shows "filledUsers new (insert u us) m m2 sk sk2"
  unfolding filledUsers_def
proof (intro conjI ballI allI impI)
  fix v assume "v \<in> insert u us"
  then show "map_of m2 v \<noteq> None" using assms by (auto simp: filledUsers_def)
next
  fix v kid assume "v \<in> insert u us"
  then consider "v = u" | "v \<in> us" "v \<noteq> u" by blast
  then show "filledAt (new v kid) (deviceInfo m v kid) (deviceInfo m2 v kid) (halfOf sk2 v kid)"
  proof cases
    case 1
    then have "deviceInfo m2 v kid = deviceInfo m1 v kid" "halfOf sk2 v kid = halfOf sk1 v kid"
      using assms(2,3) by (simp_all add: filledUsers_def deviceInfo_def halfOf_def)
    then show ?thesis using assms(1) 1 by (simp add: filledUsers_def)
  next
    case 2
    then have "deviceInfo m v kid = deviceInfo m1 v kid" using assms(1) by (simp add: filledUsers_def deviceInfo_def)
    then show ?thesis using assms(2) 2 by (simp add: filledUsers_def)
  qed
qed (use assms in \<open>auto simp: filledUsers_def\<close>)

lemma fillAll_filled:
  assumes "fillInDevicesAndServerMap e idx ck ePriv key sk (n, m) = (Inr sk', (n', m'))"
    and "distinct (map fst ck)" and "\<forall>u \<in> fst ` set ck. map_of sk u = None"
  shows "filledUsers (\<lambda>u. made e u key ePriv idx) (fst ` set ck) m m' sk sk' \<and>
    (\<forall>u keys. (u, keys) \<in> set ck \<longrightarrow> (\<forall>k \<in> set keys. deviceInfo m' u (kc_kid k) \<noteq> None))"
  using assms unfolding fillInDevicesAndServerMap_def
proof (induction ck arbitrary: sk n m)
  case Nil
  then show ?case by (simp add: filledUsers_def)
next
  case (Cons c ck)
  obtain u keys where c: "c = (u, keys)" by (cases c)
  obtain r n1 m1 where r: "fillInUser e idx ePriv key sk (u, keys) (n, m) = (r, (n1, m1))" by (metis surj_pair)
  then obtain sk1 where sk1: "r = Inr sk1" using Cons.prems(1) c by (cases r) (auto simp: bindA_def)
  note r = r[unfolded sk1]
  have rest: "foldA (fillInUser e idx ePriv key) sk1 ck (n1, m1) = (Inr sk', (n', m'))" using Cons.prems(1) c r by simp
  have skn: "map_of sk u = None" using Cons.prems(3) c by simp
  have one: "filledUsers (\<lambda>u. made e u key ePriv idx) {u} m m1 sk sk1" by (rule fillInUser_filled(1)[OF r skn])
  have u: "u \<notin> fst ` set ck" using Cons.prems(2) c by simp
  have "\<forall>v \<in> fst ` set ck. map_of sk1 v = None"
    using one Cons.prems(3) u unfolding filledUsers_def by (metis insert_iff list.simps(15) singletonD image_insert)
  from Cons.IH[OF rest _ this] Cons.prems(2)
  have IH: "filledUsers (\<lambda>u. made e u key ePriv idx) (fst ` set ck) m1 m' sk1 sk'"
    "\<forall>u keys. (u, keys) \<in> set ck \<longrightarrow> (\<forall>k \<in> set keys. deviceInfo m' u (kc_kid k) \<noteq> None)" by simp_all
  have "deviceInfo m' u kid = deviceInfo m1 u kid" for kid using IH(1) u by (simp add: filledUsers_def deviceInfo_def)
  then have "\<forall>k \<in> set keys. deviceInfo m' u (kc_kid k) \<noteq> None" using fillInUser_filled(2)[OF r skn] by simp
  then show ?case using filledUsers_trans[OF one IH(1) u] IH(2) c by auto
qed

section \<open>Finding and recovering a key\<close>

text \<open>The entry of a device, and the ephemeral public key with a given index; \<open>None\<close> is an index out of range.\<close>

definition bundleInfo :: "TLFWriterKeyBundle \<Rightarrow> TLFReaderKeyBundle \<Rightarrow> UID \<Rightarrow> KID \<Rightarrow> TLFCryptKeyInfo option" where
  "bundleInfo wkb rkb user kid =
     (case map_of (wkb_WKeys wkb) user of
        Some u \<Rightarrow> map_of u kid
      | None \<Rightarrow> (case map_of (rkb_RKeys rkb) user of Some u \<Rightarrow> map_of u kid | None \<Rightarrow> None))"

definition indexKey :: "'a list \<Rightarrow> int \<Rightarrow> 'a option" where
  "indexKey xs i = (if 0 \<le> i \<and> i < int (length xs) then Some (xs ! nat i) else None)"

definition bundleEphemeral :: "TLFWriterKeyBundle \<Rightarrow> TLFReaderKeyBundle \<Rightarrow> int \<Rightarrow> TLFEphemeralPublicKey option" where
  "bundleEphemeral wkb rkb i =
     (if i < 0 then indexKey (rkb_TLFReaderEphemeralPublicKeys rkb) (- 1 - i) else indexKey (wkb_TLFEphemeralPublicKeys wkb) i)"

text \<open>A device that holds the private key for \<open>kid\<close> gets the key of the folder from its entry and the server half.\<close>

definition recovers ::
  "cryptoEnv \<Rightarrow> (byte list \<Rightarrow> byte list) \<Rightarrow> TLFCryptKey \<Rightarrow> TLFEphemeralPublicKey option \<Rightarrow> TLFCryptKeyServerHalf option \<Rightarrow>
   UID \<Rightarrow> KID \<Rightarrow> TLFCryptKeyInfo \<Rightarrow> bool" where
  "recovers e pub key ePub half u kid info \<longleftrightarrow>
     (\<exists>ep h. ePub = Some ep \<and> half = Some h \<and> VerifyTLFCryptKeyServerHalfID (ki_ServerHalfID info) u kid h = None \<and>
        (\<forall>c. local_ok pub c \<and> getPublicKey c = \<lparr>kc_kid = kid\<rparr> \<longrightarrow>
           (\<exists>ch. DecryptTLFCryptKeyClientHalf e c ep (ki_ClientHalf info) = Inr ch \<and> UnmaskTLFCryptKey h ch = key)))"

definition keysRecoverable ::
  "cryptoEnv \<Rightarrow> (byte list \<Rightarrow> byte list) \<Rightarrow> TLFCryptKey \<Rightarrow> (UID \<Rightarrow> KID \<Rightarrow> TLFCryptKeyServerHalf option) \<Rightarrow>
   TLFWriterKeyBundle \<Rightarrow> TLFReaderKeyBundle \<Rightarrow> bool" where
  "keysRecoverable e pub key halves wkb rkb \<longleftrightarrow>
     (\<forall>u kid info. bundleInfo wkb rkb u kid = Some info \<longrightarrow>
        recovers e pub key (bundleEphemeral wkb rkb (ki_EPubKeyIndex info)) (halves u kid) u kid info)"

lemma made_recovers:
  assumes "nacl_ok e pub" and "key_ok key" and "made e u key ePriv idx kid info half"
  shows "recovers e pub key (Some \<lparr>b32_data = pub (b32_data ePriv)\<rparr>) (Some half) u kid info" and "ki_EPubKeyIndex info = idx"
proof -
  from assms(3) obtain n n' where m: "makeKeyInfo e u key ePriv idx \<lparr>kc_kid = kid\<rparr> n = (Inr (info, half), n')" by (auto simp: made_def)
  then obtain n1 n2 ed i where p:
    "MakeRandomTLFCryptKeyServerHalf e n = (Inr half, n1)"
    "EncryptTLFCryptKeyClientHalf e ePriv \<lparr>kc_kid = kid\<rparr> (MaskTLFCryptKey half key) n1 = (Inr ed, n2)"
    "GetTLFCryptKeyServerHalfID u kid half = Inr i"
    "info = \<lparr>ki_ClientHalf = ed, ki_ServerHalfID = i, ki_EPubKeyIndex = idx\<rparr>"
    unfolding makeKeyInfo_def Let_def by (auto simp: bindA_def sumA_def split: prod.splits sum.splits)
  have len: "length (b32_data half) = 32"
    using p(1) by (auto simp: MakeRandomTLFCryptKeyServerHalf_def bindA_def dest: cryptoRandRead_Inr split: prod.splits sum.splits)
  have "DecryptTLFCryptKeyClientHalf e c \<lparr>b32_data = pub (b32_data ePriv)\<rparr> ed = Inr (MaskTLFCryptKey half key)"
    if "local_ok pub c" "getPublicKey c = \<lparr>kc_kid = kid\<rparr>" for c
    using clientHalf_roundtrip[OF assms(1) that(1) _ p(2)[folded that(2)]] len assms(2) by (simp add: MaskTLFCryptKey_def key_ok_def)
  then show "recovers e pub key (Some \<lparr>b32_data = pub (b32_data ePriv)\<rparr>) (Some half) u kid info"
    using serverHalfID_verifies p(3) unmask_mask[of half key] len assms(2) by (auto simp: recovers_def p(4) key_ok_def)
  show "ki_EPubKeyIndex info = idx" by (simp add: p(4))
qed

lemma indexKey_append: "indexKey xs i = Some k \<Longrightarrow> indexKey (xs @ ys) i = Some k"
  by (auto simp: indexKey_def nth_append split: if_splits)

lemma addEphemeralKey_spec:
  assumes "addEphemeralKey wKeys ePub s = (Inr idx, s')"
  shows "bundleEphemeral (bs_wkb s') (bs_rkb s') idx = Some ePub"
    and "bundleEphemeral (bs_wkb s) (bs_rkb s) i = Some k \<Longrightarrow> bundleEphemeral (bs_wkb s') (bs_rkb s') i = Some k"
    and "wkb_WKeys (bs_wkb s') = wkb_WKeys (bs_wkb s)" and "rkb_RKeys (bs_rkb s') = rkb_RKeys (bs_rkb s)"
  using assms
  by (auto simp: addEphemeralKey_def Let_def bundleEphemeral_def indexKey_append split: if_splits)
    (auto simp: indexKey_def nat_diff_distrib nth_append)

lemma fillInDevices_Inr:
  assumes "fillInDevices e wKeys rKeys ePub ePriv key s = (Inr sk, s')"
  obtains idx s1 sk1 n2 wk n3 rk where
    "addEphemeralKey wKeys ePub s = (Inr idx, s1)"
    "fillInDevicesAndServerMap e idx wKeys ePriv key [] (bs_reads s1, wkb_WKeys (bs_wkb s1)) = (Inr sk1, (n2, wk))"
    "fillInDevicesAndServerMap e idx rKeys ePriv key sk1 (n2, rkb_RKeys (bs_rkb s1)) = (Inr sk, (n3, rk))"
    "s' = s1\<lparr>bs_reads := n3, bs_wkb := (bs_wkb s1)\<lparr>wkb_WKeys := wk\<rparr>, bs_rkb := (bs_rkb s1)\<lparr>rkb_RKeys := rk\<rparr>\<rparr>"
  using assms unfolding fillInDevices_def onWKeys_def onRKeys_def
  by (auto simp: bindA_def split: prod.splits sum.splits)

text \<open>The two maps of keys are for different users, and no reader has an entry as a writer.\<close>

definition rekey_ok :: "TLFWriterKeyBundle \<Rightarrow> cryptKeys \<Rightarrow> cryptKeys \<Rightarrow> bool" where
  "rekey_ok wkb wKeys rKeys \<longleftrightarrow>
     distinct (map fst (wKeys @ rKeys)) \<and> (\<forall>u \<in> fst ` set rKeys. map_of (wkb_WKeys wkb) u = None)"

definition withNewHalves :: "serverKeyMap \<Rightarrow> (UID \<Rightarrow> KID \<Rightarrow> TLFCryptKeyServerHalf option) \<Rightarrow> UID \<Rightarrow> KID \<Rightarrow> TLFCryptKeyServerHalf option" where
  "withNewHalves sk halves u kid = (case halfOf sk u kid of None \<Rightarrow> halves u kid | Some h \<Rightarrow> Some h)"

text \<open>Each entry is an old one with its old half or a new one with its new half, and the devices given have entries.\<close>

lemma fillInDevices_filled:
  assumes ok: "rekey_ok (bs_wkb s) wKeys rKeys" and run: "fillInDevices e wKeys rKeys ePub ePriv key s = (Inr sk, s')"
  obtains idx where "bundleEphemeral (bs_wkb s') (bs_rkb s') idx = Some ePub"
    and "\<forall>i k. bundleEphemeral (bs_wkb s) (bs_rkb s) i = Some k \<longrightarrow> bundleEphemeral (bs_wkb s') (bs_rkb s') i = Some k"
    and "\<forall>u kid info. bundleInfo (bs_wkb s') (bs_rkb s') u kid = Some info \<longrightarrow>
       bundleInfo (bs_wkb s) (bs_rkb s) u kid = Some info \<and> halfOf sk u kid = None \<or>
       (\<exists>h. halfOf sk u kid = Some h \<and> made e u key ePriv idx kid info h)"
    and "\<forall>u keys k. (u, keys) \<in> set (wKeys @ rKeys) \<longrightarrow> k \<in> set keys \<longrightarrow> bundleInfo (bs_wkb s') (bs_rkb s') u (kc_kid k) \<noteq> None"
proof -
  from fillInDevices_Inr[OF run] obtain idx s1 sk1 n2 wk n3 rk where r:
    "addEphemeralKey wKeys ePub s = (Inr idx, s1)"
    "fillInDevicesAndServerMap e idx wKeys ePriv key [] (bs_reads s1, wkb_WKeys (bs_wkb s1)) = (Inr sk1, (n2, wk))"
    "fillInDevicesAndServerMap e idx rKeys ePriv key sk1 (n2, rkb_RKeys (bs_rkb s1)) = (Inr sk, (n3, rk))"
    "s' = s1\<lparr>bs_reads := n3, bs_wkb := (bs_wkb s1)\<lparr>wkb_WKeys := wk\<rparr>, bs_rkb := (bs_rkb s1)\<lparr>rkb_RKeys := rk\<rparr>\<rparr>" .
  note eph = addEphemeralKey_spec[OF r(1)]
  let ?new = "\<lambda>u. made e u key ePriv idx" and ?ws = "fst ` set wKeys" and ?rs = "fst ` set rKeys"
  have dis: "distinct (map fst wKeys)" "distinct (map fst rKeys)" "?ws \<inter> ?rs = {}" using ok by (auto simp: rekey_ok_def)
  have "\<forall>u \<in> ?ws. map_of [] u = None" by simp
  note wall = fillAll_filled[OF r(2) dis(1) this, unfolded eph(3)]
  note W = wall[THEN conjunct1] and Wd = wall[THEN conjunct2, rule_format]
  have "map_of sk1 u = None" if "u \<in> ?rs" for u
  proof -
    have "u \<notin> ?ws" using that dis(3) by blast
    then show ?thesis using W by (simp add: filledUsers_def)
  qed
  then have none: "\<forall>u \<in> ?rs. map_of sk1 u = None" by (intro ballI)
  note rall = fillAll_filled[OF r(3) dis(2) none, unfolded eph(4)]
  note R = rall[THEN conjunct1] and Rd = rall[THEN conjunct2, rule_format]
  have b': "wkb_WKeys (bs_wkb s') = wk" "rkb_RKeys (bs_rkb s') = rk" by (simp_all add: r(4))
  have e': "bundleEphemeral (bs_wkb s') (bs_rkb s') i = bundleEphemeral (bs_wkb s1) (bs_rkb s1) i" for i
    by (simp add: r(4) bundleEphemeral_def)
  have lookup: "bundleInfo (bs_wkb s') (bs_rkb s') u kid =
      (if u \<in> ?ws then deviceInfo wk u kid else if u \<in> ?rs then deviceInfo rk u kid else bundleInfo (bs_wkb s) (bs_rkb s) u kid)" for u kid
    using W R ok by (auto simp: bundleInfo_def b' deviceInfo_def filledUsers_def rekey_ok_def split: option.splits)
  have old: "u \<in> ?ws \<Longrightarrow> deviceInfo (wkb_WKeys (bs_wkb s)) u kid = Some info \<Longrightarrow> bundleInfo (bs_wkb s) (bs_rkb s) u kid = Some info"
    "u \<in> ?rs \<Longrightarrow> deviceInfo (rkb_RKeys (bs_rkb s)) u kid = Some info \<Longrightarrow> bundleInfo (bs_wkb s) (bs_rkb s) u kid = Some info" for u kid info
    using ok by (auto simp: bundleInfo_def deviceInfo_def rekey_ok_def split: option.splits)
  have half: "halfOf sk u kid = (if u \<in> ?rs then halfOf sk u kid else halfOf sk1 u kid)"
    "u \<notin> ?ws \<Longrightarrow> halfOf sk1 u kid = None" for u kid using W R by (auto simp: filledUsers_def halfOf_def)
  show thesis
  proof (rule that[of idx]; (intro allI impI)?)
    show "bundleEphemeral (bs_wkb s') (bs_rkb s') idx = Some ePub" by (simp add: e' eph(1))
    show "bundleEphemeral (bs_wkb s') (bs_rkb s') i = Some k" if "bundleEphemeral (bs_wkb s) (bs_rkb s) i = Some k" for i k
      using eph(2)[OF that] by (simp add: e')
    show "bundleInfo (bs_wkb s') (bs_rkb s') u (kc_kid k) \<noteq> None" if "(u, keys) \<in> set (wKeys @ rKeys)" "k \<in> set keys" for u keys k
    proof (cases "(u, keys) \<in> set wKeys")
      case True
      then have "u \<in> ?ws" by force
      then show ?thesis using Wd[OF True that(2)] by (simp add: lookup)
    next
      case False
      then have r: "(u, keys) \<in> set rKeys" using that(1) by simp
      then have "u \<in> ?rs" by force
      moreover have "u \<notin> ?ws" using \<open>u \<in> ?rs\<close> dis(3) by blast
      ultimately show ?thesis using Rd[OF r that(2)] by (simp add: lookup)
    qed
    fix u kid info assume i: "bundleInfo (bs_wkb s') (bs_rkb s') u kid = Some info"
    consider "u \<in> ?ws" "u \<notin> ?rs" | "u \<in> ?rs" "u \<notin> ?ws" | "u \<notin> ?ws" "u \<notin> ?rs" using disjoint_iff[THEN iffD1, OF dis(3)] by metis
    then show "bundleInfo (bs_wkb s) (bs_rkb s) u kid = Some info \<and> halfOf sk u kid = None \<or>
       (\<exists>h. halfOf sk u kid = Some h \<and> made e u key ePriv idx kid info h)"
    proof cases
      case 1
      then have "filledAt (?new u kid) (deviceInfo (wkb_WKeys (bs_wkb s)) u kid) (Some info) (halfOf sk u kid)"
        using filledUsersD[OF W 1(1), of kid] i lookup[of u kid] half(1)[of u kid] by simp
      then show ?thesis using old(1)[OF 1(1)] unfolding filledAt_def by (metis option.inject)
    next
      case 2
      then have "filledAt (?new u kid) (deviceInfo (rkb_RKeys (bs_rkb s)) u kid) (Some info) (halfOf sk u kid)"
        using filledUsersD[OF R 2(1), of kid] i lookup[of u kid] by simp
      then show ?thesis using old(2)[OF 2(1)] unfolding filledAt_def by (metis option.inject)
    next
      case 3
      then show ?thesis using i lookup half by metis
    qed
  qed
qed

section \<open>That it succeeds\<close>

lemma foldA_total: "(\<And>x b s. b \<in> set bs \<Longrightarrow> \<exists>x' s'. f x b s = (Inr x', s')) \<Longrightarrow> \<exists>x' s'. foldA f x bs s = (Inr x', s')"
proof (induction bs arbitrary: x s)
  case (Cons b bs)
  from Cons.prems[of b x s] obtain x1 s1 where "f x b s = (Inr x1, s1)" by auto
  then show ?case using Cons.IH[of x1 s1] Cons.prems by simp
qed simp

text \<open>A device key that is one for encryption.\<close>

definition dhKey :: "CryptPublicKey \<Rightarrow> bool" where
  "dhKey k \<longleftrightarrow> (\<exists>raw. ImportKeypairFromKID (kc_kid k) = Inr (NaclDHKeyPair raw))"

lemma makeKeyInfo_total:
  assumes "rand_ok e" and "dhKey k"
  shows "\<exists>info half n'. makeKeyInfo e u key ePriv idx k n = (Inr (info, half), n')"
proof -
  obtain raw where raw: "ImportKeypairFromKID (kc_kid k) = Inr (NaclDHKeyPair raw)" using assms(2) by (auto simp: dhKey_def)
  obtain bs where bs: "cryptoRandRead e 32 n = (Inr bs, Suc n)" using rand_reads(1)[OF assms(1)] by blast
  obtain nonce where nonce: "cryptoRandRead e 24 (Suc n) = (Inr nonce, Suc (Suc n))" using rand_reads(1)[OF assms(1)] by blast
  show ?thesis
    by (simp add: makeKeyInfo_def MakeRandomTLFCryptKeyServerHalf_def EncryptTLFCryptKeyClientHalf_def bs nonce raw Let_def bindA_assoc
        GetTLFCryptKeyServerHalfID_def DefaultHMAC_eq)
qed

lemma fillAll_total:
  assumes "rand_ok e" and "\<forall>(u, keys) \<in> set ck. \<forall>k \<in> set keys. dhKey k"
  shows "\<exists>sk' s'. fillInDevicesAndServerMap e idx ck ePriv key sk s = (Inr sk', s')"
  unfolding fillInDevicesAndServerMap_def
proof (rule foldA_total)
  fix sk c and s :: "nat \<times> UserDeviceKeyInfoMap" assume "c \<in> set ck"
  then have keys: "\<forall>k \<in> set (snd c). dhKey k" using assms(2) by (cases c) auto
  obtain u ks where c: "c = (u, ks)" by (cases c)
  obtain n m where s: "s = (n, m)" by (cases s)
  have "\<exists>sm s'. fillInDeviceInfo e u key ePriv idx ks t = (Inr sm, s')" for t
    unfolding fillInDeviceInfo_def
  proof (rule foldA_total)
    fix sm k t assume "k \<in> set ks"
    then show "\<exists>sm' t'. fillInDevice e u key ePriv idx sm k t = (Inr sm', t')"
      using makeKeyInfo_total[OF assms(1), of k u key ePriv idx "fst t"] keys c by (cases t) (auto simp: fillInDevice_def)
  qed
  from this[of "(n, case map_of m u of None \<Rightarrow> [] | Some ds \<Rightarrow> ds)"]
  show "\<exists>x' s'. fillInUser e idx ePriv key sk c s = (Inr x', s')" by (auto simp: fillInUser_def c s Let_def)
qed

lemma fillInDevices_total:
  assumes "rand_ok e" and "\<forall>(u, keys) \<in> set (wKeys @ rKeys). \<forall>k \<in> set keys. dhKey k"
  shows "\<exists>sk s'. fillInDevices e wKeys rKeys ePub ePriv key s = (Inr sk, s')"
proof -
  obtain idx s1 where "addEphemeralKey wKeys ePub s = (Inr idx, s1)"
    unfolding addEphemeralKey_def Let_def by (cases "length wKeys = 0") simp_all
  moreover obtain sk1 n2 wk where
    "fillInDevicesAndServerMap e idx wKeys ePriv key [] (bs_reads s1, wkb_WKeys (bs_wkb s1)) = (Inr sk1, (n2, wk))"
    using fillAll_total[OF assms(1), of wKeys idx ePriv key "[]" "(bs_reads s1, wkb_WKeys (bs_wkb s1))"] assms(2) by auto
  moreover obtain sk n3 rk where "fillInDevicesAndServerMap e idx rKeys ePriv key sk1 (n2, rkb_RKeys (bs_rkb s1)) = (Inr sk, (n3, rk))"
    using fillAll_total[OF assms(1), of rKeys idx ePriv key sk1 "(n2, rkb_RKeys (bs_rkb s1))"] assms(2) by auto
  ultimately show ?thesis by (simp add: fillInDevices_def onWKeys_def onRKeys_def bindA_def)
qed

section \<open>Every device gets the key\<close>

lemma fillInDevices_recoverable:
  assumes "nacl_ok e pub" and "key_ok key" and "ePub = \<lparr>b32_data = pub (b32_data ePriv)\<rparr>"
    and "rekey_ok (bs_wkb s) wKeys rKeys" and "keysRecoverable e pub key halves (bs_wkb s) (bs_rkb s)"
    and "fillInDevices e wKeys rKeys ePub ePriv key s = (Inr sk, s')"
  shows "keysRecoverable e pub key (withNewHalves sk halves) (bs_wkb s') (bs_rkb s')"
    and "(u, keys) \<in> set (wKeys @ rKeys) \<Longrightarrow> k \<in> set keys \<Longrightarrow> bundleInfo (bs_wkb s') (bs_rkb s') u (kc_kid k) \<noteq> None"
proof -
  obtain idx where f: "bundleEphemeral (bs_wkb s') (bs_rkb s') idx = Some ePub"
    "\<forall>i k. bundleEphemeral (bs_wkb s) (bs_rkb s) i = Some k \<longrightarrow> bundleEphemeral (bs_wkb s') (bs_rkb s') i = Some k"
    "\<forall>u kid info. bundleInfo (bs_wkb s') (bs_rkb s') u kid = Some info \<longrightarrow>
       bundleInfo (bs_wkb s) (bs_rkb s) u kid = Some info \<and> halfOf sk u kid = None \<or>
       (\<exists>h. halfOf sk u kid = Some h \<and> made e u key ePriv idx kid info h)"
    "\<forall>u keys k. (u, keys) \<in> set (wKeys @ rKeys) \<longrightarrow> k \<in> set keys \<longrightarrow> bundleInfo (bs_wkb s') (bs_rkb s') u (kc_kid k) \<noteq> None"
    by (rule fillInDevices_filled[OF assms(4,6)])
  note f = f(1) f(2-)[rule_format]
  show "(u, keys) \<in> set (wKeys @ rKeys) \<Longrightarrow> k \<in> set keys \<Longrightarrow> bundleInfo (bs_wkb s') (bs_rkb s') u (kc_kid k) \<noteq> None" by (rule f(4))
  show "keysRecoverable e pub key (withNewHalves sk halves) (bs_wkb s') (bs_rkb s')"
    unfolding keysRecoverable_def
  proof (intro allI impI)
    fix u kid info assume "bundleInfo (bs_wkb s') (bs_rkb s') u kid = Some info"
    from f(3)[OF this] show "recovers e pub key (bundleEphemeral (bs_wkb s') (bs_rkb s') (ki_EPubKeyIndex info)) (withNewHalves sk halves u kid) u kid info"
    proof (elim disjE conjE exE)
      assume o: "bundleInfo (bs_wkb s) (bs_rkb s) u kid = Some info" "halfOf sk u kid = None"
      then have r: "recovers e pub key (bundleEphemeral (bs_wkb s) (bs_rkb s) (ki_EPubKeyIndex info)) (halves u kid) u kid info"
        using assms(5) by (simp add: keysRecoverable_def)
      then obtain ep where "bundleEphemeral (bs_wkb s) (bs_rkb s) (ki_EPubKeyIndex info) = Some ep" by (auto simp: recovers_def)
      then show ?thesis using r f(2) o(2) by (simp add: withNewHalves_def)
    next
      fix h assume "halfOf sk u kid = Some h" "made e u key ePriv idx kid info h"
      then show ?thesis using made_recovers[OF assms(1,2)] f(1) assms(3) by (simp add: withNewHalves_def)
    qed
  qed
qed

end
