(* ===== verification/Kbfs_Root_Metadata.thy ===== *)
theory Kbfs_Root_Metadata
  imports Kbfs_Key_Bundle Kbfs_Ops Kbfs_Tlf_Name
begin

text \<open>
  root\_metadata.go: the metadata of a revision of a folder, with its keys, its successor, its block changes and disk
  usage, and the handle that it stands for. The codec is a parameter: a pair of functions for each type. A
  \<open>RootMetadata\<close> caches its own ID, so the calls that ask for the ID change it.
\<close>

section \<open>The codec\<close>

record 'a codecOf =
  co_encode :: "'a \<Rightarrow> string + byte list"
  co_decode :: "byte list \<Rightarrow> string + 'a"

definition CodecEqual :: "'a codecOf \<Rightarrow> 'a \<Rightarrow> 'a \<Rightarrow> string + bool" where
  "CodecEqual c x y =
     (case co_encode c x of
        Inl er \<Rightarrow> Inl er
      | Inr xBuf \<Rightarrow> (case co_encode c y of Inl er \<Rightarrow> Inl er | Inr yBuf \<Rightarrow> Inr (xBuf = yBuf)))"

text \<open>The new value of the destination, which is zero in each call of the code.\<close>

definition CodecUpdate :: "'a codecOf \<Rightarrow> 'a \<Rightarrow> string + 'a" where
  "CodecUpdate c src = (case co_encode c src of Inl er \<Rightarrow> Inl er | Inr buf \<Rightarrow> co_decode c buf)"

section \<open>Metadata\<close>

record PrivateMetadata =
  pm_Dir :: DirEntry
  pm_TLFPrivateKey :: TLFPrivateKey
  pm_Changes :: BlockChanges
  pm_cachedChanges :: BlockChanges

definition MetadataFlagRekey :: byte where "MetadataFlagRekey = 1"
definition MetadataFlagWriterMetadataCopied :: byte where "MetadataFlagWriterMetadataCopied = 2"
definition MetadataFlagFinal :: byte where "MetadataFlagFinal = 4"
definition MetadataFlagUnmerged :: byte where "MetadataFlagUnmerged = 1"

lemmas flag_defs = MetadataFlagRekey_def MetadataFlagWriterMetadataCopied_def MetadataFlagFinal_def MetadataFlagUnmerged_def

definition MetadataRevisionUninitialized :: int where "MetadataRevisionUninitialized = 0"
definition MetadataRevisionInitial :: int where "MetadataRevisionInitial = 1"
definition PublicKeyGen :: int where "PublicKeyGen = - 1"
definition FirstValidKeyGen :: int where "FirstValidKeyGen = 1"

text \<open>A slice that the code compares with nil is an \<open>option\<close>.\<close>

record WriterMetadata =
  wm_SerializedPrivateMetadata :: "byte list option"
  wm_LastModifyingWriter :: UID
  wm_Writers :: "UID list"
  wm_WKeys :: "TLFWriterKeyBundle list"
  wm_ID :: TlfID
  wm_BID :: BranchID
  wm_WFlags :: byte
  wm_DiskUsage :: uint64
  wm_RefBytes :: uint64
  wm_UnrefBytes :: uint64
  wm_UnresolvedWriters :: "SocialAssertion list"

record RootMetadata =
  rm_WriterMetadata :: WriterMetadata
  rm_WriterMetadataSigInfo :: SignatureInfo
  rm_LastModifyingUser :: UID
  rm_Flags :: byte
  rm_Revision :: int
  rm_PrevRoot :: MdID
  rm_RKeys :: "TLFReaderKeyBundle list"
  rm_UnresolvedReaders :: "SocialAssertion list"
  rm_ConflictInfo :: "ConflictInfo option"
  rm_data :: PrivateMetadata
  rm_tlfHandle :: "TlfHandle option"
  rm_mdID :: MdID

datatype MergeStatus = Merged | Unmerged

datatype md_error =
    MetadataIsFinalError
  | InvalidPublicTLFOperation TlfID string
  | InvalidKeyGenerationError TlfHandle int
  | NewKeyGenerationError TlfHandle int
  | TLFEphemeralPublicKeyNotFoundError UID KID
  | MDMissingDataError TlfID
  | MdCodecError string
  | MdHashError hash_error
  | MdCryptoError crypto_error
  | MdHandleError handle_error
  | MdTlfError tlf_error
  | NoWriterKeyGenerations
  | NoReaderKeyGenerations
  | PublicStatusMismatch
  | BareHandleMismatch
  | NeedSelfRekeyError string
  | NeedOtherRekeyError string
  | NoHandle
  | HandleExists
  | MdIndexOutOfRange
  | PublicRekeyRead

record mdEnv =
  me_md :: "RootMetadata codecOf"
  me_writer :: "WriterMetadata codecOf"
  me_sig :: "SignatureInfo codecOf"
  me_devices :: "DeviceKeyInfoMap option codecOf"
  me_private :: "PrivateMetadata codecOf"
  me_bare :: "BareTlfHandle codecOf"
  me_names :: "(UID \<times> string) list codecOf"
  me_bpSize :: uint64
  me_crypto :: cryptoEnv
  me_tlf :: tlfEnv

definition liftE :: "('x \<Rightarrow> 'e) \<Rightarrow> 'x + 'a \<Rightarrow> ('e, 'a) result" where
  "liftE f r = (case r of Inl x \<Rightarrow> Inl (Error (f x)) | Inr a \<Rightarrow> Inr a)"

lemma liftE_simps [simp]: "liftE f (Inr a) = Inr a" "liftE f (Inl x) = Inl (Error (f x))"
  by (simp_all add: liftE_def)

abbreviation rm_ID :: "RootMetadata \<Rightarrow> TlfID" where
  "rm_ID md \<equiv> wm_ID (rm_WriterMetadata md)"

abbreviation updWriter :: "(WriterMetadata \<Rightarrow> WriterMetadata) \<Rightarrow> RootMetadata \<Rightarrow> RootMetadata" where
  "updWriter f md \<equiv> md\<lparr>rm_WriterMetadata := f (rm_WriterMetadata md)\<rparr>"

section \<open>Comparing with the previous revision\<close>

primrec sameOtherKeys ::
  "mdEnv \<Rightarrow> UserDeviceKeyInfoMap \<Rightarrow> UID \<Rightarrow> UserDeviceKeyInfoMap \<Rightarrow> (md_error, bool) result" where
  "sameOtherKeys e prev user [] = Inr True"
| "sameOtherKeys e prev user (uk # rest) =
     (if fst uk \<noteq> user
      then bindR (liftE MdCodecError (CodecEqual (me_devices e) (Some (snd uk)) (map_of prev (fst uk)))) (\<lambda>keysEqual.
             if \<not> keysEqual then Inr False else sameOtherKeys e prev user rest)
      else sameOtherKeys e prev user rest)"

fun sameGenerations ::
  "mdEnv \<Rightarrow> UID \<Rightarrow> TLFReaderKeyBundle list \<Rightarrow> TLFReaderKeyBundle list \<Rightarrow> (md_error, bool) result" where
  "sameGenerations e user (gen # gens) (prevMDGen # prevs) =
     (if length (rkb_RKeys gen) \<noteq> length (rkb_RKeys prevMDGen) then Inr False
      else bindR (sameOtherKeys e (rkb_RKeys prevMDGen) user (rkb_RKeys gen)) (\<lambda>same.
             if \<not> same then Inr False else sameGenerations e user gens prevs))"
| "sameGenerations e user _ _ = Inr True"

definition haveOnlyUserRKeysChanged :: "mdEnv \<Rightarrow> RootMetadata \<Rightarrow> RootMetadata \<Rightarrow> UID \<Rightarrow> (md_error, bool) result" where
  "haveOnlyUserRKeysChanged e md prevMD user =
     (if length (rm_RKeys md) \<noteq> length (rm_RKeys prevMD) then Inr False
      else sameGenerations e user (rm_RKeys md) (rm_RKeys prevMD))"

definition IsWriterMetadataCopiedSet :: "RootMetadata \<Rightarrow> bool" where
  "IsWriterMetadataCopiedSet md \<longleftrightarrow> rm_Flags md AND MetadataFlagWriterMetadataCopied \<noteq> 0"

definition IsRekeySet :: "RootMetadata \<Rightarrow> bool" where
  "IsRekeySet md \<longleftrightarrow> rm_Flags md AND MetadataFlagRekey \<noteq> 0"

definition IsFinal :: "RootMetadata \<Rightarrow> bool" where
  "IsFinal md \<longleftrightarrow> rm_Flags md AND MetadataFlagFinal \<noteq> 0"

definition MergedStatus :: "RootMetadata \<Rightarrow> MergeStatus" where
  "MergedStatus md = (if wm_WFlags (rm_WriterMetadata md) AND MetadataFlagUnmerged \<noteq> 0 then Unmerged else Merged)"

definition IsValidRekeyRequest :: "mdEnv \<Rightarrow> RootMetadata \<Rightarrow> RootMetadata \<Rightarrow> UID \<Rightarrow> (md_error, bool) result" where
  "IsValidRekeyRequest e md prevMd user =
     (if \<not> IsWriterMetadataCopiedSet md then Inr False
      else bindR (liftE MdCodecError (CodecEqual (me_writer e) (rm_WriterMetadata md) (rm_WriterMetadata prevMd))) (\<lambda>writerEqual.
        if \<not> writerEqual then Inr False
        else bindR (liftE MdCodecError (CodecEqual (me_sig e) (rm_WriterMetadataSigInfo md) (rm_WriterMetadataSigInfo prevMd)))
          (\<lambda>sigEqual. if \<not> sigEqual then Inr False else haveOnlyUserRKeysChanged e md prevMd user)))"

section \<open>Users and devices\<close>

definition md_IsWriter :: "RootMetadata \<Rightarrow> UID \<Rightarrow> KID \<Rightarrow> bool" where
  "md_IsWriter md user deviceKID =
     (if TlfID_IsPublic (rm_ID md) then list_ex (\<lambda>w. w = user) (wm_Writers (rm_WriterMetadata md))
      else wkg_IsWriter (wm_WKeys (rm_WriterMetadata md)) user deviceKID)"

definition md_IsReader :: "RootMetadata \<Rightarrow> UID \<Rightarrow> KID \<Rightarrow> bool" where
  "md_IsReader md user deviceKID =
     (if TlfID_IsPublic (rm_ID md) then True else rkg_IsReader (rm_RKeys md) user deviceKID)"

definition zeroWriterMetadata :: WriterMetadata where
  "zeroWriterMetadata = \<lparr>wm_SerializedPrivateMetadata = None, wm_LastModifyingWriter = [], wm_Writers = [], wm_WKeys = [],
     wm_ID = NullTlfID, wm_BID = NullBranchID, wm_WFlags = 0, wm_DiskUsage = 0, wm_RefBytes = 0, wm_UnrefBytes = 0,
     wm_UnresolvedWriters = []\<rparr>"

definition updateNewRootMetadata :: "TlfID \<Rightarrow> BareTlfHandle \<Rightarrow> (RootMetadata, md_error, unit) act" where
  "updateNewRootMetadata i h rmd =
     (if TlfID_IsPublic i \<noteq> handle_IsPublic h then (Inl (Error PublicStatusMismatch), rmd)
      else (Inr (),
        rmd\<lparr>rm_WriterMetadata := zeroWriterMetadata\<lparr>wm_Writers := (if TlfID_IsPublic i then bh_Writers h else []),
              wm_WKeys := [], wm_ID := i, wm_UnresolvedWriters := bh_UnresolvedWriters h\<rparr>,
            rm_Revision := MetadataRevisionInitial, rm_RKeys := [],
            rm_UnresolvedReaders := (if length (bh_UnresolvedReaders h) > 0 then bh_UnresolvedReaders h else rm_UnresolvedReaders rmd)\<rparr>))"

definition IsReadable :: "RootMetadata \<Rightarrow> bool" where
  "IsReadable md \<longleftrightarrow> TlfID_IsPublic (rm_ID md) \<or> DirEntry_IsInitialized (pm_Dir (rm_data md))"

section \<open>The ID and the successor\<close>

definition MakeMdID :: "mdEnv \<Rightarrow> RootMetadata \<Rightarrow> md_error + MdID" where
  "MakeMdID e md =
     (if wm_SerializedPrivateMetadata (rm_WriterMetadata md) = None then Inl (MDMissingDataError (rm_ID md))
      else case co_encode (me_md e) md of
             Inl er \<Rightarrow> Inl (MdCodecError er)
           | Inr buf \<Rightarrow> (case DefaultHash buf of Inl er \<Rightarrow> Inl (MdHashError er) | Inr h \<Rightarrow> Inr (MdID h)))"

definition MetadataID :: "mdEnv \<Rightarrow> (RootMetadata, md_error, MdID) act" where
  "MetadataID e md =
     (if rm_mdID md \<noteq> zeroMdID then (Inr (rm_mdID md), md)
      else case MakeMdID e md of
             Inl er \<Rightarrow> (Inl (Error er), md)
           | Inr i \<Rightarrow> (Inr i, md\<lparr>rm_mdID := i\<rparr>))"

definition ClearBlockChanges :: "RootMetadata \<Rightarrow> RootMetadata" where
  "ClearBlockChanges md =
     (let md = updWriter (\<lambda>w. w\<lparr>wm_RefBytes := 0, wm_UnrefBytes := 0\<rparr>) md
      in md\<lparr>rm_data := (rm_data md)\<lparr>pm_Changes := (pm_Changes (rm_data md))\<lparr>bch_sizeEstimate := 0, bch_Info := zeroBlockInfo, bch_Ops := []\<rparr>\<rparr>\<rparr>)"

definition clearLastRevision :: "RootMetadata \<Rightarrow> RootMetadata" where
  "clearLastRevision md =
     (let md = ClearBlockChanges md in md\<lparr>rm_Flags := rm_Flags md AND NOT MetadataFlagWriterMetadataCopied\<rparr>)"

text \<open>\<open>increment\<close> makes \<open>md\<close> the follower of \<open>currMD\<close>, whose ID it may cache: the state is \<open>currMD\<close>.\<close>

definition increment :: "mdEnv \<Rightarrow> RootMetadata \<Rightarrow> (RootMetadata, md_error, RootMetadata) act" where
  "increment e md =
     bindA (MetadataID e) (\<lambda>prevRoot.
     bindA (readA rm_Revision) (\<lambda>currRevision.
       retA (md\<lparr>rm_PrevRoot := prevRoot,
                rm_Revision := (if rm_Revision md < MetadataRevisionInitial then MetadataRevisionInitial
                                else wrap64 (currRevision + 1))\<rparr>)))"

definition handle_deepCopy :: "mdEnv \<Rightarrow> TlfHandle option \<Rightarrow> (md_error, TlfHandle) result" where
  "handle_deepCopy e h =
     (case h of
        None \<Rightarrow> Inl (Panic NoHandle)
      | Some h \<Rightarrow>
          bindR (liftE MdCodecError (CodecUpdate (me_bare e) (th_BareTlfHandle h))) (\<lambda>bare.
          bindR (liftE MdCodecError (CodecUpdate (me_names e) (th_resolvedWriters h))) (\<lambda>ws.
          bindR (liftE MdCodecError (CodecUpdate (me_names e) (th_resolvedReaders h))) (\<lambda>rs.
            Inr \<lparr>th_BareTlfHandle = bare, th_resolvedWriters = ws, th_resolvedReaders = rs, th_name = th_name h\<rparr>))))"

definition md_deepCopy :: "mdEnv \<Rightarrow> RootMetadata \<Rightarrow> bool \<Rightarrow> (md_error, RootMetadata) result" where
  "md_deepCopy e md copyHandle =
     bindR (liftE MdCodecError (CodecUpdate (me_md e) md)) (\<lambda>newMd.
     bindR (liftE MdCodecError (CodecUpdate (me_private e) (rm_data md))) (\<lambda>data.
     let newMd = newMd\<lparr>rm_data := data\<rparr> in
     if copyHandle then bindR (handle_deepCopy e (rm_tlfHandle md)) (\<lambda>h. Inr (newMd\<lparr>rm_tlfHandle := Some h\<rparr>))
     else Inr newMd))"

definition MakeSuccessor :: "mdEnv \<Rightarrow> bool \<Rightarrow> (RootMetadata, md_error, RootMetadata) act" where
  "MakeSuccessor e isWriter md =
     (if IsFinal md then (Inl (Error MetadataIsFinalError), md)
      else case md_deepCopy e md True of
             Inl f \<Rightarrow> (Inl f, md)
           | Inr newMd \<Rightarrow>
               let newMd =
                 (if IsReadable md \<and> isWriter
                  then updWriter (\<lambda>w. w\<lparr>wm_SerializedPrivateMetadata := None\<rparr>) (clearLastRevision newMd)
                  else newMd\<lparr>rm_Flags := rm_Flags newMd OR MetadataFlagRekey OR MetadataFlagWriterMetadataCopied\<rparr>)
               in increment e newMd md)"

section \<open>Keys\<close>

definition GetTlfHandle :: "RootMetadata \<Rightarrow> (md_error, TlfHandle) result" where
  "GetTlfHandle md = (case rm_tlfHandle md of None \<Rightarrow> Inl (Panic NoHandle) | Some h \<Rightarrow> Inr h)"

definition getTLFKeyBundles :: "RootMetadata \<Rightarrow> int \<Rightarrow> (md_error, TLFWriterKeyBundle \<times> TLFReaderKeyBundle) result" where
  "getTLFKeyBundles md keyGen =
     (if TlfID_IsPublic (rm_ID md) then Inl (Error (InvalidPublicTLFOperation (rm_ID md) ''getTLFKeyBundle''))
      else if keyGen < FirstValidKeyGen then bindR (GetTlfHandle md) (\<lambda>h. Inl (Error (InvalidKeyGenerationError h keyGen)))
      else let i = nat (keyGen - FirstValidKeyGen) in
           if i \<ge> length (wm_WKeys (rm_WriterMetadata md)) \<or> i \<ge> length (rm_RKeys md)
           then bindR (GetTlfHandle md) (\<lambda>h. Inl (Error (NewKeyGenerationError h keyGen)))
           else Inr (wm_WKeys (rm_WriterMetadata md) ! i, rm_RKeys md ! i))"

definition GetTLFCryptKeyInfo :: "RootMetadata \<Rightarrow> int \<Rightarrow> UID \<Rightarrow> CryptPublicKey \<Rightarrow> (md_error, TLFCryptKeyInfo option) result" where
  "GetTLFCryptKeyInfo md keyGen user currentCryptPublicKey =
     bindR (getTLFKeyBundles md keyGen) (\<lambda>(wkb, rkb). Inr (bundleInfo wkb rkb user (kc_kid currentCryptPublicKey)))"

definition GetTLFCryptPublicKeys :: "RootMetadata \<Rightarrow> int \<Rightarrow> UID \<Rightarrow> (md_error, KID list option) result" where
  "GetTLFCryptPublicKeys md keyGen user =
     (case getTLFKeyBundles md keyGen of
        Inl (Panic p) \<Rightarrow> Inl (Panic p)
      | Inl (Error _) \<Rightarrow> Inr None
      | Inr (wkb, rkb) \<Rightarrow>
          Inr (case map_of (wkb_WKeys wkb) user of
                 Some u \<Rightarrow> Some (GetKIDs u)
               | None \<Rightarrow> (case map_of (rkb_RKeys rkb) user of Some u \<Rightarrow> Some (GetKIDs u) | None \<Rightarrow> None)))"

definition GetTLFEphemeralPublicKey :: "RootMetadata \<Rightarrow> int \<Rightarrow> UID \<Rightarrow> CryptPublicKey \<Rightarrow> (md_error, TLFEphemeralPublicKey) result" where
  "GetTLFEphemeralPublicKey md keyGen user currentCryptPublicKey =
     bindR (getTLFKeyBundles md keyGen) (\<lambda>(wkb, rkb).
     bindR (GetTLFCryptKeyInfo md keyGen user currentCryptPublicKey) (\<lambda>info.
       case info of
         None \<Rightarrow> Inl (Error (TLFEphemeralPublicKeyNotFoundError user (kc_kid currentCryptPublicKey)))
       | Some i \<Rightarrow>
           (case bundleEphemeral wkb rkb (ki_EPubKeyIndex i) of None \<Rightarrow> Inl (Panic MdIndexOutOfRange) | Some k \<Rightarrow> Inr k)))"

definition md_LatestKeyGeneration :: "RootMetadata \<Rightarrow> int" where
  "md_LatestKeyGeneration md =
     (if TlfID_IsPublic (rm_ID md) then PublicKeyGen else wkg_LatestKeyGeneration (wm_WKeys (rm_WriterMetadata md)))"

definition AddNewKeys :: "TLFWriterKeyBundle \<Rightarrow> TLFReaderKeyBundle \<Rightarrow> (RootMetadata, md_error, unit) act" where
  "AddNewKeys wkb rkb md =
     (if TlfID_IsPublic (rm_ID md) then (Inl (Error (InvalidPublicTLFOperation (rm_ID md) ''AddNewKeys'')), md)
      else (Inr (), (updWriter (\<lambda>w. w\<lparr>wm_WKeys := wm_WKeys w @ [wkb]\<rparr>) md)\<lparr>rm_RKeys := rm_RKeys md @ [rkb]\<rparr>))"

definition makeBareTlfHandle :: "RootMetadata \<Rightarrow> md_error + BareTlfHandle" where
  "makeBareTlfHandle md =
     (let make = (\<lambda>writers readers.
            case MakeBareTlfHandle writers readers (wm_UnresolvedWriters (rm_WriterMetadata md)) (rm_UnresolvedReaders md)
                   (rm_ConflictInfo md) of
              Inl er \<Rightarrow> Inl (MdHandleError er) | Inr h \<Rightarrow> Inr h)
      in if TlfID_IsPublic (rm_ID md) then make (wm_Writers (rm_WriterMetadata md)) [PublicUID]
         else if length (wm_WKeys (rm_WriterMetadata md)) = 0 then Inl NoWriterKeyGenerations
         else if length (rm_RKeys md) = 0 then Inl NoReaderKeyGenerations
         else let wkb = last (wm_WKeys (rm_WriterMetadata md)); rkb = last (rm_RKeys md) in
              make (map fst (wkb_WKeys wkb))
                (filter (\<lambda>r. map_of (wkb_WKeys wkb) r = None \<and> r \<noteq> PublicUID) (map fst (rkb_RKeys rkb))))"

definition md_MakeBareTlfHandle :: "RootMetadata \<Rightarrow> (md_error, BareTlfHandle) result" where
  "md_MakeBareTlfHandle md =
     (if rm_tlfHandle md \<noteq> None then Inl (Panic HandleExists) else liftE id (makeBareTlfHandle md))"

definition md_IsInitialized :: "RootMetadata \<Rightarrow> bool" where
  "md_IsInitialized md =
     (let keyGen = md_LatestKeyGeneration md
      in if TlfID_IsPublic (rm_ID md) then keyGen = PublicKeyGen else keyGen \<ge> FirstValidKeyGen)"

section \<open>Block changes\<close>

definition addChange :: "(BlockChanges \<Rightarrow> BlockChanges option) \<Rightarrow> (RootMetadata, md_error, unit) act" where
  "addChange f md =
     (case f (pm_Changes (rm_data md)) of
        None \<Rightarrow> (Inl (Panic MdIndexOutOfRange), md)
      | Some bc \<Rightarrow> (Inr (), md\<lparr>rm_data := (rm_data md)\<lparr>pm_Changes := bc\<rparr>\<rparr>))"

definition md_AddRefBlock :: "mdEnv \<Rightarrow> BlockInfo \<Rightarrow> (RootMetadata, md_error, unit) act" where
  "md_AddRefBlock e info =
     bindA (updA (updWriter (\<lambda>w. w\<lparr>wm_RefBytes := wm_RefBytes w + ucast (bi_EncodedSize info),
                                   wm_DiskUsage := wm_DiskUsage w + ucast (bi_EncodedSize info)\<rparr>)))
       (\<lambda>_. addChange (\<lambda>bc. BlockChanges_AddRefBlock (me_bpSize e) bc (bi_BlockPointer info)))"

definition md_AddUnrefBlock :: "mdEnv \<Rightarrow> BlockInfo \<Rightarrow> (RootMetadata, md_error, unit) act" where
  "md_AddUnrefBlock e info =
     (if bi_EncodedSize info > 0
      then bindA (updA (updWriter (\<lambda>w. w\<lparr>wm_UnrefBytes := wm_UnrefBytes w + ucast (bi_EncodedSize info),
                                         wm_DiskUsage := wm_DiskUsage w - ucast (bi_EncodedSize info)\<rparr>)))
             (\<lambda>_. addChange (\<lambda>bc. BlockChanges_AddUnrefBlock (me_bpSize e) bc (bi_BlockPointer info)))
      else retA ())"

definition md_AddUpdate :: "mdEnv \<Rightarrow> BlockInfo \<Rightarrow> BlockInfo \<Rightarrow> (RootMetadata, md_error, unit) act" where
  "md_AddUpdate e oldInfo newInfo =
     (if bi_EncodedSize oldInfo > 0
      then bindA (updA (updWriter (\<lambda>w. w\<lparr>wm_UnrefBytes := wm_UnrefBytes w + ucast (bi_EncodedSize oldInfo),
                                         wm_RefBytes := wm_RefBytes w + ucast (bi_EncodedSize newInfo),
                                         wm_DiskUsage := wm_DiskUsage w + ucast (bi_EncodedSize newInfo) - ucast (bi_EncodedSize oldInfo)\<rparr>)))
             (\<lambda>_. addChange (\<lambda>bc. BlockChanges_AddUpdate (me_bpSize e) bc (bi_BlockPointer oldInfo) (bi_BlockPointer newInfo)))
      else retA ())"

definition md_AddOp :: "op \<Rightarrow> (RootMetadata, md_error, unit) act" where
  "md_AddOp o' = updA (\<lambda>md. md\<lparr>rm_data := (rm_data md)\<lparr>pm_Changes := BlockChanges_AddOp (pm_Changes (rm_data md)) o'\<rparr>\<rparr>)"

section \<open>Reading and verifying\<close>

definition makeRekeyReadError :: "RootMetadata \<Rightarrow> TlfHandle \<Rightarrow> int \<Rightarrow> UID \<Rightarrow> string \<Rightarrow> md_error fault" where
  "makeRekeyReadError md resolvedHandle keyGen uid username =
     (if handle_IsPublic (th_BareTlfHandle resolvedHandle) then Panic PublicRekeyRead
      else case GetCanonicalName resolvedHandle of
             Inl (Error er) \<Rightarrow> Error (MdTlfError er)
           | Inl (Panic er) \<Rightarrow> Panic (MdTlfError er)
           | Inr canonical \<Rightarrow>
               if \<not> handle_IsReader (th_BareTlfHandle resolvedHandle) uid
               then Error (MdTlfError (ReadAccessError username canonical (handle_IsPublic (th_BareTlfHandle resolvedHandle))))
               else (case GetTLFCryptPublicKeys md keyGen uid of
                       Inl f \<Rightarrow> f
                     | Inr keys \<Rightarrow>
                         if (case keys of None \<Rightarrow> 0 | Some ks \<Rightarrow> length ks) > 0
                         then Error (NeedSelfRekeyError canonical) else Error (NeedOtherRekeyError canonical)))"

text \<open>\<open>None\<close> is a nil error.\<close>

definition isReadableOrError :: "mdEnv \<Rightarrow> RootMetadata \<Rightarrow> md_error fault option" where
  "isReadableOrError e md =
     (if \<not> md_IsInitialized md \<or> IsReadable md then None
      else case te_currentUser (me_tlf e) of
             Inl er \<Rightarrow> Some (Error (MdTlfError er))
           | Inr (username, uid) \<Rightarrow>
               (case GetTlfHandle md of
                  Inl f \<Rightarrow> Some f
                | Inr h \<Rightarrow>
                    (case ResolveAgain (me_tlf e) h of
                       Inl er \<Rightarrow> Some (Error (MdTlfError er))
                     | Inr resolvedHandle \<Rightarrow>
                         Some (makeRekeyReadError md resolvedHandle (md_LatestKeyGeneration md) uid username))))"

definition writerKID :: "RootMetadata \<Rightarrow> KID" where
  "writerKID md = kc_kid (si_VerifyingKey (rm_WriterMetadataSigInfo md))"

definition VerifyWriterMetadata :: "mdEnv \<Rightarrow> RootMetadata \<Rightarrow> md_error option" where
  "VerifyWriterMetadata e md =
     (case co_encode (me_writer e) (rm_WriterMetadata md) of
        Inl er \<Rightarrow> Some (MdCodecError er)
      | Inr buf \<Rightarrow> map_option MdCryptoError (crypto_Verify (me_crypto e) buf (rm_WriterMetadataSigInfo md)))"

definition updateFromTlfHandle :: "TlfHandle \<Rightarrow> (RootMetadata, md_error, unit) act" where
  "updateFromTlfHandle newHandle md =
     (let b = th_BareTlfHandle newHandle in
      if TlfID_IsPublic (rm_ID md) \<noteq> handle_IsPublic b then (Inl (Error PublicStatusMismatch), md)
      else let md = (if handle_IsPublic b then updWriter (\<lambda>w. w\<lparr>wm_Writers := bh_Writers b\<rparr>) md
                     else md\<lparr>rm_UnresolvedReaders := bh_UnresolvedReaders b\<rparr>);
               md = (updWriter (\<lambda>w. w\<lparr>wm_UnresolvedWriters := bh_UnresolvedWriters b\<rparr>) md)\<lparr>rm_ConflictInfo := bh_ConflictInfo b\<rparr>
           in case makeBareTlfHandle md of
                Inl er \<Rightarrow> (Inl (Error er), md)
              | Inr bareHandle \<Rightarrow>
                  if bareHandle \<noteq> b then (Inl (Error BareHandleMismatch), md)
                  else (Inr (), md\<lparr>rm_tlfHandle := Some newHandle\<rparr>))"

record RootMetadataSigned =
  rs_SigInfo :: SignatureInfo
  rs_MD :: RootMetadata
  rs_untrustedServerTimestamp :: int

definition rmds_IsInitialized :: "RootMetadataSigned \<Rightarrow> bool" where
  "rmds_IsInitialized rmds \<longleftrightarrow> \<not> SignatureInfo_IsNil (rs_SigInfo rmds)"

definition VerifyRootMetadata :: "mdEnv \<Rightarrow> RootMetadataSigned \<Rightarrow> md_error option" where
  "VerifyRootMetadata e rmds =
     (case co_encode (me_md e) (rs_MD rmds) of
        Inl er \<Rightarrow> Some (MdCodecError er)
      | Inr buf \<Rightarrow> map_option MdCryptoError (crypto_Verify (me_crypto e) buf (rs_SigInfo rmds)))"

definition InitialExtraMetadataVer :: int where "InitialExtraMetadataVer = 2"
definition PreExtraMetadataVer :: int where "PreExtraMetadataVer = 1"

definition rmds_Version :: "RootMetadataSigned \<Rightarrow> int" where
  "rmds_Version rmds =
     (if length (wm_UnresolvedWriters (rm_WriterMetadata (rs_MD rmds))) > 0 \<or> length (rm_UnresolvedReaders (rs_MD rmds)) > 0 \<or>
         rm_ConflictInfo (rs_MD rmds) \<noteq> None
      then InitialExtraMetadataVer else PreExtraMetadataVer)"

section \<open>What the codec promises\<close>

text \<open>Only exported fields are encoded; decoding gives them back and zero values for the others.\<close>

definition zeroPrivateMetadata :: PrivateMetadata where
  "zeroPrivateMetadata = \<lparr>pm_Dir = zeroDirEntry, pm_TLFPrivateKey = zeroKey,
     pm_Changes = \<lparr>bch_Info = zeroBlockInfo, bch_Ops = [], bch_sizeEstimate = 0\<rparr>,
     pm_cachedChanges = \<lparr>bch_Info = zeroBlockInfo, bch_Ops = [], bch_sizeEstimate = 0\<rparr>\<rparr>"

definition md_exported :: "RootMetadata \<Rightarrow> RootMetadata" where
  "md_exported md = md\<lparr>rm_data := zeroPrivateMetadata, rm_tlfHandle := None, rm_mdID := zeroMdID\<rparr>"

definition pm_exported :: "PrivateMetadata \<Rightarrow> PrivateMetadata" where
  "pm_exported pm = pm\<lparr>pm_Changes := (pm_Changes pm)\<lparr>bch_sizeEstimate := 0\<rparr>,
     pm_cachedChanges := \<lparr>bch_Info = zeroBlockInfo, bch_Ops = [], bch_sizeEstimate = 0\<rparr>\<rparr>"

definition codec_ok :: "'a codecOf \<Rightarrow> ('a \<Rightarrow> 'a) \<Rightarrow> bool" where
  "codec_ok c exported \<longleftrightarrow>
     (\<forall>x. \<exists>buf. co_encode c x = Inr buf \<and> co_encode c (exported x) = Inr buf \<and> co_decode c buf = Inr (exported x))"

definition mdCodecs_ok :: "mdEnv \<Rightarrow> bool" where
  "mdCodecs_ok e \<longleftrightarrow>
     codec_ok (me_md e) md_exported \<and> codec_ok (me_writer e) id \<and> codec_ok (me_sig e) id \<and> codec_ok (me_devices e) id \<and>
     codec_ok (me_private e) pm_exported \<and> codec_ok (me_bare e) id \<and> codec_ok (me_names e) id"

lemma codec_update: "codec_ok c f \<Longrightarrow> CodecUpdate c x = Inr (f x)"
  by (auto simp: codec_ok_def CodecUpdate_def dest: spec[of _ x])

lemma codec_encode: "codec_ok c f \<Longrightarrow> \<exists>buf. co_encode c x = Inr buf \<and> co_encode c (f x) = Inr buf \<and> co_decode c buf = Inr (f x)"
  by (simp add: codec_ok_def)

lemma codec_equal:
  assumes "codec_ok c id"
  shows "CodecEqual c x y = Inr (x = y)"
proof -
  obtain bx where "co_encode c x = Inr bx" "co_decode c bx = Inr x" using codec_encode[OF assms, of x] by auto
  moreover obtain by' where "co_encode c y = Inr by'" "co_decode c by' = Inr y" using codec_encode[OF assms, of y] by auto
  ultimately show ?thesis by (auto simp: CodecEqual_def)
qed

section \<open>The successor\<close>

lemma md_exported_simps [simp]:
  "rm_WriterMetadata (md_exported md) = rm_WriterMetadata md" "rm_Flags (md_exported md) = rm_Flags md"
  "rm_Revision (md_exported md) = rm_Revision md" "rm_PrevRoot (md_exported md) = rm_PrevRoot md"
  "rm_RKeys (md_exported md) = rm_RKeys md" "rm_mdID (md_exported md) = zeroMdID" "rm_tlfHandle (md_exported md) = None"
  "rm_WriterMetadataSigInfo (md_exported md) = rm_WriterMetadataSigInfo md" "md_exported (md_exported md) = md_exported md"
  "rm_UnresolvedReaders (md_exported md) = rm_UnresolvedReaders md" "rm_ConflictInfo (md_exported md) = rm_ConflictInfo md"
  by (simp_all add: md_exported_def)

lemma MakeMdID_exported: "codec_ok (me_md e) md_exported \<Longrightarrow> MakeMdID e (md_exported md) = MakeMdID e md"
  using codec_encode[of "me_md e" md_exported md] by (auto simp: MakeMdID_def)

text \<open>The ID that was cached is the one of the metadata.\<close>

definition mdID_ok :: "mdEnv \<Rightarrow> RootMetadata \<Rightarrow> bool" where
  "mdID_ok e md \<longleftrightarrow> rm_mdID md \<noteq> zeroMdID \<longrightarrow> MakeMdID e md = Inr (rm_mdID md)"

lemma MetadataID_run:
  assumes "codec_ok (me_md e) md_exported" and "mdID_ok e md" and "wm_SerializedPrivateMetadata (rm_WriterMetadata md) \<noteq> None"
  shows "\<exists>i. MakeMdID e md = Inr i \<and> MetadataID e md = (Inr i, md\<lparr>rm_mdID := i\<rparr>)"
proof (cases "rm_mdID md = zeroMdID")
  case True
  obtain i where "MakeMdID e md = Inr i"
    using codec_encode[OF assms(1), of md] assms(3) by (auto simp: MakeMdID_def DefaultHash_eq)
  then show ?thesis using True by (simp add: MetadataID_def)
next
  case False
  then show ?thesis using assms(2) by (simp add: mdID_ok_def MetadataID_def)
qed

lemma handle_deepCopy_run: "mdCodecs_ok e \<Longrightarrow> handle_deepCopy e (Some h) = Inr h"
proof -
  assume "mdCodecs_ok e"
  then have "codec_ok (me_bare e) id" "codec_ok (me_names e) id" by (simp_all add: mdCodecs_ok_def)
  then show ?thesis by (simp add: handle_deepCopy_def codec_update[where f = id])
qed

definition successorOf :: "RootMetadata \<Rightarrow> bool \<Rightarrow> MdID \<Rightarrow> RootMetadata" where
  "successorOf md isWriter i =
     (let copy = md\<lparr>rm_data := pm_exported (rm_data md), rm_mdID := zeroMdID, rm_PrevRoot := i, rm_Revision := rm_Revision md + 1\<rparr>
      in if IsReadable md \<and> isWriter
         then updWriter (\<lambda>w. w\<lparr>wm_SerializedPrivateMetadata := None\<rparr>) (clearLastRevision copy)
         else copy\<lparr>rm_Flags := rm_Flags md OR MetadataFlagRekey OR MetadataFlagWriterMetadataCopied\<rparr>)"

lemma MakeSuccessor_run:
  assumes "mdCodecs_ok e" and "\<not> IsFinal md" and "rm_tlfHandle md = Some h" and "mdID_ok e md"
    and "wm_SerializedPrivateMetadata (rm_WriterMetadata md) \<noteq> None" and "1 \<le> rm_Revision md" and "rm_Revision md < 2 ^ 63 - 1"
  shows "\<exists>i. MakeMdID e md = Inr i \<and> MakeSuccessor e isWriter md = (Inr (successorOf md isWriter i), md\<lparr>rm_mdID := i\<rparr>)"
proof -
  have c: "codec_ok (me_md e) md_exported" "codec_ok (me_private e) pm_exported" using assms(1) by (simp_all add: mdCodecs_ok_def)
  obtain i where i: "MakeMdID e md = Inr i" "MetadataID e md = (Inr i, md\<lparr>rm_mdID := i\<rparr>)"
    using MetadataID_run[OF c(1) assms(4,5)] by blast
  have copy: "md_deepCopy e md True = Inr (md\<lparr>rm_data := pm_exported (rm_data md), rm_mdID := zeroMdID\<rparr>)"
    using assms(3) by (simp add: md_deepCopy_def codec_update[OF c(1)] codec_update[OF c(2)] handle_deepCopy_run[OF assms(1)] md_exported_def Let_def)
  have w: "wrap64 (rm_Revision md + 1) = rm_Revision md + 1" using assms(6,7) by (simp add: in64_def)
  show ?thesis using i assms(2,6) w
    by (simp add: MakeSuccessor_def copy increment_def bindA_def successorOf_def Let_def clearLastRevision_def ClearBlockChanges_def
        MetadataRevisionInitial_def)
qed

section \<open>Disk usage\<close>

text \<open>What a client does to metadata that it prepares.\<close>

datatype mdChange = AddOpChange op | AddRefChange BlockInfo | AddUnrefChange BlockInfo | AddUpdateChange BlockInfo BlockInfo

fun doChange :: "mdEnv \<Rightarrow> mdChange \<Rightarrow> (RootMetadata, md_error, unit) act" where
  "doChange e (AddOpChange o') = md_AddOp o'"
| "doChange e (AddRefChange i) = md_AddRefBlock e i"
| "doChange e (AddUnrefChange i) = md_AddUnrefBlock e i"
| "doChange e (AddUpdateChange i j) = md_AddUpdate e i j"

definition doChanges :: "mdEnv \<Rightarrow> mdChange list \<Rightarrow> (RootMetadata, md_error, unit) act" where
  "doChanges e cs = foldA (\<lambda>_. doChange e) () cs"

text \<open>The estimate is that of the previous revision and what was referenced and unreferenced since.\<close>

definition usageFrom :: "uint64 \<Rightarrow> WriterMetadata \<Rightarrow> bool" where
  "usageFrom before w \<longleftrightarrow> wm_DiskUsage w = before + wm_RefBytes w - wm_UnrefBytes w"

definition withoutUsage :: "RootMetadata \<Rightarrow> RootMetadata" where
  "withoutUsage md =
     (updWriter (\<lambda>w. w\<lparr>wm_DiskUsage := 0, wm_RefBytes := 0, wm_UnrefBytes := 0\<rparr>) md)\<lparr>rm_data := zeroPrivateMetadata\<rparr>"

lemma withoutUsage_simps [simp]:
  "withoutUsage (md\<lparr>rm_data := d\<rparr>) = withoutUsage md"
  "withoutUsage (md\<lparr>rm_WriterMetadata := (rm_WriterMetadata md)\<lparr>wm_RefBytes := r, wm_DiskUsage := u\<rparr>\<rparr>) = withoutUsage md"
  "withoutUsage (md\<lparr>rm_WriterMetadata := (rm_WriterMetadata md)\<lparr>wm_UnrefBytes := n, wm_DiskUsage := u\<rparr>\<rparr>) = withoutUsage md"
  "withoutUsage (md\<lparr>rm_WriterMetadata := (rm_WriterMetadata md)\<lparr>wm_UnrefBytes := n, wm_RefBytes := r, wm_DiskUsage := u\<rparr>\<rparr>) = withoutUsage md"
  by (simp_all add: withoutUsage_def)

lemma addChange_keeps:
  "rm_WriterMetadata (snd (addChange f md)) = rm_WriterMetadata md" "withoutUsage (snd (addChange f md)) = withoutUsage md"
  by (simp_all add: addChange_def split: option.split)

lemma doChange_usage:
  assumes "usageFrom before (rm_WriterMetadata md)"
  shows "usageFrom before (rm_WriterMetadata (snd (doChange e c md)))" and "withoutUsage (snd (doChange e c md)) = withoutUsage md"
proof -
  show "usageFrom before (rm_WriterMetadata (snd (doChange e c md)))"
    using assms
    by (cases c) (auto simp: md_AddOp_def md_AddRefBlock_def md_AddUnrefBlock_def md_AddUpdate_def addChange_keeps usageFrom_def)
  show "withoutUsage (snd (doChange e c md)) = withoutUsage md"
    by (cases c) (auto simp: md_AddOp_def md_AddRefBlock_def md_AddUnrefBlock_def md_AddUpdate_def addChange_keeps)
qed

lemma doChanges_usage:
  assumes "usageFrom before (rm_WriterMetadata md)"
  shows "usageFrom before (rm_WriterMetadata (snd (doChanges e cs md)))" and "withoutUsage (snd (doChanges e cs md)) = withoutUsage md"
proof -
  have "usageFrom before (rm_WriterMetadata (snd (doChanges e cs md))) \<and> withoutUsage (snd (doChanges e cs md)) = withoutUsage md"
    using assms
  proof (induction cs arbitrary: md)
    case (Cons c cs)
    obtain r md1 where c: "doChange e c md = (r, md1)" by (metis surj_pair)
    have "usageFrom before (rm_WriterMetadata md1)" "withoutUsage md1 = withoutUsage md"
      using doChange_usage[OF Cons.prems, of e c] by (simp_all add: c)
    then show ?case using Cons.IH[of md1] by (cases r) (simp_all add: doChanges_def c)
  qed (simp add: doChanges_def)
  then show "usageFrom before (rm_WriterMetadata (snd (doChanges e cs md)))" "withoutUsage (snd (doChanges e cs md)) = withoutUsage md"
    by blast+
qed

section \<open>Rekey requests of readers\<close>

lemma sameOtherKeys_iff:
  "codec_ok (me_devices e) id \<Longrightarrow>
   sameOtherKeys e prev user keys = Inr (\<forall>(u, ks) \<in> set keys. u \<noteq> user \<longrightarrow> map_of prev u = Some ks)"
  by (induction keys) (auto simp: codec_equal[of _ "Some _"] codec_equal)

lemma same_others:
  fixes new old :: UserDeviceKeyInfoMap
  assumes "distinct (map fst new)" and "distinct (map fst old)" and "length new = length old" and "map_of old user \<noteq> None"
    and "\<forall>(u, ks) \<in> set new. u \<noteq> user \<longrightarrow> map_of old u = Some ks" and "u \<noteq> user"
  shows "map_of new u = map_of old u"
proof -
  let ?N = "fst ` set new - {user}" and ?O = "fst ` set old - {user}"
  have sub: "?N \<subseteq> ?O"
  proof
    fix v assume "v \<in> ?N"
    then have "map_of old v \<noteq> None" using assms(5) by fastforce
    then show "v \<in> ?O" using \<open>v \<in> ?N\<close> by (metis DiffE DiffI map_of_eq_None_iff)
  qed
  have c: "card (fst ` set new) = card (fst ` set old)" using assms(1-3) by (metis distinct_card length_map set_map)
  have "user \<in> fst ` set old" using assms(4) by (metis map_of_eq_None_iff)
  then have "card ?O = card (fst ` set old) - 1" by simp
  also have "\<dots> \<le> card ?N" using c by (cases "user \<in> fst ` set new") simp_all
  finally have "?N = ?O" using sub by (intro card_subset_eq) (auto dest: card_mono[rotated])
  show ?thesis
  proof (cases "map_of new u")
    case None
    then have "u \<notin> ?O" using \<open>?N = ?O\<close> by (metis Diff_iff map_of_eq_None_iff)
    then show ?thesis using None assms(6) by (metis DiffI empty_iff insert_iff map_of_eq_None_iff)
  next
    case (Some ks)
    then have "(u, ks) \<in> set new" by (rule map_of_SomeD)
    then show ?thesis using assms(5,6) Some by force
  qed
qed

lemma sameGenerations_True:
  assumes "codec_ok (me_devices e) id" and "length gens = length prevs" and "sameGenerations e user gens prevs = Inr True" and "g < length gens"
  shows "length (rkb_RKeys (gens ! g)) = length (rkb_RKeys (prevs ! g)) \<and>
    (\<forall>(u, ks) \<in> set (rkb_RKeys (gens ! g)). u \<noteq> user \<longrightarrow> map_of (rkb_RKeys (prevs ! g)) u = Some ks)"
  using assms(2-4)
proof (induction gens prevs arbitrary: g rule: list_induct2)
  case (Cons x xs y ys)
  from Cons.prems(1) have h: "length (rkb_RKeys x) = length (rkb_RKeys y)"
    "\<forall>(u, ks) \<in> set (rkb_RKeys x). u \<noteq> user \<longrightarrow> map_of (rkb_RKeys y) u = Some ks" "sameGenerations e user xs ys = Inr True"
    by (auto simp: sameOtherKeys_iff[OF assms(1)] bindR_Inr_iff split: if_splits)
  show ?case
  proof (cases g)
    case 0
    then show ?thesis using h(1,2) by simp
  next
    case (Suc k)
    then show ?thesis using Cons.IH[OF h(3), of k] Cons.prems(2) by simp
  qed
qed simp

definition keyMaps_ok :: "RootMetadata \<Rightarrow> bool" where
  "keyMaps_ok md \<longleftrightarrow> (\<forall>g \<in> set (rm_RKeys md). distinct (map fst (rkb_RKeys g)))"

text \<open>
  In a generation in which the requester had no keys, another reader can be replaced; and the ephemeral keys, which
  all readers need, are not compared.
\<close>

lemma rekey_replaces_reader:
  "haveOnlyUserRKeysChanged e (md\<lparr>rm_RKeys := [\<lparr>rkb_RKeys = [(user, ks)], rkb_TLFReaderEphemeralPublicKeys = ep\<rparr>]\<rparr>)
     (md\<lparr>rm_RKeys := [\<lparr>rkb_RKeys = [(other, ks')], rkb_TLFReaderEphemeralPublicKeys = ep'\<rparr>]\<rparr>) user = Inr True"
  by (simp add: haveOnlyUserRKeysChanged_def)

end
