(* ===== verification/Kbfs_Codec.thy ===== *)
theory Kbfs_Codec
  imports Kbfs_Root_Metadata "HOL-Library.Countable"
begin

text \<open>
  That there are codecs as the theorems on metadata assume them: the types of the metadata are countable, so their
  values can be written as byte strings and read back.
\<close>

instance word :: (len) countable
  by (rule countable_classI[of "\<lambda>w. to_nat (uint w)"]) (simp add: unsigned_word_eqI)

instance Hash :: countable
  by countable_datatype

instance HMAC :: countable
  by countable_datatype

instance BlockID :: countable
  by countable_datatype

instance MdID :: countable
  by countable_datatype

instance TlfID :: countable
  by countable_datatype

instance BranchID :: countable
  by countable_datatype

instance EntryType :: countable
  by countable_datatype

instance attrChange :: countable
  by countable_datatype

instance TLFCryptKeyServerHalfID :: countable
  by countable_datatype

instance kidContainer_ext :: (countable) countable
  by (rule countable_classI[of "\<lambda>r. to_nat (kc_kid r, kidContainer.more r)"]) simp

instance byte32Container_ext :: (countable) countable
  by (rule countable_classI[of "\<lambda>r. to_nat (b32_data r, byte32Container.more r)"]) simp

instance encryptedData_ext :: (countable) countable
  by (rule countable_classI[of "\<lambda>r. to_nat (ed_Version r, ed_EncryptedData r, ed_Nonce r, encryptedData.more r)"]) simp

instance SignatureInfo_ext :: (countable) countable
  by (rule countable_classI[of "\<lambda>r. to_nat (si_Version r, si_Signature r, si_VerifyingKey r, SignatureInfo.more r)"]) simp

instance TLFCryptKeyInfo_ext :: (countable) countable
  by (rule countable_classI[of "\<lambda>r. to_nat (ki_ClientHalf r, ki_ServerHalfID r, ki_EPubKeyIndex r, TLFCryptKeyInfo.more r)"]) simp

instance TLFWriterKeyBundle_ext :: (countable) countable
  by (rule countable_classI[of "\<lambda>r. to_nat (wkb_WKeys r, wkb_TLFPublicKey r, wkb_TLFEphemeralPublicKeys r, TLFWriterKeyBundle.more r)"]) simp

instance TLFReaderKeyBundle_ext :: (countable) countable
  by (rule countable_classI[of "\<lambda>r. to_nat (rkb_RKeys r, rkb_TLFReaderEphemeralPublicKeys r, TLFReaderKeyBundle.more r)"]) simp

instance BlockPointer_ext :: (countable) countable
  by (rule countable_classI[of "\<lambda>r. to_nat (bp_ID r, bp_KeyGen r, bp_DataVer r, bp_Creator r, bp_Writer r, bp_RefNonce r, BlockPointer.more r)"]) simp

instance BlockInfo_ext :: (countable) countable
  by (rule countable_classI[of "\<lambda>r. to_nat (bi_BlockPointer r, bi_EncodedSize r, BlockInfo.more r)"]) simp

instance EntryInfo_ext :: (countable) countable
  by (rule countable_classI[of "\<lambda>r. to_nat (ei_Type r, ei_Size r, ei_SymPath r, ei_Mtime r, ei_Ctime r, EntryInfo.more r)"]) simp

instance DirEntry_ext :: (countable) countable
  by (rule countable_classI[of "\<lambda>r. to_nat (de_BlockInfo r, de_EntryInfo r, DirEntry.more r)"]) simp

instance pathNode_ext :: (countable) countable
  by (rule countable_classI[of "\<lambda>r. to_nat (pn_BlockPointer r, pn_Name r, pathNode.more r)"]) simp

instance FolderBranch_ext :: (countable) countable
  by (rule countable_classI[of "\<lambda>r. to_nat (fbr_Tlf r, fbr_Branch r, FolderBranch.more r)"]) simp

instance path_ext :: (countable) countable
  by (rule countable_classI[of "\<lambda>r. to_nat (p_FolderBranch r, p_path r, path.more r)"]) simp

instance blockUpdate_ext :: (countable) countable
  by (rule countable_classI[of "\<lambda>r. to_nat (bu_Unref r, bu_Ref r, blockUpdate.more r)"]) simp

instance writerInfo_ext :: (countable) countable
  by (rule countable_classI[of "\<lambda>r. to_nat (wi_name r, wi_kid r, wi_deviceName r, writerInfo.more r)"]) simp

instance OpCommon_ext :: (countable) countable
  by (rule countable_classI[of "\<lambda>r. to_nat (oc_RefBlocks r, oc_UnrefBlocks r, oc_Updates r, oc_writerInfo r, oc_finalPath r, OpCommon.more r)"]) simp

instance createOp_ext :: (countable) countable
  by (rule countable_classI[of "\<lambda>r. to_nat (co_OpCommon r, co_NewName r, co_Dir r, co_Type r, co_renamed r, co_forceCopy r, co_crSymPath r, createOp.more r)"]) simp

instance rmOp_ext :: (countable) countable
  by (rule countable_classI[of "\<lambda>r. to_nat (ro_OpCommon r, ro_OldName r, ro_Dir r, ro_dropThis r, rmOp.more r)"]) simp

instance renameOp_ext :: (countable) countable
  by (rule countable_classI[of "\<lambda>r. to_nat (rn_OpCommon r, rn_OldName r, rn_OldDir r, rn_NewName r, rn_NewDir r, rn_Renamed r, rn_RenamedType r, renameOp.more r)"]) simp

instance WriteRange_ext :: (countable) countable
  by (rule countable_classI[of "\<lambda>r. to_nat (wr_Off r, wr_Len r, WriteRange.more r)"]) simp

instance syncOp_ext :: (countable) countable
  by (rule countable_classI[of "\<lambda>r. to_nat (so_OpCommon r, so_File r, so_Writes r, syncOp.more r)"]) simp

instance setAttrOp_ext :: (countable) countable
  by (rule countable_classI[of "\<lambda>r. to_nat (sao_OpCommon r, sao_Name r, sao_Dir r, sao_Attr r, sao_File r, setAttrOp.more r)"]) simp

instance gcOp_ext :: (countable) countable
  by (rule countable_classI[of "\<lambda>r. to_nat (gco_OpCommon r, gco_LatestRev r, gcOp.more r)"]) simp

instance op :: countable
  by countable_datatype

instance BlockChanges_ext :: (countable) countable
  by (rule countable_classI[of "\<lambda>r. to_nat (bch_Info r, bch_Ops r, bch_sizeEstimate r, BlockChanges.more r)"]) simp

instance SocialAssertion_ext :: (countable) countable
  by (rule countable_classI[of "\<lambda>r. to_nat (sa_User r, sa_Service r, SocialAssertion.more r)"]) simp

instance ConflictInfo_ext :: (countable) countable
  by (rule countable_classI[of "\<lambda>r. to_nat (ci_Date r, ci_Number r, ConflictInfo.more r)"]) simp

instance BareTlfHandle_ext :: (countable) countable
  by (rule countable_classI[of "\<lambda>r. to_nat (bh_Writers r, bh_Readers r, bh_UnresolvedWriters r, bh_UnresolvedReaders r, bh_ConflictInfo r, BareTlfHandle.more r)"]) simp

instance TlfHandle_ext :: (countable) countable
  by (rule countable_classI[of "\<lambda>r. to_nat (th_BareTlfHandle r, th_resolvedWriters r, th_resolvedReaders r, th_name r, TlfHandle.more r)"]) simp

instance PrivateMetadata_ext :: (countable) countable
  by (rule countable_classI[of "\<lambda>r. to_nat (pm_Dir r, pm_TLFPrivateKey r, pm_Changes r, pm_cachedChanges r, PrivateMetadata.more r)"]) simp

instance WriterMetadata_ext :: (countable) countable
  by (rule countable_classI[of "\<lambda>r. to_nat (wm_SerializedPrivateMetadata r, wm_LastModifyingWriter r, wm_Writers r, wm_WKeys r, wm_ID r, wm_BID r, wm_WFlags r, wm_DiskUsage r, wm_RefBytes r, wm_UnrefBytes r, wm_UnresolvedWriters r, WriterMetadata.more r)"]) simp

instance RootMetadata_ext :: (countable) countable
  by (rule countable_classI[of "\<lambda>r. to_nat (rm_WriterMetadata r, rm_WriterMetadataSigInfo r, rm_LastModifyingUser r, rm_Flags r, rm_Revision r, rm_PrevRoot r, rm_RKeys r, rm_UnresolvedReaders r, rm_ConflictInfo r, rm_data r, rm_tlfHandle r, rm_mdID r, RootMetadata.more r)"]) simp

instance RootMetadataSigned_ext :: (countable) countable
  by (rule countable_classI[of "\<lambda>r. to_nat (rs_SigInfo r, rs_MD r, rs_untrustedServerTimestamp r, RootMetadataSigned.more r)"]) simp

section \<open>A codec for every countable type\<close>

definition anyCodec :: "('a::countable \<Rightarrow> 'a) \<Rightarrow> 'a codecOf" where
  "anyCodec exported =
     \<lparr>co_encode = (\<lambda>x. Inr (replicate (to_nat (exported x)) 0)), co_decode = (\<lambda>buf. Inr (from_nat (length buf)))\<rparr>"

lemma anyCodec_ok: "(\<And>x. f (f x) = f x) \<Longrightarrow> codec_ok (anyCodec f) f"
  by (simp add: codec_ok_def anyCodec_def)

definition mx_env :: mdEnv where
  "mx_env = \<lparr>me_md = anyCodec md_exported, me_writer = anyCodec id, me_sig = anyCodec id, me_devices = anyCodec id,
     me_private = anyCodec pm_exported, me_bare = anyCodec id, me_names = anyCodec id, me_bpSize = 64,
     me_crypto = cx_env, me_tlf = tx_env\<rparr>"

lemma mx_env_ok: "mdCodecs_ok mx_env"
  by (simp add: mdCodecs_ok_def mx_env_def anyCodec_ok pm_exported_def)

end
