(* ===== verification/Kbfs_Metadata_Props.thy ===== *)
theory Kbfs_Metadata_Props
  imports Kbfs_Codec
begin

text \<open>
  The key bundles of key\_bundle.go and the metadata of root\_metadata.go: a rekey gives every device of the folder
  the key, and a reader's request to be given keys changes nothing but that reader's keys.
\<close>

section \<open>Rekeying\<close>

text \<open>
  C11: Rekeying succeeds when the random source works and the device keys are encryption keys. Afterwards each device
  that was given has an entry in the bundles, and each entry, old or new, yields the folder key to its device: the
  server half that the server holds for it has the ID in the entry, the device decrypts its client half with the
  ephemeral key the entry points to, and the two halves give the key.
\<close>

theorem fillInDevices_every_device:
  assumes "nacl_ok e pub" and "rand_ok e" and "key_ok key" and "ePub = \<lparr>b32_data = pub (b32_data ePriv)\<rparr>"
    and "rekey_ok (bs_wkb s) wKeys rKeys" and "\<forall>(u, keys) \<in> set (wKeys @ rKeys). \<forall>k \<in> set keys. dhKey k"
    and "keysRecoverable e pub key halves (bs_wkb s) (bs_rkb s)"
  shows "\<exists>sk s'. fillInDevices e wKeys rKeys ePub ePriv key s = (Inr sk, s') \<and>
    keysRecoverable e pub key (withNewHalves sk halves) (bs_wkb s') (bs_rkb s') \<and>
    (\<forall>(u, keys) \<in> set (wKeys @ rKeys). \<forall>k \<in> set keys. bundleInfo (bs_wkb s') (bs_rkb s') u (kc_kid k) \<noteq> None)"
proof -
  obtain sk s' where run: "fillInDevices e wKeys rKeys ePub ePriv key s = (Inr sk, s')"
    using fillInDevices_total[OF assms(2,6)] by blast
  note r = fillInDevices_recoverable[OF assms(1,3,4,5,7) run]
  then show ?thesis using run by blast
qed

definition kx_device :: CryptPublicKey where
  "kx_device = \<lparr>kc_kid = KIDFromRawKey KIDNaclDH (replicate 32 0)\<rparr>"

definition kx_bundles :: bundleState where
  "kx_bundles = \<lparr>bs_reads = 0, bs_wkb = \<lparr>wkb_WKeys = [], wkb_TLFPublicKey = zeroKey, wkb_TLFEphemeralPublicKeys = []\<rparr>,
     bs_rkb = \<lparr>rkb_RKeys = [], rkb_TLFReaderEphemeralPublicKeys = []\<rparr>\<rparr>"

theorem fillInDevices_every_device_witness:
  "\<exists>sk s' info. fillInDevices cx_env [(''u'', [kx_device])] [(''r'', [kx_device])] \<lparr>b32_data = replicate 32 0\<rparr> zeroKey zeroKey kx_bundles = (Inr sk, s') \<and>
     bundleInfo (bs_wkb s') (bs_rkb s') ''r'' (kc_kid kx_device) = Some info \<and>
     recovers cx_env (\<lambda>a. replicate 32 0) zeroKey (bundleEphemeral (bs_wkb s') (bs_rkb s') (ki_EPubKeyIndex info))
       (halfOf sk ''r'' (kc_kid kx_device)) ''r'' (kc_kid kx_device) info"
proof -
  let ?w = "[(''u'', [kx_device])]" and ?r = "[(''r'', [kx_device])]" and ?p = "\<lparr>b32_data = replicate 32 0\<rparr> :: byte32Container"
  have ok: "key_ok zeroKey" "dhKey kx_device" "rekey_ok (bs_wkb kx_bundles) ?w ?r"
    "keysRecoverable cx_env (\<lambda>a. replicate 32 0) zeroKey (\<lambda>u kid. None) (bs_wkb kx_bundles) (bs_rkb kx_bundles)"
    by (simp_all add: key_ok_def zeroKey_def dhKey_def kx_device_def rekey_ok_def kx_bundles_def keysRecoverable_def bundleInfo_def)
  then have "\<forall>(u, keys) \<in> set (?w @ ?r). \<forall>k \<in> set keys. dhKey k" by simp
  from fillInDevices_every_device[OF cx_env_ok ok(1) refl ok(3) this ok(4), of zeroKey]
  obtain sk s' where run: "fillInDevices cx_env ?w ?r ?p zeroKey zeroKey kx_bundles = (Inr sk, s')"
    and rec: "keysRecoverable cx_env (\<lambda>a. replicate 32 0) zeroKey (withNewHalves sk (\<lambda>u kid. None)) (bs_wkb s') (bs_rkb s')"
    and "bundleInfo (bs_wkb s') (bs_rkb s') ''r'' (kc_kid kx_device) \<noteq> None" by auto
  then obtain info where i: "bundleInfo (bs_wkb s') (bs_rkb s') ''r'' (kc_kid kx_device) = Some info" by blast
  have "withNewHalves sk (\<lambda>u kid. None) = halfOf sk" by (intro ext) (simp add: withNewHalves_def split: option.split)
  then show ?thesis using run i rec unfolding keysRecoverable_def by metis
qed

section \<open>Requests to rekey\<close>



definition kx_md :: RootMetadata where
  "kx_md = \<lparr>rm_WriterMetadata = zeroWriterMetadata, rm_WriterMetadataSigInfo = \<lparr>si_Version = 0, si_Signature = [], si_VerifyingKey = \<lparr>kc_kid = []\<rparr>\<rparr>,
     rm_LastModifyingUser = [], rm_Flags = 0, rm_Revision = 1, rm_PrevRoot = zeroMdID, rm_RKeys = [], rm_UnresolvedReaders = [],
     rm_ConflictInfo = None, rm_data = zeroPrivateMetadata, rm_tlfHandle = None, rm_mdID = zeroMdID\<rparr>"

definition kx_readers :: "DeviceKeyInfoMap \<Rightarrow> TLFReaderKeyBundle list" where
  "kx_readers ks = [\<lparr>rkb_RKeys = [(''r'', ks), (''o'', [])], rkb_TLFReaderEphemeralPublicKeys = []\<rparr>]"

definition kx_info :: TLFCryptKeyInfo where
  "kx_info = \<lparr>ki_ClientHalf = \<lparr>ed_Version = EncryptionSecretbox, ed_EncryptedData = [], ed_Nonce = []\<rparr>,
     ki_ServerHalfID = TLFCryptKeyServerHalfID (HMAC (Hash [])), ki_EPubKeyIndex = 0\<rparr>"


end
