(* ===== verification/Kbfs_MD_Server.thy ===== *)
theory Kbfs_MD_Server
  imports Kbfs_Root_Metadata Kbfs_Storage
begin

text \<open>
  mdserver\_local.go: the local metadata server. Its four databases are key-value stores that may fail; the codec, the
  current user and device, the clock and the random source are parameters. Several instances may share the state;
  \<open>sv_self\<close> is the instance that serves a call.
\<close>

section \<open>State and environment\<close>

record mdBlockLocal =
  mb_MD :: RootMetadataSigned
  mb_Timestamp :: int

datatype mds_error =
    MDShutDown
  | MDServerError mds_error
  | MDServerErrorBadRequest string
  | MDServerErrorUnauthorized
  | MDServerErrorConflictRevision int int
  | MDServerErrorConflictPrevRoot MdID MdID
  | MDServerErrorConflictDiskUsage uint64 uint64
  | MDServerErrorLocked
  | ExpectedOneMD nat
  | DbError kv_error
  | MdsCodecError string
  | MdsUserError tlf_error
  | MdsKeyError string
  | MdsMdError md_error
  | MdsCryptoError crypto_error
  | InvalidTlfIDError
  | DoubleRegistration

text \<open>A channel holds whether its one message was sent; \<open>ms_observers\<close> has the channel of each waiting instance.\<close>

type_synonym db = "(byte list, byte list) kvStore"

record mdsState =
  ms_handleDb :: db
  ms_mdDb :: db
  ms_branchDb :: db
  ms_locksDb :: db
  ms_observers :: "(TlfID \<times> (nat \<times> nat) list) list"
  ms_sessionHeads :: "(TlfID \<times> nat) list"
  ms_channels :: "bool list"
  ms_shutdown :: bool
  ms_reads :: nat

record mdsEnv =
  sv_md :: mdEnv
  sv_block :: "mdBlockLocal codecOf"
  sv_bid :: "BranchID codecOf"
  sv_handle :: "BareTlfHandle codecOf"
  sv_kv :: "byte list kvEnv"
  sv_self :: nat
  sv_deviceKey :: "string + CryptPublicKey"
  sv_now :: int

type_synonym 'a mds = "(mdsState, mds_error, 'a) act"

abbreviation sv_user :: "mdsEnv \<Rightarrow> tlf_error + (string \<times> UID)" where
  "sv_user e \<equiv> te_currentUser (me_tlf (sv_md e))"

text \<open>Wrapping a returned error, and changing the type of errors and panics.\<close>

definition wrapA :: "('e \<Rightarrow> 'e) \<Rightarrow> ('s, 'e, 'a) act \<Rightarrow> ('s, 'e, 'a) act" where
  "wrapA f m s = (case m s of (Inl (Error er), s') \<Rightarrow> (Inl (Error (f er)), s') | (Inl (Panic er), s') \<Rightarrow> (Inl (Panic er), s') | (Inr x, s') \<Rightarrow> (Inr x, s'))"

definition resA :: "('x \<Rightarrow> 'e) \<Rightarrow> ('x, 'a) result \<Rightarrow> ('s, 'e, 'a) act" where
  "resA f r = (case r of Inl (Error x) \<Rightarrow> failA (Error (f x)) | Inl (Panic x) \<Rightarrow> failA (Panic (f x)) | Inr a \<Rightarrow> retA a)"

lemma wrapA_run [simp]: "m s = (Inr x, s') \<Longrightarrow> wrapA f m s = (Inr x, s')" "m s = (Inl (Error er), s') \<Longrightarrow> wrapA f m s = (Inl (Error (f er)), s')"
  by (simp_all add: wrapA_def)

lemma resA_simps [simp]: "resA f (Inr a) = retA a" "resA f (Inl (Error x)) = failA (Error (f x))" "resA f (Inl (Panic x)) = failA (Panic (f x))"
  by (simp_all add: resA_def)

text \<open>A call to a database, which shutting down closes.\<close>

definition dbA :: "(mdsState \<Rightarrow> db) \<Rightarrow> (db \<Rightarrow> mdsState \<Rightarrow> mdsState) \<Rightarrow> (db, kv_error, 'a) act \<Rightarrow> (mdsState, kv_error, 'a) act" where
  "dbA get put m s = (if ms_shutdown s then (Inl (Error (IOError ''closed'')), s) else onA get put m s)"

abbreviation handleDb :: "(db, kv_error, 'a) act \<Rightarrow> (mdsState, kv_error, 'a) act" where
  "handleDb m \<equiv> dbA ms_handleDb (\<lambda>d s. s\<lparr>ms_handleDb := d\<rparr>) m"

abbreviation mdDb :: "(db, kv_error, 'a) act \<Rightarrow> (mdsState, kv_error, 'a) act" where
  "mdDb m \<equiv> dbA ms_mdDb (\<lambda>d s. s\<lparr>ms_mdDb := d\<rparr>) m"

abbreviation branchDb :: "(db, kv_error, 'a) act \<Rightarrow> (mdsState, kv_error, 'a) act" where
  "branchDb m \<equiv> dbA ms_branchDb (\<lambda>d s. s\<lparr>ms_branchDb := d\<rparr>) m"

abbreviation locksDb :: "(db, kv_error, 'a) act \<Rightarrow> (mdsState, kv_error, 'a) act" where
  "locksDb m \<equiv> dbA ms_locksDb (\<lambda>d s. s\<lparr>ms_locksDb := d\<rparr>) m"

definition dbCall :: "(mds_error \<Rightarrow> mds_error) \<Rightarrow> (mdsState, kv_error, 'a) act \<Rightarrow> 'a mds" where
  "dbCall f m = handleA m (\<lambda>er. failA (Error (f (DbError er)))) retA"

definition unlessShutDown :: "'a mds \<Rightarrow> 'a mds" where
  "unlessShutDown m = bindA (readA ms_shutdown) (\<lambda>down. if down then failA (Error MDShutDown) else m)"

section \<open>Keys and blocks\<close>

definition BigEndian64 :: "int \<Rightarrow> byte list" where
  "BigEndian64 r = map (\<lambda>i. ucast (drop_bit (8 * (7 - i)) (word_of_int r :: uint64))) [0, 1, 2, 3, 4, 5, 6, 7]"

definition getMDKey :: "TlfID \<Rightarrow> int \<Rightarrow> BranchID \<Rightarrow> MergeStatus \<Rightarrow> byte list" where
  "getMDKey i revision bid mStatus =
     (if revision = MetadataRevisionUninitialized \<and> mStatus = Merged then tlf_bytes i
      else tlf_bytes i @ (if mStatus = Unmerged then branch_bytes bid else []) @
           (if revision \<ge> MetadataRevisionInitial then BigEndian64 revision else []))"

definition getCurrentDeviceKID :: "mdsEnv \<Rightarrow> mds_error + KID" where
  "getCurrentDeviceKID e = (case sv_deviceKey e of Inl er \<Rightarrow> Inl (MdsKeyError er) | Inr key \<Rightarrow> Inr (kc_kid key))"

definition getBranchKey :: "mdsEnv \<Rightarrow> TlfID \<Rightarrow> mds_error + byte list" where
  "getBranchKey e i = (case getCurrentDeviceKID e of Inl er \<Rightarrow> Inl er | Inr kid \<Rightarrow> Inr (tlf_bytes i @ ToBytes kid))"

definition rmdsFromBlockBytes :: "mdsEnv \<Rightarrow> byte list \<Rightarrow> mds_error + RootMetadataSigned" where
  "rmdsFromBlockBytes e buf =
     (case co_decode (sv_block e) buf of
        Inl er \<Rightarrow> Inl (MdsCodecError er)
      | Inr block \<Rightarrow> Inr ((mb_MD block)\<lparr>rs_untrustedServerTimestamp := mb_Timestamp block\<rparr>))"

definition getHeadForTLF :: "mdsEnv \<Rightarrow> TlfID \<Rightarrow> BranchID \<Rightarrow> MergeStatus \<Rightarrow> RootMetadataSigned option mds" where
  "getHeadForTLF e i bid mStatus =
     handleA (mdDb (kvGet (sv_kv e) (getMDKey i 0 bid mStatus)))
       (\<lambda>er. if er = NotFound then retA None else failA (Error (DbError er)))
       (\<lambda>buf. bindA (sumA id (rmdsFromBlockBytes e buf)) (\<lambda>rmds. retA (Some rmds)))"

section \<open>Permissions\<close>

text \<open>The error of looking up the head is not looked at: no head was found, and every user is let in.\<close>

definition checkPerms :: "mdsEnv \<Rightarrow> TlfID \<Rightarrow> bool \<Rightarrow> RootMetadataSigned option \<Rightarrow> bool mds" where
  "checkPerms e i checkWrite newMd =
     handleA (getHeadForTLF e i NullBranchID Merged) (\<lambda>er. retA True) (\<lambda>rmds.
       case rmds of
         None \<Rightarrow> retA True
       | Some rmds \<Rightarrow>
           bindA (sumA MdsUserError (sv_user e)) (\<lambda>(_, user).
           bindA (resA MdsMdError (md_MakeBareTlfHandle (rs_MD rmds))) (\<lambda>h.
             let isWriter = handle_IsWriter h user; isReader = handle_IsReader h user in
             if checkWrite
             then (case newMd of
                     Some new \<Rightarrow>
                       if \<not> isWriter \<and> isReader then resA MdsMdError (IsValidRekeyRequest (sv_md e) (rs_MD new) (rs_MD rmds) user)
                       else retA isWriter
                   | None \<Rightarrow> retA isWriter)
             else retA (isWriter \<or> isReader))))"

definition mds_isReader :: "mdsEnv \<Rightarrow> TlfID \<Rightarrow> bool mds" where
  "mds_isReader e i = checkPerms e i False None"

definition isWriterOrValidRekey :: "mdsEnv \<Rightarrow> TlfID \<Rightarrow> RootMetadataSigned \<Rightarrow> bool mds" where
  "isWriterOrValidRekey e i newMd = checkPerms e i True (Some newMd)"

section \<open>Branches\<close>

definition getBranchID :: "mdsEnv \<Rightarrow> TlfID \<Rightarrow> BranchID mds" where
  "getBranchID e i =
     bindA (wrapA MDServerError (sumA id (getBranchKey e i))) (\<lambda>branchKey.
       handleA (branchDb (kvGet (sv_kv e) branchKey))
         (\<lambda>er. if er = NotFound then retA NullBranchID else failA (Error (MDServerErrorBadRequest ''Invalid branch ID'')))
         (\<lambda>buf. sumA (\<lambda>_. MDServerErrorBadRequest ''Invalid branch ID'') (co_decode (sv_bid e) buf)))"

text \<open>What \<open>GetForTLF\<close> and \<open>GetRange\<close> begin with: the branch to read, or \<open>None\<close> when there is no unmerged branch.\<close>

definition readBranch :: "mdsEnv \<Rightarrow> TlfID \<Rightarrow> BranchID \<Rightarrow> MergeStatus \<Rightarrow> BranchID option mds" where
  "readBranch e i bid mStatus =
     (if mStatus = Merged \<and> bid \<noteq> NullBranchID then failA (Error (MDServerErrorBadRequest ''Invalid branch ID''))
      else bindA (wrapA MDServerError (mds_isReader e i)) (\<lambda>ok.
        if \<not> ok then failA (Error MDServerErrorUnauthorized)
        else if mStatus = Unmerged \<and> bid = NullBranchID
        then bindA (getBranchID e i) (\<lambda>bid. retA (if bid = NullBranchID then None else Some bid))
        else retA (Some bid)))"

definition mds_GetForTLF :: "mdsEnv \<Rightarrow> TlfID \<Rightarrow> BranchID \<Rightarrow> MergeStatus \<Rightarrow> RootMetadataSigned option mds" where
  "mds_GetForTLF e i bid mStatus =
     unlessShutDown (bindA (readBranch e i bid mStatus) (\<lambda>b.
       case b of None \<Rightarrow> retA None | Some bid \<Rightarrow> wrapA MDServerError (getHeadForTLF e i bid mStatus)))"

definition mds_GetForHandle :: "mdsEnv \<Rightarrow> BareTlfHandle \<Rightarrow> MergeStatus \<Rightarrow> (TlfID \<times> RootMetadataSigned option) mds" where
  "mds_GetForHandle e handle mStatus =
     unlessShutDown (bindA (sumA MdsCodecError (co_encode (sv_handle e) handle)) (\<lambda>handleBytes.
       handleA (handleDb (kvGet (sv_kv e) handleBytes))
         (\<lambda>er. if er \<noteq> NotFound then failA (Error (MDServerError (DbError er)))
               else bindA (sumA MdsUserError (sv_user e)) (\<lambda>(_, uid).
                 if \<not> handle_IsReader handle uid then failA (Error MDServerErrorUnauthorized)
                 else bindA (\<lambda>s. case MakeRandomTlfID (me_crypto (sv_md e)) (handle_IsPublic handle) (ms_reads s) of
                                   (r, n) \<Rightarrow> resA (\<lambda>x. MDServerError (MdsCryptoError x)) r (s\<lparr>ms_reads := n\<rparr>)) (\<lambda>i.
                   bindA (dbCall MDServerError (handleDb (kvPut (sv_kv e) handleBytes (tlf_bytes i)))) (\<lambda>_. retA (i, None)))))
         (\<lambda>buf. case TlfID_UnmarshalBinary buf of
                   None \<Rightarrow> failA (Error InvalidTlfIDError)
                 | Some i \<Rightarrow> bindA (mds_GetForTLF e i NullBranchID mStatus) (\<lambda>rmds. retA (i, rmds)))))"

definition decodeBlocks :: "mdsEnv \<Rightarrow> (byte list \<times> byte list) list \<Rightarrow> mds_error + RootMetadataSigned list" where
  "decodeBlocks e kvs =
     foldr (\<lambda>(k, buf) r. case rmdsFromBlockBytes e buf of
                           Inl er \<Rightarrow> Inl er
                         | Inr rmds \<Rightarrow> (case r of Inl er \<Rightarrow> Inl er | Inr rest \<Rightarrow> Inr (rmds # rest))) kvs (Inr [])"

definition mds_GetRange :: "mdsEnv \<Rightarrow> TlfID \<Rightarrow> BranchID \<Rightarrow> MergeStatus \<Rightarrow> int \<Rightarrow> int \<Rightarrow> RootMetadataSigned list mds" where
  "mds_GetRange e i bid mStatus start stop =
     unlessShutDown (bindA (readBranch e i bid mStatus) (\<lambda>b.
       case b of
         None \<Rightarrow> retA []
       | Some bid \<Rightarrow>
           bindA (dbCall MDServerError (mdDb (kvRange (sv_kv e) (getMDKey i start bid mStatus) (getMDKey i (wrap64 (stop + 1)) bid mStatus))))
             (\<lambda>kvs. wrapA MDServerError (sumA id (decodeBlocks e kvs)))))"

section \<open>Putting\<close>

text \<open>The head that a new revision follows, and whether it starts a branch.\<close>

definition putHead :: "mdsEnv \<Rightarrow> RootMetadataSigned \<Rightarrow> (RootMetadataSigned option \<times> bool) mds" where
  "putHead e rmds =
     (let md = rs_MD rmds; i = rm_ID md; mStatus = MergedStatus md in
      bindA (wrapA MDServerError (getHeadForTLF e i (wm_BID (rm_WriterMetadata md)) mStatus)) (\<lambda>head.
        if mStatus = Unmerged \<and> head = None
        then let prevRev = wrap64 (rm_Revision md - 1) in
             bindA (wrapA MDServerError (mds_GetRange e i NullBranchID Merged prevRev prevRev)) (\<lambda>rmdses.
               if length rmdses \<noteq> 1 then failA (Error (MDServerError (ExpectedOneMD (length rmdses))))
               else retA (Some (rmdses ! 0), True))
        else retA (head, False)))"

definition checkFollows :: "mdsEnv \<Rightarrow> RootMetadata \<Rightarrow> RootMetadata \<Rightarrow> unit mds" where
  "checkFollows e head md =
     (if wrap64 (rm_Revision head + 1) \<noteq> rm_Revision md
      then failA (Error (MDServerErrorConflictRevision (wrap64 (rm_Revision head + 1)) (rm_Revision md)))
      else bindA (wrapA MDServerError (resA MdsMdError (fst (MetadataID (sv_md e) head)))) (\<lambda>expectedHash.
        if rm_PrevRoot md \<noteq> expectedHash then failA (Error (MDServerErrorConflictPrevRoot expectedHash (rm_PrevRoot md)))
        else let w = rm_WriterMetadata md;
                 expectedUsage = wm_DiskUsage (rm_WriterMetadata head) +
                   (if \<not> IsWriterMetadataCopiedSet md then wm_RefBytes w - wm_UnrefBytes w else 0)
             in if wm_DiskUsage w \<noteq> expectedUsage
                then failA (Error (MDServerErrorConflictDiskUsage expectedUsage (wm_DiskUsage w)))
                else retA ()))"

definition recordBranchID :: "mdsEnv \<Rightarrow> TlfID \<Rightarrow> BranchID \<Rightarrow> unit mds" where
  "recordBranchID e i bid =
     bindA (wrapA MDServerError (sumA MdsCodecError (co_encode (sv_bid e) bid))) (\<lambda>buf.
     bindA (wrapA MDServerError (sumA id (getBranchKey e i))) (\<lambda>branchKey.
       dbCall MDServerError (branchDb (kvPut (sv_kv e) branchKey buf))))"

definition writeBlock :: "mdsEnv \<Rightarrow> RootMetadataSigned \<Rightarrow> unit mds" where
  "writeBlock e rmds =
     (let md = rs_MD rmds; i = rm_ID md; bid = wm_BID (rm_WriterMetadata md); mStatus = MergedStatus md in
      bindA (wrapA MDServerError (sumA MdsCodecError (co_encode (sv_block e) \<lparr>mb_MD = rmds, mb_Timestamp = sv_now e\<rparr>))) (\<lambda>buf.
        dbCall MDServerError (mdDb (kvWrite (sv_kv e)
          [(getMDKey i (rm_Revision md) bid mStatus, buf), (getMDKey i MetadataRevisionUninitialized bid mStatus, buf)]))))"

definition fire :: "nat \<Rightarrow> mdsState \<Rightarrow> mdsState" where
  "fire c s = s\<lparr>ms_channels := (ms_channels s)[c := True]\<rparr>"

definition notifyObservers :: "mdsEnv \<Rightarrow> TlfID \<Rightarrow> mdsState \<Rightarrow> mdsState" where
  "notifyObservers e i s =
     (let obs = (case map_of (ms_observers s) i of None \<Rightarrow> [] | Some os \<Rightarrow> os);
          others = filter (\<lambda>(k, _). k \<noteq> sv_self e) obs;
          rest = filter (\<lambda>(k, _). k = sv_self e) obs;
          s = s\<lparr>ms_sessionHeads := AList.update i (sv_self e) (ms_sessionHeads s)\<rparr>;
          s = foldl (\<lambda>s (_, c). fire c s) s others
      in s\<lparr>ms_observers := (if length rest = 0 then AList.delete i (ms_observers s) else AList.update i rest (ms_observers s))\<rparr>)"

definition mds_Put :: "mdsEnv \<Rightarrow> RootMetadataSigned \<Rightarrow> unit mds" where
  "mds_Put e rmds =
     (let md = rs_MD rmds; mStatus = MergedStatus md; bid = wm_BID (rm_WriterMetadata md); i = rm_ID md in
      unlessShutDown (
        if (mStatus = Merged) \<noteq> (bid = NullBranchID) then failA (Error (MDServerErrorBadRequest ''Invalid branch ID''))
        else bindA (wrapA MDServerError (isWriterOrValidRekey e i rmds)) (\<lambda>ok.
          if \<not> ok then failA (Error MDServerErrorUnauthorized)
          else bindA (putHead e rmds) (\<lambda>(head, recordBranch).
            bindA (case head of None \<Rightarrow> retA () | Some h \<Rightarrow> checkFollows e (rs_MD h) md) (\<lambda>_.
            bindA (if recordBranch then recordBranchID e i bid else retA ()) (\<lambda>_.
            bindA (writeBlock e rmds) (\<lambda>_.
              if mStatus = Merged \<and> \<not> (IsRekeySet md \<and> IsWriterMetadataCopiedSet md)
              then updA (notifyObservers e i) else retA ())))))))"

definition mds_PruneBranch :: "mdsEnv \<Rightarrow> TlfID \<Rightarrow> BranchID \<Rightarrow> unit mds" where
  "mds_PruneBranch e i bid =
     unlessShutDown (
       if bid = NullBranchID then failA (Error (MDServerErrorBadRequest ''Invalid branch ID''))
       else bindA (getBranchID e i) (\<lambda>currBID.
         if currBID = NullBranchID \<or> bid \<noteq> currBID then failA (Error (MDServerErrorBadRequest ''Invalid branch ID''))
         else bindA (wrapA MDServerError (sumA id (getBranchKey e i))) (\<lambda>branchKey.
           dbCall MDServerError (branchDb (kvDelete (sv_kv e) branchKey)))))"

section \<open>Updates and locks\<close>

text \<open>A new channel has the next number.\<close>

definition mds_RegisterForUpdate :: "mdsEnv \<Rightarrow> TlfID \<Rightarrow> int \<Rightarrow> nat mds" where
  "mds_RegisterForUpdate e i currHead =
     unlessShutDown (bindA (getHeadForTLF e i NullBranchID Merged) (\<lambda>head s.
       let currMergedHeadRev = (case head of None \<Rightarrow> 0 | Some h \<Rightarrow> rm_Revision (rs_MD h));
           c = length (ms_channels s)
       in if currMergedHeadRev > currHead \<and> map_of (ms_sessionHeads s) i \<noteq> Some (sv_self e)
          then (Inr c, s\<lparr>ms_channels := ms_channels s @ [True]\<rparr>)
          else let obs = (case map_of (ms_observers s) i of None \<Rightarrow> [] | Some os \<Rightarrow> os);
                   s = s\<lparr>ms_channels := ms_channels s @ [False], ms_observers := AList.update i obs (ms_observers s)\<rparr>
               in if map_of obs (sv_self e) \<noteq> None then (Inl (Panic DoubleRegistration), s)
                  else (Inr c, s\<lparr>ms_observers := AList.update i (AList.update (sv_self e) c obs) (ms_observers s)\<rparr>)))"

definition getTruncateLockKey :: "TlfID \<Rightarrow> byte list" where
  "getTruncateLockKey i = tlf_bytes i"

definition getCurrentDeviceKIDBytes :: "mdsEnv \<Rightarrow> mds_error + byte list" where
  "getCurrentDeviceKIDBytes e = (case getCurrentDeviceKID e of Inl er \<Rightarrow> Inl er | Inr kid \<Rightarrow> Inr (ToBytes kid))"

definition TruncateLock :: "mdsEnv \<Rightarrow> TlfID \<Rightarrow> bool mds" where
  "TruncateLock e i =
     bindA (sumA id (getCurrentDeviceKIDBytes e)) (\<lambda>myKID.
       handleA (locksDb (kvGet (sv_kv e) (getTruncateLockKey i)))
         (\<lambda>er. if er = NotFound
               then bindA (dbCall id (locksDb (kvPut (sv_kv e) (getTruncateLockKey i) myKID))) (\<lambda>_. retA True)
               else failA (Error (DbError er)))
         (\<lambda>lockBytes. if lockBytes = myKID then retA True else failA (Error MDServerErrorLocked)))"

definition TruncateUnlock :: "mdsEnv \<Rightarrow> TlfID \<Rightarrow> bool mds" where
  "TruncateUnlock e i =
     bindA (sumA id (getCurrentDeviceKIDBytes e)) (\<lambda>myKID.
       handleA (locksDb (kvGet (sv_kv e) (getTruncateLockKey i)))
         (\<lambda>er. if er = NotFound then retA True else failA (Error (DbError er)))
         (\<lambda>lockBytes.
            if lockBytes = myKID
            then bindA (dbCall id (locksDb (kvDelete (sv_kv e) (getTruncateLockKey i)))) (\<lambda>_. retA True)
            else failA (Error MDServerErrorLocked)))"

definition mds_Shutdown :: "mdsState \<Rightarrow> mdsState" where
  "mds_Shutdown s = s\<lparr>ms_shutdown := True\<rparr>"

definition mds_IsConnected :: "mdsState \<Rightarrow> bool" where
  "mds_IsConnected s \<longleftrightarrow> \<not> ms_shutdown s"

definition addNewAssertionForTest :: "mdsEnv \<Rightarrow> UID \<Rightarrow> SocialAssertion \<Rightarrow> unit mds" where
  "addNewAssertionForTest e uid newAssertion =
     unlessShutDown (bindA (dbCall id (handleDb (kvAll (sv_kv e)))) (\<lambda>kvs.
       foldA (\<lambda>_ (handleBytes, i).
         bindA (sumA MdsCodecError (co_decode (sv_handle e) handleBytes)) (\<lambda>handle.
           let newHandle = ResolveAssertions handle [(newAssertion, uid)] in
           if handle = newHandle then retA ()
           else bindA (sumA MdsCodecError (co_encode (sv_handle e) newHandle)) (\<lambda>newHandleBytes.
             dbCall id (handleDb (kvPut (sv_kv e) newHandleBytes i))))) () kvs))"

text \<open>An error of the iterator is not looked at here.\<close>

definition GetLatestHandleForTLF :: "mdsEnv \<Rightarrow> TlfID \<Rightarrow> BareTlfHandle option mds" where
  "GetLatestHandleForTLF e i =
     handleA (handleDb (kvAll (sv_kv e))) (\<lambda>er. retA None) (\<lambda>kvs.
       foldA (\<lambda>handle (handleBytes, idBytes).
         case TlfID_UnmarshalBinary idBytes of
           None \<Rightarrow> failA (Error InvalidTlfIDError)
         | Some dbID \<Rightarrow>
             if i \<noteq> dbID then retA handle
             else bindA (sumA MdsCodecError (co_decode (sv_handle e) handleBytes)) (\<lambda>h. retA (Some h))) None kvs)"

end
