(* ===== verification/Kbfs_MD_Keys.thy ===== *)
theory Kbfs_MD_Keys
  imports Kbfs_MD_Server
begin

text \<open>
  The keys under which mdserver\_local.go stores metadata: which keys are different, and that the keys of a folder's
  merged revisions are in the order of the revisions.
\<close>

section \<open>Big-endian numbers\<close>

primrec beValue :: "byte list \<Rightarrow> nat" where
  "beValue [] = 0"
| "beValue (b # bs) = unat b * 256 ^ length bs + beValue bs"

lemma beValue_less: "beValue bs < 256 ^ length bs"
proof (induction bs)
  case (Cons b bs)
  have "unat b \<le> 255" using unsigned_less[where ?'a = nat and ?w = b] by simp
  then have "unat b * 256 ^ length bs \<le> 255 * 256 ^ length bs" by simp
  then have "unat b * 256 ^ length bs + beValue bs < 255 * 256 ^ length bs + 256 ^ length bs" using Cons by linarith
  then show ?case by simp
qed simp

lemma beValue_order: "length xs = length ys \<Longrightarrow> xs < ys \<longleftrightarrow> beValue xs < beValue ys"
proof (induction xs ys rule: list_induct2)
  case (Cons x xs y ys)
  have step: "unat a * 256 ^ length xs + beValue us < unat b * 256 ^ length xs + beValue vs"
    if "a < b" "length us = length xs" for a b :: byte and us vs
  proof -
    have "Suc (unat a) * 256 ^ length xs \<le> unat b * 256 ^ length xs" using that(1) by (intro mult_right_mono) (simp_all add: word_less_nat_alt)
    then show ?thesis using beValue_less[of us] that(2) by simp
  qed
  consider "x < y" | "x = y" | "y < x" by (meson linorder_neqE)
  then show ?case
  proof cases
    case 1
    then show ?thesis using step[of x y xs ys] Cons.hyps by simp
  next
    case 2
    then show ?thesis using Cons by simp
  next
    case 3
    then have "\<not> x < y" "x \<noteq> y" by auto
    then show ?thesis using step[OF 3, of ys xs] Cons.hyps by simp
  qed
qed simp

primrec beDigits :: "nat \<Rightarrow> nat \<Rightarrow> byte list" where
  "beDigits 0 n = []"
| "beDigits (Suc k) n = word_of_nat (n div 256 ^ k) # beDigits k n"

lemma beDigits_length [simp]: "length (beDigits k n) = k"
  by (induction k) simp_all

lemma beValue_digits: "beValue (beDigits k n) = n mod 256 ^ k"
proof (induction k)
  case (Suc k)
  have "unat (word_of_nat (n div 256 ^ k) :: byte) = (n div 256 ^ k) mod 256" by (simp add: unat_of_nat)
  then show ?case using Suc mod_mult2_eq[of n "256 ^ k" 256] by (simp add: mult.commute)
qed simp

lemma byte_of_drop:
  assumes "m \<le> 56"
  shows "(ucast (drop_bit m (word_of_nat n :: uint64)) :: byte) = word_of_nat (n div 2 ^ m)"
proof (rule bit_word_eqI)
  fix j assume "j < LENGTH(8)"
  then show "bit (ucast (drop_bit m (word_of_nat n :: uint64)) :: byte) j = bit (word_of_nat (n div 2 ^ m) :: byte) j"
    using assms by (simp add: bit_ucast_iff bit_drop_bit_eq bit_of_nat_iff flip: drop_bit_eq_div)
qed

lemma beDigits_map: "beDigits k n = map (\<lambda>j. word_of_nat (n div 2 ^ (8 * j))) (rev [0..<k])"
  by (induction k) (simp_all add: power_mult)

lemma BigEndian64_digits: "BigEndian64 (int n) = beDigits 8 n"
proof -
  have "rev [0..<8] = map (\<lambda>i. 7 - i) [0::nat, 1, 2, 3, 4, 5, 6, 7]" by (simp add: upt_rec)
  then have "beDigits 8 n = map (\<lambda>i. word_of_nat (n div 2 ^ (8 * (7 - i)))) [0, 1, 2, 3, 4, 5, 6, 7]"
    unfolding beDigits_map by (simp only: map_map o_def)
  also have "\<dots> = BigEndian64 (int n)" unfolding BigEndian64_def by (simp add: byte_of_drop)
  finally show ?thesis ..
qed

lemma BigEndian64_value: "0 \<le> r \<Longrightarrow> r < 2 ^ 63 \<Longrightarrow> length (BigEndian64 r) = 8 \<and> beValue (BigEndian64 r) = nat r"
proof -
  assume "0 \<le> r" "r < 2 ^ 63"
  then obtain n where n: "r = int n" "n < 2 ^ 63" by (metis nat_less_numeral_power_cancel_iff zero_le_imp_eq_int nat_int)
  then show ?thesis by (simp add: BigEndian64_digits beValue_digits)
qed

section \<open>Keys\<close>

lemma key_forms:
  assumes "TlfID_ok i" and "BranchID_ok bid" and "r < 2 ^ 63"
  shows "take 16 (getMDKey i r bid st) = tlf_bytes i"
    and "length (getMDKey i r bid st) = 16 + (if st = Unmerged then 16 else 0) + (if 1 \<le> r then 8 else 0)"
    and "drop 16 (getMDKey i r bid Merged) = (if 1 \<le> r then BigEndian64 r else [])"
proof -
  have "1 \<le> r \<Longrightarrow> length (BigEndian64 r) = 8" using BigEndian64_value[of r] assms(3) by simp
  then show "take 16 (getMDKey i r bid st) = tlf_bytes i"
    and "length (getMDKey i r bid st) = 16 + (if st = Unmerged then 16 else 0) + (if 1 \<le> r then 8 else 0)"
    and "drop 16 (getMDKey i r bid Merged) = (if 1 \<le> r then BigEndian64 r else [])"
    using assms(1,2) by (auto simp: getMDKey_def TlfID_ok_def BranchID_ok_def id_consts MetadataRevisionUninitialized_def MetadataRevisionInitial_def)
qed

lemma getMDKey_low: "r < 0 \<Longrightarrow> getMDKey i r bid st = getMDKey i 0 bid st"
  by (simp add: getMDKey_def MetadataRevisionUninitialized_def MetadataRevisionInitial_def)

lemma BigEndian64_inj: "0 \<le> r \<Longrightarrow> r < 2 ^ 63 \<Longrightarrow> 0 \<le> q \<Longrightarrow> q < 2 ^ 63 \<Longrightarrow> BigEndian64 r = BigEndian64 q \<longleftrightarrow> r = q"
  by (metis BigEndian64_value eq_nat_nat_iff)

text \<open>The keys of the merged head and revisions of a folder, and no other keys, coincide with each other only when they are the same.\<close>

lemma merged_keys:
  assumes "TlfID_ok i" and "TlfID_ok j" and "BranchID_ok bid" and "0 \<le> r" and "r < 2 ^ 63" and "0 \<le> q" and "q < 2 ^ 63"
  shows "getMDKey i r NullBranchID Merged = getMDKey j q bid st \<longleftrightarrow> i = j \<and> st = Merged \<and> r = q"
proof
  have null: "BranchID_ok NullBranchID" by (simp add: BranchID_ok_def NullBranchID_def id_consts)
  note fi = key_forms[OF assms(1) null assms(5)] and fj = key_forms[OF assms(2,3,7)]
  assume eq: "getMDKey i r NullBranchID Merged = getMDKey j q bid st"
  have "tlf_bytes i = tlf_bytes j" using fi(1)[of Merged] fj(1)[of st] eq by simp
  moreover have len: "st = Merged \<and> (1 \<le> r \<longleftrightarrow> 1 \<le> q)"
    using fi(2)[of Merged] fj(2)[of st] eq by (cases st) (auto split: if_splits)
  moreover have "r = q"
  proof (cases "1 \<le> r")
    case True
    then have "BigEndian64 r = BigEndian64 q" using fi(3) fj(3) eq len by simp
    then show ?thesis using BigEndian64_inj assms(4-7) by blast
  qed (use len assms(4,6) in simp)
  ultimately show "i = j \<and> st = Merged \<and> r = q" by (cases i, cases j) simp
qed (auto simp: getMDKey_def)

end
