(* ===== verification/Kbfs_MD_Log.thy ===== *)
theory Kbfs_MD_Log
  imports Kbfs_MD_Keys Kbfs_Codec
begin

text \<open>
  What the metadata server of mdserver\_local.go promises: the merged revisions of each folder are a log. Whatever is
  asked of it, by whichever instance, and whichever calls to its databases fail, the log of a folder only grows, by
  metadata that follows its last entry.
\<close>

section \<open>Requests\<close>

datatype mdsRequest =
    GetForHandleReq BareTlfHandle MergeStatus
  | GetForTLFReq TlfID BranchID MergeStatus
  | GetRangeReq TlfID BranchID MergeStatus int int
  | PutReq RootMetadataSigned
  | PruneBranchReq TlfID BranchID
  | RegisterForUpdateReq TlfID int
  | TruncateLockReq TlfID
  | TruncateUnlockReq TlfID
  | AddNewAssertionReq UID SocialAssertion
  | GetLatestHandleReq TlfID
  | ShutdownReq

fun serve :: "mdsEnv \<Rightarrow> mdsRequest \<Rightarrow> mdsState \<Rightarrow> mdsState" where
  "serve e (GetForHandleReq h st) s = snd (mds_GetForHandle e h st s)"
| "serve e (GetForTLFReq i bid st) s = snd (mds_GetForTLF e i bid st s)"
| "serve e (GetRangeReq i bid st start stop) s = snd (mds_GetRange e i bid st start stop s)"
| "serve e (PutReq rmds) s = snd (mds_Put e rmds s)"
| "serve e (PruneBranchReq i bid) s = snd (mds_PruneBranch e i bid s)"
| "serve e (RegisterForUpdateReq i r) s = snd (mds_RegisterForUpdate e i r s)"
| "serve e (TruncateLockReq i) s = snd (TruncateLock e i s)"
| "serve e (TruncateUnlockReq i) s = snd (TruncateUnlock e i s)"
| "serve e (AddNewAssertionReq u a) s = snd (addNewAssertionForTest e u a s)"
| "serve e (GetLatestHandleReq i) s = snd (GetLatestHandleForTLF e i s)"
| "serve e ShutdownReq s = mds_Shutdown s"

text \<open>The IDs of a request have their lengths and its revision is an \<open>int64\<close>.\<close>

definition rmds_ok :: "RootMetadataSigned \<Rightarrow> bool" where
  "rmds_ok rmds \<longleftrightarrow> TlfID_ok (rm_ID (rs_MD rmds)) \<and> BranchID_ok (wm_BID (rm_WriterMetadata (rs_MD rmds))) \<and> in64 (rm_Revision (rs_MD rmds))"

fun request_ok :: "mdsRequest \<Rightarrow> bool" where
  "request_ok (PutReq rmds) = rmds_ok rmds"
| "request_ok _ = True"

section \<open>Calls that leave the metadata as it is\<close>

definition mdEntries :: "mdsState \<Rightarrow> (byte list \<times> byte list) list" where
  "mdEntries s = kv_entries (ms_mdDb s)"

abbreviation keepsMd :: "(byte list \<times> byte list) list \<Rightarrow> (mdsState, 'e, 'a) act \<Rightarrow> bool" where
  "keepsMd E m \<equiv> keepsA (\<lambda>s. mdEntries s = E) m"

lemma keepsMdI: "(\<And>s. mdEntries (snd (m s)) = mdEntries s) \<Longrightarrow> keepsMd E m"
  by (simp add: keepsA_def)

lemma keepsMdD: "keepsMd (mdEntries s) m \<Longrightarrow> mdEntries (snd (m s)) = mdEntries s"
  by (simp add: keepsA_def)

lemma keepsMd_run: "keepsMd (mdEntries s) m \<Longrightarrow> m s = (r, s') \<Longrightarrow> mdEntries s' = mdEntries s"
  using keepsMdD[of s m] by simp

named_theorems keeps

lemma keepsA_handle: "keepsA P m \<Longrightarrow> (\<And>er. keepsA P (h er)) \<Longrightarrow> (\<And>x. keepsA P (k x)) \<Longrightarrow> keepsA P (handleA m h k)"
  by (fastforce simp: keepsA_def handleA_def split: prod.split sum.split fault.split)

lemma keepsA_wrap: "keepsA P m \<Longrightarrow> keepsA P (wrapA f m)"
  by (fastforce simp: keepsA_def wrapA_def split: prod.split sum.split fault.split)

lemma keepsMd_basic [keeps]: "keepsMd E (retA x)" "keepsMd E (failA f)" "keepsMd E (readA g)" "keepsMd E (sumA h r)" "keepsMd E (resA h' r')"
  by (auto intro!: keepsMdI simp: sumA_def resA_def split: sum.split fault.split)

lemma keepsMd_bind [keeps]: "keepsMd E m \<Longrightarrow> (\<And>x. keepsMd E (k x)) \<Longrightarrow> keepsMd E (bindA m k)"
  by (rule keepsA_bind)

lemma keepsMd_handle [keeps]: "keepsMd E m \<Longrightarrow> (\<And>er. keepsMd E (h er)) \<Longrightarrow> (\<And>x. keepsMd E (k x)) \<Longrightarrow> keepsMd E (handleA m h k)"
  by (rule keepsA_handle)

lemma keepsMd_wrap [keeps]: "keepsMd E m \<Longrightarrow> keepsMd E (wrapA f m)"
  by (rule keepsA_wrap)

lemma keepsMd_fold [keeps]: "(\<And>x y. keepsMd E (f x y)) \<Longrightarrow> keepsMd E (foldA f x ys)"
  by (rule keepsA_fold)

lemma keepsMd_dbs [keeps]: "keepsMd E (handleDb m)" "keepsMd E (branchDb m)" "keepsMd E (locksDb m)"
  by (auto simp: keepsA_def dbA_def onA_def mdEntries_def split: prod.split)

lemma keepsMd_reads [keeps]: "keepsMd E (mdDb (kvGet kv k))" "keepsMd E (mdDb (kvRange kv start limit))"
  by (auto simp: keepsA_def dbA_def onA_def mdEntries_def kvGet_def kvRange_def split: prod.split option.split)

lemma keepsMd_dbCall [keeps]: "keepsMd E m \<Longrightarrow> keepsMd E (dbCall f m)"
  unfolding dbCall_def by (intro keeps)

lemma keepsMd_down [keeps]: "keepsMd E m \<Longrightarrow> keepsMd E (unlessShutDown m)"
  unfolding unlessShutDown_def by (auto intro!: keeps)

lemma keepsMd_cases [keeps]:
  "(c \<Longrightarrow> keepsMd E m) \<Longrightarrow> (\<not> c \<Longrightarrow> keepsMd E m') \<Longrightarrow> keepsMd E (if c then m else m')"
  "keepsMd E n \<Longrightarrow> (\<And>x. keepsMd E (j x)) \<Longrightarrow> keepsMd E (case z of None \<Rightarrow> n | Some x \<Rightarrow> j x)"
  "(\<And>x y. keepsMd E (l x y)) \<Longrightarrow> keepsMd E (case p of (x, y) \<Rightarrow> l x y)"
  by (auto split: option.split prod.split)

lemma keepsMd_perms [keeps]: "keepsMd E (getHeadForTLF e i bid st)" "keepsMd E (checkPerms e i w new)" "keepsMd E (getBranchID e i)"
  "keepsMd E (readBranch e i bid st)"
  unfolding checkPerms_def getBranchID_def readBranch_def mds_isReader_def getHeadForTLF_def Let_def by (intro keeps)+

lemma keepsMd_queries [keeps]: "keepsMd E (mds_GetForTLF e i bid st)" "keepsMd E (mds_GetRange e i bid st start stop)"
  "keepsMd E (mds_PruneBranch e i bid)" "keepsMd E (TruncateLock e i)" "keepsMd E (TruncateUnlock e i)" "keepsMd E (recordBranchID e i bid)"
  "keepsMd E (addNewAssertionForTest e u a)" "keepsMd E (GetLatestHandleForTLF e i)"
  unfolding mds_GetForTLF_def mds_GetRange_def mds_PruneBranch_def TruncateLock_def TruncateUnlock_def recordBranchID_def
    addNewAssertionForTest_def GetLatestHandleForTLF_def Let_def
  by (intro keeps)+

lemma keepsMd_random [keeps]: "keepsMd E (\<lambda>s. case f (ms_reads s) of (r, n) \<Rightarrow> resA h r (s\<lparr>ms_reads := n\<rparr>))"
  by (auto simp: keepsA_def resA_def mdEntries_def split: prod.split sum.split fault.split)

lemma keepsMd_forHandle [keeps]: "keepsMd E (mds_GetForHandle e h st)"
  unfolding mds_GetForHandle_def by (intro keeps)

lemma keepsMd_register [keeps]: "keepsMd E (mds_RegisterForUpdate e i r)"
proof -
  have "keepsMd E (\<lambda>s. let currMergedHeadRev = f head; c = length (ms_channels s)
       in if currMergedHeadRev > r \<and> map_of (ms_sessionHeads s) i \<noteq> Some (sv_self e)
          then (Inr c, s\<lparr>ms_channels := ms_channels s @ [True]\<rparr>)
          else let obs = (case map_of (ms_observers s) i of None \<Rightarrow> [] | Some os \<Rightarrow> os);
                   s = s\<lparr>ms_channels := ms_channels s @ [False], ms_observers := AList.update i obs (ms_observers s)\<rparr>
               in if map_of obs (sv_self e) \<noteq> None then (Inl (Panic DoubleRegistration), s)
                  else (Inr c, s\<lparr>ms_observers := AList.update i (AList.update (sv_self e) c obs) (ms_observers s)\<rparr>))" for f and head :: "RootMetadataSigned option"
    by (rule keepsMdI) (simp add: Let_def mdEntries_def)
  then show ?thesis unfolding mds_RegisterForUpdate_def by (intro keeps)
qed

lemma keepsMd_putHead [keeps]: "keepsMd E (putHead e rmds)" "keepsMd E (checkFollows e h md)"
  unfolding putHead_def checkFollows_def Let_def by (intro keeps)+

lemma fire_keeps: "mdEntries (foldl (\<lambda>s (_, c). fire c s) s xs) = mdEntries s"
  by (induction xs arbitrary: s) (auto simp: fire_def mdEntries_def)

lemma keepsMd_notify [keeps]: "keepsMd E (updA (notifyObservers e i))"
proof (rule keepsMdI)
  fix s
  show "mdEntries (snd (updA (notifyObservers e i) s)) = mdEntries s"
    using fire_keeps[of "s\<lparr>ms_sessionHeads := AList.update i (sv_self e) (ms_sessionHeads s)\<rparr>"]
    by (simp add: notifyObservers_def Let_def mdEntries_def updA_def)
qed

section \<open>What a put does\<close>

definition follows :: "mdEnv \<Rightarrow> RootMetadata \<Rightarrow> RootMetadata \<Rightarrow> bool" where
  "follows e head md \<longleftrightarrow> rm_Revision md = wrap64 (rm_Revision head + 1) \<and> MakeMdID e head = Inr (rm_PrevRoot md) \<and>
     wm_DiskUsage (rm_WriterMetadata md) = wm_DiskUsage (rm_WriterMetadata head) +
       (if IsWriterMetadataCopiedSet md then 0 else wm_RefBytes (rm_WriterMetadata md) - wm_UnrefBytes (rm_WriterMetadata md))"

lemma checkFollows_Inr:
  assumes "rm_mdID head = zeroMdID"
  shows "checkFollows e head md s = (Inr (), s') \<longleftrightarrow> follows (sv_md e) head md \<and> s' = s"
  using assms
  by (cases "MakeMdID (sv_md e) head")
    (auto simp: checkFollows_def follows_def MetadataID_def Let_def bindA_def wrapA_def resA_def failA_def retA_def)

text \<open>The metadata as it is read back.\<close>

definition stored :: "RootMetadataSigned \<Rightarrow> int \<Rightarrow> RootMetadataSigned" where
  "stored rmds now = rmds\<lparr>rs_MD := md_exported (rs_MD rmds), rs_untrustedServerTimestamp := now\<rparr>"

definition mb_exported :: "mdBlockLocal \<Rightarrow> mdBlockLocal" where
  "mb_exported b = b\<lparr>mb_MD := stored (mb_MD b) 0\<rparr>"

definition blockCodec_ok :: "mdsEnv \<Rightarrow> bool" where
  "blockCodec_ok e \<longleftrightarrow> codec_ok (sv_block e) mb_exported"

definition putKeys :: "RootMetadataSigned \<Rightarrow> byte list list" where
  "putKeys rmds =
     (let md = rs_MD rmds; key = (\<lambda>r. getMDKey (rm_ID md) r (wm_BID (rm_WriterMetadata md)) (MergedStatus md))
      in [key (rm_Revision md), key MetadataRevisionUninitialized])"

definition withKeys :: "byte list list \<Rightarrow> byte list \<Rightarrow> (byte list \<times> byte list) list \<Rightarrow> (byte list \<times> byte list) list" where
  "withKeys ks buf es = foldl (\<lambda>es k. AList.update k buf es) es ks"

lemma map_of_withKeys: "map_of (withKeys ks buf es) k = (if k \<in> set ks then Some buf else map_of es k)"
  by (induction ks arbitrary: es) (auto simp: withKeys_def update_conv')

lemma distinct_withKeys: "distinct (map fst es) \<Longrightarrow> distinct (map fst (withKeys ks buf es))"
  by (induction ks arbitrary: es) (auto simp: withKeys_def distinct_update)

lemma writeBlock_entries:
  assumes "blockCodec_ok e"
  shows "mdEntries (snd (writeBlock e rmds s)) = mdEntries s \<and> fst (writeBlock e rmds s) \<noteq> Inr () \<or>
    (\<exists>buf. rmdsFromBlockBytes e buf = Inr (stored rmds (sv_now e)) \<and>
       mdEntries (snd (writeBlock e rmds s)) = withKeys (putKeys rmds) buf (mdEntries s) \<and> fst (writeBlock e rmds s) = Inr ())"
proof -
  obtain buf where "co_encode (sv_block e) \<lparr>mb_MD = rmds, mb_Timestamp = sv_now e\<rparr> = Inr buf"
    "co_decode (sv_block e) buf = Inr (mb_exported \<lparr>mb_MD = rmds, mb_Timestamp = sv_now e\<rparr>)"
    using assms unfolding blockCodec_ok_def by (meson codec_encode)
  then have "rmdsFromBlockBytes e buf = Inr (stored rmds (sv_now e))"
    "co_encode (sv_block e) \<lparr>mb_MD = rmds, mb_Timestamp = sv_now e\<rparr> = Inr buf"
    by (simp_all add: rmdsFromBlockBytes_def mb_exported_def stored_def)
  then show ?thesis
    by (auto simp: writeBlock_def Let_def dbCall_def dbA_def handleA_def onA_def kvWrite_def mdEntries_def withKeys_def putKeys_def
        split: option.splits)
qed

lemma wrapA_Inr: "wrapA f m s = (Inr x, t) \<longleftrightarrow> m s = (Inr x, t)"
  by (auto simp: wrapA_def split: prod.splits sum.splits fault.splits)

definition unchanged :: "mdsState \<Rightarrow> ('e, 'a) result \<Rightarrow> mdsState \<Rightarrow> bool" where
  "unchanged s r s' \<longleftrightarrow> mdEntries s' = mdEntries s \<and> (\<exists>f. r = Inl f)"

lemma bindA_changes:
  assumes "keepsMd (mdEntries s) m" and "bindA m k s = (r, s')" and "\<not> unchanged s r s'"
  obtains x t where "m s = (Inr x, t)" and "k x t = (r, s')" and "mdEntries t = mdEntries s" and "\<not> unchanged t r s'"
proof -
  obtain r' t where m: "m s = (r', t)" by (metis surj_pair)
  then have t: "mdEntries t = mdEntries s" by (rule keepsMd_run[OF assms(1)])
  with m assms(2,3) obtain x where "r' = Inr x" by (cases r') (auto simp: unchanged_def)
  then show thesis using that[of x t] m t assms(2,3) by (simp add: unchanged_def)
qed

lemma bindA_changes_unit:
  fixes m :: "unit mds"
  assumes "keepsMd (mdEntries s) m" and "bindA m (\<lambda>_. k) s = (r, s')" and "\<not> unchanged s r s'"
  obtains t where "m s = (Inr (), t)" and "k t = (r, s')" and "mdEntries t = mdEntries s" and "\<not> unchanged t r s'"
  by (rule bindA_changes[OF assms]) (use that in auto)

lemma writeBlock_changes:
  assumes "blockCodec_ok e" and "bindA (writeBlock e rmds) (\<lambda>_. if c then updA (notifyObservers e i) else retA ()) s = (r, s')" and "\<not> unchanged s r s'"
  obtains buf where "rmdsFromBlockBytes e buf = Inr (stored rmds (sv_now e))" and "mdEntries s' = withKeys (putKeys rmds) buf (mdEntries s)" and "r = Inr ()"
proof -
  obtain r1 t where w: "writeBlock e rmds s = (r1, t)" by (metis surj_pair)
  have n: "mdEntries (notifyObservers e i t) = mdEntries t" using keepsMdD[OF keepsMd_notify, of e i t] by simp
  from writeBlock_entries[OF assms(1), of rmds s] w assms(2,3) n show thesis
    by (cases r1) (auto simp: unchanged_def split: if_splits intro!: that)
qed

text \<open>A put leaves the metadata as it is, or stores the new metadata after the checks.\<close>

lemma Put_cases:
  assumes "blockCodec_ok e" and "mds_Put e rmds s = (r, s')" and "\<not> unchanged s r s'"
  obtains buf s1 head branch s2 s3 where "rmdsFromBlockBytes e buf = Inr (stored rmds (sv_now e))"
    and "mdEntries s' = withKeys (putKeys rmds) buf (mdEntries s)" and "r = Inr ()"
    and "isWriterOrValidRekey e (rm_ID (rs_MD rmds)) rmds s = (Inr True, s1)" and "putHead e rmds s1 = (Inr (head, branch), s2)"
    and "mdEntries s1 = mdEntries s" and "case head of None \<Rightarrow> True | Some h \<Rightarrow> checkFollows e (rs_MD h) (rs_MD rmds) s2 = (Inr (), s3)"
    and "(MergedStatus (rs_MD rmds) = Merged) = (wm_BID (rm_WriterMetadata (rs_MD rmds)) = NullBranchID)"
proof -
  let ?md = "rs_MD rmds"
  let ?notify = "if MergedStatus ?md = Merged \<and> \<not> (IsRekeySet ?md \<and> IsWriterMetadataCopiedSet ?md) then updA (notifyObservers e (rm_ID ?md)) else retA ()"
  let ?follows = "\<lambda>head. case head of None \<Rightarrow> retA () | Some h \<Rightarrow> checkFollows e (rs_MD h) ?md"
  let ?mark = "\<lambda>b. if b then recordBranchID e (rm_ID ?md) (wm_BID (rm_WriterMetadata ?md)) else retA ()"
  have guard: "(MergedStatus ?md = Merged) = (wm_BID (rm_WriterMetadata ?md) = NullBranchID)"
    and "bindA (wrapA MDServerError (isWriterOrValidRekey e (rm_ID ?md) rmds)) (\<lambda>ok.
          if \<not> ok then failA (Error MDServerErrorUnauthorized)
          else bindA (putHead e rmds) (\<lambda>(head, b). bindA (?follows head) (\<lambda>_. bindA (?mark b) (\<lambda>_. bindA (writeBlock e rmds) (\<lambda>_. ?notify))))) s = (r, s')"
    using assms(2,3) by (auto simp: mds_Put_def Let_def unlessShutDown_def unchanged_def split: if_splits)
  from bindA_changes[OF keepsMd_wrap this(2) assms(3)] obtain ok s1
    where ok: "isWriterOrValidRekey e (rm_ID ?md) rmds s = (Inr ok, s1)" and s1: "mdEntries s1 = mdEntries s"
      and k1: "(if \<not> ok then failA (Error MDServerErrorUnauthorized)
          else bindA (putHead e rmds) (\<lambda>(head, b). bindA (?follows head) (\<lambda>_. bindA (?mark b) (\<lambda>_. bindA (writeBlock e rmds) (\<lambda>_. ?notify))))) s1 = (r, s')"
      and n1: "\<not> unchanged s1 r s'"
    unfolding wrapA_Inr isWriterOrValidRekey_def by (blast intro: keeps)
  from k1 n1 have "ok" by (auto simp: unchanged_def split: if_splits)
  with k1 have k1: "bindA (putHead e rmds) (\<lambda>(head, b). bindA (?follows head) (\<lambda>_. bindA (?mark b) (\<lambda>_. bindA (writeBlock e rmds) (\<lambda>_. ?notify)))) s1 = (r, s')" by simp
  from bindA_changes[OF _ k1 n1] obtain hb s2 where h: "putHead e rmds s1 = (Inr hb, s2)" "mdEntries s2 = mdEntries s1" "\<not> unchanged s2 r s'"
      and k2: "(\<lambda>(head, b). bindA (?follows head) (\<lambda>_. bindA (?mark b) (\<lambda>_. bindA (writeBlock e rmds) (\<lambda>_. ?notify)))) hb s2 = (r, s')"
    by (blast intro: keeps)
  obtain head b where hb: "hb = (head, b)" by (cases hb)
  with k2 have k2: "bindA (?follows head) (\<lambda>_. bindA (?mark b) (\<lambda>_. bindA (writeBlock e rmds) (\<lambda>_. ?notify))) s2 = (r, s')" by simp
  have "keepsMd (mdEntries s2) (?follows head)" by (intro keeps)
  then obtain s3 where f: "?follows head s2 = (Inr (), s3)" and k3: "bindA (?mark b) (\<lambda>_. bindA (writeBlock e rmds) (\<lambda>_. ?notify)) s3 = (r, s')"
    and s3: "mdEntries s3 = mdEntries s2" "\<not> unchanged s3 r s'" by (rule bindA_changes_unit[OF _ k2 h(3)])
  have "keepsMd (mdEntries s3) (?mark b)" by (intro keeps)
  then obtain s4 where "?mark b s3 = (Inr (), s4)" and k4: "bindA (writeBlock e rmds) (\<lambda>_. ?notify) s4 = (r, s')"
    and s4: "mdEntries s4 = mdEntries s3" "\<not> unchanged s4 r s'" by (rule bindA_changes_unit[OF _ k3 s3(2)])
  from writeBlock_changes[OF assms(1) k4 s4(2)] obtain buf where "rmdsFromBlockBytes e buf = Inr (stored rmds (sv_now e))"
    "mdEntries s' = withKeys (putKeys rmds) buf (mdEntries s4)" "r = Inr ()" .
  then show thesis using that[of buf s1 head b s2 s3] ok \<open>ok\<close> s1 h f s3 s4 hb guard by (auto split: option.splits)
qed

section \<open>The log of a folder\<close>

text \<open>What the store has under the key of the head (revision 0) and of each revision, for a log.\<close>

definition logAt :: "RootMetadataSigned list \<Rightarrow> int \<Rightarrow> RootMetadataSigned option" where
  "logAt L r = find (\<lambda>m. r = 0 \<or> rm_Revision (rs_MD m) = r) (rev L)"

definition holds :: "mdsEnv \<Rightarrow> byte list option \<Rightarrow> RootMetadataSigned option \<Rightarrow> bool" where
  "holds e = rel_option (\<lambda>buf m. rmdsFromBlockBytes e buf = Inr m)"

definition logEntry_ok :: "TlfID \<Rightarrow> RootMetadataSigned \<Rightarrow> bool" where
  "logEntry_ok i m \<longleftrightarrow> rm_ID (rs_MD m) = i \<and> MergedStatus (rs_MD m) = Merged \<and> wm_BID (rm_WriterMetadata (rs_MD m)) = NullBranchID \<and>
     in64 (rm_Revision (rs_MD m)) \<and> rm_mdID (rs_MD m) = zeroMdID \<and> rm_tlfHandle (rs_MD m) = None"

definition mdLog :: "mdsEnv \<Rightarrow> mdsState \<Rightarrow> TlfID \<Rightarrow> RootMetadataSigned list \<Rightarrow> bool" where
  "mdLog e s i L \<longleftrightarrow>
     (\<forall>r. 0 \<le> r \<longrightarrow> r < 2 ^ 63 \<longrightarrow> holds e (map_of (mdEntries s) (getMDKey i r NullBranchID Merged)) (logAt L r)) \<and>
     (\<forall>m \<in> set L. logEntry_ok i m) \<and>
     successively (\<lambda>h m. follows (sv_md e) (rs_MD h) (rs_MD m)) L"

lemma logAt_head: "logAt L 0 = (if L = [] then None else Some (last L))"
  by (cases L rule: rev_cases) (simp_all add: logAt_def)

lemma logAt_append: "logAt (L @ [m]) r = (if r = 0 \<or> rm_Revision (rs_MD m) = r then Some m else logAt L r)"
  by (simp add: logAt_def)

lemma mdLog_entries: "mdEntries s' = mdEntries s \<Longrightarrow> mdLog e s' i L = mdLog e s i L"
  by (simp add: mdLog_def)

text \<open>What reading the head gives, when the call to the database succeeds.\<close>

lemma getHead_Inr:
  assumes "getHeadForTLF e i bid st s = (Inr head, s')" and "holds e (map_of (mdEntries s) (getMDKey i 0 bid st)) m"
  shows "head = m"
proof -
  consider "map_of (mdEntries s) (getMDKey i 0 bid st) = None" "m = None"
    | buf m' where "map_of (mdEntries s) (getMDKey i 0 bid st) = Some buf" "m = Some m'" "rmdsFromBlockBytes e buf = Inr m'"
    using assms(2) by (auto simp: holds_def elim!: option.rel_cases)
  then show ?thesis
    using assms(1) by cases (auto simp: getHeadForTLF_def dbA_def handleA_def onA_def kvGet_def mdEntries_def split: if_splits option.splits)
qed

lemma stored_ok [simp]:
  "rm_ID (rs_MD (stored m t)) = rm_ID (rs_MD m)" "MergedStatus (rs_MD (stored m t)) = MergedStatus (rs_MD m)"
  "rm_WriterMetadata (rs_MD (stored m t)) = rm_WriterMetadata (rs_MD m)" "rm_Revision (rs_MD (stored m t)) = rm_Revision (rs_MD m)"
  "rm_mdID (rs_MD (stored m t)) = zeroMdID" "follows e h (rs_MD (stored m t)) = follows e h (rs_MD m)" "rm_tlfHandle (rs_MD (stored m t)) = None"
  "rm_Flags (rs_MD (stored m t)) = rm_Flags (rs_MD m)"
  by (simp_all add: stored_def MergedStatus_def follows_def IsWriterMetadataCopiedSet_def)

text \<open>Where the keys of a put are keys of the log of \<open>i\<close>.\<close>

lemma putKeys_merged:
  assumes "TlfID_ok i" and "rmds_ok rmds" and "0 \<le> r" and "r < 2 ^ 63"
  shows "getMDKey i r NullBranchID Merged \<in> set (putKeys rmds) \<longleftrightarrow>
    rm_ID (rs_MD rmds) = i \<and> MergedStatus (rs_MD rmds) = Merged \<and> (r = 0 \<or> r = rm_Revision (rs_MD rmds))"
proof -
  let ?md = "rs_MD rmds"
  let ?bid = "wm_BID (rm_WriterMetadata ?md)"
  have ok: "TlfID_ok (rm_ID ?md)" "BranchID_ok ?bid" "rm_Revision ?md < 2 ^ 63" using assms(2) by (auto simp: rmds_ok_def in64_def)
  show ?thesis
  proof (cases "0 \<le> rm_Revision ?md")
    case True
    then show ?thesis using merged_keys[OF assms(1) ok(1,2) assms(3,4)] ok(3)
      by (auto simp: putKeys_def Let_def MetadataRevisionUninitialized_def)
  next
    case False
    then show ?thesis using merged_keys[OF assms(1) ok(1,2) assms(3,4), of 0] getMDKey_low[of "rm_Revision ?md"] assms(3)
      by (auto simp: putKeys_def Let_def MetadataRevisionUninitialized_def)
  qed
qed

text \<open>A put that succeeds adds an entry to the log of its folder, when it is merged.\<close>

lemma Put_log:
  assumes "blockCodec_ok e" and "TlfID_ok i" and "rmds_ok rmds" and "mdLog e s i L" and "mds_Put e rmds s = (r, s')" and "\<not> unchanged s r s'"
  shows "mdLog e s' i (if rm_ID (rs_MD rmds) = i \<and> MergedStatus (rs_MD rmds) = Merged then L @ [stored rmds (sv_now e)] else L)"
    (is "mdLog e s' i ?L")
proof -
  let ?md = "rs_MD rmds" and ?new = "stored rmds (sv_now e)"
  let ?mine = "rm_ID ?md = i \<and> MergedStatus ?md = Merged"
  obtain buf s1 head b s2 s3 where p: "rmdsFromBlockBytes e buf = Inr ?new" "mdEntries s' = withKeys (putKeys rmds) buf (mdEntries s)"
    "putHead e rmds s1 = (Inr (head, b), s2)" "mdEntries s1 = mdEntries s"
    "case head of None \<Rightarrow> True | Some h \<Rightarrow> checkFollows e (rs_MD h) ?md s2 = (Inr (), s3)"
    "(MergedStatus ?md = Merged) = (wm_BID (rm_WriterMetadata ?md) = NullBranchID)"
    by (rule Put_cases[OF assms(1,5,6)])
  have "holds e (map_of (mdEntries s') (getMDKey i q NullBranchID Merged)) (logAt ?L q)" if "0 \<le> q" "q < 2 ^ 63" for q
    using assms(4) that putKeys_merged[OF assms(2,3) that] p(1,2)
    by (auto simp: mdLog_def map_of_withKeys logAt_append holds_def)
  moreover have "\<forall>m \<in> set ?L. logEntry_ok i m" using assms(3,4) p(6) by (auto simp: mdLog_def logEntry_ok_def rmds_ok_def)
  moreover have "successively (\<lambda>h m. follows (sv_md e) (rs_MD h) (rs_MD m)) ?L"
  proof (cases "?mine \<and> L \<noteq> []")
    case True
    have "logEntry_ok i (last L)" using assms(4) True by (simp add: mdLog_def)
    have "holds e (map_of (mdEntries s1) (getMDKey i 0 NullBranchID Merged)) (Some (last L))"
      using assms(4) True logAt_head[of L] p(4) unfolding mdLog_def by (metis order_refl zero_less_numeral zero_less_power)
    moreover have "getHeadForTLF e i NullBranchID Merged s1 = (Inr head, s2)"
      using p(3,6) True by (auto simp: putHead_def Let_def bindA_def wrapA_def split: prod.splits sum.splits fault.splits)
    ultimately have "head = Some (last L)" using getHead_Inr by blast
    then have "follows (sv_md e) (rs_MD (last L)) ?md" using p(5) \<open>logEntry_ok i (last L)\<close> by (simp add: checkFollows_Inr logEntry_ok_def)
    then show ?thesis using True assms(4) by (simp add: mdLog_def successively_append_iff)
  qed (use assms(4) in \<open>auto simp: mdLog_def\<close>)
  ultimately show ?thesis by (simp add: mdLog_def)
qed

lemma unchanged_log: "unchanged s r s' \<Longrightarrow> mdLog e s' i L = mdLog e s i L"
  by (rule mdLog_entries) (simp add: unchanged_def)

lemma serve_others: "(\<And>rmds. req \<noteq> PutReq rmds) \<Longrightarrow> mdEntries (serve e req s) = mdEntries s"
proof (cases req)
  case ShutdownReq
  then show ?thesis by (simp add: mds_Shutdown_def mdEntries_def)
qed (auto simp: keepsMdD keeps)

text \<open>Requests come from any instance; all use one codec.\<close>

definition sameCodecs :: "mdsEnv \<Rightarrow> mdsEnv \<Rightarrow> bool" where
  "sameCodecs e e' \<longleftrightarrow> me_md (sv_md e') = me_md (sv_md e) \<and> sv_block e' = sv_block e"

definition serveAll :: "(mdsEnv \<times> mdsRequest) list \<Rightarrow> mdsState \<Rightarrow> mdsState" where
  "serveAll reqs s = foldl (\<lambda>s (e, req). serve e req s) s reqs"

lemma sameCodecs_log: "sameCodecs e e' \<Longrightarrow> mdLog e' s i L = mdLog e s i L" "sameCodecs e e' \<Longrightarrow> blockCodec_ok e' = blockCodec_ok e"
  by (simp_all add: sameCodecs_def mdLog_def holds_def rmdsFromBlockBytes_def follows_def MakeMdID_def blockCodec_ok_def)

lemma serve_log:
  assumes "blockCodec_ok e" and "TlfID_ok i" and "request_ok req" and "mdLog e s i L"
  shows "mdLog e (serve e req s) i L \<or> (\<exists>rmds. req = PutReq rmds \<and> mdLog e (serve e req s) i (L @ [stored rmds (sv_now e)]))"
proof (cases "\<exists>rmds. req = PutReq rmds")
  case True
  then obtain rmds where r: "req = PutReq rmds" ..
  obtain res s' where put: "mds_Put e rmds s = (res, s')" by (metis surj_pair)
  show ?thesis
  proof (cases "unchanged s res s'")
    case True
    then show ?thesis using unchanged_log[OF True] assms(4) put r by simp
  next
    case False
    then show ?thesis using Put_log[OF assms(1,2) _ assms(4) put False] assms(3) put r by (auto split: if_splits)
  qed
next
  case False
  then show ?thesis using serve_others[of req e s] mdLog_entries assms(4) by blast
qed

section \<open>The types of keys and values\<close>

definition dbTyped :: "mdsEnv \<Rightarrow> mdsState \<Rightarrow> bool" where
  "dbTyped e s \<longleftrightarrow> distinct (map fst (mdEntries s)) \<and>
     (\<forall>k buf. map_of (mdEntries s) k = Some buf \<longrightarrow> (\<exists>m. rmdsFromBlockBytes e buf = Inr m \<and> rmds_ok m \<and> k \<in> set (putKeys m)))"

lemma putKeys_stored [simp]: "putKeys (stored m t) = putKeys m" "rmds_ok (stored m t) = rmds_ok m"
  by (simp_all add: putKeys_def Let_def rmds_ok_def)

lemma Put_typed:
  assumes "blockCodec_ok e" and "rmds_ok rmds" and "dbTyped e s"
  shows "dbTyped e (snd (mds_Put e rmds s))"
proof -
  obtain r s' where put: "mds_Put e rmds s = (r, s')" by (metis surj_pair)
  show ?thesis
  proof (cases "unchanged s r s'")
    case True
    then show ?thesis using assms(3) put by (simp add: dbTyped_def unchanged_def)
  next
    case False
    then obtain buf where "rmdsFromBlockBytes e buf = Inr (stored rmds (sv_now e))" "mdEntries s' = withKeys (putKeys rmds) buf (mdEntries s)"
      by (rule Put_cases[OF assms(1) put])
    then show ?thesis using assms(2,3) put by (simp add: dbTyped_def map_of_withKeys distinct_withKeys)
  qed
qed

end
