(* ===== verification/Kbfs_MD_Access.thy ===== *)
theory Kbfs_MD_Access
  imports Kbfs_MD_Log
begin

text \<open>
  The metadata server of mdserver\_local.go when its databases work: what reading a range of revisions returns, and
  which puts are accepted.
\<close>

section \<open>The order of keys\<close>

lemma append_less: "length p = length q \<Longrightarrow> p @ x < q @ y \<longleftrightarrow> p < q \<or> p = q \<and> x < y" for p q :: "byte list"
  by (induction p q rule: list_induct2) auto

lemma prefix_less: "length u = length w \<Longrightarrow> u @ v < w \<longleftrightarrow> u < w" for u w :: "byte list"
  using append_less[of u w v "[]"] by simp

definition inRange :: "TlfID \<Rightarrow> int \<Rightarrow> int \<Rightarrow> byte list \<Rightarrow> bool" where
  "inRange i start stop k \<longleftrightarrow> getMDKey i start NullBranchID Merged \<le> k \<and> k < getMDKey i (stop + 1) NullBranchID Merged"

text \<open>The bytes after the folder's ID begin with those of a number in the range.\<close>

definition numberedIn :: "int \<Rightarrow> int \<Rightarrow> byte list \<Rightarrow> bool" where
  "numberedIn start stop x \<longleftrightarrow> 8 \<le> length x \<and> start \<le> int (beValue (take 8 x)) \<and> int (beValue (take 8 x)) \<le> stop"

lemma inRange_iff:
  assumes "TlfID_ok i" and "1 \<le> start" and "start < 2 ^ 63" and "0 \<le> stop" and "stop < 2 ^ 63 - 1" and "16 \<le> length k"
    and "drop 16 k = [] \<or> 8 \<le> length (drop 16 k)"
  shows "inRange i start stop k \<longleftrightarrow> take 16 k = tlf_bytes i \<and> numberedIn start stop (drop 16 k)"
proof -
  define u x where "u = take 16 k" and "x = drop 16 k"
  have k: "k = u @ x" "length u = length (tlf_bytes i)" using assms(1,6) by (simp_all add: u_def x_def TlfID_ok_def id_consts)
  have keys: "getMDKey i q NullBranchID Merged = tlf_bytes i @ BigEndian64 q" if "1 \<le> q" for q
    using that by (simp add: getMDKey_def MetadataRevisionUninitialized_def MetadataRevisionInitial_def)
  have v: "length (BigEndian64 start) = 8" "beValue (BigEndian64 start) = nat start"
    "length (BigEndian64 (stop + 1)) = 8" "beValue (BigEndian64 (stop + 1)) = nat (stop + 1)"
    using BigEndian64_value[of start] BigEndian64_value[of "stop + 1"] assms(2-5) by simp_all
  have "inRange i start stop k \<longleftrightarrow> \<not> u @ x < tlf_bytes i @ BigEndian64 start \<and> u @ x < tlf_bytes i @ BigEndian64 (stop + 1)"
    using keys assms(2,4) k(1) by (auto simp: inRange_def not_less)
  also have "\<dots> \<longleftrightarrow> u = tlf_bytes i \<and> \<not> x < BigEndian64 start \<and> x < BigEndian64 (stop + 1)"
    using append_less[OF k(2)] by auto
  also have "\<not> x < BigEndian64 start \<and> x < BigEndian64 (stop + 1) \<longleftrightarrow> numberedIn start stop x"
  proof (cases "x = []")
    case True
    have "[] < BigEndian64 start" using v(1) by (cases "BigEndian64 start") auto
    then show ?thesis using True by (simp add: numberedIn_def)
  next
    case False
    then have x: "length (take 8 x) = 8" using assms(7) by (simp add: x_def)
    have "x < w \<longleftrightarrow> beValue (take 8 x) < beValue w" if "length w = 8" for w
      using prefix_less[of "take 8 x" w "drop 8 x"] beValue_order[of "take 8 x" w] x that by (simp only: append_take_drop_id)
    then show ?thesis using v x assms(2,4) by (auto simp: numberedIn_def)
  qed
  finally show ?thesis by (simp add: u_def x_def)
qed

section \<open>The entries in a range\<close>

text \<open>No ID of an unmerged branch of the folder looks like a revision in the range.\<close>

definition branchesClear :: "mdsState \<Rightarrow> TlfID \<Rightarrow> int \<Rightarrow> int \<Rightarrow> bool" where
  "branchesClear s i start stop \<longleftrightarrow>
     (\<forall>k \<in> fst ` set (mdEntries s). take 16 k = tlf_bytes i \<and> 32 \<le> length k \<longrightarrow> \<not> numberedIn start stop (drop 16 k))"

lemma putKeys_forms:
  assumes "rmds_ok m" and "k \<in> set (putKeys m)"
  obtains r where "k = getMDKey (rm_ID (rs_MD m)) r (wm_BID (rm_WriterMetadata (rs_MD m))) (MergedStatus (rs_MD m))" and "0 \<le> r" and "r < 2 ^ 63"
proof -
  let ?md = "rs_MD m"
  have "rm_Revision ?md < 2 ^ 63" using assms(1) by (simp add: rmds_ok_def in64_def)
  moreover have "k = getMDKey (rm_ID ?md) (rm_Revision ?md) (wm_BID (rm_WriterMetadata ?md)) (MergedStatus ?md) \<or>
    k = getMDKey (rm_ID ?md) 0 (wm_BID (rm_WriterMetadata ?md)) (MergedStatus ?md)"
    using assms(2) by (auto simp: putKeys_def Let_def MetadataRevisionUninitialized_def)
  ultimately show thesis
    using that[of "rm_Revision ?md"] that[of 0] getMDKey_low[of "rm_Revision ?md"] by (cases "rm_Revision ?md < 0") auto
qed

lemma inRange_merged:
  assumes "TlfID_ok i" and "rmds_ok m" and "k \<in> set (putKeys m)" and "k \<in> fst ` set (mdEntries s)" and "branchesClear s i start stop"
    and "1 \<le> start" and "start < 2 ^ 63" and "0 \<le> stop" and "stop < 2 ^ 63 - 1" and "inRange i start stop k"
  shows "\<exists>r. start \<le> r \<and> r \<le> stop \<and> k = getMDKey i r NullBranchID Merged"
proof -
  let ?j = "rm_ID (rs_MD m)" and ?bid = "wm_BID (rm_WriterMetadata (rs_MD m))" and ?st = "MergedStatus (rs_MD m)"
  obtain r where r: "k = getMDKey ?j r ?bid ?st" "0 \<le> r" "r < 2 ^ 63" by (rule putKeys_forms[OF assms(2,3)])
  have ok: "TlfID_ok ?j" "BranchID_ok ?bid" using assms(2) by (simp_all add: rmds_ok_def)
  note f = key_forms[OF ok r(3)]
  have len: "16 \<le> length k" "drop 16 k = [] \<or> 8 \<le> length (drop 16 k)" using f(2)[of ?st] r(1) by (auto split: if_splits)
  have n: "take 16 k = tlf_bytes i" "numberedIn start stop (drop 16 k)"
    using inRange_iff[OF assms(1,6-9) len] assms(10) by simp_all
  then have "length k < 32" using assms(4,5) by (auto simp: branchesClear_def)
  then have st: "?st = Merged" using f(2)[of ?st] r(1) by (cases ?st) (auto split: if_splits)
  have r1: "1 \<le> r" using n(2) f(2)[of ?st] r(1) st by (cases "1 \<le> r") (auto simp: numberedIn_def)
  have "drop 16 k = BigEndian64 r" using f(3) r1 st r(1) by simp
  then have "start \<le> r \<and> r \<le> stop" using n(2) BigEndian64_value[OF r(2,3)] r(2) by (simp add: numberedIn_def)
  moreover have "?j = i" using n(1) f(1)[of ?st] r(1) by (cases ?j, cases i) simp
  ultimately show ?thesis using r1 r(1) st
    by (auto simp: getMDKey_def MetadataRevisionUninitialized_def MetadataRevisionInitial_def)
qed

lemma merged_inRange:
  assumes "TlfID_ok i" and "1 \<le> start" and "start \<le> r" and "r \<le> stop" and "stop < 2 ^ 63 - 1"
  shows "inRange i start stop (getMDKey i r NullBranchID Merged)"
proof -
  have null: "BranchID_ok NullBranchID" by (simp add: BranchID_ok_def NullBranchID_def id_consts)
  have r: "0 \<le> r" "r < 2 ^ 63" using assms by simp_all
  note f = key_forms[OF assms(1) null r(2)]
  show ?thesis using inRange_iff[OF assms(1,2), of stop "getMDKey i r NullBranchID Merged"] f(1)[of Merged] f(2)[of Merged] f(3) assms(2-5) BigEndian64_value[OF r]
    by (simp add: numberedIn_def)
qed

section \<open>The revisions of a log\<close>

text \<open>A log that begins with a revision \<open>r\<^sub>0\<close>, and whose revisions do not overflow.\<close>

definition logFrom :: "int \<Rightarrow> RootMetadataSigned list \<Rightarrow> bool" where
  "logFrom r0 L \<longleftrightarrow> 1 \<le> r0 \<and> r0 + int (length L) < 2 ^ 63 \<and> (L \<noteq> [] \<longrightarrow> rm_Revision (rs_MD (hd L)) = r0)"

lemma logFrom_nth:
  assumes "successively (\<lambda>h m. follows e (rs_MD h) (rs_MD m)) L" and "logFrom r0 L" and "k < length L"
  shows "rm_Revision (rs_MD (L ! k)) = r0 + int k"
  using assms(3)
proof (induction k)
  case 0
  then show ?case using assms(2) by (auto simp: logFrom_def hd_conv_nth)
next
  case (Suc k)
  have "follows e (rs_MD (L ! k)) (rs_MD (L ! Suc k))" using assms(1) Suc.prems by (simp add: successively_conv_nth)
  then have "rm_Revision (rs_MD (L ! Suc k)) = wrap64 (r0 + int k + 1)" using Suc by (simp add: follows_def)
  also have "\<dots> = r0 + int k + 1" using assms(2) Suc.prems by (intro wrap64_id) (simp add: logFrom_def in64_def)
  finally show ?case by simp
qed

lemma logFrom_revisions:
  assumes "successively (\<lambda>h m. follows e (rs_MD h) (rs_MD m)) L" and "logFrom r0 L"
  shows "sorted_wrt (<) (map (\<lambda>m. rm_Revision (rs_MD m)) L)" and "\<forall>m \<in> set L. 1 \<le> rm_Revision (rs_MD m) \<and> rm_Revision (rs_MD m) < 2 ^ 63"
    and "m \<in> set L \<Longrightarrow> logAt L (rm_Revision (rs_MD m)) = Some m"
proof -
  note n = logFrom_nth[OF assms]
  show w: "sorted_wrt (<) (map (\<lambda>m. rm_Revision (rs_MD m)) L)" by (auto simp: sorted_wrt_iff_nth_less n)
  show b: "\<forall>m \<in> set L. 1 \<le> rm_Revision (rs_MD m) \<and> rm_Revision (rs_MD m) < 2 ^ 63"
    using n assms(2) by (auto simp: in_set_conv_nth logFrom_def)
  assume m: "m \<in> set L"
  have d: "inj_on (\<lambda>m. rm_Revision (rs_MD m)) (set L)"
    using strict_sorted_iff[of "map (\<lambda>m. rm_Revision (rs_MD m)) L"] w by (simp add: distinct_map)
  obtain m' where "logAt L (rm_Revision (rs_MD m)) = Some m'"
    using m by (cases "logAt L (rm_Revision (rs_MD m))") (auto simp: logAt_def find_None_iff)
  moreover from this have "m' \<in> set L" "rm_Revision (rs_MD m') = rm_Revision (rs_MD m)"
    using b m by (auto simp: logAt_def find_Some_iff rev_nth)
  ultimately show "logAt L (rm_Revision (rs_MD m)) = Some m" using d m by (metis inj_onD)
qed

section \<open>Reading\<close>

abbreviation mdTick :: "mdsState \<Rightarrow> mdsState" where
  "mdTick s \<equiv> s\<lparr>ms_mdDb := kvTick (ms_mdDb s)\<rparr>"

lemma mdTick_entries [simp]: "mdEntries (mdTick s) = mdEntries s"
  by (simp add: mdEntries_def)

lemma getHead_run:
  assumes "kvReliable (sv_kv e)" and "\<not> ms_shutdown s" and "holds e (map_of (mdEntries s) (getMDKey i 0 bid st)) m"
  shows "getHeadForTLF e i bid st s = (Inr m, mdTick s)"
proof -
  consider "kvLookup (ms_mdDb s) (getMDKey i 0 bid st) = None" "m = None"
    | buf m' where "kvLookup (ms_mdDb s) (getMDKey i 0 bid st) = Some buf" "m = Some m'" "rmdsFromBlockBytes e buf = Inr m'"
    using assms(3) by (auto simp: holds_def mdEntries_def kvLookup_def elim!: option.rel_cases)
  then show ?thesis using assms(2)
    by cases (simp_all add: getHeadForTLF_def dbA_def handleA_def onA_def kv_reliable_run[OF assms(1)])
qed

lemma mdLog_at:
  "mdLog e s i L \<Longrightarrow> 0 \<le> r \<Longrightarrow> r < 2 ^ 63 \<Longrightarrow> holds e (map_of (mdEntries s) (getMDKey i r NullBranchID Merged)) (logAt L r)"
  by (simp add: mdLog_def)

lemma mdLog_head: "mdLog e s i L \<Longrightarrow> holds e (map_of (mdEntries s) (getMDKey i 0 NullBranchID Merged)) (logAt L 0)"
  by (simp add: mdLog_def)

text \<open>The user may read: the folder has no metadata yet, or its last entry names the user.\<close>

definition mayRead :: "mdsEnv \<Rightarrow> RootMetadataSigned list \<Rightarrow> bool" where
  "mayRead e L \<longleftrightarrow> L = [] \<or>
     (\<exists>n u h. sv_user e = Inr (n, u) \<and> md_MakeBareTlfHandle (rs_MD (last L)) = Inr h \<and> (handle_IsWriter h u \<or> handle_IsReader h u))"

lemma isReader_run:
  assumes "kvReliable (sv_kv e)" and "\<not> ms_shutdown s" and "mdLog e s i L" and "mayRead e L"
  shows "mds_isReader e i s = (Inr True, mdTick s)"
  using getHead_run[OF assms(1,2) mdLog_head[OF assms(3)]] assms(4)
  by (auto simp: mds_isReader_def checkPerms_def logAt_head mayRead_def Let_def)

lemma decodeBlocks_map:
  "(\<forall>m \<in> set ms. rmdsFromBlockBytes e (b m) = Inr m) \<Longrightarrow> decodeBlocks e (map (\<lambda>m. (k m, b m)) ms) = Inr ms"
  by (induction ms) (simp_all add: decodeBlocks_def)

lemma key_less:
  assumes "1 \<le> r" and "r < q" and "q < 2 ^ 63"
  shows "getMDKey i r NullBranchID Merged < getMDKey i q NullBranchID Merged"
proof -
  have "BigEndian64 r < BigEndian64 q"
    using beValue_order[of "BigEndian64 r" "BigEndian64 q"] BigEndian64_value[of r] BigEndian64_value[of q] assms by simp
  then show ?thesis using assms append_less[of "tlf_bytes i" "tlf_bytes i"]
    by (simp add: getMDKey_def MetadataRevisionUninitialized_def MetadataRevisionInitial_def)
qed

text \<open>The entry of a log under the key of its revision.\<close>

definition logEntryAt :: "mdsState \<Rightarrow> TlfID \<Rightarrow> RootMetadataSigned \<Rightarrow> byte list \<times> byte list" where
  "logEntryAt s i m =
     (let k = getMDKey i (rm_Revision (rs_MD m)) NullBranchID Merged in (k, the (map_of (mdEntries s) k)))"

lemma logEntryAt_log:
  assumes "mdLog e s i L" and "logFrom r0 L" and "m \<in> set L"
  shows "rmdsFromBlockBytes e (snd (logEntryAt s i m)) = Inr m" and "logEntryAt s i m \<in> set (mdEntries s)"
proof -
  have log: "successively (\<lambda>h m. follows (sv_md e) (rs_MD h) (rs_MD m)) L" using assms(1) by (simp add: mdLog_def)
  note revs = logFrom_revisions[OF log assms(2)]
  have "holds e (map_of (mdEntries s) (getMDKey i (rm_Revision (rs_MD m)) NullBranchID Merged)) (Some m)"
    using mdLog_at[OF assms(1), of "rm_Revision (rs_MD m)"] revs(2) revs(3)[OF assms(3)] assms(3) by fastforce
  then show "rmdsFromBlockBytes e (snd (logEntryAt s i m)) = Inr m" "logEntryAt s i m \<in> set (mdEntries s)"
    by (auto simp: holds_def logEntryAt_def Let_def option_rel_Some2 dest: map_of_SomeD)
qed

lemma logEntryAt_range:
  assumes "TlfID_ok i" and "dbTyped e s" and "mdLog e s i L" and "logFrom r0 L" and "branchesClear s i start stop"
    and "1 \<le> start" and "start < 2 ^ 63" and "0 \<le> stop" and "stop < 2 ^ 63 - 1"
  shows "set (filter (\<lambda>(k, v). inRange i start stop k) (mdEntries s)) =
    logEntryAt s i ` set (filter (\<lambda>m. start \<le> rm_Revision (rs_MD m) \<and> rm_Revision (rs_MD m) \<le> stop) L)"
    (is "set ?F = _ ` set ?M")
proof
  show "logEntryAt s i ` set ?M \<subseteq> set ?F"
  proof
    fix kv assume "kv \<in> logEntryAt s i ` set ?M"
    then obtain m where m: "m \<in> set L" "start \<le> rm_Revision (rs_MD m)" "rm_Revision (rs_MD m) \<le> stop" "kv = logEntryAt s i m" by auto
    then show "kv \<in> set ?F"
      using merged_inRange[OF assms(1,6) m(2,3) assms(9)] logEntryAt_log(2)[OF assms(3,4) m(1)] by (simp add: logEntryAt_def Let_def)
  qed
  show "set ?F \<subseteq> logEntryAt s i ` set ?M"
  proof
    fix kv assume "kv \<in> set ?F"
    then obtain k v where kv: "kv = (k, v)" "(k, v) \<in> set (mdEntries s)" "inRange i start stop k" by auto
    then have m: "map_of (mdEntries s) k = Some v" using assms(2) by (simp add: dbTyped_def)
    then obtain r where r: "start \<le> r" "r \<le> stop" "k = getMDKey i r NullBranchID Merged"
      using inRange_merged[OF assms(1) _ _ _ assms(5-9) kv(3)] assms(2) kv(2) unfolding dbTyped_def by (metis fst_conv imageI)
    then have "holds e (Some v) (logAt L r)" using mdLog_at[OF assms(3), of r] assms(6,9) m by simp
    then obtain m' where "logAt L r = Some m'" by (auto simp: holds_def option_rel_Some1)
    then have "m' \<in> set L" "rm_Revision (rs_MD m') = r" using assms(6) r(1) by (auto simp: logAt_def find_Some_iff rev_nth)
    then show "kv \<in> logEntryAt s i ` set ?M" using r m kv(1) by (force simp: logEntryAt_def)
  qed
qed

lemma range_sorted:
  assumes "TlfID_ok i" and "dbTyped e s" and "mdLog e s i L" and "logFrom r0 L" and "branchesClear s i start stop"
    and "1 \<le> start" and "start < 2 ^ 63" and "0 \<le> stop" and "stop < 2 ^ 63 - 1"
  shows "decodeBlocks e (sort_key fst (filter (\<lambda>(k, v). inRange i start stop k) (mdEntries s))) =
    Inr (filter (\<lambda>m. start \<le> rm_Revision (rs_MD m) \<and> rm_Revision (rs_MD m) \<le> stop) L)"
    (is "decodeBlocks e (sort_key fst ?F) = Inr ?M")
proof -
  let ?G = "map (logEntryAt s i) ?M"
  have log: "successively (\<lambda>h m. follows (sv_md e) (rs_MD h) (rs_MD m)) L" using assms(3) by (simp add: mdLog_def)
  note revs = logFrom_revisions[OF log assms(4)]
  have "sorted_wrt (\<lambda>m m'. rm_Revision (rs_MD m) < rm_Revision (rs_MD m')) ?M"
    using revs(1) by (simp add: sorted_wrt_map sorted_wrt_filter)
  then have g: "sorted_wrt (<) (map fst ?G)"
    unfolding sorted_wrt_map by (rule sorted_wrt_mono_rel[rotated]) (use revs(2) in \<open>auto simp: logEntryAt_def Let_def intro!: key_less\<close>)
  have f: "distinct (map fst ?F)" using assms(2) by (simp add: dbTyped_def distinct_map_filter)
  have "sort_key fst ?F = ?G"
  proof (rule map_sorted_distinct_set_unique)
    show "set (sort_key fst ?F) = set ?G" using logEntryAt_range[OF assms] by simp
    show "inj_on fst (set (sort_key fst ?F) \<union> set ?G)" using f logEntryAt_range[OF assms] by (simp add: distinct_map)
    show "distinct (map fst (sort_key fst ?F))" using f by (simp add: distinct_map distinct_sort)
    show "sorted (map fst ?G)" "distinct (map fst ?G)" using g strict_sorted_iff by auto
  qed simp
  moreover have "decodeBlocks e ?G = Inr ?M"
    using decodeBlocks_map[of ?M e "\<lambda>m. snd (logEntryAt s i m)" "\<lambda>m. fst (logEntryAt s i m)"] logEntryAt_log(1)[OF assms(3,4)] by simp
  ultimately show ?thesis by simp
qed

lemma GetRange_run:
  assumes "kvReliable (sv_kv e)" and "\<not> ms_shutdown s" and "mdLog e s i L" and "mayRead e L"
    and "decodeBlocks e (sort_key fst (filter (\<lambda>(k, v). getMDKey i start NullBranchID Merged \<le> k \<and>
           k < getMDKey i (wrap64 (stop + 1)) NullBranchID Merged) (mdEntries s))) = Inr ms"
  shows "fst (mds_GetRange e i NullBranchID Merged start stop s) = Inr ms"
proof -
  have "kv_fault (sv_kv e) n = None" for n using assms(1) by (simp add: kvReliable_def)
  then show ?thesis using assms(5) isReader_run[OF assms(1-4)] assms(2)
    by (simp add: mds_GetRange_def unlessShutDown_def readBranch_def dbCall_def dbA_def onA_def handleA_def kvRange_def mdEntries_def)
qed

text \<open>The end of the range is excluded, and one after the last \<open>int64\<close> is not after it: nothing is returned.\<close>

lemma GetRange_overflow:
  assumes "kvReliable (sv_kv e)" and "\<not> ms_shutdown s" and "mdLog e s i L" and "mayRead e L" and "1 \<le> start"
  shows "fst (mds_GetRange e i NullBranchID Merged start (2 ^ 63 - 1) s) = Inr []"
proof -
  have "getMDKey i (wrap64 (2 ^ 63 - 1 + 1)) NullBranchID Merged = tlf_bytes i"
    by (simp add: wrap64_def getMDKey_def MetadataRevisionInitial_def)
  moreover have "\<not> (getMDKey i start NullBranchID Merged \<le> k \<and> k < tlf_bytes i)" for k
  proof -
    have "tlf_bytes i @ [] < tlf_bytes i @ BigEndian64 start"
      unfolding append_less[OF refl] by (simp add: BigEndian64_def)
    then have "tlf_bytes i < getMDKey i start NullBranchID Merged"
      using assms(5) by (simp add: getMDKey_def MetadataRevisionUninitialized_def MetadataRevisionInitial_def)
    then show ?thesis by auto
  qed
  ultimately have "filter (\<lambda>(k, v). getMDKey i start NullBranchID Merged \<le> k \<and>
      k < getMDKey i (wrap64 (2 ^ 63 - 1 + 1)) NullBranchID Merged) (mdEntries s) = []"
    by (intro filter_False) auto
  then show ?thesis by (intro GetRange_run[OF assms(1-4)]) (simp only: sort_key_simps decodeBlocks_def foldr.simps id_apply)
qed

section \<open>Putting\<close>

lemma validRekey_writer:
  assumes "mdCodecs_ok e" and "IsValidRekeyRequest e md prevMd user = Inr True"
  shows "rm_WriterMetadata md = rm_WriterMetadata prevMd \<and> rm_WriterMetadataSigInfo md = rm_WriterMetadataSigInfo prevMd"
proof -
  have c: "codec_ok (me_writer e) id" "codec_ok (me_sig e) id" using assms(1) by (simp_all add: mdCodecs_ok_def)
  show ?thesis using assms(2) by (auto simp: IsValidRekeyRequest_def codec_equal[OF c(1)] codec_equal[OF c(2)] split: if_splits)
qed

definition mayWrite :: "mdsEnv \<Rightarrow> RootMetadataSigned list \<Rightarrow> bool" where
  "mayWrite e L \<longleftrightarrow> (\<exists>n u h. sv_user e = Inr (n, u) \<and> md_MakeBareTlfHandle (rs_MD (last L)) = Inr h \<and> handle_IsWriter h u)"

lemma writeBlock_run:
  assumes "kvReliable (sv_kv e)" and "\<not> ms_shutdown s" and "blockCodec_ok e"
  shows "\<exists>s'. writeBlock e rmds s = (Inr (), s') \<and> \<not> ms_shutdown s'"
proof -
  obtain buf where "co_encode (sv_block e) \<lparr>mb_MD = rmds, mb_Timestamp = sv_now e\<rparr> = Inr buf"
    using assms(3) unfolding blockCodec_ok_def by (meson codec_encode)
  then show ?thesis using assms(2)
    by (simp add: writeBlock_def Let_def dbCall_def dbA_def handleA_def onA_def kv_reliable_run[OF assms(1)])
qed

lemma fire_shutdown: "ms_shutdown (foldl (\<lambda>s (_, c). fire c s) s xs) = ms_shutdown s"
proof (induction xs arbitrary: s)
  case (Cons x xs)
  have "ms_shutdown (fire (snd x) s) = ms_shutdown s" by (simp add: fire_def)
  then show ?case using Cons[of "fire (snd x) s"] by (simp add: split_beta)
qed simp

lemma notify_shutdown: "ms_shutdown (notifyObservers e i s) = ms_shutdown s"
  by (simp add: notifyObservers_def Let_def fire_shutdown)

text \<open>The first metadata of a folder, and a put by a writer of metadata that follows the log, are accepted.\<close>

lemma Put_accepted:
  assumes "kvReliable (sv_kv e)" and "\<not> ms_shutdown s" and "blockCodec_ok e" and "TlfID_ok i" and "rmds_ok rmds" and "mdLog e s i L"
    and "wm_BID (rm_WriterMetadata (rs_MD rmds)) = NullBranchID" and "rm_ID (rs_MD rmds) = i" and "MergedStatus (rs_MD rmds) = Merged"
    and "L \<noteq> [] \<longrightarrow> mayWrite e L \<and> follows (sv_md e) (rs_MD (last L)) (rs_MD rmds)"
  shows "\<exists>s'. mds_Put e rmds s = (Inr (), s') \<and> mdLog e s' i (L @ [stored rmds (sv_now e)]) \<and> \<not> ms_shutdown s'"
proof -
  have ok: "isWriterOrValidRekey e i rmds s = (Inr True, mdTick s)"
    using getHead_run[OF assms(1,2) mdLog_head[OF assms(6)]] assms(10)
    by (auto simp: isWriterOrValidRekey_def checkPerms_def logAt_head mayWrite_def Let_def)
  have "mdLog e (mdTick s) i L" using assms(6) mdLog_entries[of "mdTick s" s] by simp
  then have head: "putHead e rmds (mdTick s) = (Inr (logAt L 0, False), mdTick (mdTick s))"
    using getHead_run[OF assms(1), of "mdTick s"] mdLog_head[of e "mdTick s" i L] assms(2,7-9)
    by (simp add: putHead_def Let_def)
  have "L \<noteq> [] \<Longrightarrow> rm_mdID (rs_MD (last L)) = zeroMdID" using assms(6) by (simp add: mdLog_def logEntry_ok_def)
  then have f: "(case logAt L 0 of None \<Rightarrow> retA () | Some h \<Rightarrow> checkFollows e (rs_MD h) (rs_MD rmds)) (mdTick (mdTick s)) = (Inr (), mdTick (mdTick s))"
    using assms(10) by (simp add: checkFollows_Inr logAt_head)
  obtain s1 where w: "writeBlock e rmds (mdTick (mdTick s)) = (Inr (), s1)" "\<not> ms_shutdown s1" using writeBlock_run[OF assms(1) _ assms(3), of "mdTick (mdTick s)"] assms(2) by auto
  then have "fst (mds_Put e rmds s) = Inr ()" "\<not> ms_shutdown (snd (mds_Put e rmds s))"
    using ok head f assms(2,7-9) notify_shutdown[of e i s1] by (simp_all add: mds_Put_def Let_def unlessShutDown_def)
  then obtain s' where put: "mds_Put e rmds s = (Inr (), s')" "\<not> ms_shutdown s'" by (metis prod.collapse)
  then have "\<not> unchanged s (Inr () :: (mds_error, unit) result) s'" by (simp add: unchanged_def)
  from Put_log[OF assms(3-6) put(1) this] put assms(8,9) show ?thesis by simp
qed

text \<open>What is filled in when metadata is made ready for the server: the encrypted private part, the names and the signature.\<close>

definition sealed :: "RootMetadata \<Rightarrow> RootMetadata \<Rightarrow> bool" where
  "sealed md md' \<longleftrightarrow> (\<exists>buf w u sig. md' = (updWriter (\<lambda>wm. wm\<lparr>wm_SerializedPrivateMetadata := Some buf, wm_LastModifyingWriter := w\<rparr>) md)
     \<lparr>rm_LastModifyingUser := u, rm_WriterMetadataSigInfo := sig\<rparr>)"

lemma withoutUsage_eq:
  assumes "withoutUsage md = withoutUsage md'"
  shows "rm_Revision md = rm_Revision md'" "rm_PrevRoot md = rm_PrevRoot md'" "rm_Flags md = rm_Flags md'" "rm_ID md = rm_ID md'"
    "wm_BID (rm_WriterMetadata md) = wm_BID (rm_WriterMetadata md')" "wm_WFlags (rm_WriterMetadata md) = wm_WFlags (rm_WriterMetadata md')"
proof -
  have "\<And>f. f (withoutUsage md) = f (withoutUsage md')" using assms by simp
  from this[of rm_Revision] this[of rm_PrevRoot] this[of rm_Flags] this[of rm_ID] this[of "\<lambda>x. wm_BID (rm_WriterMetadata x)"]
    this[of "\<lambda>x. wm_WFlags (rm_WriterMetadata x)"]
  show "rm_Revision md = rm_Revision md'" "rm_PrevRoot md = rm_PrevRoot md'" "rm_Flags md = rm_Flags md'" "rm_ID md = rm_ID md'"
    "wm_BID (rm_WriterMetadata md) = wm_BID (rm_WriterMetadata md')" "wm_WFlags (rm_WriterMetadata md) = wm_WFlags (rm_WriterMetadata md')"
    by (simp_all add: withoutUsage_def)
qed

lemma copied_cleared: "(f AND NOT MetadataFlagWriterMetadataCopied) AND MetadataFlagWriterMetadataCopied = 0"
  by (simp add: and.assoc)

lemma successor_follows:
  assumes "IsReadable md" and "MakeMdID e md = Inr p" and "1 \<le> rm_Revision md" and "rm_Revision md < 2 ^ 63 - 1"
    and "doChanges e cs (successorOf md True p) = (r, new)" and "sealed new md'" and "codec_ok (me_md e) md_exported"
  shows "follows e (md_exported md) md'" and "rm_ID md' = rm_ID md" and "MergedStatus md' = MergedStatus md"
    and "wm_BID (rm_WriterMetadata md') = wm_BID (rm_WriterMetadata md)" and "rm_Revision md' = rm_Revision md + 1"
proof -
  let ?s = "successorOf md True p"
  note s = successorOf_def clearLastRevision_def ClearBlockChanges_def Let_def
  have "usageFrom (wm_DiskUsage (rm_WriterMetadata md)) (rm_WriterMetadata ?s)" using assms(1) by (simp add: s usageFrom_def)
  then have u: "usageFrom (wm_DiskUsage (rm_WriterMetadata md)) (rm_WriterMetadata new)" and w: "withoutUsage new = withoutUsage ?s"
    using doChanges_usage[of _ ?s e cs] assms(5) by simp_all
  note q = withoutUsage_eq[OF w]
  have id: "MakeMdID e (md_exported md) = Inr p" using MakeMdID_exported[OF assms(7)] assms(2) by simp
  have r: "wrap64 (rm_Revision md + 1) = rm_Revision md + 1" using assms(3,4) by (simp add: in64_def)
  have "\<not> IsWriterMetadataCopiedSet md'" using q(3) assms(1,6) by (auto simp: sealed_def IsWriterMetadataCopiedSet_def s copied_cleared)
  then show "follows e (md_exported md) md'" using q(1,2) u id r assms(1,6) by (auto simp: follows_def sealed_def usageFrom_def s)
  show "rm_ID md' = rm_ID md" "MergedStatus md' = MergedStatus md" "wm_BID (rm_WriterMetadata md') = wm_BID (rm_WriterMetadata md)"
    "rm_Revision md' = rm_Revision md + 1"
    using q assms(1,6) by (auto simp: sealed_def MergedStatus_def s)
qed

end
