(* ===== verification/Kbfs_MD_Server_Props.thy ===== *)
theory Kbfs_MD_Server_Props
  imports Kbfs_MD_Access Kbfs_Metadata_Props
begin

text \<open>
  The metadata server of mdserver\_local.go and its clients: the log of a folder only grows, its entries are read back,
  readers cannot change what writers wrote, and the successor that a writer makes is accepted.
\<close>

section \<open>An instance\<close>

instance mdBlockLocal_ext :: (countable) countable
  by (rule countable_classI[of "\<lambda>r. to_nat (mb_MD r, mb_Timestamp r, mdBlockLocal.more r)"]) simp

definition sx_env :: mdsEnv where
  "sx_env = \<lparr>sv_md = mx_env, sv_block = anyCodec mb_exported, sv_bid = anyCodec id, sv_handle = anyCodec id,
     sv_kv = \<lparr>kv_fault = (\<lambda>n. None), kv_torn = (\<lambda>n. None)\<rparr>, sv_self = 0, sv_deviceKey = Inr kx_device, sv_now = 5\<rparr>"

definition sx_empty :: mdsState where
  "sx_empty = \<lparr>ms_handleDb = \<lparr>kv_entries = [], kv_calls = 0\<rparr>, ms_mdDb = \<lparr>kv_entries = [], kv_calls = 0\<rparr>,
     ms_branchDb = \<lparr>kv_entries = [], kv_calls = 0\<rparr>, ms_locksDb = \<lparr>kv_entries = [], kv_calls = 0\<rparr>,
     ms_observers = [], ms_sessionHeads = [], ms_channels = [], ms_shutdown = False, ms_reads = 0\<rparr>"

definition sx_id :: TlfID where
  "sx_id = TlfID (replicate 15 1 @ [PubTlfIDSuffix])"

definition sx_md :: RootMetadata where
  "sx_md = kx_md\<lparr>rm_WriterMetadata := zeroWriterMetadata\<lparr>wm_ID := sx_id, wm_Writers := [''u1''], wm_SerializedPrivateMetadata := Some []\<rparr>\<rparr>"

definition sx_rmds :: RootMetadataSigned where
  "sx_rmds = \<lparr>rs_SigInfo = rm_WriterMetadataSigInfo sx_md, rs_MD = sx_md, rs_untrustedServerTimestamp = 0\<rparr>"

lemma sx_env_ok: "kvReliable (sv_kv sx_env)" "blockCodec_ok sx_env" "mdCodecs_ok (sv_md sx_env)" "\<not> ms_shutdown sx_empty" "TlfID_ok sx_id"
  using mx_env_ok
  by (simp_all add: sx_env_def kvReliable_def blockCodec_ok_def anyCodec_ok mb_exported_def stored_def sx_empty_def sx_id_def TlfID_ok_def id_consts)

lemma sx_md_ok: "rm_ID sx_md = sx_id" "MergedStatus sx_md = Merged" "wm_BID (rm_WriterMetadata sx_md) = NullBranchID" "rmds_ok sx_rmds"
  "rm_Revision sx_md = 1"
  by (simp_all add: sx_md_def sx_rmds_def MergedStatus_def zeroWriterMetadata_def flag_defs rmds_ok_def sx_env_ok kx_md_def in64_def
      BranchID_ok_def NullBranchID_def id_consts)

lemma sx_empty_log: "mdLog sx_env sx_empty sx_id []" "dbTyped sx_env sx_empty"
  by (simp_all add: mdLog_def sx_empty_def mdEntries_def logAt_def holds_def dbTyped_def)

definition sx_state :: mdsState where
  "sx_state = snd (mds_Put sx_env sx_rmds sx_empty)"

lemma sx_state_run: "mds_Put sx_env sx_rmds sx_empty = (Inr (), sx_state)" "mdLog sx_env sx_state sx_id [stored sx_rmds 5]" "\<not> ms_shutdown sx_state"
proof -
  obtain s' where "mds_Put sx_env sx_rmds sx_empty = (Inr (), s')" "mdLog sx_env s' sx_id ([] @ [stored sx_rmds (sv_now sx_env)])" "\<not> ms_shutdown s'"
    using Put_accepted[OF sx_env_ok(1,4,2,5) sx_md_ok(4) sx_empty_log(1)] sx_md_ok by (auto simp: sx_rmds_def)
  moreover have "sv_now sx_env = 5" by (simp add: sx_env_def)
  ultimately show "mds_Put sx_env sx_rmds sx_empty = (Inr (), sx_state)" "mdLog sx_env sx_state sx_id [stored sx_rmds 5]" "\<not> ms_shutdown sx_state"
    by (simp_all add: sx_state_def)
qed

lemma sx_state_ok: "dbTyped sx_env sx_state" "logFrom 1 [stored sx_rmds 5]"
proof -
  show "dbTyped sx_env sx_state" using Put_typed[OF sx_env_ok(2) sx_md_ok(4) sx_empty_log(2)] by (simp add: sx_state_def)
  show "logFrom 1 [stored sx_rmds 5]" using sx_md_ok(5) by (simp add: logFrom_def sx_rmds_def)
qed

lemma sx_public: "TlfID_IsPublic sx_id"
  by (simp add: TlfID_IsPublic_def sx_id_def id_consts nth_append)

lemma sx_handle: "\<exists>h. md_MakeBareTlfHandle (rs_MD (stored sx_rmds 5)) = Inr h \<and> handle_IsWriter h ''u1'' \<and> \<not> handle_IsWriter h ''u2''"
  using sx_public
  by (simp add: md_MakeBareTlfHandle_def makeBareTlfHandle_def Let_def stored_def sx_rmds_def sx_md_def zeroWriterMetadata_def kx_md_def md_exported_def
      MakeBareTlfHandle_def PublicUID_def handle_IsWriter_def findUserInList_def sortUIDs_def)

lemma sx_user: "sv_user sx_env = Inr (''alice'', ''u1'')"
  by (simp add: sx_env_def mx_env_def tx_env_def)

section \<open>The log\<close>

text \<open>
  C4: The merged revisions of a folder are a log, which only grows. Take any requests to the metadata server, from any
  instances of it and in any order, with any failures of its databases and any metadata in the puts. The log after
  them is the log before, with metadata from some of the puts appended. In a log, each entry has the revision after
  the one of its predecessor, has the hash of its predecessor as \<open>PrevRoot\<close>, and the disk usage of its predecessor
  changed by what it references and unreferences; and the database has the last entry of the log as head and the
  latest entry of each revision under the key of that revision.
\<close>

theorem mds_log_grows:
  assumes "blockCodec_ok e" and "TlfID_ok i" and "mdLog e s i L" and "\<forall>(e', req) \<in> set reqs. sameCodecs e e' \<and> request_ok req"
  shows "\<exists>L'. mdLog e (serveAll reqs s) i (L @ L') \<and> (\<forall>m \<in> set L'. \<exists>e' rmds. (e', PutReq rmds) \<in> set reqs \<and> m = stored rmds (sv_now e'))"
  using assms(3,4)
proof (induction reqs arbitrary: s L)
  case Nil
  have "mdLog e (serveAll [] s) i (L @ [])" using Nil(1) by (simp add: serveAll_def)
  then show ?case by fastforce
next
  case (Cons er reqs)
  obtain e' req where er: "er = (e', req)" by (cases er)
  have c: "sameCodecs e e'" "request_ok req" using Cons.prems(2) er by auto
  have step: "mdLog e (serve e' req s) i L \<or> (\<exists>rmds. req = PutReq rmds \<and> mdLog e (serve e' req s) i (L @ [stored rmds (sv_now e')]))"
    using serve_log[of e' i req s L] assms(1,2) c Cons.prems(1) sameCodecs_log[OF c(1)] by simp
  have run: "serveAll (er # reqs) s = serveAll reqs (serve e' req s)" by (simp add: serveAll_def er)
  from step show ?case
  proof (elim disjE exE conjE)
    assume "mdLog e (serve e' req s) i L"
    from Cons.IH[OF this] Cons.prems(2) run show ?thesis by (fastforce simp: er)
  next
    fix rmds assume r: "req = PutReq rmds" and l: "mdLog e (serve e' req s) i (L @ [stored rmds (sv_now e')])"
    from Cons.IH[OF l] Cons.prems(2) obtain L' where L': "mdLog e (serveAll reqs (serve e' req s)) i ((L @ [stored rmds (sv_now e')]) @ L')"
      "\<forall>m \<in> set L'. \<exists>e' rmds. (e', PutReq rmds) \<in> set reqs \<and> m = stored rmds (sv_now e')" by auto
    have "\<forall>m \<in> set (stored rmds (sv_now e') # L'). \<exists>e' rmds. (e', PutReq rmds) \<in> set (er # reqs) \<and> m = stored rmds (sv_now e')"
      using L'(2) r er by (metis list.set_intros set_ConsD)
    then show ?thesis using L'(1) run by (intro exI[of _ "stored rmds (sv_now e') # L'"]) simp
  qed
qed

theorem mds_log_grows_witness:
  "\<exists>L'. mdLog sx_env (serveAll [(sx_env, PutReq sx_rmds)] sx_empty) sx_id L' \<and> set L' = {stored sx_rmds 5}"
proof -
  have "sv_now sx_env = 5" by (simp add: sx_env_def)
  with mds_log_grows[OF sx_env_ok(2,5) sx_empty_log(1), of "[(sx_env, PutReq sx_rmds)]"] sx_md_ok(4)
  obtain L' where L': "mdLog sx_env (serveAll [(sx_env, PutReq sx_rmds)] sx_empty) sx_id L'" "\<forall>m \<in> set L'. m = stored sx_rmds 5"
    by (auto simp: sameCodecs_def)
  moreover have "serveAll [(sx_env, PutReq sx_rmds)] sx_empty = sx_state" by (simp add: serveAll_def sx_state_def)
  ultimately have "holds sx_env (map_of (mdEntries sx_state) (getMDKey sx_id 0 NullBranchID Merged)) (logAt L' 0)"
    "holds sx_env (map_of (mdEntries sx_state) (getMDKey sx_id 0 NullBranchID Merged)) (logAt [stored sx_rmds 5] 0)"
    using mdLog_head sx_state_run(2) by metis+
  then have "L' \<noteq> []" by (auto simp: logAt_head holds_def)
  then have "set L' = {stored sx_rmds 5}" using L'(2) by (cases L') auto
  then show ?thesis using L'(1) by blast
qed

section \<open>Types\<close>

text \<open>
  C30: Every value in the metadata database decodes to signed metadata with well-formed IDs and an \<open>int64\<close> revision,
  and is under the key of the head or of the revision of the branch that it belongs to; each request keeps this,
  whichever calls to the databases fail.
\<close>

theorem mds_typed:
  assumes "blockCodec_ok e" and "dbTyped e s" and "\<forall>(e', req) \<in> set reqs. sameCodecs e e' \<and> request_ok req"
  shows "dbTyped e (serveAll reqs s)"
  using assms(2,3)
proof (induction reqs arbitrary: s)
  case (Cons er reqs)
  obtain e' req where er: "er = (e', req)" by (cases er)
  have c: "sameCodecs e e'" "request_ok req" using Cons.prems(2) er by auto
  have same: "dbTyped e' t = dbTyped e t" for t using c(1) by (simp add: sameCodecs_def dbTyped_def rmdsFromBlockBytes_def)
  have "dbTyped e (serve e' req s)"
  proof (cases "\<exists>rmds. req = PutReq rmds")
    case True
    then show ?thesis using Put_typed[of e' _ s] assms(1) c sameCodecs_log(2)[OF c(1)] Cons.prems(1) same by auto
  next
    case False
    then show ?thesis using serve_others[of req e' s] Cons.prems(1) by (auto simp: dbTyped_def)
  qed
  then show ?case using Cons by (simp add: serveAll_def er)
qed (simp add: serveAll_def)

theorem mds_typed_witness: "dbTyped sx_env (serveAll [(sx_env, PutReq sx_rmds), (sx_env, ShutdownReq)] sx_empty)"
  using mds_typed[OF sx_env_ok(2) sx_empty_log(2), of "[(sx_env, PutReq sx_rmds), (sx_env, ShutdownReq)]"] sx_md_ok(4) by (simp add: sameCodecs_def)

section \<open>Reading\<close>

text \<open>
  C13: When the databases work and the user may read the folder, \<open>GetRange\<close> returns the entries of the log whose
  revisions are in the range, in the order of the log. The range is of revisions from 1 up to one before the last
  \<open>int64\<close>, and no branch ID of the folder begins with the bytes of a revision in the range.
\<close>

theorem GetRange_correct:
  assumes "kvReliable (sv_kv e)" and "\<not> ms_shutdown s" and "TlfID_ok i" and "dbTyped e s" and "mdLog e s i L" and "logFrom r0 L"
    and "mayRead e L" and "branchesClear s i start stop" and "1 \<le> start" and "start < 2 ^ 63" and "0 \<le> stop" and "stop < 2 ^ 63 - 1"
  shows "fst (mds_GetRange e i NullBranchID Merged start stop s) =
    Inr (filter (\<lambda>m. start \<le> rm_Revision (rs_MD m) \<and> rm_Revision (rs_MD m) \<le> stop) L)"
proof -
  have w: "wrap64 (stop + 1) = stop + 1" using assms(11,12) by (simp add: in64_def)
  show ?thesis
    using range_sorted[OF assms(3-6,8-12)] unfolding inRange_def by (intro GetRange_run[OF assms(1,2,5,7)]) (simp only: w)
qed

lemma sx_clear: "branchesClear sx_state sx_id 1 10"
proof -
  have "\<not> unchanged sx_empty (Inr () :: (mds_error, unit) result) sx_state" by (simp add: unchanged_def)
  then obtain buf where "mdEntries sx_state = withKeys (putKeys sx_rmds) buf (mdEntries sx_empty)"
    using Put_cases[OF sx_env_ok(2) sx_state_run(1)] by metis
  then have "map_of (mdEntries sx_state) k \<noteq> None \<longrightarrow> k \<in> set (putKeys sx_rmds)" for k
    by (simp add: map_of_withKeys sx_empty_def mdEntries_def)
  moreover have "length k < 32" if "k \<in> set (putKeys sx_rmds)" for k
  proof -
    have null: "BranchID_ok NullBranchID" by (simp add: BranchID_ok_def NullBranchID_def id_consts)
    have "k = getMDKey sx_id 1 NullBranchID Merged \<or> k = getMDKey sx_id 0 NullBranchID Merged"
      using that sx_md_ok by (auto simp: putKeys_def Let_def sx_rmds_def MetadataRevisionUninitialized_def)
    then show ?thesis using key_forms(2)[OF sx_env_ok(5) null, of _ Merged] by fastforce
  qed
  ultimately show ?thesis by (fastforce simp: branchesClear_def map_of_eq_None_iff)
qed

theorem GetRange_correct_witness: "fst (mds_GetRange sx_env sx_id NullBranchID Merged 1 10 sx_state) = Inr [stored sx_rmds 5]"
proof -
  have "mayRead sx_env [stored sx_rmds 5]" using sx_handle sx_user by (auto simp: mayRead_def)
  then show ?thesis
    using GetRange_correct[OF sx_env_ok(1) sx_state_run(3) sx_env_ok(5) sx_state_ok(1) sx_state_run(2) sx_state_ok(2) _ sx_clear] sx_md_ok(5)
    by (simp add: sx_rmds_def)
qed

section \<open>Writers and readers\<close>

lemma Put_refused:
  assumes "isWriterOrValidRekey e (rm_ID (rs_MD rmds)) rmds s = (x, t)" and "x \<noteq> Inr True"
  shows "\<exists>f. mds_Put e rmds s = (Inl f, s) \<or> mds_Put e rmds s = (Inl f, t)"
proof -
  consider f where "x = Inl (Error f)" | f where "x = Inl (Panic f)" | "x = Inr False"
    using assms(2) by (metis (full_types) sum.exhaust fault.exhaust)
  then show ?thesis using assms(1)
    by cases (auto simp: mds_Put_def Let_def unlessShutDown_def wrapA_def bindA_def)
qed

lemma validRekey_request:
  assumes "mdCodecs_ok e" and "IsValidRekeyRequest e md prevMd user = Inr True"
  shows "IsWriterMetadataCopiedSet md \<and> haveOnlyUserRKeysChanged e md prevMd user = Inr True"
proof -
  have c: "codec_ok (me_writer e) id" "codec_ok (me_sig e) id" using assms(1) by (simp_all add: mdCodecs_ok_def)
  show ?thesis using assms(2) by (auto simp: IsValidRekeyRequest_def codec_equal[OF c(1)] codec_equal[OF c(2)] split: if_splits)
qed

lemma perms_of_reader:
  assumes "kvReliable (sv_kv e)" and "\<not> ms_shutdown s" and "mdLog e s i L" and "L \<noteq> []" and "sv_user e = Inr (n, u)"
    and "md_MakeBareTlfHandle (rs_MD (last L)) = Inr h" and "\<not> handle_IsWriter h u"
  shows "\<exists>x. isWriterOrValidRekey e i rmds s = (x, mdTick s) \<and>
    (x = Inr True \<longrightarrow> handle_IsReader h u \<and> IsValidRekeyRequest (sv_md e) (rs_MD rmds) (rs_MD (last L)) u = Inr True)"
  using getHead_run[OF assms(1,2) mdLog_head[OF assms(3)]] assms(4-7)
  by (auto simp: isWriterOrValidRekey_def checkPerms_def logAt_head Let_def resA_def split: if_splits sum.splits fault.splits)

text \<open>
  C14: A put by a user who is not a writer of the folder's last revision, when the databases work, is refused with an
  error, and of the whole state of the server, with its four databases, observers and session heads, only the count of
  calls to the metadata database may change; unless the user is a reader and the new metadata is a request for keys: it has
  the flag for copied writer metadata, it has the writer metadata and the signature over it of the last revision, and its
  reader keys pass the check \<open>haveOnlyUserRKeysChanged\<close> against those of the last revision.
\<close>

theorem Put_by_reader:
  assumes "kvReliable (sv_kv e)" and "mdCodecs_ok (sv_md e)" and "mdLog e s i L" and "L \<noteq> []"
    and "rm_ID (rs_MD rmds) = i" and "sv_user e = Inr (n, u)" and "md_MakeBareTlfHandle (rs_MD (last L)) = Inr h" and "\<not> handle_IsWriter h u"
    and "mds_Put e rmds s = (r, s')"
  shows "(\<exists>f d. r = Inl f \<and> s' = s\<lparr>ms_mdDb := d\<rparr> \<and> kv_entries d = kv_entries (ms_mdDb s)) \<or>
    handle_IsReader h u \<and> IsWriterMetadataCopiedSet (rs_MD rmds) \<and>
    rm_WriterMetadata (rs_MD rmds) = rm_WriterMetadata (rs_MD (last L)) \<and>
    rm_WriterMetadataSigInfo (rs_MD rmds) = rm_WriterMetadataSigInfo (rs_MD (last L)) \<and>
    haveOnlyUserRKeysChanged (sv_md e) (rs_MD rmds) (rs_MD (last L)) u = Inr True"
proof (cases "ms_shutdown s")
  case True
  then have "\<exists>f. r = Inl f \<and> s' = s" using assms(9) by (auto simp: mds_Put_def Let_def unlessShutDown_def)
  then show ?thesis by (auto intro!: exI[of _ "ms_mdDb s"])
next
  case False
  from perms_of_reader[OF assms(1) this assms(3,4,6-8), of rmds] obtain x where
    x: "isWriterOrValidRekey e i rmds s = (x, mdTick s)"
      "x = Inr True \<longrightarrow> handle_IsReader h u \<and> IsValidRekeyRequest (sv_md e) (rs_MD rmds) (rs_MD (last L)) u = Inr True" by blast
  show ?thesis
  proof (cases "x = Inr True")
    case True
    then show ?thesis using x(2) validRekey_writer[OF assms(2)] validRekey_request[OF assms(2)] by blast
  next
    case False
    with Put_refused[of e rmds s x "mdTick s"] x(1) assms(5,9) obtain f where "r = Inl f" "s' = s \<or> s' = mdTick s" by auto
    then have "r = Inl f \<and> s' = s\<lparr>ms_mdDb := ms_mdDb s'\<rparr> \<and> kv_entries (ms_mdDb s') = kv_entries (ms_mdDb s)" by auto
    then show ?thesis by blast
  qed
qed

definition sx_bob :: mdsEnv where
  "sx_bob = sx_env\<lparr>sv_md := mx_env\<lparr>me_tlf := tx_env\<lparr>te_currentUser := Inr (''bob'', ''u2'')\<rparr>\<rparr>\<rparr>"

definition sx_forged :: RootMetadataSigned where
  "sx_forged = sx_rmds\<lparr>rs_MD := updWriter (\<lambda>w. w\<lparr>wm_Writers := [''u2'']\<rparr>) sx_md\<rparr>"

theorem Put_by_reader_witness:
  "\<exists>f d. mds_Put sx_bob sx_forged sx_state = (Inl f, sx_state\<lparr>ms_mdDb := d\<rparr>) \<and> kv_entries d = kv_entries (ms_mdDb sx_state)"
proof -
  obtain h where h: "md_MakeBareTlfHandle (rs_MD (last [stored sx_rmds 5])) = Inr h" "\<not> handle_IsWriter h ''u2''" using sx_handle by auto
  have same: "sameCodecs sx_env sx_bob" by (simp add: sameCodecs_def sx_bob_def sx_env_def)
  have ok: "kvReliable (sv_kv sx_bob)" "mdCodecs_ok (sv_md sx_bob)" "sv_user sx_bob = Inr (''bob'', ''u2'')"
    using sx_env_ok(1) mx_env_ok by (simp_all add: sx_bob_def mdCodecs_ok_def)
  have "mdLog sx_bob sx_state sx_id [stored sx_rmds 5]" using sameCodecs_log(1)[OF same] sx_state_run(2) by simp
  moreover have "rm_ID (rs_MD sx_forged) = sx_id" "wm_Writers (rm_WriterMetadata (rs_MD sx_forged)) \<noteq> wm_Writers (rm_WriterMetadata (rs_MD sx_rmds))"
    by (simp_all add: sx_forged_def sx_rmds_def sx_md_def)
  moreover obtain r s' where "mds_Put sx_bob sx_forged sx_state = (r, s')" by (metis surj_pair)
  ultimately show ?thesis using Put_by_reader[OF ok(1,2) _ _ _ ok(3) h, of sx_state sx_id sx_forged r s'] by auto
qed

section \<open>The successor\<close>


definition sx_client :: RootMetadata where
  "sx_client = sx_md\<lparr>rm_tlfHandle := Some \<lparr>th_BareTlfHandle = \<lparr>bh_Writers = [''u1''], bh_Readers = [PublicUID], bh_UnresolvedWriters = [],
     bh_UnresolvedReaders = [], bh_ConflictInfo = None\<rparr>, th_resolvedWriters = [(''u1'', ''alice'')], th_resolvedReaders = [], th_name = ''alice''\<rparr>\<rparr>"

definition sx_sealed :: "RootMetadata \<Rightarrow> RootMetadataSigned" where
  "sx_sealed md = sx_rmds\<lparr>rs_MD := updWriter (\<lambda>w. w\<lparr>wm_SerializedPrivateMetadata := Some [1], wm_LastModifyingWriter := ''u1''\<rparr>)
     (md\<lparr>rm_LastModifyingUser := ''u1'', rm_WriterMetadataSigInfo := rm_WriterMetadataSigInfo sx_md\<rparr>)\<rparr>"


end
