(* ===== verification/Kbfs_Key_Manager.thy ===== *)
theory Kbfs_Key_Manager
  imports Kbfs_MD_Server Kbfs_Lru
begin

text \<open>
  key\_server\_local.go, key\_ops.go, keycache.go, key\_manager.go and identify\_util.go, with \<open>decryptMDPrivateData\<close>
  of md\_util.go: where the halves of keys are kept, how a device gets the key of a folder, and rekeying.
\<close>

section \<open>State and environment\<close>

text \<open>
  The key server's database, the cache of keys, and the number of reads of the random source. The Keybase service
  (\<open>ke_cryptKeys\<close>, \<open>ke_currentKey\<close>, \<open>ke_identify\<close>) is a parameter; \<open>ke_arrive\<close> is the order in which concurrent
  answers come in, and \<open>ke_device\<close> has the keys of the device.
\<close>

record keyState =
  ks_db :: db
  ks_shutdown :: bool
  ks_cache :: "(TlfID \<times> int, TLFCryptKey) LRU"
  ks_reads :: nat

record keyEnv =
  ke_mds :: mdsEnv
  ke_half :: "TLFCryptKeyServerHalf codecOf"
  ke_encrypted :: "encryptedData codecOf"
  ke_kv :: "byte list kvEnv"
  ke_cryptKeys :: "UID \<Rightarrow> string + CryptPublicKey list"
  ke_currentKey :: "string + CryptPublicKey"
  ke_device :: CryptoLocal
  ke_identify :: "string \<Rightarrow> string \<Rightarrow> tlf_error + (string \<times> UID)"
  ke_arrive :: "UID list \<Rightarrow> UID list"

abbreviation ke_md :: "keyEnv \<Rightarrow> mdEnv" where "ke_md e \<equiv> sv_md (ke_mds e)"
abbreviation ke_crypto :: "keyEnv \<Rightarrow> cryptoEnv" where "ke_crypto e \<equiv> me_crypto (ke_md e)"
abbreviation ke_tlf :: "keyEnv \<Rightarrow> tlfEnv" where "ke_tlf e \<equiv> me_tlf (ke_md e)"

datatype key_error =
    KeyServerShutDown
  | KeyUnauthorized
  | KeyDbError kv_error
  | KeyCodecError string
  | KeyUserError tlf_error
  | KeyHashError hash_error
  | KeyCryptoError crypto_error
  | KeyMdError md_error
  | KeyMdsError mds_error
  | KeyPkiError string
  | KeyGenMismatch
  | PaperForPublic
  | NoSuchTlfHandleError TlfID
  | TlfHandleConflictInfoMismatchError "ConflictInfo option" "ConflictInfo option"
  | RekeyIncompleteError
  | IdentifyMismatch
  | NilMapWrite
  | KeyIndexOutOfRange

type_synonym 'a keys = "(keyState, key_error, 'a) act"

section \<open>The key server\<close>

definition HMAC_Bytes :: "HMAC \<Rightarrow> byte list" where
  "HMAC_Bytes m = hash_h (hmac_h m)"

definition keyDb :: "(db, kv_error, 'a) act \<Rightarrow> 'a keys" where
  "keyDb m =
     handleA (\<lambda>s. if ks_shutdown s then (Inl (Error (IOError ''closed'')), s) else onA ks_db (\<lambda>d s. s\<lparr>ks_db := d\<rparr>) m s)
       (\<lambda>er. failA (Error (KeyDbError er))) retA"

definition unlessKeyServerDown :: "'a keys \<Rightarrow> 'a keys" where
  "unlessKeyServerDown m = bindA (readA ks_shutdown) (\<lambda>down. if down then failA (Error KeyServerShutDown) else m)"

text \<open>The error for a server that was shut down is overwritten here; the closed database gives one.\<close>

definition server_GetTLFCryptKeyServerHalf :: "keyEnv \<Rightarrow> TLFCryptKeyServerHalfID \<Rightarrow> CryptPublicKey \<Rightarrow> TLFCryptKeyServerHalf keys" where
  "server_GetTLFCryptKeyServerHalf e serverHalfID key =
     bindA (keyDb (kvGet (ke_kv e) (HMAC_Bytes (shid_ID serverHalfID)))) (\<lambda>buf.
     bindA (sumA KeyCodecError (co_decode (ke_half e) buf)) (\<lambda>serverHalf.
     bindA (sumA KeyUserError (te_currentUser (ke_tlf e))) (\<lambda>(_, uid).
       case VerifyTLFCryptKeyServerHalfID serverHalfID uid (kc_kid key) serverHalf of
         Some _ \<Rightarrow> failA (Error KeyUnauthorized)
       | None \<Rightarrow> retA serverHalf)))"

definition halfWrite :: "keyEnv \<Rightarrow> UID \<Rightarrow> KID \<times> TLFCryptKeyServerHalf \<Rightarrow> (byte list \<times> byte list) keys" where
  "halfWrite e uid kh =
     bindA (sumA KeyCodecError (co_encode (ke_half e) (snd kh))) (\<lambda>buf.
     bindA (sumA KeyHashError (GetTLFCryptKeyServerHalfID uid (fst kh) (snd kh))) (\<lambda>i.
       retA (HMAC_Bytes (shid_ID i), buf)))"

definition server_PutTLFCryptKeyServerHalves :: "keyEnv \<Rightarrow> serverKeyMap \<Rightarrow> unit keys" where
  "server_PutTLFCryptKeyServerHalves e serverKeyHalves =
     unlessKeyServerDown (
       bindA (foldA (\<lambda>batch (uid, deviceMap). foldA (\<lambda>batch kh. bindA (halfWrite e uid kh) (\<lambda>w. retA (batch @ [w]))) batch deviceMap)
                [] serverKeyHalves) (\<lambda>batch.
         keyDb (kvWrite (ke_kv e) batch)))"

definition server_DeleteTLFCryptKeyServerHalf :: "keyEnv \<Rightarrow> TLFCryptKeyServerHalfID \<Rightarrow> unit keys" where
  "server_DeleteTLFCryptKeyServerHalf e serverHalfID =
     unlessKeyServerDown (keyDb (kvDelete (ke_kv e) (HMAC_Bytes (shid_ID serverHalfID))))"

definition keyServer_Shutdown :: "keyState \<Rightarrow> keyState" where
  "keyServer_Shutdown s = s\<lparr>ks_shutdown := True\<rparr>"

section \<open>Key operations and the key cache\<close>

definition GetTLFCryptKeyServerHalf :: "keyEnv \<Rightarrow> TLFCryptKeyServerHalfID \<Rightarrow> CryptPublicKey \<Rightarrow> TLFCryptKeyServerHalf keys" where
  "GetTLFCryptKeyServerHalf e serverHalfID key =
     bindA (server_GetTLFCryptKeyServerHalf e serverHalfID key) (\<lambda>serverHalf.
     bindA (sumA KeyUserError (te_currentUser (ke_tlf e))) (\<lambda>(_, uid).
       case VerifyTLFCryptKeyServerHalfID serverHalfID uid (kc_kid key) serverHalf of
         Some er \<Rightarrow> failA (Error (KeyHashError er))
       | None \<Rightarrow> retA serverHalf))"

text \<open>\<open>None\<close> is a miss.\<close>

definition kcache_GetTLFCryptKey :: "TlfID \<Rightarrow> int \<Rightarrow> TLFCryptKey option keys" where
  "kcache_GetTLFCryptKey tlf keyGen s = (case lru_Get (ks_cache s) (tlf, keyGen) of (c, r) \<Rightarrow> (Inr r, s\<lparr>ks_cache := c\<rparr>))"

definition kcache_PutTLFCryptKey :: "TlfID \<Rightarrow> int \<Rightarrow> TLFCryptKey \<Rightarrow> unit keys" where
  "kcache_PutTLFCryptKey tlf keyGen key = updA (\<lambda>s. s\<lparr>ks_cache := fst (lru_Add (ks_cache s) (tlf, keyGen) key)\<rparr>)"

section \<open>Getting the key of a folder\<close>

definition PublicTLFCryptKey :: TLFCryptKey where
  "PublicTLFCryptKey = \<lparr>b32_data = replicate 32 0x18\<rparr>"

definition getTLFCryptKeyAnyDevice :: byte where "getTLFCryptKeyAnyDevice = 1"
definition getTLFCryptKeyDoCache :: byte where "getTLFCryptKeyDoCache = 2"
definition getTLFCryptKeyPromptPaper :: byte where "getTLFCryptKeyPromptPaper = 4"

definition faultMap :: "('x \<Rightarrow> 'e) \<Rightarrow> 'x fault \<Rightarrow> 'e fault" where
  "faultMap f x = (case x of Error y \<Rightarrow> Error (f y) | Panic y \<Rightarrow> Panic (f y))"

definition localMakeRekeyReadError :: "keyEnv \<Rightarrow> RootMetadata \<Rightarrow> int \<Rightarrow> UID \<Rightarrow> string \<Rightarrow> key_error fault" where
  "localMakeRekeyReadError e md keyGen uid username =
     (case GetTlfHandle md of
        Inl f \<Rightarrow> faultMap KeyMdError f
      | Inr h \<Rightarrow>
          (case ResolveAgain (ke_tlf e) h of
             Inr resolvedHandle \<Rightarrow> faultMap KeyMdError (makeRekeyReadError md resolvedHandle keyGen uid username)
           | Inl _ \<Rightarrow>
               (case GetCanonicalPath h of
                  Inl f \<Rightarrow> faultMap KeyUserError f
                | Inr _ \<Rightarrow> faultMap KeyMdError (makeRekeyReadError md h keyGen uid username))))"

text \<open>The keys of a user's devices that have an entry: the device key, the entry and the ephemeral key.\<close>

primrec deviceKeys ::
  "RootMetadata \<Rightarrow> int \<Rightarrow> UID \<Rightarrow> CryptPublicKey list \<Rightarrow>
   (key_error, (CryptPublicKey \<times> TLFCryptKeyInfo \<times> TLFEphemeralPublicKey) list) result" where
  "deviceKeys md keyGen uid [] = Inr []"
| "deviceKeys md keyGen uid (k # ks) =
     (case GetTLFCryptKeyInfo md keyGen uid k of
        Inl (Panic f) \<Rightarrow> Inl (Panic (KeyMdError f))
      | Inl (Error _) \<Rightarrow> deviceKeys md keyGen uid ks
      | Inr None \<Rightarrow> deviceKeys md keyGen uid ks
      | Inr (Some info) \<Rightarrow>
          (case GetTLFEphemeralPublicKey md keyGen uid k of
             Inl (Panic f) \<Rightarrow> Inl (Panic (KeyMdError f))
           | Inl (Error _) \<Rightarrow> deviceKeys md keyGen uid ks
           | Inr ePublicKey \<Rightarrow> bindR (deviceKeys md keyGen uid ks) (\<lambda>rest. Inr ((k, info, ePublicKey) # rest))))"

text \<open>The client half, its entry and the key of the device: from any device of the user, or from the current one.\<close>

definition anyDeviceHalf ::
  "keyEnv \<Rightarrow> RootMetadata \<Rightarrow> int \<Rightarrow> UID \<Rightarrow> string \<Rightarrow> (TLFCryptKeyClientHalf \<times> TLFCryptKeyInfo \<times> CryptPublicKey) keys" where
  "anyDeviceHalf e md keyGen uid username =
     bindA (sumA KeyPkiError (ke_cryptKeys e uid)) (\<lambda>publicKeys.
     bindA (resA id (deviceKeys md keyGen uid publicKeys)) (\<lambda>keys.
       if length keys = 0 then failA (localMakeRekeyReadError e md keyGen uid username)
       else case DecryptTLFCryptKeyClientHalfAny (ke_crypto e) (ke_device e)
                   (map (\<lambda>(k, info, ePublicKey). \<lparr>ce_PubKey = k, ce_ClientHalf = ki_ClientHalf info, ce_EPubKey = ePublicKey\<rparr>) keys) of
              Inl _ \<Rightarrow> failA (localMakeRekeyReadError e md keyGen uid username)
            | Inr (clientHalf, index) \<Rightarrow> retA (clientHalf, fst (snd (keys ! index)), fst (keys ! index))))"

definition currentDeviceHalf ::
  "keyEnv \<Rightarrow> RootMetadata \<Rightarrow> int \<Rightarrow> UID \<Rightarrow> string \<Rightarrow> (TLFCryptKeyClientHalf \<times> TLFCryptKeyInfo \<times> CryptPublicKey) keys" where
  "currentDeviceHalf e md keyGen uid username =
     bindA (sumA KeyPkiError (ke_currentKey e)) (\<lambda>cryptPublicKey.
     bindA (resA KeyMdError (GetTLFCryptKeyInfo md keyGen uid cryptPublicKey)) (\<lambda>info.
       case info of
         None \<Rightarrow> failA (localMakeRekeyReadError e md keyGen uid username)
       | Some info \<Rightarrow>
           bindA (resA KeyMdError (GetTLFEphemeralPublicKey md keyGen uid cryptPublicKey)) (\<lambda>ePublicKey.
           bindA (sumA KeyCryptoError (DecryptTLFCryptKeyClientHalf (ke_crypto e) (ke_device e) ePublicKey (ki_ClientHalf info))) (\<lambda>clientHalf.
             retA (clientHalf, info, cryptPublicKey)))))"

definition getTLFCryptKey :: "keyEnv \<Rightarrow> RootMetadata \<Rightarrow> int \<Rightarrow> byte \<Rightarrow> TLFCryptKey keys" where
  "getTLFCryptKey e md keyGen flags =
     (if TlfID_IsPublic (rm_ID md) then retA PublicTLFCryptKey
      else if keyGen < FirstValidKeyGen
      then bindA (resA KeyMdError (GetTlfHandle md)) (\<lambda>h. failA (Error (KeyMdError (InvalidKeyGenerationError h keyGen))))
      else if keyGen > md_LatestKeyGeneration md
      then bindA (resA KeyMdError (GetTlfHandle md)) (\<lambda>h. failA (Error (KeyMdError (NewKeyGenerationError h keyGen))))
      else bindA (kcache_GetTLFCryptKey (rm_ID md) keyGen) (\<lambda>cached.
        case cached of
          Some key \<Rightarrow> retA key
        | None \<Rightarrow>
            bindA (sumA KeyUserError (te_currentUser (ke_tlf e))) (\<lambda>(username, uid).
            bindA (if flags AND getTLFCryptKeyAnyDevice \<noteq> 0 then anyDeviceHalf e md keyGen uid username
                   else currentDeviceHalf e md keyGen uid username) (\<lambda>(clientHalf, info, cryptPublicKey).
            bindA (GetTLFCryptKeyServerHalf e (ki_ServerHalfID info) cryptPublicKey) (\<lambda>serverHalf.
              let tlfCryptKey = UnmaskTLFCryptKey serverHalf clientHalf in
              bindA (if flags AND getTLFCryptKeyDoCache \<noteq> 0 then kcache_PutTLFCryptKey (rm_ID md) keyGen tlfCryptKey else retA ()) (\<lambda>_.
                retA tlfCryptKey))))))"

definition getTLFCryptKeyUsingCurrentDevice :: "keyEnv \<Rightarrow> RootMetadata \<Rightarrow> int \<Rightarrow> bool \<Rightarrow> TLFCryptKey keys" where
  "getTLFCryptKeyUsingCurrentDevice e md keyGen cache = getTLFCryptKey e md keyGen (if cache then getTLFCryptKeyDoCache else 0)"

definition GetTLFCryptKeyForEncryption :: "keyEnv \<Rightarrow> RootMetadata \<Rightarrow> TLFCryptKey keys" where
  "GetTLFCryptKeyForEncryption e md = getTLFCryptKeyUsingCurrentDevice e md (md_LatestKeyGeneration md) False"

definition GetTLFCryptKeyForMDDecryption :: "keyEnv \<Rightarrow> RootMetadata \<Rightarrow> RootMetadata \<Rightarrow> TLFCryptKey keys" where
  "GetTLFCryptKeyForMDDecryption e mdToDecrypt mdWithKeys =
     getTLFCryptKey e mdWithKeys (md_LatestKeyGeneration mdToDecrypt) (getTLFCryptKeyAnyDevice OR getTLFCryptKeyDoCache)"

definition GetTLFCryptKeyForBlockDecryption :: "keyEnv \<Rightarrow> RootMetadata \<Rightarrow> BlockPointer \<Rightarrow> TLFCryptKey keys" where
  "GetTLFCryptKeyForBlockDecryption e md blockPtr = getTLFCryptKeyUsingCurrentDevice e md (bp_KeyGen blockPtr) True"

section \<open>The private part of metadata\<close>

text \<open>Looking at the error of a call; a panic goes through.\<close>

definition catchA :: "('s, 'e, 'a) act \<Rightarrow> ('e \<Rightarrow> ('s, 'e, 'b) act) \<Rightarrow> ('a \<Rightarrow> ('s, 'e, 'b) act) \<Rightarrow> ('s, 'e, 'b) act" where
  "catchA m h k s =
     (case m s of (Inr x, s') \<Rightarrow> k x s' | (Inl (Error er), s') \<Rightarrow> h er s' | (Inl (Panic p), s') \<Rightarrow> (Inl (Panic p), s'))"

text \<open>The private part is zero before it is decoded.\<close>

definition decryptMDPrivateData :: "keyEnv \<Rightarrow> RootMetadata \<Rightarrow> RootMetadata \<Rightarrow> RootMetadata keys" where
  "decryptMDPrivateData e rmdToDecrypt rmdWithKeys =
     bindA (resA KeyMdError (GetTlfHandle rmdToDecrypt)) (\<lambda>handle.
       let serialized = (case wm_SerializedPrivateMetadata (rm_WriterMetadata rmdToDecrypt) of None \<Rightarrow> [] | Some buf \<Rightarrow> buf) in
       if handle_IsPublic (th_BareTlfHandle handle)
       then bindA (sumA KeyCodecError (co_decode (me_private (ke_md e)) serialized)) (\<lambda>data. retA (rmdToDecrypt\<lparr>rm_data := data\<rparr>))
       else bindA (sumA KeyCodecError (co_decode (ke_encrypted e) serialized)) (\<lambda>encryptedPrivateMetadata.
         catchA (GetTLFCryptKeyForMDDecryption e rmdToDecrypt rmdWithKeys)
           (\<lambda>er. bindA (sumA KeyUserError (te_currentUser (ke_tlf e))) (\<lambda>(_, uid).
              if handle_IsReader (th_BareTlfHandle handle) uid \<and>
                 (case er of KeyMdError (NeedSelfRekeyError _) \<Rightarrow> True | KeyMdError (NeedOtherRekeyError _) \<Rightarrow> True | _ \<Rightarrow> False)
              then retA (rmdToDecrypt\<lparr>rm_data := zeroPrivateMetadata\<rparr>)
              else failA (Error er)))
           (\<lambda>k. bindA (sumA KeyCryptoError (DecryptPrivateMetadata (ke_crypto e) (co_decode (me_private (ke_md e))) encryptedPrivateMetadata k)) (\<lambda>data.
              retA (rmdToDecrypt\<lparr>rm_data := data\<rparr>)))))"

section \<open>Identifying users\<close>

definition identifyUID :: "keyEnv \<Rightarrow> UID \<Rightarrow> bool \<Rightarrow> key_error option" where
  "identifyUID e uid isPublic =
     (case te_getNormalizedUsername (ke_tlf e) uid of
        Inl er \<Rightarrow> Some (KeyUserError er)
      | Inr username \<Rightarrow>
          (let reason = ''You accessed a '' @ (if isPublic then ''public'' else ''private'') @ '' folder with '' @ username @ ''.'' in
           case ke_identify e username reason of
             Inl er \<Rightarrow> Some (KeyUserError er)
           | Inr (name, uid') \<Rightarrow> if name \<noteq> username then Some IdentifyMismatch else if uid' \<noteq> uid then Some IdentifyMismatch else None))"

definition identifyUserList :: "keyEnv \<Rightarrow> UID list \<Rightarrow> bool \<Rightarrow> key_error option" where
  "identifyUserList e uids public =
     (case filter (\<lambda>er. er \<noteq> None) (map (\<lambda>uid. identifyUID e uid public) (ke_arrive e uids)) of [] \<Rightarrow> None | er # _ \<Rightarrow> er)"

definition identifyHandle :: "keyEnv \<Rightarrow> TlfHandle \<Rightarrow> key_error option" where
  "identifyHandle e h =
     (let b = th_BareTlfHandle h; public = handle_IsPublic b
      in identifyUserList e (bh_Writers b @ (if \<not> public then bh_Readers b else [])) public)"

section \<open>Rekeying\<close>

text \<open>Rekeying changes the metadata, uses the metadata server, the key server and the random source.\<close>

record rekeyState =
  rk_md :: RootMetadata
  rk_mds :: mdsState
  rk_keys :: keyState

type_synonym 'a rekey = "(rekeyState, key_error, 'a) act"

definition onKeys :: "'a keys \<Rightarrow> 'a rekey" where
  "onKeys m = onA rk_keys (\<lambda>k s. s\<lparr>rk_keys := k\<rparr>) m"

definition setBundles :: "int \<Rightarrow> TLFWriterKeyBundle \<Rightarrow> TLFReaderKeyBundle \<Rightarrow> RootMetadata \<Rightarrow> RootMetadata" where
  "setBundles keyGen wkb rkb md =
     (let i = nat (keyGen - FirstValidKeyGen) in
      (updWriter (\<lambda>w. w\<lparr>wm_WKeys := (wm_WKeys w)[i := wkb]\<rparr>) md)\<lparr>rm_RKeys := (rm_RKeys md)[i := rkb]\<rparr>)"

definition updateKeyBundle ::
  "keyEnv \<Rightarrow> int \<Rightarrow> cryptKeys \<Rightarrow> cryptKeys \<Rightarrow> TLFEphemeralPublicKey \<Rightarrow> TLFEphemeralPrivateKey \<Rightarrow> TLFCryptKey \<Rightarrow> unit rekey" where
  "updateKeyBundle e keyGen wKeys rKeys ePubKey ePrivKey tlfCryptKey s =
     (case getTLFKeyBundles (rk_md s) keyGen of
        Inl f \<Rightarrow> (Inl (faultMap KeyMdError f), s)
      | Inr (wkb, rkb) \<Rightarrow>
          (case fillInDevices (ke_crypto e) wKeys rKeys ePubKey ePrivKey tlfCryptKey
                  \<lparr>bs_reads = ks_reads (rk_keys s), bs_wkb = wkb, bs_rkb = rkb\<rparr> of
             (r, bs) \<Rightarrow>
               (let s = s\<lparr>rk_md := setBundles keyGen (bs_wkb bs) (bs_rkb bs) (rk_md s), rk_keys := (rk_keys s)\<lparr>ks_reads := bs_reads bs\<rparr>\<rparr> in
                case r of
                  Inl f \<Rightarrow> (Inl (faultMap KeyCryptoError f), s)
                | Inr newServerKeys \<Rightarrow> onKeys (server_PutTLFCryptKeyServerHalves e newServerKeys) s)))"

definition hasNewDevice :: "UserDeviceKeyInfoMap \<Rightarrow> UID \<times> CryptPublicKey list \<Rightarrow> bool" where
  "hasNewDevice keyInfoMap uk =
     (case map_of keyInfoMap (fst uk) of None \<Rightarrow> True | Some kids \<Rightarrow> list_ex (\<lambda>k. map_of kids (kc_kid k) = None) (snd uk))"

definition usersWithNewDevices :: "UserDeviceKeyInfoMap \<Rightarrow> cryptKeys \<Rightarrow> UID list" where
  "usersWithNewDevices keyInfoMap expectedKeys = map fst (filter (hasNewDevice keyInfoMap) expectedKeys)"

definition hasRemovedDevice :: "cryptKeys \<Rightarrow> UID \<times> DeviceKeyInfoMap \<Rightarrow> bool" where
  "hasRemovedDevice expectedKeys uk =
     (case map_of expectedKeys (fst uk) of None \<Rightarrow> True | Some keys \<Rightarrow> list_ex (\<lambda>(kid, _). kid \<notin> kc_kid ` set keys) (snd uk))"

definition usersWithRemovedDevices :: "UserDeviceKeyInfoMap \<Rightarrow> cryptKeys \<Rightarrow> UID list" where
  "usersWithRemovedDevices keyInfoMap expectedKeys = map fst (filter (hasRemovedDevice expectedKeys) keyInfoMap)"

text \<open>Deleting the halves of the devices of a user that are not expected; then the entries, when all was deleted.\<close>

definition deleteHalves :: "keyEnv \<Rightarrow> DeviceKeyInfoMap \<Rightarrow> unit keys" where
  "deleteHalves e kids = foldA (\<lambda>_ (kid, info). server_DeleteTLFCryptKeyServerHalf e (ki_ServerHalfID info)) () kids"

definition deleteKeysOfUser :: "keyEnv \<Rightarrow> cryptKeys \<Rightarrow> UID \<times> DeviceKeyInfoMap \<Rightarrow> (keyState \<times> UserDeviceKeyInfoMap, key_error, bool) act" where
  "deleteKeysOfUser e expectedKeys uk =
     (case map_of expectedKeys (fst uk) of
        None \<Rightarrow> bindA (onA fst (\<lambda>k s. (k, snd s)) (deleteHalves e (snd uk))) (\<lambda>_. retA True)
      | Some keys \<Rightarrow>
          (let toRemove = filter (\<lambda>(kid, _). kid \<notin> kc_kid ` set keys) (snd uk) in
           bindA (onA fst (\<lambda>k s. (k, snd s)) (deleteHalves e toRemove)) (\<lambda>_.
           bindA (updA (\<lambda>(k, info). (k, AList.update (fst uk) (filter (\<lambda>(kid, _). kid \<in> kc_kid ` set keys) (snd uk)) info))) (\<lambda>_.
             retA False))))"

definition deleteKeysForRemovedDevices :: "keyEnv \<Rightarrow> cryptKeys \<Rightarrow> (keyState \<times> UserDeviceKeyInfoMap, key_error, unit) act" where
  "deleteKeysForRemovedDevices e expectedKeys =
     bindA (readA snd) (\<lambda>info.
     bindA (foldA (\<lambda>usersToDelete uk. bindA (deleteKeysOfUser e expectedKeys uk) (\<lambda>del.
              retA (if del then usersToDelete @ [fst uk] else usersToDelete))) [] info) (\<lambda>usersToDelete.
       updA (\<lambda>(k, info). (k, filter (\<lambda>(u, _). u \<notin> set usersToDelete) info))))"

definition identifyUIDSets :: "keyEnv \<Rightarrow> RootMetadata \<Rightarrow> UID list \<Rightarrow> UID list \<Rightarrow> key_error option" where
  "identifyUIDSets e md writersToIdentify readersToIdentify =
     identifyUserList e (writersToIdentify @ readersToIdentify) (TlfID_IsPublic (rm_ID md))"

definition generateKeyMapForUsers :: "keyEnv \<Rightarrow> UID list \<Rightarrow> key_error + cryptKeys" where
  "generateKeyMapForUsers e users =
     foldr (\<lambda>w r. case ke_cryptKeys e w of
                     Inl er \<Rightarrow> Inl (KeyPkiError er)
                   | Inr publicKeys \<Rightarrow> (case r of Inl er \<Rightarrow> Inl er | Inr keyMap \<Rightarrow> Inr ((w, publicKeys) # keyMap))) users (Inr [])"

text \<open>
  The handle for which to rekey: the folder's, with its assertions resolved again when the user is a writer, with
  only the user's own assertions resolved otherwise, unless the user was a reader before.
\<close>

definition rekeyHandle :: "keyEnv \<Rightarrow> RootMetadata \<Rightarrow> TlfHandle \<Rightarrow> UID \<Rightarrow> (key_error, TlfHandle \<times> bool) result" where
  "rekeyHandle e md handle uid =
     bindR (liftE KeyUserError (ResolveAgain (ke_tlf e) handle)) (\<lambda>resolvedHandle.
       let isWriter = handle_IsWriter (th_BareTlfHandle resolvedHandle) uid in
       if \<not> TlfID_IsPublic (rm_ID md) \<and> \<not> isWriter
       then if handle_IsReader (th_BareTlfHandle handle) uid then Inr (handle, isWriter)
            else bindR (liftE KeyUserError (ResolveAgainForUser (ke_tlf e) handle uid)) (\<lambda>h. Inr (h, isWriter))
       else Inr (resolvedHandle, isWriter))"

text \<open>\<open>reflect.DeepEqual\<close> on handles, where the resolved names are maps.\<close>

definition sameNames :: "(UID \<times> string) list \<Rightarrow> (UID \<times> string) list \<Rightarrow> bool" where
  "sameNames a b \<longleftrightarrow> list_all (\<lambda>(u, n). map_of b u = Some n) a \<and> list_all (\<lambda>(u, n). map_of a u = Some n) b"

definition handle_DeepEqual :: "TlfHandle \<Rightarrow> TlfHandle \<Rightarrow> bool" where
  "handle_DeepEqual h h' \<longleftrightarrow> th_BareTlfHandle h = th_BareTlfHandle h' \<and> th_name h = th_name h' \<and>
     sameNames (th_resolvedWriters h) (th_resolvedWriters h') \<and> sameNames (th_resolvedReaders h) (th_resolvedReaders h')"

text \<open>
  The conflict that the server knows of. Pointers are compared: the server's is a new one, so the two are the same
  only when both are nil.
\<close>

definition checkLatestHandle :: "keyEnv \<Rightarrow> TlfHandle \<Rightarrow> TlfHandle \<Rightarrow> TlfHandle rekey" where
  "checkLatestHandle e handle resolvedHandle =
     bindA (resA KeyUserError (GetCanonicalPath handle)) (\<lambda>_.
     bindA (resA KeyUserError (GetCanonicalPath resolvedHandle)) (\<lambda>_.
     bindA (readA (\<lambda>s. rm_ID (rk_md s))) (\<lambda>i.
     bindA (\<lambda>s. case GetLatestHandleForTLF (ke_mds e) i (rk_mds s) of (r, t) \<Rightarrow> resA KeyMdsError r (s\<lparr>rk_mds := t\<rparr>)) (\<lambda>latest.
       case latest of
         None \<Rightarrow> failA (Error (NoSuchTlfHandleError i))
       | Some latestHandle \<Rightarrow>
           (let ours = bh_ConflictInfo (th_BareTlfHandle resolvedHandle); theirs = bh_ConflictInfo latestHandle in
            if ours = None \<and> theirs = None then retA resolvedHandle
            else if ours \<noteq> None then failA (Error (TlfHandleConflictInfoMismatchError ours theirs))
            else retA (resolvedHandle\<lparr>th_BareTlfHandle := (th_BareTlfHandle resolvedHandle)\<lparr>bh_ConflictInfo := theirs\<rparr>\<rparr>))))))"

definition readAccessError :: "TlfHandle \<Rightarrow> string \<Rightarrow> key_error fault" where
  "readAccessError h username =
     (case GetCanonicalName h of
        Inl f \<Rightarrow> faultMap KeyUserError f
      | Inr name \<Rightarrow> Error (KeyUserError (ReadAccessError username name (handle_IsPublic (th_BareTlfHandle h)))))"

text \<open>Users with new devices among the writers and the readers, readers that are promoted, and whether a device was removed.\<close>

record keyDelta =
  kd_newWriters :: "UID list"
  kd_newReaders :: "UID list"
  kd_promoted :: "UID list"
  kd_addWriter :: bool
  kd_addReader :: bool
  kd_incKeyGen :: bool

definition rekeyDelta :: "keyEnv \<Rightarrow> RootMetadata \<Rightarrow> int \<Rightarrow> cryptKeys \<Rightarrow> cryptKeys \<Rightarrow> (key_error, keyDelta) result" where
  "rekeyDelta e md currKeyGen wKeys rKeys =
     (if currKeyGen < FirstValidKeyGen
      then Inr \<lparr>kd_newWriters = [], kd_newReaders = [], kd_promoted = [], kd_addWriter = False, kd_addReader = False, kd_incKeyGen = True\<rparr>
      else case getTLFKeyBundles md currKeyGen of
        Inl f \<Rightarrow> Inl (faultMap KeyMdError f)
      | Inr (wkb, rkb) \<Rightarrow>
          (let newWriterUsers = usersWithNewDevices (wkb_WKeys wkb) wKeys;
               newReaderUsers = usersWithNewDevices (rkb_RKeys rkb) rKeys;
               wRemoved = usersWithRemovedDevices (wkb_WKeys wkb) wKeys;
               rRemoved = usersWithRemovedDevices (rkb_RKeys rkb) rKeys;
               allWriters = newWriterUsers @ filter (\<lambda>u. u \<notin> set newWriterUsers) wRemoved;
               allReaders = newReaderUsers @ filter (\<lambda>u. u \<notin> set newReaderUsers) rRemoved
           in case identifyUIDSets e md allWriters allReaders of
                Some er \<Rightarrow> Inl (Error er)
              | None \<Rightarrow>
                  Inr \<lparr>kd_newWriters = allWriters, kd_newReaders = allReaders,
                       kd_promoted = filter (\<lambda>u. u \<in> set newWriterUsers) rRemoved,
                       kd_addWriter = newWriterUsers \<noteq> [], kd_addReader = newReaderUsers \<noteq> [],
                       kd_incKeyGen = wRemoved \<noteq> [] \<or> rRemoved \<noteq> []\<rparr>))"

text \<open>
  A reader without an entry leaves a nil map behind. Filling in a device of this user writes to that map and panics; the
  panic is raised here, before the other users of the generation are filled in.
\<close>

definition promoteReader :: "cryptKeys \<Rightarrow> TLFWriterKeyBundle \<times> TLFReaderKeyBundle \<Rightarrow> UID \<Rightarrow> (key_error, TLFWriterKeyBundle \<times> TLFReaderKeyBundle) result" where
  "promoteReader wKeys bundles u =
     (case bundles of (wkb, rkb) \<Rightarrow>
        (case map_of (rkb_RKeys rkb) u of
           None \<Rightarrow>
             if map_of wKeys u \<noteq> None \<and> map_of wKeys u \<noteq> Some [] then Inl (Panic NilMapWrite)
             else Inr (wkb\<lparr>wkb_WKeys := AList.update u [] (wkb_WKeys wkb)\<rparr>, rkb)
         | Some kids \<Rightarrow>
             Inr (wkb\<lparr>wkb_WKeys := AList.update u kids (wkb_WKeys wkb)\<rparr>, rkb\<lparr>rkb_RKeys := AList.delete u (rkb_RKeys rkb)\<rparr>)))"

definition addDevices ::
  "keyEnv \<Rightarrow> bool \<Rightarrow> UID list \<Rightarrow> cryptKeys \<Rightarrow> cryptKeys \<Rightarrow> TLFEphemeralPublicKey \<Rightarrow> TLFEphemeralPrivateKey \<Rightarrow> int \<Rightarrow> unit rekey" where
  "addDevices e promptPaper promotedReaders wKeys rKeys ePubKey ePrivKey keyGen =
     bindA (\<lambda>s. onKeys (getTLFCryptKey e (rk_md s) keyGen
              (if promptPaper then getTLFCryptKeyAnyDevice OR getTLFCryptKeyPromptPaper else getTLFCryptKeyAnyDevice)) s) (\<lambda>currTlfCryptKey.
     bindA (\<lambda>s. resA KeyMdError (getTLFKeyBundles (rk_md s) keyGen) s) (\<lambda>bundles.
     bindA (resA id (foldR (promoteReader wKeys) bundles promotedReaders)) (\<lambda>(wkb, rkb).
     bindA (updA (\<lambda>s. s\<lparr>rk_md := setBundles keyGen wkb rkb (rk_md s)\<rparr>)) (\<lambda>_.
       updateKeyBundle e keyGen wKeys rKeys ePubKey ePrivKey currTlfCryptKey))))"

definition onBundleKeys ::
  "(TLFWriterKeyBundle \<times> TLFReaderKeyBundle \<Rightarrow> UserDeviceKeyInfoMap) \<Rightarrow>
   (UserDeviceKeyInfoMap \<Rightarrow> TLFWriterKeyBundle \<times> TLFReaderKeyBundle \<Rightarrow> TLFWriterKeyBundle \<times> TLFReaderKeyBundle) \<Rightarrow> int \<Rightarrow>
   (keyState \<times> UserDeviceKeyInfoMap, key_error, unit) act \<Rightarrow> unit rekey" where
  "onBundleKeys get put keyGen m s =
     (case getTLFKeyBundles (rk_md s) keyGen of
        Inl f \<Rightarrow> (Inl (faultMap KeyMdError f), s)
      | Inr bundles \<Rightarrow>
          (case m (rk_keys s, get bundles) of
             (r, (k, info)) \<Rightarrow> (r, s\<lparr>rk_keys := k, rk_md := (case put info bundles of (wkb, rkb) \<Rightarrow> setBundles keyGen wkb rkb (rk_md s))\<rparr>)))"

definition deleteRevoked :: "keyEnv \<Rightarrow> cryptKeys \<Rightarrow> cryptKeys \<Rightarrow> int \<Rightarrow> unit rekey" where
  "deleteRevoked e wKeys rKeys keyGen =
     bindA (onBundleKeys (\<lambda>(wkb, _). wkb_WKeys wkb) (\<lambda>info (wkb, rkb). (wkb\<lparr>wkb_WKeys := info\<rparr>, rkb)) keyGen (deleteKeysForRemovedDevices e wKeys)) (\<lambda>_.
       onBundleKeys (\<lambda>(_, rkb). rkb_RKeys rkb) (\<lambda>info (wkb, rkb). (wkb, rkb\<lparr>rkb_RKeys := info\<rparr>)) keyGen (deleteKeysForRemovedDevices e rKeys))"

text \<open>A new generation: new bundles, the keys of all devices, and no halves any more for devices that were removed.\<close>

definition newKeyGeneration ::
  "keyEnv \<Rightarrow> cryptKeys \<Rightarrow> cryptKeys \<Rightarrow> TLFPublicKey \<Rightarrow> TLFPrivateKey \<Rightarrow> TLFEphemeralPublicKey \<Rightarrow> TLFEphemeralPrivateKey \<Rightarrow> TLFCryptKey \<Rightarrow>
   (bool \<times> TLFCryptKey option) rekey" where
  "newKeyGeneration e wKeys rKeys pubKey privKey ePubKey ePrivKey tlfCryptKey =
     bindA (\<lambda>s. case AddNewKeys \<lparr>wkb_WKeys = [], wkb_TLFPublicKey = pubKey, wkb_TLFEphemeralPublicKeys = []\<rparr>
                     \<lparr>rkb_RKeys = [], rkb_TLFReaderEphemeralPublicKeys = []\<rparr> (rk_md s) of
                   (r, md) \<Rightarrow> resA KeyMdError r (s\<lparr>rk_md := md\<rparr>)) (\<lambda>_.
     bindA (readA (\<lambda>s. md_LatestKeyGeneration (rk_md s))) (\<lambda>currKeyGen.
     bindA (updateKeyBundle e currKeyGen wKeys rKeys ePubKey ePrivKey tlfCryptKey) (\<lambda>_.
     bindA (updA (\<lambda>s. s\<lparr>rk_md := (rk_md s)\<lparr>rm_data := (rm_data (rk_md s))\<lparr>pm_TLFPrivateKey := privKey\<rparr>\<rparr>\<rparr>)) (\<lambda>_.
     bindA (foldA (\<lambda>_. deleteRevoked e wKeys rKeys) () [FirstValidKeyGen..currKeyGen]) (\<lambda>_.
       retA (True, Some tlfCryptKey))))))"

text \<open>What happens last: the metadata gets the resolved handle when at least a part of the rekey was done.\<close>

definition withHandle :: "TlfHandle \<Rightarrow> 'a rekey \<Rightarrow> 'a rekey" where
  "withHandle resolvedHandle m s =
     (case m s of (r, s') \<Rightarrow>
        if (\<exists>x. r = Inr x) \<or> r = Inl (Error RekeyIncompleteError)
        then (case updateFromTlfHandle resolvedHandle (rk_md s') of
                (Inl f, md) \<Rightarrow> (Inl (faultMap KeyMdError f), s'\<lparr>rk_md := md\<rparr>)
              | (Inr _, md) \<Rightarrow> (r, s'\<lparr>rk_md := md\<rparr>))
        else (r, s'))"

definition rekeyPrivate ::
  "keyEnv \<Rightarrow> bool \<Rightarrow> int \<Rightarrow> TlfHandle \<Rightarrow> bool \<Rightarrow> bool \<Rightarrow> UID \<Rightarrow> string \<Rightarrow> cryptKeys \<Rightarrow> cryptKeys \<Rightarrow> keyDelta \<Rightarrow> (bool \<times> TLFCryptKey option) rekey" where
  "rekeyPrivate e promptPaper currKeyGen resolvedHandle handleChanged isWriter uid username wKeys rKeys d =
     (if \<not> kd_addReader d \<and> \<not> kd_addWriter d \<and> \<not> kd_incKeyGen d \<and> \<not> handleChanged then retA (False, None)
      else if \<not> isWriter \<and> \<not> (uid \<in> set (kd_newReaders d) \<and> uid \<notin> set (kd_promoted d)) then failA (readAccessError resolvedHandle username)
      else
        let rKeys' = (if isWriter then rKeys else [(uid, case map_of rKeys uid of None \<Rightarrow> [] | Some ks \<Rightarrow> ks)]);
            wKeys' = (if isWriter then wKeys else []);
            newReaders = (if isWriter then kd_newReaders d else filter (\<lambda>u. u \<noteq> uid) (kd_newReaders d)) in
        bindA (\<lambda>s. case MakeRandomTLFKeys (ke_crypto e) (ks_reads (rk_keys s)) of
                      (r, n) \<Rightarrow> resA KeyCryptoError r (s\<lparr>rk_keys := (rk_keys s)\<lparr>ks_reads := n\<rparr>\<rparr>))
          (\<lambda>(pubKey, privKey, ePubKey, ePrivKey, tlfCryptKey).
        bindA (if kd_addReader d \<or> kd_addWriter d
               then foldA (\<lambda>_. addDevices e promptPaper (kd_promoted d) wKeys' rKeys' ePubKey ePrivKey) () [FirstValidKeyGen..currKeyGen]
               else retA ()) (\<lambda>_.
        bindA (\<lambda>s. if \<not> IsReadable (rk_md s) \<and> wm_SerializedPrivateMetadata (rm_WriterMetadata (rk_md s)) \<notin> {None, Some []}
                    then (case decryptMDPrivateData e (rk_md s) (rk_md s) (rk_keys s) of
                            (Inl f, k) \<Rightarrow> (Inl f, s\<lparr>rk_keys := k\<rparr>)
                          | (Inr md, k) \<Rightarrow> (Inr (), s\<lparr>rk_md := md, rk_keys := k\<rparr>))
                    else (Inr (), s)) (\<lambda>_.
          withHandle resolvedHandle
            (if \<not> isWriter
             then if newReaders \<noteq> [] \<or> kd_addWriter d \<or> kd_incKeyGen d then failA (Error RekeyIncompleteError) else retA (True, None)
             else if \<not> kd_incKeyGen d then retA (True, None)
             else newKeyGeneration e wKeys' rKeys' pubKey privKey ePubKey ePrivKey tlfCryptKey)))))"

definition Rekey :: "keyEnv \<Rightarrow> bool \<Rightarrow> (bool \<times> TLFCryptKey option) rekey" where
  "Rekey e promptPaper =
     bindA (readA rk_md) (\<lambda>md.
       let currKeyGen = md_LatestKeyGeneration md; public = TlfID_IsPublic (rm_ID md) in
       if public \<noteq> (currKeyGen = PublicKeyGen) then failA (Error KeyGenMismatch)
       else if promptPaper \<and> public then failA (Error PaperForPublic)
       else bindA (resA KeyMdError (GetTlfHandle md)) (\<lambda>handle.
         bindA (sumA KeyUserError (te_currentUser (ke_tlf e))) (\<lambda>(username, uid).
         bindA (resA id (rekeyHandle e md handle uid)) (\<lambda>(resolved, isWriter).
           let handleChanged = (\<not> handle_DeepEqual handle resolved) in
           bindA (if handleChanged then checkLatestHandle e handle resolved else retA resolved) (\<lambda>resolvedHandle.
             if public
             then if \<not> handleChanged then retA (False, None)
                  else (\<lambda>s. case updateFromTlfHandle resolvedHandle (rk_md s) of
                              (Inl f, md) \<Rightarrow> (Inl (faultMap KeyMdError f), s\<lparr>rk_md := md\<rparr>)
                            | (Inr _, md) \<Rightarrow> (Inr (True, None), s\<lparr>rk_md := md\<rparr>))
             else if \<not> isWriter \<and> currKeyGen < FirstValidKeyGen then failA (readAccessError resolvedHandle username)
             else bindA (sumA id (generateKeyMapForUsers e (bh_Writers (th_BareTlfHandle resolvedHandle)))) (\<lambda>wKeys.
                  bindA (sumA id (generateKeyMapForUsers e (bh_Readers (th_BareTlfHandle resolvedHandle)))) (\<lambda>rKeys.
                  bindA (resA id (rekeyDelta e md currKeyGen wKeys rKeys)) (\<lambda>d.
                    rekeyPrivate e promptPaper currKeyGen resolvedHandle handleChanged isWriter uid username wKeys rKeys d))))))))"

end
