(* ===== verification/Kbfs_Key_Access.thy ===== *)
theory Kbfs_Key_Access
  imports Kbfs_Key_Manager
begin

text \<open>
  The key server, the key cache and the key manager together with the key bundles: the device that has an entry in
  the bundles of a key generation gets the key.
\<close>

section \<open>The key server\<close>

lemma keyDb_run:
  assumes "kvReliable kv" and "\<not> ks_shutdown s"
  shows "keyDb (kvGet kv k) s =
      (case kvLookup (ks_db s) k of None \<Rightarrow> (Inl (Error (KeyDbError NotFound)), s\<lparr>ks_db := kvTick (ks_db s)\<rparr>)
       | Some v \<Rightarrow> (Inr v, s\<lparr>ks_db := kvTick (ks_db s)\<rparr>))"
    and "keyDb (kvWrite kv batch) s =
      (Inr (), s\<lparr>ks_db := (kvTick (ks_db s))\<lparr>kv_entries := foldl (\<lambda>es (k, v). AList.update k v es) (kv_entries (ks_db s)) batch\<rparr>\<rparr>)"
  using assms(2) by (simp_all add: keyDb_def handleA_def onA_def kv_reliable_run[OF assms(1)] split: option.split)

text \<open>The key in the database for a half, and the halves in a map.\<close>

definition halfKey :: "UID \<Rightarrow> KID \<Rightarrow> TLFCryptKeyServerHalf \<Rightarrow> byte list" where
  "halfKey u kid h = HMAC_Bytes (HMAC (Hash (DefaultHashType # hmac_sha256 (b32_data h) (ToBytes u @ ToBytes kid))))"

definition halvesIn :: "serverKeyMap \<Rightarrow> (UID \<times> KID \<times> TLFCryptKeyServerHalf) list" where
  "halvesIn sk = concat (map (\<lambda>(u, m). map (\<lambda>(kid, h). (u, kid, h)) m) sk)"

lemma GetID_eq: "GetTLFCryptKeyServerHalfID u kid h = Inr (TLFCryptKeyServerHalfID (HMAC (Hash (halfKey u kid h))))"
  by (simp add: GetTLFCryptKeyServerHalfID_def DefaultHMAC_eq halfKey_def HMAC_Bytes_def)

lemma GetID_verifies:
  "VerifyTLFCryptKeyServerHalfID i u kid h = None \<Longrightarrow> HMAC_Bytes (shid_ID i) = halfKey u kid h"
  using serverHalfID_verifies[of u kid h i] by (auto simp: GetID_eq HMAC_Bytes_def)

lemma halfOf_halvesIn: "halfOf sk u kid = Some h \<Longrightarrow> (u, kid, h) \<in> set (halvesIn sk)"
  by (force simp: halfOf_def halvesIn_def dest: map_of_SomeD split: option.splits)

lemma halfWrite_run:
  assumes "codec_ok (ke_half e) id"
  obtains buf where "halfWrite e u (kid, h) = retA (halfKey u kid h, buf)" and "co_decode (ke_half e) buf = Inr h"
proof -
  obtain buf where "co_encode (ke_half e) h = Inr buf" "co_decode (ke_half e) buf = Inr h" using codec_encode[OF assms] by fastforce
  then show thesis by (intro that[of buf]) (simp_all add: halfWrite_def GetID_eq HMAC_Bytes_def bindA_def sumA_def fun_eq_iff)
qed

text \<open>A batch of writes for halves.\<close>

definition writesOf :: "keyEnv \<Rightarrow> (UID \<times> KID \<times> TLFCryptKeyServerHalf) list \<Rightarrow> (byte list \<times> byte list) list \<Rightarrow> bool" where
  "writesOf e halves batch \<longleftrightarrow>
     list_all2 (\<lambda>(u, kid, h) (k, buf). k = halfKey u kid h \<and> co_decode (ke_half e) buf = Inr h) halves batch"

lemma batch_run:
  assumes "codec_ok (ke_half e) id" and "writesOf e hs batch"
  shows "\<exists>batch'. foldA (\<lambda>batch kh. bindA (halfWrite e u kh) (\<lambda>w. retA (batch @ [w]))) batch m s = (Inr batch', s) \<and>
    writesOf e (hs @ map (\<lambda>(kid, h). (u, kid, h)) m) batch'"
  using assms(2)
proof (induction m arbitrary: hs batch)
  case (Cons kh m)
  obtain kid h where kh: "kh = (kid, h)" by (cases kh)
  obtain buf where w: "halfWrite e u (kid, h) = retA (halfKey u kid h, buf)" "co_decode (ke_half e) buf = Inr h"
    by (rule halfWrite_run[OF assms(1)])
  have "writesOf e (hs @ [(u, kid, h)]) (batch @ [(halfKey u kid h, buf)])"
    using Cons.prems w(2) by (simp add: writesOf_def list_all2_appendI)
  from Cons.IH[OF this] show ?case by (simp add: kh w(1))
qed simp

lemma batches_run:
  assumes "codec_ok (ke_half e) id" and "writesOf e hs batch"
  shows "\<exists>batch'. foldA (\<lambda>batch (uid, deviceMap). foldA (\<lambda>batch kh. bindA (halfWrite e uid kh) (\<lambda>w. retA (batch @ [w]))) batch deviceMap)
      batch sk s = (Inr batch', s) \<and> writesOf e (hs @ halvesIn sk) batch'"
  using assms(2)
proof (induction sk arbitrary: hs batch)
  case (Cons um sk)
  obtain u m where um: "um = (u, m)" by (cases um)
  from batch_run[OF assms(1) Cons.prems, of u m s] obtain b where
    b: "foldA (\<lambda>batch kh. bindA (halfWrite e u kh) (\<lambda>w. retA (batch @ [w]))) batch m s = (Inr b, s)"
    "writesOf e (hs @ map (\<lambda>(kid, h). (u, kid, h)) m) b" by auto
  have "bindA (foldA (\<lambda>batch kh. bindA (halfWrite e u kh) (\<lambda>w. retA (batch @ [w]))) batch m) k s = k b s"
    for k :: "(byte list \<times> byte list) list \<Rightarrow> (byte list \<times> byte list) list keys" using b(1) by (rule bindA_run(1))
  then show ?case using Cons.IH[OF b(2)]
    by (simp only: um foldA.simps prod.case halvesIn_def list.map concat.simps append_assoc)
qed (simp add: halvesIn_def)

lemma writes_lookup:
  assumes "writesOf e hs batch"
  shows "(\<exists>u kid h buf. (u, kid, h) \<in> set hs \<and> k = halfKey u kid h \<and> co_decode (ke_half e) buf = Inr h \<and>
      map_of (foldl (\<lambda>es (k, v). AList.update k v es) es batch) k = Some buf) \<or>
    (\<forall>(u, kid, h) \<in> set hs. k \<noteq> halfKey u kid h) \<and> map_of (foldl (\<lambda>es (k, v). AList.update k v es) es batch) k = map_of es k"
  using assms
proof (induction batch arbitrary: hs rule: rev_induct)
  case (snoc w batch)
  obtain hs0 u kid h where hs: "hs = hs0 @ [(u, kid, h)]" "writesOf e hs0 batch" "fst w = halfKey u kid h" "co_decode (ke_half e) (snd w) = Inr h"
    using snoc.prems by (cases w) (auto simp: writesOf_def list_all2_append2 list_all2_Cons2)
  show ?case
  proof (cases "k = fst w")
    case True
    then show ?thesis using hs(1,3,4) by (cases w) (auto simp: update_conv)
  next
    case False
    then show ?thesis using snoc.IH[OF hs(2)] hs(1,3) by (cases w) (auto simp: update_conv)
  qed
qed (simp add: writesOf_def)

lemma PutHalves_run:
  assumes "kvReliable (ke_kv e)" and "codec_ok (ke_half e) id" and "\<not> ks_shutdown s"
  obtains d where "server_PutTLFCryptKeyServerHalves e sk s = (Inr (), s\<lparr>ks_db := d\<rparr>)"
    and "\<forall>k. (\<exists>u kid h buf. (u, kid, h) \<in> set (halvesIn sk) \<and> k = halfKey u kid h \<and> co_decode (ke_half e) buf = Inr h \<and> kvLookup d k = Some buf) \<or>
      (\<forall>(u, kid, h) \<in> set (halvesIn sk). k \<noteq> halfKey u kid h) \<and> kvLookup d k = kvLookup (ks_db s) k"
proof -
  from batches_run[OF assms(2), of "[]" "[]" sk s] obtain batch where
    b: "foldA (\<lambda>batch (uid, deviceMap). foldA (\<lambda>batch kh. bindA (halfWrite e uid kh) (\<lambda>w. retA (batch @ [w]))) batch deviceMap)
      [] sk s = (Inr batch, s)" "writesOf e (halvesIn sk) batch" by (auto simp: writesOf_def)
  show thesis
  proof (rule that)
    have "bindA (foldA (\<lambda>batch (uid, deviceMap). foldA (\<lambda>batch kh. bindA (halfWrite e uid kh) (\<lambda>w. retA (batch @ [w]))) batch deviceMap)
      [] sk) k s = k batch s" for k :: "(byte list \<times> byte list) list \<Rightarrow> unit keys" using b(1) by (rule bindA_run(1))
    then show "server_PutTLFCryptKeyServerHalves e sk s =
      (Inr (), s\<lparr>ks_db := (kvTick (ks_db s))\<lparr>kv_entries := foldl (\<lambda>es (k, v). AList.update k v es) (kv_entries (ks_db s)) batch\<rparr>\<rparr>)"
      using assms(3) by (simp only: server_PutTLFCryptKeyServerHalves_def unlessKeyServerDown_def bindA_basic(3)
          if_False keyDb_run[OF assms(1,3)])
    show "\<forall>k. (\<exists>u kid h buf. (u, kid, h) \<in> set (halvesIn sk) \<and> k = halfKey u kid h \<and> co_decode (ke_half e) buf = Inr h \<and>
        kvLookup ((kvTick (ks_db s))\<lparr>kv_entries := foldl (\<lambda>es (k, v). AList.update k v es) (kv_entries (ks_db s)) batch\<rparr>) k = Some buf) \<or>
      (\<forall>(u, kid, h) \<in> set (halvesIn sk). k \<noteq> halfKey u kid h) \<and>
        kvLookup ((kvTick (ks_db s))\<lparr>kv_entries := foldl (\<lambda>es (k, v). AList.update k v es) (kv_entries (ks_db s)) batch\<rparr>) k = kvLookup (ks_db s) k"
      using writes_lookup[OF b(2)] by (simp add: kvLookup_def)
  qed
qed

section \<open>The halves that the server holds\<close>

text \<open>For each entry of the bundles, the server holds the half of the device under the ID in the entry.\<close>

definition serverHolds ::
  "keyEnv \<Rightarrow> db \<Rightarrow> (UID \<Rightarrow> KID \<Rightarrow> TLFCryptKeyServerHalf option) \<Rightarrow> TLFWriterKeyBundle \<Rightarrow> TLFReaderKeyBundle \<Rightarrow> bool" where
  "serverHolds e d halves wkb rkb \<longleftrightarrow>
     (\<forall>u kid info. bundleInfo wkb rkb u kid = Some info \<longrightarrow>
        (\<exists>h buf. halves u kid = Some h \<and> kvLookup d (HMAC_Bytes (shid_ID (ki_ServerHalfID info))) = Some buf \<and> co_decode (ke_half e) buf = Inr h))"

text \<open>No two different halves have the same ID.\<close>

definition idsUnique :: "(UID \<times> KID \<times> TLFCryptKeyServerHalf) set \<Rightarrow> bool" where
  "idsUnique hs \<longleftrightarrow> (\<forall>(u, kid, h) \<in> hs. \<forall>(u', kid', h') \<in> hs.
     GetTLFCryptKeyServerHalfID u kid h = GetTLFCryptKeyServerHalfID u' kid' h' \<longrightarrow> h = h')"

definition allHalves :: "serverKeyMap \<Rightarrow> (UID \<Rightarrow> KID \<Rightarrow> TLFCryptKeyServerHalf option) \<Rightarrow> (UID \<times> KID \<times> TLFCryptKeyServerHalf) set" where
  "allHalves sk halves = set (halvesIn sk) \<union> {(u, kid, h). halves u kid = Some h}"

lemma idsUniqueD: "idsUnique hs \<Longrightarrow> (u, kid, h) \<in> hs \<Longrightarrow> (u', kid', h') \<in> hs \<Longrightarrow> halfKey u kid h = halfKey u' kid' h' \<Longrightarrow> h = h'"
  unfolding idsUnique_def by (fastforce simp: GetID_eq)

text \<open>Storing the new halves: the server then holds the halves of all entries.\<close>

lemma serverHolds_put:
  assumes "rekey_ok (bs_wkb s) wKeys rKeys" and "fillInDevices (ke_crypto e) wKeys rKeys ePub ePriv key s = (Inr sk, s')"
    and "keysRecoverable (ke_crypto e) pub key (withNewHalves sk halves) (bs_wkb s') (bs_rkb s')"
    and "serverHolds e d halves (bs_wkb s) (bs_rkb s)" and "idsUnique (allHalves sk halves)"
    and put: "\<forall>k. (\<exists>u kid h buf. (u, kid, h) \<in> set (halvesIn sk) \<and> k = halfKey u kid h \<and> co_decode (ke_half e) buf = Inr h \<and> kvLookup d' k = Some buf) \<or>
      (\<forall>(u, kid, h) \<in> set (halvesIn sk). k \<noteq> halfKey u kid h) \<and> kvLookup d' k = kvLookup d k"
  shows "serverHolds e d' (withNewHalves sk halves) (bs_wkb s') (bs_rkb s')"
  unfolding serverHolds_def
proof (intro allI impI)
  fix u kid info assume i: "bundleInfo (bs_wkb s') (bs_rkb s') u kid = Some info"
  let ?k = "HMAC_Bytes (shid_ID (ki_ServerHalfID info))"
  from assms(3) i obtain h where h: "withNewHalves sk halves u kid = Some h" "VerifyTLFCryptKeyServerHalfID (ki_ServerHalfID info) u kid h = None"
    unfolding keysRecoverable_def recovers_def by blast
  note k = GetID_verifies[OF h(2)]
  have mem: "(u, kid, h) \<in> allHalves sk halves"
    using h(1) halfOf_halvesIn by (auto simp: withNewHalves_def allHalves_def split: option.splits)
  have old: "bundleInfo (bs_wkb s) (bs_rkb s) u kid = Some info \<and> halfOf sk u kid = None \<or> (\<exists>h. halfOf sk u kid = Some h)"
    by (rule fillInDevices_filled[OF assms(1,2)]) (use i in blast)
  from put[rule_format, of ?k] show "\<exists>h buf. withNewHalves sk halves u kid = Some h \<and> kvLookup d' ?k = Some buf \<and> co_decode (ke_half e) buf = Inr h"
  proof (elim disjE exE conjE)
    fix u' kid' h' buf
    assume w: "(u', kid', h') \<in> set (halvesIn sk)" "?k = halfKey u' kid' h'" "co_decode (ke_half e) buf = Inr h'" "kvLookup d' ?k = Some buf"
    have "h = h'" using idsUniqueD[OF assms(5) mem, of u' kid' h'] w(1,2) k by (simp add: allHalves_def)
    then show ?thesis using h(1) w(3,4) by blast
  next
    assume no: "\<forall>(u, kid, h) \<in> set (halvesIn sk). ?k \<noteq> halfKey u kid h" and d: "kvLookup d' ?k = kvLookup d ?k"
    have "halfOf sk u kid = None"
    proof (rule ccontr)
      assume "halfOf sk u kid \<noteq> None"
      then have "halfOf sk u kid = Some h" using h(1) by (auto simp: withNewHalves_def)
      then show False using no k halfOf_halvesIn by fastforce
    qed
    then show ?thesis using old assms(4) d unfolding serverHolds_def withNewHalves_def by fastforce
  qed
qed

section \<open>A device gets the key\<close>

lemma GetHalf_run:
  assumes "kvReliable (ke_kv e)" and "\<not> ks_shutdown s" and "te_currentUser (ke_tlf e) = Inr (username, uid)"
    and "kvLookup (ks_db s) (HMAC_Bytes (shid_ID i)) = Some buf" and "co_decode (ke_half e) buf = Inr h"
    and "VerifyTLFCryptKeyServerHalfID i uid (kc_kid key) h = None"
  shows "GetTLFCryptKeyServerHalf e i key s = (Inr h, s\<lparr>ks_db := kvTick (ks_db s)\<rparr>)"
  using assms(3-) by (simp add: GetTLFCryptKeyServerHalf_def server_GetTLFCryptKeyServerHalf_def keyDb_run[OF assms(1,2)] sumA_def)

text \<open>The cache has no other key for the generation.\<close>

definition cacheHas :: "keyState \<Rightarrow> TlfID \<Rightarrow> int \<Rightarrow> TLFCryptKey \<Rightarrow> bool" where
  "cacheHas s tlf keyGen key \<longleftrightarrow> (\<forall>k. map_of (lru_evictList (ks_cache s)) (tlf, keyGen) = Some k \<longrightarrow> k = key)"

lemma kcache_Get_run: "\<exists>c. kcache_GetTLFCryptKey tlf keyGen s = (Inr (map_of (lru_evictList (ks_cache s)) (tlf, keyGen)), s\<lparr>ks_cache := c\<rparr>)"
  by (rule exI[of _ "fst (lru_Get (ks_cache s) (tlf, keyGen))"])
    (simp add: kcache_GetTLFCryptKey_def lru_Get_def split: option.split)

lemma currentDevice_gets_key:
  assumes "kvReliable (ke_kv e)" and "\<not> ks_shutdown s" and "te_currentUser (ke_tlf e) = Inr (username, uid)"
    and "ke_currentKey e = Inr (getPublicKey (ke_device e))" and "local_ok pub (ke_device e)"
    and "getTLFKeyBundles md keyGen = Inr (wkb, rkb)" and "keyGen \<le> md_LatestKeyGeneration md"
    and "keysRecoverable (ke_crypto e) pub key halves wkb rkb" and "serverHolds e (ks_db s) halves wkb rkb"
    and "bundleInfo wkb rkb uid (kc_kid (getPublicKey (ke_device e))) \<noteq> None" and "cacheHas s (rm_ID md) keyGen key"
  shows "fst (getTLFCryptKeyUsingCurrentDevice e md keyGen cache s) = Inr key"
proof -
  let ?k = "getPublicKey (ke_device e)"
  obtain info where i: "bundleInfo wkb rkb uid (kc_kid ?k) = Some info" using assms(10) by blast
  have "local_ok pub (ke_device e) \<and> ?k = \<lparr>kc_kid = kc_kid ?k\<rparr>" using assms(5) by (simp add: getPublicKey_def)
  with assms(8) i obtain ep h ch where r: "bundleEphemeral wkb rkb (ki_EPubKeyIndex info) = Some ep" "halves uid (kc_kid ?k) = Some h"
    "VerifyTLFCryptKeyServerHalfID (ki_ServerHalfID info) uid (kc_kid ?k) h = None"
    "DecryptTLFCryptKeyClientHalf (ke_crypto e) (ke_device e) ep (ki_ClientHalf info) = Inr ch" "UnmaskTLFCryptKey h ch = key"
    unfolding keysRecoverable_def recovers_def by blast
  from assms(9) i r(2) obtain buf where
    b: "kvLookup (ks_db s) (HMAC_Bytes (shid_ID (ki_ServerHalfID info))) = Some buf" "co_decode (ke_half e) buf = Inr h"
    unfolding serverHolds_def by fastforce
  have range: "\<not> TlfID_IsPublic (rm_ID md)" "\<not> keyGen < FirstValidKeyGen"
    using assms(6) by (auto simp: getTLFKeyBundles_def bindR_def split: if_splits sum.splits)
  have half: "currentDeviceHalf e md keyGen uid username s' = (Inr (ch, info, ?k), s')" for s'
    using assms(4,6) i r(1,4) by (simp add: currentDeviceHalf_def sumA_def resA_def GetTLFCryptKeyInfo_def GetTLFEphemeralPublicKey_def)
  obtain c where c: "kcache_GetTLFCryptKey (rm_ID md) keyGen s =
      (Inr (map_of (lru_evictList (ks_cache s)) (rm_ID md, keyGen)), s\<lparr>ks_cache := c\<rparr>)" using kcache_Get_run by blast
  have g: "GetTLFCryptKeyServerHalf e (ki_ServerHalfID info) ?k (s\<lparr>ks_cache := c\<rparr>) = (Inr h, s\<lparr>ks_cache := c, ks_db := kvTick (ks_db s)\<rparr>)"
    using GetHalf_run[where s = "s\<lparr>ks_cache := c\<rparr>", OF assms(1) _ assms(3) _ b(2) r(3)] assms(2) b(1) by simp
  show ?thesis
    using assms(7,11) range c half g r(5) assms(3)
    by (auto simp: getTLFCryptKeyUsingCurrentDevice_def getTLFCryptKey_def cacheHas_def Let_def sumA_def getTLFCryptKeyDoCache_def
        getTLFCryptKeyAnyDevice_def kcache_PutTLFCryptKey_def split: option.split)
qed

section \<open>Adding devices to the bundles of a generation\<close>

lemma setBundles_simps [simp]:
  "rm_ID (setBundles keyGen wkb rkb md) = rm_ID md" "md_LatestKeyGeneration (setBundles keyGen wkb rkb md) = md_LatestKeyGeneration md"
  by (simp_all add: setBundles_def Let_def md_LatestKeyGeneration_def wkg_LatestKeyGeneration_def)

lemma getTLFKeyBundles_set:
  "getTLFKeyBundles md keyGen = Inr b \<Longrightarrow> getTLFKeyBundles (setBundles keyGen wkb rkb md) keyGen = Inr (wkb, rkb)"
  by (auto simp: getTLFKeyBundles_def setBundles_def Let_def bindR_def split: if_splits sum.splits)

lemma updateKeyBundle_run:
  assumes "kvReliable (ke_kv e)" and "codec_ok (ke_half e) id" and "nacl_ok (ke_crypto e) pub" and "rand_ok (ke_crypto e)"
    and "\<not> ks_shutdown (rk_keys s)" and "getTLFKeyBundles (rk_md s) keyGen = Inr (wkb, rkb)"
    and "key_ok key" and "ePub = \<lparr>b32_data = pub (b32_data ePriv)\<rparr>"
    and "rekey_ok wkb wKeys rKeys" and "\<forall>(u, keys) \<in> set (wKeys @ rKeys). \<forall>k \<in> set keys. dhKey k"
    and "keysRecoverable (ke_crypto e) pub key halves wkb rkb" and "serverHolds e (ks_db (rk_keys s)) halves wkb rkb"
    and ids: "\<And>sk bs. fillInDevices (ke_crypto e) wKeys rKeys ePub ePriv key \<lparr>bs_reads = ks_reads (rk_keys s), bs_wkb = wkb, bs_rkb = rkb\<rparr> = (Inr sk, bs) \<Longrightarrow>
      idsUnique (allHalves sk halves)"
  obtains sk bs d where "fillInDevices (ke_crypto e) wKeys rKeys ePub ePriv key \<lparr>bs_reads = ks_reads (rk_keys s), bs_wkb = wkb, bs_rkb = rkb\<rparr> = (Inr sk, bs)"
    and "updateKeyBundle e keyGen wKeys rKeys ePub ePriv key s =
      (Inr (), s\<lparr>rk_md := setBundles keyGen (bs_wkb bs) (bs_rkb bs) (rk_md s), rk_keys := (rk_keys s)\<lparr>ks_reads := bs_reads bs, ks_db := d\<rparr>\<rparr>)"
    and "keysRecoverable (ke_crypto e) pub key (withNewHalves sk halves) (bs_wkb bs) (bs_rkb bs)"
    and "serverHolds e d (withNewHalves sk halves) (bs_wkb bs) (bs_rkb bs)"
    and "\<forall>(u, keys) \<in> set (wKeys @ rKeys). \<forall>k \<in> set keys. bundleInfo (bs_wkb bs) (bs_rkb bs) u (kc_kid k) \<noteq> None"
proof -
  let ?bs = "\<lparr>bs_reads = ks_reads (rk_keys s), bs_wkb = wkb, bs_rkb = rkb\<rparr>"
  obtain sk bs where run: "fillInDevices (ke_crypto e) wKeys rKeys ePub ePriv key ?bs = (Inr sk, bs)"
    using fillInDevices_total[OF assms(4,10)] by blast
  have ok: "rekey_ok (bs_wkb ?bs) wKeys rKeys" "keysRecoverable (ke_crypto e) pub key halves (bs_wkb ?bs) (bs_rkb ?bs)"
    "serverHolds e (ks_db (rk_keys s)) halves (bs_wkb ?bs) (bs_rkb ?bs)" using assms(9,11,12) by simp_all
  note rec = fillInDevices_recoverable[OF assms(3,7,8) ok(1,2) run]
  let ?k = "(rk_keys s)\<lparr>ks_reads := bs_reads bs\<rparr>" and ?md = "setBundles keyGen (bs_wkb bs) (bs_rkb bs) (rk_md s)"
  have up: "\<not> ks_shutdown ?k" using assms(5) by simp
  obtain d where d: "server_PutTLFCryptKeyServerHalves e sk ?k = (Inr (), ?k\<lparr>ks_db := d\<rparr>)"
    and put: "\<forall>k. (\<exists>u kid h buf. (u, kid, h) \<in> set (halvesIn sk) \<and> k = halfKey u kid h \<and> co_decode (ke_half e) buf = Inr h \<and> kvLookup d k = Some buf) \<or>
      (\<forall>(u, kid, h) \<in> set (halvesIn sk). k \<noteq> halfKey u kid h) \<and> kvLookup d k = kvLookup (ks_db ?k) k"
    by (rule PutHalves_run[OF assms(1,2) up])
  have "serverHolds e d (withNewHalves sk halves) (bs_wkb bs) (bs_rkb bs)"
    using serverHolds_put[OF ok(1) run rec(1) ok(3) ids[OF run]] put by simp
  moreover have "updateKeyBundle e keyGen wKeys rKeys ePub ePriv key s = (Inr (), s\<lparr>rk_md := ?md, rk_keys := ?k\<lparr>ks_db := d\<rparr>\<rparr>)"
    using d by (simp add: updateKeyBundle_def assms(6) run onKeys_def onA_def)
  ultimately show thesis using rec run by (intro that[of sk bs d]) auto
qed


section \<open>The bundles of a new generation\<close>

text \<open>The map of a new generation has the users of \<open>keys\<close>, in this order, with no device that is not in \<open>keys\<close>.\<close>

definition filledFor :: "cryptKeys \<Rightarrow> UserDeviceKeyInfoMap \<Rightarrow> bool" where
  "filledFor keys m \<longleftrightarrow> map fst m = map fst keys \<and>
     (\<forall>(u, ds) \<in> set m. \<exists>ks. (u, ks) \<in> set keys \<and> fst ` set ds \<subseteq> kc_kid ` set ks)"

lemma keys_update: "fst ` set (AList.update k v m) = insert k (fst ` set m)"
  by (induction m) auto

lemma fillInDevice_kids:
  "foldA (fillInDevice e u key ePriv idx) sm ks (n, kim) = (Inr sm', (n', kim')) \<Longrightarrow> fst ` set kim' \<subseteq> fst ` set kim \<union> kc_kid ` set ks"
proof (induction ks arbitrary: sm n kim)
  case (Cons k ks)
  obtain sm1 n1 kim1 where r: "fillInDevice e u key ePriv idx sm k (n, kim) = (Inr sm1, (n1, kim1))"
    "foldA (fillInDevice e u key ePriv idx) sm1 ks (n1, kim1) = (Inr sm', (n', kim'))"
    using Cons.prems by (auto simp: bindA_def split: prod.splits sum.splits)
  have "fst ` set kim1 \<subseteq> insert (kc_kid k) (fst ` set kim)"
    using r(1) keys_update[of "kc_kid k" _ kim] by (simp add: fillInDevice_def split: if_splits prod.splits sum.splits) blast+
  with Cons.IH[OF r(2)] show ?case by auto
qed simp

lemma update_fresh: "k \<notin> fst ` set m \<Longrightarrow> AList.update k v m = m @ [(k, v)]"
  by (induction m) auto

lemma fillAll_fresh:
  assumes "foldA (fillInUser e idx ePriv key) sk keys (n, m) = (Inr sk', (n', m'))"
    and "distinct (map fst (before @ keys))" and "filledFor before m"
  shows "filledFor (before @ keys) m'"
  using assms
proof (induction keys arbitrary: sk n m before)
  case (Cons uk keys)
  obtain u ks where uk: "uk = (u, ks)" by (cases uk)
  have dom: "fst ` set m = fst ` set before" using Cons.prems(3) by (metis filledFor_def list.set_map)
  then have new: "map_of m u = None" "u \<notin> fst ` set m" using Cons.prems(2) by (auto simp: uk map_of_eq_None_iff)
  obtain sk1 n1 m1 where r: "fillInUser e idx ePriv key sk (u, ks) (n, m) = (Inr sk1, (n1, m1))"
    "foldA (fillInUser e idx ePriv key) sk1 keys (n1, m1) = (Inr sk', (n', m'))"
    using Cons.prems(1) by (auto simp: uk bindA_def split: prod.splits sum.splits)
  from r(1) obtain sm ds where f: "fillInDeviceInfo e u key ePriv idx ks (n, []) = (Inr sm, (n1, ds))" "m1 = m @ [(u, ds)]"
    using new by (auto simp: fillInUser_def Let_def update_fresh split: prod.splits sum.splits)
  have "fst ` set ds \<subseteq> kc_kid ` set ks" using fillInDevice_kids[OF f(1)[unfolded fillInDeviceInfo_def]] by simp
  then have "filledFor (before @ [uk]) m1" using Cons.prems(3) unfolding filledFor_def f(2) uk by (simp add: split_beta) blast
  from Cons.IH[OF r(2) _ this] show ?case using Cons.prems(2) by simp
qed simp

lemma fillInDevices_fresh:
  assumes "fillInDevices e wKeys rKeys ePub ePriv key s = (Inr sk, s')" and "distinct (map fst wKeys)" and "distinct (map fst rKeys)"
    and "wkb_WKeys (bs_wkb s) = []" and "rkb_RKeys (bs_rkb s) = []"
  shows "filledFor wKeys (wkb_WKeys (bs_wkb s'))" and "filledFor rKeys (rkb_RKeys (bs_rkb s'))"
proof -
  from fillInDevices_Inr[OF assms(1)] obtain idx s1 sk1 n2 wk n3 rk where r:
    "addEphemeralKey wKeys ePub s = (Inr idx, s1)"
    "fillInDevicesAndServerMap e idx wKeys ePriv key [] (bs_reads s1, wkb_WKeys (bs_wkb s1)) = (Inr sk1, (n2, wk))"
    "fillInDevicesAndServerMap e idx rKeys ePriv key sk1 (n2, rkb_RKeys (bs_rkb s1)) = (Inr sk, (n3, rk))"
    "s' = s1\<lparr>bs_reads := n3, bs_wkb := (bs_wkb s1)\<lparr>wkb_WKeys := wk\<rparr>, bs_rkb := (bs_rkb s1)\<lparr>rkb_RKeys := rk\<rparr>\<rparr>" .
  note eph = addEphemeralKey_spec[OF r(1)]
  have nil: "filledFor [] []" by (simp add: filledFor_def)
  have "filledFor ([] @ wKeys) wk" by (rule fillAll_fresh) (use r(2) assms(2,4) eph(3) nil in \<open>simp_all add: fillInDevicesAndServerMap_def\<close>)
  moreover have "filledFor ([] @ rKeys) rk" by (rule fillAll_fresh) (use r(3) assms(3,5) eph(4) nil in \<open>simp_all add: fillInDevicesAndServerMap_def\<close>)
  ultimately show "filledFor wKeys (wkb_WKeys (bs_wkb s'))" "filledFor rKeys (rkb_RKeys (bs_rkb s'))" by (simp_all add: r(4))
qed

text \<open>No device was removed: nothing is deleted.\<close>

lemma update_same: "distinct (map fst m) \<Longrightarrow> (k, v) \<in> set m \<Longrightarrow> AList.update k v m = m"
  by (induction m) (auto simp: rev_image_eqI)

lemma deleteKeysOfUser_none:
  assumes "distinct (map fst expected)" and "(u, ks) \<in> set expected" and "fst ` set ds \<subseteq> kc_kid ` set ks"
    and "distinct (map fst m)" and "(u, ds) \<in> set m"
  shows "deleteKeysOfUser e expected (u, ds) (k, m) = (Inr False, (k, m))"
proof -
  have f: "filter (\<lambda>(kid, _). kid \<notin> kc_kid ` set ks) ds = []" "filter (\<lambda>(kid, _). kid \<in> kc_kid ` set ks) ds = ds"
    using assms(3) by (auto simp: filter_empty_conv filter_id_conv)
  show ?thesis using assms(1,2) update_same[OF assms(4,5)]
    by (simp add: deleteKeysOfUser_def f Let_def deleteHalves_def onA_def bindA_def updA_def)
qed

lemma deleteKeys_none:
  assumes "distinct (map fst expected)" and "filledFor expected m"
  shows "deleteKeysForRemovedDevices e expected (k, m) = (Inr (), (k, m))"
proof -
  have dist: "distinct (map fst m)" using assms by (simp add: filledFor_def)
  have "foldA (\<lambda>usersToDelete uk. bindA (deleteKeysOfUser e expected uk) (\<lambda>del.
      retA (if del then usersToDelete @ [fst uk] else usersToDelete))) us part (k, m) = (Inr us, (k, m))" if "set part \<subseteq> set m" for us part
    using that
  proof (induction part arbitrary: us)
    case (Cons uk part)
    obtain u ds where uk: "uk = (u, ds)" by (cases uk)
    then obtain ks where "(u, ks) \<in> set expected" "fst ` set ds \<subseteq> kc_kid ` set ks"
      using assms(2) Cons.prems by (fastforce simp: filledFor_def)
    from deleteKeysOfUser_none[OF assms(1) this dist] Cons.prems have "deleteKeysOfUser e expected (u, ds) (k, m) = (Inr False, (k, m))"
      by (simp add: uk)
    then have "bindA (deleteKeysOfUser e expected (u, ds)) g (k, m) = g False (k, m)"
      for g :: "bool \<Rightarrow> (keyState \<times> UserDeviceKeyInfoMap, key_error, UID list) act" by (rule bindA_run(1))
    then show ?case using Cons.IH Cons.prems by (simp add: uk bindA_assoc)
  qed simp
  from this[of m "[]"] show ?thesis by (simp add: deleteKeysForRemovedDevices_def)
qed

lemma setBundles_same: "getTLFKeyBundles md keyGen = Inr (wkb, rkb) \<Longrightarrow> setBundles keyGen wkb rkb md = md"
  by (auto simp: getTLFKeyBundles_def setBundles_def Let_def bindR_def split: if_splits sum.splits)

lemma deleteRevoked_none:
  assumes "getTLFKeyBundles (rk_md s) keyGen = Inr (wkb, rkb)" and "distinct (map fst wKeys)" and "distinct (map fst rKeys)"
    and "filledFor wKeys (wkb_WKeys wkb)" and "filledFor rKeys (rkb_RKeys rkb)"
  shows "deleteRevoked e wKeys rKeys keyGen s = (Inr (), s)"
proof -
  have "s\<lparr>rk_keys := rk_keys s, rk_md := rk_md s\<rparr> = s" by simp
  then show ?thesis
    using deleteKeys_none[OF assms(2,4)] deleteKeys_none[OF assms(3,5)] setBundles_same[OF assms(1)]
    by (simp add: deleteRevoked_def onBundleKeys_def assms(1))
qed

section \<open>The first keys of a folder\<close>

text \<open>
  A private folder that has no keys and no private part yet, with a handle whose names are all resolved and that is in
  the form that \<open>MakeBareTlfHandle\<close> makes.
\<close>

definition newFolder :: "keyEnv \<Rightarrow> RootMetadata \<Rightarrow> TlfHandle \<Rightarrow> bool" where
  "newFolder e md handle \<longleftrightarrow>
     (let b = th_BareTlfHandle handle in
      \<not> TlfID_IsPublic (rm_ID md) \<and> \<not> handle_IsPublic b \<and> rm_tlfHandle md = Some handle \<and>
      wm_WKeys (rm_WriterMetadata md) = [] \<and> rm_RKeys md = [] \<and> wm_SerializedPrivateMetadata (rm_WriterMetadata md) \<in> {None, Some []} \<and>
      ResolveAgain (ke_tlf e) handle = Inr handle \<and> handle_DeepEqual handle handle \<and>
      distinct (bh_Writers b @ bh_Readers b) \<and> PublicUID \<notin> set (bh_Readers b) \<and>
      MakeBareTlfHandle (bh_Writers b) (bh_Readers b) (bh_UnresolvedWriters b) (bh_UnresolvedReaders b) (bh_ConflictInfo b) = Inr b)"

text \<open>The users of the folder have published encryption keys.\<close>

definition keysOf :: "keyEnv \<Rightarrow> UID list \<Rightarrow> cryptKeys" where
  "keysOf e us = map (\<lambda>u. (u, case ke_cryptKeys e u of Inl _ \<Rightarrow> [] | Inr ks \<Rightarrow> ks)) us"

definition keysPublished :: "keyEnv \<Rightarrow> UID list \<Rightarrow> bool" where
  "keysPublished e us \<longleftrightarrow> (\<forall>u \<in> set us. case ke_cryptKeys e u of Inl _ \<Rightarrow> False | Inr ks \<Rightarrow> list_all dhKey ks)"

lemma keysOf_fst [simp]: "map fst (keysOf e us) = us"
  by (induction us) (simp_all add: keysOf_def)

lemma keysOf_append: "keysOf e (us @ vs) = keysOf e us @ keysOf e vs"
  by (simp add: keysOf_def)

lemma generateKeyMap_run: "keysPublished e us \<Longrightarrow> generateKeyMapForUsers e us = Inr (keysOf e us)"
  by (induction us) (auto simp: generateKeyMapForUsers_def keysOf_def keysPublished_def split: sum.splits)

lemma keysOf_dh: "keysPublished e us \<Longrightarrow> \<forall>(u, keys) \<in> set (keysOf e us). \<forall>k \<in> set keys. dhKey k"
  by (induction us) (auto simp: keysPublished_def keysOf_def list_all_iff split: sum.splits)

lemma setBundles_first:
  "wm_WKeys (rm_WriterMetadata md) = [w] \<Longrightarrow> rm_RKeys md = [r] \<Longrightarrow>
   setBundles 1 wkb rkb md = (updWriter (\<lambda>w. w\<lparr>wm_WKeys := [wkb]\<rparr>) md)\<lparr>rm_RKeys := [rkb]\<rparr>"
  by (simp add: setBundles_def FirstValidKeyGen_def)

lemma getTLFKeyBundles_first:
  "\<not> TlfID_IsPublic (rm_ID md) \<Longrightarrow> wm_WKeys (rm_WriterMetadata md) = [w] \<Longrightarrow> rm_RKeys md = [r] \<Longrightarrow>
   getTLFKeyBundles md 1 = Inr (w, r) \<and> md_LatestKeyGeneration md = 1"
  by (simp add: getTLFKeyBundles_def md_LatestKeyGeneration_def wkg_LatestKeyGeneration_def FirstValidKeyGen_def)

lemma newKeyGeneration_run:
  assumes "kvReliable (ke_kv e)" and "codec_ok (ke_half e) id" and "nacl_ok (ke_crypto e) pub" and "rand_ok (ke_crypto e)"
    and "\<not> ks_shutdown (rk_keys s)" and md: "\<not> TlfID_IsPublic (rm_ID (rk_md s))" "wm_WKeys (rm_WriterMetadata (rk_md s)) = []" "rm_RKeys (rk_md s) = []"
    and "key_ok key" and "ePub = \<lparr>b32_data = pub (b32_data ePriv)\<rparr>"
    and dist: "distinct (map fst (wKeys @ rKeys))" and dh: "\<forall>(u, keys) \<in> set (wKeys @ rKeys). \<forall>k \<in> set keys. dhKey k"
    and ids: "\<And>sk bs. fillInDevices (ke_crypto e) wKeys rKeys ePub ePriv key
        \<lparr>bs_reads = ks_reads (rk_keys s), bs_wkb = \<lparr>wkb_WKeys = [], wkb_TLFPublicKey = pubKey, wkb_TLFEphemeralPublicKeys = []\<rparr>,
         bs_rkb = \<lparr>rkb_RKeys = [], rkb_TLFReaderEphemeralPublicKeys = []\<rparr>\<rparr> = (Inr sk, bs) \<Longrightarrow> idsUnique (set (halvesIn sk))"
  obtains halves wkb rkb n d where
    "newKeyGeneration e wKeys rKeys pubKey privKey ePub ePriv key s =
      (Inr (True, Some key), s\<lparr>rk_keys := (rk_keys s)\<lparr>ks_reads := n, ks_db := d\<rparr>,
         rk_md := (updWriter (\<lambda>w. w\<lparr>wm_WKeys := [wkb]\<rparr>) (rk_md s))\<lparr>rm_RKeys := [rkb], rm_data := (rm_data (rk_md s))\<lparr>pm_TLFPrivateKey := privKey\<rparr>\<rparr>\<rparr>)"
    and "filledFor wKeys (wkb_WKeys wkb)" and "filledFor rKeys (rkb_RKeys rkb)"
    and "keysRecoverable (ke_crypto e) pub key halves wkb rkb" and "serverHolds e d halves wkb rkb"
    and "\<forall>(u, keys) \<in> set (wKeys @ rKeys). \<forall>k \<in> set keys. bundleInfo wkb rkb u (kc_kid k) \<noteq> None"
proof -
  let ?w = "\<lparr>wkb_WKeys = [], wkb_TLFPublicKey = pubKey, wkb_TLFEphemeralPublicKeys = []\<rparr>" and ?r = "\<lparr>rkb_RKeys = [], rkb_TLFReaderEphemeralPublicKeys = []\<rparr>"
  let ?md = "(updWriter (\<lambda>w. w\<lparr>wm_WKeys := [?w]\<rparr>) (rk_md s))\<lparr>rm_RKeys := [?r]\<rparr>" and ?none = "\<lambda>u kid. None"
  let ?s = "s\<lparr>rk_md := ?md\<rparr>"
  have add: "AddNewKeys ?w ?r (rk_md s) = (Inr (), ?md)" using md by (simp add: AddNewKeys_def)
  have first: "getTLFKeyBundles (rk_md ?s) 1 = Inr (?w, ?r)" "md_LatestKeyGeneration ?md = 1"
    using getTLFKeyBundles_first[of ?md] md(1) by simp_all
  have empty: "rekey_ok ?w wKeys rKeys" "keysRecoverable (ke_crypto e) pub key ?none ?w ?r" "serverHolds e (ks_db (rk_keys ?s)) ?none ?w ?r"
    using dist by (simp_all add: rekey_ok_def keysRecoverable_def serverHolds_def bundleInfo_def)
  have no: "allHalves sk ?none = set (halvesIn sk)" for sk by (auto simp: allHalves_def)
  have up: "\<not> ks_shutdown (rk_keys ?s)" using assms(5) by simp
  obtain sk bs d where u: "fillInDevices (ke_crypto e) wKeys rKeys ePub ePriv key \<lparr>bs_reads = ks_reads (rk_keys ?s), bs_wkb = ?w, bs_rkb = ?r\<rparr> = (Inr sk, bs)"
    "updateKeyBundle e 1 wKeys rKeys ePub ePriv key ?s =
      (Inr (), ?s\<lparr>rk_md := setBundles 1 (bs_wkb bs) (bs_rkb bs) (rk_md ?s), rk_keys := (rk_keys ?s)\<lparr>ks_reads := bs_reads bs, ks_db := d\<rparr>\<rparr>)"
    "keysRecoverable (ke_crypto e) pub key (withNewHalves sk ?none) (bs_wkb bs) (bs_rkb bs)"
    "serverHolds e d (withNewHalves sk ?none) (bs_wkb bs) (bs_rkb bs)"
    "\<forall>(u, keys) \<in> set (wKeys @ rKeys). \<forall>k \<in> set keys. bundleInfo (bs_wkb bs) (bs_rkb bs) u (kc_kid k) \<noteq> None"
    by (rule updateKeyBundle_run[OF assms(1-4) up first(1) assms(9,10) empty(1) dh empty(2,3)]) (use ids in \<open>simp_all add: no\<close>)
  have f: "filledFor wKeys (wkb_WKeys (bs_wkb bs))" "filledFor rKeys (rkb_RKeys (bs_rkb bs))"
    using fillInDevices_fresh[OF u(1)] dist by simp_all
  let ?md' = "(updWriter (\<lambda>w. w\<lparr>wm_WKeys := [bs_wkb bs]\<rparr>) (rk_md s))\<lparr>rm_RKeys := [bs_rkb bs], rm_data := (rm_data (rk_md s))\<lparr>pm_TLFPrivateKey := privKey\<rparr>\<rparr>"
  let ?s' = "s\<lparr>rk_keys := (rk_keys s)\<lparr>ks_reads := bs_reads bs, ks_db := d\<rparr>, rk_md := ?md'\<rparr>"
  have b: "getTLFKeyBundles (rk_md ?s') 1 = Inr (bs_wkb bs, bs_rkb bs)" using getTLFKeyBundles_first[of ?md'] md(1) by simp
  have d: "deleteRevoked e wKeys rKeys 1 ?s' = (Inr (), ?s')" by (rule deleteRevoked_none[OF b _ _ f]) (use dist in simp_all)
  have "newKeyGeneration e wKeys rKeys pubKey privKey ePub ePriv key s = (Inr (True, Some key), ?s')"
    using u(2) d add first(2) by (simp add: newKeyGeneration_def setBundles_first FirstValidKeyGen_def)
  from that[OF this f u(3-5)] show thesis .
qed

lemma updateFromTlfHandle_new:
  assumes "newFolder e md0 handle" and "rm_ID md = rm_ID md0" and "wm_WKeys (rm_WriterMetadata md) = [wkb]" and "rm_RKeys md = [rkb]"
    and "map fst (wkb_WKeys wkb) = bh_Writers (th_BareTlfHandle handle)" and "map fst (rkb_RKeys rkb) = bh_Readers (th_BareTlfHandle handle)"
  obtains md' where "updateFromTlfHandle handle md = (Inr (), md')" and "rm_ID md' = rm_ID md"
    and "wm_WKeys (rm_WriterMetadata md') = [wkb]" and "rm_RKeys md' = [rkb]"
proof -
  let ?b = "th_BareTlfHandle handle"
  have new: "\<not> TlfID_IsPublic (rm_ID md)" "\<not> handle_IsPublic ?b" "distinct (bh_Writers ?b @ bh_Readers ?b)" "PublicUID \<notin> set (bh_Readers ?b)"
    "MakeBareTlfHandle (bh_Writers ?b) (bh_Readers ?b) (bh_UnresolvedWriters ?b) (bh_UnresolvedReaders ?b) (bh_ConflictInfo ?b) = Inr ?b"
    using assms(1,2) by (simp_all add: newFolder_def Let_def)
  have none: "map_of (wkb_WKeys wkb) r = None" if "r \<in> set (bh_Readers ?b)" for r
    using that new(3) assms(5) by (metis IntI distinct_append empty_iff list.set_map map_of_eq_None_iff)
  have "filter (\<lambda>r. map_of (wkb_WKeys wkb) r = None \<and> r \<noteq> PublicUID) (map fst (rkb_RKeys rkb)) = bh_Readers ?b"
    unfolding assms(6) using none new(4) by (auto simp: filter_id_conv)
  with new assms(3-5) that show thesis by (simp add: updateFromTlfHandle_def makeBareTlfHandle_def Let_def)
qed

lemma MakeRandomTLFKeys_ok:
  assumes "nacl_ok e pub" and "MakeRandomTLFKeys e n = (Inr (pubKey, privKey, ePub, ePriv, key), n')"
  shows "key_ok key" and "ePub = \<lparr>b32_data = pub (b32_data ePriv)\<rparr>"
  using assms
  by (auto simp: MakeRandomTLFKeys_def makeKeyPair_def bindA_def key_ok_def nacl_ok_def dest: cryptoRandRead_Inr split: prod.splits sum.splits)

definition newBundles :: "nat \<Rightarrow> TLFPublicKey \<Rightarrow> bundleState" where
  "newBundles n pubKey = \<lparr>bs_reads = n, bs_wkb = \<lparr>wkb_WKeys = [], wkb_TLFPublicKey = pubKey, wkb_TLFEphemeralPublicKeys = []\<rparr>,
     bs_rkb = \<lparr>rkb_RKeys = [], rkb_TLFReaderEphemeralPublicKeys = []\<rparr>\<rparr>"

lemma Rekey_new_run:
  assumes "kvReliable (ke_kv e)" and "codec_ok (ke_half e) id" and "nacl_ok (ke_crypto e) pub" and "rand_ok (ke_crypto e)"
    and "\<not> ks_shutdown (rk_keys s)" and new: "newFolder e (rk_md s) handle"
    and user: "te_currentUser (ke_tlf e) = Inr (username, uid)" "handle_IsWriter (th_BareTlfHandle handle) uid"
    and pub: "keysPublished e (bh_Writers (th_BareTlfHandle handle))" "keysPublished e (bh_Readers (th_BareTlfHandle handle))"
    and rand: "MakeRandomTLFKeys (ke_crypto e) (ks_reads (rk_keys s)) = (Inr (pubKey, privKey, ePub, ePriv, key), n)"
    and ids: "\<And>sk bs. fillInDevices (ke_crypto e) (keysOf e (bh_Writers (th_BareTlfHandle handle))) (keysOf e (bh_Readers (th_BareTlfHandle handle)))
      ePub ePriv key (newBundles n pubKey) = (Inr sk, bs) \<Longrightarrow> idsUnique (set (halvesIn sk))"
  obtains s' halves wkb rkb where "Rekey e False s = (Inr (True, Some key), s')"
    and "rm_ID (rk_md s') = rm_ID (rk_md s)" and "getTLFKeyBundles (rk_md s') 1 = Inr (wkb, rkb)" and "md_LatestKeyGeneration (rk_md s') = 1"
    and "keysRecoverable (ke_crypto e) pub key halves wkb rkb" and "serverHolds e (ks_db (rk_keys s')) halves wkb rkb"
    and "\<forall>(u, keys) \<in> set (keysOf e (bh_Writers (th_BareTlfHandle handle) @ bh_Readers (th_BareTlfHandle handle))).
      \<forall>k \<in> set keys. bundleInfo wkb rkb u (kc_kid k) \<noteq> None"
proof -
  let ?b = "th_BareTlfHandle handle" and ?md = "rk_md s"
  let ?w = "keysOf e (bh_Writers ?b)" and ?r = "keysOf e (bh_Readers ?b)" and ?s = "s\<lparr>rk_keys := (rk_keys s)\<lparr>ks_reads := n\<rparr>\<rparr>"
  have f: "\<not> TlfID_IsPublic (rm_ID ?md)" "\<not> handle_IsPublic ?b" "rm_tlfHandle ?md = Some handle" "wm_WKeys (rm_WriterMetadata ?md) = []" "rm_RKeys ?md = []"
    "wm_SerializedPrivateMetadata (rm_WriterMetadata ?md) \<in> {None, Some []}" "ResolveAgain (ke_tlf e) handle = Inr handle" "handle_DeepEqual handle handle"
    "distinct (map fst (?w @ ?r))"
    using new by (simp_all add: newFolder_def Let_def)
  have dh: "\<forall>(u, keys) \<in> set (?w @ ?r). \<forall>k \<in> set keys. dhKey k" using keysOf_dh[OF pub(1)] keysOf_dh[OF pub(2)] by auto
  note keys = MakeRandomTLFKeys_ok[OF assms(3) rand]
  obtain halves wkb rkb n' d where g:
    "newKeyGeneration e ?w ?r pubKey privKey ePub ePriv key ?s =
      (Inr (True, Some key), ?s\<lparr>rk_keys := (rk_keys ?s)\<lparr>ks_reads := n', ks_db := d\<rparr>,
         rk_md := (updWriter (\<lambda>w. w\<lparr>wm_WKeys := [wkb]\<rparr>) (rk_md ?s))\<lparr>rm_RKeys := [rkb], rm_data := (rm_data (rk_md ?s))\<lparr>pm_TLFPrivateKey := privKey\<rparr>\<rparr>\<rparr>)"
    "filledFor ?w (wkb_WKeys wkb)" "filledFor ?r (rkb_RKeys rkb)"
    "keysRecoverable (ke_crypto e) pub key halves wkb rkb" "serverHolds e d halves wkb rkb"
    "\<forall>(u, keys) \<in> set (?w @ ?r). \<forall>k \<in> set keys. bundleInfo wkb rkb u (kc_kid k) \<noteq> None"
    by (rule newKeyGeneration_run[where s = ?s, OF assms(1-4) _ _ _ _ keys f(9) dh]) (use assms(5) f(1,4,5) ids in \<open>auto simp: newBundles_def\<close>)
  let ?md1 = "(updWriter (\<lambda>w. w\<lparr>wm_WKeys := [wkb]\<rparr>) ?md)\<lparr>rm_RKeys := [rkb], rm_data := (rm_data ?md)\<lparr>pm_TLFPrivateKey := privKey\<rparr>\<rparr>"
  have "map fst (wkb_WKeys wkb) = bh_Writers ?b" "map fst (rkb_RKeys rkb) = bh_Readers ?b" using g(2,3) by (simp_all add: filledFor_def)
  then obtain md' where h: "updateFromTlfHandle handle ?md1 = (Inr (), md')" "rm_ID md' = rm_ID ?md1" "wm_WKeys (rm_WriterMetadata md') = [wkb]" "rm_RKeys md' = [rkb]"
    by (rule updateFromTlfHandle_new[where md = ?md1, OF new, rotated 3]) simp_all
  have zero: "md_LatestKeyGeneration ?md = 0" using f(1,4) by (simp add: md_LatestKeyGeneration_def wkg_LatestKeyGeneration_def)
  have "Rekey e False s = rekeyPrivate e False 0 handle False True uid username ?w ?r
      \<lparr>kd_newWriters = [], kd_newReaders = [], kd_promoted = [], kd_addWriter = False, kd_addReader = False, kd_incKeyGen = True\<rparr> s"
    using f user generateKeyMap_run[OF pub(1)] generateKeyMap_run[OF pub(2)]
    by (simp add: Rekey_def zero PublicKeyGen_def GetTlfHandle_def resA_def sumA_def rekeyHandle_def liftE_def rekeyDelta_def FirstValidKeyGen_def)
  also have "\<dots> = (Inr (True, Some key), s\<lparr>rk_keys := (rk_keys s)\<lparr>ks_reads := n', ks_db := d\<rparr>, rk_md := md'\<rparr>)"
    using f(6) rand g(1) h(1) by (auto simp: rekeyPrivate_def resA_def FirstValidKeyGen_def withHandle_def)
  finally have "Rekey e False s = (Inr (True, Some key), s\<lparr>rk_keys := (rk_keys s)\<lparr>ks_reads := n', ks_db := d\<rparr>, rk_md := md'\<rparr>)" .
  from that[OF this, of wkb rkb halves] show thesis
    using getTLFKeyBundles_first[of md' wkb rkb] h(2-4) f(1) g(4-6) by (simp add: keysOf_append)
qed

section \<open>Devices that were removed\<close>

definition expects :: "cryptKeys \<Rightarrow> UID \<Rightarrow> KID \<Rightarrow> bool" where
  "expects expected u kid \<longleftrightarrow> (case map_of expected u of None \<Rightarrow> False | Some keys \<Rightarrow> kid \<in> kc_kid ` set keys)"

definition halfIDs :: "DeviceKeyInfoMap \<Rightarrow> byte list set" where
  "halfIDs ds = (\<lambda>(kid, i). HMAC_Bytes (shid_ID (ki_ServerHalfID i))) ` set ds"

text \<open>The keys under which the server has the halves of the devices that are not expected.\<close>

definition removedIDs :: "cryptKeys \<Rightarrow> UserDeviceKeyInfoMap \<Rightarrow> byte list set" where
  "removedIDs expected info = (\<Union>(u, ds) \<in> set info. halfIDs (filter (\<lambda>(kid, _). \<not> expects expected u kid) ds))"

definition forgets :: "byte list set \<Rightarrow> keyState \<Rightarrow> keyState \<Rightarrow> bool" where
  "forgets ks k k' \<longleftrightarrow> (\<exists>d. k' = k\<lparr>ks_db := d\<rparr> \<and> kvLookup d = (\<lambda>x. if x \<in> ks then None else kvLookup (ks_db k) x))"

lemma forgets_trans: "forgets A k k1 \<Longrightarrow> forgets B k1 k2 \<Longrightarrow> forgets (A \<union> B) k k2"
  by (fastforce simp: forgets_def fun_eq_iff)

lemma forgets_none: "forgets {} k k"
  by (auto simp: forgets_def intro: exI[of _ "ks_db k"])

lemma forgets_up: "forgets A k k' \<Longrightarrow> ks_shutdown k' = ks_shutdown k"
  by (auto simp: forgets_def)

lemma deleteHalf_run:
  assumes "kvReliable (ke_kv e)" and "\<not> ks_shutdown k"
  obtains k' where "server_DeleteTLFCryptKeyServerHalf e i k = (Inr (), k')" and "forgets {HMAC_Bytes (shid_ID i)} k k'"
proof (rule that)
  let ?d = "(kvTick (ks_db k))\<lparr>kv_entries := AList.delete (HMAC_Bytes (shid_ID i)) (kv_entries (ks_db k))\<rparr>"
  show "server_DeleteTLFCryptKeyServerHalf e i k = (Inr (), k\<lparr>ks_db := ?d\<rparr>)" using assms(2)
    by (simp add: server_DeleteTLFCryptKeyServerHalf_def unlessKeyServerDown_def keyDb_def handleA_def onA_def kv_reliable_run[OF assms(1)])
  have "kvLookup ?d = (\<lambda>x. if x \<in> {HMAC_Bytes (shid_ID i)} then None else kvLookup (ks_db k) x)"
    by (simp add: kvLookup_def AList.delete_conv fun_eq_iff)
  then show "forgets {HMAC_Bytes (shid_ID i)} k (k\<lparr>ks_db := ?d\<rparr>)" unfolding forgets_def by blast
qed

lemma deleteHalves_run:
  assumes "kvReliable (ke_kv e)" and "\<not> ks_shutdown k"
  shows "\<exists>k'. deleteHalves e ds k = (Inr (), k') \<and> forgets (halfIDs ds) k k'"
  using assms(2)
proof (induction ds arbitrary: k)
  case Nil
  then show ?case using forgets_none by (simp add: deleteHalves_def halfIDs_def)
next
  case (Cons d ds)
  obtain kid i where d: "d = (kid, i)" by (cases d)
  obtain k1 where k1: "server_DeleteTLFCryptKeyServerHalf e (ki_ServerHalfID i) k = (Inr (), k1)" "forgets {HMAC_Bytes (shid_ID (ki_ServerHalfID i))} k k1"
    by (rule deleteHalf_run[OF assms(1) Cons.prems])
  then have "\<not> ks_shutdown k1" using Cons.prems forgets_up by simp
  from Cons.IH[OF this] obtain k2 where k2: "deleteHalves e ds k1 = (Inr (), k2)" "forgets (halfIDs ds) k1 k2" by blast
  then show ?case using k1(1) forgets_trans[OF k1(2) k2(2)] by (simp add: deleteHalves_def d halfIDs_def)
qed

lemma deleteKeysOfUser_run:
  assumes "kvReliable (ke_kv e)" and "\<not> ks_shutdown k"
  obtains k' where "deleteKeysOfUser e expected (u, ds) (k, m) =
      (Inr (map_of expected u = None),
       (k', if map_of expected u = None then m else AList.update u (filter (\<lambda>(kid, _). expects expected u kid) ds) m))"
    and "forgets (halfIDs (filter (\<lambda>(kid, _). \<not> expects expected u kid) ds)) k k'"
proof -
  let ?gone = "filter (\<lambda>(kid, _). \<not> expects expected u kid) ds"
  from deleteHalves_run[OF assms, of ?gone] obtain k' where k': "deleteHalves e ?gone k = (Inr (), k')" "forgets (halfIDs ?gone) k k'" by blast
  show thesis
  proof (rule that[OF _ k'(2)], cases "map_of expected u")
    case None
    then have "?gone = ds" by (simp add: expects_def filter_id_conv split_beta)
    then show "deleteKeysOfUser e expected (u, ds) (k, m) = (Inr (map_of expected u = None),
       (k', if map_of expected u = None then m else AList.update u (filter (\<lambda>(kid, _). expects expected u kid) ds) m))"
      using None k'(1) by (simp add: deleteKeysOfUser_def onA_def bindA_def)
  next
    case (Some keys)
    then show "deleteKeysOfUser e expected (u, ds) (k, m) = (Inr (map_of expected u = None),
       (k', if map_of expected u = None then m else AList.update u (filter (\<lambda>(kid, _). expects expected u kid) ds) m))"
      using k'(1) by (simp add: deleteKeysOfUser_def onA_def bindA_def Let_def expects_def updA_def)
  qed
qed

text \<open>What remains of a user's entries while the users are gone through.\<close>

definition trim :: "cryptKeys \<Rightarrow> UID \<times> DeviceKeyInfoMap \<Rightarrow> UID \<times> DeviceKeyInfoMap" where
  "trim expected uk =
     (if map_of expected (fst uk) = None then uk else (fst uk, filter (\<lambda>(kid, _). expects expected (fst uk) kid) (snd uk)))"

lemma update_middle: "u \<notin> fst ` set A \<Longrightarrow> AList.update u v (A @ (u, w) # B) = A @ (u, v) # B"
  by (induction A) auto

definition deleteStep :: "keyEnv \<Rightarrow> cryptKeys \<Rightarrow> UID list \<Rightarrow> UID \<times> DeviceKeyInfoMap \<Rightarrow> (keyState \<times> UserDeviceKeyInfoMap, key_error, UID list) act" where
  "deleteStep e expected =
     (\<lambda>usersToDelete uk. bindA (deleteKeysOfUser e expected uk) (\<lambda>del. retA (if del then usersToDelete @ [fst uk] else usersToDelete)))"

lemma deleteKeys_fold:
  assumes "kvReliable (ke_kv e)" and "\<not> ks_shutdown k" and "distinct (map fst (before @ rest))"
  shows "\<exists>k'. foldA (deleteStep e expected) us rest (k, before @ rest) =
      (Inr (us @ map fst (filter (\<lambda>uk. map_of expected (fst uk) = None) rest)), (k', before @ map (trim expected) rest)) \<and>
    forgets (removedIDs expected rest) k k'"
  using assms(2,3)
proof (induction rest arbitrary: us k before)
  case Nil
  then show ?case using forgets_none by (simp add: removedIDs_def)
next
  case (Cons uk rest)
  obtain u ds where uk: "uk = (u, ds)" by (cases uk)
  obtain k1 where k1: "deleteKeysOfUser e expected (u, ds) (k, before @ (u, ds) # rest) = (Inr (map_of expected u = None),
       (k1, if map_of expected u = None then before @ (u, ds) # rest
            else AList.update u (filter (\<lambda>(kid, _). expects expected u kid) ds) (before @ (u, ds) # rest)))"
    "forgets (halfIDs (filter (\<lambda>(kid, _). \<not> expects expected u kid) ds)) k k1"
    by (rule deleteKeysOfUser_run[OF assms(1) Cons.prems(1)])
  have "u \<notin> fst ` set before" using Cons.prems(2) by (auto simp: uk)
  then have "deleteKeysOfUser e expected (u, ds) (k, before @ (u, ds) # rest) =
      (Inr (map_of expected u = None), (k1, before @ trim expected (u, ds) # rest))" using k1(1) by (simp add: update_middle trim_def)
  then have step: "deleteStep e expected us (u, ds) (k, before @ (u, ds) # rest) =
      (Inr (if map_of expected u = None then us @ [u] else us), (k1, before @ trim expected (u, ds) # rest))" by (simp add: deleteStep_def bindA_def)
  have "fst (trim expected (u, ds)) = u" by (simp add: trim_def)
  then have "distinct (map fst ((before @ [trim expected (u, ds)]) @ rest))" using Cons.prems(2) by (simp add: uk)
  moreover have "\<not> ks_shutdown k1" using forgets_up[OF k1(2)] Cons.prems(1) by simp
  ultimately obtain k2 where k2: "foldA (deleteStep e expected) (if map_of expected u = None then us @ [u] else us) rest
        (k1, (before @ [trim expected (u, ds)]) @ rest) =
      (Inr ((if map_of expected u = None then us @ [u] else us) @ map fst (filter (\<lambda>uk. map_of expected (fst uk) = None) rest)),
       (k2, (before @ [trim expected (u, ds)]) @ map (trim expected) rest))" "forgets (removedIDs expected rest) k1 k2"
    using Cons.IH by blast
  have "forgets (removedIDs expected (uk # rest)) k k2" using forgets_trans[OF k1(2) k2(2)] by (simp add: removedIDs_def uk)
  then show ?case using k2(1) by (intro exI[of _ k2]) (simp add: uk step)
qed

lemma deleteKeys_run:
  assumes "kvReliable (ke_kv e)" and "\<not> ks_shutdown k" and "distinct (map fst info)"
  obtains k' where "deleteKeysForRemovedDevices e expected (k, info) =
      (Inr (), (k', map (\<lambda>(u, ds). (u, filter (\<lambda>(kid, _). expects expected u kid) ds)) (filter (\<lambda>(u, _). map_of expected u \<noteq> None) info)))"
    and "forgets (removedIDs expected info) k k'"
proof -
  from deleteKeys_fold[OF assms(1,2), of "[]" info expected "[]"] assms(3) obtain k' where
    k': "foldA (deleteStep e expected) [] info (k, info) =
      (Inr (map fst (filter (\<lambda>uk. map_of expected (fst uk) = None) info)), (k', map (trim expected) info))"
    "forgets (removedIDs expected info) k k'" by auto
  have "filter (\<lambda>(u, _). u \<notin> set (map fst (filter (\<lambda>uk. map_of expected (fst uk) = None) info))) (map (trim expected) part) =
      map (\<lambda>(u, ds). (u, filter (\<lambda>(kid, _). expects expected u kid) ds)) (filter (\<lambda>(u, _). map_of expected u \<noteq> None) part)"
    if "set part \<subseteq> set info" for part
    using that by (induction part) (force simp: trim_def)+
  from this[of info] k' that show thesis by (simp add: deleteKeysForRemovedDevices_def[folded deleteStep_def] updA_def)
qed

end
