(* ===== verification/Kbfs_Key_Props.thy ===== *)
theory Kbfs_Key_Props
  imports Kbfs_Key_Access Kbfs_MD_Server_Props
begin

text \<open>
  The key manager together with the key server and the key bundles: the keys of a new folder reach the devices of its
  users, and a device that was removed cannot get its half of the key any more.
\<close>

section \<open>The first keys of a folder\<close>

text \<open>A device of a user, with a connection to the key server: its key is one of the user's published keys.\<close>

definition folderDevice :: "keyEnv \<Rightarrow> (byte list \<Rightarrow> byte list) \<Rightarrow> keyEnv \<Rightarrow> UID \<Rightarrow> bool" where
  "folderDevice e pub e' u \<longleftrightarrow>
     ke_crypto e' = ke_crypto e \<and> ke_half e' = ke_half e \<and> kvReliable (ke_kv e') \<and> local_ok pub (ke_device e') \<and>
     (\<exists>name. te_currentUser (ke_tlf e') = Inr (name, u)) \<and> ke_currentKey e' = Inr (getPublicKey (ke_device e')) \<and>
     (\<exists>keys. ke_cryptKeys e u = Inr keys \<and> getPublicKey (ke_device e') \<in> set keys)"

text \<open>
  C6: Rekeying a new private folder gives every device of its users the key. When a writer rekeys, the users' devices
  have published encryption keys and no two of the new server halves have the same ID, then \<open>Rekey\<close> returns a new
  key, and the folder has one key generation. Any device of a writer or reader then gets this key from the metadata and
  the key server, to encrypt and to decrypt blocks of that generation.
\<close>

theorem Rekey_new_folder:
  assumes "kvReliable (ke_kv e)" and "codec_ok (ke_half e) id" and "nacl_ok (ke_crypto e) pub" and "rand_ok (ke_crypto e)"
    and "\<not> ks_shutdown (rk_keys s)" and "newFolder e (rk_md s) handle"
    and "te_currentUser (ke_tlf e) = Inr (username, uid)" and "handle_IsWriter (th_BareTlfHandle handle) uid"
    and "keysPublished e (bh_Writers (th_BareTlfHandle handle))" and "keysPublished e (bh_Readers (th_BareTlfHandle handle))"
    and "MakeRandomTLFKeys (ke_crypto e) (ks_reads (rk_keys s)) = (Inr (pubKey, privKey, ePub, ePriv, key), n)"
    and "\<forall>sk bs. fillInDevices (ke_crypto e) (keysOf e (bh_Writers (th_BareTlfHandle handle))) (keysOf e (bh_Readers (th_BareTlfHandle handle)))
      ePub ePriv key (newBundles n pubKey) = (Inr sk, bs) \<longrightarrow> idsUnique (set (halvesIn sk))"
  shows "\<exists>s'. Rekey e False s = (Inr (True, Some key), s') \<and> md_LatestKeyGeneration (rk_md s') = 1 \<and>
    (\<forall>e' u t ptr. folderDevice e pub e' u \<and> u \<in> set (bh_Writers (th_BareTlfHandle handle) @ bh_Readers (th_BareTlfHandle handle)) \<and>
       ks_db t = ks_db (rk_keys s') \<and> \<not> ks_shutdown t \<and> cacheHas t (rm_ID (rk_md s)) 1 key \<and> bp_KeyGen ptr = 1 \<longrightarrow>
       fst (GetTLFCryptKeyForEncryption e' (rk_md s') t) = Inr key \<and>
       fst (GetTLFCryptKeyForBlockDecryption e' (rk_md s') ptr t) = Inr key)"
proof -
  let ?b = "th_BareTlfHandle handle"
  obtain s' halves wkb rkb where r: "Rekey e False s = (Inr (True, Some key), s')"
    "rm_ID (rk_md s') = rm_ID (rk_md s)" "getTLFKeyBundles (rk_md s') 1 = Inr (wkb, rkb)" "md_LatestKeyGeneration (rk_md s') = 1"
    "keysRecoverable (ke_crypto e) pub key halves wkb rkb" "serverHolds e (ks_db (rk_keys s')) halves wkb rkb"
    "\<forall>(u, keys) \<in> set (keysOf e (bh_Writers ?b @ bh_Readers ?b)). \<forall>k \<in> set keys. bundleInfo wkb rkb u (kc_kid k) \<noteq> None"
    by (rule Rekey_new_run[OF assms(1-11)]) (use assms(12) in blast)+
  have "fst (getTLFCryptKeyUsingCurrentDevice e' (rk_md s') 1 cache t) = Inr key"
    if d: "folderDevice e pub e' u" "u \<in> set (bh_Writers ?b @ bh_Readers ?b)" and t: "ks_db t = ks_db (rk_keys s')" "\<not> ks_shutdown t" "cacheHas t (rm_ID (rk_md s)) 1 key"
    for e' u t cache
  proof -
    from d(1) obtain name keys where f: "ke_crypto e' = ke_crypto e" "ke_half e' = ke_half e" "kvReliable (ke_kv e')" "local_ok pub (ke_device e')"
      "te_currentUser (ke_tlf e') = Inr (name, u)" "ke_currentKey e' = Inr (getPublicKey (ke_device e'))"
      "ke_cryptKeys e u = Inr keys" "getPublicKey (ke_device e') \<in> set keys" by (auto simp: folderDevice_def)
    have "(u, keys) \<in> set (keysOf e (bh_Writers ?b @ bh_Readers ?b))" using d(2) f(7) by (force simp: keysOf_def)
    then have i: "bundleInfo wkb rkb u (kc_kid (getPublicKey (ke_device e'))) \<noteq> None" using r(7) f(8) by blast
    have h: "serverHolds e' (ks_db t) halves wkb rkb" "keysRecoverable (ke_crypto e') pub key halves wkb rkb" "cacheHas t (rm_ID (rk_md s')) 1 key"
      using r(2,5,6) t f(1,2) by (simp_all add: serverHolds_def)
    show ?thesis using currentDevice_gets_key[OF f(3) t(2) f(5,6,4) r(3) _ h(2,1) i h(3)] r(4) by simp
  qed
  then show ?thesis using r(1,4)
    by (auto simp: GetTLFCryptKeyForEncryption_def GetTLFCryptKeyForBlockDecryption_def)
qed

definition ky_kv :: "byte list kvEnv" where
  "ky_kv = \<lparr>kv_fault = (\<lambda>n. None), kv_torn = (\<lambda>n. None)\<rparr>"

definition ky_device :: CryptoLocal where
  "ky_device = \<lparr>cl_signingPublic = replicate 32 0, cl_signingPrivate = [], cl_cryptPublic = replicate 32 0, cl_cryptPrivate = []\<rparr>"

definition ky_env :: keyEnv where
  "ky_env = \<lparr>ke_mds = sx_env, ke_half = anyCodec id, ke_encrypted = anyCodec id, ke_kv = ky_kv, ke_cryptKeys = (\<lambda>u. Inr [kx_device]),
     ke_currentKey = Inr kx_device, ke_device = ky_device, ke_identify = (\<lambda>name reason. Inr (name, name)), ke_arrive = id\<rparr>"

definition ky_bob :: keyEnv where
  "ky_bob = ky_env\<lparr>ke_mds := sx_bob\<rparr>"

definition ky_handle :: TlfHandle where
  "ky_handle = \<lparr>th_BareTlfHandle = \<lparr>bh_Writers = [''u1''], bh_Readers = [''u2''], bh_UnresolvedWriters = [],
     bh_UnresolvedReaders = [], bh_ConflictInfo = None\<rparr>, th_resolvedWriters = [(''u1'', ''alice'')], th_resolvedReaders = [(''u2'', ''bob'')],
     th_name = ''alice#bob''\<rparr>"

definition ky_keys :: keyState where
  "ky_keys = \<lparr>ks_db = \<lparr>kv_entries = [], kv_calls = 0\<rparr>, ks_shutdown = False, ks_cache = \<lparr>lru_size = 1, lru_evictList = []\<rparr>, ks_reads = 0\<rparr>"

definition ky_state :: rekeyState where
  "ky_state = \<lparr>rk_md = kx_md\<lparr>rm_WriterMetadata := zeroWriterMetadata\<lparr>wm_ID := TlfID (replicate 15 1 @ [TlfIDSuffix])\<rparr>, rm_tlfHandle := Some ky_handle\<rparr>,
     rk_mds = sx_empty, rk_keys = ky_keys\<rparr>"

definition ky_half :: TLFCryptKeyServerHalf where
  "ky_half = \<lparr>b32_data = replicate 32 7\<rparr>"

lemma ky_devices: "folderDevice ky_env (\<lambda>a. replicate 32 0) ky_env ''u1''" "folderDevice ky_env (\<lambda>a. replicate 32 0) ky_bob ''u2''"
  by (simp_all add: folderDevice_def ky_env_def ky_bob_def sx_env_def sx_bob_def mx_env_def tx_env_def ky_kv_def kvReliable_def
      local_ok_def ky_device_def getPublicKey_def kx_device_def)

lemma ky_new: "newFolder ky_env (rk_md ky_state) ky_handle"
  by (simp add: newFolder_def ky_state_def ky_handle_def Let_def TlfID_IsPublic_def id_consts kx_md_def zeroWriterMetadata_def
      handle_IsPublic_def ResolveAgain_def ResolveAgainForUser_def handle_DeepEqual_def sameNames_def PublicUID_def
      MakeBareTlfHandle_def sortUIDs_def sortAssertions_def nth_append)

lemma update_mem: "x \<in> set (AList.update k v m) \<Longrightarrow> x = (k, v) \<or> x \<in> set m"
  by (induction m) (auto split: if_splits)

lemma foldA_keeps:
  assumes "\<And>x b s x' s'. f x b s = (Inr x', s') \<Longrightarrow> P x \<Longrightarrow> P x'" and "foldA f x bs s = (Inr x', s')" and "P x"
  shows "P x'"
  using assms(2,3)
proof (induction bs arbitrary: x s)
  case (Cons b bs)
  then obtain x1 s1 where "f x b s = (Inr x1, s1)" "foldA f x1 bs s1 = (Inr x', s')" by (auto simp: bindA_def split: prod.splits sum.splits)
  then show ?case using Cons.IH Cons.prems(2) assms(1) by blast
qed simp

lemma ky_half_made: "makeKeyInfo cx_env u key p i d n = (Inr (info, h), n') \<Longrightarrow> h = ky_half"
  by (auto simp: makeKeyInfo_def MakeRandomTLFCryptKeyServerHalf_def cryptoRandRead_def cx_env_def ky_half_def Let_def bindA_def
      split: prod.splits sum.splits)

lemma ky_device_halves: "fillInDeviceInfo cx_env u key p i ks s = (Inr sm, s') \<Longrightarrow> \<forall>(kid, h) \<in> set sm. h = ky_half"
  unfolding fillInDeviceInfo_def
  by (erule foldA_keeps[rotated])
    (auto simp: fillInDevice_def dest!: update_mem ky_half_made split: prod.splits sum.splits if_splits)

lemma ky_user_halves:
  "fillInDevicesAndServerMap cx_env i keys p key sk s = (Inr sk', s') \<Longrightarrow> \<forall>(u, sm) \<in> set sk. \<forall>(kid, h) \<in> set sm. h = ky_half \<Longrightarrow>
   \<forall>(u, sm) \<in> set sk'. \<forall>(kid, h) \<in> set sm. h = ky_half"
  unfolding fillInDevicesAndServerMap_def
  by (erule foldA_keeps[rotated], assumption)
    (auto simp: fillInUser_def Let_def dest!: update_mem ky_device_halves split: prod.splits sum.splits if_splits)

lemma ky_halves:
  assumes "fillInDevices (ke_crypto ky_env) wKeys rKeys ePub ePriv key s = (Inr sk, bs)"
  shows "idsUnique (set (halvesIn sk))"
proof -
  have "ke_crypto ky_env = cx_env" by (simp add: ky_env_def sx_env_def mx_env_def)
  with fillInDevices_Inr[OF assms] have "\<forall>(u, sm) \<in> set sk. \<forall>(kid, h) \<in> set sm. h = ky_half"
    by (metis (no_types, lifting) ky_user_halves empty_iff empty_set)
  then have all: "h = ky_half" if "(u, kid, h) \<in> set (halvesIn sk)" for u kid h using that by (fastforce simp: halvesIn_def)
  show ?thesis unfolding idsUnique_def by (clarify, drule all, drule all, simp only:)
qed

theorem Rekey_new_folder_witness:
  "\<exists>s' key. Rekey ky_env False ky_state = (Inr (True, Some key), s') \<and> fst (GetTLFCryptKeyForEncryption ky_env (rk_md s') (ky_keys\<lparr>ks_db := ks_db (rk_keys s')\<rparr>)) = Inr key \<and>
     fst (GetTLFCryptKeyForEncryption ky_bob (rk_md s') (ky_keys\<lparr>ks_db := ks_db (rk_keys s')\<rparr>)) = Inr key"
proof -
  let ?pub = "\<lambda>a :: byte list. replicate 32 0 :: byte list" and ?z = "\<lparr>b32_data = replicate 32 0\<rparr>" and ?o = "\<lparr>b32_data = replicate 32 1\<rparr>"
    and ?k = "\<lparr>b32_data = replicate 32 7\<rparr>"
  have c: "ke_crypto ky_env = cx_env" by (simp add: ky_env_def sx_env_def mx_env_def)
  have e: "kvReliable (ke_kv ky_env)" "codec_ok (ke_half ky_env) id" "nacl_ok (ke_crypto ky_env) ?pub" "rand_ok (ke_crypto ky_env)" "\<not> ks_shutdown (rk_keys ky_state)"
    "te_currentUser (ke_tlf ky_env) = Inr (''alice'', ''u1'')" "handle_IsWriter (th_BareTlfHandle ky_handle) ''u1''"
    using cx_env_ok ky_devices(1) by (simp_all add: c folderDevice_def) (simp_all add: ky_env_def ky_kv_def kvReliable_def anyCodec_ok ky_state_def ky_keys_def sx_env_def mx_env_def tx_env_def ky_handle_def handle_IsWriter_def findUserInList_def)
  have p: "keysPublished ky_env us" for us by (simp add: keysPublished_def ky_env_def kx_device_def dhKey_def)
  have r: "MakeRandomTLFKeys (ke_crypto ky_env) (ks_reads (rk_keys ky_state)) = (Inr (?z, ?o, ?z, ?o, ?k), 3)"
    by (simp add: c MakeRandomTLFKeys_def makeKeyPair_def cx_env_def cryptoRandRead_def ky_state_def ky_keys_def bindA_def)
  have b: "bh_Writers (th_BareTlfHandle ky_handle) = [''u1'']" "bh_Readers (th_BareTlfHandle ky_handle) = [''u2'']" by (simp_all add: ky_handle_def)
  have "\<forall>sk bs. fillInDevices (ke_crypto ky_env) (keysOf ky_env (bh_Writers (th_BareTlfHandle ky_handle))) (keysOf ky_env (bh_Readers (th_BareTlfHandle ky_handle)))
      ?z ?o ?k (newBundles 3 ?z) = (Inr sk, bs) \<longrightarrow> idsUnique (set (halvesIn sk))" using ky_halves by blast
  from Rekey_new_folder[OF e(1-5) ky_new e(6,7) p p r this, unfolded b] obtain s' where s': "Rekey ky_env False ky_state = (Inr (True, Some ?k), s')"
    and get: "\<forall>e' u t ptr. folderDevice ky_env ?pub e' u \<and> u \<in> set ([''u1''] @ [''u2'']) \<and> ks_db t = ks_db (rk_keys s') \<and> \<not> ks_shutdown t \<and>
      cacheHas t (rm_ID (rk_md ky_state)) 1 ?k \<and> bp_KeyGen ptr = 1 \<longrightarrow>
      fst (GetTLFCryptKeyForEncryption e' (rk_md s') t) = Inr ?k \<and> fst (GetTLFCryptKeyForBlockDecryption e' (rk_md s') ptr t) = Inr ?k" by blast
  note get = get[rule_format, where ptr = "zeroPtr\<lparr>bp_KeyGen := 1\<rparr>"]
  let ?t = "ky_keys\<lparr>ks_db := ks_db (rk_keys s')\<rparr>"
  have t: "ks_db ?t = ks_db (rk_keys s')" "\<not> ks_shutdown ?t" "cacheHas ?t (rm_ID (rk_md ky_state)) 1 ?k"
    by (simp_all add: ky_keys_def cacheHas_def)
  show ?thesis using s' get[of ky_env "''u1''" ?t] get[of ky_bob "''u2''" ?t] t ky_devices by auto
qed

section \<open>Devices that were removed\<close>

text \<open>
  C12: Deleting the keys of removed devices leaves the entries of exactly the expected devices of expected users in the
  bundle. The key server has lost the halves with the IDs of the entries that went away and keeps all others, so
  that asking for the half of a removed device fails, for any device that asks.
\<close>

theorem deleteKeysForRemovedDevices_revokes:
  assumes "kvReliable (ke_kv e)" and "\<not> ks_shutdown k" and "distinct (map fst info)"
  shows "\<exists>k'. deleteKeysForRemovedDevices e expected (k, info) =
      (Inr (), (k', map (\<lambda>(u, ds). (u, filter (\<lambda>(kid, _). expects expected u kid) ds)) (filter (\<lambda>(u, _). map_of expected u \<noteq> None) info))) \<and>
    kvLookup (ks_db k') = (\<lambda>x. if x \<in> removedIDs expected info then None else kvLookup (ks_db k) x) \<and>
    (\<forall>u ds kid i e' key. (u, ds) \<in> set info \<and> (kid, i) \<in> set ds \<and> \<not> expects expected u kid \<and> kvReliable (ke_kv e') \<longrightarrow>
       fst (GetTLFCryptKeyServerHalf e' (ki_ServerHalfID i) key k') = Inl (Error (KeyDbError NotFound)))"
proof -
  obtain k' where k': "deleteKeysForRemovedDevices e expected (k, info) =
      (Inr (), (k', map (\<lambda>(u, ds). (u, filter (\<lambda>(kid, _). expects expected u kid) ds)) (filter (\<lambda>(u, _). map_of expected u \<noteq> None) info)))"
    "forgets (removedIDs expected info) k k'" by (rule deleteKeys_run[OF assms])
  then have d: "kvLookup (ks_db k') = (\<lambda>x. if x \<in> removedIDs expected info then None else kvLookup (ks_db k) x)" and up: "\<not> ks_shutdown k'"
    using assms(2) by (auto simp: forgets_def)
  have "fst (GetTLFCryptKeyServerHalf e' (ki_ServerHalfID i) key k') = Inl (Error (KeyDbError NotFound))"
    if "(u, ds) \<in> set info" "(kid, i) \<in> set ds" "\<not> expects expected u kid" "kvReliable (ke_kv e')" for u ds kid i e' key
  proof -
    have "HMAC_Bytes (shid_ID (ki_ServerHalfID i)) \<in> removedIDs expected info"
      using that(1-3) unfolding removedIDs_def halfIDs_def by force
    then show ?thesis by (simp add: GetTLFCryptKeyServerHalf_def server_GetTLFCryptKeyServerHalf_def bindA_def keyDb_run[OF that(4) up] d)
  qed
  then show ?thesis using k'(1) d by blast
qed

definition ky_info :: "byte \<Rightarrow> TLFCryptKeyInfo" where
  "ky_info b = kx_info\<lparr>ki_ServerHalfID := TLFCryptKeyServerHalfID (HMAC (Hash [b]))\<rparr>"

definition ky_old :: keyState where
  "ky_old = ky_keys\<lparr>ks_db := \<lparr>kv_entries = [([1], [11]), ([2], [12])], kv_calls = 0\<rparr>\<rparr>"

theorem deleteKeysForRemovedDevices_revokes_witness:
  "\<exists>k'. deleteKeysForRemovedDevices ky_env [(''u1'', [kx_device])]
      (ky_old, [(''u1'', [(kc_kid kx_device, ky_info 1)]), (''u2'', [(kc_kid kx_device, ky_info 2)])]) =
      (Inr (), (k', [(''u1'', [(kc_kid kx_device, ky_info 1)])])) \<and>
    kvLookup (ks_db k') [1] = Some [11] \<and> kvLookup (ks_db k') [2] = None"
proof -
  let ?x = "[(''u1'', [kx_device])]" and ?i = "[(''u1'', [(kc_kid kx_device, ky_info 1)]), (''u2'', [(kc_kid kx_device, ky_info 2)])]"
  have "kvReliable (ke_kv ky_env)" "\<not> ks_shutdown ky_old" "distinct (map fst ?i)"
    by (simp_all add: ky_env_def ky_kv_def kvReliable_def ky_old_def ky_keys_def)
  from deleteKeysForRemovedDevices_revokes[OF this, of ?x] obtain k' where
    k': "deleteKeysForRemovedDevices ky_env ?x (ky_old, ?i) =
      (Inr (), (k', map (\<lambda>(u, ds). (u, filter (\<lambda>(kid, _). expects ?x u kid) ds)) (filter (\<lambda>(u, _). map_of ?x u \<noteq> None) ?i)))"
    "kvLookup (ks_db k') = (\<lambda>x. if x \<in> removedIDs ?x ?i then None else kvLookup (ks_db ky_old) x)" by blast
  have "removedIDs ?x ?i = {[2]}" by (auto simp: removedIDs_def halfIDs_def expects_def ky_info_def HMAC_Bytes_def)
  then show ?thesis using k' by (simp add: expects_def ky_old_def kvLookup_def)
qed

end
