(* ===== verification/Spec2Isabelle.thy ===== *)
theory Spec2Isabelle
  imports Kbfs_Prelude Kbfs_Hash Kbfs_Data_Types Kbfs_Block_Splitter Kbfs_Leveled_Mutex Kbfs_Lru
    Kbfs_Block_Cache Kbfs_Write_Ranges Kbfs_Ops Kbfs_Cr_Chains Kbfs_File_Chunks Kbfs_Folder_Block_Ops
    Kbfs_File_Io Kbfs_File_Write Kbfs_File_Ops Kbfs_File_Props Kbfs_Strings Kbfs_Storage Kbfs_Block_Server
    Kbfs_Tlf_Handle Kbfs_Conflict_Info Kbfs_Tlf_Name Kbfs_Crypto Kbfs_Key_Bundle Kbfs_Root_Metadata Kbfs_Codec
    Kbfs_Metadata_Props Kbfs_MD_Server Kbfs_MD_Keys Kbfs_MD_Log Kbfs_MD_Access Kbfs_MD_Server_Props
    Kbfs_Key_Manager Kbfs_Key_Access Kbfs_Key_Props
begin

text \<open>
  A model of the core of KBFS (src/kbfs/libkbfs), the Keybase file system, with the theorems that make it
  correct. All paths below are under src/kbfs/libkbfs unless they say otherwise.

  \<^bold>\<open>The program.\<close> A file of a top-level folder is a tree of blocks. A block is stored on a block server under
  the hash of its encrypted form, and a \<open>BlockPointer\<close> names it. \<open>folderBlockOps\<close> reads and changes files on top
  of the block cache, and splits data into blocks with the block splitter. Changed blocks stay dirty in the
  cache until a sync, and each change is recorded as an operation (\<open>op\<close>). When two devices have changed a folder,
  conflict resolution arranges the operations of both into chains, one for each changed block. Everything runs
  under mutexes with levels. Each revision of a folder has metadata (\<open>RootMetadata\<close>), which names the root of its
  blocks, the operations that led to it, its writers and readers, and the keys of their devices; it is signed, put on
  a metadata server, and follows the revision before it.

  \<^bold>\<open>The theories\<close>, in the order in which they build on each other:
  \<^item> \<open>Kbfs_Prelude\<close>: machine integers as the source has them (\<open>wrap64\<close> is what an int64 operation does to its
    result), results with errors and panics, and the actions that thread a state.
  \<^item> \<open>Kbfs_Hash\<close>: hash.go, block\_id.go, md\_id.go, tlf\_id.go, branch\_id.go, with SHA-256, HMAC and hexadecimal
    strings of the Go library. The forms of hashes and IDs are inverse to each other; verification accepts
    exactly the right hash.
  \<^item> \<open>Kbfs_Data_Types\<close>: data\_types.go, block\_types.go, dir\_entry.go.
  \<^item> \<open>Kbfs_Block_Splitter\<close>: bsplitter\_simple.go. \<open>CopyUntilSplit\<close> writes the longest prefix that fits, and the
    search for the block size ends with the desired encoded size.
  \<^item> \<open>Kbfs_Leveled_Mutex\<close>: leveled\_mutex.go, with several flows that lock and unlock as a step relation over the
    mutexes of package sync, which have a state of their own. No reachable state is a deadlock, and the stacks of the flows say
    exactly who has which mutex.
  \<^item> \<open>Kbfs_Lru\<close> and \<open>Kbfs_Block_Cache\<close>: the vendored LRU cache and bcache.go. The byte counter is exact and within
    the capacity, lookups answer from the right store; two ways in which the counter goes wrong.
  \<^item> \<open>Kbfs_Write_Ranges\<close> and \<open>Kbfs_Ops\<close>: ops.go. A collapsed list of writes says of every byte what the writes say.
  \<^item> \<open>Kbfs_Cr_Chains\<close>: cr\_chains.go. The indices of the chains stay consistent, pointers are tracked as in the
    history, and it is exact which names of a directory collapsing keeps.
  \<^item> \<open>Kbfs_Folder_Block_Ops\<close>: folder\_block\_ops.go; \<open>Kbfs_File_Chunks\<close>, \<open>Kbfs_File_Io\<close>, \<open>Kbfs_File_Write\<close> and
    \<open>Kbfs_File_Ops\<close> prove that it implements flat files, through the locale \<open>flat_file\<close>; \<open>Kbfs_File_Props\<close> states
    it. Blocks are objects in a heap there, since the code shares and changes them.
  \<^item> \<open>Kbfs_Strings\<close>: the functions of the Go packages strings and filepath that the code calls.
  \<^item> \<open>Kbfs_Storage\<close>: a key-value store whose calls may fail, which stands for the disk and for LevelDB.
  \<^item> \<open>Kbfs_Block_Server\<close>: bserver\_local.go and bserver\_local\_storage.go. The locale \<open>block_storage\<close> says what a
    storage promises, and the storages in memory, in files and in LevelDB implement it, so the servers over them
    give the same answers.
  \<^item> \<open>Kbfs_Tlf_Handle\<close>, \<open>Kbfs_Conflict_Info\<close> and \<open>Kbfs_Tlf_Name\<close>: tlf\_handle.go and conflict\_info.go, with the
    calendar of the Go package time. A handle does not depend on the order in which users are resolved, and a
    parsed name is the canonical name of its handle.
  \<^item> \<open>Kbfs_Crypto\<close>: crypto\_common.go, crypto\_local.go and crypto\_key\_types.go over the operations of NaCl, which
    \<open>nacl_ok\<close> says to be inverse to each other. A block that was encrypted is decrypted to the same block, and the
    size of the encrypted block tells only the power of two above its size.
  \<^item> \<open>Kbfs_Key_Bundle\<close> and \<open>Kbfs_Root_Metadata\<close>: key\_bundle.go and root\_metadata.go. \<open>Kbfs_Codec\<close> has a codec for
    every countable type, to show that what is assumed of the codec can hold. \<open>Kbfs_Metadata_Props\<close>: rekeying gives
    every device the key, and a reader's request for keys leaves the writers' part alone.
  \<^item> \<open>Kbfs_MD_Server\<close>: mdserver\_local.go over four key-value stores; \<open>Kbfs_MD_Keys\<close> is about the order of its keys,
    \<open>Kbfs_MD_Log\<close> about the log that it keeps for each folder, whatever fails, \<open>Kbfs_MD_Access\<close> about reads and
    puts when nothing fails, and \<open>Kbfs_MD_Server_Props\<close> states the properties, with a client that makes successors.
  \<^item> \<open>Kbfs_Key_Manager\<close>: key\_manager.go, key\_ops.go, keycache.go, key\_server\_local.go, identify\_util.go and
    \<open>decryptMDPrivateData\<close> of md\_util.go. \<open>Kbfs_Key_Access\<close> relates the halves on the key server (\<open>serverHolds\<close>) to
    the entries of the bundles (\<open>keysRecoverable\<close>), and \<open>Kbfs_Key_Props\<close> states the properties: the first rekey of a
    private folder gives each device of its users the key, and a removed device cannot get its half any more.

  \<^bold>\<open>Bounds and fuel.\<close> Loops that the code leaves after a known number of rounds are recursive functions with a
  termination proof. The write loop may run for ever, and its definition has fuel; a write takes at most one
  round for every byte and for every block of the gap before it, and \<open>Kbfs_File_Props.fbo_Write_hangs\<close> is about
  files for which no fuel is enough. \<open>fe_levels\<close> bounds the depth of indirect blocks; the code makes one level.
  New block IDs are drawn at random, and the theorems assume that the next \<open>N\<close> of them are fresh, where \<open>N\<close> is
  large enough for the operations at hand.

  \<^bold>\<open>Idealisations.\<close>
  \<^item> The block server is asked only about pointers of the folder (\<open>fe_known\<close>), each with the kind of block that it
    names, and two of them with the same ID name one block (\<open>server_ok\<close>). Nothing is assumed of other requests: an empty file block and an
    empty directory have the same encoding, and what a fetch gives depends on the key generation too.
  \<^item> A file operation is one step. The code gives up \<open>blockLock\<close> while a reader fetches a block, and another
    operation may run then.
  \<^item> A single write to a key-value store that fails may leave any value behind (\<open>kv_torn\<close>). A batch that fails has done
    nothing; LevelDB writes batches as one record of its journal, but an error may come after that record was written.
  \<^item> An empty list stands for a nil slice and for an empty one. The comparison with \<open>reflect.DeepEqual\<close> in \<open>MakeTlfHandle\<close> tells
    them apart. Calls are not cancelled through their context.
  \<^item> A promoted reader without keys in an old generation makes \<open>promoteReader\<close> panic at once; the code panics a few lines
    later, when it writes to the nil map.

  \<^bold>\<open>Not modelled\<close>: the operations of NaCl, the codec and the Keybase service, which are parameters where the
  code calls them; goroutines that wait for each other over channels; network clients, command line programs and
  the FUSE adapters, which only translate calls.
\<close>

end
